(* ===== verification/Prelude.thy ===== *)
theory Prelude
  imports Main "HOL-Library.Word" "HOL-Library.Sublist"
begin

text \<open>
  Shared vocabulary of the development: the machine integer types of the Go sources, the
  proof collections of the components, the binary search of Go's package \<open>sort\<close>, and
  generic facts on words and sorted lists.
\<close>

unbundle bit_operations_syntax

section \<open>Machine integers\<close>

type_synonym u8 = "8 word"
type_synonym u16 = "16 word"
type_synonym u32 = "32 word"
type_synonym u64 = "64 word"
type_synonym u128 = "128 word"

abbreviation u32_max :: u32 where
  "u32_max \<equiv> - 1"

text \<open>A Go \<^verbatim>\<open>int\<close> has 64 bits: what an operation on two of them gives, from the exact number.\<close>

definition go_int :: "int \<Rightarrow> int" where
  "go_int x = signed_take_bit 63 x"

section \<open>Proof collections\<close>

named_theorems denotation \<open>what address set an interval list stands for\<close>
named_theorems go_string \<open>rewriting of the operations of package strings\<close>
named_theorems wire_simps \<open>layout of encoded DNS messages\<close>

section \<open>Words: masks and aligned blocks\<close>

lemma unat_and_mask: "unat (w AND mask n :: 'a::len word) = unat w mod 2 ^ n"
  by (simp flip: take_bit_eq_mask take_bit_eq_mod add: unsigned_take_bit_eq)

lemma and_mask_split: "(w AND mask n) + (w AND NOT (mask n)) = (w::'a::len word)"
proof -
  have "(w AND mask n) + (w AND NOT (mask n)) = (w AND mask n) OR (w AND NOT (mask n))"
    by (rule disjunctive_add_eq_or) (simp add: bit_eq_iff bit_simps)
  also have "\<dots> = w"
    by (rule bit_eqI) (auto simp: bit_simps)
  finally show ?thesis .
qed

lemma unat_and_not_mask: "unat (w AND NOT (mask n) :: 'a::len word) = unat w - unat w mod 2 ^ n"
proof -
  have "w AND NOT (mask n) = w - (w AND mask n)"
    using and_mask_split [of w n] by (simp add: algebra_simps)
  moreover have "(w AND mask n) \<le> w"
    by (simp add: word_le_nat_alt unat_and_mask)
  ultimately show ?thesis by (simp add: unat_sub unat_and_mask)
qed

lemma unat_mask: "n \<le> LENGTH('a::len) \<Longrightarrow> unat (mask n :: 'a word) = 2 ^ n - 1"
proof -
  assume n: "n \<le> LENGTH('a)"
  have "unat (mask n :: 'a word) = unat (- 1 AND mask n :: 'a word)" by simp
  also have "\<dots> = (2 ^ LENGTH('a) - 1) mod 2 ^ n"
    by (subst unat_and_mask) (simp add: unsigned_minus_1_eq_mask mask_eq_exp_minus_1)
  also have "\<dots> = 2 ^ n - 1" using mask_mod_exp [of "LENGTH('a)" n, where ?'a = nat] n
    by (simp add: min_absorb1)
  finally show ?thesis .
qed

text \<open>
  An aligned block: the words that agree with \<open>w\<close> above bit \<open>n\<close> are an interval, from
  \<open>w\<close> with its low bits cleared to the same with them set.
\<close>

lemma block_bound:
  "n \<le> LENGTH('a::len) \<Longrightarrow>
   unat (w AND NOT (mask n) :: 'a word) + 2 ^ n \<le> 2 ^ LENGTH('a)"
proof -
  assume n: "n \<le> LENGTH('a)"
  have "unat w < 2 ^ LENGTH('a)" by simp
  then have "unat w div 2 ^ n < 2 ^ (LENGTH('a) - n)"
    using n by (simp add: less_mult_imp_div_less flip: power_add)
  then have "(unat w div 2 ^ n + 1) * 2 ^ n \<le> 2 ^ (LENGTH('a) - n) * 2 ^ n"
    by (intro mult_le_mono1) simp
  also have "\<dots> = 2 ^ LENGTH('a)" using n by (simp flip: power_add)
  finally show ?thesis
    by (simp add: unat_and_not_mask minus_mod_eq_div_mult algebra_simps)
qed

lemma unat_block_end:
  "n \<le> LENGTH('a::len) \<Longrightarrow>
   unat ((w AND NOT (mask n)) + mask n :: 'a word) = unat (w AND NOT (mask n)) + (2 ^ n - 1)"
proof -
  assume n: "n \<le> LENGTH('a)"
  have "unat (w AND NOT (mask n)) + unat (mask n :: 'a word) < 2 ^ LENGTH('a)"
    using block_bound [OF n, of w] one_le_power [of "2::nat" n] unfolding unat_mask [OF n] by linarith
  then show ?thesis using n by (simp add: unat_word_ariths unat_mask)
qed

lemma div_eq_iff_interval: "0 < (k::nat) \<Longrightarrow> x div k = q \<longleftrightarrow> q * k \<le> x \<and> x < (q + 1) * k"
  by (metis Suc_eq_plus1 div_less_iff_less_mult le_antisym less_Suc_eq_le less_eq_div_iff_mult_less_eq
      order_refl)

lemma block_iff:
  fixes x w :: "'a::len word"
  assumes n: "n \<le> LENGTH('a)"
  shows "x AND NOT (mask n) = w AND NOT (mask n) \<longleftrightarrow>
    w AND NOT (mask n) \<le> x \<and> x \<le> (w AND NOT (mask n)) + mask n"
proof -
  let ?k = "2 ^ n :: nat"
  have lo: "unat (w AND NOT (mask n)) = unat w div ?k * ?k"
    and lx: "unat (x AND NOT (mask n)) = unat x div ?k * ?k"
    by (simp_all add: unat_and_not_mask minus_mod_eq_div_mult)
  have "x AND NOT (mask n) = w AND NOT (mask n) \<longleftrightarrow> unat x div ?k = unat w div ?k"
    by (simp add: word_unat_eq_iff lo lx)
  also have "\<dots> \<longleftrightarrow> unat w div ?k * ?k \<le> unat x \<and> unat x < (unat w div ?k + 1) * ?k"
    by (rule div_eq_iff_interval) simp
  also have "\<dots> \<longleftrightarrow> w AND NOT (mask n) \<le> x \<and> x \<le> (w AND NOT (mask n)) + mask n"
    unfolding word_le_nat_alt unat_block_end [OF n] lo add_mult_distrib mult_1
    using one_le_power [of "2::nat" n] by linarith
  finally show ?thesis .
qed

lemma uint_block_end:
  assumes "n \<le> LENGTH('a::len)"
  shows "uint ((w AND NOT (mask n)) + mask n :: 'a word) = uint (w AND NOT (mask n)) + (2 ^ n - 1)"
proof -
  have "unat ((w AND NOT (mask n)) + mask n) + 1 = unat (w AND NOT (mask n)) + 2 ^ n"
    using unat_block_end [OF assms, of w] one_le_power [of "2::nat" n] by linarith
  then have "int (unat ((w AND NOT (mask n)) + mask n) + 1) = int (unat (w AND NOT (mask n)) + 2 ^ n)"
    by (rule arg_cong)
  then show ?thesis by simp
qed

lemma block_iff_uint:
  fixes x w :: "'a::len word"
  assumes "n \<le> LENGTH('a)"
  shows "x AND NOT (mask n) = w AND NOT (mask n) \<longleftrightarrow>
    uint (w AND NOT (mask n)) \<le> uint x \<and> uint x \<le> uint (w AND NOT (mask n)) + (2 ^ n - 1)"
  unfolding block_iff [OF assms] word_le_def uint_block_end [OF assms] ..

lemma block_bound_uint:
  "n \<le> LENGTH('a::len) \<Longrightarrow> uint (w AND NOT (mask n) :: 'a word) + 2 ^ n \<le> 2 ^ LENGTH('a)"
proof -
  assume "n \<le> LENGTH('a)"
  then have "int (unat (w AND NOT (mask n)) + 2 ^ n) \<le> int (2 ^ LENGTH('a))"
    using block_bound [of n w] by (simp only: of_nat_le_iff)
  then show ?thesis by simp
qed

lemma xor_eq_0: "x XOR w = 0 \<longleftrightarrow> x = (w :: 'a::len word)"
  by (metis xor.assoc xor.right_neutral xor_self_eq xor.left_neutral)

lemma drop_bit_eq_iff:
  "drop_bit n (x :: 'a::len word) = drop_bit n w \<longleftrightarrow> x AND NOT (mask n) = w AND NOT (mask n)"
proof
  assume "drop_bit n x = drop_bit n w"
  then have "push_bit n (drop_bit n x) = push_bit n (drop_bit n w)" by simp
  moreover have "push_bit n (drop_bit n y) = y AND NOT (mask n)" for y :: "'a word"
    by (intro bit_word_eqI) (auto simp: bit_simps)
  ultimately show "x AND NOT (mask n) = w AND NOT (mask n)" by simp
next
  assume "x AND NOT (mask n) = w AND NOT (mask n)"
  then have "drop_bit n (x AND NOT (mask n)) = drop_bit n (w AND NOT (mask n))" by simp
  moreover have "drop_bit n (y AND NOT (mask n)) = drop_bit n y" for y :: "'a word"
    by (intro bit_word_eqI) (auto simp: bit_simps dest: bit_imp_le_length)
  ultimately show "drop_bit n x = drop_bit n w" by simp
qed

lemma xor_clear_iff:
  "(x XOR w) AND NOT (mask n) = 0 \<longleftrightarrow> x AND NOT (mask n) = (w AND NOT (mask n) :: 'a::len word)"
proof -
  have "(x XOR w) AND NOT (mask n) = (x AND NOT (mask n)) XOR (w AND NOT (mask n))"
    by (intro bit_word_eqI) (auto simp: bit_simps)
  then show ?thesis by (simp add: xor_eq_0)
qed

lemma drop_xor_iff:
  "drop_bit n (x XOR w) = 0 \<longleftrightarrow> x AND NOT (mask n) = (w AND NOT (mask n) :: 'a::len word)"
  by (simp add: drop_bit_xor xor_eq_0 drop_bit_eq_iff)

lemma and_mask_0_iff_dvd: "(k::int) AND (2 ^ n - 1) = 0 \<longleftrightarrow> 2 ^ n dvd k"
  by (simp add: dvd_eq_mod_eq_0 flip: mask_eq_exp_minus_1 take_bit_eq_mask take_bit_eq_mod)

lemma unat_succ_less: "a < (b :: 'a::len word) \<Longrightarrow> unat (a + 1) = unat a + 1"
proof -
  assume "a < b"
  then have "unat a + 1 \<le> unat b" by (simp add: word_less_nat_alt)
  moreover have "unat b < 2 ^ LENGTH('a)" by simp
  ultimately have "unat a + 1 < 2 ^ LENGTH('a)" by linarith
  then show ?thesis by (simp add: unat_word_ariths)
qed

lemma uint_succ_less: "a < (b :: 'a::len word) \<Longrightarrow> uint (a + 1) = uint a + 1"
  using arg_cong [OF unat_succ_less, of a b int] by simp

lemma uint_pred_less: "a < (b :: 'a::len word) \<Longrightarrow> uint (b - 1) = uint b - 1"
proof -
  assume ab: "a < b"
  have "uint a < uint b" using ab by (simp add: word_less_def)
  moreover have "0 \<le> uint a" by simp
  moreover have "uint b < 2 ^ LENGTH('a)" by simp
  ultimately have "0 \<le> uint b - 1 \<and> uint b - 1 < 2 ^ LENGTH('a)" by linarith
  then show ?thesis by (simp add: uint_word_ariths)
qed

lemma uint_sub_ge: "b \<le> (a :: 'a::len word) \<Longrightarrow> uint (a - b) = uint a - uint b"
proof -
  assume "b \<le> a"
  then have "0 \<le> uint a - uint b" by (simp add: word_le_def)
  moreover have "uint a - uint b < 2 ^ LENGTH('a)"
    using uint_lt2p [of a] uint_ge_0 [of b] by linarith
  ultimately show ?thesis by (simp add: uint_word_ariths)
qed

section \<open>Results\<close>

text \<open>A fallible call: \<open>Inl\<close> the error, \<open>Inr\<close> the value. The code returns on the first error.\<close>

fun bind_res :: "'e + 'a \<Rightarrow> ('a \<Rightarrow> 'e + 'b) \<Rightarrow> 'e + 'b" where
  "bind_res (Inl e) f = Inl e"
| "bind_res (Inr x) f = f x"

lemma bind_res_eq_Inr: "bind_res r f = Inr y \<longleftrightarrow> (\<exists>x. r = Inr x \<and> f x = Inr y)"
  by (cases r) auto

lemma bind_res_eq_Inl: "bind_res r f = Inl e \<longleftrightarrow> r = Inl e \<or> (\<exists>x. r = Inr x \<and> f x = Inl e)"
  by (cases r) auto

section \<open>Binary search: sort.Search of the Go library\<close>

text \<open>
  \<^verbatim>\<open>sort.Search(n, f)\<close> keeps the invariant \<open>f (i - 1) = False\<close> and \<open>f j = True\<close> and halves
  the interval; \<open>int(uint(i+j) >> 1)\<close> is \<open>(i + j) div 2\<close>.
\<close>

function search_loop :: "(nat \<Rightarrow> bool) \<Rightarrow> nat \<Rightarrow> nat \<Rightarrow> nat" where
  "search_loop f i j =
     (if i < j
      then let h = (i + j) div 2 in
           if \<not> f h then search_loop f (h + 1) j else search_loop f i h
      else i)"
  by pat_completeness auto
termination
  by (relation "measure (\<lambda>(f, i, j). j - i)") auto

declare search_loop.simps [simp del]

definition sort_Search :: "nat \<Rightarrow> (nat \<Rightarrow> bool) \<Rightarrow> nat" where
  "sort_Search n f = search_loop f 0 n"

lemma search_loop_stop [simp]: "j \<le> i \<Longrightarrow> search_loop f i j = i"
  by (simp add: search_loop.simps)

lemma search_loop_step:
  assumes "i < j"
  shows "search_loop f i j =
    (if f ((i + j) div 2) then search_loop f i ((i + j) div 2) else search_loop f ((i + j) div 2 + 1) j)"
  using assms by (subst search_loop.simps) (simp add: Let_def)

lemma search_loop_bounds:
  "i \<le> j \<Longrightarrow> i \<le> search_loop f i j \<and> search_loop f i j \<le> j"
proof (induction "j - i" arbitrary: i j rule: less_induct)
  case less
  show ?case
  proof (cases "i < j")
    case True
    let ?h = "(i + j) div 2"
    from True have h: "i \<le> ?h" "?h < j" by auto
    have "i \<le> search_loop f i ?h \<and> search_loop f i ?h \<le> ?h"
      by (rule less.hyps) (use h in auto)
    moreover have "?h + 1 \<le> search_loop f (?h + 1) j \<and> search_loop f (?h + 1) j \<le> j"
      by (rule less.hyps) (use h in auto)
    ultimately show ?thesis using h by (simp add: search_loop_step [OF True])
  next
    case False
    with less.prems show ?thesis by simp
  qed
qed

lemma search_loop_mono:
  assumes mono: "\<And>a b. a \<le> b \<Longrightarrow> b < n \<Longrightarrow> f a \<Longrightarrow> f b"
  shows "\<lbrakk>i \<le> j; j \<le> n; \<And>k. k < i \<Longrightarrow> \<not> f k; \<And>k. j \<le> k \<Longrightarrow> k < n \<Longrightarrow> f k\<rbrakk>
    \<Longrightarrow> (\<forall>k < search_loop f i j. \<not> f k) \<and> (\<forall>k. search_loop f i j \<le> k \<and> k < n \<longrightarrow> f k)"
proof (induction "j - i" arbitrary: i j rule: less_induct)
  case less
  show ?case
  proof (cases "i < j")
    case True
    let ?h = "(i + j) div 2"
    from True less.prems have h: "i \<le> ?h" "?h < j" "?h < n" by auto
    show ?thesis
    proof (cases "f ?h")
      case fh: True
      have "(\<forall>k < search_loop f i ?h. \<not> f k) \<and> (\<forall>k. search_loop f i ?h \<le> k \<and> k < n \<longrightarrow> f k)"
        by (rule less.hyps) (use h less.prems mono [OF _ _ fh] in auto)
      then show ?thesis using fh by (simp add: search_loop_step [OF True])
    next
      case fh: False
      have low: "\<not> f k" if "k < ?h + 1" for k
        using mono [of k ?h] that h fh by auto
      have "(\<forall>k < search_loop f (?h + 1) j. \<not> f k) \<and>
          (\<forall>k. search_loop f (?h + 1) j \<le> k \<and> k < n \<longrightarrow> f k)"
        by (rule less.hyps) (use h less.prems low in auto)
      then show ?thesis using fh by (simp add: search_loop_step [OF True])
    qed
  next
    case False
    with less.prems show ?thesis by auto
  qed
qed

lemma search_loop_cong:
  "(\<And>k. k < n \<Longrightarrow> f k = g k) \<Longrightarrow> j \<le> n \<Longrightarrow> search_loop f i j = search_loop g i j"
proof (induction "j - i" arbitrary: i j rule: less_induct)
  case less
  show ?case
  proof (cases "i < j")
    case True
    let ?h = "(i + j) div 2"
    from True less.prems have h: "i \<le> ?h" "?h < j" "?h < n" by auto
    have "search_loop f i ?h = search_loop g i ?h" by (rule less.hyps) (use h less.prems in auto)
    moreover have "search_loop f (?h + 1) j = search_loop g (?h + 1) j"
      by (rule less.hyps) (use h less.prems in auto)
    ultimately show ?thesis using less.prems(1) [OF h(3)] by (simp add: search_loop_step [OF True])
  qed simp
qed

lemma sort_Search_cong: "(\<And>k. k < n \<Longrightarrow> f k = g k) \<Longrightarrow> sort_Search n f = sort_Search n g"
  unfolding sort_Search_def by (rule search_loop_cong [of n]) simp_all

text \<open>
  The contract of the Go library: for a predicate that stays true once it is true, the
  result is the least index where it holds, or \<open>n\<close> where there is none.
\<close>

lemma sort_Search_le: "sort_Search n f \<le> n"
  using search_loop_bounds [of 0 n f] by (simp add: sort_Search_def)

definition upward :: "nat \<Rightarrow> (nat \<Rightarrow> bool) \<Rightarrow> bool" where
  "upward n f \<longleftrightarrow> (\<forall>a b. a \<le> b \<longrightarrow> b < n \<longrightarrow> f a \<longrightarrow> f b)"

lemma sort_Search_least:
  assumes "upward n f"
  shows "k < sort_Search n f \<Longrightarrow> \<not> f k"
    and "sort_Search n f \<le> k \<Longrightarrow> k < n \<Longrightarrow> f k"
proof -
  have "(\<forall>k < search_loop f 0 n. \<not> f k) \<and> (\<forall>k. search_loop f 0 n \<le> k \<and> k < n \<longrightarrow> f k)"
    by (rule search_loop_mono) (use assms in \<open>auto simp: upward_def\<close>)
  then show "k < sort_Search n f \<Longrightarrow> \<not> f k"
    and "sort_Search n f \<le> k \<Longrightarrow> k < n \<Longrightarrow> f k"
    by (auto simp: sort_Search_def)
qed

lemma sort_Search_less_iff:
  assumes "upward n f"
  shows "sort_Search n f < n \<longleftrightarrow> (\<exists>k < n. f k)"
proof
  assume "sort_Search n f < n"
  with sort_Search_least(2) [OF assms, of "sort_Search n f"] show "\<exists>k < n. f k" by auto
next
  assume "\<exists>k < n. f k"
  then obtain k where "k < n" "f k" by blast
  with sort_Search_least(1) [OF assms, of k] have "\<not> k < sort_Search n f" by auto
  with \<open>k < n\<close> show "sort_Search n f < n" by simp
qed

end
