(* ===== verification/Go_Strings.thy ===== *)
theory Go_Strings
  imports Prelude Unicode_Case "HOL-Library.Char_ord" "HOL-Library.List_Lexorder"
begin

text \<open>
  The operations of Go's packages \<open>strings\<close>, \<open>unicode/utf8\<close> and \<open>strconv\<close> that the sources
  call. A Go string is a sequence of bytes, here an Isabelle \<^typ>\<open>string\<close> whose characters are
  the bytes; runes are code points. \<open>ToLower\<close> and \<open>ToUpper\<close> decode UTF-8 the way
  \<open>strings.Map\<close> does (an invalid byte becomes U+FFFD), \<open>TrimSpace\<close> and \<open>Fields\<close> know the
  Unicode white space.
\<close>

section \<open>Bytes and runes\<close>

abbreviation code :: "char \<Rightarrow> nat" where
  "code c \<equiv> of_char c"

abbreviation is_ascii :: "char \<Rightarrow> bool" where
  "is_ascii c \<equiv> code c < 128"

lemma code_less_256 [simp]: "code c < 256"
  using range_nat_of_char by (metis UNIV_I atLeastLessThan_iff image_eqI)

lemma char_of_code [simp]: "char_of (code c) = c"
  by simp

lemma code_char_of: "n < 256 \<Longrightarrow> code (char_of n) = n"
  by simp

text \<open>A string given by its bytes, for text that is not ASCII.\<close>

abbreviation bytes :: "nat list \<Rightarrow> string" where
  "bytes bs \<equiv> map char_of bs"

abbreviation cont_byte :: "nat \<Rightarrow> bool" where
  "cont_byte b \<equiv> 128 \<le> b \<and> b \<le> 191"

definition rune_error :: rune where
  "rune_error = 65533"

text \<open>
  \<open>utf8.DecodeRune\<close>: the code point at the front and its width; \<open>(RuneError, 1)\<close> where the
  bytes are no valid encoding. The second byte's range depends on the first (no overlong form,
  no surrogate, nothing above U+10FFFF).
\<close>

fun decode_rune :: "nat list \<Rightarrow> rune \<times> nat" where
  "decode_rune [] = (rune_error, 0)"
| "decode_rune (b0 # bs) =
     (if b0 < 128 then (b0, 1)
      else if 194 \<le> b0 \<and> b0 \<le> 223 then
        (case bs of
           b1 # _ \<Rightarrow> if cont_byte b1 then ((b0 - 192) * 64 + (b1 - 128), 2) else (rune_error, 1)
         | _ \<Rightarrow> (rune_error, 1))
      else if 224 \<le> b0 \<and> b0 \<le> 239 then
        (case bs of
           b1 # b2 # _ \<Rightarrow>
             if (if b0 = 224 then 160 else 128) \<le> b1 \<and> b1 \<le> (if b0 = 237 then 159 else 191)
                \<and> cont_byte b2
             then ((b0 - 224) * 4096 + (b1 - 128) * 64 + (b2 - 128), 3) else (rune_error, 1)
         | _ \<Rightarrow> (rune_error, 1))
      else if 240 \<le> b0 \<and> b0 \<le> 244 then
        (case bs of
           b1 # b2 # b3 # _ \<Rightarrow>
             if (if b0 = 240 then 144 else 128) \<le> b1 \<and> b1 \<le> (if b0 = 244 then 143 else 191)
                \<and> cont_byte b2 \<and> cont_byte b3
             then ((b0 - 240) * 262144 + (b1 - 128) * 4096 + (b2 - 128) * 64 + (b3 - 128), 4)
             else (rune_error, 1)
         | _ \<Rightarrow> (rune_error, 1))
      else (rune_error, 1))"

fun runes_of :: "nat list \<Rightarrow> rune list" where
  "runes_of [] = []"
| "runes_of (b # bs) =
     (let (r, w) = decode_rune (b # bs) in r # runes_of (drop (w - 1) bs))"

definition encode_rune :: "rune \<Rightarrow> nat list" where
  "encode_rune r =
     (if r < 128 then [r]
      else if 1114111 < r \<or> (55296 \<le> r \<and> r \<le> 57343) then [239, 191, 189]
      else if r < 2048 then [192 + r div 64, 128 + r mod 64]
      else if r < 65536 then [224 + r div 4096, 128 + r div 64 mod 64, 128 + r mod 64]
      else [240 + r div 262144, 128 + r div 4096 mod 64, 128 + r div 64 mod 64, 128 + r mod 64])"

text \<open>\<open>strings.Map\<close> with a mapping that drops no rune.\<close>

definition strings_Map :: "(rune \<Rightarrow> rune) \<Rightarrow> string \<Rightarrow> string" where
  "strings_Map f s = map char_of (concat (map (encode_rune \<circ> f) (runes_of (map of_char s))))"

section \<open>Case mapping\<close>

definition ascii_lower :: "char \<Rightarrow> char" where
  "ascii_lower c = (if 65 \<le> code c \<and> code c \<le> 90 then char_of (code c + 32) else c)"

definition ascii_upper :: "char \<Rightarrow> char" where
  "ascii_upper c = (if 97 \<le> code c \<and> code c \<le> 122 then char_of (code c - 32) else c)"

definition ToLower :: "string \<Rightarrow> string" where
  "ToLower s = (if list_all is_ascii s then map ascii_lower s else strings_Map unicode_ToLower s)"

definition ToUpper :: "string \<Rightarrow> string" where
  "ToUpper s = (if list_all is_ascii s then map ascii_upper s else strings_Map unicode_ToUpper s)"

abbreviation is_capital :: "char \<Rightarrow> bool" where
  "is_capital c \<equiv> 65 \<le> code c \<and> code c \<le> 90"

text \<open>
  Facts on \<open>ToLower\<close>: on ASCII text it lowers each byte; its result never holds an ASCII
  capital, also where a rune outside ASCII (U+0130, U+212A) is lowered into it.
\<close>

lemma encode_rune_bytes:
  assumes "b \<in> set (encode_rune r)"
  shows "b < 256" and "b < 128 \<Longrightarrow> b = r"
proof -
  have m: "128 + x mod 64 < 256" for x :: nat
    by (rule order.strict_trans2 [of _ "128 + 64"]) simp_all
  have "r div 64 < 32 \<or> \<not> r < 2048" "r div 4096 < 16 \<or> \<not> r < 65536"
    "r div 262144 < 5 \<or> 1114111 < r" by auto
  with assms m show "b < 256" by (auto simp: encode_rune_def split: if_splits)
  show "b < 128 \<Longrightarrow> b = r" using assms by (auto simp: encode_rune_def split: if_splits)
qed

lemma ToLower_ASCII [go_string]: "list_all is_ascii s \<Longrightarrow> ToLower s = map ascii_lower s"
  by (simp add: ToLower_def)

lemma ascii_lower_not_capital: "\<not> is_capital (ascii_lower c)"
  by (auto simp: ascii_lower_def)

lemma ascii_lower_id [simp]: "\<not> is_capital c \<Longrightarrow> ascii_lower c = c"
  by (auto simp: ascii_lower_def)

lemma ascii_lower_is_ascii [simp]: "is_ascii (ascii_lower c) = is_ascii c"
  by (auto simp: ascii_lower_def)

lemma ToLower_no_capital: "c \<in> set (ToLower s) \<Longrightarrow> \<not> is_capital c"
proof (cases "list_all is_ascii s")
  case True
  then show "c \<in> set (ToLower s) \<Longrightarrow> \<not> is_capital c"
    using ascii_lower_not_capital by (auto simp: ToLower_def)
next
  case False
  assume "c \<in> set (ToLower s)"
  then obtain r b where b: "c = char_of b" "b \<in> set (encode_rune (unicode_ToLower r))"
    using False by (auto simp: ToLower_def strings_Map_def)
  show "\<not> is_capital c"
  proof
    assume cap: "is_capital c"
    have "code c = b" using b encode_rune_bytes(1) [OF b(2)] by simp
    with cap encode_rune_bytes(2) [OF b(2)] have "b = unicode_ToLower r" by simp
    with cap \<open>code c = b\<close> unicode_ToLower_not_capital [of r] show False by simp
  qed
qed

lemma ToLower_idem_ASCII: "list_all is_ascii (ToLower s) \<Longrightarrow> ToLower (ToLower s) = ToLower s"
  by (subst ToLower_ASCII) (auto intro!: map_idI simp: ToLower_no_capital)

lemma ToLower_id: "list_all is_ascii s \<Longrightarrow> \<forall>c \<in> set s. \<not> is_capital c \<Longrightarrow> ToLower s = s"
  by (auto simp: ToLower_ASCII intro: map_idI)

lemma ToLower_Nil [simp]: "ToLower [] = []"
  by (simp add: ToLower_def)

section \<open>White space\<close>

text \<open>
  The width of the white space rune at the front, 0 where there is none: the ASCII spaces,
  U+0085, U+00A0, U+1680, U+2000 to U+200A, U+2028, U+2029, U+202F, U+205F, U+3000. An encoding
  of a white space rune starts at a byte that is no continuation byte, so scanning byte by byte
  finds the same runs as decoding rune by rune.
\<close>

fun space_width :: "nat list \<Rightarrow> nat" where
  "space_width [] = 0"
| "space_width (b0 # bs) =
     (if b0 = 32 \<or> (9 \<le> b0 \<and> b0 \<le> 13) then 1
      else if b0 = 194 then
        (case bs of b1 # _ \<Rightarrow> if b1 = 133 \<or> b1 = 160 then 2 else 0 | _ \<Rightarrow> 0)
      else if b0 = 225 then
        (case bs of b1 # b2 # _ \<Rightarrow> if b1 = 154 \<and> b2 = 128 then 3 else 0 | _ \<Rightarrow> 0)
      else if b0 = 226 then
        (case bs of
           b1 # b2 # _ \<Rightarrow>
             if (b1 = 128 \<and> ((128 \<le> b2 \<and> b2 \<le> 138) \<or> b2 = 168 \<or> b2 = 169 \<or> b2 = 175))
                \<or> (b1 = 129 \<and> b2 = 159) then 3 else 0
         | _ \<Rightarrow> 0)
      else if b0 = 227 then
        (case bs of b1 # b2 # _ \<Rightarrow> if b1 = 128 \<and> b2 = 128 then 3 else 0 | _ \<Rightarrow> 0)
      else 0)"

text \<open>The width of the white space rune at the end, read from the reversed bytes.\<close>

definition space_width_rev :: "nat list \<Rightarrow> nat" where
  "space_width_rev bs =
     (if space_width (take 1 bs) = 1 then 1
      else if space_width (rev (take 2 bs)) = 2 then 2
      else if space_width (rev (take 3 bs)) = 3 then 3
      else 0)"

definition front_space :: "string \<Rightarrow> nat" where
  "front_space s = space_width (map of_char s)"

definition back_space :: "string \<Rightarrow> nat" where
  "back_space s = space_width_rev (map of_char s)"

fun trim_left :: "string \<Rightarrow> string" where
  "trim_left [] = []"
| "trim_left (c # cs) =
     (let w = front_space (c # cs) in
      if w = 0 then c # cs else trim_left (drop (w - 1) cs))"

fun trim_right_rev :: "string \<Rightarrow> string" where
  "trim_right_rev [] = []"
| "trim_right_rev (c # cs) =
     (let w = back_space (c # cs) in
      if w = 0 then c # cs else trim_right_rev (drop (w - 1) cs))"

definition TrimSpace :: "string \<Rightarrow> string" where
  "TrimSpace s = rev (trim_right_rev (rev (trim_left s)))"

text \<open>\<open>strings.Fields\<close>: the maximal runs between white space; \<open>acc\<close> is the current run, reversed.\<close>

fun fields_loop :: "string \<Rightarrow> string \<Rightarrow> string list" where
  "fields_loop acc [] = (if acc = [] then [] else [rev acc])"
| "fields_loop acc (c # cs) =
     (let w = front_space (c # cs) in
      if w = 0 then fields_loop (c # acc) cs
      else (if acc = [] then [] else [rev acc]) @ fields_loop [] (drop (w - 1) cs))"

definition Fields :: "string \<Rightarrow> string list" where
  "Fields s = fields_loop [] s"

section \<open>Cutting, splitting and joining\<close>

text \<open>\<open>TrimRight\<close> and \<open>TrimSuffix\<close> with a one-character argument.\<close>

definition TrimRight :: "char \<Rightarrow> string \<Rightarrow> string" where
  "TrimRight c s = rev (dropWhile (\<lambda>x. x = c) (rev s))"

definition TrimSuffix :: "char \<Rightarrow> string \<Rightarrow> string" where
  "TrimSuffix c s = (if s \<noteq> [] \<and> last s = c then butlast s else s)"

abbreviation HasPrefix :: "string \<Rightarrow> string \<Rightarrow> bool" where
  "HasPrefix s p \<equiv> prefix p s"

abbreviation HasSuffix :: "string \<Rightarrow> string \<Rightarrow> bool" where
  "HasSuffix s p \<equiv> suffix p s"

abbreviation Contains :: "string \<Rightarrow> string \<Rightarrow> bool" where
  "Contains s p \<equiv> sublist p s"

fun Split :: "char \<Rightarrow> string \<Rightarrow> string list" where
  "Split d [] = [[]]"
| "Split d (c # cs) =
     (if c = d then [] # Split d cs
      else (case Split d cs of [] \<Rightarrow> [[c]] | w # ws \<Rightarrow> (c # w) # ws))"

fun Join :: "char \<Rightarrow> string list \<Rightarrow> string" where
  "Join d [] = []"
| "Join d [w] = w"
| "Join d (w # ws) = w @ d # Join d ws"

text \<open>\<open>strings.Cut\<close> at a single character: \<open>None\<close> where it is not found.\<close>

definition Cut :: "char \<Rightarrow> string \<Rightarrow> (string \<times> string) option" where
  "Cut d s = (if d \<in> set s then Some (takeWhile (\<lambda>c. c \<noteq> d) s, tl (dropWhile (\<lambda>c. c \<noteq> d) s)) else None)"

lemma Split_not_Nil [simp]: "Split d s \<noteq> []"
  by (induction s) (auto split: list.splits)

lemma Join_Split [go_string]: "Join d (Split d s) = s"
proof (induction s)
  case (Cons c cs)
  then show ?case by (cases "Split d cs"; cases "tl (Split d cs)") auto
qed simp

lemma Split_free: "d \<notin> set s \<Longrightarrow> Split d s = [s]"
  by (induction s) auto

lemma Split_free_append: "d \<notin> set w \<Longrightarrow> Split d (w @ d # s) = w # Split d s"
  by (induction w) auto

lemma Split_Join [go_string]:
  "ws \<noteq> [] \<Longrightarrow> \<forall>w \<in> set ws. d \<notin> set w \<Longrightarrow> Split d (Join d ws) = ws"
  by (induction d ws rule: Join.induct) (auto simp: Split_free Split_free_append)

lemma Split_sep_free: "w \<in> set (Split d s) \<Longrightarrow> d \<notin> set w"
proof (induction s arbitrary: w)
  case (Cons c cs)
  then show ?case by (auto split: if_splits list.splits)
qed simp

lemma set_Split_subset: "w \<in> set (Split d s) \<Longrightarrow> set w \<subseteq> set s"
proof (induction s arbitrary: w)
  case (Cons c cs)
  then show ?case by (fastforce split: if_splits list.splits)
qed simp

lemma set_Join_subset: "set (Join d ws) \<subseteq> insert d (\<Union>w \<in> set ws. set w)"
  by (induction d ws rule: Join.induct) auto

lemma Split_singleton_iff: "Split d s = [s] \<longleftrightarrow> d \<notin> set s"
  using Split_free [of d s] Split_sep_free [of s d s] by auto

lemma Split_append_sep: "Split d (s @ d # t) = Split d s @ Split d t"
proof (induction s)
  case (Cons c s)
  obtain w ws where "Split d s = w # ws" by (cases "Split d s") auto
  with Cons show ?case by simp
qed simp

lemma two_labels_iff: "d \<in> set s \<longleftrightarrow> 2 \<le> length (Split d s)"
proof (cases "d \<in> set s")
  case True
  then obtain a b where "s = a @ d # b" by (meson split_list)
  moreover have "0 < length (Split d a)" "0 < length (Split d b)" by simp_all
  then have "2 \<le> length (Split d a) + length (Split d b)" by linarith
  ultimately show ?thesis using True by (simp add: Split_append_sep)
qed (simp add: Split_free)

lemma length_Join:
  "ws \<noteq> [] \<Longrightarrow> length (Join d ws) + 1 = sum_list (map (\<lambda>w. length w + 1) ws)"
  by (induction d ws rule: Join.induct) auto

lemma TrimRight_last: "TrimRight c s \<noteq> [] \<Longrightarrow> last (TrimRight c s) \<noteq> c"
proof -
  assume "TrimRight c s \<noteq> []"
  then have "dropWhile (\<lambda>x. x = c) (rev s) \<noteq> []" by (simp add: TrimRight_def)
  then have "hd (dropWhile (\<lambda>x. x = c) (rev s)) \<noteq> c" by (rule hd_dropWhile)
  then show ?thesis by (simp add: TrimRight_def last_rev)
qed

lemma TrimRight_id: "s = [] \<or> last s \<noteq> c \<Longrightarrow> TrimRight c s = s"
  by (cases s rule: rev_cases) (auto simp: TrimRight_def)

lemma set_TrimRight: "set (TrimRight c s) \<subseteq> set s"
  by (auto simp: TrimRight_def dest: set_dropWhileD)

lemma Join_append: "xs \<noteq> [] \<Longrightarrow> ys \<noteq> [] \<Longrightarrow> Join d (xs @ ys) = Join d xs @ d # Join d ys"
proof (induction d xs rule: Join.induct)
  case (2 d w)
  then show ?case by (cases ys) simp_all
qed simp_all

text \<open>
  The test \<open>name == s || HasSuffix(name, "." + s)\<close> that the packages on domain names repeat
  holds exactly when the labels of \<open>s\<close> are the last labels of \<open>name\<close>.
\<close>

lemma label_suffix_iff:
  "s = t \<or> HasSuffix s (d # t) \<longleftrightarrow> suffix (Split d t) (Split d s)"
proof
  assume "s = t \<or> HasSuffix s (d # t)"
  then show "suffix (Split d t) (Split d s)" by (auto simp: suffix_def Split_append_sep)
next
  assume "suffix (Split d t) (Split d s)"
  then obtain pre where pre: "Split d s = pre @ Split d t" by (auto simp: suffix_def)
  have "s = Join d (pre @ Split d t)" by (metis pre Join_Split)
  also have "\<dots> = (if pre = [] then t else Join d pre @ d # t)"
    by (simp add: Join_append Join_Split)
  finally show "s = t \<or> HasSuffix s (d # t)" by (auto simp: suffix_def split: if_splits)
qed

text \<open>
  The loop that strips leading labels, \<open>for rest != "" \{ if test(rest) ...; rest = rest[dot+1:] \}\<close>:
  it tests every nonempty label suffix of the name.
\<close>

function suffix_walk :: "(string \<Rightarrow> bool) \<Rightarrow> string \<Rightarrow> bool" where
  "suffix_walk P rest =
     (if rest = [] then False
      else if P rest then True
      else case Cut (CHR ''.'') rest of None \<Rightarrow> False | Some (_, r) \<Rightarrow> suffix_walk P r)"
  by pat_completeness auto
termination
proof (relation "measure (length \<circ> snd)", simp, goal_cases)
  case (1 P rest ab a b)
  then have "length b < length (dropWhile (\<lambda>c. c \<noteq> CHR ''.'') rest)"
    by (cases "dropWhile (\<lambda>c. c \<noteq> CHR ''.'') rest") (auto simp: Cut_def split: if_splits)
  also have "\<dots> \<le> length rest" by (rule length_dropWhile_le)
  finally show ?case by simp
qed

declare suffix_walk.simps [simp del]

lemma suffix_walk_Nil [simp]: "\<not> suffix_walk P []"
  by (simp add: suffix_walk.simps)

lemma Cut_eq_Some:
  "Cut d s = Some (a, b) \<longleftrightarrow> s = a @ d # b \<and> d \<notin> set a"
proof
  assume c: "Cut d s = Some (a, b)"
  then have d: "d \<in> set s" "a = takeWhile (\<lambda>c. c \<noteq> d) s" "b = tl (dropWhile (\<lambda>c. c \<noteq> d) s)"
    by (auto simp: Cut_def split: if_splits)
  have "dropWhile (\<lambda>c. c \<noteq> d) s \<noteq> []" using d(1) by auto
  moreover from this have "hd (dropWhile (\<lambda>c. c \<noteq> d) s) = d" using hd_dropWhile by blast
  ultimately have "dropWhile (\<lambda>c. c \<noteq> d) s = d # b" using d(3) by (metis list.collapse)
  then show "s = a @ d # b \<and> d \<notin> set a"
    using d(2) by (metis takeWhile_dropWhile_id set_takeWhileD)
next
  assume "s = a @ d # b \<and> d \<notin> set a"
  moreover from this have "takeWhile (\<lambda>c. c \<noteq> d) s = a" "dropWhile (\<lambda>c. c \<noteq> d) s = d # b"
    by (induction a arbitrary: s) auto
  ultimately show "Cut d s = Some (a, b)" by (simp add: Cut_def)
qed

lemma Cut_None_iff: "Cut d s = None \<longleftrightarrow> d \<notin> set s"
  by (simp add: Cut_def)

lemma suffix_walk_iff:
  "suffix_walk P name \<longleftrightarrow>
     (\<exists>s. s \<noteq> [] \<and> suffix (Split (CHR ''.'') s) (Split (CHR ''.'') name) \<and> P s)"
proof (induction P name rule: suffix_walk.induct)
  case (1 P rest)
  show ?case
  proof (cases "rest = [] \<or> P rest")
    case True
    moreover have "s = []" if "suffix (Split (CHR ''.'') s) [[]]" for s
      using that by (metis Join_Split Join.simps(2) Split_not_Nil append_is_Nil_conv suffix_Cons suffix_Nil)
    ultimately show ?thesis by (subst suffix_walk.simps) auto
  next
    case False
    show ?thesis
    proof (cases "Cut (CHR ''.'') rest")
      case None
      then have "Split (CHR ''.'') rest = [rest]" by (simp add: Cut_None_iff Split_free)
      moreover have "s = rest" if "suffix (Split (CHR ''.'') s) [rest]" for s
        using that by (metis Join_Split Join.simps(2) Split_not_Nil suffix_Cons suffix_Nil)
      ultimately show ?thesis using None False by (subst suffix_walk.simps) auto
    next
      case (Some ab)
      obtain a b where ab: "ab = (a, b)" by fastforce
      have cut: "rest = a @ CHR ''.'' # b" "CHR ''.'' \<notin> set a" using Some ab Cut_eq_Some by metis+
      then have sp: "Split (CHR ''.'') rest = a # Split (CHR ''.'') b" by (simp add: Split_free_append)
      have "s = rest" if "Split (CHR ''.'') s = a # Split (CHR ''.'') b" for s
        using that sp by (metis Join_Split)
      then have "(\<exists>s. s \<noteq> [] \<and> suffix (Split (CHR ''.'') s) (Split (CHR ''.'') rest) \<and> P s) \<longleftrightarrow>
          (\<exists>s. s \<noteq> [] \<and> suffix (Split (CHR ''.'') s) (Split (CHR ''.'') b) \<and> P s)"
        using False by (auto simp: sp suffix_Cons)
      moreover have "suffix_walk P rest \<longleftrightarrow> suffix_walk P b"
        using False Some ab by (subst suffix_walk.simps) simp
      ultimately show ?thesis using 1 False Some ab by simp
    qed
  qed
qed

text \<open>A string that starts and ends with printable ASCII is not trimmed.\<close>

abbreviation printable :: "char \<Rightarrow> bool" where
  "printable c \<equiv> 32 < code c \<and> code c < 128"

lemma front_space_printable: "printable c \<Longrightarrow> front_space (c # cs) = 0"
  by (simp add: front_space_def)

lemma space_width_last:
  "space_width (xs @ [b]) = Suc (length xs) \<Longrightarrow> b = 32 \<or> (9 \<le> b \<and> b \<le> 13) \<or> 128 \<le> b"
  by (cases xs; cases "tl xs") (auto split: if_splits list.splits)

lemma back_space_printable: "printable c \<Longrightarrow> back_space (c # cs) = 0"
  using space_width_last [of "rev (take 1 (map of_char cs))" "code c"]
    space_width_last [of "rev (take 2 (map of_char cs))" "code c"]
  by (cases cs; cases "tl cs")
    (auto simp: back_space_def space_width_rev_def numeral_eq_Suc split: if_splits)

lemma TrimSpace_id:
  assumes "s \<noteq> []" and "printable (hd s)" and "printable (last s)"
  shows "TrimSpace s = s"
proof -
  obtain c cs where s: "s = c # cs" using assms(1) by (cases s) auto
  obtain d ds where r: "rev s = d # ds" "d = last s" using assms(1) by (cases s rule: rev_cases) auto
  have "trim_left s = s" using assms(2) s by (simp add: front_space_printable)
  moreover have "trim_right_rev (rev s) = rev s"
    unfolding r(1) using assms(3) r(2) by (simp add: back_space_printable)
  ultimately show ?thesis by (simp add: TrimSpace_def)
qed

lemma TrimSpace_Nil [simp]: "TrimSpace [] = []"
  by (simp add: TrimSpace_def)

text \<open>Text that trimming leaves alone, up to its last byte.\<close>

lemma length_trim_left: "length (trim_left s) \<le> length s"
  by (induction s rule: trim_left.induct) (auto simp: Let_def intro: le_trans)

lemma length_trim_right_rev: "length (trim_right_rev s) \<le> length s"
  by (induction s rule: trim_right_rev.induct) (auto simp: Let_def intro: le_trans)

lemma trim_left_suffix: "suffix (trim_left s) s"
proof (induction s rule: trim_left.induct)
  case (2 c cs)
  have "suffix (drop n cs) (c # cs)" for n by (rule suffix_ConsI) (rule suffix_drop)
  with 2 show ?case by (auto simp: Let_def intro: suffix_order.trans)
qed simp

lemma TrimSpace_fixed_end:
  assumes "TrimSpace (z @ [c]) = z @ [c]"
  shows "back_space (c # rev z) = 0"
proof (rule ccontr)
  assume n: "back_space (c # rev z) \<noteq> 0"
  let ?t = "trim_left (z @ [c])"
  have "length (z @ [c]) \<le> length (trim_right_rev (rev ?t))"
    using assms by (metis TrimSpace_def length_rev order_refl)
  then have le: "length (z @ [c]) \<le> length ?t" using length_trim_right_rev [of "rev ?t"] by simp
  obtain zs where zs: "z @ [c] = zs @ ?t" using trim_left_suffix [of "z @ [c]"] unfolding suffix_def by blast
  have "length (z @ [c]) = length zs + length ?t" using arg_cong [OF zs, of length] by (simp only: length_append)
  with le have "zs = []" by simp
  then have t: "?t = z @ [c]" using zs by simp
  have "rev (trim_right_rev (rev ?t)) = z @ [c]" using assms by (simp add: TrimSpace_def)
  then have "trim_right_rev (c # rev z) = c # rev z" unfolding t by (simp add: rev_swap)
  moreover have "length (trim_right_rev (c # rev z)) < length (c # rev z)"
    using n length_trim_right_rev [of "drop (back_space (c # rev z) - 1) (rev z)"] by (simp add: Let_def)
  ultimately show False by simp
qed

lemma back_space_append:
  assumes "printable d"
  shows "back_space (c # cs @ d # xs) = back_space (c # cs)"
proof -
  have w: "space_width [x, code d, y] \<noteq> 3" "space_width (code d # ys) = 0" "space_width [y] \<noteq> 2" "space_width [y] \<noteq> 3"
    "space_width [x, y] \<noteq> 3" for x y ys
    using assms by auto
  consider "cs = []" | e where "cs = [e]" | e f gs where "cs = e # f # gs" by (metis list.exhaust)
  then show ?thesis
  proof cases
    case 1
    then show ?thesis by (cases xs) (simp_all add: back_space_def space_width_rev_def w del: space_width.simps)
  qed (simp_all add: back_space_def space_width_rev_def w del: space_width.simps)
qed

lemma TrimSpace_append:
  assumes "printable c" and "printable d" and "TrimSpace z = z"
  shows "TrimSpace (c # s @ d # z) = c # s @ d # z"
proof (cases z rule: rev_cases)
  case Nil
  then show ?thesis using TrimSpace_id [of "c # s @ [d]"] assms by simp
next
  case (snoc y e)
  have "back_space (e # rev y @ d # rev s @ [c]) = back_space (e # rev y)"
    by (rule back_space_append) (rule assms(2))
  also have "\<dots> = 0" using TrimSpace_fixed_end [of y e] assms(3) snoc by simp
  finally have "trim_right_rev (rev (c # s @ d # z)) = rev (c # s @ d # z)" by (simp add: snoc)
  moreover have "trim_left (c # s @ d # z) = c # s @ d # z" using assms(1) by (simp add: front_space_printable)
  ultimately show ?thesis by (simp add: TrimSpace_def del: trim_right_rev.simps trim_left.simps)
qed

lemma Split_lines:
  "\<forall>l \<in> set ls. d \<notin> set l \<Longrightarrow> Split d (concat (map (\<lambda>l. l @ [d]) ls)) = ls @ [[]]"
  by (induction ls) (auto simp: Split_free_append)

section \<open>Decimal numbers\<close>

definition is_digit :: "char \<Rightarrow> bool" where
  "is_digit c \<longleftrightarrow> 48 \<le> code c \<and> code c \<le> 57"

fun dec_value :: "nat \<Rightarrow> string \<Rightarrow> nat" where
  "dec_value acc [] = acc"
| "dec_value acc (c # cs) = dec_value (acc * 10 + (code c - 48)) cs"

text \<open>\<open>strconv.ParseUint(s, 10, bits)\<close>: digits only, at least one, and a value below \<open>2 ^ bits\<close>.\<close>

definition ParseUint :: "nat \<Rightarrow> string \<Rightarrow> nat option" where
  "ParseUint bits s =
     (if s \<noteq> [] \<and> list_all is_digit s \<and> int (dec_value 0 s) < 2 ^ bits then Some (dec_value 0 s) else None)"

text \<open>\<open>strconv.Atoi\<close> on a 64-bit platform: an optional sign, then digits.\<close>

definition Atoi :: "string \<Rightarrow> int option" where
  "Atoi s =
     (let (neg, body) =
        (case s of c # cs \<Rightarrow> if c = CHR ''-'' then (True, cs) else if c = CHR ''+'' then (False, cs)
                            else (False, s)
         | [] \<Rightarrow> (False, s))
      in if body \<noteq> [] \<and> list_all is_digit body \<and>
            int (dec_value 0 body) \<le> (if neg then 9223372036854775808 else 9223372036854775807)
         then Some (if neg then - int (dec_value 0 body) else int (dec_value 0 body)) else None)"

text \<open>Decimal rendering, \<open>%d\<close> and \<open>strconv.Itoa\<close> on a number that is not negative.\<close>

fun dec_digits :: "nat \<Rightarrow> string" where
  "dec_digits n = (if n < 10 then [char_of (48 + n)] else dec_digits (n div 10) @ [char_of (48 + n mod 10)])"

declare dec_digits.simps [simp del]

text \<open>\<open>%d\<close> on any integer.\<close>

definition int_digits :: "int \<Rightarrow> string" where
  "int_digits n = (if n < 0 then CHR ''-'' # dec_digits (nat (- n)) else dec_digits (nat n))"

lemma dec_value_append: "dec_value acc (s @ [c]) = dec_value acc s * 10 + (code c - 48)"
  by (induction s arbitrary: acc) auto

lemma is_digit_char_of: "(n::nat) < 10 \<Longrightarrow> is_digit (char_of (48 + n))"
  by (simp add: is_digit_def)

lemma dec_digits_digits: "list_all is_digit (dec_digits n)"
proof (induction n rule: dec_digits.induct)
  case (1 n)
  then show ?case by (subst dec_digits.simps) (auto simp: is_digit_char_of)
qed

lemma dec_digits_not_Nil [simp]: "dec_digits n \<noteq> []"
  by (subst dec_digits.simps) simp

lemma dec_value_dec_digits [simp]: "dec_value 0 (dec_digits n) = n"
proof (induction n rule: dec_digits.induct)
  case (1 n)
  have "n mod 10 < 10" by simp
  then have "(48 + n mod 10) mod 256 - 48 = n mod 10" by simp
  with 1 show ?case
    by (subst dec_digits.simps) (auto simp: dec_value_append)
qed

lemma ParseUint_dec_digits: "n < 2 ^ bits \<Longrightarrow> ParseUint bits (dec_digits n) = Some n"
  by (simp add: ParseUint_def dec_digits_digits flip: of_nat_power_less_of_nat_cancel_iff)

end
