(* ===== verification/Netip.thy ===== *)
theory Netip
  imports Go_Strings
begin

text \<open>
  The part of Go's package \<open>net/netip\<close> that the sources use: addresses with their zone,
  prefixes, their parsers and printers. An address is the zero \<open>Addr\<close>, an IPv4 address or an
  IPv6 address with its zone (the empty string for none); an IPv4-mapped IPv6 address is an
  \<open>Addr6\<close> whose top 96 bits are \<open>::ffff\<close>. A prefix keeps what \<open>Bits()\<close> returns, \<open>-1\<close> where it
  is not valid.
\<close>

datatype addr = AddrZero | Addr4 u32 | Addr6 u128 string

datatype prefix = Prefix (pfx_addr: addr) (pfx_bits: int)

section \<open>Addresses\<close>

fun IsValid :: "addr \<Rightarrow> bool" where
  "IsValid a \<longleftrightarrow> a \<noteq> AddrZero"

fun Is4 :: "addr \<Rightarrow> bool" where
  "Is4 (Addr4 _) = True"
| "Is4 _ = False"

fun Is6 :: "addr \<Rightarrow> bool" where
  "Is6 (Addr6 _ _) = True"
| "Is6 _ = False"

fun Is4In6 :: "addr \<Rightarrow> bool" where
  "Is4In6 (Addr6 w _) \<longleftrightarrow> drop_bit 32 w = 0xffff"
| "Is4In6 _ = False"

fun Unmap :: "addr \<Rightarrow> addr" where
  "Unmap (Addr6 w z) = (if Is4In6 (Addr6 w z) then Addr4 (ucast w) else Addr6 w z)"
| "Unmap a = a"

fun BitLen :: "addr \<Rightarrow> nat" where
  "BitLen AddrZero = 0"
| "BitLen (Addr4 _) = 32"
| "BitLen (Addr6 _ _) = 128"

fun Zone :: "addr \<Rightarrow> string" where
  "Zone (Addr6 _ z) = z"
| "Zone _ = []"

fun withoutZone :: "addr \<Rightarrow> addr" where
  "withoutZone (Addr6 w z) = Addr6 w []"
| "withoutZone a = a"

text \<open>The big-endian octets \<open>As4\<close>, \<open>As16\<close> and \<open>AsSlice\<close>, and \<open>AddrFromSlice\<close>.\<close>

definition octets :: "nat \<Rightarrow> 'a::len word \<Rightarrow> u8 list" where
  "octets n w = map (\<lambda>i. ucast (drop_bit (8 * (n - 1 - i)) w)) [0..<n]"

fun from_octets :: "u8 list \<Rightarrow> 'a::len word" where
  "from_octets [] = 0"
| "from_octets (b # bs) = push_bit (8 * length bs) (ucast b) OR from_octets bs"

fun AsSlice :: "addr \<Rightarrow> u8 list" where
  "AsSlice AddrZero = []"
| "AsSlice (Addr4 w) = octets 4 w"
| "AsSlice (Addr6 w _) = octets 16 w"

definition AddrFromSlice :: "u8 list \<Rightarrow> addr option" where
  "AddrFromSlice bs =
     (if length bs = 4 then Some (Addr4 (from_octets bs))
      else if length bs = 16 then Some (Addr6 (from_octets bs) [])
      else None)"

text \<open>\<open>Addr.Compare\<close>: by bit length, then by value, then by zone.\<close>

fun addr_less :: "addr \<Rightarrow> addr \<Rightarrow> bool" where
  "addr_less (Addr4 v) (Addr4 w) \<longleftrightarrow> v < w"
| "addr_less (Addr6 v z) (Addr6 w y) \<longleftrightarrow> v < w \<or> v = w \<and> z < y"
| "addr_less a b \<longleftrightarrow> BitLen a < BitLen b"

instantiation addr :: linorder
begin

definition less_addr :: "addr \<Rightarrow> addr \<Rightarrow> bool" where
  "less_addr a b \<longleftrightarrow> addr_less a b"

definition less_eq_addr :: "addr \<Rightarrow> addr \<Rightarrow> bool" where
  "less_eq_addr a b \<longleftrightarrow> a = b \<or> addr_less a b"

instance
proof
  fix a b c :: addr
  show "a < b \<longleftrightarrow> a \<le> b \<and> \<not> b \<le> a"
    by (cases a; cases b) (auto simp: less_addr_def less_eq_addr_def)
  show "a \<le> a" by (simp add: less_eq_addr_def)
  show "a \<le> b \<Longrightarrow> b \<le> c \<Longrightarrow> a \<le> c"
    by (cases a; cases b; cases c) (auto simp: less_eq_addr_def)
  show "a \<le> b \<Longrightarrow> b \<le> a \<Longrightarrow> a = b"
    by (cases a; cases b) (auto simp: less_eq_addr_def)
  show "a \<le> b \<or> b \<le> a"
    by (cases a; cases b) (auto simp: less_eq_addr_def)
qed

end

section \<open>Prefixes\<close>

definition PrefixFrom :: "addr \<Rightarrow> int \<Rightarrow> prefix" where
  "PrefixFrom ip bits =
     Prefix (withoutZone ip) (if ip \<noteq> AddrZero \<and> 0 \<le> bits \<and> bits \<le> int (BitLen ip) then bits else - 1)"

definition prefix_zero :: prefix where
  "prefix_zero = Prefix AddrZero (- 1)"

definition pfx_IsValid :: "prefix \<Rightarrow> bool" where
  "pfx_IsValid p \<longleftrightarrow> 0 \<le> pfx_bits p"

definition clear_low :: "nat \<Rightarrow> 'a::len word \<Rightarrow> 'a word" where
  "clear_low n w = w AND NOT (mask n)"

fun Masked :: "prefix \<Rightarrow> prefix" where
  "Masked (Prefix AddrZero b) = prefix_zero"
| "Masked (Prefix (Addr4 w) b) =
     (if 0 \<le> b \<and> b \<le> 32 then Prefix (Addr4 (clear_low (32 - nat b) w)) b else prefix_zero)"
| "Masked (Prefix (Addr6 w z) b) =
     (if 0 \<le> b \<and> b \<le> 128 then Prefix (Addr6 (clear_low (128 - nat b) w) []) b else prefix_zero)"

fun pfx_Contains :: "prefix \<Rightarrow> addr \<Rightarrow> bool" where
  "pfx_Contains (Prefix (Addr4 p) b) (Addr4 w) \<longleftrightarrow> 0 \<le> b \<and> drop_bit (32 - nat b) (w XOR p) = 0"
| "pfx_Contains (Prefix (Addr6 p _) b) (Addr6 w z) \<longleftrightarrow>
     0 \<le> b \<and> z = [] \<and> clear_low (128 - nat b) (w XOR p) = 0"
| "pfx_Contains _ _ = False"

section \<open>Parsing\<close>

text \<open>
  \<open>parseIPv4Fields\<close>: \<open>prev\<close> is the character before the current one (none at the start),
  \<open>val\<close> and \<open>digLen\<close> describe the current octet, \<open>fields\<close> holds the \<open>pos\<close> octets read.
\<close>

fun v4_fields_loop :: "char option \<Rightarrow> nat \<Rightarrow> nat \<Rightarrow> nat list \<Rightarrow> string \<Rightarrow> nat list option" where
  "v4_fields_loop prev val digLen fields [] =
     (if length fields < 3 then None else Some (fields @ [val]))"
| "v4_fields_loop prev val digLen fields (c # cs) =
     (if is_digit c then
        if digLen = 1 \<and> val = 0 then None
        else let val' = val * 10 + (code c - 48) in
             if 255 < val' then None else v4_fields_loop (Some c) val' (digLen + 1) fields cs
      else if c = CHR ''.'' then
        if prev = None \<or> cs = [] \<or> prev = Some (CHR ''.'') then None
        else if length fields = 3 then None
        else v4_fields_loop (Some c) 0 0 (fields @ [val]) cs
      else None)"

definition parse_v4_fields :: "string \<Rightarrow> nat list option" where
  "parse_v4_fields s = v4_fields_loop None 0 0 [] s"

definition hex_value :: "char \<Rightarrow> nat option" where
  "hex_value c =
     (if is_digit c then Some (code c - 48)
      else if 97 \<le> code c \<and> code c \<le> 102 then Some (code c - 87)
      else if 65 \<le> code c \<and> code c \<le> 70 then Some (code c - 55)
      else None)"

text \<open>The hex group at the front: digits read, value and rest; \<open>None\<close> after four digits.\<close>

fun scan_hex :: "nat \<Rightarrow> nat \<Rightarrow> string \<Rightarrow> (nat \<times> nat \<times> string) option" where
  "scan_hex off acc [] = Some (off, acc, [])"
| "scan_hex off acc (c # cs) =
     (case hex_value c of
        None \<Rightarrow> Some (off, acc, c # cs)
      | Some d \<Rightarrow> if 3 < off then None else scan_hex (off + 1) (acc * 16 + d) cs)"

text \<open>
  The loop of \<open>parseIPv6\<close>: \<open>ip\<close> holds the octets stored so far (their number is Go's \<open>i\<close>),
  \<open>ell\<close> the position of the ellipsis.
\<close>

function v6_loop :: "nat list \<Rightarrow> nat option \<Rightarrow> string \<Rightarrow> (nat list \<times> nat option \<times> string) option" where
  "v6_loop ip ell s =
     (if \<not> length ip < 16 then Some (ip, ell, s)
      else case scan_hex 0 0 s of
        None \<Rightarrow> None
      | Some (off, acc, rest) \<Rightarrow>
          if off = 0 then None
          else if rest \<noteq> [] \<and> hd rest = CHR ''.'' then
            if ell = None \<and> length ip \<noteq> 12 then None
            else if 16 < length ip + 4 then None
            else map_option (\<lambda>fs. (ip @ fs, ell, [])) (parse_v4_fields s)
          else
            let ip' = ip @ [acc div 256, acc mod 256] in
            case rest of
              [] \<Rightarrow> Some (ip', ell, [])
            | c # cs \<Rightarrow>
                if c \<noteq> CHR '':'' \<or> cs = [] then None
                else if hd cs = CHR '':'' then
                  if ell \<noteq> None then None
                  else if tl cs = [] then Some (ip', Some (length ip'), [])
                  else v6_loop ip' (Some (length ip')) (tl cs)
                else v6_loop ip' ell cs)"
  by pat_completeness auto
termination
  by (relation "measure (\<lambda>(ip, ell, s). 16 - length ip)") auto

declare v6_loop.simps [simp del]

definition octets_word :: "nat list \<Rightarrow> 'a::len word" where
  "octets_word bs = from_octets (map word_of_nat bs)"

definition parse_v6_body :: "string \<Rightarrow> u128 option" where
  "parse_v6_body s =
     (let (ell0, body) = (if HasPrefix s ''::'' then (Some 0, drop 2 s) else (None, s)) in
      if ell0 \<noteq> None \<and> body = [] then Some 0
      else case v6_loop [] ell0 body of
        None \<Rightarrow> None
      | Some (ip, ell, rest) \<Rightarrow>
          if rest \<noteq> [] then None
          else if length ip < 16 then
            (case ell of
               None \<Rightarrow> None
             | Some e \<Rightarrow> Some (octets_word (take e ip @ replicate (16 - length ip) 0 @ drop e ip)))
          else if ell \<noteq> None then None
          else Some (octets_word ip))"

definition parse_v6 :: "string \<Rightarrow> addr option" where
  "parse_v6 s =
     (case Cut (CHR ''%'') s of
        None \<Rightarrow> map_option (\<lambda>w. Addr6 w []) (parse_v6_body s)
      | Some (body, zone) \<Rightarrow>
          if zone = [] then None else map_option (\<lambda>w. Addr6 w zone) (parse_v6_body body))"

text \<open>\<open>ParseAddr\<close> looks for the first of \<open>.\<close>, \<open>:\<close> and \<open>%\<close>; the callers only test for an error.\<close>

definition ParseAddr :: "string \<Rightarrow> addr option" where
  "ParseAddr s =
     (case dropWhile (\<lambda>c. c \<noteq> CHR ''.'' \<and> c \<noteq> CHR '':'' \<and> c \<noteq> CHR ''%'') s of
        [] \<Rightarrow> None
      | c # _ \<Rightarrow>
          if c = CHR ''.'' then map_option (\<lambda>fs. Addr4 (octets_word fs)) (parse_v4_fields s)
          else if c = CHR '':'' then parse_v6 s
          else None)"

definition ParsePrefix :: "string \<Rightarrow> prefix option" where
  "ParsePrefix s =
     (if CHR ''/'' \<notin> set s then None
      else
        let ws = Split (CHR ''/'') s; bitsStr = last ws in
        case ParseAddr (Join (CHR ''/'') (butlast ws)) of
          None \<Rightarrow> None
        | Some ip \<Rightarrow>
            if Zone ip \<noteq> [] then None
            else if 1 < length bitsStr \<and> \<not> (49 \<le> code (hd bitsStr) \<and> code (hd bitsStr) \<le> 57) then None
            else case Atoi bitsStr of
              None \<Rightarrow> None
            | Some bits \<Rightarrow>
                if bits < 0 \<or> int (BitLen ip) < bits then None else Some (PrefixFrom ip bits))"

section \<open>Printing\<close>

definition v4_String :: "u32 \<Rightarrow> string" where
  "v4_String w = Join (CHR ''.'') (map (\<lambda>b. dec_digits (unat b)) (octets 4 w))"

definition hex_digit :: "nat \<Rightarrow> char" where
  "hex_digit d = char_of (if d < 10 then 48 + d else 87 + d)"

fun hex_digits :: "nat \<Rightarrow> string" where
  "hex_digits n = (if n < 16 then [hex_digit n] else hex_digits (n div 16) @ [hex_digit (n mod 16)])"

declare hex_digits.simps [simp del]

definition v6_groups :: "u128 \<Rightarrow> nat list" where
  "v6_groups w = map (\<lambda>i. unat (drop_bit (16 * (7 - i)) w AND 0xffff)) [0..<8]"

text \<open>The first longest run of at least two zero groups, as \<open>(start, length)\<close>.\<close>

fun zero_run :: "nat \<Rightarrow> nat list \<Rightarrow> nat \<times> nat \<Rightarrow> nat \<times> nat" where
  "zero_run i [] best = best"
| "zero_run i (g # gs) best =
     (let l = length (takeWhile (\<lambda>x. x = 0) (g # gs)) in
      zero_run (i + 1) gs (if 2 \<le> l \<and> snd best < l then (i, l) else best))"

definition v6_body_String :: "u128 \<Rightarrow> string" where
  "v6_body_String w =
     (let gs = v6_groups w; (start, len) = zero_run 0 gs (0, 0) in
      if len = 0 then Join (CHR '':'') (map hex_digits gs)
      else Join (CHR '':'') (map hex_digits (take start gs)) @ ''::'' @
           Join (CHR '':'') (map hex_digits (drop (start + len) gs)))"

fun addr_String :: "addr \<Rightarrow> string" where
  "addr_String AddrZero = ''invalid IP''"
| "addr_String (Addr4 w) = v4_String w"
| "addr_String (Addr6 w z) =
     (if Is4In6 (Addr6 w z) then ''::ffff:'' @ v4_String (ucast w) else v6_body_String w) @
     (if z = [] then [] else CHR ''%'' # z)"

definition pfx_String :: "prefix \<Rightarrow> string" where
  "pfx_String p =
     (if pfx_IsValid p then addr_String (pfx_addr p) @ CHR ''/'' # dec_digits (nat (pfx_bits p))
      else ''invalid Prefix'')"

section \<open>Parsing what was printed\<close>

lemma dec_digits_1: "n < 10 \<Longrightarrow> dec_digits n = [char_of (48 + n)]"
  by (simp add: dec_digits.simps)

lemma dec_digits_2: "10 \<le> n \<Longrightarrow> n < 100 \<Longrightarrow> dec_digits n = [char_of (48 + n div 10), char_of (48 + n mod 10)]"
  by (simp add: dec_digits.simps [of n] dec_digits_1)

lemma dec_digits_3:
  "100 \<le> n \<Longrightarrow> n < 1000 \<Longrightarrow>
   dec_digits n = [char_of (48 + n div 100), char_of (48 + n div 10 mod 10), char_of (48 + n mod 10)]"
  by (simp add: dec_digits.simps [of n] dec_digits_2 div_mult2_eq [symmetric])

lemma is_digit_not_dot: "is_digit c \<Longrightarrow> c \<noteq> CHR ''.''"
  by (auto simp: is_digit_def)

declare v4_fields_loop.simps(2) [simp del]

lemma v4_digit_step:
  assumes "m < 10" and "\<not> (digLen = 1 \<and> val = 0)" and "val * 10 + m \<le> 255"
  shows "v4_fields_loop prev val digLen fs (char_of (48 + m) # cs) =
    v4_fields_loop (Some (char_of (48 + m))) (val * 10 + m) (digLen + 1) fs cs"
proof -
  have "is_digit (char_of (48 + m))" "code (char_of (48 + m)) - 48 = m"
    using assms(1) by (simp_all add: is_digit_def)
  with assms(2,3) show ?thesis by (subst v4_fields_loop.simps(2)) (auto simp: Let_def)
qed

lemma v4_octet_digits:
  assumes "n < 256" and "prev \<noteq> None \<longrightarrow> prev = Some (CHR ''.'')"
  shows "\<exists>c k. c \<noteq> CHR ''.'' \<and>
    v4_fields_loop prev 0 0 fs (dec_digits n @ rest) = v4_fields_loop (Some c) n k fs rest"
proof -
  consider "n < 10" | "10 \<le> n" "n < 100" | "100 \<le> n" by linarith
  then have "\<exists>k. v4_fields_loop prev 0 0 fs (dec_digits n @ rest) =
      v4_fields_loop (Some (char_of (48 + n mod 10))) n k fs rest"
  proof cases
    case 1
    then show ?thesis using assms(1)
      by (auto simp: dec_digits_1 v4_digit_step)
  next
    case 2
    define a b where ab: "a = n div 10" "b = n mod 10"
    with 2 have d: "a < 10" "b < 10" "0 < a" "a * 10 + b = n" by auto
    have "v4_fields_loop prev 0 0 fs (char_of (48 + a) # char_of (48 + b) # rest) =
      v4_fields_loop (Some (char_of (48 + b))) n 2 fs rest"
      using d 2 by (simp add: v4_digit_step numeral_2_eq_2)
    then show ?thesis using 2 ab by (auto simp: dec_digits_2)
  next
    case 3
    define a b c where abc: "a = n div 100" "b = n div 10 mod 10" "c = n mod 10"
    have ab: "n div 10 = a * 10 + b"
      using div_mult_mod_eq [of "n div 10" 10] by (simp add: abc div_mult2_eq [of n 10 10, simplified])
    then have n: "(a * 10 + b) * 10 + c = n"
      using div_mult_mod_eq [of n 10] by (simp add: abc)
    have d: "a < 10" "b < 10" "c < 10" "0 < a" using 3 assms(1) unfolding abc by auto
    have le: "a * 10 + b \<le> 255" using div_le_dividend [of n 10] assms(1) ab by linarith
    have "v4_fields_loop prev 0 0 fs (char_of (48 + a) # char_of (48 + b) # char_of (48 + c) # rest) =
      v4_fields_loop (Some (char_of (48 + a))) a 1 fs (char_of (48 + b) # char_of (48 + c) # rest)"
      using d by (simp add: v4_digit_step)
    also have "\<dots> = v4_fields_loop (Some (char_of (48 + b))) (a * 10 + b) (1 + 1) fs (char_of (48 + c) # rest)"
      by (rule v4_digit_step) (use d le in auto)
    also have "\<dots> = v4_fields_loop (Some (char_of (48 + c))) ((a * 10 + b) * 10 + c) (1 + 1 + 1) fs rest"
      by (rule v4_digit_step) (use d n assms(1) in auto)
    finally show ?thesis using 3 assms(1) n abc by (auto simp: dec_digits_3)
  qed
  moreover have "char_of (48 + n mod 10) \<noteq> CHR ''.''"
    by (rule is_digit_not_dot) (simp add: is_digit_char_of)
  ultimately show ?thesis by blast
qed

lemma v4_octet_dot:
  assumes "n < 256" and "prev \<noteq> None \<longrightarrow> prev = Some (CHR ''.'')" and "length fs < 3" and "rest \<noteq> []"
  shows "v4_fields_loop prev 0 0 fs (dec_digits n @ CHR ''.'' # rest) =
    v4_fields_loop (Some (CHR ''.'')) 0 0 (fs @ [n]) rest"
proof -
  obtain c k where c: "c \<noteq> CHR ''.''" and
    eq: "v4_fields_loop prev 0 0 fs (dec_digits n @ CHR ''.'' # rest) =
      v4_fields_loop (Some c) n k fs (CHR ''.'' # rest)"
    using v4_octet_digits [OF assms(1,2), of fs "CHR ''.'' # rest"] by blast
  have "\<not> is_digit (CHR ''.'')" by (simp add: is_digit_def)
  then show ?thesis unfolding eq using c assms(3,4) by (subst v4_fields_loop.simps(2)) simp
qed

lemma v4_octet_end:
  assumes "n < 256" and "prev \<noteq> None \<longrightarrow> prev = Some (CHR ''.'')" and "length fs = 3"
  shows "v4_fields_loop prev 0 0 fs (dec_digits n) = Some (fs @ [n])"
proof -
  obtain c k where "v4_fields_loop prev 0 0 fs (dec_digits n @ []) = v4_fields_loop (Some c) n k fs []"
    using v4_octet_digits [OF assms(1,2), of fs "[]"] by blast
  then show ?thesis using assms(3) by simp
qed

lemma parse_v4_fields_print:
  assumes "a < 256" "b < 256" "c < 256" "d < 256"
  shows "parse_v4_fields (Join (CHR ''.'') (map dec_digits [a, b, c, d])) = Some [a, b, c, d]"
  using assms by (simp add: parse_v4_fields_def v4_octet_dot v4_octet_end)

lemma octets_4:
  "octets 4 (w :: u32) =
     [ucast (drop_bit 24 w), ucast (drop_bit 16 w), ucast (drop_bit 8 w), ucast w]"
  by (simp add: octets_def upt_rec numeral_eq_Suc)

lemma from_octets_octets_4: "from_octets (octets 4 w) = (w :: u32)"
proof (rule bit_word_eqI)
  fix n assume "n < LENGTH(32)"
  then have "n < 32" by simp
  then show "bit (from_octets (octets 4 w) :: u32) n = bit w n"
    by (cases "n < 8"; cases "n < 16"; cases "n < 24")
      (auto simp: octets_4 bit_simps not_less)
qed

lemma dropWhile_append_Cons:
  "\<forall>x \<in> set xs. P x \<Longrightarrow> \<not> P y \<Longrightarrow> dropWhile P (xs @ y # ys) = y # ys"
  by (induction xs) auto

lemma dec_digits_plain:
  "c \<in> set (dec_digits n) \<Longrightarrow> c \<noteq> CHR ''.'' \<and> c \<noteq> CHR '':'' \<and> c \<noteq> CHR ''%'' \<and> c \<noteq> CHR ''/''"
  using dec_digits_digits [of n] by (auto simp: list_all_iff is_digit_def)

lemma ParseAddr_v4_String: "ParseAddr (v4_String w) = Some (Addr4 w)"
proof -
  let ?n = "\<lambda>k. unat (ucast (drop_bit k w) :: u8)"
  let ?t = "Join (CHR ''.'') (map dec_digits [?n 24, ?n 16, ?n 8, ?n 0])"
  have s: "v4_String w = ?t"
    by (simp add: v4_String_def octets_4)
  have lt: "unat (x :: u8) < 256" for x using unsigned_less [of x] by simp
  have p: "parse_v4_fields ?t = Some [?n 24, ?n 16, ?n 8, ?n 0]"
    by (rule parse_v4_fields_print) (rule lt)+
  have "dropWhile (\<lambda>c. c \<noteq> CHR ''.'' \<and> c \<noteq> CHR '':'' \<and> c \<noteq> CHR ''%'') ?t =
      CHR ''.'' # Join (CHR ''.'') (map dec_digits [?n 16, ?n 8, ?n 0])"
    by (simp only: list.map Join.simps, rule dropWhile_append_Cons) (auto dest: dec_digits_plain)
  moreover have "octets_word [?n 24, ?n 16, ?n 8, ?n 0] = w"
    using from_octets_octets_4 [of w] by (simp add: octets_word_def octets_4)
  ultimately show ?thesis unfolding s ParseAddr_def p by simp
qed

lemma v4_String_inject [simp]: "v4_String v = v4_String w \<longleftrightarrow> v = w"
  by (metis ParseAddr_v4_String addr.inject(1) option.inject)

lemma v4_String_digit:
  assumes "c \<in> set (v4_String v)"
  shows "c = CHR ''.'' \<or> is_digit c"
proof -
  have "c \<in> insert (CHR ''.'') (\<Union>w \<in> set (map (\<lambda>b. dec_digits (unat b)) (octets 4 v)). set w)"
    using assms set_Join_subset unfolding v4_String_def by blast
  then show ?thesis using dec_digits_digits by (auto simp: list_all_iff)
qed

lemma v4_String_chars:
  assumes "c \<in> set (v4_String v)"
  shows "32 < code c" and "is_ascii c" and "c \<noteq> CHR '',''" and "c \<noteq> CHR 0x0A" and "c \<noteq> CHR ''#''"
  using v4_String_digit [OF assms] by (auto simp: is_digit_def)

lemma v4_String_not_Nil [simp]: "v4_String v \<noteq> []"
  using ParseAddr_v4_String [of v] by (auto simp: ParseAddr_def)

lemma v4_String_Cons: obtains c s where "v4_String v = c # s" and "printable c"
proof -
  obtain c s where "v4_String v = c # s" by (cases "v4_String v") (auto dest: v4_String_not_Nil [THEN notE])
  with that v4_String_chars [of c v] show thesis by simp
qed

section \<open>The octets of a word\<close>

lemma length_octets [simp]: "length (octets n w) = n"
  by (simp add: octets_def)

lemma octets_nth: "j < n \<Longrightarrow> octets n w ! j = ucast (drop_bit (8 * (n - 1 - j)) w)"
  by (simp add: octets_def)

lemma bit_from_octets:
  "bit (from_octets bs :: 'a::len word) i \<longleftrightarrow>
     i < LENGTH('a) \<and> i < 8 * length bs \<and> bit (bs ! (length bs - 1 - i div 8)) (i mod 8)"
proof (induction bs)
  case (Cons b bs)
  consider "i < 8 * length bs" | "8 * length bs \<le> i" "i < 8 * length bs + 8" | "8 * length bs + 8 \<le> i"
    by linarith
  then show ?case
  proof cases
    case 1
    then have d: "i div 8 < length bs" by (simp add: less_mult_imp_div_less mult.commute)
    then have "length bs - i div 8 = Suc (length bs - 1 - i div 8)" by simp
    then have "(b # bs) ! (length bs - i div 8) = bs ! (length bs - 1 - i div 8)" by simp
    with 1 Cons show ?thesis by (auto simp: bit_simps)
  next
    case 2
    then have "i div 8 = length bs" "i mod 8 = i - 8 * length bs"
      by (simp_all add: div_eq_iff_interval mod_nat_eqI)
    with 2 Cons show ?thesis by (auto simp: bit_simps)
  next
    case 3
    then have "\<not> bit b (i - 8 * length bs)" by (auto dest: bit_imp_le_length)
    with 3 Cons show ?thesis by (auto simp: bit_simps)
  qed
qed simp

lemma TrimSpace_v4_String: "TrimSpace (v4_String v) = v4_String v"
  using v4_String_chars [of "hd (v4_String v)" v] v4_String_chars [of "last (v4_String v)" v]
  by (intro TrimSpace_id) simp_all

end
