(* ===== verification/Domain.thy ===== *)
theory Domain
  imports Netip
begin

text \<open>
  Package \<open>internal/domain\<close>: normalising and judging zone names, and the Public Suffix List.
  Go's sets of strings (\<open>map[string]struct{}\<close>) are sets. The files and the environment
  \<open>LoadPSL\<close> reads are parameters.
\<close>

section \<open>Names\<close>

definition DefectEmpty :: string where "DefectEmpty = ''empty''"
definition DefectMalformed :: string where "DefectMalformed = ''malformed''"
definition DefectReserved :: string where "DefectReserved = ''reserved''"
definition DefectPublicSuffix :: string where "DefectPublicSuffix = ''public_suffix''"
definition DefectSingleLabel :: string where "DefectSingleLabel = ''single_label''"

lemmas defect_defs = DefectEmpty_def DefectMalformed_def DefectReserved_def
  DefectPublicSuffix_def DefectSingleLabel_def

definition reservedSuffixes :: "string list" where
  "reservedSuffixes =
     [''in-addr.arpa'', ''ip6.arpa'', ''arpa'',
      ''local'', ''localhost'', ''localdomain'', ''invalid'', ''test'', ''example'',
      ''home.arpa'', ''onion'', ''lan'', ''internal'', ''corp'', ''home'', ''intranet'']"

definition fallbackPublicSuffixes :: "string list" where
  "fallbackPublicSuffixes =
     [''com.cn'', ''net.cn'', ''org.cn'', ''gov.cn'', ''edu.cn'',
      ''ac.cn'', ''mil.cn'',
      ''com.hk'', ''net.hk'', ''org.hk'', ''edu.hk'', ''gov.hk'',
      ''com.tw'', ''net.tw'', ''org.tw'', ''edu.tw'', ''gov.tw'',
      ''co.uk'', ''org.uk'', ''ac.uk'', ''gov.uk'',
      ''co.jp'', ''ne.jp'', ''or.jp'', ''ac.jp'', ''go.jp'',
      ''com.au'', ''net.au'', ''org.au'', ''edu.au'', ''gov.au'',
      ''com.br'', ''com.sg'', ''com.my'', ''co.kr'', ''or.kr'']"

definition Normalize :: "string \<Rightarrow> string" where
  "Normalize name = ToLower (TrimRight (CHR ''.'') (TrimSpace name))"

definition isAlnum :: "char \<Rightarrow> bool" where
  "isAlnum c \<longleftrightarrow> (97 \<le> code c \<and> code c \<le> 122) \<or> (48 \<le> code c \<and> code c \<le> 57)"

definition isLabelValid :: "string \<Rightarrow> bool" where
  "isLabelValid label =
     (if label = [] then False
      else
        let body = (if hd label = CHR ''_'' then tl label else label) in
        if body = [] then False
        else if \<not> isAlnum (hd body) \<or> \<not> isAlnum (last body) then False
        else list_all (\<lambda>c. isAlnum c \<or> c = CHR ''-'') body)"

definition IsWellFormed :: "string \<Rightarrow> bool" where
  "IsWellFormed name =
     (if name = [] \<or> 253 < length name then False
      else if ParseAddr name \<noteq> None then False
      else list_all (\<lambda>label. 1 \<le> length label \<and> length label \<le> 63 \<and> isLabelValid label)
             (Split (CHR ''.'') name))"

definition IsReserved :: "string \<Rightarrow> bool" where
  "IsReserved name \<longleftrightarrow> list_ex (\<lambda>s. name = s \<or> HasSuffix name (CHR ''.'' # s)) reservedSuffixes"

section \<open>The Public Suffix List\<close>

definition icannBegin :: string where "icannBegin = ''===BEGIN ICANN DOMAINS===''"
definition icannEnd :: string where "icannEnd = ''===END ICANN DOMAINS===''"

record psl =
  psl_rules :: "string set"
  psl_wildcards :: "string set"
  psl_exceptions :: "string set"
  psl_Source :: string

definition psl_rule :: "string \<Rightarrow> psl \<Rightarrow> psl" where
  "psl_rule line p =
     (if HasPrefix line ''!'' then p\<lparr>psl_exceptions := insert (Normalize (drop 1 line)) (psl_exceptions p)\<rparr>
      else if HasPrefix line ''*.'' then p\<lparr>psl_wildcards := insert (Normalize (drop 2 line)) (psl_wildcards p)\<rparr>
      else p\<lparr>psl_rules := insert (Normalize line) (psl_rules p)\<rparr>)"

fun psl_lines :: "bool \<Rightarrow> string list \<Rightarrow> psl \<Rightarrow> psl" where
  "psl_lines inside [] p = p"
| "psl_lines inside (raw # rest) p =
     (let line = TrimSpace raw in
      if HasPrefix line ''//'' then
        psl_lines (if Contains line icannBegin then True
                   else if Contains line icannEnd then False else inside) rest p
      else if line = [] \<or> \<not> inside then psl_lines inside rest p
      else psl_lines inside rest (psl_rule line p))"

definition ParsePSL :: "string \<Rightarrow> string \<Rightarrow> psl" where
  "ParsePSL text source =
     psl_lines (\<not> Contains text icannBegin) (Split (CHR ''\<newline>'') text)
       \<lparr>psl_rules = {}, psl_wildcards = {}, psl_exceptions = {}, psl_Source = source\<rparr>"

definition psl_Len :: "psl option \<Rightarrow> nat" where
  "psl_Len p = (case p of None \<Rightarrow> 0 | Some q \<Rightarrow> card (psl_rules q) + card (psl_wildcards q))"

definition IsPublicSuffix :: "psl option \<Rightarrow> string \<Rightarrow> bool" where
  "IsPublicSuffix p name0 =
     (case p of
        None \<Rightarrow> False
      | Some q \<Rightarrow>
          let name = Normalize name0 in
          if name = [] then False
          else if name \<in> psl_exceptions q then False
          else if name \<in> psl_rules q then True
          else case Cut (CHR ''.'') name of
            None \<Rightarrow> False
          | Some (_, parent) \<Rightarrow> if parent = [] then False else parent \<in> psl_wildcards q)"

definition ZoneDefect :: "string \<Rightarrow> psl option \<Rightarrow> string" where
  "ZoneDefect name0 p =
     (let name = Normalize name0 in
      if name = [] then DefectEmpty
      else if \<not> IsWellFormed name then DefectMalformed
      else if IsReserved name then DefectReserved
      else if CHR ''.'' \<notin> set name then DefectSingleLabel
      else if p \<noteq> None then (if IsPublicSuffix p name then DefectPublicSuffix else '''')
      else if name \<in> set fallbackPublicSuffixes then DefectPublicSuffix
      else '''')"

definition DefaultPSLPaths :: "string list" where
  "DefaultPSLPaths =
     [''/var/lib/dns-stack/reference/public_suffix_list.dat'',
      ''/var/lib/dns-stack/psl-data/public_suffix_list.dat'',
      ''/usr/share/publicsuffix/public_suffix_list.dat'']"

text \<open>
  \<open>LoadPSL\<close>: \<open>env\<close> is the value of \<open>PSL_FILE\<close> (empty where unset), \<open>read_file\<close> what \<open>os.ReadFile\<close>
  returns (\<open>None\<close> for an error). The second result, a message for the operator, keeps its two
  forms: the path and rule count of the list, or the size of the built-in fallback.
\<close>

datatype psl_note = FromFile string nat | Fallback nat

fun load_psl_loop :: "(string \<Rightarrow> string option) \<Rightarrow> string list \<Rightarrow> psl option \<times> psl_note" where
  "load_psl_loop read_file [] = (None, Fallback (length fallbackPublicSuffixes))"
| "load_psl_loop read_file (path # rest) =
     (if path = [] then load_psl_loop read_file rest
      else case read_file path of
        None \<Rightarrow> load_psl_loop read_file rest
      | Some text \<Rightarrow>
          let p = ParsePSL text path in
          if psl_Len (Some p) < 100 then load_psl_loop read_file rest
          else (Some p, FromFile path (psl_Len (Some p))))"

definition LoadPSL :: "string \<Rightarrow> (string \<Rightarrow> string option) \<Rightarrow> string list option \<Rightarrow> psl option \<times> psl_note" where
  "LoadPSL env read_file paths =
     load_psl_loop read_file
       (case paths of
          Some ps \<Rightarrow> ps
        | None \<Rightarrow>
            let configured = TrimSpace env in
            if configured \<noteq> [] then configured # DefaultPSLPaths else DefaultPSLPaths)"

section \<open>Well-formed names\<close>

text \<open>The letters, digits, hyphens and underscores of a label.\<close>

definition label_char :: "char \<Rightarrow> bool" where
  "label_char c \<longleftrightarrow> isAlnum c \<or> c = CHR ''-'' \<or> c = CHR ''_''"

lemma isAlnum_printable: "isAlnum c \<Longrightarrow> printable c \<and> \<not> is_capital c \<and> c \<noteq> CHR ''.''"
  by (auto simp: isAlnum_def)

lemma label_char_printable: "label_char c \<Longrightarrow> printable c \<and> \<not> is_capital c \<and> c \<noteq> CHR ''.''"
  using isAlnum_printable by (auto simp: label_char_def)

lemma isLabelValid_chars:
  assumes "isLabelValid l"
  shows "l \<noteq> []" and "\<forall>c \<in> set l. label_char c" and "label_char (hd l)" and "isAlnum (last l)"
proof -
  show ne: "l \<noteq> []" using assms by (auto simp: isLabelValid_def)
  show all: "\<forall>c \<in> set l. label_char c"
    using assms by (cases l) (auto simp: isLabelValid_def label_char_def list_all_iff Let_def split: if_splits)
  show "label_char (hd l)" using ne all by simp
  show "isAlnum (last l)"
    using assms by (cases l) (auto simp: isLabelValid_def Let_def split: if_splits)
qed

lemma IsWellFormed_labels:
  assumes "IsWellFormed name"
  shows "\<forall>l \<in> set (Split (CHR ''.'') name). isLabelValid l \<and> length l \<le> 63"
    and "name \<noteq> []" and "length name \<le> 253" and "ParseAddr name = None"
  using assms by (auto simp: IsWellFormed_def list_all_iff split: if_splits)

lemma hd_Join: "w \<noteq> [] \<Longrightarrow> hd (Join d (w # ws)) = hd w"
  by (cases ws) simp_all

lemma last_Join: "\<lbrakk>ws \<noteq> []; \<forall>w \<in> set ws. w \<noteq> []\<rbrakk> \<Longrightarrow> last (Join d ws) = last (last ws)"
  by (induction d ws rule: Join.induct) (auto simp: neq_Nil_conv)

lemma IsWellFormed_chars:
  assumes "IsWellFormed name"
  shows "\<forall>c \<in> set name. label_char c \<or> c = CHR ''.''"
    and "label_char (hd name)" and "isAlnum (last name)"
proof -
  let ?ls = "Split (CHR ''.'') name"
  note wf = IsWellFormed_labels(1) [OF assms]
  have name: "name = Join (CHR ''.'') ?ls" by (simp add: Join_Split)
  have "set name \<subseteq> insert (CHR ''.'') (\<Union>w \<in> set ?ls. set w)"
    by (subst name) (rule set_Join_subset)
  then show "\<forall>c \<in> set name. label_char c \<or> c = CHR ''.''"
    using wf isLabelValid_chars(2) by blast
  obtain w ws where ls: "?ls = w # ws" by (cases ?ls) auto
  have "hd name = hd w"
    using wf isLabelValid_chars(1) by (subst name) (simp add: ls hd_Join)
  then show "label_char (hd name)" using wf ls isLabelValid_chars(3) by simp
  have "last name = last (last ?ls)"
    using wf isLabelValid_chars(1) by (subst name, intro last_Join) auto
  moreover have "last ?ls \<in> set ?ls" by simp
  ultimately show "isAlnum (last name)" using wf isLabelValid_chars(4) by metis
qed

lemma Normalize_well_formed: "IsWellFormed name \<Longrightarrow> Normalize name = name"
proof -
  assume wf: "IsWellFormed name"
  have ne: "name \<noteq> []" by (rule IsWellFormed_labels(2) [OF wf])
  have last: "printable (last name)" "last name \<noteq> CHR ''.''"
    using isAlnum_printable IsWellFormed_chars(3) [OF wf] by blast+
  have "printable (hd name)" using label_char_printable IsWellFormed_chars(2) [OF wf] by blast
  then have "TrimSpace name = name" using ne last by (intro TrimSpace_id) auto
  moreover have "TrimRight (CHR ''.'') name = name" using last by (intro TrimRight_id) simp
  moreover have "is_ascii c \<and> \<not> is_capital c" if "c \<in> set name" for c
    using IsWellFormed_chars(1) [OF wf] that label_char_printable [of c] by (cases "c = CHR ''.''") auto
  then have "ToLower name = name" by (intro ToLower_id) (auto simp: list_all_iff)
  ultimately show ?thesis by (simp add: Normalize_def)
qed

lemma IsReserved_labels:
  "IsReserved name \<longleftrightarrow>
     (\<exists>s \<in> set reservedSuffixes. suffix (Split (CHR ''.'') s) (Split (CHR ''.'') name))"
  by (simp add: IsReserved_def list_ex_iff label_suffix_iff)

section \<open>Suffix rules\<close>

text \<open>What a list means: a rule names itself, a wildcard one label more, an exception neither.\<close>

definition psl_matches :: "psl \<Rightarrow> string \<Rightarrow> bool" where
  "psl_matches q name \<longleftrightarrow>
     name \<notin> psl_exceptions q \<and>
     (name \<in> psl_rules q \<or> (\<exists>l parent. name = l @ CHR ''.'' # parent \<and> CHR ''.'' \<notin> set l \<and>
        parent \<noteq> [] \<and> parent \<in> psl_wildcards q))"

lemma IsPublicSuffix_iff:
  "IsPublicSuffix (Some q) name \<longleftrightarrow> Normalize name \<noteq> [] \<and> psl_matches q (Normalize name)"
proof (cases "Cut (CHR ''.'') (Normalize name)")
  case None
  then have "CHR ''.'' \<notin> set (Normalize name)" by (simp add: Cut_None_iff)
  then show ?thesis using None by (auto simp: IsPublicSuffix_def psl_matches_def Let_def)
next
  case (Some ab)
  obtain a b where ab: "ab = (a, b)" by fastforce
  then have n: "Normalize name = a @ CHR ''.'' # b" "CHR ''.'' \<notin> set a"
    using Some Cut_eq_Some by metis+
  have "l = a \<and> r = b" if "a @ CHR ''.'' # b = l @ CHR ''.'' # r" "CHR ''.'' \<notin> set l" for l r
    using that n(2) by (metis Cut_eq_Some option.inject prod.inject)
  then show ?thesis using Some ab n
    by (auto simp: IsPublicSuffix_def psl_matches_def Let_def)
qed

section \<open>Parsing the list\<close>

definition psl_entry :: "string list \<Rightarrow> string \<Rightarrow> bool" where
  "psl_entry ls line \<longleftrightarrow>
     line \<noteq> [] \<and> \<not> HasPrefix line ''//'' \<and> line \<in> TrimSpace ` set ls"

lemma psl_entry_Cons:
  "psl_entry (raw # ls) line \<longleftrightarrow>
     line = TrimSpace raw \<and> line \<noteq> [] \<and> \<not> HasPrefix line ''//'' \<or> psl_entry ls line"
  by (auto simp: psl_entry_def)

lemma psl_lines_inside:
  assumes "\<forall>raw \<in> set ls. \<not> Contains (TrimSpace raw) icannEnd"
  shows "psl_exceptions (psl_lines True ls p) =
      psl_exceptions p \<union> {Normalize (drop 1 l) |l. psl_entry ls l \<and> HasPrefix l ''!''}"
    and "psl_wildcards (psl_lines True ls p) =
      psl_wildcards p \<union> {Normalize (drop 2 l) |l. psl_entry ls l \<and> \<not> HasPrefix l ''!'' \<and> HasPrefix l ''*.''}"
    and "psl_rules (psl_lines True ls p) =
      psl_rules p \<union> {Normalize l |l. psl_entry ls l \<and> \<not> HasPrefix l ''!'' \<and> \<not> HasPrefix l ''*.''}"
  using assms
proof (induction ls arbitrary: p)
  case Nil
  {
    case 1 show ?case by (simp add: psl_entry_def)
  next
    case 2 show ?case by (simp add: psl_entry_def)
  next
    case 3 show ?case by (simp add: psl_entry_def)
  }
next
  case (Cons raw ls)
  {
    case 1 then show ?case using Cons.IH(1)
      by (auto simp: Let_def psl_entry_Cons psl_rule_def)
  next
    case 2 then show ?case using Cons.IH(2)
      by (auto simp: Let_def psl_entry_Cons psl_rule_def)
  next
    case 3 then show ?case using Cons.IH(3)
      by (auto simp: Let_def psl_entry_Cons psl_rule_def)
  }
qed

section \<open>Properties\<close>

text \<open>\<open>ZoneDefect\<close> accepts a name exactly when its normalised form has at least two labels, each
  of 1 to 63 letters, digits and hyphens with an alphanumeric at both ends (after one optional
  underscore), at most 253 bytes in all, is no IP address, does not end in the labels of a
  reserved suffix, and is no public suffix by the list or, without one, by the fallback.\<close>

theorem ZoneDefect_accepts_iff:
  "ZoneDefect name p = '''' \<longleftrightarrow>
     (let n = Normalize name; labels = Split (CHR ''.'') n in
      2 \<le> length labels \<and> length n \<le> 253 \<and> ParseAddr n = None \<and>
      list_all (\<lambda>l. isLabelValid l \<and> length l \<le> 63) labels \<and>
      (\<forall>s \<in> set reservedSuffixes. \<not> suffix (Split (CHR ''.'') s) labels) \<and>
      (case p of None \<Rightarrow> n \<notin> set fallbackPublicSuffixes | Some q \<Rightarrow> \<not> psl_matches q n))"
proof -
  let ?n = "Normalize name"
  have dot: "CHR ''.'' \<in> set ?n \<longleftrightarrow> 2 \<le> length (Split (CHR ''.'') ?n)"
    by (rule two_labels_iff)
  have lab: "1 \<le> length l \<and> length l \<le> 63 \<and> isLabelValid l \<longleftrightarrow> isLabelValid l \<and> length l \<le> 63" for l
    using isLabelValid_chars(1) [of l] by (cases l) auto
  have wf: "IsWellFormed ?n \<longleftrightarrow> ?n \<noteq> []
      \<and> length ?n \<le> 253 \<and> ParseAddr ?n = None \<and>
      list_all (\<lambda>l. isLabelValid l \<and> length l \<le> 63) (Split (CHR ''.'') ?n)"
    unfolding IsWellFormed_def lab by auto
  have ps: "IsPublicSuffix (Some q) ?n \<longleftrightarrow> psl_matches q ?n" if "IsWellFormed ?n" for q
    using IsPublicSuffix_iff [of q ?n] Normalize_well_formed [OF that] IsWellFormed_labels(2) [OF that]
    by simp
  have "ZoneDefect name p = '''' \<longleftrightarrow> IsWellFormed ?n \<and> \<not> IsReserved ?n \<and> CHR ''.'' \<in> set ?n \<and>
      (case p of None \<Rightarrow> ?n \<notin> set fallbackPublicSuffixes | Some q \<Rightarrow> \<not> IsPublicSuffix (Some q) ?n)"
    using IsWellFormed_labels(2) [of ?n] by (simp add: ZoneDefect_def Let_def defect_defs split: option.split)
  also have "\<dots> \<longleftrightarrow> IsWellFormed ?n \<and> \<not> IsReserved ?n \<and> 2 \<le> length (Split (CHR ''.'') ?n) \<and>
      (case p of None \<Rightarrow> ?n \<notin> set fallbackPublicSuffixes | Some q \<Rightarrow> \<not> psl_matches q ?n)"
    unfolding dot by (cases p) (simp_all add: ps cong: conj_cong)
  finally show ?thesis
    unfolding Let_def IsReserved_labels using wf dot by (cases "?n = []") auto
qed

theorem ZoneDefect_accepts_iff_witness: "ZoneDefect '' A.cn.'' None = ''''"
proof -
  have "Normalize '' A.cn.'' = ''a.cn''" "ParseAddr ''a.cn'' = None"
    "list_all (\<lambda>l. isLabelValid l \<and> length l \<le> 63) [''a'', ''cn'']"
    "list_all (\<lambda>s. \<not> suffix (Split (CHR ''.'') s) [''a'', ''cn'']) reservedSuffixes"
    "''a.cn'' \<notin> set fallbackPublicSuffixes"
    by code_simp+
  then show ?thesis by (subst ZoneDefect_accepts_iff) (simp add: list_all_iff)
qed

text \<open>A well-formed name is its own normal form, so that normalising a name the package accepts
  changes nothing: it is lower-case ASCII without surrounding space or trailing dot.\<close>

theorem well_formed_is_normal:
  assumes "IsWellFormed name"
  shows "Normalize name = name \<and> (\<forall>c \<in> set name. label_char c \<or> c = CHR ''.'') \<and>
    isAlnum (last name)"
  using Normalize_well_formed [OF assms] IsWellFormed_chars [OF assms] by blast

theorem well_formed_is_normal_witness: "Normalize ''a.cn'' = ''a.cn''"
proof -
  have "IsWellFormed ''a.cn''" by code_simp
  from well_formed_is_normal [OF this] show ?thesis by blast
qed

text \<open>A list without ICANN markers is read whole: a normalised name is a public suffix of it
  exactly when no exception line names it and a rule line does, or a wildcard line names its
  parent.\<close>

theorem ParsePSL_public_suffix:
  assumes "\<not> Contains text icannBegin" and "\<forall>raw \<in> set (Split (CHR ''\<newline>'') text). \<not> Contains (TrimSpace raw) icannEnd"
  defines "ls \<equiv> Split (CHR ''\<newline>'') text"
  shows "IsPublicSuffix (Some (ParsePSL text src)) name \<longleftrightarrow>
    (let n = Normalize name in n \<noteq> [] \<and>
      (\<nexists>l. psl_entry ls l \<and> HasPrefix l ''!'' \<and> n = Normalize (drop 1 l)) \<and>
      ((\<exists>l. psl_entry ls l \<and> \<not> HasPrefix l ''!'' \<and> \<not> HasPrefix l ''*.'' \<and> n = Normalize l) \<or>
       (\<exists>l first parent. psl_entry ls l \<and> \<not> HasPrefix l ''!'' \<and> HasPrefix l ''*.'' \<and>
          n = first @ CHR ''.'' # parent \<and> CHR ''.'' \<notin> set first \<and> parent \<noteq> [] \<and>
          parent = Normalize (drop 2 l))))"
  using psl_lines_inside [OF assms(2)] assms(1)
  unfolding IsPublicSuffix_iff psl_matches_def ParsePSL_def Let_def ls_def by (simp, blast)

theorem ParsePSL_public_suffix_witness:
  "IsPublicSuffix (Some (ParsePSL ''cn'' [])) ''CN.''"
proof -
  have t: "TrimSpace ''cn'' = ''cn''" "Normalize ''CN.'' = ''cn''" "Normalize ''cn'' = ''cn''" by code_simp+
  have "\<not> Contains ''cn'' icannBegin" "\<not> Contains ''cn'' icannEnd"
    by (auto simp: icannBegin_def icannEnd_def dest!: sublist_length_le)
  then show ?thesis
    using ParsePSL_public_suffix [of "''cn''" "[]" "''CN.''"] by (auto simp: t psl_entry_def)
qed

end
