(* ===== verification/Intervals.thy ===== *)
theory Intervals
  imports Prelude
begin

text \<open>
  The mathematics both interval packages of the sources rest on: closed integer intervals, the
  address set a list of them stands for, the normal form (proper intervals in ascending order
  with at least one address between neighbours), and that the normal form is canonical. The
  locale \<open>interval_algebra\<close> is the contract of a package that normalises and subtracts
  interval lists; its clients reason with sets only.
\<close>

section \<open>Spans and their address sets\<close>

datatype span = Span (sp_lo: int) (sp_hi: int)

instantiation span :: linorder
begin

definition less_eq_span :: "span \<Rightarrow> span \<Rightarrow> bool" where
  "less_eq_span a b \<longleftrightarrow> sp_lo a < sp_lo b \<or> sp_lo a = sp_lo b \<and> sp_hi a \<le> sp_hi b"

definition less_span :: "span \<Rightarrow> span \<Rightarrow> bool" where
  "less_span a b \<longleftrightarrow> sp_lo a < sp_lo b \<or> sp_lo a = sp_lo b \<and> sp_hi a < sp_hi b"

instance
  by standard (auto simp: less_eq_span_def less_span_def intro: span.expand)

end

definition span_set :: "span \<Rightarrow> int set" where
  "span_set s = {sp_lo s..sp_hi s}"

definition spans_set :: "span list \<Rightarrow> int set" where
  "spans_set xs = (\<Union>s \<in> set xs. span_set s)"

definition proper :: "span \<Rightarrow> bool" where
  "proper s \<longleftrightarrow> sp_lo s \<le> sp_hi s"

definition gap :: "span \<Rightarrow> span \<Rightarrow> bool" where
  "gap a b \<longleftrightarrow> sp_hi a + 1 < sp_lo b"

definition normal :: "span list \<Rightarrow> bool" where
  "normal xs \<longleftrightarrow> list_all proper xs \<and> sorted_wrt gap xs"

lemma spans_set_simps [simp, denotation]:
  "spans_set [] = {}"
  "spans_set (s # xs) = span_set s \<union> spans_set xs"
  "spans_set (xs @ ys) = spans_set xs \<union> spans_set ys"
  by (auto simp: spans_set_def)

lemma mem_span_set [denotation]: "v \<in> span_set s \<longleftrightarrow> sp_lo s \<le> v \<and> v \<le> sp_hi s"
  by (simp add: span_set_def)

lemma mem_spans_set: "v \<in> spans_set xs \<longleftrightarrow> (\<exists>s \<in> set xs. sp_lo s \<le> v \<and> v \<le> sp_hi s)"
  by (auto simp: spans_set_def mem_span_set)

lemma overlap_iff:
  "\<lbrakk>proper s; lo \<le> hi\<rbrakk> \<Longrightarrow> lo \<le> sp_hi s \<and> sp_lo s \<le> hi \<longleftrightarrow> {lo..hi} \<inter> span_set s \<noteq> {}"
  by (auto simp: span_set_def proper_def)

lemma spans_set_cong: "set xs = set ys \<Longrightarrow> spans_set xs = spans_set ys"
  by (simp add: spans_set_def)

lemma normal_simps [simp]:
  "normal []"
  "normal (s # xs) \<longleftrightarrow> proper s \<and> (\<forall>x \<in> set xs. gap s x) \<and> normal xs"
  by (auto simp: normal_def)

lemma normal_append:
  "normal (xs @ ys) \<longleftrightarrow> normal xs \<and> normal ys \<and> (\<forall>x \<in> set xs. \<forall>y \<in> set ys. gap x y)"
  by (auto simp: normal_def sorted_wrt_append)

lemma normal_proper: "normal xs \<Longrightarrow> x \<in> set xs \<Longrightarrow> proper x"
  by (auto simp: normal_def list_all_iff)

lemma normal_rest_above:
  assumes "normal (s # xs)" and "v \<in> spans_set xs"
  shows "sp_hi s + 1 < v"
  using assms by (fastforce simp: mem_spans_set gap_def)

section \<open>The normal form is canonical\<close>

lemma normal_Cons_set_unique:
  assumes x: "normal (x # xs)" and y: "normal (y # ys)"
    and eq: "spans_set (x # xs) = spans_set (y # ys)"
  shows "x = y" and "spans_set xs = spans_set ys"
proof -
  have bot: "sp_lo x \<in> spans_set (x # xs)" "sp_lo y \<in> spans_set (y # ys)"
    using x y by (auto simp: mem_span_set proper_def)
  have least: "sp_lo x \<le> v" if "v \<in> spans_set (x # xs)" for v
    using that x normal_rest_above [OF x, of v] by (auto simp: mem_span_set proper_def)
  have least': "sp_lo y \<le> v" if "v \<in> spans_set (y # ys)" for v
    using that y normal_rest_above [OF y, of v] by (auto simp: mem_span_set proper_def)
  have "sp_lo x \<le> sp_lo y" by (rule least) (use bot eq in simp)
  moreover have "sp_lo y \<le> sp_lo x" by (rule least') (use bot eq in auto)
  ultimately have lo: "sp_lo x = sp_lo y" by simp
  have nx: "sp_hi x + 1 \<notin> spans_set (x # xs)"
    using normal_rest_above [OF x, of "sp_hi x + 1"] by (auto simp: mem_span_set)
  have ny: "sp_hi y + 1 \<notin> spans_set (y # ys)"
    using normal_rest_above [OF y, of "sp_hi y + 1"] by (auto simp: mem_span_set)
  have hi: "sp_hi x = sp_hi y"
  proof (rule ccontr)
    assume "sp_hi x \<noteq> sp_hi y"
    then consider "sp_hi x < sp_hi y" | "sp_hi y < sp_hi x" by linarith
    then show False
    proof cases
      case 1
      then have "sp_hi x + 1 \<in> span_set y" using lo x by (simp add: mem_span_set proper_def)
      with nx eq show False by auto
    next
      case 2
      then have "sp_hi y + 1 \<in> span_set x" using lo y by (simp add: mem_span_set proper_def)
      with ny eq show False by auto
    qed
  qed
  from lo hi show xy: "x = y" by (simp add: span.expand)
  have "spans_set xs = {v \<in> spans_set (x # xs). sp_hi x < v}"
    using normal_rest_above [OF x] by (fastforce simp: mem_span_set)
  also have "\<dots> = {v \<in> spans_set (y # ys). sp_hi y < v}" using eq xy by simp
  also have "\<dots> = spans_set ys"
    using normal_rest_above [OF y] by (fastforce simp: mem_span_set)
  finally show "spans_set xs = spans_set ys" .
qed

lemma normal_empty_iff: "normal xs \<Longrightarrow> spans_set xs = {} \<longleftrightarrow> xs = []"
  by (cases xs) (auto simp: span_set_def proper_def)

theorem normal_canonical:
  "\<lbrakk>normal xs; normal ys; spans_set xs = spans_set ys\<rbrakk> \<Longrightarrow> xs = ys"
proof (induction xs arbitrary: ys)
  case Nil
  then show ?case using normal_empty_iff [of ys] by simp
next
  case (Cons x xs)
  then obtain y ys' where ys: "ys = y # ys'"
    using normal_empty_iff [of "x # xs"] by (cases ys) auto
  have "x = y" and "spans_set xs = spans_set ys'"
    using normal_Cons_set_unique [of x xs y ys'] Cons.prems unfolding ys by blast+
  moreover have "xs = ys'"
    by (rule Cons.IH) (use Cons.prems ys calculation in auto)
  ultimately show ?case using ys by simp
qed

section \<open>Searching a normal list\<close>

lemma normal_nth_mono:
  assumes "normal xs" and "a < b" and "b < length xs"
  shows "sp_hi (xs ! a) + 1 < sp_lo (xs ! b)"
  using assms by (auto simp: normal_def sorted_wrt_iff_nth_less gap_def)

lemma normal_nth_proper: "normal xs \<Longrightarrow> a < length xs \<Longrightarrow> sp_lo (xs ! a) \<le> sp_hi (xs ! a)"
  by (auto simp: normal_def list_all_length proper_def)

lemma normal_hi_mono:
  "\<lbrakk>normal xs; a \<le> b; b < length xs; v \<le> sp_hi (xs ! a)\<rbrakk> \<Longrightarrow> v \<le> sp_hi (xs ! b)"
  using normal_nth_mono [of xs a b] normal_nth_proper [of xs b] by (cases "a = b") auto

lemma normal_lo_mono:
  "\<lbrakk>normal xs; a \<le> b; b < length xs; v < sp_lo (xs ! a)\<rbrakk> \<Longrightarrow> v < sp_lo (xs ! b)"
  using normal_nth_mono [of xs a b] normal_nth_proper [of xs a] by (cases "a = b") auto

text \<open>The first span that ends at or after \<open>v\<close> decides membership and overlap.\<close>

lemma search_hi:
  assumes n: "normal xs" and i: "i = sort_Search (length xs) (\<lambda>k. v \<le> sp_hi (xs ! k))"
  shows "i < length xs \<and> sp_lo (xs ! i) \<le> w \<longleftrightarrow> (\<exists>s \<in> set xs. v \<le> sp_hi s \<and> sp_lo s \<le> w)"
proof -
  let ?f = "\<lambda>k. v \<le> sp_hi (xs ! k)"
  have mono: "upward (length xs) ?f"
    using normal_hi_mono [OF n] unfolding upward_def by blast
  show ?thesis
  proof
    assume a: "i < length xs \<and> sp_lo (xs ! i) \<le> w"
    then have "?f i" using sort_Search_least(2) [OF mono, of i] i by simp
    with a show "\<exists>s \<in> set xs. v \<le> sp_hi s \<and> sp_lo s \<le> w" by (meson nth_mem)
  next
    assume "\<exists>s \<in> set xs. v \<le> sp_hi s \<and> sp_lo s \<le> w"
    then obtain k where k: "k < length xs" "?f k" "sp_lo (xs ! k) \<le> w"
      by (auto simp: in_set_conv_nth)
    have ik: "i \<le> k"
      using sort_Search_least(1) [OF mono, of k] k(2) i by (meson not_le_imp_less)
    with normal_lo_mono [OF n ik k(1), of w] k(1,3) show "i < length xs \<and> sp_lo (xs ! i) \<le> w"
      by (meson le_less_trans not_le_imp_less not_less)
  qed
qed

lemma search_hi_member:
  assumes "normal xs" and "i = sort_Search (length xs) (\<lambda>k. v \<le> sp_hi (xs ! k))"
  shows "i < length xs \<and> sp_lo (xs ! i) \<le> v \<longleftrightarrow> v \<in> spans_set xs"
  using search_hi [OF assms, of v] by (auto simp: mem_spans_set)

section \<open>The contract of an interval package\<close>

locale interval_algebra =
  fixes points :: "'r list \<Rightarrow> int set"
    and ok :: "'r list \<Rightarrow> bool"
    and norm :: "'r list \<Rightarrow> 'r list"
    and diff :: "'r list \<Rightarrow> 'r list \<Rightarrow> 'r list"
  assumes norm_points: "ok xs \<Longrightarrow> points (norm xs) = points xs"
    and norm_ok: "ok xs \<Longrightarrow> ok (norm xs)"
    and norm_canonical: "\<lbrakk>ok xs; ok ys; points xs = points ys\<rbrakk> \<Longrightarrow> norm xs = norm ys"
    and diff_points: "\<lbrakk>ok xs; ok ys\<rbrakk> \<Longrightarrow> points (diff xs ys) = points xs - points ys"
    and diff_ok: "\<lbrakk>ok xs; ok ys\<rbrakk> \<Longrightarrow> ok (diff xs ys)"
begin

lemma norm_idem: "ok xs \<Longrightarrow> norm (norm xs) = norm xs"
  by (rule norm_canonical) (simp_all add: norm_points norm_ok)

lemma diff_comm:
  "\<lbrakk>ok xs; ok ys; ok zs\<rbrakk> \<Longrightarrow> norm (diff (diff xs ys) zs) = norm (diff (diff xs zs) ys)"
  by (rule norm_canonical) (auto simp: diff_points diff_ok)

lemma diff_diff_points: "\<lbrakk>ok xs; ok ys\<rbrakk> \<Longrightarrow> points (diff xs (diff xs ys)) = points xs \<inter> points ys"
  by (auto simp: diff_points diff_ok)

lemma diff_partition:
  assumes "ok xs" and "ok ys"
  shows "points (diff xs ys) \<union> points (diff xs (diff xs ys)) = points xs"
    and "points (diff xs ys) \<inter> points (diff xs (diff xs ys)) = {}"
  using assms by (auto simp: diff_points diff_ok)

lemma diff_norm: "\<lbrakk>ok xs; ok ys\<rbrakk> \<Longrightarrow> norm (diff (norm xs) (norm ys)) = norm (diff xs ys)"
  by (rule norm_canonical) (simp_all add: diff_points diff_ok norm_points norm_ok)

lemma diff_disjoint_id:
  "\<lbrakk>ok xs; ok ys; points xs \<inter> points ys = {}\<rbrakk> \<Longrightarrow> norm (diff xs ys) = norm xs"
  by (rule norm_canonical) (auto simp: diff_points diff_ok)

end

end
