(* ===== verification/CIDR_Util.thy ===== *)
theory CIDR_Util
  imports Netip Intervals "HOL-Library.Product_Lexorder"
begin

text \<open>
  Package \<open>internal/cidrutil\<close>: prefix lists of both address families as sorted interval lists
  over big integers, their union, intersection and difference, the split of an interval into
  prefixes, and the membership set of \<open>set.go\<close>. Big integers are \<^typ>\<open>int\<close>; the intervals are
  the \<^typ>\<open>span\<close>s of the theory of intervals.
\<close>

section \<open>Definitions\<close>

fun ToBig :: "addr \<Rightarrow> int" where
  "ToBig (Addr4 w) = uint w"
| "ToBig (Addr6 w _) = uint w"
| "ToBig AddrZero = 0"

definition FromBig :: "int \<Rightarrow> bool \<Rightarrow> addr" where
  "FromBig v is6 = (if is6 then Addr6 (word_of_int \<bar>v\<bar>) [] else Addr4 (word_of_int \<bar>v\<bar>))"

definition family_bits :: "bool \<Rightarrow> nat" where
  "family_bits is6 = (if is6 then 128 else 32)"

fun size_loop :: "nat \<Rightarrow> int \<Rightarrow> int \<Rightarrow> nat \<Rightarrow> nat" where
  "size_loop bits cur hi 0 = 0"
| "size_loop bits cur hi (Suc m) =
     (let msk = push_bit (bits - Suc m + 1) 1 - 1 in
      if cur AND msk \<noteq> 0 then Suc m
      else if hi < cur + msk then Suc m
      else size_loop bits cur hi m)"

function range_prefixes_loop :: "bool \<Rightarrow> int \<Rightarrow> int \<Rightarrow> prefix list" where
  "range_prefixes_loop is6 cur hi =
     (if cur \<le> hi then
        let bits = family_bits is6;
            size = size_loop bits cur hi bits;
            nxt = cur + push_bit (bits - size) 1
        in PrefixFrom (FromBig cur is6) (int size) #
           (if 2 ^ bits \<le> nxt then [] else range_prefixes_loop is6 nxt hi)
      else [])"
  by pat_completeness auto
termination
  by (relation "measure (\<lambda>(is6, cur, hi). nat (hi - cur + 1))") (auto simp: push_bit_eq_mult)

declare range_prefixes_loop.simps [simp del]

definition rangePrefixes :: "int \<Rightarrow> int \<Rightarrow> bool \<Rightarrow> prefix list" where
  "rangePrefixes lo hi is6 = range_prefixes_loop is6 lo hi"

fun merge_loop :: "span \<Rightarrow> span list \<Rightarrow> span list" where
  "merge_loop cur [] = [cur]"
| "merge_loop cur (s # ss) =
     (if sp_lo s \<le> sp_hi cur + 1
      then merge_loop (if sp_hi cur < sp_hi s then Span (sp_lo cur) (sp_hi s) else cur) ss
      else cur # merge_loop s ss)"

definition mergeSpans :: "span list \<Rightarrow> span list" where
  "mergeSpans spans = (case sort spans of [] \<Rightarrow> [] | s # ss \<Rightarrow> merge_loop s ss)"

definition collapseFamily :: "span list \<Rightarrow> bool \<Rightarrow> prefix list" where
  "collapseFamily spans is6 = concat (map (\<lambda>s. rangePrefixes (sp_lo s) (sp_hi s) is6) (mergeSpans spans))"

definition spansOfPrefix :: "prefix \<Rightarrow> span" where
  "spansOfPrefix p0 =
     (let p = Masked p0;
          lo = ToBig (pfx_addr p);
          bits = (if Is6 (pfx_addr p) then 128 else 32);
          size = push_bit (nat (bits - pfx_bits p)) 1
      in Span lo (lo + size - 1))"

definition CollapseAddrs :: "addr list \<Rightarrow> prefix list" where
  "CollapseAddrs addrs =
     (let as = filter IsValid (map Unmap addrs);
          sp = (\<lambda>a. Span (ToBig a) (ToBig a))
      in collapseFamily (map sp (filter (\<lambda>a. \<not> Is6 a) as)) False @
         collapseFamily (map sp (filter Is6 as)) True)"

definition splitFamilies :: "prefix list \<Rightarrow> span list \<times> span list" where
  "splitFamilies ps =
     (let vs = filter pfx_IsValid ps
      in (map spansOfPrefix (filter (\<lambda>p. \<not> Is6 (pfx_addr p)) vs),
          map spansOfPrefix (filter (\<lambda>p. Is6 (pfx_addr p)) vs)))"

text \<open>\<open>CollapsePrefixes\<close> repeats the loop of \<open>splitFamilies\<close> in place.\<close>

definition CollapsePrefixes :: "prefix list \<Rightarrow> prefix list" where
  "CollapsePrefixes ps =
     (let (v4, v6) = splitFamilies ps in collapseFamily v4 False @ collapseFamily v6 True)"

fun intersect_loop :: "span list \<Rightarrow> span list \<Rightarrow> span list" where
  "intersect_loop (x # xs) (y # ys) =
     (let lo = (if sp_lo x < sp_lo y then sp_lo y else sp_lo x);
          hi = (if sp_hi y < sp_hi x then sp_hi y else sp_hi x)
      in (if lo \<le> hi then [Span lo hi] else []) @
         (if sp_hi x < sp_hi y then intersect_loop xs (y # ys) else intersect_loop (x # xs) ys))"
| "intersect_loop _ _ = []"

definition intersectSpans :: "span list \<Rightarrow> span list \<Rightarrow> span list" where
  "intersectSpans a b = intersect_loop (mergeSpans a) (mergeSpans b)"

text \<open>The inner loop of \<open>subtractSpans\<close>: the pieces cut off below \<open>lo\<close>, and the final \<open>lo\<close>.\<close>

fun subtract_inner :: "int \<Rightarrow> int \<Rightarrow> span list \<Rightarrow> span list \<times> int" where
  "subtract_inner lo chi [] = ([], lo)"
| "subtract_inner lo chi (b # bs) =
     (if sp_lo b \<le> chi then
        let piece = (if lo < sp_lo b then [Span lo (sp_lo b - 1)] else []);
            lo' = (if lo < sp_hi b + 1 then sp_hi b + 1 else lo)
        in if chi < lo' then (piece, lo')
           else (let (ps, l) = subtract_inner lo' chi bs in (piece @ ps, l))
      else ([], lo))"

fun subtract_outer :: "span list \<Rightarrow> span list \<Rightarrow> span list" where
  "subtract_outer [] bs = []"
| "subtract_outer (c # cs) bs =
     (let bs' = dropWhile (\<lambda>b. sp_hi b < sp_lo c) bs;
          (ps, lo) = subtract_inner (sp_lo c) (sp_hi c) bs'
      in ps @ (if lo \<le> sp_hi c then [Span lo (sp_hi c)] else []) @ subtract_outer cs bs')"

definition subtractSpans :: "span list \<Rightarrow> span list \<Rightarrow> span list" where
  "subtractSpans a b = subtract_outer (mergeSpans a) (mergeSpans b)"

definition spansToPrefixes :: "span list \<Rightarrow> span list \<Rightarrow> prefix list" where
  "spansToPrefixes v4 v6 =
     concat (map (\<lambda>s. rangePrefixes (sp_lo s) (sp_hi s) False) v4) @
     concat (map (\<lambda>s. rangePrefixes (sp_lo s) (sp_hi s) True) v6)"

definition cidr_Intersect :: "prefix list \<Rightarrow> prefix list \<Rightarrow> prefix list" where
  "cidr_Intersect base msk =
     (let (b4, b6) = splitFamilies base; (m4, m6) = splitFamilies msk
      in spansToPrefixes (intersectSpans b4 m4) (intersectSpans b6 m6))"

definition cidr_Subtract :: "prefix list \<Rightarrow> prefix list \<Rightarrow> prefix list" where
  "cidr_Subtract base remove =
     (let (b4, b6) = splitFamilies base; (r4, r6) = splitFamilies remove
      in spansToPrefixes (subtractSpans b4 r4) (subtractSpans b6 r6))"

definition cidr_ParsePrefix :: "string \<Rightarrow> prefix option" where
  "cidr_ParsePrefix text =
     (if CHR ''/'' \<in> set text then map_option Masked (ParsePrefix text)
      else case ParseAddr text of
        None \<Rightarrow> None
      | Some a \<Rightarrow> Some (PrefixFrom (Unmap a) (int (BitLen (Unmap a)))))"

text \<open>
  \<open>ReadPrefixes\<close> over the lines the scanner returns: the first line that does not parse is an
  error for the whole file.
\<close>

fun ReadPrefixes :: "string list \<Rightarrow> prefix list option" where
  "ReadPrefixes [] = Some []"
| "ReadPrefixes (raw # rest) =
     (let line = TrimSpace raw in
      if line = [] \<or> HasPrefix line ''#'' then ReadPrefixes rest
      else case cidr_ParsePrefix line of
        None \<Rightarrow> None
      | Some p \<Rightarrow> map_option ((#) p) (ReadPrefixes rest))"

text \<open>\<open>SortAddrs\<close>: IPv4 before IPv6, then by value (addresses that differ in the zone only are equal here).\<close>

definition SortAddrs :: "addr list \<Rightarrow> addr list" where
  "SortAddrs addrs = sort_key (\<lambda>a. (Is6 a, ToBig a)) addrs"

definition FormatAddr4 :: "u32 \<Rightarrow> string" where
  "FormatAddr4 v = addr_String (Addr4 (from_octets [ucast (drop_bit 24 v), ucast (drop_bit 16 v),
     ucast (drop_bit 8 v), ucast v]))"

record cidr_set =
  cs_v4 :: "span list"
  cs_v6 :: "span list"

definition NewSet :: "prefix list \<Rightarrow> cidr_set" where
  "NewSet ps =
     (let (v4, v6) = splitFamilies ps in \<lparr>cs_v4 = mergeSpans v4, cs_v6 = mergeSpans v6\<rparr>)"

fun parse_set_loop :: "string list \<Rightarrow> prefix list \<Rightarrow> string list \<Rightarrow> prefix list \<times> string list" where
  "parse_set_loop [] ps rejected = (ps, rejected)"
| "parse_set_loop (raw # rest) ps rejected =
     (case cidr_ParsePrefix raw of
        None \<Rightarrow> parse_set_loop rest ps (rejected @ [raw])
      | Some p \<Rightarrow> parse_set_loop rest (ps @ [p]) rejected)"

definition ParseSet :: "string list \<Rightarrow> cidr_set \<times> string list" where
  "ParseSet values = (let (ps, rejected) = parse_set_loop values [] [] in (NewSet ps, rejected))"

text \<open>A \<open>*Set\<close> may be nil: \<open>None\<close>.\<close>

definition cidr_Contains :: "cidr_set option \<Rightarrow> addr \<Rightarrow> bool" where
  "cidr_Contains s addr =
     (case s of
        None \<Rightarrow> False
      | Some cs \<Rightarrow>
          if \<not> IsValid addr then False
          else
            let a = Unmap addr;
                spans = (if Is6 a then cs_v6 cs else cs_v4 cs)
            in if spans = [] then False
               else
                 let value = ToBig a;
                     i = sort_Search (length spans) (\<lambda>k. value \<le> sp_hi (spans ! k))
                 in i < length spans \<and> sp_lo (spans ! i) \<le> value)"

definition cidr_Prefixes :: "cidr_set option \<Rightarrow> prefix list" where
  "cidr_Prefixes s =
     (case s of None \<Rightarrow> [] | Some cs \<Rightarrow>
        concat (map (\<lambda>sp. rangePrefixes (sp_lo sp) (sp_hi sp) False) (cs_v4 cs)) @
        concat (map (\<lambda>sp. rangePrefixes (sp_lo sp) (sp_hi sp) True) (cs_v6 cs)))"

section \<open>Merging\<close>

lemma merge_step_sorted:
  assumes "sorted (cur # s # ss)"
  shows "sorted ((if sp_hi cur < sp_hi s then Span (sp_lo cur) (sp_hi s) else cur) # ss)"
proof -
  have "cur \<le> s" "sorted ss" "\<forall>x \<in> set ss. cur \<le> x \<and> s \<le> x" using assms by auto
  then show ?thesis by (auto simp: less_eq_span_def)
qed

lemma merge_loop_set:
  "sorted (cur # ss) \<Longrightarrow> spans_set (merge_loop cur ss) = span_set cur \<union> spans_set ss"
proof (induction cur ss rule: merge_loop.induct)
  case (2 cur s ss)
  let ?m = "if sp_hi cur < sp_hi s then Span (sp_lo cur) (sp_hi s) else cur"
  from "2.prems" have le: "sp_lo cur \<le> sp_lo s" by (auto simp: less_eq_span_def)
  show ?case
  proof (cases "sp_lo s \<le> sp_hi cur + 1")
    case True
    have "sorted (?m # ss)" using "2.prems" by (rule merge_step_sorted)
    moreover have "span_set ?m = span_set cur \<union> span_set s"
      using True le by (auto simp: span_set_def)
    ultimately show ?thesis using 2 True by auto
  qed (use 2 in auto)
qed simp

lemma merge_loop_normal:
  assumes "sorted (cur # ss)" and "proper cur" and "list_all proper ss"
  shows "normal (merge_loop cur ss) \<and> (\<forall>x \<in> set (merge_loop cur ss). sp_lo cur \<le> sp_lo x)"
  using assms
proof (induction cur ss rule: merge_loop.induct)
  case (2 cur s ss)
  let ?m = "if sp_hi cur < sp_hi s then Span (sp_lo cur) (sp_hi s) else cur"
  from "2.prems" have le: "sp_lo cur \<le> sp_lo s" by (auto simp: less_eq_span_def)
  show ?case
  proof (cases "sp_lo s \<le> sp_hi cur + 1")
    case True
    have "sorted (?m # ss)" using "2.prems"(1) by (rule merge_step_sorted)
    moreover have "proper ?m" using "2.prems" by (auto simp: proper_def)
    moreover have "sp_lo ?m = sp_lo cur" by simp
    ultimately show ?thesis using 2(1) [OF True] "2.prems" True by auto
  next
    case False
    have "normal (merge_loop s ss) \<and> (\<forall>x \<in> set (merge_loop s ss). sp_lo s \<le> sp_lo x)"
      using 2(2) [OF False] "2.prems" by simp
    then show ?thesis using False "2.prems" by (fastforce simp: gap_def proper_def)
  qed
qed simp

lemma mergeSpans_set [simp, denotation]: "spans_set (mergeSpans xs) = spans_set xs"
proof (cases "sort xs")
  case (Cons s ss)
  have "sorted (s # ss)" using sorted_sort [of xs] Cons by simp
  then have "spans_set (mergeSpans xs) = spans_set (s # ss)"
    by (simp add: mergeSpans_def Cons merge_loop_set)
  also have "\<dots> = spans_set xs" using Cons by (intro spans_set_cong) (metis set_sort)
  finally show ?thesis .
next
  case Nil
  then have "xs = []" by (metis length_0_conv length_sort)
  then show ?thesis by (simp add: mergeSpans_def)
qed

lemma mergeSpans_normal: "list_all proper xs \<Longrightarrow> normal (mergeSpans xs)"
proof (cases "sort xs")
  case (Cons s ss)
  assume "list_all proper xs"
  then have "list_all proper (s # ss)" using Cons by (metis list_all_iff set_sort)
  moreover have "sorted (s # ss)" using sorted_sort [of xs] Cons by simp
  ultimately show ?thesis using merge_loop_normal [of s ss] by (simp add: mergeSpans_def Cons)
qed (simp add: mergeSpans_def)

lemma mergeSpans_canonical:
  "\<lbrakk>list_all proper xs; list_all proper ys; spans_set xs = spans_set ys\<rbrakk>
   \<Longrightarrow> mergeSpans xs = mergeSpans ys"
  by (rule normal_canonical) (simp_all add: mergeSpans_normal)

section \<open>Intersection\<close>

lemma intersect_loop_within:
  "\<lbrakk>normal xs; normal ys; s \<in> set (intersect_loop xs ys)\<rbrakk> \<Longrightarrow>
   proper s \<and> (\<exists>x \<in> set xs. sp_lo x \<le> sp_lo s \<and> sp_hi s \<le> sp_hi x) \<and>
   (\<exists>y \<in> set ys. sp_lo y \<le> sp_lo s \<and> sp_hi s \<le> sp_hi y)"
proof (induction xs ys rule: intersect_loop.induct)
  case (1 x xs y ys)
  show ?case
  proof (cases "s \<in> set (if sp_hi x < sp_hi y then intersect_loop xs (y # ys) else intersect_loop (x # xs) ys)")
    case True
    with 1 show ?thesis by (cases "sp_hi x < sp_hi y") auto
  next
    case False
    with "1.prems"(3) show ?thesis by (auto simp: proper_def Let_def split: if_splits)
  qed
qed auto

lemma intersect_loop_set:
  "\<lbrakk>normal xs; normal ys\<rbrakk> \<Longrightarrow> spans_set (intersect_loop xs ys) = spans_set xs \<inter> spans_set ys"
proof (induction xs ys rule: intersect_loop.induct)
  case (1 x xs y ys)
  let ?h = "let lo = (if sp_lo x < sp_lo y then sp_lo y else sp_lo x);
                hi = (if sp_hi y < sp_hi x then sp_hi y else sp_hi x)
            in if lo \<le> hi then [Span lo hi] else []"
  have head: "spans_set ?h = span_set x \<inter> span_set y" by (auto simp: span_set_def Let_def)
  have ax: "sp_hi x < v" if "v \<in> spans_set xs" for v
    using normal_rest_above [OF "1.prems"(1) that] by simp
  have ay: "sp_hi y < v" if "v \<in> spans_set ys" for v
    using normal_rest_above [OF "1.prems"(2) that] by simp
  show ?case
  proof (cases "sp_hi x < sp_hi y")
    case True
    have "spans_set (intersect_loop xs (y # ys)) = spans_set xs \<inter> spans_set (y # ys)"
      using 1 True by simp
    moreover have "span_set x \<inter> spans_set ys = {}"
      using ay True by (fastforce simp: span_set_def)
    ultimately show ?thesis using True head by (auto simp: Let_def)
  next
    case False
    have "spans_set (intersect_loop (x # xs) ys) = spans_set (x # xs) \<inter> spans_set ys"
      using 1 False by simp
    moreover have "span_set y \<inter> spans_set xs = {}"
      using ax False by (fastforce simp: span_set_def)
    ultimately show ?thesis using False head by (auto simp: Let_def)
  qed
qed auto

lemma intersectSpans_set [denotation]:
  "\<lbrakk>list_all proper a; list_all proper b\<rbrakk> \<Longrightarrow> spans_set (intersectSpans a b) = spans_set a \<inter> spans_set b"
  by (simp add: intersectSpans_def intersect_loop_set mergeSpans_normal)

section \<open>Difference\<close>

definition cut_pieces :: "int \<Rightarrow> int \<Rightarrow> span list \<Rightarrow> span list" where
  "cut_pieces lo chi bs =
     (let (ps, l) = subtract_inner lo chi bs in ps @ (if l \<le> chi then [Span l chi] else []))"

lemma cut_pieces_Nil: "cut_pieces lo chi [] = (if lo \<le> chi then [Span lo chi] else [])"
  by (simp add: cut_pieces_def)

lemma cut_pieces_Cons:
  "cut_pieces lo chi (b # bs) =
     (if sp_lo b \<le> chi then
        (if lo < sp_lo b then [Span lo (sp_lo b - 1)] else []) @
        (if chi < max lo (sp_hi b + 1) then [] else cut_pieces (max lo (sp_hi b + 1)) chi bs)
      else if lo \<le> chi then [Span lo chi] else [])"
proof -
  have "(if lo < sp_hi b + 1 then sp_hi b + 1 else lo) = max lo (sp_hi b + 1)" by simp
  then show ?thesis by (auto simp: cut_pieces_def Let_def split: prod.splits)
qed

lemma cut_pieces_correct:
  "normal bs \<Longrightarrow>
   spans_set (cut_pieces lo chi bs) = {lo..chi} - spans_set bs \<and> normal (cut_pieces lo chi bs) \<and>
   (\<forall>s \<in> set (cut_pieces lo chi bs). lo \<le> sp_lo s \<and> sp_hi s \<le> chi)"
proof (induction bs arbitrary: lo)
  case Nil
  then show ?case by (simp add: cut_pieces_Nil span_set_def proper_def)
next
  case (Cons b bs)
  let ?l = "max lo (sp_hi b + 1)"
  have pb: "sp_lo b \<le> sp_hi b" using Cons.prems by (simp add: proper_def)
  have above: "sp_hi b < v" if "v \<in> spans_set bs" for v
    using normal_rest_above [OF Cons.prems that] by simp
  have IH: "spans_set (cut_pieces ?l chi bs) = {?l..chi} - spans_set bs"
    "normal (cut_pieces ?l chi bs)"
    "\<forall>s \<in> set (cut_pieces ?l chi bs). ?l \<le> sp_lo s \<and> sp_hi s \<le> chi"
    using Cons.IH [of ?l] Cons.prems unfolding normal_simps by blast+
  show ?case
  proof (cases "sp_lo b \<le> chi")
    case True
    let ?p = "if lo < sp_lo b then [Span lo (sp_lo b - 1)] else []"
    let ?r = "if chi < ?l then [] else cut_pieces ?l chi bs"
    have eq: "cut_pieces lo chi (b # bs) = ?p @ ?r" using True by (simp add: cut_pieces_Cons)
    have r: "spans_set ?r = {?l..chi} - spans_set bs" "normal ?r"
      "\<forall>s \<in> set ?r. ?l \<le> sp_lo s \<and> sp_hi s \<le> chi" using IH by auto
    have p: "spans_set ?p = {lo..<sp_lo b}" by (auto simp: span_set_def)
    have "spans_set (?p @ ?r) = {lo..chi} - spans_set (b # bs)"
      using above pb True r(1) p by (fastforce simp: span_set_def)
    moreover have "normal (?p @ ?r)"
      using r(2,3) pb by (fastforce simp: normal_append proper_def gap_def)
    moreover have "\<forall>s \<in> set (?p @ ?r). lo \<le> sp_lo s \<and> sp_hi s \<le> chi"
      using r(3) True by fastforce
    ultimately show ?thesis unfolding eq by blast
  next
    case False
    have "spans_set (b # bs) \<inter> {lo..chi} = {}" using False above pb by (fastforce simp: span_set_def)
    then show ?thesis using False by (auto simp: cut_pieces_Cons span_set_def proper_def)
  qed
qed

lemma subtract_outer_Cons:
  "subtract_outer (c # cs) bs =
     (let bs' = dropWhile (\<lambda>b. sp_hi b < sp_lo c) bs
      in cut_pieces (sp_lo c) (sp_hi c) bs' @ subtract_outer cs bs')"
  by (simp add: cut_pieces_def Let_def split: prod.splits)

declare subtract_outer.simps(2) [simp del]

lemma dropWhile_below:
  assumes "normal bs"
  shows "normal (dropWhile (\<lambda>b. sp_hi b < l) bs)"
    and "\<And>v. l \<le> v \<Longrightarrow> v \<in> spans_set (dropWhile (\<lambda>b. sp_hi b < l) bs) \<longleftrightarrow> v \<in> spans_set bs"
  using assms by (induction bs) (auto simp: span_set_def)

lemma subtract_outer_correct:
  "\<lbrakk>normal cs; normal bs\<rbrakk> \<Longrightarrow>
   spans_set (subtract_outer cs bs) = spans_set cs - spans_set bs \<and> normal (subtract_outer cs bs) \<and>
   (\<forall>s \<in> set (subtract_outer cs bs). \<exists>c \<in> set cs. sp_lo c \<le> sp_lo s \<and> sp_hi s \<le> sp_hi c)"
proof (induction cs arbitrary: bs)
  case (Cons c cs)
  let ?bs = "dropWhile (\<lambda>b. sp_hi b < sp_lo c) bs"
  have nb: "normal ?bs" using dropWhile_below(1) Cons.prems(2) .
  have keep: "v \<in> spans_set ?bs \<longleftrightarrow> v \<in> spans_set bs" if "sp_lo c \<le> v" for v
    using dropWhile_below(2) [OF Cons.prems(2) that] .
  have above: "sp_hi c < v" if "v \<in> spans_set cs" for v
    using normal_rest_above [OF Cons.prems(1) that] by simp
  have pc: "sp_lo c \<le> sp_hi c" using Cons.prems by (simp add: proper_def)
  note P = cut_pieces_correct [OF nb, of "sp_lo c" "sp_hi c"]
  have R: "spans_set (subtract_outer cs ?bs) = spans_set cs - spans_set ?bs"
    "normal (subtract_outer cs ?bs)"
    "\<forall>s \<in> set (subtract_outer cs ?bs). \<exists>c \<in> set cs. sp_lo c \<le> sp_lo s \<and> sp_hi s \<le> sp_hi c"
    using Cons.IH [of ?bs] Cons.prems nb by auto
  have "spans_set cs - spans_set ?bs = spans_set cs - spans_set bs"
  proof -
    have "v \<in> spans_set ?bs \<longleftrightarrow> v \<in> spans_set bs" if "v \<in> spans_set cs" for v
      using above [OF that] pc by (intro keep) linarith
    then show ?thesis by blast
  qed
  moreover have "{sp_lo c..sp_hi c} - spans_set ?bs = {sp_lo c..sp_hi c} - spans_set bs"
    using keep by auto
  ultimately have set: "spans_set (subtract_outer (c # cs) bs) = spans_set (c # cs) - spans_set bs"
    using P R(1) by (auto simp: subtract_outer_Cons Let_def span_set_def)
  have "gap x y" if x: "x \<in> set (cut_pieces (sp_lo c) (sp_hi c) ?bs)"
    and y: "y \<in> set (subtract_outer cs ?bs)" for x y
  proof -
    obtain c' where "c' \<in> set cs" "sp_lo c' \<le> sp_lo y" using R(3) y by blast
    moreover have "gap c c'" using Cons.prems(1) calculation by simp
    moreover have "sp_hi x \<le> sp_hi c" using P x by blast
    ultimately show ?thesis by (simp add: gap_def)
  qed
  then have "normal (subtract_outer (c # cs) bs)"
    using P R(2) by (simp add: subtract_outer_Cons Let_def normal_append)
  moreover have "\<forall>s \<in> set (subtract_outer (c # cs) bs).
      \<exists>c' \<in> set (c # cs). sp_lo c' \<le> sp_lo s \<and> sp_hi s \<le> sp_hi c'"
    using P R(3) by (auto simp: subtract_outer_Cons Let_def)
  ultimately show ?case using set by blast
qed simp

lemma subtractSpans_set [denotation]:
  "\<lbrakk>list_all proper a; list_all proper b\<rbrakk> \<Longrightarrow> spans_set (subtractSpans a b) = spans_set a - spans_set b"
  using subtract_outer_correct [of "mergeSpans a" "mergeSpans b"]
  by (simp add: subtractSpans_def mergeSpans_normal)

lemma subtractSpans_normal:
  "\<lbrakk>list_all proper a; list_all proper b\<rbrakk> \<Longrightarrow> normal (subtractSpans a b)"
  using subtract_outer_correct [of "mergeSpans a" "mergeSpans b"]
  by (simp add: subtractSpans_def mergeSpans_normal)

lemma normal_list_all_proper: "normal xs \<Longrightarrow> list_all proper xs"
  by (simp add: normal_def)

interpretation spans: interval_algebra spans_set "list_all proper" mergeSpans subtractSpans
  by unfold_locales
    (auto simp: subtractSpans_set intro: mergeSpans_canonical normal_list_all_proper
      mergeSpans_normal subtractSpans_normal)

section \<open>Prefixes as spans\<close>

text \<open>What \<open>PrefixFrom\<close> and the parsers build: no zone, and bits that fit the family.\<close>

fun wf_prefix :: "prefix \<Rightarrow> bool" where
  "wf_prefix (Prefix AddrZero b) \<longleftrightarrow> b = - 1"
| "wf_prefix (Prefix (Addr4 _) b) \<longleftrightarrow> - 1 \<le> b \<and> b \<le> 32"
| "wf_prefix (Prefix (Addr6 _ z) b) \<longleftrightarrow> z = [] \<and> - 1 \<le> b \<and> b \<le> 128"

lemma wf_PrefixFrom [simp]: "wf_prefix (PrefixFrom a b)"
  by (cases a) (auto simp: PrefixFrom_def)

lemma wf_Masked [simp]: "wf_prefix (Masked p)"
  by (cases p rule: Masked.cases) (auto simp: prefix_zero_def)

lemma valid_cases:
  assumes "wf_prefix p" and "pfx_IsValid p"
  obtains (v4) w b where "p = Prefix (Addr4 w) (int b)" "b \<le> 32"
    | (v6) w b where "p = Prefix (Addr6 w []) (int b)" "b \<le> 128"
proof (cases p rule: wf_prefix.cases)
  case (2 w b)
  with assms show ?thesis using v4 [of w "nat b"] by (simp add: pfx_IsValid_def)
next
  case (3 w z b)
  with assms show ?thesis using v6 [of w "nat b"] by (auto simp: pfx_IsValid_def)
qed (use assms in \<open>simp add: pfx_IsValid_def\<close>)

lemma span_v4 [denotation]:
  "b \<le> 32 \<Longrightarrow> spansOfPrefix (Prefix (Addr4 w) (int b)) =
     Span (uint (clear_low (32 - b) w)) (uint (clear_low (32 - b) w) + 2 ^ (32 - b) - 1)"
  by (simp add: spansOfPrefix_def Let_def push_bit_eq_mult nat_diff_distrib')

lemma span_v6 [denotation]:
  "b \<le> 128 \<Longrightarrow> spansOfPrefix (Prefix (Addr6 w z) (int b)) =
     Span (uint (clear_low (128 - b) w)) (uint (clear_low (128 - b) w) + 2 ^ (128 - b) - 1)"
  by (simp add: spansOfPrefix_def Let_def push_bit_eq_mult nat_diff_distrib')

lemma span_proper: "wf_prefix p \<Longrightarrow> pfx_IsValid p \<Longrightarrow> proper (spansOfPrefix p)"
  by (erule valid_cases, assumption) (simp_all add: span_v4 span_v6 proper_def)

lemma span_bounds:
  assumes "wf_prefix p" and "pfx_IsValid p"
  shows "0 \<le> sp_lo (spansOfPrefix p) \<and>
    sp_hi (spansOfPrefix p) < 2 ^ family_bits (Is6 (pfx_addr p))"
  using assms
proof (cases rule: valid_cases)
  case (v4 w b)
  with block_bound_uint [of "32 - b" w] show ?thesis
    by (simp add: span_v4 family_bits_def clear_low_def)
next
  case (v6 w b)
  with block_bound_uint [of "128 - b" w] show ?thesis
    by (simp add: span_v6 family_bits_def clear_low_def)
qed

text \<open>A prefix contains an address exactly when the address lies in the prefix's span.\<close>

lemma contains_v4:
  assumes "b \<le> 32"
  shows "pfx_Contains (Prefix (Addr4 p) (int b)) (Addr4 w) \<longleftrightarrow>
    uint w \<in> span_set (spansOfPrefix (Prefix (Addr4 p) (int b)))"
proof -
  have "pfx_Contains (Prefix (Addr4 p) (int b)) (Addr4 w) \<longleftrightarrow>
      w AND NOT (mask (32 - b)) = p AND NOT (mask (32 - b))"
    by (simp only: pfx_Contains.simps nat_int drop_xor_iff) simp
  then show ?thesis
    using assms block_iff_uint [of "32 - b" w p] by (auto simp: span_v4 span_set_def clear_low_def)
qed

lemma contains_v6:
  assumes "b \<le> 128"
  shows "pfx_Contains (Prefix (Addr6 p z) (int b)) (Addr6 w []) \<longleftrightarrow>
    uint w \<in> span_set (spansOfPrefix (Prefix (Addr6 p z) (int b)))"
proof -
  have "pfx_Contains (Prefix (Addr6 p z) (int b)) (Addr6 w []) \<longleftrightarrow>
      w AND NOT (mask (128 - b)) = p AND NOT (mask (128 - b))"
    by (simp only: pfx_Contains.simps nat_int clear_low_def xor_clear_iff) simp
  then show ?thesis
    using assms block_iff_uint [of "128 - b" w p] by (auto simp: span_v6 span_set_def clear_low_def)
qed

lemma pfx_Contains_span:
  assumes "wf_prefix p" and "pfx_IsValid p" and "a \<noteq> AddrZero" and "Zone a = []"
  shows "pfx_Contains p a \<longleftrightarrow>
    (Is6 a \<longleftrightarrow> Is6 (pfx_addr p)) \<and> ToBig a \<in> span_set (spansOfPrefix p)"
  using assms(1,2)
proof (cases rule: valid_cases)
  case (v4 w b)
  with assms(3,4) show ?thesis by (cases a) (simp_all add: contains_v4 del: pfx_Contains.simps(1))
next
  case (v6 w b)
  with assms(3,4) show ?thesis by (cases a) (simp_all add: contains_v6 del: pfx_Contains.simps(2))
qed

section \<open>Splitting an interval into prefixes\<close>

text \<open>Spans that follow each other without a gap and fill \<open>lo..hi\<close>.\<close>

fun chain :: "int \<Rightarrow> int \<Rightarrow> span list \<Rightarrow> bool" where
  "chain lo hi [] \<longleftrightarrow> lo = hi + 1"
| "chain lo hi (x # xs) \<longleftrightarrow> sp_lo x = lo \<and> lo \<le> sp_hi x \<and> sp_hi x \<le> hi \<and> chain (sp_hi x + 1) hi xs"

lemma chain_set: "chain lo hi xs \<Longrightarrow> lo \<le> hi + 1 \<Longrightarrow> spans_set xs = {lo..hi}"
proof (induction xs arbitrary: lo)
  case (Cons x xs)
  then have "spans_set xs = {sp_hi x + 1..hi}" by simp
  with Cons.prems show ?case by (auto simp: span_set_def)
qed simp

lemma size_loop_aligned:
  "\<lbrakk>sz \<le> bits; 2 ^ (bits - sz) dvd cur; cur + 2 ^ (bits - sz) - 1 \<le> hi;
    k = bits - size_loop bits cur hi sz\<rbrakk>
   \<Longrightarrow> 2 ^ k dvd cur \<and> cur + 2 ^ k - 1 \<le> hi \<and> k \<le> bits \<and> bits - k = size_loop bits cur hi sz"
proof (induction sz)
  case (Suc m)
  have e: "bits - Suc m + 1 = bits - m" using Suc.prems(1) by simp
  let ?msk = "push_bit (bits - m) 1 - 1 :: int"
  show ?case
  proof (cases "cur AND ?msk \<noteq> 0 \<or> hi < cur + ?msk")
    case True
    then have "size_loop bits cur hi (Suc m) = Suc m"
      unfolding size_loop.simps Let_def e by auto
    with Suc.prems show ?thesis by simp
  next
    case False
    then have s: "size_loop bits cur hi (Suc m) = size_loop bits cur hi m"
      unfolding size_loop.simps Let_def e by auto
    from False have "2 ^ (bits - m) dvd cur" "cur + 2 ^ (bits - m) - 1 \<le> hi"
      by (simp_all add: and_mask_0_iff_dvd push_bit_eq_mult)
    with Suc.IH Suc.prems s show ?thesis by simp
  qed
qed simp

lemma clear_low_aligned:
  assumes "n \<le> LENGTH('a::len)" and "2 ^ n dvd cur" and "0 \<le> cur" and "cur < 2 ^ LENGTH('a)"
  shows "clear_low n (word_of_int cur :: 'a word) = word_of_int cur"
    and "uint (word_of_int cur :: 'a word) = cur"
proof -
  show u: "uint (word_of_int cur :: 'a word) = cur"
    using assms(3,4) by (simp add: uint_word_of_int)
  then have "unat (word_of_int cur :: 'a word) = nat cur"
    using assms(3) by (metis int_nat_eq nat_int unat_eq_nat_uint)
  moreover have "nat cur mod 2 ^ n = 0"
    using assms(2,3) by (metis dvd_eq_mod_eq_0 dvd_nat_abs_iff nat_0_iff nat_mod_distrib
        nat_numeral nat_power_eq order_refl zero_le_numeral zero_le_power)
  ultimately have "unat (clear_low n (word_of_int cur :: 'a word)) = unat (word_of_int cur :: 'a word)"
    by (simp add: clear_low_def unat_and_not_mask)
  then show "clear_low n (word_of_int cur :: 'a word) = word_of_int cur"
    by (simp add: word_unat_eq_iff)
qed

lemma aligned_prefix:
  assumes "k \<le> family_bits is6" and "2 ^ k dvd cur" and "0 \<le> cur" and "cur < 2 ^ family_bits is6"
    and p: "p = PrefixFrom (FromBig cur is6) (int (family_bits is6 - k))"
  shows "spansOfPrefix p = Span cur (cur + 2 ^ k - 1)"
    and "pfx_IsValid p \<and> Masked p = p \<and> Is6 (pfx_addr p) = is6"
proof -
  have bits: "k \<le> 128" "cur < 2 ^ 128" if is6
    using assms that by (auto simp: family_bits_def)
  have bits': "k \<le> 32" "cur < 2 ^ 32" if "\<not> is6"
    using assms that by (auto simp: family_bits_def)
  show "spansOfPrefix p = Span cur (cur + 2 ^ k - 1)"
    using assms(2,3) bits bits' clear_low_aligned [of k cur, where ?'a = 128]
      clear_low_aligned [of k cur, where ?'a = 32]
    by (cases is6) (simp_all add: p PrefixFrom_def FromBig_def family_bits_def span_v4 span_v6 del: of_nat_diff)
  show "pfx_IsValid p \<and> Masked p = p \<and> Is6 (pfx_addr p) = is6"
    using assms(2,3) bits bits' clear_low_aligned [of k cur, where ?'a = 128]
      clear_low_aligned [of k cur, where ?'a = 32]
    by (cases is6) (simp_all add: p PrefixFrom_def FromBig_def family_bits_def pfx_IsValid_def del: of_nat_diff)
qed

lemma range_prefixes_chain:
  "\<lbrakk>0 \<le> cur; cur \<le> hi; hi < 2 ^ family_bits is6\<rbrakk> \<Longrightarrow>
   chain cur hi (map spansOfPrefix (range_prefixes_loop is6 cur hi)) \<and>
   (\<forall>p \<in> set (range_prefixes_loop is6 cur hi).
      wf_prefix p \<and> pfx_IsValid p \<and> Masked p = p \<and> Is6 (pfx_addr p) = is6)"
proof (induction "nat (hi - cur)" arbitrary: cur rule: less_induct)
  case less
  define bits where bits: "bits = family_bits is6"
  define sz where "sz = size_loop bits cur hi bits"
  define k where "k = bits - sz"
  have al: "2 ^ k dvd cur \<and> cur + 2 ^ k - 1 \<le> hi \<and> k \<le> bits \<and> bits - k = sz"
    unfolding k_def sz_def by (rule size_loop_aligned) (use less.prems in auto)
  define p where "p = PrefixFrom (FromBig cur is6) (int sz)"
  have p: "spansOfPrefix p = Span cur (cur + 2 ^ k - 1)"
    "pfx_IsValid p \<and> Masked p = p \<and> Is6 (pfx_addr p) = is6" "wf_prefix p"
    using aligned_prefix [of k is6 cur p] al less.prems unfolding p_def bits by auto
  have step: "range_prefixes_loop is6 cur hi =
      p # (if 2 ^ bits \<le> cur + 2 ^ k then [] else range_prefixes_loop is6 (cur + 2 ^ k) hi)"
    using less.prems(2) by (subst range_prefixes_loop.simps)
      (simp add: Let_def push_bit_eq_mult bits p_def sz_def k_def)
  have pos: "0 < (2::int) ^ k" by simp
  show ?case
  proof (cases "cur + 2 ^ k \<le> hi")
    case True
    then have lt: "cur < hi" using pos by linarith
    have "\<not> 2 ^ bits \<le> cur + 2 ^ k" using True less.prems(3) unfolding bits by linarith
    then have eq: "range_prefixes_loop is6 cur hi = p # range_prefixes_loop is6 (cur + 2 ^ k) hi"
      using step by simp
    have "chain (cur + 2 ^ k) hi (map spansOfPrefix (range_prefixes_loop is6 (cur + 2 ^ k) hi)) \<and>
      (\<forall>p \<in> set (range_prefixes_loop is6 (cur + 2 ^ k) hi).
        wf_prefix p \<and> pfx_IsValid p \<and> Masked p = p \<and> Is6 (pfx_addr p) = is6)"
      by (rule less.hyps) (use True lt less.prems in auto)
    then show ?thesis using p al pos True unfolding eq by auto
  next
    case False
    have "range_prefixes_loop is6 (cur + 2 ^ k) hi = []"
      using False by (subst range_prefixes_loop.simps) simp
    then have eq: "range_prefixes_loop is6 cur hi = [p]" using step by simp
    show ?thesis using p al False pos unfolding eq by auto
  qed
qed

lemma rangePrefixes_correct:
  assumes "proper s" and "0 \<le> sp_lo s" and "sp_hi s < 2 ^ family_bits is6"
  shows "spans_set (map spansOfPrefix (rangePrefixes (sp_lo s) (sp_hi s) is6)) = span_set s"
    and "p \<in> set (rangePrefixes (sp_lo s) (sp_hi s) is6) \<Longrightarrow>
      wf_prefix p \<and> pfx_IsValid p \<and> Masked p = p \<and> Is6 (pfx_addr p) = is6"
  using range_prefixes_chain [of "sp_lo s" "sp_hi s" is6] assms
    chain_set [of "sp_lo s" "sp_hi s" "map spansOfPrefix (rangePrefixes (sp_lo s) (sp_hi s) is6)"]
  by (auto simp: rangePrefixes_def proper_def span_set_def)

section \<open>Prefix lists as address sets\<close>

text \<open>
  The addresses (without a zone) that a prefix list covers, and the integers of one family.
\<close>

definition pfxs_addrs :: "prefix list \<Rightarrow> addr set" where
  "pfxs_addrs ps = {a. Zone a = [] \<and> (\<exists>p \<in> set ps. pfx_IsValid p \<and> pfx_Contains p a)}"

definition family_spans :: "bool \<Rightarrow> prefix list \<Rightarrow> span list" where
  "family_spans is6 ps = map spansOfPrefix (filter (\<lambda>p. Is6 (pfx_addr p) = is6) (filter pfx_IsValid ps))"

lemma splitFamilies_eq: "splitFamilies ps = (family_spans False ps, family_spans True ps)"
  by (simp add: splitFamilies_def family_spans_def Let_def)

lemma family_spans_append: "family_spans is6 (ps @ qs) = family_spans is6 ps @ family_spans is6 qs"
  by (simp add: family_spans_def)

lemma family_spans_proper: "list_all wf_prefix ps \<Longrightarrow> list_all proper (family_spans is6 ps)"
  by (auto simp: family_spans_def list_all_iff intro: span_proper)

lemma family_spans_bounds:
  "\<lbrakk>list_all wf_prefix ps; v \<in> spans_set (family_spans is6 ps)\<rbrakk> \<Longrightarrow> 0 \<le> v \<and> v < 2 ^ family_bits is6"
  using span_bounds by (fastforce simp: family_spans_def spans_set_def span_set_def list_all_iff)

lemma pfxs_addrs_iff:
  assumes "list_all wf_prefix ps"
  shows "a \<in> pfxs_addrs ps \<longleftrightarrow>
    a \<noteq> AddrZero \<and> Zone a = [] \<and> ToBig a \<in> spans_set (family_spans (Is6 a) ps)"
proof -
  have z: "\<not> pfx_Contains p AddrZero" for p by (cases "(p, AddrZero)" rule: pfx_Contains.cases) auto
  have "pfx_Contains p a \<longleftrightarrow> (Is6 (pfx_addr p) \<longleftrightarrow> Is6 a) \<and> ToBig a \<in> span_set (spansOfPrefix p)"
    if "p \<in> set ps" "pfx_IsValid p" "a \<noteq> AddrZero" "Zone a = []" for p
    using pfx_Contains_span [of p a] assms that by (auto simp: list_all_iff)
  then show ?thesis
    using z by (cases "a = AddrZero") (auto simp: pfxs_addrs_def family_spans_def spans_set_def)
qed

lemma ToBig_bounds: "0 \<le> ToBig a \<and> (a \<noteq> AddrZero \<longrightarrow> ToBig a < 2 ^ family_bits (Is6 a))"
  using uint_lt2p [where ?'a = 32] uint_lt2p [where ?'a = 128] by (cases a) (auto simp: family_bits_def)

lemma ToBig_inject:
  "\<lbrakk>a \<noteq> AddrZero; b \<noteq> AddrZero; Is6 a = Is6 b; Zone a = []; Zone b = []; ToBig a = ToBig b\<rbrakk> \<Longrightarrow> a = b"
  by (cases a; cases b) (auto simp: word_uint_eq_iff)

text \<open>Turning the normal spans of a family back into prefixes keeps the address set.\<close>

definition bounded :: "bool \<Rightarrow> span list \<Rightarrow> bool" where
  "bounded is6 xs \<longleftrightarrow> (\<forall>s \<in> set xs. proper s \<and> 0 \<le> sp_lo s \<and> sp_hi s < 2 ^ family_bits is6)"

abbreviation prefixes_of :: "bool \<Rightarrow> span list \<Rightarrow> prefix list" where
  "prefixes_of is6 xs \<equiv> concat (map (\<lambda>s. rangePrefixes (sp_lo s) (sp_hi s) is6) xs)"

lemma bounded_by_set:
  assumes "list_all proper xs" and "\<And>v. v \<in> spans_set xs \<Longrightarrow> 0 \<le> v \<and> v < 2 ^ family_bits is6"
  shows "bounded is6 xs"
proof -
  have "proper s \<and> 0 \<le> sp_lo s \<and> sp_hi s < 2 ^ family_bits is6" if s: "s \<in> set xs" for s
  proof -
    from assms(1) s have "proper s" by (simp add: list_all_iff)
    then have "sp_lo s \<in> spans_set xs" "sp_hi s \<in> spans_set xs"
      using s by (auto simp: mem_spans_set proper_def)
    with assms(2) \<open>proper s\<close> show ?thesis by blast
  qed
  then show ?thesis by (simp add: bounded_def)
qed

lemma prefixes_of_props:
  "\<lbrakk>bounded is6 xs; p \<in> set (prefixes_of is6 xs)\<rbrakk> \<Longrightarrow>
   wf_prefix p \<and> pfx_IsValid p \<and> Masked p = p \<and> Is6 (pfx_addr p) = is6"
  using rangePrefixes_correct(2) by (fastforce simp: bounded_def)

lemma family_spans_prefixes_of:
  assumes "bounded is6 xs"
  shows "spans_set (family_spans is6 (prefixes_of is6 xs)) = spans_set xs"
    and "family_spans (\<not> is6) (prefixes_of is6 xs) = []"
proof -
  have "filter (\<lambda>p. Is6 (pfx_addr p) = is6) (filter pfx_IsValid (prefixes_of is6 xs)) = prefixes_of is6 xs"
    using prefixes_of_props [OF assms] by (simp add: filter_id_conv)
  then have "family_spans is6 (prefixes_of is6 xs) = map spansOfPrefix (prefixes_of is6 xs)"
    by (simp only: family_spans_def)
  also have "spans_set \<dots> = spans_set xs"
    using assms rangePrefixes_correct(1) by (induction xs) (auto simp: bounded_def)
  finally show "spans_set (family_spans is6 (prefixes_of is6 xs)) = spans_set xs" .
  show "family_spans (\<not> is6) (prefixes_of is6 xs) = []"
    using prefixes_of_props [OF assms] by (auto simp: family_spans_def filter_empty_conv)
qed

lemma prefixes_of_wf: "bounded is6 xs \<Longrightarrow> list_all wf_prefix (prefixes_of is6 xs)"
  using prefixes_of_props by (fastforce simp: list_all_iff)

lemma spansToPrefixes_spans:
  assumes "bounded False v4" and "bounded True v6"
  shows "list_all wf_prefix (spansToPrefixes v4 v6)"
    and "spans_set (family_spans is6 (spansToPrefixes v4 v6)) = spans_set (if is6 then v6 else v4)"
  using assms prefixes_of_wf [of False v4] prefixes_of_wf [of True v6]
    family_spans_prefixes_of [of False v4] family_spans_prefixes_of [of True v6]
  by (cases is6; simp add: spansToPrefixes_def family_spans_append)+

section \<open>The package's operations on address sets\<close>

lemma bounded_merge: "list_all wf_prefix ps \<Longrightarrow> bounded is6 (mergeSpans (family_spans is6 ps))"
  by (rule bounded_by_set)
    (auto intro: normal_list_all_proper mergeSpans_normal family_spans_proper
      dest: family_spans_bounds)

lemma bounded_subtract:
  "\<lbrakk>list_all wf_prefix ps; list_all wf_prefix qs\<rbrakk> \<Longrightarrow>
   bounded is6 (subtractSpans (family_spans is6 ps) (family_spans is6 qs))"
  by (rule bounded_by_set)
    (simp add: normal_list_all_proper subtractSpans_normal family_spans_proper,
     auto simp: subtractSpans_set family_spans_proper dest: family_spans_bounds)

lemma intersect_proper: "\<lbrakk>normal xs; normal ys\<rbrakk> \<Longrightarrow> list_all proper (intersect_loop xs ys)"
  using intersect_loop_within by (auto simp: list_all_iff)

lemma bounded_intersect:
  "\<lbrakk>list_all wf_prefix ps; list_all wf_prefix qs\<rbrakk> \<Longrightarrow>
   bounded is6 (intersectSpans (family_spans is6 ps) (family_spans is6 qs))"
  by (rule bounded_by_set)
    (simp add: intersectSpans_def intersect_proper mergeSpans_normal family_spans_proper,
     auto simp: intersectSpans_set family_spans_proper dest: family_spans_bounds)

lemma cidr_Subtract_addrs:
  assumes "list_all wf_prefix base" and "list_all wf_prefix remove"
  shows "pfxs_addrs (cidr_Subtract base remove) = pfxs_addrs base - pfxs_addrs remove"
    and "list_all wf_prefix (cidr_Subtract base remove)"
proof -
  note b = bounded_subtract [OF assms, of False] bounded_subtract [OF assms, of True]
  have eq: "cidr_Subtract base remove =
      spansToPrefixes (subtractSpans (family_spans False base) (family_spans False remove))
        (subtractSpans (family_spans True base) (family_spans True remove))"
    by (simp add: cidr_Subtract_def splitFamilies_eq)
  show wf: "list_all wf_prefix (cidr_Subtract base remove)"
    unfolding eq by (rule spansToPrefixes_spans(1) [OF b])
  show "pfxs_addrs (cidr_Subtract base remove) = pfxs_addrs base - pfxs_addrs remove"
    by (auto simp: pfxs_addrs_iff wf assms)
      (auto simp: eq spansToPrefixes_spans(2) [OF b] subtractSpans_set family_spans_proper assms
        split: if_splits)
qed

lemma cidr_Intersect_addrs:
  assumes "list_all wf_prefix base" and "list_all wf_prefix msk"
  shows "pfxs_addrs (cidr_Intersect base msk) = pfxs_addrs base \<inter> pfxs_addrs msk"
proof -
  note b = bounded_intersect [OF assms, of False] bounded_intersect [OF assms, of True]
  have eq: "cidr_Intersect base msk =
      spansToPrefixes (intersectSpans (family_spans False base) (family_spans False msk))
        (intersectSpans (family_spans True base) (family_spans True msk))"
    by (simp add: cidr_Intersect_def splitFamilies_eq)
  have wf: "list_all wf_prefix (cidr_Intersect base msk)"
    unfolding eq by (rule spansToPrefixes_spans(1) [OF b])
  show ?thesis
    by (auto simp: pfxs_addrs_iff wf assms)
      (auto simp: eq spansToPrefixes_spans(2) [OF b] intersectSpans_set family_spans_proper assms
        split: if_splits)
qed

lemma CollapsePrefixes_eq:
  "CollapsePrefixes ps =
     spansToPrefixes (mergeSpans (family_spans False ps)) (mergeSpans (family_spans True ps))"
  by (simp add: CollapsePrefixes_def splitFamilies_eq collapseFamily_def spansToPrefixes_def)

lemma CollapsePrefixes_addrs:
  assumes "list_all wf_prefix ps"
  shows "pfxs_addrs (CollapsePrefixes ps) = pfxs_addrs ps"
    and "list_all wf_prefix (CollapsePrefixes ps)"
proof -
  note b = bounded_merge [OF assms, of False] bounded_merge [OF assms, of True]
  show wf: "list_all wf_prefix (CollapsePrefixes ps)"
    unfolding CollapsePrefixes_eq by (rule spansToPrefixes_spans(1) [OF b])
  show "pfxs_addrs (CollapsePrefixes ps) = pfxs_addrs ps"
    by (auto simp: pfxs_addrs_iff wf assms)
      (auto simp: CollapsePrefixes_eq spansToPrefixes_spans(2) [OF b] split: if_splits)
qed

lemma FromBig_props:
  assumes "0 \<le> v" and "v < 2 ^ family_bits is6"
  shows "ToBig (FromBig v is6) = v" and "FromBig v is6 \<noteq> AddrZero"
    and "Is6 (FromBig v is6) = is6" and "Zone (FromBig v is6) = []"
  using assms by (auto simp: FromBig_def family_bits_def uint_word_of_int)

lemma family_set_eq_image:
  assumes "list_all wf_prefix ps"
  shows "spans_set (family_spans is6 ps) = ToBig ` {a \<in> pfxs_addrs ps. Is6 a = is6}"
proof (intro equalityI subsetI)
  fix v assume v: "v \<in> spans_set (family_spans is6 ps)"
  note b = family_spans_bounds [OF assms v]
  then have "FromBig v is6 \<in> {a \<in> pfxs_addrs ps. Is6 a = is6}"
    using v by (simp add: pfxs_addrs_iff [OF assms] FromBig_props)
  then show "v \<in> ToBig ` {a \<in> pfxs_addrs ps. Is6 a = is6}"
    using b FromBig_props(1) by (metis imageI)
qed (auto simp: pfxs_addrs_iff [OF assms])

lemma CollapsePrefixes_canonical:
  assumes "list_all wf_prefix ps" and "list_all wf_prefix qs" and "pfxs_addrs ps = pfxs_addrs qs"
  shows "CollapsePrefixes ps = CollapsePrefixes qs"
proof -
  have "mergeSpans (family_spans is6 ps) = mergeSpans (family_spans is6 qs)" for is6
    by (rule mergeSpans_canonical)
      (simp_all add: family_spans_proper assms family_set_eq_image)
  then show ?thesis by (simp add: CollapsePrefixes_eq)
qed

section \<open>Parsed prefixes are well formed\<close>

lemma cidr_ParsePrefix_wf: "cidr_ParsePrefix s = Some p \<Longrightarrow> wf_prefix p \<and> pfx_IsValid p"
proof -
  assume s: "cidr_ParsePrefix s = Some p"
  show ?thesis
  proof (cases "CHR ''/'' \<in> set s")
    case True
    with s obtain q where q: "ParsePrefix s = Some q" "p = Masked q"
      by (auto simp: cidr_ParsePrefix_def)
    then obtain ip b where "q = PrefixFrom ip b" "ip \<noteq> AddrZero" "0 \<le> b" "b \<le> int (BitLen ip)"
      by (auto simp: ParsePrefix_def ParseAddr_def parse_v6_def Let_def split: if_splits option.splits list.splits)
    then show ?thesis unfolding q(2)
      by (cases ip) (auto simp: PrefixFrom_def pfx_IsValid_def)
  next
    case False
    with s show ?thesis
      by (auto simp: cidr_ParsePrefix_def PrefixFrom_def pfx_IsValid_def ParseAddr_def parse_v6_def
          split: if_splits option.splits list.splits)
  qed
qed

lemma ReadPrefixes_wf: "ReadPrefixes ls = Some ps \<Longrightarrow> list_all wf_prefix ps \<and> list_all pfx_IsValid ps"
  by (induction ls arbitrary: ps)
    (auto simp: Let_def dest: cidr_ParsePrefix_wf split: if_splits option.splits)

section \<open>Membership\<close>

lemma NewSet_spans:
  "cs_v4 (NewSet ps) = mergeSpans (family_spans False ps)"
  "cs_v6 (NewSet ps) = mergeSpans (family_spans True ps)"
  by (simp_all add: NewSet_def splitFamilies_eq)

lemma Unmap_not_zero: "a \<noteq> AddrZero \<Longrightarrow> Unmap a \<noteq> AddrZero"
  by (cases a) auto

lemma withoutZone_props [simp]:
  "Is6 (withoutZone a) = Is6 a" "ToBig (withoutZone a) = ToBig a" "Zone (withoutZone a) = []"
  "withoutZone a = AddrZero \<longleftrightarrow> a = AddrZero"
  by (cases a; simp)+

lemma cidr_Contains_NewSet:
  assumes "list_all wf_prefix ps"
  shows "cidr_Contains (Some (NewSet ps)) a \<longleftrightarrow>
    IsValid a \<and> withoutZone (Unmap a) \<in> pfxs_addrs ps"
proof (cases "IsValid a")
  case True
  let ?b = "Unmap a"
  let ?xs = "mergeSpans (family_spans (Is6 ?b) ps)"
  have n: "normal ?xs" using assms by (simp add: mergeSpans_normal family_spans_proper)
  have "cidr_Contains (Some (NewSet ps)) a \<longleftrightarrow> ToBig ?b \<in> spans_set ?xs"
    using True search_hi_member [OF n refl, of "ToBig ?b"]
    by (cases "Is6 ?b") (auto simp: cidr_Contains_def Let_def NewSet_spans)
  then show ?thesis using True Unmap_not_zero [of a] by (simp add: pfxs_addrs_iff [OF assms])
qed (simp add: cidr_Contains_def)

lemma cidr_Prefixes_addrs:
  assumes "list_all wf_prefix ps"
  shows "pfxs_addrs (cidr_Prefixes (Some (NewSet ps))) = pfxs_addrs ps"
proof -
  have "cidr_Prefixes (Some (NewSet ps)) = CollapsePrefixes ps"
    by (simp add: cidr_Prefixes_def NewSet_spans CollapsePrefixes_eq spansToPrefixes_def)
  then show ?thesis using CollapsePrefixes_addrs(1) [OF assms] by simp
qed

section \<open>Properties\<close>

text \<open>C1: Subtracting prefix lists of both families subtracts the address sets, and the result is
  again a list of well-formed prefixes.\<close>

theorem Subtract_is_set_difference:
  assumes "list_all wf_prefix base" and "list_all wf_prefix remove"
  shows "pfxs_addrs (cidr_Subtract base remove) = pfxs_addrs base - pfxs_addrs remove \<and>
    list_all wf_prefix (cidr_Subtract base remove)"
  using cidr_Subtract_addrs [OF assms] by blast

theorem Subtract_is_set_difference_witness:
  "pfxs_addrs (cidr_Subtract [Prefix (Addr4 0x0a000000) 8] [Prefix (Addr4 0x0a010000) 16]) =
     pfxs_addrs [Prefix (Addr4 0x0a000000) 8] - pfxs_addrs [Prefix (Addr4 0x0a010000) 16]"
  using Subtract_is_set_difference [of "[Prefix (Addr4 0x0a000000) 8]" "[Prefix (Addr4 0x0a010000) 16]"]
  by simp

text \<open>Intersecting prefix lists intersects the address sets.\<close>

theorem Intersect_is_set_intersection:
  assumes "list_all wf_prefix base" and "list_all wf_prefix msk"
  shows "pfxs_addrs (cidr_Intersect base msk) = pfxs_addrs base \<inter> pfxs_addrs msk"
  using assms by (rule cidr_Intersect_addrs)

theorem Intersect_is_set_intersection_witness:
  "pfxs_addrs (cidr_Intersect [Prefix (Addr4 0x0a000000) 8] [Prefix (Addr4 0x0a010000) 16]) =
     pfxs_addrs [Prefix (Addr4 0x0a000000) 8] \<inter> pfxs_addrs [Prefix (Addr4 0x0a010000) 16]"
  using Intersect_is_set_intersection [of "[Prefix (Addr4 0x0a000000) 8]" "[Prefix (Addr4 0x0a010000) 16]"]
  by simp

text \<open>Collapsing a prefix list keeps its address set and is canonical: two lists collapse to
  the same list exactly when they cover the same addresses.\<close>

theorem CollapsePrefixes_normal_form:
  assumes "list_all wf_prefix ps" and "list_all wf_prefix qs"
  shows "pfxs_addrs (CollapsePrefixes ps) = pfxs_addrs ps \<and>
    (CollapsePrefixes ps = CollapsePrefixes qs \<longleftrightarrow> pfxs_addrs ps = pfxs_addrs qs)"
  using CollapsePrefixes_addrs(1) [OF assms(1)] CollapsePrefixes_addrs(1) [OF assms(2)]
    CollapsePrefixes_canonical [OF assms] by auto

theorem CollapsePrefixes_normal_form_witness:
  "pfxs_addrs (CollapsePrefixes [Prefix (Addr4 1) 32, Prefix (Addr4 0) 32]) =
     pfxs_addrs [Prefix (Addr4 1) 32, Prefix (Addr4 0) 32]"
  using CollapsePrefixes_normal_form
    [of "[Prefix (Addr4 1) 32, Prefix (Addr4 0) 32]" "[Prefix (Addr4 0) 31]"] by simp

text \<open>The membership set built from a prefix list contains an address exactly when one of the
  prefixes does (the address unmapped and without its zone); the binary search misses none.\<close>

theorem Contains_after_NewSet:
  assumes "list_all wf_prefix ps"
  shows "cidr_Contains (Some (NewSet ps)) a \<longleftrightarrow> IsValid a \<and> withoutZone (Unmap a) \<in> pfxs_addrs ps"
  using assms by (rule cidr_Contains_NewSet)

theorem Contains_after_NewSet_witness:
  "cidr_Contains (Some (NewSet [Prefix (Addr4 0x0a000000) 8])) (Addr4 0x0a000001) \<longleftrightarrow>
     Addr4 0x0a000001 \<in> pfxs_addrs [Prefix (Addr4 0x0a000000) 8]"
  using Contains_after_NewSet [of "[Prefix (Addr4 0x0a000000) 8]" "Addr4 0x0a000001"] by simp

text \<open>The prefixes an interval is split into follow each other without gap or overlap and
  fill the interval exactly; each is valid, masked and of the family asked for.\<close>

theorem rangePrefixes_tile:
  assumes "0 \<le> lo" and "lo \<le> hi" and "hi < 2 ^ family_bits is6"
  shows "chain lo hi (map spansOfPrefix (rangePrefixes lo hi is6)) \<and>
    list_all (\<lambda>p. pfx_IsValid p \<and> Masked p = p \<and> Is6 (pfx_addr p) = is6) (rangePrefixes lo hi is6)"
  using range_prefixes_chain [OF assms] by (auto simp: rangePrefixes_def list_all_iff)

theorem rangePrefixes_tile_witness:
  "chain 5 10 (map spansOfPrefix (rangePrefixes 5 10 False))"
  using rangePrefixes_tile [of 5 10 False] by (simp add: family_bits_def)

end
