(* ===== verification/Access.thy ===== *)
theory Access
  imports Domain CIDR_Util
begin

text \<open>
  Packages \<open>statefile\<close> and \<open>access\<close>: the lists an operator edits (blocked names, access control,
  the two route lists, local records). They live as text files in the state directory. The
  directory is a map from file names to files; every operation returns its result and the new
  directory. What the operating system answers (which reads and which steps of a write fail, the
  name of the temporary file, the clock, the lock) is the argument \<open>env\<close>.
\<close>

section \<open>Package statefile\<close>

record state_file =
  f_data :: string
  f_mode :: nat

type_synonym dir = "string \<rightharpoonup> state_file"

datatype io_error = NotExist | IOFailure

text \<open>The outcome of the system calls of one atomic write; \<open>io_temp\<close> is the temporary file, if it can be created.\<close>

record io =
  io_mkdir :: bool
  io_temp :: "string option"
  io_write :: bool
  io_chmod :: bool
  io_owner :: bool
  io_close :: bool
  io_rename :: bool
  io_remove :: bool

record env =
  en_read_fails :: "string \<Rightarrow> bool"
  en_io :: "string \<Rightarrow> io"
  en_now :: string
  en_rfc3339 :: string
  en_remove_fails :: bool
  en_lock :: bool
  en_PSL_FILE :: string
  en_psl_files :: "string \<Rightarrow> string option"

definition ReadFile :: "env \<Rightarrow> string \<Rightarrow> dir \<Rightarrow> io_error + string" where
  "ReadFile env path d =
     (case d path of
        None \<Rightarrow> Inl NotExist
      | Some f \<Rightarrow> if en_read_fails env path then Inl IOFailure else Inr (f_data f))"

definition data_line :: "string \<Rightarrow> bool" where
  "data_line line \<longleftrightarrow> \<not> (line = [] \<or> HasPrefix line ''#'')"

definition lines_of :: "string \<Rightarrow> string list" where
  "lines_of data = filter data_line (map TrimSpace (Split (CHR 0x0A) data))"

definition Lines :: "env \<Rightarrow> string \<Rightarrow> dir \<Rightarrow> io_error + string list" where
  "Lines env path d = bind_res (ReadFile env path d) (\<lambda>data. Inr (lines_of data))"

definition remove_temp :: "io \<Rightarrow> string \<Rightarrow> dir \<Rightarrow> dir" where
  "remove_temp i temp d = (if io_remove i then d(temp := None) else d)"

definition WriteAtomic :: "env \<Rightarrow> string \<Rightarrow> string \<Rightarrow> nat \<Rightarrow> dir \<Rightarrow> (io_error + unit) \<times> dir" where
  "WriteAtomic env path data mode d =
     (let i = en_io env path in
      if \<not> io_mkdir i then (Inl IOFailure, d)
      else case io_temp i of
        None \<Rightarrow> (Inl IOFailure, d)
      | Some temp \<Rightarrow>
          let d1 = d(temp \<mapsto> \<lparr>f_data = data, f_mode = mode\<rparr>) in
          if \<not> (io_write i \<and> io_chmod i \<and> io_owner i \<and> io_close i) then (Inl IOFailure, remove_temp i temp d1)
          else if \<not> io_rename i then (Inl IOFailure, remove_temp i temp d1)
          else (Inr (), d1(temp := None, path \<mapsto> \<lparr>f_data = data, f_mode = mode\<rparr>)))"

section \<open>Package access: files\<close>

definition BlocklistFile :: string where "BlocklistFile = ''blocklist.txt''"
definition ACLFile :: string where "ACLFile = ''acl.txt''"
definition ACLDisabledFile :: string where "ACLDisabledFile = ''acl.disabled''"
definition RouteCNFile :: string where "RouteCNFile = ''manual-cn-zones.txt''"
definition RouteHKFile :: string where "RouteHKFile = ''manual-gfw.txt''"

definition blocklistHeader :: string where
  "blocklistHeader =
     ''# dns-stack ''
     @ [CHR 0xE5, CHR 0x9F, CHR 0x9F, CHR 0xE5, CHR 0x90, CHR 0x8D, CHR 0xE9, CHR 0xBB, CHR 0x91, CHR 0xE5, CHR 0x90, CHR 0x8D, CHR 0xE5, CHR 0x8D, CHR 0x95, CHR 0xEF, CHR 0xBC, CHR 0x9A, CHR 0xE5, CHR 0x91, CHR 0xBD, CHR 0xE4, CHR 0xB8, CHR 0xAD, CHR 0xE7, CHR 0x9A, CHR 0x84, CHR 0xE6, CHR 0x9F, CHR 0xA5, CHR 0xE8, CHR 0xAF, CHR 0xA2, CHR 0xE7, CHR 0x94, CHR 0xB1]
     @ '' mosproxy ''
     @ [CHR 0xE7, CHR 0x9B, CHR 0xB4, CHR 0xE6, CHR 0x8E, CHR 0xA5, CHR 0xE5, CHR 0x9B, CHR 0x9E]
     @ '' NXDOMAIN''
     @ [CHR 0xEF, CHR 0xBC, CHR 0x8C, CHR 0xE4, CHR 0xB8, CHR 0x8D, CHR 0xE5, CHR 0x87, CHR 0xBA, CHR 0xE6, CHR 0x9C, CHR 0xAC, CHR 0xE6, CHR 0x9C, CHR 0xBA, CHR 0x0A]
     @ ''# ''
     @ [CHR 0xE6, CHR 0xAF, CHR 0x8F, CHR 0xE8, CHR 0xA1, CHR 0x8C, CHR 0xE4, CHR 0xB8, CHR 0x80, CHR 0xE4, CHR 0xB8, CHR 0xAA, CHR 0xE5, CHR 0x9F, CHR 0x9F, CHR 0xE5, CHR 0x90, CHR 0x8D, CHR 0xEF, CHR 0xBC, CHR 0x8C, CHR 0xE5, CHR 0x8C, CHR 0xB9, CHR 0xE9, CHR 0x85, CHR 0x8D, CHR 0xE5, CHR 0x8C, CHR 0x85, CHR 0xE5, CHR 0x90, CHR 0xAB, CHR 0xE5, CHR 0x85, CHR 0xB6, CHR 0xE5, CHR 0x85, CHR 0xA8, CHR 0xE9, CHR 0x83, CHR 0xA8, CHR 0xE5, CHR 0xAD, CHR 0x90, CHR 0xE5, CHR 0x9F, CHR 0x9F, CHR 0xE3, CHR 0x80, CHR 0x82]
     @ ''# ''
     @ [CHR 0xE5, CHR 0xBC, CHR 0x80, CHR 0xE5, CHR 0xA4, CHR 0xB4, CHR 0xE4, CHR 0xB8, CHR 0xBA, CHR 0xE6, CHR 0xB3, CHR 0xA8, CHR 0xE9, CHR 0x87, CHR 0x8A, CHR 0xE3, CHR 0x80, CHR 0x82, CHR 0x0A]"

definition aclHeader :: string where
  "aclHeader =
     ''# dns-stack ''
     @ [CHR 0xE8, CHR 0xAE, CHR 0xBF, CHR 0xE9, CHR 0x97, CHR 0xAE, CHR 0xE6, CHR 0x8E, CHR 0xA7, CHR 0xE5, CHR 0x88, CHR 0xB6, CHR 0xEF, CHR 0xBC, CHR 0x9A, CHR 0xE5, CHR 0x8F, CHR 0xAA, CHR 0xE6, CHR 0x9C, CHR 0x89, CHR 0xE8, CHR 0xBF, CHR 0x99, CHR 0xE9, CHR 0x87, CHR 0x8C, CHR 0xE5, CHR 0x88, CHR 0x97, CHR 0xE5, CHR 0x87, CHR 0xBA, CHR 0xE7, CHR 0x9A, CHR 0x84, CHR 0xE7, CHR 0xBD, CHR 0x91, CHR 0xE6, CHR 0xAE, CHR 0xB5, CHR 0xE8, CHR 0x83, CHR 0xBD, CHR 0xE6, CHR 0x9F, CHR 0xA5, CHR 0xE8, CHR 0xAF, CHR 0xA2]
     @ '' DoH/DoT/DoQ ''
     @ [CHR 0xE5, CHR 0x85, CHR 0xA5, CHR 0xE5, CHR 0x8F, CHR 0xA3, CHR 0x0A]
     @ ''# ''
     @ [CHR 0xE6, CHR 0xAF, CHR 0x8F, CHR 0xE8, CHR 0xA1, CHR 0x8C, CHR 0xE4, CHR 0xB8, CHR 0x80, CHR 0xE4, CHR 0xB8, CHR 0xAA]
     @ '' CIDR ''
     @ [CHR 0xE6, CHR 0x88, CHR 0x96, CHR 0xE5, CHR 0x8D, CHR 0x95, CHR 0xE4, CHR 0xB8, CHR 0xAA, CHR 0xE5, CHR 0x9C, CHR 0xB0, CHR 0xE5, CHR 0x9D, CHR 0x80, CHR 0xE3, CHR 0x80, CHR 0x82, CHR 0xE7, CHR 0xA9, CHR 0xBA, CHR 0xE6, CHR 0x96, CHR 0x87, CHR 0xE4, CHR 0xBB, CHR 0xB6]
     @ '' = ''
     @ [CHR 0xE4, CHR 0xB8, CHR 0x8D, CHR 0xE5, CHR 0x90, CHR 0xAF, CHR 0xE7, CHR 0x94, CHR 0xA8, CHR 0xE8, CHR 0xAE, CHR 0xBF, CHR 0xE9, CHR 0x97, CHR 0xAE, CHR 0xE6, CHR 0x8E, CHR 0xA7, CHR 0xE5, CHR 0x88, CHR 0xB6, CHR 0xEF, CHR 0xBC, CHR 0x88, CHR 0xE5, CHR 0x85, CHR 0xA8, CHR 0xE7, CHR 0xBD, CHR 0x91, CHR 0xE5, CHR 0x8F, CHR 0xAF, CHR 0xE6, CHR 0x9F, CHR 0xA5, CHR 0xEF, CHR 0xBC, CHR 0x89, CHR 0xE3, CHR 0x80, CHR 0x82, CHR 0x0A]"

definition routeCNHeader :: string where
  "routeCNHeader =
     ''# dns-stack ''
     @ [CHR 0xE5, CHR 0x9B, CHR 0xBD, CHR 0xE5, CHR 0x86, CHR 0x85, CHR 0xE8, CHR 0xA7, CHR 0xA3, CHR 0xE6, CHR 0x9E, CHR 0x90, CHR 0xE5, CHR 0x90, CHR 0x8D, CHR 0xE5, CHR 0x8D, CHR 0x95, CHR 0xEF, CHR 0xBC, CHR 0x9A, CHR 0xE8, CHR 0xBF, CHR 0x99, CHR 0xE4, CHR 0xBA, CHR 0x9B, CHR 0xE5, CHR 0x9F, CHR 0x9F, CHR 0xE5, CHR 0x90, CHR 0x8D, CHR 0xE7, CHR 0x9A, CHR 0x84, CHR 0xE6, CHR 0x9D, CHR 0x83, CHR 0xE5, CHR 0xA8, CHR 0x81, CHR 0xE6, CHR 0x9C, CHR 0x8D, CHR 0xE5, CHR 0x8A, CHR 0xA1, CHR 0xE5, CHR 0x99, CHR 0xA8, CHR 0xE4, CHR 0xBB, CHR 0x8E, CHR 0xE5, CHR 0x9B, CHR 0xBD, CHR 0xE5, CHR 0x86, CHR 0x85, CHR 0xE7, CHR 0x9B, CHR 0xB4, CHR 0xE8, CHR 0xBF, CHR 0x9E, CHR 0xE6, CHR 0x9F, CHR 0xA5, CHR 0xE8, CHR 0xAF, CHR 0xA2, CHR 0xEF, CHR 0xBC, CHR 0x8C, CHR 0xE5, CHR 0xB9, CHR 0xB6, CHR 0xE5, CHR 0xB8, CHR 0xA6, CHR 0xE4, CHR 0xB8, CHR 0x8A, CHR 0xE5, CHR 0xAE, CHR 0xA2, CHR 0xE6, CHR 0x88, CHR 0xB7, CHR 0xE7, CHR 0xAB, CHR 0xAF, CHR 0xE5, CHR 0xAD, CHR 0x90, CHR 0xE7, CHR 0xBD, CHR 0x91, CHR 0x0A]
     @ ''# ''
     @ [CHR 0xE6, CHR 0xAF, CHR 0x8F, CHR 0xE8, CHR 0xA1, CHR 0x8C, CHR 0xE4, CHR 0xB8, CHR 0x80, CHR 0xE4, CHR 0xB8, CHR 0xAA, CHR 0xE5, CHR 0x9F, CHR 0x9F, CHR 0xE5, CHR 0x90, CHR 0x8D, CHR 0xEF, CHR 0xBC, CHR 0x8C, CHR 0xE5, CHR 0x8C, CHR 0x85, CHR 0xE5, CHR 0x90, CHR 0xAB, CHR 0xE5, CHR 0x85, CHR 0xA8, CHR 0xE9, CHR 0x83, CHR 0xA8, CHR 0xE5, CHR 0xAD, CHR 0x90, CHR 0xE5, CHR 0x9F, CHR 0x9F, CHR 0xE3, CHR 0x80, CHR 0x82, CHR 0xE7, CHR 0x94, CHR 0xB1, CHR 0xE9, CHR 0x9D, CHR 0xA2, CHR 0xE6, CHR 0x9D, CHR 0xBF, CHR 0xE6, CHR 0x88, CHR 0x96]
     @ '' dns-stack route ''
     @ [CHR 0xE7, CHR 0xBB, CHR 0xB4, CHR 0xE6, CHR 0x8A, CHR 0xA4, CHR 0xE3, CHR 0x80, CHR 0x82, CHR 0x0A]"

definition routeHKHeader :: string where
  "routeHKHeader =
     ''# dns-stack ''
     @ [CHR 0xE9, CHR 0xA6, CHR 0x99, CHR 0xE6, CHR 0xB8, CHR 0xAF, CHR 0xE8, CHR 0xA7, CHR 0xA3, CHR 0xE6, CHR 0x9E, CHR 0x90, CHR 0xE5, CHR 0x90, CHR 0x8D, CHR 0xE5, CHR 0x8D, CHR 0x95, CHR 0xEF, CHR 0xBC, CHR 0x9A, CHR 0xE8, CHR 0xBF, CHR 0x99, CHR 0xE4, CHR 0xBA, CHR 0x9B, CHR 0xE5, CHR 0x9F, CHR 0x9F, CHR 0xE5, CHR 0x90, CHR 0x8D, CHR 0xE6, CHR 0x95, CHR 0xB4, CHR 0xE6, CHR 0x9D, CHR 0xA1, CHR 0xE4, CHR 0xBA, CHR 0xA4, CHR 0xE7, CHR 0xBB, CHR 0x99, CHR 0xE9, CHR 0xA6, CHR 0x99, CHR 0xE6, CHR 0xB8, CHR 0xAF]
     @ '' Unbound ''
     @ [CHR 0xE8, CHR 0xA7, CHR 0xA3, CHR 0xE6, CHR 0x9E, CHR 0x90, CHR 0x0A]
     @ ''# ''
     @ [CHR 0xE6, CHR 0xAF, CHR 0x8F, CHR 0xE8, CHR 0xA1, CHR 0x8C, CHR 0xE4, CHR 0xB8, CHR 0x80, CHR 0xE4, CHR 0xB8, CHR 0xAA, CHR 0xE5, CHR 0x9F, CHR 0x9F, CHR 0xE5, CHR 0x90, CHR 0x8D, CHR 0xEF, CHR 0xBC, CHR 0x8C, CHR 0xE5, CHR 0x8C, CHR 0x85, CHR 0xE5, CHR 0x90, CHR 0xAB, CHR 0xE5, CHR 0x85, CHR 0xA8, CHR 0xE9, CHR 0x83, CHR 0xA8, CHR 0xE5, CHR 0xAD, CHR 0x90, CHR 0xE5, CHR 0x9F, CHR 0x9F, CHR 0xE3, CHR 0x80, CHR 0x82, CHR 0xE7, CHR 0x94, CHR 0xB1, CHR 0xE9, CHR 0x9D, CHR 0xA2, CHR 0xE6, CHR 0x9D, CHR 0xBF, CHR 0xE6, CHR 0x88, CHR 0x96]
     @ '' dns-stack route ''
     @ [CHR 0xE7, CHR 0xBB, CHR 0xB4, CHR 0xE6, CHR 0x8A, CHR 0xA4, CHR 0xE3, CHR 0x80, CHR 0x82, CHR 0x0A]"

datatype route_list = RouteCN | RouteHK

datatype access_error =
  IOError io_error | BadList string | DomainEmpty | DomainMalformed string | DomainTopLevel string
  | ACLEntry string | RoutePublicSuffix string | RouteReserved string | ListsLocked
  | RecordLine string | RecordName string | RecordSingle string | RecordAddr string
  | RecordNot4 string | RecordNot6 string | RecordType string

type_synonym 'a op = "dir \<Rightarrow> (access_error + 'a) \<times> dir"

definition ParseRouteList :: "string \<Rightarrow> access_error + route_list" where
  "ParseRouteList raw =
     (let v = ToLower (TrimSpace raw) in
      if v = ''cn'' then Inr RouteCN else if v = ''hk'' then Inr RouteHK else Inl (BadList raw))"

fun Other :: "route_list \<Rightarrow> route_list" where
  "Other RouteCN = RouteHK"
| "Other RouteHK = RouteCN"

fun route_file :: "route_list \<Rightarrow> string \<times> string" where
  "route_file RouteCN = (RouteCNFile, routeCNHeader)"
| "route_file RouteHK = (RouteHKFile, routeHKHeader)"

definition ACLDisabled :: "dir \<Rightarrow> bool" where
  "ACLDisabled d \<longleftrightarrow> d ACLDisabledFile \<noteq> None"

definition write_op :: "env \<Rightarrow> string \<Rightarrow> string \<Rightarrow> nat \<Rightarrow> unit op" where
  "write_op env path data mode d =
     (case WriteAtomic env path data mode d of (Inl e, d') \<Rightarrow> (Inl (IOError e), d') | (Inr u, d') \<Rightarrow> (Inr u, d'))"

definition SetACLDisabled :: "env \<Rightarrow> bool \<Rightarrow> unit op" where
  "SetACLDisabled env disabled d =
     (if disabled then write_op env ACLDisabledFile (en_rfc3339 env @ [CHR 0x0A]) 420 d
      else if d ACLDisabledFile \<noteq> None \<and> en_remove_fails env then (Inl (IOError IOFailure), d)
      else (Inr (), d(ACLDisabledFile := None)))"

definition readEntries :: "env \<Rightarrow> string \<Rightarrow> dir \<Rightarrow> access_error + string list" where
  "readEntries env path d =
     (case Lines env path d of
        Inl NotExist \<Rightarrow> Inr [] | Inl e \<Rightarrow> Inl (IOError e) | Inr ls \<Rightarrow> Inr ls)"

definition stamp_prefix :: string where
  "stamp_prefix = ''# '' @ [CHR 0xE6, CHR 0x9C, CHR 0x80, CHR 0xE5, CHR 0x90, CHR 0x8E, CHR 0xE6, CHR 0x9B, CHR 0xB4, CHR 0xE6, CHR 0x96, CHR 0xB0] @ '': ''"

definition stamp :: "env \<Rightarrow> string" where
  "stamp env = stamp_prefix @ en_now env @ [CHR 0x0A]"

definition writeEntries :: "env \<Rightarrow> string \<Rightarrow> string \<Rightarrow> string list \<Rightarrow> unit op" where
  "writeEntries env path header entries d =
     (if \<not> io_mkdir (en_io env path) then (Inl (IOError IOFailure), d)
      else write_op env path
        (header @ stamp env @ [CHR 0x0A] @ concat (map (\<lambda>entry. entry @ [CHR 0x0A]) entries)) 420 d)"

fun ensure_loop :: "env \<Rightarrow> (string \<times> string) list \<Rightarrow> unit op" where
  "ensure_loop env [] d = (Inr (), d)"
| "ensure_loop env ((path, header) # items) d =
     (if d path \<noteq> None then ensure_loop env items d
      else case writeEntries env path header [] d of
        (Inl e, d') \<Rightarrow> (Inl e, d') | (Inr _, d') \<Rightarrow> ensure_loop env items d')"

definition EnsureFiles :: "env \<Rightarrow> unit op" where
  "EnsureFiles env = ensure_loop env [(BlocklistFile, blocklistHeader), (ACLFile, aclHeader)]"

definition MissingFiles :: "dir \<Rightarrow> string list" where
  "MissingFiles d = (if d BlocklistFile = None then [BlocklistFile] else [])"

definition Blocklist :: "env \<Rightarrow> dir \<Rightarrow> access_error + string list" where
  "Blocklist env d = readEntries env BlocklistFile d"

fun parse_prefixes :: "string list \<Rightarrow> access_error + prefix list" where
  "parse_prefixes [] = Inr []"
| "parse_prefixes (entry # es) =
     (case cidr_ParsePrefix entry of
        None \<Rightarrow> Inl (ACLEntry entry)
      | Some p \<Rightarrow> bind_res (parse_prefixes es) (\<lambda>ps. Inr (p # ps)))"

definition ACL :: "env \<Rightarrow> dir \<Rightarrow> access_error + prefix list" where
  "ACL env d = bind_res (readEntries env ACLFile d) parse_prefixes"

definition EnforcedACL :: "env \<Rightarrow> dir \<Rightarrow> access_error + prefix list" where
  "EnforcedACL env d = (if ACLDisabled d then Inr [] else ACL env d)"

section \<open>Package access: editing lists of names\<close>

definition normalizeDomain :: "string \<Rightarrow> access_error + string" where
  "normalizeDomain name =
     (let v = ToLower (TrimSuffix (CHR ''.'') (TrimSpace name)) in
      if v = [] then Inl DomainEmpty
      else if \<not> IsWellFormed v then Inl (DomainMalformed name)
      else if CHR ''.'' \<notin> set v then Inl (DomainTopLevel v)
      else Inr v)"

definition entryKey :: "string \<Rightarrow> string" where
  "entryKey line =
     (let before = (case Cut (CHR ''#'') line of None \<Rightarrow> line | Some (b, _) \<Rightarrow> b) in
      case Fields before of [] \<Rightarrow> [] | f # _ \<Rightarrow> ToLower (TrimSuffix (CHR ''.'') f))"

fun SplitAfter :: "char \<Rightarrow> string \<Rightarrow> string list" where
  "SplitAfter d [] = [[]]"
| "SplitAfter d (c # cs) =
     (if c = d then [c] # SplitAfter d cs
      else (case SplitAfter d cs of [] \<Rightarrow> [[c]] | w # ws \<Rightarrow> (c # w) # ws))"

definition edit_line :: "env \<Rightarrow> string set \<Rightarrow> string \<Rightarrow> string" where
  "edit_line env drp line =
     (let trimmed = TrimSpace line in
      if line = [] then []
      else if HasPrefix trimmed stamp_prefix then stamp env
      else if trimmed \<noteq> [] \<and> \<not> HasPrefix trimmed ''#'' \<and> entryKey trimmed \<in> drp then []
      else line)"

definition edited :: "env \<Rightarrow> string set \<Rightarrow> string list \<Rightarrow> string \<Rightarrow> string" where
  "edited env drp add raw =
     (let b = concat (map (edit_line env drp) (SplitAfter (CHR 0x0A) raw));
          b1 = (if b \<noteq> [] \<and> \<not> HasSuffix b [CHR 0x0A] then b @ [CHR 0x0A] else b)
      in b1 @ concat (map (\<lambda>entry. entry @ [CHR 0x0A]) add))"

definition editEntries :: "env \<Rightarrow> string \<Rightarrow> string \<Rightarrow> string set \<Rightarrow> string list \<Rightarrow> unit op" where
  "editEntries env path header drp add d =
     (case ReadFile env path d of
        Inl NotExist \<Rightarrow> writeEntries env path header add d
      | Inl e \<Rightarrow> (Inl (IOError e), d)
      | Inr raw \<Rightarrow>
          if TrimSpace raw = [] then writeEntries env path header add d
          else write_op env path (edited env drp add raw)
                 (case d path of None \<Rightarrow> 420 | Some f \<Rightarrow> f_mode f) d)"

fun add_loop :: "string set \<Rightarrow> string list \<Rightarrow> access_error + string list" where
  "add_loop seen [] = Inr []"
| "add_loop seen (raw # names) =
     bind_res (normalizeDomain raw) (\<lambda>v.
       if v \<in> seen then add_loop seen names
       else bind_res (add_loop (insert v seen) names) (\<lambda>added. Inr (v # added)))"

definition addEntries :: "env \<Rightarrow> string \<Rightarrow> string \<Rightarrow> string list \<Rightarrow> string list \<Rightarrow> string list op" where
  "addEntries env path header current names d =
     (case add_loop (entryKey ` set current) names of
        Inl e \<Rightarrow> (Inl e, d)
      | Inr [] \<Rightarrow> (Inr [], d)
      | Inr added \<Rightarrow>
          (case editEntries env path header {} added d of
             (Inl e, d') \<Rightarrow> (Inl e, d') | (Inr _, d') \<Rightarrow> (Inr added, d')))"

definition removeEntries :: "env \<Rightarrow> string \<Rightarrow> string \<Rightarrow> string list \<Rightarrow> string list \<Rightarrow> string list op" where
  "removeEntries env path header current names d =
     (let drp = entryKey ` set names; removed = filter (\<lambda>item. entryKey item \<in> drp) current in
      if removed = [] then (Inr [], d)
      else case editEntries env path header drp [] d of
        (Inl e, d') \<Rightarrow> (Inl e, d') | (Inr _, d') \<Rightarrow> (Inr removed, d'))"

definition AddBlocked :: "env \<Rightarrow> string list \<Rightarrow> string list op" where
  "AddBlocked env names d =
     (case Blocklist env d of
        Inl e \<Rightarrow> (Inl e, d) | Inr current \<Rightarrow> addEntries env BlocklistFile blocklistHeader current names d)"

definition RemoveBlocked :: "env \<Rightarrow> string list \<Rightarrow> string list op" where
  "RemoveBlocked env names d =
     (case Blocklist env d of
        Inl e \<Rightarrow> (Inl e, d) | Inr current \<Rightarrow> removeEntries env BlocklistFile blocklistHeader current names d)"

fun unique_keys :: "string set \<Rightarrow> string list \<Rightarrow> string list" where
  "unique_keys seen [] = []"
| "unique_keys seen (line # ls) =
     (let key = entryKey line in
      if key = [] \<or> key \<in> seen then unique_keys seen ls else key # unique_keys (insert key seen) ls)"

definition Routes :: "env \<Rightarrow> route_list \<Rightarrow> dir \<Rightarrow> access_error + string list" where
  "Routes env list d =
     bind_res (readEntries env (fst (route_file list)) d) (\<lambda>ls. Inr (unique_keys {} ls))"

fun route_names_loop :: "psl option \<Rightarrow> string list \<Rightarrow> access_error + unit" where
  "route_names_loop psl [] = Inr ()"
| "route_names_loop psl (raw # names) =
     bind_res (normalizeDomain raw) (\<lambda>name.
       let defect = ZoneDefect name psl in
       if defect = [] then route_names_loop psl names
       else if defect = DefectPublicSuffix then Inl (RoutePublicSuffix name)
       else Inl (RouteReserved name))"

definition checkRouteNames :: "env \<Rightarrow> string list \<Rightarrow> access_error + unit" where
  "checkRouteNames env names =
     route_names_loop (fst (LoadPSL (en_PSL_FILE env) (en_psl_files env) None)) names"

definition remove_routes :: "env \<Rightarrow> route_list \<Rightarrow> string list \<Rightarrow> string list op" where
  "remove_routes env list names d =
     (case Routes env list d of
        Inl e \<Rightarrow> (Inl e, d)
      | Inr current \<Rightarrow> removeEntries env (fst (route_file list)) (snd (route_file list)) current names d)"

definition AddRoutes :: "env \<Rightarrow> route_list \<Rightarrow> string list \<Rightarrow> (string list \<times> string list) op" where
  "AddRoutes env list names d =
     (case checkRouteNames env names of
        Inl e \<Rightarrow> (Inl e, d)
      | Inr _ \<Rightarrow>
          if \<not> en_lock env then (Inl ListsLocked, d)
          else case Routes env list d of
            Inl e \<Rightarrow> (Inl e, d)
          | Inr current \<Rightarrow>
              (case addEntries env (fst (route_file list)) (snd (route_file list)) current names d of
                 (Inl e, d') \<Rightarrow> (Inl e, d')
               | (Inr added, d') \<Rightarrow>
                   if added = [] then (Inr ([], []), d')
                   else (case remove_routes env (Other list) added d' of
                           (Inl e, d'') \<Rightarrow> (Inl e, d'') | (Inr moved, d'') \<Rightarrow> (Inr (added, moved), d''))))"

definition RemoveRoutes :: "env \<Rightarrow> route_list \<Rightarrow> string list \<Rightarrow> string list op" where
  "RemoveRoutes env list names d =
     (if \<not> en_lock env then (Inl ListsLocked, d) else remove_routes env list names d)"

section \<open>Package access: access control\<close>

definition SetACL :: "env \<Rightarrow> string list \<Rightarrow> prefix list op" where
  "SetACL env entries d =
     (case parse_prefixes entries of
        Inl e \<Rightarrow> (Inl e, d)
      | Inr ps \<Rightarrow>
          let prefixes = CollapsePrefixes ps in
          case writeEntries env ACLFile aclHeader (map pfx_String prefixes) d of
            (Inl e, d') \<Rightarrow> (Inl e, d') | (Inr _, d') \<Rightarrow> (Inr prefixes, d'))"

definition AddACL :: "env \<Rightarrow> string list \<Rightarrow> prefix list op" where
  "AddACL env entries d =
     (case ACL env d of
        Inl e \<Rightarrow> (Inl e, d) | Inr current \<Rightarrow> SetACL env (map pfx_String current @ entries) d)"

definition RemoveACL :: "env \<Rightarrow> string list \<Rightarrow> prefix list op" where
  "RemoveACL env entries d =
     (case ACL env d of
        Inl e \<Rightarrow> (Inl e, d)
      | Inr current \<Rightarrow>
          (case parse_prefixes entries of
             Inl e \<Rightarrow> (Inl e, d)
           | Inr drp \<Rightarrow> SetACL env (map pfx_String (cidr_Subtract current drp)) d))"

section \<open>Package access: local records\<close>

definition LocalRecordsFile :: string where "LocalRecordsFile = ''local-records.txt''"
definition LocalRecordTTL :: nat where "LocalRecordTTL = 300"

definition localRecordsHeader :: string where
  "localRecordsHeader =
     ''# dns-stack ''
     @ [CHR 0xE6, CHR 0x9C, CHR 0xAC, CHR 0xE5, CHR 0x9C, CHR 0xB0, CHR 0xE8, CHR 0xAE, CHR 0xB0, CHR 0xE5, CHR 0xBD, CHR 0x95, CHR 0xEF, CHR 0xBC, CHR 0x9A, CHR 0xE8, CHR 0xBF, CHR 0x99, CHR 0xE4, CHR 0xBA, CHR 0x9B, CHR 0xE5, CHR 0x90, CHR 0x8D, CHR 0xE5, CHR 0xAD, CHR 0x97, CHR 0xE7, CHR 0x94, CHR 0xB1, CHR 0xE6, CHR 0x9C, CHR 0xAC, CHR 0xE6, CHR 0x9C, CHR 0xBA]
     @ '' Unbound ''
     @ [CHR 0xE7, CHR 0x9B, CHR 0xB4, CHR 0xE6, CHR 0x8E, CHR 0xA5, CHR 0xE5, CHR 0x9B, CHR 0x9E, CHR 0xE7, CHR 0xAD, CHR 0x94, CHR 0xEF, CHR 0xBC, CHR 0x8C, CHR 0xE4, CHR 0xB8, CHR 0x8D, CHR 0xE5, CHR 0x8F, CHR 0x91, CHR 0xE8, CHR 0xB5, CHR 0xB7, CHR 0xE9, CHR 0x80, CHR 0x92, CHR 0xE5, CHR 0xBD, CHR 0x92, CHR 0x0A]
     @ ''# ''
     @ [CHR 0xE6, CHR 0xAF, CHR 0x8F, CHR 0xE8, CHR 0xA1, CHR 0x8C, CHR 0xE3, CHR 0x80, CHR 0x8C, CHR 0xE5, CHR 0x9F, CHR 0x9F, CHR 0xE5, CHR 0x90, CHR 0x8D]
     @ '' ''
     @ [CHR 0xE7, CHR 0xB1, CHR 0xBB, CHR 0xE5, CHR 0x9E, CHR 0x8B]
     @ '' ''
     @ [CHR 0xE5, CHR 0x80, CHR 0xBC, CHR 0xE3, CHR 0x80, CHR 0x8D, CHR 0xEF, CHR 0xBC, CHR 0x8C, CHR 0xE7, CHR 0xB1, CHR 0xBB, CHR 0xE5, CHR 0x9E, CHR 0x8B, CHR 0xE5, CHR 0x8F, CHR 0xAA, CHR 0xE6, CHR 0x9C, CHR 0x89]
     @ '' A / AAAA''
     @ [CHR 0xE3, CHR 0x80, CHR 0x82, CHR 0xE5, CHR 0x8F, CHR 0xAA, CHR 0xE7, CHR 0xAE, CHR 0xA1, CHR 0xE8, CHR 0xBF, CHR 0x99, CHR 0xE4, CHR 0xB8, CHR 0xAA, CHR 0xE5, CHR 0x90, CHR 0x8D, CHR 0xE5, CHR 0xAD, CHR 0x97, CHR 0xE6, CHR 0x9C, CHR 0xAC, CHR 0xE8, CHR 0xBA, CHR 0xAB, CHR 0xEF, CHR 0xBC, CHR 0x8C, CHR 0xE5, CHR 0xAD, CHR 0x90, CHR 0xE5, CHR 0x9F, CHR 0x9F, CHR 0xE7, CHR 0x85, CHR 0xA7, CHR 0xE5, CHR 0xB8, CHR 0xB8, CHR 0xE8, CHR 0xA7, CHR 0xA3, CHR 0xE6, CHR 0x9E, CHR 0x90, CHR 0xEF, CHR 0xBC, CHR 0x9B, CHR 0x0A]
     @ ''# ''
     @ [CHR 0xE5, CHR 0x90, CHR 0x8D, CHR 0xE5, CHR 0xAD, CHR 0x97, CHR 0xE4, CHR 0xB8, CHR 0x8B, CHR 0xE6, CHR 0xB2, CHR 0xA1, CHR 0xE5, CHR 0x86, CHR 0x99, CHR 0xE7, CHR 0x9A, CHR 0x84, CHR 0xE7, CHR 0xB1, CHR 0xBB, CHR 0xE5, CHR 0x9E, CHR 0x8B, CHR 0xE5, CHR 0x9B, CHR 0x9E, CHR 0xE3, CHR 0x80, CHR 0x8C, CHR 0xE6, CHR 0x97, CHR 0xA0, CHR 0xE8, CHR 0xAE, CHR 0xB0, CHR 0xE5, CHR 0xBD, CHR 0x95, CHR 0xE3, CHR 0x80, CHR 0x8D, CHR 0xE3, CHR 0x80, CHR 0x82, CHR 0xE7, CHR 0x94, CHR 0xB1, CHR 0xE9, CHR 0x9D, CHR 0xA2, CHR 0xE6, CHR 0x9D, CHR 0xBF, CHR 0xE6, CHR 0x88, CHR 0x96]
     @ '' dns-stack local-record ''
     @ [CHR 0xE7, CHR 0xBB, CHR 0xB4, CHR 0xE6, CHR 0x8A, CHR 0xA4, CHR 0xE3, CHR 0x80, CHR 0x82, CHR 0x0A]"

record local_record =
  lr_Name :: string
  lr_Type :: string
  lr_Value :: string

definition lr_String :: "local_record \<Rightarrow> string" where
  "lr_String r = lr_Name r @ '' '' @ lr_Type r @ '' '' @ lr_Value r"

definition UnboundData :: "local_record \<Rightarrow> string" where
  "UnboundData r = lr_Name r @ ''. '' @ dec_digits LocalRecordTTL @ '' IN '' @ lr_Type r @ '' '' @ lr_Value r"

definition ParseLocalRecord :: "string \<Rightarrow> string \<Rightarrow> string \<Rightarrow> access_error + local_record" where
  "ParseLocalRecord name kind0 val =
     (let host = ToLower (TrimSuffix (CHR ''.'') (TrimSpace name)) in
      if host = [] then Inl DomainEmpty
      else if \<not> IsWellFormed host \<or> HasPrefix host ''*'' then Inl (RecordName name)
      else if CHR ''.'' \<notin> set host then Inl (RecordSingle host)
      else
        let kind = ToUpper (TrimSpace kind0) in
        case ParseAddr (TrimSpace val) of
          None \<Rightarrow> Inl (RecordAddr val)
        | Some addr \<Rightarrow>
            if Zone addr \<noteq> [] then Inl (RecordAddr val)
            else if kind = ''A'' then
              (if \<not> Is4 addr \<and> \<not> Is4In6 addr then Inl (RecordNot4 val)
               else Inr \<lparr>lr_Name = host, lr_Type = kind, lr_Value = addr_String (Unmap addr)\<rparr>)
            else if kind = ''AAAA'' then
              (if \<not> Is6 addr \<or> Is4In6 addr then Inl (RecordNot6 val)
               else Inr \<lparr>lr_Name = host, lr_Type = kind, lr_Value = addr_String addr\<rparr>)
            else Inl (RecordType kind))"

fun records_loop :: "local_record set \<Rightarrow> string list \<Rightarrow> access_error + local_record list" where
  "records_loop seen [] = Inr []"
| "records_loop seen (line # ls) =
     (case Fields line of
        [a, b, c] \<Rightarrow>
          bind_res (ParseLocalRecord a b c) (\<lambda>r.
            if r \<in> seen then records_loop seen ls
            else bind_res (records_loop (insert r seen) ls) (\<lambda>rs. Inr (r # rs)))
      | _ \<Rightarrow> Inl (RecordLine line))"

definition LocalRecords :: "env \<Rightarrow> dir \<Rightarrow> access_error + local_record list" where
  "LocalRecords env d = bind_res (readEntries env LocalRecordsFile d) (records_loop {})"

definition writeLocalRecords :: "env \<Rightarrow> local_record list \<Rightarrow> unit op" where
  "writeLocalRecords env records =
     writeEntries env LocalRecordsFile localRecordsHeader
       (map lr_String (sort_key (\<lambda>r. (lr_Name r, lr_Type r)) records))"

definition AddLocalRecord :: "env \<Rightarrow> local_record \<Rightarrow> bool op" where
  "AddLocalRecord env rec d =
     (if \<not> en_lock env then (Inl ListsLocked, d)
      else case LocalRecords env d of
        Inl e \<Rightarrow> (Inl e, d)
      | Inr current \<Rightarrow>
          if rec \<in> set current then (Inr False, d)
          else (case writeLocalRecords env (current @ [rec]) d of
                  (Inl e, d') \<Rightarrow> (Inl e, d') | (Inr _, d') \<Rightarrow> (Inr True, d')))"

definition RemoveLocalRecords :: "env \<Rightarrow> string \<Rightarrow> string \<Rightarrow> string \<Rightarrow> local_record list op" where
  "RemoveLocalRecords env name kind0 value0 d =
     (let host = ToLower (TrimSuffix (CHR ''.'') (TrimSpace name));
          kind = ToUpper (TrimSpace kind0);
          val = (if value0 \<noteq> [] then (case ParseAddr (TrimSpace value0) of None \<Rightarrow> value0 | Some a \<Rightarrow> addr_String (Unmap a)) else value0);
          hit = (\<lambda>item. lr_Name item = host \<and> (kind = [] \<or> lr_Type item = kind) \<and> (val = [] \<or> lr_Value item = val))
      in if \<not> en_lock env then (Inl ListsLocked, d)
         else case LocalRecords env d of
           Inl e \<Rightarrow> (Inl e, d)
         | Inr current \<Rightarrow>
             let removed = filter hit current in
             if removed = [] then (Inr [], d)
             else (case writeLocalRecords env (filter (\<lambda>item. \<not> hit item) current) d of
                     (Inl e, d') \<Rightarrow> (Inl e, d') | (Inr _, d') \<Rightarrow> (Inr removed, d')))"

definition RecordsFor :: "local_record list \<Rightarrow> string \<Rightarrow> local_record list" where
  "RecordsFor records name = filter (\<lambda>r. lr_Name r = name) records"

definition RenderUnboundLocal :: "local_record list \<Rightarrow> string" where
  "RenderUnboundLocal records =
     ''# ''
     @ [CHR 0xE7, CHR 0x94, CHR 0xB1]
     @ '' dns-stack local-record ''
     @ [CHR 0xE7, CHR 0x94, CHR 0x9F, CHR 0xE6, CHR 0x88, CHR 0x90, CHR 0xEF, CHR 0xBC, CHR 0x8C, CHR 0xE6, CHR 0x89, CHR 0x8B, CHR 0xE6, CHR 0x94, CHR 0xB9, CHR 0xE4, CHR 0xBC, CHR 0x9A, CHR 0xE8, CHR 0xA2, CHR 0xAB, CHR 0xE8, CHR 0xA6, CHR 0x86, CHR 0xE7, CHR 0x9B, CHR 0x96, CHR 0xEF, CHR 0xBC, CHR 0x9B, CHR 0xE6, CHR 0xBA, CHR 0x90, CHR 0xE6, CHR 0x96, CHR 0x87, CHR 0xE4, CHR 0xBB, CHR 0xB6, CHR 0xE6, CHR 0x98, CHR 0xAF]
     @ '' /var/lib/dns-stack/''
     @ LocalRecordsFile
     @ [CHR 0x0A]
     @ ''server:''
     @ [CHR 0x0A]
     @ concat (map (\<lambda>r. ''    local-data: '' @ [CHR 0x22] @ UnboundData r @ [CHR 0x22, CHR 0x0A]) records)"

definition covers :: "string \<Rightarrow> string \<Rightarrow> bool" where
  "covers sfx name \<longleftrightarrow> sfx \<noteq> [] \<and> (name = sfx \<or> HasSuffix name (CHR ''.'' # sfx))"

datatype shadow = NotShadowed | ByBlocklist string | ByRouteHK string

definition Shadowing :: "env \<Rightarrow> string \<Rightarrow> dir \<Rightarrow> access_error + shadow" where
  "Shadowing env name d =
     bind_res (Blocklist env d) (\<lambda>blocked.
       case find (\<lambda>line. covers (entryKey line) name) blocked of
         Some line \<Rightarrow> Inr (ByBlocklist (entryKey line))
       | None \<Rightarrow>
           bind_res (Routes env RouteHK d) (\<lambda>hk.
             let excluded = (case readEntries env ''manual-exclude.txt'' d of Inl _ \<Rightarrow> [] | Inr ls \<Rightarrow> ls) in
             case find (\<lambda>sfx. covers sfx name) hk of
               None \<Rightarrow> Inr NotShadowed
             | Some sfx \<Rightarrow>
                 if list_ex (\<lambda>line. covers (entryKey line) name) excluded then Inr NotShadowed
                 else Inr (ByRouteHK sfx)))"

end
