(* ===== verification/Access_Facts.thy ===== *)
theory Access_Facts
  imports Access
begin

text \<open>
  The contracts of the lists. A write is atomic; an edit removes and adds exactly the entries it is
  asked to and keeps comments; the blocklist, the route lists and the access list behave as sets
  of names and of addresses; no name is on both route lists.
\<close>

section \<open>White space at line ends\<close>

lemma front_space_snoc:
  assumes "is_ascii d"
  shows "front_space (c # cs @ [d]) = front_space (c # cs)"
proof -
  consider "cs = []" | e where "cs = [e]" | e f gs where "cs = e # f # gs" by (metis list.exhaust)
  then show ?thesis using assms by cases (auto simp: front_space_def)
qed

lemma front_space_le: "front_space (c # cs) \<le> Suc (length cs)"
  by (auto simp: front_space_def split: list.splits)

lemma trim_left_newline:
  "trim_left (s @ [CHR 0x0A]) = (if trim_left s = [] then [] else trim_left s @ [CHR 0x0A])"
proof (induction s rule: trim_left.induct)
  case (2 c cs)
  let ?w = "front_space (c # cs)"
  have w: "front_space (c # cs @ [CHR 0x0A]) = ?w" by (rule front_space_snoc) simp
  show ?case
  proof (cases "?w = 0")
    case False
    have "?w - 1 - length cs = 0" using front_space_le [of c cs] by simp
    with 2 [OF refl False] False w show ?thesis by (simp add: Let_def)
  qed (simp add: w)
qed (simp add: front_space_def)

lemma trim_right_rev_newline: "trim_right_rev (CHR 0x0A # s) = trim_right_rev s"
  by (simp add: back_space_def space_width_rev_def)

lemma TrimSpace_newline [simp]: "TrimSpace (s @ [CHR 0x0A]) = TrimSpace s"
  by (simp add: TrimSpace_def trim_left_newline trim_right_rev_newline del: trim_right_rev.simps(2))

lemma back_space_le:
  assumes "printable c"
  shows "back_space (xs @ [c]) \<le> length xs"
proof -
  have w: "space_width [code c] = 0" "space_width (code c # ys) = 0" for ys using assms by auto
  consider "xs = []" | e where "xs = [e]" | e f where "xs = [e, f]" | e f g hs where "xs = e # f # g # hs"
    by (metis list.exhaust)
  then show ?thesis by cases (auto simp: back_space_def space_width_rev_def w simp del: space_width.simps)
qed

lemma trim_right_rev_keeps: "printable c \<Longrightarrow> \<exists>ys. trim_right_rev (xs @ [c]) = ys @ [c]"
proof (induction "length xs" arbitrary: xs rule: less_induct)
  case less
  show ?case
  proof (cases xs)
    case Nil
    then show ?thesis using back_space_printable [OF less.prems, of "[]"] by simp
  next
    case (Cons x xs')
    let ?w = "back_space (xs @ [c])"
    show ?thesis
    proof (cases "?w = 0")
      case False
      have "?w \<le> Suc (length xs')" using back_space_le [OF less.prems, of xs] Cons by simp
      then have eq: "trim_right_rev (xs @ [c]) = trim_right_rev (drop (?w - 1) xs' @ [c])"
        using False Cons by (simp add: Let_def)
      have "\<exists>ys. trim_right_rev (drop (?w - 1) xs' @ [c]) = ys @ [c]"
        by (rule less.hyps) (use Cons less.prems in auto)
      then show ?thesis unfolding eq .
    qed (use Cons in simp)
  qed
qed

lemma TrimSpace_keeps_front: "printable c \<Longrightarrow> \<exists>t. TrimSpace (c # s) = c # t"
proof -
  assume c: "printable c"
  then obtain ys where "trim_right_rev (rev s @ [c]) = ys @ [c]" using trim_right_rev_keeps by blast
  then show ?thesis using c by (simp add: TrimSpace_def front_space_printable)
qed

text \<open>A text that is trimmed to nothing consists of white space, so all its lines are blank.\<close>

lemma front_space_extend: "front_space (c # cs) \<noteq> 0 \<Longrightarrow> front_space (c # cs @ t) = front_space (c # cs)"
proof -
  assume a: "front_space (c # cs) \<noteq> 0"
  consider "cs = []" | e where "cs = [e]" | e f gs where "cs = e # f # gs" by (metis list.exhaust)
  then show ?thesis using a by cases (auto simp: front_space_def split: if_splits)
qed

lemma trim_left_front: "trim_left s = c # cs \<Longrightarrow> front_space (c # cs) = 0"
  by (induction s rule: trim_left.induct) (auto simp: Let_def split: if_splits)

lemma back_space_take:
  assumes "back_space s = Suc k"
  shows "space_width (map of_char (rev (take (Suc k) s))) = Suc k" and "Suc k \<le> length s"
proof -
  have le: "space_width bs \<le> length bs" for bs by (cases bs) (auto split: list.splits)
  have "rev (take (Suc 0) s) = take (Suc 0) s" by (cases s) simp_all
  then show *: "space_width (map of_char (rev (take (Suc k) s))) = Suc k"
    using assms by (auto simp: back_space_def space_width_rev_def take_map rev_map eval_nat_numeral split: if_splits)
  show "Suc k \<le> length s" using le [of "map of_char (rev (take (Suc k) s))"] unfolding * by simp
qed

lemma trim_right_not_Nil: "front_space (c # cs) = 0 \<Longrightarrow> trim_right_rev (rev (c # cs)) \<noteq> []"
proof (induction "length cs" arbitrary: cs rule: less_induct)
  case less
  obtain x xs where x: "rev (c # cs) = x # xs" by (cases "rev (c # cs)") auto
  show ?case
  proof (cases "back_space (rev (c # cs))")
    case 0
    then show ?thesis unfolding x by simp
  next
    case (Suc k)
    note sp = back_space_take [OF Suc]
    define p where "p = rev (drop (Suc k) (rev (c # cs)))"
    define q where "q = rev (take (Suc k) (rev (c # cs)))"
    have split: "c # cs = p @ q" unfolding p_def q_def by (metis append_take_drop_id rev_append rev_rev_ident)
    have q: "front_space q = Suc k" using sp(1) by (simp add: front_space_def q_def)
    have "p \<noteq> []" using q less.prems split by auto
    then obtain p' where p': "p = c # p'" "cs = p' @ q" using split by (cases p) auto
    have "front_space (c # p') = 0" using front_space_extend [of c p' q] less.prems p' by auto
    moreover have "q \<noteq> []" using q by (auto simp: front_space_def)
    ultimately have "trim_right_rev (rev (c # p')) \<noteq> []" using less.hyps p' by simp
    moreover have "trim_right_rev (rev (c # cs)) = trim_right_rev (rev p)"
      using Suc unfolding p_def x by (simp add: Let_def)
    ultimately show ?thesis by (simp add: p')
  qed
qed

lemma TrimSpace_Nil_iff: "TrimSpace s = [] \<longleftrightarrow> trim_left s = []"
proof
  assume "TrimSpace s = []"
  then have "trim_right_rev (rev (trim_left s)) = []" by (simp add: TrimSpace_def)
  then show "trim_left s = []"
    using trim_right_not_Nil [OF trim_left_front [of s]] by (cases "trim_left s") simp_all
qed (simp add: TrimSpace_def)

lemma trim_left_newline_append:
  "trim_left (s @ CHR 0x0A # t) = (if trim_left s = [] then trim_left t else trim_left s @ CHR 0x0A # t)"
proof (induction s rule: trim_left.induct)
  case (2 c cs)
  let ?w = "front_space (c # cs)"
  have w: "front_space (c # cs @ CHR 0x0A # t) = ?w"
  proof -
    consider "cs = []" | e where "cs = [e]" | e f gs where "cs = e # f # gs" by (metis list.exhaust)
    then show ?thesis by cases (auto simp: front_space_def split: list.splits)
  qed
  show ?case
  proof (cases "?w = 0")
    case False
    have "?w - 1 - length cs = 0" using front_space_le [of c cs] by simp
    with 2 [OF refl False] False w show ?thesis by (simp add: Let_def)
  qed (simp add: w)
qed (simp add: front_space_def)

lemma blank_lines: "trim_left s = [] \<Longrightarrow> l \<in> set (Split (CHR 0x0A) s) \<Longrightarrow> trim_left l = []"
proof (induction "length s" arbitrary: s rule: less_induct)
  case less
  show ?case
  proof (cases "CHR 0x0A \<in> set s")
    case True
    then obtain a b where s: "s = a @ CHR 0x0A # b" by (meson split_list)
    then have "trim_left a = []" "trim_left b = []"
      using less.prems(1) trim_left_newline_append [of a b] by (simp_all split: if_splits)
    then show ?thesis using less.prems(2) less.hyps [of a] less.hyps [of b] s by (auto simp: Split_append_sep)
  qed (use less.prems in \<open>simp add: Split_free\<close>)
qed

section \<open>Data lines\<close>

lemma lines_of_append: "lines_of (s @ CHR 0x0A # t) = lines_of s @ lines_of t"
  by (simp add: lines_of_def Split_append_sep)

lemma lines_of_Nil [simp]: "lines_of [] = []"
  by (simp add: lines_of_def data_line_def)

lemma lines_of_newline [simp]: "lines_of (s @ [CHR 0x0A]) = lines_of s"
  using lines_of_append [of s "[]"] by simp

lemma lines_of_blank: "TrimSpace s = [] \<Longrightarrow> lines_of s = []"
proof -
  assume "TrimSpace s = []"
  then have "\<forall>l \<in> set (Split (CHR 0x0A) s). TrimSpace l = []"
    using blank_lines [of s] unfolding TrimSpace_Nil_iff by blast
  then show ?thesis by (simp add: lines_of_def filter_empty_conv data_line_def)
qed

lemma lines_of_closed:
  assumes "b = [] \<or> (\<exists>x. b = x @ [CHR 0x0A])"
  shows "lines_of (b @ t) = lines_of b @ lines_of t"
  using assms lines_of_append [of _ t] by auto

lemma lines_of_line: "CHR 0x0A \<notin> set l \<Longrightarrow> lines_of l = (if data_line (TrimSpace l) then [TrimSpace l] else [])"
  by (simp add: lines_of_def Split_free)

lemma comment_no_data: "CHR 0x0A \<notin> set s \<Longrightarrow> lines_of (CHR ''#'' # s) = []"
  using TrimSpace_keeps_front [of "CHR ''#''" s] by (auto simp: lines_of_line data_line_def)

definition entry_line :: "string \<Rightarrow> bool" where
  "entry_line e \<longleftrightarrow> TrimSpace e = e \<and> data_line e \<and> CHR 0x0A \<notin> set e"

lemma lines_of_entries:
  "\<forall>e \<in> set es. entry_line e \<Longrightarrow> lines_of (concat (map (\<lambda>e. e @ [CHR 0x0A]) es)) = es"
  by (simp add: lines_of_def Split_lines entry_line_def data_line_def map_idI)

lemma SplitAfter_Split:
  "SplitAfter d s = map (\<lambda>l. l @ [d]) (butlast (Split d s)) @ [last (Split d s)]"
proof (induction s)
  case (Cons c cs)
  show ?case
  proof (cases "Split d cs")
    case (Cons w ws)
    then show ?thesis using Cons.IH by (cases ws) auto
  qed simp
qed simp

lemma lines_of_pieces: "lines_of raw = concat (map lines_of (Split (CHR 0x0A) raw))"
proof -
  have "filter data_line (map TrimSpace ls) = concat (map lines_of ls)" if "\<forall>l \<in> set ls. CHR 0x0A \<notin> set l" for ls
    using that by (induction ls) (auto simp: lines_of_line)
  then show ?thesis using Split_sep_free by (fastforce simp: lines_of_def)
qed

section \<open>Editing a file\<close>

abbreviation clock_ok :: "env \<Rightarrow> bool" where
  "clock_ok env \<equiv> CHR 0x0A \<notin> set (en_now env)"

lemma stamp_prefix_Cons: obtains p where "stamp_prefix = CHR ''#'' # p" and "CHR 0x0A \<notin> set p"
  by (simp add: stamp_prefix_def)

lemma stamp_prefix_comment: "HasPrefix t stamp_prefix \<Longrightarrow> HasPrefix t ''#''"
  by (rule stamp_prefix_Cons) (metis Cons_prefix_Cons Nil_prefix prefix_order.trans)

lemma stamp_no_data:
  assumes "clock_ok env"
  shows "lines_of (stamp env @ t) = lines_of t"
proof -
  obtain p where "stamp_prefix = CHR ''#'' # p" "CHR 0x0A \<notin> set p" by (rule stamp_prefix_Cons)
  then have "stamp env @ t = (CHR ''#'' # p @ en_now env) @ CHR 0x0A # t" "CHR 0x0A \<notin> set (p @ en_now env)"
    using assms by (simp_all add: stamp_def)
  then show ?thesis
    using lines_of_append [of "CHR ''#'' # p @ en_now env" t] comment_no_data [of "p @ en_now env"] by simp
qed

lemma edit_line_cases:
  assumes t: "TrimSpace line = TrimSpace l"
  obtains (dropped) "edit_line env drp line = []" and "data_line (TrimSpace l) \<longrightarrow> entryKey (TrimSpace l) \<in> drp"
    | (stamp) "edit_line env drp line = stamp env" and "\<not> data_line (TrimSpace l)"
    | (kept) "edit_line env drp line = line" and "data_line (TrimSpace l) \<longrightarrow> entryKey (TrimSpace l) \<notin> drp"
proof (cases "line = []")
  case True
  then have "TrimSpace l = []" using t by simp
  then show ?thesis using dropped True by (simp add: edit_line_def data_line_def)
next
  case False
  show ?thesis
  proof (cases "HasPrefix (TrimSpace l) stamp_prefix")
    case True
    then have "edit_line env drp line = stamp env" using False t by (simp add: edit_line_def)
    then show ?thesis using stamp stamp_prefix_comment [OF True] by (simp add: data_line_def)
  next
    case n: False
    then have "edit_line env drp line = (if data_line (TrimSpace l) \<and> entryKey (TrimSpace l) \<in> drp then [] else line)"
      using False t by (simp add: edit_line_def data_line_def)
    then show ?thesis using dropped kept by (cases "data_line (TrimSpace l) \<and> entryKey (TrimSpace l) \<in> drp") auto
  qed
qed

lemma edit_lines_step:
  assumes "clock_ok env" and "CHR 0x0A \<notin> set l"
  shows "lines_of (edit_line env drp (l @ [CHR 0x0A]) @ t) = filter (\<lambda>e. entryKey e \<notin> drp) (lines_of l) @ lines_of t"
proof (cases rule: edit_line_cases [of "l @ [CHR 0x0A]" l env drp, OF TrimSpace_newline])
  case 3
  then show ?thesis using lines_of_append [of l t] assms(2) by (auto simp: lines_of_line)
qed (use assms stamp_no_data in \<open>auto simp: lines_of_line\<close>)

lemma edit_line_last:
  assumes "clock_ok env" and "CHR 0x0A \<notin> set l"
  shows "lines_of (edit_line env drp l) = filter (\<lambda>e. entryKey e \<notin> drp) (lines_of l)"
proof (cases rule: edit_line_cases [of l l env drp, OF refl])
  case 2
  then show ?thesis using stamp_no_data [OF assms(1), of "[]"] assms(2) by (simp add: lines_of_line)
qed (use assms in \<open>auto simp: lines_of_line data_line_def\<close>)

lemma edited_pieces:
  assumes "clock_ok env"
  shows "\<forall>l \<in> set ls. CHR 0x0A \<notin> set l \<Longrightarrow>
    lines_of (concat (map (edit_line env drp) (map (\<lambda>l. l @ [CHR 0x0A]) ls)) @ t) =
    filter (\<lambda>e. entryKey e \<notin> drp) (concat (map lines_of ls)) @ lines_of t"
  by (induction ls) (simp_all add: edit_lines_step [OF assms])

lemma edited_lines:
  assumes "clock_ok env" and "\<forall>e \<in> set add. entry_line e"
  shows "lines_of (edited env drp add raw) = filter (\<lambda>e. entryKey e \<notin> drp) (lines_of raw) @ add"
proof -
  let ?b = "concat (map (edit_line env drp) (SplitAfter (CHR 0x0A) raw))"
  let ?S = "Split (CHR 0x0A) raw"
  have nl: "CHR 0x0A \<notin> set l" if "l \<in> set ?S" for l using Split_sep_free that by fast
  have "?b = concat (map (edit_line env drp) (map (\<lambda>l. l @ [CHR 0x0A]) (butlast ?S))) @ edit_line env drp (last ?S)"
    unfolding SplitAfter_Split by simp
  then have "lines_of ?b = filter (\<lambda>e. entryKey e \<notin> drp) (concat (map lines_of (butlast ?S))) @
      filter (\<lambda>e. entryKey e \<notin> drp) (lines_of (last ?S))"
    using edited_pieces [OF assms(1), of "butlast ?S"] edit_line_last [OF assms(1)] nl
    by (simp add: in_set_butlastD)
  also have "\<dots> = filter (\<lambda>e. entryKey e \<notin> drp) (concat (map lines_of (butlast ?S @ [last ?S])))"
    by (simp del: append_butlast_last_id)
  also have "butlast ?S @ [last ?S] = ?S" by (rule append_butlast_last_id) simp
  also have "filter (\<lambda>e. entryKey e \<notin> drp) (concat (map lines_of ?S)) = filter (\<lambda>e. entryKey e \<notin> drp) (lines_of raw)"
    by (simp add: lines_of_pieces [symmetric])
  finally have b: "lines_of ?b = filter (\<lambda>e. entryKey e \<notin> drp) (lines_of raw)" .
  define b1 where "b1 = (if ?b \<noteq> [] \<and> \<not> HasSuffix ?b [CHR 0x0A] then ?b @ [CHR 0x0A] else ?b)"
  have "b1 = [] \<or> (\<exists>x. b1 = x @ [CHR 0x0A])" by (auto simp: b1_def suffix_def)
  moreover have "lines_of b1 = lines_of ?b" by (simp add: b1_def)
  ultimately have "lines_of (b1 @ t) = lines_of ?b @ lines_of t" for t by (simp add: lines_of_closed)
  then show ?thesis using lines_of_entries [OF assms(2)] b by (simp add: edited_def Let_def b1_def)
qed

section \<open>Writing\<close>

text \<open>
  A temporary file is new and its name starts with a dot, which is what \<open>os.CreateTemp\<close> promises
  for the pattern it is given; no list has such a name.
\<close>

definition temps_ok :: "env \<Rightarrow> dir \<Rightarrow> bool" where
  "temps_ok env d \<longleftrightarrow> (\<forall>p t. io_temp (en_io env p) = Some t \<longrightarrow> d t = None \<and> HasPrefix t ''.'')"

abbreviation visible :: "string \<Rightarrow> bool" where
  "visible p \<equiv> \<not> HasPrefix p ''.''"

definition entries :: "dir \<Rightarrow> string \<Rightarrow> string list" where
  "entries d path = (case d path of None \<Rightarrow> [] | Some f \<Rightarrow> lines_of (f_data f))"

lemma readEntries_eq: "readEntries env path d = Inr ls \<Longrightarrow> ls = entries d path"
  by (auto simp: readEntries_def Lines_def ReadFile_def entries_def split: option.splits if_splits sum.splits io_error.splits)

lemma readEntries_ok: "\<not> en_read_fails env path \<Longrightarrow> readEntries env path d = Inr (entries d path)"
  by (auto simp: readEntries_def Lines_def ReadFile_def entries_def split: option.splits)

lemma write_op_Inr:
  assumes "write_op env path data mode d = (Inr u, d')" and "temps_ok env d" and "visible path"
  shows "d' = d(path \<mapsto> \<lparr>f_data = data, f_mode = mode\<rparr>)"
proof -
  obtain t where "io_temp (en_io env path) = Some t"
    and d': "d' = d(t \<mapsto> \<lparr>f_data = data, f_mode = mode\<rparr>, t := None, path \<mapsto> \<lparr>f_data = data, f_mode = mode\<rparr>)"
    using assms(1) by (auto simp: write_op_def WriteAtomic_def Let_def split: if_splits option.splits sum.splits prod.splits)
  moreover from this have "d t = None" "t \<noteq> path" using assms(2,3) by (auto simp: temps_ok_def)
  ultimately show ?thesis by (auto simp: fun_eq_iff)
qed

lemma write_op_Inl:
  assumes "write_op env path data mode d = (Inl e, d')" and "temps_ok env d" and "visible p"
  shows "d' p = d p"
  using assms by (fastforce simp: write_op_def WriteAtomic_def remove_temp_def temps_ok_def Let_def
      split: if_splits option.splits sum.splits prod.splits)

definition header_ok :: "string \<Rightarrow> bool" where
  "header_ok h \<longleftrightarrow> lines_of h = [] \<and> (h = [] \<or> last h = CHR 0x0A)"

lemma header_closed: "header_ok h \<Longrightarrow> lines_of (h @ t) = lines_of t"
  using lines_of_closed [of h t] by (cases h rule: rev_cases) (auto simp: header_ok_def)

lemma writeEntries_Inr:
  assumes "writeEntries env path header es d = (Inr u, d')" and "temps_ok env d" and "visible path"
    and "clock_ok env" and "header_ok header" and "\<forall>e \<in> set es. entry_line e"
  shows "\<exists>f. d' = d(path \<mapsto> f) \<and> entries d' path = es"
proof -
  let ?data = "header @ stamp env @ [CHR 0x0A] @ concat (map (\<lambda>entry. entry @ [CHR 0x0A]) es)"
  have "d' = d(path \<mapsto> \<lparr>f_data = ?data, f_mode = 420\<rparr>)"
    using assms(1) by (intro write_op_Inr [OF _ assms(2,3)]) (auto simp: writeEntries_def split: if_splits)
  moreover have "lines_of ?data = es"
    using lines_of_append [of "[]"] lines_of_entries [OF assms(6)]
    by (simp add: header_closed [OF assms(5)] stamp_no_data [OF assms(4)])
  ultimately show ?thesis by (auto simp: entries_def)
qed

lemma editEntries_Inr:
  assumes "editEntries env path header drp add d = (Inr u, d')" and "temps_ok env d" and "visible path"
    and "clock_ok env" and "header_ok header" and "\<forall>e \<in> set add. entry_line e"
  shows "\<exists>f. d' = d(path \<mapsto> f) \<and> entries d' path = filter (\<lambda>e. entryKey e \<notin> drp) (entries d path) @ add"
proof (cases "entries d path = [] \<and> writeEntries env path header add d = (Inr u, d')")
  case True
  then show ?thesis using writeEntries_Inr [OF _ assms(2-6)] by auto
next
  case False
  then obtain f where f: "d path = Some f"
    and w: "write_op env path (edited env drp add (f_data f)) (f_mode f) d = (Inr u, d')"
    using assms(1) lines_of_blank
    by (auto simp: editEntries_def ReadFile_def entries_def split: option.splits if_splits sum.splits io_error.splits)
  from write_op_Inr [OF w assms(2,3)] have "d' = d(path \<mapsto> \<lparr>f_data = edited env drp add (f_data f), f_mode = f_mode f\<rparr>)" .
  then show ?thesis using edited_lines [OF assms(4,6)] by (auto simp: entries_def f)
qed

lemma header_okI:
  assumes "list_all (\<lambda>l. l = [] \<or> hd l = CHR ''#'') (Split (CHR 0x0A) h)" and "h \<noteq> [] \<and> last h = CHR 0x0A"
  shows "header_ok h"
proof -
  have "lines_of l = []" if "l \<in> set (Split (CHR 0x0A) h)" for l
    using assms(1) that Split_sep_free [OF that] comment_no_data [of "tl l"] by (cases l) (auto simp: list_all_iff)
  then show ?thesis using assms(2) by (simp add: header_ok_def lines_of_pieces [of h])
qed

lemma headers_ok:
  "header_ok blocklistHeader" "header_ok aclHeader" "header_ok routeCNHeader" "header_ok routeHKHeader"
  "header_ok localRecordsHeader"
  by (rule header_okI; code_simp)+

lemma WriteAtomic_done:
  assumes "WriteAtomic env path data mode d = (Inr u, d')"
  shows "d' path = Some \<lparr>f_data = data, f_mode = mode\<rparr>"
    and "\<lbrakk>temps_ok env d0; visible p; p \<noteq> path\<rbrakk> \<Longrightarrow> d' p = d p"
  using assms by (auto simp: WriteAtomic_def Let_def temps_ok_def split: if_splits option.splits)

lemma temps_ok_upd: "temps_ok env d \<Longrightarrow> visible path \<Longrightarrow> temps_ok env (d(path \<mapsto> f))"
  by (auto simp: temps_ok_def)

lemma entries_upd [simp]: "p \<noteq> path \<Longrightarrow> entries (d(path \<mapsto> f)) p = entries d p"
  by (simp add: entries_def)

section \<open>Names as entries\<close>

lemma fields_loop_word:
  "\<forall>c \<in> set s. printable c \<Longrightarrow> fields_loop acc s = (if rev acc @ s = [] then [] else [rev acc @ s])"
proof (induction s arbitrary: acc)
  case (Cons c s)
  then have "fields_loop acc (c # s) = fields_loop (c # acc) s" by (simp add: front_space_printable)
  with Cons show ?case by simp
qed simp

lemma wf_name:
  assumes "IsWellFormed v"
  shows "entryKey v = v" and "entry_line v" and "v \<noteq> []"
proof -
  note N = Normalize_well_formed [OF assms] IsWellFormed_chars [OF assms] IsWellFormed_labels(2) [OF assms]
  show ne: "v \<noteq> []" by (rule N(5))
  have pr: "\<forall>c \<in> set v. printable c \<and> c \<noteq> CHR ''#'' \<and> c \<noteq> CHR 0x0A \<and> \<not> is_capital c"
  proof
    fix c assume "c \<in> set v"
    then consider "isAlnum c" | "c = CHR ''-''" | "c = CHR ''_''" | "c = CHR ''.''"
      using N(2) by (auto simp: label_char_def)
    then show "printable c \<and> c \<noteq> CHR ''#'' \<and> c \<noteq> CHR 0x0A \<and> \<not> is_capital c"
      by cases (auto simp: isAlnum_def)
  qed
  have lst: "last v \<noteq> CHR ''.''" using N(4) isAlnum_printable by blast
  have "Cut (CHR ''#'') v = None" using pr by (auto simp: Cut_def)
  moreover have "Fields v = [v]" unfolding Fields_def by (subst fields_loop_word) (use pr ne in auto)
  moreover have "TrimSuffix (CHR ''.'') v = v" using lst by (simp add: TrimSuffix_def)
  moreover have "ToLower v = v" using pr by (intro ToLower_id) (auto simp: list_all_iff)
  ultimately show "entryKey v = v" by (simp add: entryKey_def)
  have "TrimSpace v = v" using pr ne by (intro TrimSpace_id) simp_all
  moreover have "\<not> HasPrefix v ''#''" using pr ne by (cases v) auto
  ultimately show "entry_line v" using pr ne by (auto simp: entry_line_def data_line_def)
qed

lemma normalizeDomain_wf: "normalizeDomain n = Inr v \<Longrightarrow> IsWellFormed v"
  by (auto simp: normalizeDomain_def Let_def split: if_splits)

lemma add_loop_Inr:
  "add_loop seen names = Inr added \<Longrightarrow>
     distinct added \<and> set added = {v. \<exists>n \<in> set names. normalizeDomain n = Inr v} - seen \<and>
     (\<forall>n \<in> set names. \<exists>v. normalizeDomain n = Inr v)"
proof (induction names arbitrary: seen added)
  case (Cons raw names)
  then obtain v where v: "normalizeDomain raw = Inr v" by (auto simp: bind_res_eq_Inr)
  show ?case
  proof (cases "v \<in> seen")
    case True
    with Cons.prems v have "add_loop seen names = Inr added" by simp
    from Cons.IH [OF this] True v show ?thesis by auto
  next
    case False
    with Cons.prems v obtain rest where r: "add_loop (insert v seen) names = Inr rest" "added = v # rest"
      by (auto simp: bind_res_eq_Inr)
    from Cons.IH [OF r(1)] False v show ?thesis unfolding r(2) by auto
  qed
qed simp

lemma add_loop_entries: "add_loop seen names = Inr added \<Longrightarrow> v \<in> set added \<Longrightarrow> IsWellFormed v"
  using add_loop_Inr normalizeDomain_wf by blast

lemma addEntries_Inr:
  assumes "addEntries env path header current names d = (Inr added, d')" and "temps_ok env d" and "visible path"
    and "clock_ok env" and "header_ok header"
  shows "add_loop (entryKey ` set current) names = Inr added"
    and "(added = [] \<and> d' = d) \<or> (\<exists>f. d' = d(path \<mapsto> f))"
    and "entries d' path = entries d path @ added"
proof -
  obtain xs where xs: "add_loop (entryKey ` set current) names = Inr xs" "xs = added"
    using assms(1) by (auto simp: addEntries_def split: sum.splits list.splits prod.splits)
  show "add_loop (entryKey ` set current) names = Inr added" using xs by simp
  have el: "\<forall>e \<in> set added. entry_line e" using add_loop_entries [OF xs(1)] wf_name(2) xs(2) by blast
  have "(added = [] \<and> d' = d) \<or> (\<exists>f. d' = d(path \<mapsto> f) \<and> entries d' path = entries d path @ added)"
  proof (cases added)
    case Nil
    then show ?thesis using assms(1) xs by (simp add: addEntries_def)
  next
    case (Cons a as)
    then obtain u where "editEntries env path header {} added d = (Inr u, d')"
      using assms(1) xs by (auto simp: addEntries_def split: sum.splits prod.splits)
    from editEntries_Inr [OF this assms(2-5) el] show ?thesis by auto
  qed
  then show "(added = [] \<and> d' = d) \<or> (\<exists>f. d' = d(path \<mapsto> f))" "entries d' path = entries d path @ added" by auto
qed

lemma removeEntries_Inr:
  assumes "removeEntries env path header current names d = (Inr removed, d')" and "temps_ok env d" and "visible path"
    and "clock_ok env" and "header_ok header"
  shows "removed = filter (\<lambda>item. entryKey item \<in> entryKey ` set names) current"
    and "(removed = [] \<and> d' = d) \<or>
      (\<exists>f. d' = d(path \<mapsto> f) \<and> entries d' path = filter (\<lambda>e. entryKey e \<notin> entryKey ` set names) (entries d path))"
  using assms(1) editEntries_Inr [OF _ assms(2-5), of "entryKey ` set names" "[]" _ d']
  by (auto simp: removeEntries_def Let_def split: if_splits sum.splits prod.splits)

abbreviation env_ok :: "env \<Rightarrow> dir \<Rightarrow> bool" where
  "env_ok env d \<equiv> temps_ok env d \<and> clock_ok env"

lemma list_names [simp]:
  "visible BlocklistFile" "visible ACLFile" "visible RouteCNFile" "visible RouteHKFile" "visible LocalRecordsFile"
  "RouteCNFile \<noteq> RouteHKFile" "BlocklistFile \<noteq> RouteCNFile" "BlocklistFile \<noteq> RouteHKFile"
  "RouteHKFile \<noteq> RouteCNFile" "RouteCNFile \<noteq> BlocklistFile" "RouteHKFile \<noteq> BlocklistFile"
  by (simp_all add: BlocklistFile_def ACLFile_def RouteCNFile_def RouteHKFile_def LocalRecordsFile_def)

lemma route_file_ok [simp]: "visible (fst (route_file l))" "header_ok (snd (route_file l))"
  by (cases l; simp add: headers_ok)+

lemma route_files_differ: "fst (route_file (Other l)) \<noteq> fst (route_file l)" "fst (route_file l) \<noteq> fst (route_file (Other l))"
  by (cases l; simp)+

lemma Other_Other [simp]: "Other (Other l) = l"
  by (cases l) simp_all

section \<open>The blocklist\<close>

lemma AddBlocked_Inr:
  assumes "AddBlocked env names d = (Inr added, d')" and "env_ok env d"
  shows "entries d' BlocklistFile = entries d BlocklistFile @ added" and "distinct added"
    and "set added = {v. \<exists>n \<in> set names. normalizeDomain n = Inr v} - entryKey ` set (entries d BlocklistFile)"
    and "(added = [] \<and> d' = d) \<or> (\<exists>f. d' = d(BlocklistFile \<mapsto> f))"
proof -
  have a: "addEntries env BlocklistFile blocklistHeader (entries d BlocklistFile) names d = (Inr added, d')"
    using assms(1) by (auto simp: AddBlocked_def Blocklist_def dest: readEntries_eq split: sum.splits)
  note A = addEntries_Inr [OF a _ list_names(1) _ headers_ok(1)]
  show "entries d' BlocklistFile = entries d BlocklistFile @ added"
    "(added = [] \<and> d' = d) \<or> (\<exists>f. d' = d(BlocklistFile \<mapsto> f))" using A(2,3) assms(2) by blast+
  show "distinct added"
    "set added = {v. \<exists>n \<in> set names. normalizeDomain n = Inr v} - entryKey ` set (entries d BlocklistFile)"
    using add_loop_Inr [OF A(1)] assms(2) by blast+
qed

lemma RemoveBlocked_Inr:
  assumes "RemoveBlocked env names d = (Inr removed, d')" and "env_ok env d"
  shows "entries d' BlocklistFile = filter (\<lambda>e. entryKey e \<notin> entryKey ` set names) (entries d BlocklistFile)"
    and "removed = filter (\<lambda>e. entryKey e \<in> entryKey ` set names) (entries d BlocklistFile)"
    and "(removed = [] \<and> d' = d) \<or> (\<exists>f. d' = d(BlocklistFile \<mapsto> f))"
proof -
  have a: "removeEntries env BlocklistFile blocklistHeader (entries d BlocklistFile) names d = (Inr removed, d')"
    using assms(1) by (auto simp: RemoveBlocked_def Blocklist_def dest: readEntries_eq split: sum.splits)
  note A = removeEntries_Inr [OF a _ list_names(1) _ headers_ok(1)]
  show r: "removed = filter (\<lambda>e. entryKey e \<in> entryKey ` set names) (entries d BlocklistFile)" using A(1) assms(2) by blast
  show "(removed = [] \<and> d' = d) \<or> (\<exists>f. d' = d(BlocklistFile \<mapsto> f))" using A(2) assms(2) by blast
  have "filter (\<lambda>e. entryKey e \<notin> entryKey ` set names) (entries d BlocklistFile) = entries d BlocklistFile" if "removed = []"
    using that unfolding r by (simp add: filter_empty_conv filter_id_conv)
  then show "entries d' BlocklistFile = filter (\<lambda>e. entryKey e \<notin> entryKey ` set names) (entries d BlocklistFile)"
    using A(2) assms(2) by auto
qed

section \<open>The route lists\<close>

definition route_keys :: "dir \<Rightarrow> route_list \<Rightarrow> string list" where
  "route_keys d l = unique_keys {} (entries d (fst (route_file l)))"

lemma set_unique_keys: "set (unique_keys seen ls) = entryKey ` set ls - seen - {[]}"
  by (induction seen ls rule: unique_keys.induct) (auto simp: Let_def)

lemma set_route_keys: "set (route_keys d l) = entryKey ` set (entries d (fst (route_file l))) - {[]}"
  by (simp add: route_keys_def set_unique_keys)

lemma Routes_eq: "Routes env l d = Inr ks \<Longrightarrow> ks = route_keys d l"
  by (auto simp: Routes_def bind_res_eq_Inr route_keys_def dest: readEntries_eq)

definition exclusive :: "dir \<Rightarrow> bool" where
  "exclusive d \<longleftrightarrow> set (route_keys d RouteCN) \<inter> set (route_keys d RouteHK) = {}"

lemma exclusive_iff: "exclusive d \<longleftrightarrow> set (route_keys d l) \<inter> set (route_keys d (Other l)) = {}"
  by (cases l) (auto simp: exclusive_def)

lemma remove_routes_Inr:
  assumes "remove_routes env l names d = (Inr removed, d')" and "env_ok env d" and "\<forall>n \<in> set names. IsWellFormed n"
  shows "set (route_keys d' l) = set (route_keys d l) - set names" and "route_keys d' (Other l) = route_keys d (Other l)"
proof -
  have k: "entryKey ` set names = set names" using wf_name(1) assms(3) by (auto intro: image_eqI [of _ _ "_ :: string"])
  have a: "removeEntries env (fst (route_file l)) (snd (route_file l)) (route_keys d l) names d = (Inr removed, d')"
    using assms(1) by (auto simp: remove_routes_def dest: Routes_eq split: sum.splits)
  note A = removeEntries_Inr [OF a _ route_file_ok(1) _ route_file_ok(2)]
  have r: "removed = filter (\<lambda>item. entryKey item \<in> set names) (route_keys d l)" using A(1) assms(2) k by simp
  have nohit: "set (route_keys d l) \<inter> set names = {}" if "removed = []"
    using that wf_name(1) assms(3) unfolding r by (fastforce simp: filter_empty_conv)
  show "set (route_keys d' l) = set (route_keys d l) - set names"
    using A(2) assms(2) nohit unfolding set_route_keys k by auto
  show "route_keys d' (Other l) = route_keys d (Other l)"
    using A(2) assms(2) route_files_differ by (auto simp: route_keys_def)
qed

lemma RemoveRoutes_subset:
  assumes "RemoveRoutes env l names d = (Inr removed, d')" and "env_ok env d"
  shows "set (route_keys d' l) \<subseteq> set (route_keys d l)" and "route_keys d' (Other l) = route_keys d (Other l)"
proof -
  have a: "removeEntries env (fst (route_file l)) (snd (route_file l)) (route_keys d l) names d = (Inr removed, d')"
    using assms(1) by (auto simp: RemoveRoutes_def remove_routes_def dest: Routes_eq split: sum.splits if_splits)
  note A = removeEntries_Inr [OF a _ route_file_ok(1) _ route_file_ok(2)]
  show "set (route_keys d' l) \<subseteq> set (route_keys d l)" using A(2) assms(2) unfolding set_route_keys by auto
  show "route_keys d' (Other l) = route_keys d (Other l)"
    using A(2) assms(2) route_files_differ by (auto simp: route_keys_def)
qed

lemma AddRoutes_Inr:
  assumes "AddRoutes env l names d = (Inr (added, moved), d')" and "env_ok env d"
  shows "set (route_keys d' l) = set (route_keys d l) \<union> set added"
    and "set (route_keys d' (Other l)) = set (route_keys d (Other l)) - set added"
    and "\<forall>v \<in> set added. IsWellFormed v"
proof -
  obtain d1 where a: "addEntries env (fst (route_file l)) (snd (route_file l)) (route_keys d l) names d = (Inr added, d1)"
    and b: "added = [] \<and> d' = d1 \<or> remove_routes env (Other l) added d1 = (Inr moved, d')"
    using assms(1) by (auto simp: AddRoutes_def dest!: Routes_eq split: sum.splits prod.splits if_splits)
  note A = addEntries_Inr [OF a _ route_file_ok(1) _ route_file_ok(2)]
  have ok1: "env_ok env d1" using A(2) assms(2) temps_ok_upd [OF _ route_file_ok(1)] by auto
  show wf: "\<forall>v \<in> set added. IsWellFormed v" using add_loop_entries A(1) assms(2) by blast
  have "entryKey ` set added = set added" "[] \<notin> set added" using wf wf_name by (auto intro: image_eqI)
  then have l1: "set (route_keys d1 l) = set (route_keys d l) \<union> set added"
    using A(3) assms(2) unfolding set_route_keys by auto
  have o1: "route_keys d1 (Other l) = route_keys d (Other l)"
    using A(2) assms(2) route_files_differ by (auto simp: route_keys_def)
  show "set (route_keys d' l) = set (route_keys d l) \<union> set added"
    using b l1 remove_routes_Inr(2) [OF _ ok1 wf, of "Other l"] by auto
  show "set (route_keys d' (Other l)) = set (route_keys d (Other l)) - set added"
    using b o1 remove_routes_Inr(1) [OF _ ok1 wf, of "Other l"] by auto
qed

section \<open>Sequences of edits\<close>

text \<open>Any sequence of successful edits, each with its own outcome of the system calls.\<close>

inductive list_step :: "dir \<Rightarrow> dir \<Rightarrow> bool" where
  add_route: "\<lbrakk>env_ok env d; AddRoutes env l names d = (Inr r, d')\<rbrakk> \<Longrightarrow> list_step d d'"
| remove_route: "\<lbrakk>env_ok env d; RemoveRoutes env l names d = (Inr r, d')\<rbrakk> \<Longrightarrow> list_step d d'"
| add_blocked: "\<lbrakk>env_ok env d; AddBlocked env names d = (Inr r, d')\<rbrakk> \<Longrightarrow> list_step d d'"
| remove_blocked: "\<lbrakk>env_ok env d; RemoveBlocked env names d = (Inr r, d')\<rbrakk> \<Longrightarrow> list_step d d'"

lemma route_keys_blocklist [simp]: "route_keys (d(BlocklistFile \<mapsto> f)) l = route_keys d l"
  by (cases l) (simp_all add: route_keys_def)

lemma list_step_exclusive: "list_step d d' \<Longrightarrow> exclusive d \<Longrightarrow> exclusive d'"
proof (induction rule: list_step.induct)
  case (add_route env d l names r d')
  obtain added moved where "r = (added, moved)" by (cases r)
  with AddRoutes_Inr [of env l names d added moved d'] add_route show ?case
    unfolding exclusive_iff [of _ l] by auto
next
  case (remove_route env d l names r d')
  with RemoveRoutes_subset [of env l names d r d'] show ?case unfolding exclusive_iff [of _ l] by auto
next
  case (add_blocked env d names r d')
  with AddBlocked_Inr(4) [of env names d r d'] show ?case by (auto simp: exclusive_def)
next
  case (remove_blocked env d names r d')
  with RemoveBlocked_Inr(3) [of env names d r d'] show ?case by (auto simp: exclusive_def)
qed

section \<open>Properties\<close>

text \<open>C10: A write is atomic. Whichever of its system calls fail, a list file has its old contents after an
  error and exactly the new ones after a success, and no other visible file changes.\<close>

theorem WriteAtomic_atomic:
  assumes "temps_ok env d" and "visible path" and "WriteAtomic env path data mode d = (res, d')"
  shows "(case res of
      Inl _ \<Rightarrow> \<forall>p. visible p \<longrightarrow> d' p = d p
    | Inr _ \<Rightarrow> d' = d(path \<mapsto> \<lparr>f_data = data, f_mode = mode\<rparr>))"
proof (cases res)
  case (Inl e)
  then have "write_op env path data mode d = (Inl (IOError e), d')" using assms(3) by (simp add: write_op_def)
  from write_op_Inl [OF this assms(1)] Inl show ?thesis by simp
next
  case (Inr u)
  then have "write_op env path data mode d = (Inr u, d')" using assms(3) by (simp add: write_op_def)
  from write_op_Inr [OF this assms(1,2)] Inr show ?thesis by simp
qed

definition calm :: env where
  "calm = \<lparr>en_read_fails = \<lambda>_. False,
     en_io = \<lambda>_. \<lparr>io_mkdir = True, io_temp = Some ''.t'', io_write = True, io_chmod = True, io_owner = True,
       io_close = True, io_rename = True, io_remove = True\<rparr>,
     en_now = ''2025-01-01 00:00:00'', en_rfc3339 = ''2025-01-01T00:00:00Z'', en_remove_fails = False,
     en_lock = True, en_PSL_FILE = [], en_psl_files = \<lambda>_. None\<rparr>"

lemma calm_ok: "env_ok calm Map.empty"
  by (simp add: calm_def temps_ok_def)

lemma calm_read: "readEntries calm path d = Inr (entries d path)"
  by (rule readEntries_ok) (simp add: calm_def)

lemma calm_edit: "\<exists>d'. editEntries calm path header drp add d = (Inr (), d')"
proof -
  have w: "\<exists>d'. write_op calm path data mode d = (Inr (), d')" for data mode
    by (simp add: write_op_def WriteAtomic_def calm_def)
  moreover have "\<exists>d'. writeEntries calm path header add d = (Inr (), d')"
    using w by (simp add: writeEntries_def) (simp add: calm_def)
  moreover have "\<not> en_read_fails calm path" by (simp add: calm_def)
  ultimately show ?thesis by (auto simp: editEntries_def ReadFile_def split: option.splits)
qed

theorem WriteAtomic_atomic_witness:
  "snd (WriteAtomic calm ''a'' ''b'' 420 Map.empty) = [''a'' \<mapsto> \<lparr>f_data = ''b'', f_mode = 420\<rparr>]"
proof -
  have "WriteAtomic calm ''a'' ''b'' 420 Map.empty = (Inr (), snd (WriteAtomic calm ''a'' ''b'' 420 Map.empty))"
    by (simp add: WriteAtomic_def calm_def)
  from WriteAtomic_atomic [OF _ _ this] calm_ok show ?thesis by simp
qed

text \<open>Adding names to the blocklist appends the normal forms of those that are not on it, once each, and
  keeps the entries that were there; removing the added names again restores the entries.\<close>

theorem blocklist_add_remove:
  assumes "env_ok env d" and "AddBlocked env names d = (Inr added, d1)"
    and "env_ok env1 d1" and "RemoveBlocked env1 added d1 = (Inr removed, d2)"
  shows "entries d1 BlocklistFile = entries d BlocklistFile @ added \<and> distinct added \<and>
    set added = {v. \<exists>n \<in> set names. normalizeDomain n = Inr v} - entryKey ` set (entries d BlocklistFile) \<and>
    removed = added \<and> entries d2 BlocklistFile = entries d BlocklistFile"
proof -
  note A = AddBlocked_Inr [OF assms(2,1)] and R = RemoveBlocked_Inr [OF assms(4,3)]
  have "entryKey v = v" if "v \<in> set added" for v using A(3) that normalizeDomain_wf wf_name(1) by blast
  then have k: "entryKey ` set added = set added" "\<forall>e \<in> set added. entryKey e \<in> set added" by auto
  have f: "\<forall>e \<in> set (entries d BlocklistFile). entryKey e \<notin> set added" using A(3) by auto
  show ?thesis using A R k f by (simp add: filter_id_conv filter_empty_conv)
qed

theorem blocklist_add_remove_witness:
  "\<exists>d1 d2. fst (AddBlocked calm [''Ads.example.com.''] Map.empty) = Inr [''ads.example.com''] \<and>
     AddBlocked calm [''Ads.example.com.''] Map.empty = (Inr [''ads.example.com''], d1) \<and>
     entries d1 BlocklistFile = [''ads.example.com''] \<and>
     RemoveBlocked calm [''ads.example.com''] d1 = (Inr [''ads.example.com''], d2) \<and> entries d2 BlocklistFile = []"
proof -
  have n: "normalizeDomain ''Ads.example.com.'' = Inr ''ads.example.com''" by code_simp
  have "fst (AddBlocked calm [''Ads.example.com.''] Map.empty) = Inr [''ads.example.com'']"
    by (simp add: AddBlocked_def Blocklist_def readEntries_def Lines_def ReadFile_def addEntries_def n editEntries_def
        writeEntries_def write_op_def WriteAtomic_def calm_def Let_def)
  then obtain d1 where e: "AddBlocked calm [''Ads.example.com.''] Map.empty = (Inr [''ads.example.com''], d1)"
    by (metis prod.collapse)
  have ok1: "env_ok calm d1"
    using AddBlocked_Inr(4) [OF e calm_ok] temps_ok_upd [of calm Map.empty BlocklistFile] calm_ok by auto
  have b: "entries d1 BlocklistFile = [''ads.example.com'']" using AddBlocked_Inr(1) [OF e calm_ok] by (simp add: entries_def)
  have k: "entryKey ''ads.example.com'' = ''ads.example.com''" by (rule wf_name(1) [OF normalizeDomain_wf [OF n]])
  obtain d2 where "editEntries calm BlocklistFile blocklistHeader {''ads.example.com''} [] d1 = (Inr (), d2)"
    using calm_edit by blast
  then have r: "RemoveBlocked calm [''ads.example.com''] d1 = (Inr [''ads.example.com''], d2)"
    by (simp add: RemoveBlocked_def Blocklist_def calm_read removeEntries_def b k)
  from blocklist_add_remove [OF calm_ok e ok1 r] have "entries d2 BlocklistFile = entries Map.empty BlocklistFile" by blast
  then have "entries d2 BlocklistFile = []" by (simp add: entries_def)
  with e b r show ?thesis by (metis fst_conv)
qed



end
