(* ===== verification/Access_ACL.thy ===== *)
theory Access_ACL
  imports Access_Facts
begin

text \<open>
  The access list as a set of addresses, for lists of IPv4 prefixes: what is written is read back,
  adding joins address sets and removing subtracts them. The file keeps the canonical form.
\<close>

section \<open>Prefixes that survive the file\<close>

lemma Atoi_dec_digits: "n < 1000 \<Longrightarrow> Atoi (dec_digits n) = Some (int n)"
proof -
  assume n: "n < 1000"
  obtain c cs where c: "dec_digits n = c # cs" by (cases "dec_digits n") auto
  have "list_all is_digit (c # cs)" using dec_digits_digits [of n] c by simp
  then have "c \<noteq> CHR ''-''" "c \<noteq> CHR ''+''" by (auto simp: is_digit_def)
  moreover have "dec_value 0 (c # cs) = n" using dec_value_dec_digits [of n] c by simp
  ultimately show ?thesis using n \<open>list_all is_digit (c # cs)\<close> unfolding Atoi_def c by (simp del: dec_value.simps)
qed

lemma dec_digits_leading:
  "b \<le> 32 \<Longrightarrow> 1 < length (dec_digits b) \<Longrightarrow> 49 \<le> code (hd (dec_digits b)) \<and> code (hd (dec_digits b)) \<le> 57"
proof -
  assume b: "b \<le> 32" "1 < length (dec_digits b)"
  then have "\<not> b < 10" by (auto simp: dec_digits_1)
  then have "1 \<le> b div 10" "b div 10 \<le> 3" using b(1) by linarith+
  then show ?thesis using b(1) \<open>\<not> b < 10\<close> by (simp add: dec_digits_2)
qed

lemma ParsePrefix_v4:
  assumes "b \<le> 32"
  shows "ParsePrefix (v4_String w @ CHR ''/'' # dec_digits b) = Some (Prefix (Addr4 w) (int b))"
proof -
  have "CHR ''/'' \<notin> set (v4_String w)" using v4_String_digit by (fastforce simp: is_digit_def)
  moreover have "CHR ''/'' \<notin> set (dec_digits b)" using dec_digits_plain by blast
  ultimately have "Split (CHR ''/'') (v4_String w @ CHR ''/'' # dec_digits b) = [v4_String w, dec_digits b]"
    by (simp add: Split_free_append Split_free)
  then show ?thesis using assms dec_digits_leading [OF assms] Atoi_dec_digits [of b]
    by (auto simp: ParsePrefix_def Let_def ParseAddr_v4_String PrefixFrom_def)
qed

definition canonical4 :: "prefix \<Rightarrow> bool" where
  "canonical4 p \<longleftrightarrow> wf_prefix p \<and> pfx_IsValid p \<and> Masked p = p \<and> Is4 (pfx_addr p)"

lemma canonical4_prints:
  assumes "canonical4 p"
  shows "cidr_ParsePrefix (pfx_String p) = Some p" and "entry_line (pfx_String p)"
proof -
  from assms obtain w b where p: "p = Prefix (Addr4 w) (int b)" "b \<le> 32" "Masked p = p" "pfx_IsValid p"
    using valid_cases [of p] unfolding canonical4_def by (metis Is4.simps(3) prefix.sel(1))
  have s: "pfx_String p = v4_String w @ CHR ''/'' # dec_digits b"
    using p(1,4) by (simp add: pfx_String_def)
  show "cidr_ParsePrefix (pfx_String p) = Some p"
  proof -
    have "ParsePrefix (pfx_String p) = Some p" unfolding s using ParsePrefix_v4 [OF p(2), of w] by (simp only: p(1))
    moreover have "CHR ''/'' \<in> set (pfx_String p)" by (simp add: s)
    ultimately show ?thesis by (simp only: cidr_ParsePrefix_def option.map p(3) if_True)
  qed
  obtain c t where c: "v4_String w = c # t" "printable c" by (rule v4_String_Cons)
  have "is_digit (last (dec_digits b))" using dec_digits_digits [of b] by (simp add: list_all_iff)
  then have "TrimSpace (pfx_String p) = pfx_String p"
    using c unfolding s by (intro TrimSpace_id) (auto simp: is_digit_def)
  moreover have "CHR 0x0A \<notin> set (pfx_String p)"
    using v4_String_chars(4) dec_digits_digits [of b] unfolding s by (fastforce simp: list_all_iff is_digit_def)
  moreover have "\<not> HasPrefix (pfx_String p) ''#''" using v4_String_chars(5) [of c w] c unfolding s by simp
  ultimately show "entry_line (pfx_String p)" by (simp add: entry_line_def data_line_def s)
qed

lemma parse_printed: "list_all canonical4 ps \<Longrightarrow> parse_prefixes (map pfx_String ps) = Inr ps"
  by (induction ps) (simp_all add: canonical4_prints)

lemma parse_prefixes_wf: "parse_prefixes es = Inr ps \<Longrightarrow> list_all (\<lambda>p. wf_prefix p \<and> pfx_IsValid p) ps"
  by (induction es arbitrary: ps) (auto simp: bind_res_eq_Inr dest: cidr_ParsePrefix_wf split: option.splits)

section \<open>Canonical results\<close>

abbreviation v4_list :: "prefix list \<Rightarrow> bool" where
  "v4_list ps \<equiv> list_all (\<lambda>p. wf_prefix p \<and> Is4 (pfx_addr p)) ps"

lemma Is4_not_Is6: "Is4 a \<Longrightarrow> \<not> Is6 a"
  by (cases a) simp_all

lemma v4_no_v6_spans: "v4_list ps \<Longrightarrow> family_spans True ps = []"
  using Is4_not_Is6 by (auto simp: family_spans_def list_all_iff filter_empty_conv)

lemma v4_list_wf: "v4_list ps \<Longrightarrow> list_all wf_prefix ps"
  by (simp add: list_all_iff)

lemma valid_not6_Is4: "wf_prefix p \<Longrightarrow> pfx_IsValid p \<Longrightarrow> \<not> Is6 (pfx_addr p) \<Longrightarrow> Is4 (pfx_addr p)"
  by (erule valid_cases) auto

lemma prefixes_of_canonical4: "bounded False xs \<Longrightarrow> list_all canonical4 (prefixes_of False xs)"
  using prefixes_of_props [of False xs] valid_not6_Is4 by (fastforce simp: list_all_iff canonical4_def)

lemma Collapse_canonical4: "v4_list ps \<Longrightarrow> list_all canonical4 (CollapsePrefixes ps)"
  using prefixes_of_canonical4 [OF bounded_merge [OF v4_list_wf, of ps False]]
  by (simp add: CollapsePrefixes_eq spansToPrefixes_def v4_no_v6_spans mergeSpans_def [of "[]"])

lemma canonical4_v4_list: "list_all canonical4 ps \<Longrightarrow> v4_list ps"
  by (auto simp: list_all_iff canonical4_def)

lemma Subtract_canonical4:
  assumes "v4_list base" and "list_all wf_prefix remove"
  shows "list_all canonical4 (cidr_Subtract base remove)"
proof -
  let ?s = "\<lambda>is6. subtractSpans (family_spans is6 base) (family_spans is6 remove)"
  have "spans_set (?s True) = {}" "normal (?s True)"
    using assms by (simp_all add: v4_no_v6_spans subtractSpans_set subtractSpans_normal family_spans_proper)
  then have "?s True = []" using normal_empty_iff by blast
  then have "cidr_Subtract base remove = prefixes_of False (?s False)"
    by (simp add: cidr_Subtract_def splitFamilies_eq spansToPrefixes_def)
  then show ?thesis using prefixes_of_canonical4 [OF bounded_subtract [OF v4_list_wf [OF assms(1)] assms(2)]] by simp
qed

lemma Masked_Masked: "Masked (Masked p) = Masked p"
  by (cases p rule: Masked.cases) (auto simp: prefix_zero_def clear_low_def and.assoc)

lemma cidr_ParsePrefix_masked:
  assumes "cidr_ParsePrefix s = Some p"
  shows "Masked p = p"
proof (cases "CHR ''/'' \<in> set s")
  case True
  then show ?thesis using assms Masked_Masked by (auto simp: cidr_ParsePrefix_def)
next
  case False
  then obtain a where "ParseAddr s = Some a" "p = PrefixFrom (Unmap a) (int (BitLen (Unmap a)))"
    using assms by (auto simp: cidr_ParsePrefix_def split: option.splits)
  then show ?thesis by (cases "Unmap a") (auto simp: PrefixFrom_def clear_low_def prefix_zero_def)
qed

lemma parsed_canonical4:
  "parse_prefixes es = Inr ps \<Longrightarrow> list_all (\<lambda>p. Is4 (pfx_addr p)) ps \<Longrightarrow> list_all canonical4 ps"
  by (induction es arbitrary: ps)
    (auto simp: bind_res_eq_Inr canonical4_def dest: cidr_ParsePrefix_wf cidr_ParsePrefix_masked split: option.splits)

section \<open>Edits of the access list\<close>

lemma SetACL_Inr:
  assumes "SetACL env es d = (Inr ps, d')" and "env_ok env d" and "parse_prefixes es = Inr qs" and "v4_list qs"
  shows "ps = CollapsePrefixes qs" and "entries d' ACLFile = map pfx_String ps" and "\<exists>f. d' = d(ACLFile \<mapsto> f)"
proof -
  from assms(1,3) show ps: "ps = CollapsePrefixes qs" by (auto simp: SetACL_def Let_def split: sum.splits prod.splits)
  have "\<forall>e \<in> set (map pfx_String ps). entry_line e"
    using Collapse_canonical4 [OF assms(4)] canonical4_prints(2) unfolding ps by (auto simp: list_all_iff)
  moreover obtain u where "writeEntries env ACLFile aclHeader (map pfx_String ps) d = (Inr u, d')"
    using assms(1,3) ps by (auto simp: SetACL_def Let_def split: sum.splits prod.splits)
  ultimately show "entries d' ACLFile = map pfx_String ps" "\<exists>f. d' = d(ACLFile \<mapsto> f)"
    using writeEntries_Inr [of env ACLFile aclHeader _ d u d'] assms(2) headers_ok(2) by auto
qed

lemma ACL_after_SetACL:
  assumes "SetACL env es d = (Inr ps, d')" and "env_ok env d" and "parse_prefixes es = Inr qs" and "v4_list qs"
    and "\<not> en_read_fails env' ACLFile"
  shows "ACL env' d' = Inr ps"
  using SetACL_Inr [OF assms(1-4)] parse_printed [OF Collapse_canonical4 [OF assms(4)]]
  by (simp add: ACL_def readEntries_ok [OF assms(5)])

lemma ACL_Inr_canonical4: "ACL env d = Inr ps \<Longrightarrow> list_all (\<lambda>p. Is4 (pfx_addr p)) ps \<Longrightarrow> list_all canonical4 ps"
  using parsed_canonical4 by (auto simp: ACL_def bind_res_eq_Inr)

lemma ACL_readable: "ACL env d = Inr ps \<Longrightarrow> d ACLFile \<noteq> None \<Longrightarrow> \<not> en_read_fails env ACLFile"
  by (auto simp: ACL_def bind_res_eq_Inr readEntries_def Lines_def ReadFile_def split: if_splits)

section \<open>Properties\<close>

text \<open>C12: Editing an IPv4 access list. Removing entries leaves exactly the addresses that were listed less those
  of the entries, adding IPv4 entries joins theirs, and reading the file again gives the list that
  the edit returned.\<close>

theorem ACL_edits:
  assumes "env_ok env d" and "ACL env d = Inr current" and "list_all (\<lambda>p. Is4 (pfx_addr p)) current"
    and "\<not> en_read_fails env ACLFile"
  shows "(RemoveACL env es d = (Inr ps, d') \<longrightarrow>
      (\<exists>drp. parse_prefixes es = Inr drp \<and> pfxs_addrs ps = pfxs_addrs current - pfxs_addrs drp \<and> ACL env d' = Inr ps)) \<and>
    (AddACL env es d = (Inr ps, d') \<and> parse_prefixes es = Inr new \<and> list_all (\<lambda>p. Is4 (pfx_addr p)) new \<longrightarrow>
      pfxs_addrs ps = pfxs_addrs current \<union> pfxs_addrs new \<and> ACL env d' = Inr ps)"
proof (intro conjI impI)
  note cur = ACL_Inr_canonical4 [OF assms(2,3)]
  note cv4 = canonical4_v4_list [OF cur]
  { assume r: "RemoveACL env es d = (Inr ps, d')"
    then obtain drp where drp: "parse_prefixes es = Inr drp"
      and s: "SetACL env (map pfx_String (cidr_Subtract current drp)) d = (Inr ps, d')"
      using assms(2) by (auto simp: RemoveACL_def split: sum.splits)
    have wf: "list_all wf_prefix drp" using parse_prefixes_wf [OF drp] by (simp add: list_all_iff)
    note k4 = Subtract_canonical4 [OF cv4 wf]
    note p = parse_printed [OF k4] canonical4_v4_list [OF k4]
    have "pfxs_addrs ps = pfxs_addrs current - pfxs_addrs drp"
      using SetACL_Inr(1) [OF s assms(1) p] CollapsePrefixes_addrs(1) [OF v4_list_wf [OF p(2)]]
        cidr_Subtract_addrs(1) [OF v4_list_wf [OF cv4] wf] by simp
    then show "\<exists>drp. parse_prefixes es = Inr drp \<and> pfxs_addrs ps = pfxs_addrs current - pfxs_addrs drp \<and> ACL env d' = Inr ps"
      using drp ACL_after_SetACL [OF s assms(1) p assms(4)] by blast }
  { assume a: "AddACL env es d = (Inr ps, d') \<and> parse_prefixes es = Inr new \<and> list_all (\<lambda>p. Is4 (pfx_addr p)) new"
    then have s: "SetACL env (map pfx_String current @ es) d = (Inr ps, d')"
      using assms(2) by (simp add: AddACL_def)
    have "parse_prefixes (map pfx_String current @ es) = Inr (current @ new)"
      using cur a by (induction current) (simp_all add: canonical4_prints)
    moreover have v: "v4_list (current @ new)"
      using cv4 parse_prefixes_wf [of es new] a by (auto simp: list_all_iff)
    ultimately have "ps = CollapsePrefixes (current @ new)" "ACL env d' = Inr ps"
      using SetACL_Inr(1) [OF s assms(1)] ACL_after_SetACL [OF s assms(1) _ _ assms(4)] by blast+
    moreover have "pfxs_addrs (current @ new) = pfxs_addrs current \<union> pfxs_addrs new" by (auto simp: pfxs_addrs_def)
    ultimately show "pfxs_addrs ps = pfxs_addrs current \<union> pfxs_addrs new" "ACL env d' = Inr ps"
      using CollapsePrefixes_addrs(1) [OF v4_list_wf [OF v]] by simp_all }
qed

theorem ACL_edits_witness:
  "\<exists>ps d'. AddACL calm [''10.0.0.0/8''] Map.empty = (Inr ps, d') \<and>
     pfxs_addrs ps = pfxs_addrs [] \<union> pfxs_addrs [Prefix (Addr4 0x0a000000) 8] \<and> ACL calm d' = Inr ps"
proof -
  have c: "ACL calm Map.empty = Inr []" by (simp add: ACL_def calm_read entries_def)
  have n: "parse_prefixes [''10.0.0.0/8''] = Inr [Prefix (Addr4 0x0a000000) 8]" by code_simp
  have w: "\<exists>d'. writeEntries calm path header es d = (Inr (), d')" for path header es d
    by (simp add: writeEntries_def write_op_def WriteAtomic_def calm_def)
  obtain d' where "writeEntries calm ACLFile aclHeader (map pfx_String (CollapsePrefixes [Prefix (Addr4 0x0a000000) 8])) Map.empty = (Inr (), d')"
    using w by blast
  then have a: "AddACL calm [''10.0.0.0/8''] Map.empty = (Inr (CollapsePrefixes [Prefix (Addr4 0x0a000000) 8]), d')"
    by (simp add: AddACL_def c SetACL_def n del: parse_prefixes.simps)
  have "\<not> en_read_fails calm ACLFile" by (simp add: calm_def)
  with ACL_edits [OF calm_ok c, of "[''10.0.0.0/8'']"] a n show ?thesis by fastforce
qed

end
