(* ===== verification/DNS_Wire.thy ===== *)
theory DNS_Wire
  imports Netip
begin

text \<open>
  Package \<open>internal/dnswire\<close>: reading and writing DNS messages (\<open>message.go\<close>) and the client
  subnet option (\<open>ecs.go\<close>). A buffer is a list of bytes, the parser its buffer and offset; every
  read tests its bounds before it touches the buffer, as the code does, so the model never
  indexes outside it. Errors are values of \<open>wire_error\<close>.
\<close>

section \<open>Messages\<close>

definition TypeA :: u16 where "TypeA = 1"
definition TypeNS :: u16 where "TypeNS = 2"
definition TypeCNAME :: u16 where "TypeCNAME = 5"
definition TypeSOA :: u16 where "TypeSOA = 6"
definition TypeAAAA :: u16 where "TypeAAAA = 28"
definition TypeOPT :: u16 where "TypeOPT = 41"
definition TypeHTTPS :: u16 where "TypeHTTPS = 65"
definition ClassIN :: u16 where "ClassIN = 1"

lemmas type_defs = TypeA_def TypeNS_def TypeCNAME_def TypeSOA_def TypeAAAA_def TypeOPT_def
  TypeHTTPS_def ClassIN_def

definition RCodeNoError :: u8 where "RCodeNoError = 0"
definition RCodeNXDomain :: u8 where "RCodeNXDomain = 3"

definition maxNamePointers :: nat where "maxNamePointers = 32"
definition maxNameLength :: nat where "maxNameLength = 255"
definition maxLabelLength :: nat where "maxLabelLength = 63"
definition udpPayloadSize :: u16 where "udpPayloadSize = 1232"

lemmas limit_defs = maxNamePointers_def maxNameLength_def maxLabelLength_def

datatype wire_error = ErrTruncatedMessage | ErrBadName | ErrNamePointerLoop | ErrBadSubnet

record question =
  q_Name :: string
  q_Type :: u16
  q_Class :: u16

record rr =
  rr_Name :: string
  rr_Type :: u16
  rr_Class :: u16
  rr_TTL :: u32
  rr_Data :: "u8 list"
  rr_RDataAt :: nat

record msg =
  m_ID :: u16
  m_Response :: bool
  m_Truncated :: bool
  m_RCode :: u8
  m_Questions :: "question list"
  m_Answers :: "rr list"
  m_Authorities :: "rr list"
  m_Additionals :: "rr list"

section \<open>Type names\<close>

definition typeNames :: "(u16 \<times> string) list" where
  "typeNames =
     [(1, ''A''), (2, ''NS''), (5, ''CNAME''), (6, ''SOA''), (12, ''PTR''), (15, ''MX''), (16, ''TXT''),
      (28, ''AAAA''), (33, ''SRV''), (35, ''NAPTR''), (43, ''DS''), (46, ''RRSIG''), (47, ''NSEC''),
      (48, ''DNSKEY''), (50, ''NSEC3''), (52, ''TLSA''), (64, ''SVCB''), (65, ''HTTPS''), (99, ''SPF''),
      (255, ''ANY''), (257, ''CAA'')]"

definition TypeName :: "u16 \<Rightarrow> string" where
  "TypeName t = (case map_of typeNames t of Some name \<Rightarrow> name | None \<Rightarrow> ''TYPE'' @ dec_digits (unat t))"

text \<open>
  The loop of \<open>TypeCode\<close> ranges over a Go map in no fixed order; the names of the table are
  distinct, so at most one entry matches and the order does not matter.
\<close>

definition TypeCode :: "string \<Rightarrow> u16 option" where
  "TypeCode name =
     (let upper = ToUpper (TrimSpace name) in
      case find (\<lambda>(t, known). known = upper) typeNames of
        Some (t, _) \<Rightarrow> Some t
      | None \<Rightarrow>
          let digits = (if HasPrefix upper ''TYPE'' then drop 4 upper else upper) in
          map_option word_of_nat (ParseUint 16 digits))"

section \<open>Writing\<close>

definition byte_of_char :: "char \<Rightarrow> u8" where
  "byte_of_char c = word_of_nat (of_char c)"

definition char_of_byte :: "u8 \<Rightarrow> char" where
  "char_of_byte b = char_of (unat b)"

definition AppendUint16 :: "u8 list \<Rightarrow> u16 \<Rightarrow> u8 list" where
  "AppendUint16 b v = b @ octets 2 v"

definition AppendUint32 :: "u8 list \<Rightarrow> u32 \<Rightarrow> u8 list" where
  "AppendUint32 b v = b @ octets 4 v"

definition NormalizeName :: "string \<Rightarrow> string" where
  "NormalizeName name = ToLower (TrimRight (CHR ''.'') (TrimSpace name))"

fun append_labels :: "u8 list \<Rightarrow> string list \<Rightarrow> wire_error + u8 list" where
  "append_labels b [] = Inr b"
| "append_labels b (label # rest) =
     (if label = [] \<or> maxLabelLength < length label then Inl ErrBadName
      else append_labels ((b @ [word_of_nat (length label)]) @ map byte_of_char label) rest)"

definition appendName :: "u8 list \<Rightarrow> string \<Rightarrow> wire_error + u8 list" where
  "appendName b name0 =
     (let name = NormalizeName name0 in
      if name = [] then Inr (b @ [0])
      else if maxNameLength < length name then Inl ErrBadName
      else bind_res (append_labels b (Split (CHR ''.'') name)) (\<lambda>b. Inr (b @ [0])))"

definition query_header :: "u16 \<Rightarrow> u8 list" where
  "query_header qid =
     AppendUint16 (AppendUint16 (AppendUint16 (AppendUint16 (AppendUint16 (AppendUint16 [] qid) 0x0100)
       1) 0) 0) 1"

definition query_tail :: "u8 list \<Rightarrow> u16 \<Rightarrow> u16 \<Rightarrow> u8 list" where
  "query_tail b qtype rdlen =
     AppendUint16 (AppendUint32 (AppendUint16 (AppendUint16 (AppendUint16 (AppendUint16 b qtype) ClassIN @ [0])
       TypeOPT) udpPayloadSize) 0) rdlen"

definition BuildQuery :: "u16 \<Rightarrow> string \<Rightarrow> u16 \<Rightarrow> wire_error + u8 list" where
  "BuildQuery qid name qtype =
     bind_res (appendName (query_header qid) name) (\<lambda>b. Inr (query_tail b qtype 0))"

section \<open>Reading\<close>

record parser =
  p_buf :: "u8 list"
  p_off :: nat

definition BE_Uint16 :: "u8 list \<Rightarrow> u16" where
  "BE_Uint16 bs = from_octets (take 2 bs)"

definition BE_Uint32 :: "u8 list \<Rightarrow> u32" where
  "BE_Uint32 bs = from_octets (take 4 bs)"

definition p_uint16 :: "parser \<Rightarrow> wire_error + (u16 \<times> parser)" where
  "p_uint16 p =
     (if length (p_buf p) < p_off p + 2 then Inl ErrTruncatedMessage
      else Inr (BE_Uint16 (drop (p_off p) (p_buf p)), p\<lparr>p_off := p_off p + 2\<rparr>))"

definition p_uint32 :: "parser \<Rightarrow> wire_error + (u32 \<times> parser)" where
  "p_uint32 p =
     (if length (p_buf p) < p_off p + 4 then Inl ErrTruncatedMessage
      else Inr (BE_Uint32 (drop (p_off p) (p_buf p)), p\<lparr>p_off := p_off p + 4\<rparr>))"

text \<open>
  The loop of \<open>name\<close>, with the variables of the code; \<open>end\<close> is \<open>None\<close> for \<open>-1\<close>. It terminates
  since a pointer uses up one of \<open>maxNamePointers\<close> and a label moves the offset on.
\<close>

function name_loop :: "u8 list \<Rightarrow> string list \<Rightarrow> nat \<Rightarrow> nat option \<Rightarrow> nat \<Rightarrow> nat \<Rightarrow> wire_error + (string \<times> nat)" where
  "name_loop buf labels off ende pointers tot =
     (if length buf \<le> off then Inl ErrTruncatedMessage
      else
        let b = buf ! off; n = unat b in
        if n = 0 then
          Inr (ToLower (Join (CHR ''.'') labels), case ende of None \<Rightarrow> off + 1 | Some e \<Rightarrow> e)
        else if b AND 0xC0 = 0xC0 then
          if length buf < off + 2 then Inl ErrTruncatedMessage
          else
            let target = unat (BE_Uint16 (drop off buf) AND 0x3FFF);
                ende' = (case ende of None \<Rightarrow> Some (off + 2) | Some e \<Rightarrow> Some e)
            in if maxNamePointers < pointers + 1 \<or> off \<le> target then Inl ErrNamePointerLoop
               else name_loop buf labels target ende' (pointers + 1) tot
        else if b AND 0xC0 \<noteq> 0 then Inl ErrBadName
        else if length buf < off + 1 + n then Inl ErrTruncatedMessage
        else if maxNameLength < tot + (n + 1) then Inl ErrBadName
        else name_loop buf (labels @ [map char_of_byte (take n (drop (off + 1) buf))])
               (off + 1 + n) ende pointers (tot + (n + 1)))"
  by pat_completeness auto
termination
  by (relation "measures [\<lambda>(buf, labels, off, ende, pointers, tot). maxNamePointers - pointers,
        \<lambda>(buf, labels, off, ende, pointers, tot). length buf - off]") auto

declare name_loop.simps [simp del]

definition p_name :: "parser \<Rightarrow> wire_error + (string \<times> parser)" where
  "p_name p =
     bind_res (name_loop (p_buf p) [] (p_off p) None 0 0) (\<lambda>(s, off). Inr (s, p\<lparr>p_off := off\<rparr>))"

definition p_question :: "parser \<Rightarrow> wire_error + (question \<times> parser)" where
  "p_question p =
     bind_res (p_name p) (\<lambda>(name, p).
     bind_res (p_uint16 p) (\<lambda>(qtype, p).
     bind_res (p_uint16 p) (\<lambda>(qclass, p).
     Inr (\<lparr>q_Name = name, q_Type = qtype, q_Class = qclass\<rparr>, p))))"

definition p_rr :: "parser \<Rightarrow> wire_error + (rr \<times> parser)" where
  "p_rr p =
     bind_res (p_name p) (\<lambda>(name, p).
     bind_res (p_uint16 p) (\<lambda>(rtype, p).
     bind_res (p_uint16 p) (\<lambda>(rclass, p).
     bind_res (p_uint32 p) (\<lambda>(ttl, p).
     bind_res (p_uint16 p) (\<lambda>(len, p).
     if length (p_buf p) < p_off p + unat len then Inl ErrTruncatedMessage
     else Inr (\<lparr>rr_Name = name, rr_Type = rtype, rr_Class = rclass, rr_TTL = ttl,
                rr_Data = take (unat len) (drop (p_off p) (p_buf p)), rr_RDataAt = p_off p\<rparr>,
               p\<lparr>p_off := p_off p + unat len\<rparr>))))))"

fun questions_loop :: "nat \<Rightarrow> parser \<Rightarrow> wire_error + (question list \<times> parser)" where
  "questions_loop 0 p = Inr ([], p)"
| "questions_loop (Suc n) p =
     bind_res (p_question p) (\<lambda>(q, p).
     bind_res (questions_loop n p) (\<lambda>(qs, p). Inr (q # qs, p)))"

text \<open>
  The records of one section, and the error that ended it early with the records read before
  it: the caller keeps them where the message is truncated.
\<close>

fun section_loop :: "nat \<Rightarrow> parser \<Rightarrow> rr list \<times> (wire_error + parser)" where
  "section_loop 0 p = ([], Inr p)"
| "section_loop (Suc n) p =
     (case p_rr p of
        Inl e \<Rightarrow> ([], Inl e)
      | Inr (r, p) \<Rightarrow> let (rs, res) = section_loop n p in (r # rs, res))"

definition sections :: "u16 \<Rightarrow> u16 \<Rightarrow> u16 \<Rightarrow> msg \<Rightarrow> parser \<Rightarrow> wire_error + msg" where
  "sections an ns ar m p =
     (let (as, r1) = section_loop (unat an) p; m = m\<lparr>m_Answers := as\<rparr> in
      case r1 of
        Inl e \<Rightarrow> if m_Truncated m then Inr m else Inl e
      | Inr p \<Rightarrow>
          let (us, r2) = section_loop (unat ns) p; m = m\<lparr>m_Authorities := us\<rparr> in
          case r2 of
            Inl e \<Rightarrow> if m_Truncated m then Inr m else Inl e
          | Inr p \<Rightarrow>
              let (ds, r3) = section_loop (unat ar) p; m = m\<lparr>m_Additionals := ds\<rparr> in
              case r3 of
                Inl e \<Rightarrow> if m_Truncated m then Inr m else Inl e
              | Inr p \<Rightarrow> Inr m)"

text \<open>
  The header's reads ignore their errors; the length test before them excludes any.
\<close>

definition head16 :: "parser \<Rightarrow> u16 \<times> parser" where
  "head16 p = (case p_uint16 p of Inl _ \<Rightarrow> (0, p) | Inr r \<Rightarrow> r)"

definition Unpack :: "u8 list \<Rightarrow> wire_error + msg" where
  "Unpack buf =
     (if length buf < 12 then Inl ErrTruncatedMessage
      else
        let p = \<lparr>p_buf = buf, p_off = 0\<rparr>;
            (mid, p) = head16 p; (flags, p) = head16 p; (qd, p) = head16 p;
            (an, p) = head16 p; (ns, p) = head16 p; (ar, p) = head16 p;
            m = \<lparr>m_ID = mid, m_Response = flags AND 0x8000 \<noteq> 0, m_Truncated = flags AND 0x0200 \<noteq> 0,
                 m_RCode = ucast (flags AND 0x000F), m_Questions = [], m_Answers = [],
                 m_Authorities = [], m_Additionals = []\<rparr>
        in bind_res (questions_loop (unat qd) p) (\<lambda>(qs, p). sections an ns ar (m\<lparr>m_Questions := qs\<rparr>) p))"

definition NameInRDATA :: "u8 list \<Rightarrow> int \<Rightarrow> int \<Rightarrow> wire_error + string" where
  "NameInRDATA msg rdataAt at =
     (if rdataAt < 0 \<or> at < 0 \<or> int (length msg) < rdataAt + at then Inl ErrTruncatedMessage
      else bind_res (p_name \<lparr>p_buf = msg, p_off = nat (rdataAt + at)\<rparr>) (\<lambda>(name, _). Inr name))"

definition rr_addr :: "rr \<Rightarrow> nat \<Rightarrow> addr option" where
  "rr_addr r want =
     (if length (rr_Data r) \<noteq> want then None else map_option Unmap (AddrFromSlice (rr_Data r)))"

definition rr_A :: "rr \<Rightarrow> addr option" where
  "rr_A r = (if rr_Type r \<noteq> TypeA then None else rr_addr r 4)"

definition rr_AAAA :: "rr \<Rightarrow> addr option" where
  "rr_AAAA r = (if rr_Type r \<noteq> TypeAAAA then None else rr_addr r 16)"

definition TargetName :: "rr \<Rightarrow> u8 list \<Rightarrow> string option" where
  "TargetName r msg =
     (if rr_Type r = TypeNS \<or> rr_Type r = TypeCNAME \<or> rr_Type r = TypeSOA then
        case NameInRDATA msg (int (rr_RDataAt r)) 0 of
          Inl _ \<Rightarrow> None
        | Inr name \<Rightarrow> if name = [] then None else Some name
      else None)"

section \<open>The client subnet option\<close>

definition OptCodeClientSubnet :: u16 where "OptCodeClientSubnet = 8"
definition familyIPv4 :: u16 where "familyIPv4 = 1"
definition familyIPv6 :: u16 where "familyIPv6 = 2"

definition subnet_option :: "u16 \<Rightarrow> int \<Rightarrow> nat \<Rightarrow> u8 list \<Rightarrow> u8 list" where
  "subnet_option family bits significant raw =
     (AppendUint16 (AppendUint16 (AppendUint16 [] OptCodeClientSubnet) (word_of_nat (4 + significant)))
        family @ [word_of_int bits, 0]) @ take significant raw"

definition BuildQueryWithSubnet :: "u16 \<Rightarrow> string \<Rightarrow> u16 \<Rightarrow> prefix \<Rightarrow> wire_error + u8 list" where
  "BuildQueryWithSubnet qid name qtype subnet0 =
     (if \<not> pfx_IsValid subnet0 then Inl ErrBadSubnet
      else
        let subnet = Masked subnet0;
            addr = Unmap (pfx_addr subnet);
            family = (if Is6 addr then familyIPv6 else familyIPv4);
            bits = pfx_bits subnet
        in if bits < 0 \<or> int (BitLen addr) < bits then Inl ErrBadSubnet
           else
             let significant = nat ((bits + 7) div 8);
                 raw = AsSlice addr
             in if length raw < significant then Inl ErrBadSubnet
                else
                  let option = subnet_option family bits significant raw
                  in bind_res (appendName (query_header qid) name) (\<lambda>b.
                       Inr (query_tail b qtype (word_of_nat (length option)) @ option)))"

record client_subnet =
  cs_Prefix :: prefix
  cs_Scope :: nat

text \<open>\<open>copy(buf, body[4:])\<close> fills a buffer of \<open>size\<close> zeroes from the front.\<close>

definition decodeClientSubnet :: "u8 list \<Rightarrow> client_subnet option" where
  "decodeClientSubnet body =
     (let family = BE_Uint16 body;
          sourceBits = unat (body ! 2);
          scope = unat (body ! 3)
      in if family \<noteq> familyIPv6 \<and> family \<noteq> familyIPv4 then None
         else
           let size = (if family = familyIPv6 then 16 else 4);
               src = take size (drop 4 body);
               buf = src @ replicate (size - length src) 0
           in case AddrFromSlice buf of
                None \<Rightarrow> None
              | Some addr \<Rightarrow>
                  if BitLen addr < sourceBits then None
                  else Some \<lparr>cs_Prefix = PrefixFrom addr (int sourceBits), cs_Scope = scope\<rparr>)"

text \<open>
  The options of one record: \<open>Inl\<close> where the loop returns from the function, \<open>Inr ()\<close> where it
  goes on with the next record.
\<close>

function options_loop :: "u8 list \<Rightarrow> client_subnet option + unit" where
  "options_loop data =
     (if length data < 4 then Inr ()
      else
        let opt = BE_Uint16 data; len = unat (BE_Uint16 (drop 2 data)) in
        if length data < 4 + len then Inl None
        else if opt = OptCodeClientSubnet \<and> 4 \<le> len then
          Inl (decodeClientSubnet (take len (drop 4 data)))
        else options_loop (drop (4 + len) data))"
  by pat_completeness auto
termination
  by (relation "measure length") auto

declare options_loop.simps [simp del]

fun subnet_loop :: "rr list \<Rightarrow> client_subnet option" where
  "subnet_loop [] = None"
| "subnet_loop (r # rs) =
     (if rr_Type r \<noteq> TypeOPT then subnet_loop rs
      else case options_loop (rr_Data r) of Inl res \<Rightarrow> res | Inr _ \<Rightarrow> subnet_loop rs)"

definition ClientSubnet :: "msg \<Rightarrow> client_subnet option" where
  "ClientSubnet m = subnet_loop (m_Additionals m)"

end
