(* ===== verification/DNS_Roundtrip.thy ===== *)
theory DNS_Roundtrip
  imports DNS_Wire
begin

text \<open>
  Package \<open>internal/dnswire\<close>, continued: what was written is read back (names, queries, the
  client subnet option), what is read lies inside the buffer, and the bounds of decoded names.
\<close>

declare add_2_eq_Suc [simp del] add_2_eq_Suc' [simp del]

section \<open>Octets\<close>

lemma octet_index:
  fixes i n :: nat
  assumes "i < 8 * n"
  shows "n - 1 - i div 8 < n" and "8 * (n - 1 - (n - 1 - i div 8)) + i mod 8 = i"
proof -
  have d: "i div 8 < n" using assms by (simp add: less_mult_imp_div_less mult.commute)
  then show "n - 1 - i div 8 < n" by simp
  from d have "n - 1 - (n - 1 - i div 8) = i div 8" by simp
  then show "8 * (n - 1 - (n - 1 - i div 8)) + i mod 8 = i" by simp
qed

text \<open>
  A masked address is recovered from its significant octets padded with zeroes; with all
  octets significant this is the round trip of the octets themselves.
\<close>

lemma from_octets_padded:
  fixes w :: "'a::len word"
  assumes len: "LENGTH('a) = 8 * n" and b: "b \<le> 8 * n" and m: "w AND NOT (mask (8 * n - b)) = w"
    and k: "k = (b + 7) div 8"
  shows "from_octets (take k (octets n w) @ replicate (n - k) 0) = w"
proof (rule bit_word_eqI)
  fix i assume "i < LENGTH('a)"
  then have i: "i < 8 * n" using len by simp
  let ?j = "n - 1 - i div 8"
  let ?bs = "take k (octets n w) @ replicate (n - k) 0"
  have kn: "k \<le> n" and bk: "b \<le> 8 * k" using b k by auto
  then have l: "length ?bs = n" by simp
  have "bit (from_octets ?bs :: 'a word) i \<longleftrightarrow> bit (?bs ! ?j) (i mod 8)"
    using i \<open>i < LENGTH('a)\<close> by (simp only: bit_from_octets l) simp
  also have "\<dots> \<longleftrightarrow> bit w i"
  proof (cases "?j < k")
    case True
    then have "?bs ! ?j = octets n w ! ?j" using kn by (simp add: nth_append)
    also have "\<dots> = ucast (drop_bit (8 * (n - 1 - ?j)) w)"
      using octet_index(1) [OF i] by (rule octets_nth)
    finally have e: "?bs ! ?j = ucast (drop_bit (8 * (n - 1 - ?j)) w)" .
    have "i mod 8 < LENGTH(8)" by simp
    then show ?thesis unfolding e using octet_index(2) [OF i]
      by (simp only: bit_unsigned_iff bit_drop_bit_eq comp_def) (auto dest: bit_imp_le_length)
  next
    case False
    then have "?bs ! ?j = 0" using kn octet_index(1) [OF i] by (simp add: nth_append)
    moreover have "i < 8 * n - b"
    proof -
      have "i div 8 < n" using i by (simp add: less_mult_imp_div_less mult.commute)
      then have "i div 8 + k + 1 \<le> n" using False by linarith
      then have "8 * (i div 8) + 8 * k + 8 \<le> 8 * n" by linarith
      moreover have "i < 8 * (i div 8) + 8" by simp
      ultimately show ?thesis using bk by linarith
    qed
    then have "\<not> bit (w AND NOT (mask (8 * n - b))) i" by (auto simp: bit_simps)
    ultimately show ?thesis using m by simp
  qed
  finally show "bit (from_octets ?bs :: 'a word) i = bit w i" .
qed

lemma from_octets_octets: "LENGTH('a) = 8 * n \<Longrightarrow> from_octets (octets n w) = (w :: 'a::len word)"
  using from_octets_padded [of n "8 * n" w n] by simp

section \<open>Reading what was written\<close>

lemma p_uint16_at:
  assumes "drop off buf = octets 2 v @ rest"
  shows "p_uint16 \<lparr>p_buf = buf, p_off = off\<rparr> = Inr (v, \<lparr>p_buf = buf, p_off = off + 2\<rparr>)"
    and "drop (off + 2) buf = rest"
proof -
  have "length (drop off buf) = 2 + length rest" unfolding assms by simp
  then have "off + 2 \<le> length buf" by simp
  then show "p_uint16 \<lparr>p_buf = buf, p_off = off\<rparr> = Inr (v, \<lparr>p_buf = buf, p_off = off + 2\<rparr>)"
    by (simp add: p_uint16_def BE_Uint16_def assms from_octets_octets)
  have "drop (off + 2) buf = drop 2 (drop off buf)" by (simp add: add.commute)
  then show "drop (off + 2) buf = rest" by (simp add: assms)
qed

lemma p_uint32_at:
  assumes "drop off buf = octets 4 v @ rest"
  shows "p_uint32 \<lparr>p_buf = buf, p_off = off\<rparr> = Inr (v, \<lparr>p_buf = buf, p_off = off + 4\<rparr>)"
    and "drop (off + 4) buf = rest"
proof -
  have "length (drop off buf) = 4 + length rest" unfolding assms by simp
  then have "off + 4 \<le> length buf" by simp
  then show "p_uint32 \<lparr>p_buf = buf, p_off = off\<rparr> = Inr (v, \<lparr>p_buf = buf, p_off = off + 4\<rparr>)"
    by (simp add: p_uint32_def BE_Uint32_def assms from_octets_octets)
  have "drop (off + 4) buf = drop 4 (drop off buf)" by (simp add: add.commute)
  then show "drop (off + 4) buf = rest" by (simp add: assms)
qed

lemma unat_byte: "unat (b :: u8) < 256"
  using unsigned_less [of b] by simp

lemma char_byte [simp]: "char_of_byte (byte_of_char c) = c"
  by (simp add: char_of_byte_def byte_of_char_def unsigned_of_nat take_bit_eq_mod)

lemma chars_bytes [simp]: "map (char_of_byte \<circ> byte_of_char) s = s"
  by (simp add: comp_def)

definition wire_label :: "string \<Rightarrow> bool" where
  "wire_label l \<longleftrightarrow> l \<noteq> [] \<and> length l \<le> 63"

definition enc_labels :: "string list \<Rightarrow> u8 list" where
  "enc_labels ls = concat (map (\<lambda>l. word_of_nat (length l) # map byte_of_char l) ls)"

lemma append_labels_eq:
  "append_labels b ls =
     (if \<forall>l \<in> set ls. wire_label l then Inr (b @ enc_labels ls) else Inl ErrBadName)"
  by (induction ls arbitrary: b) (auto simp: enc_labels_def limit_defs wire_label_def)

lemma length_enc_labels: "length (enc_labels ls) = sum_list (map (\<lambda>l. length l + 1) ls)"
  by (induction ls) (simp_all add: enc_labels_def)

lemma label_length_byte:
  assumes "wire_label l"
  shows "unat (word_of_nat (length l) :: u8) = length l" and "(word_of_nat (length l) :: u8) AND 0xC0 = 0"
proof -
  show u: "unat (word_of_nat (length l) :: u8) = length l"
    using assms by (simp add: wire_label_def unsigned_of_nat take_bit_eq_mod)
  let ?b = "word_of_nat (length l) :: u8"
  have "unat (?b AND mask 6) = unat ?b" unfolding unat_and_mask u using assms by (simp add: wire_label_def)
  then have "?b = ?b AND mask 6" by (simp add: word_unat_eq_iff)
  then have "?b AND 0xC0 = ?b AND (mask 6 AND 0xC0)" by (metis and.assoc)
  also have "(mask 6 AND 0xC0 :: u8) = 0" by (simp add: mask_eq_exp_minus_1)
  finally show "?b AND 0xC0 = 0" by simp
qed

text \<open>
  The name loop on encoded labels returns them joined, or rejects them where they take more than
  255 bytes (the final zero not counted).
\<close>

lemma name_loop_labels:
  assumes "drop off buf = enc_labels ls @ 0 # rest" and "\<forall>l \<in> set ls. wire_label l" and "tot \<le> 255"
  shows "name_loop buf acc off None ptrs tot =
    (if tot + length (enc_labels ls) \<le> 255
     then Inr (ToLower (Join (CHR ''.'') (acc @ ls)), off + length (enc_labels ls) + 1)
     else Inl ErrBadName)"
  using assms
proof (induction ls arbitrary: acc off tot)
  case Nil
  then have d: "drop off buf = 0 # rest" by (simp add: enc_labels_def)
  then have lt: "off < length buf" by (metis drop_all leI list.distinct(1))
  moreover have "buf ! off = 0" using d lt by (metis hd_drop_conv_nth list.sel(1))
  ultimately show ?case using Nil(3) by (subst name_loop.simps) (simp add: enc_labels_def)
next
  case (Cons l ls)
  let ?n = "length l"
  have wl: "wire_label l" using Cons.prems(2) by simp
  have d: "drop off buf = word_of_nat ?n # map byte_of_char l @ enc_labels ls @ 0 # rest"
    using Cons.prems(1) by (simp add: enc_labels_def)
  then have lt: "off < length buf" by (metis drop_all leI list.distinct(1))
  have b: "buf ! off = word_of_nat ?n" using d lt by (metis hd_drop_conv_nth list.sel(1))
  have d1: "drop (off + 1) buf = map byte_of_char l @ enc_labels ls @ 0 # rest"
    using d by (metis drop_Suc drop_drop list.sel(3) Suc_eq_plus1 add.commute drop_tl)
  have "length (drop (off + 1) buf) = ?n + length (enc_labels ls) + 1 + length rest"
    unfolding d1 by simp
  then have len: "\<not> length buf < off + 1 + ?n" by simp
  have d2: "drop (off + 1 + ?n) buf = enc_labels ls @ 0 # rest"
  proof -
    have "drop (off + 1 + ?n) buf = drop ?n (drop (off + 1) buf)" by (simp add: add.commute)
    also have "\<dots> = enc_labels ls @ 0 # rest" unfolding d1 by simp
    finally show ?thesis .
  qed
  have t: "map char_of_byte (take ?n (drop (off + 1) buf)) = l" unfolding d1 by simp
  have sz: "length (enc_labels (l # ls)) = ?n + 1 + length (enc_labels ls)" by (simp add: enc_labels_def)
  have ne: "?n \<noteq> 0" using wl by (simp add: wire_label_def)
  have step: "name_loop buf acc off None ptrs tot =
      (if 255 < tot + (?n + 1) then Inl ErrBadName
       else name_loop buf (acc @ [l]) (off + 1 + ?n) None ptrs (tot + (?n + 1)))"
    using lt len ne by (subst name_loop.simps)
      (simp add: Let_def b label_length_byte [OF wl] t [simplified] limit_defs not_le)
  show ?case
  proof (cases "255 < tot + (?n + 1)")
    case True
    then show ?thesis using sz by (simp add: step)
  next
    case False
    then have "name_loop buf (acc @ [l]) (off + 1 + ?n) None ptrs (tot + (?n + 1)) =
      (if tot + (?n + 1) + length (enc_labels ls) \<le> 255
       then Inr (ToLower (Join (CHR ''.'') ((acc @ [l]) @ ls)), off + 1 + ?n + length (enc_labels ls) + 1)
       else Inl ErrBadName)"
      using Cons.prems(2) d2 by (intro Cons.IH) auto
    with False show ?thesis by (simp add: step sz add.assoc)
  qed
qed

lemma appendName_eq:
  "appendName b name =
     (let n = NormalizeName name in
      if n = [] then Inr (b @ [0])
      else if length n \<le> 255 \<and> (\<forall>l \<in> set (Split (CHR ''.'') n). wire_label l)
        then Inr (b @ enc_labels (Split (CHR ''.'') n) @ [0])
      else Inl ErrBadName)"
  by (auto simp: appendName_def append_labels_eq limit_defs Let_def)

lemma name_encoding:
  assumes "appendName b name = Inr b'"
  obtains ls where "b' = b @ enc_labels ls @ [0]" "\<forall>l \<in> set ls. wire_label l"
    "Join (CHR ''.'') ls = NormalizeName name"
    "length (enc_labels ls) = (if NormalizeName name = [] then 0 else length (NormalizeName name) + 1)"
proof (cases "NormalizeName name = []")
  case True
  with assms that [of "[]"] show ?thesis by (simp add: appendName_eq Let_def enc_labels_def)
next
  case False
  let ?ls = "Split (CHR ''.'') (NormalizeName name)"
  have "length (enc_labels ?ls) = length (NormalizeName name) + 1"
    using length_Join [of ?ls "CHR ''.''"] by (simp add: length_enc_labels Join_Split)
  with assms False that [of ?ls] show ?thesis
    by (auto simp: appendName_eq Let_def Join_Split split: if_splits)
qed

lemma p_name_appendName:
  assumes "appendName b name = Inr b'"
  shows "p_name \<lparr>p_buf = b' @ rest, p_off = length b\<rparr> =
    (if length (NormalizeName name) \<le> 254
     then Inr (ToLower (NormalizeName name), \<lparr>p_buf = b' @ rest, p_off = length b'\<rparr>)
     else Inl ErrBadName)"
proof -
  obtain ls where b': "b' = b @ enc_labels ls @ [0]" and wl: "\<forall>l \<in> set ls. wire_label l"
    and j: "Join (CHR ''.'') ls = NormalizeName name"
    and len: "length (enc_labels ls) = (if NormalizeName name = [] then 0 else length (NormalizeName name) + 1)"
    using name_encoding [OF assms] by blast
  have "drop (length b) (b' @ rest) = enc_labels ls @ 0 # rest" by (simp add: b')
  from name_loop_labels [OF this wl, of 0 "[]" 0] show ?thesis
    using len j by (auto simp: p_name_def b')
qed

section \<open>Queries\<close>

text \<open>The message a built query is read as: one question and one OPT record.\<close>

definition query_msg :: "u16 \<Rightarrow> string \<Rightarrow> u16 \<Rightarrow> u8 list \<Rightarrow> nat \<Rightarrow> msg" where
  "query_msg qid name qtype option at =
     \<lparr>m_ID = qid, m_Response = False, m_Truncated = False, m_RCode = 0,
      m_Questions = [\<lparr>q_Name = name, q_Type = qtype, q_Class = ClassIN\<rparr>], m_Answers = [], m_Authorities = [],
      m_Additionals = [\<lparr>rr_Name = [], rr_Type = TypeOPT, rr_Class = udpPayloadSize, rr_TTL = 0,
                        rr_Data = option, rr_RDataAt = at\<rparr>]\<rparr>"

lemma head16_at:
  assumes "drop off buf = octets 2 v @ rest"
  shows "head16 \<lparr>p_buf = buf, p_off = off\<rparr> = (v, \<lparr>p_buf = buf, p_off = off + 2\<rparr>)"
  using p_uint16_at(1) [OF assms] by (simp add: head16_def)

lemma query_header_eq:
  "query_header qid = octets 2 qid @ octets 2 (0x0100 :: u16) @ octets 2 (1 :: u16) @ octets 2 (0 :: u16) @
     octets 2 (0 :: u16) @ octets 2 (1 :: u16)"
  by (simp add: query_header_def AppendUint16_def)

lemma length_query_header [simp]: "length (query_header qid) = 12"
  by (simp add: query_header_eq)

lemma Unpack_header:
  assumes "buf = query_header qid @ rest"
  shows "Unpack buf = bind_res (questions_loop 1 \<lparr>p_buf = buf, p_off = 12\<rparr>) (\<lambda>(qs, p).
    sections 0 0 1 \<lparr>m_ID = qid, m_Response = False, m_Truncated = False, m_RCode = 0, m_Questions = qs,
      m_Answers = [], m_Authorities = [], m_Additionals = []\<rparr> p)"
proof -
  have d0: "drop 0 buf = octets 2 qid @ octets 2 (0x0100 :: u16) @ octets 2 (1 :: u16) @ octets 2 (0 :: u16) @
      octets 2 (0 :: u16) @ octets 2 (1 :: u16) @ rest"
    by (simp add: assms query_header_eq)
  note d2 = p_uint16_at(2) [OF d0]
  note d4 = p_uint16_at(2) [OF d2]
  note d6 = p_uint16_at(2) [OF d4]
  note d8 = p_uint16_at(2) [OF d6]
  note d10 = p_uint16_at(2) [OF d8]
  have "\<not> length buf < 12" by (simp add: assms)
  moreover have "head16 \<lparr>p_buf = buf, p_off = 0\<rparr> = (qid, \<lparr>p_buf = buf, p_off = 2\<rparr>)"
    "head16 \<lparr>p_buf = buf, p_off = 2\<rparr> = (0x0100, \<lparr>p_buf = buf, p_off = 4\<rparr>)"
    "head16 \<lparr>p_buf = buf, p_off = 4\<rparr> = (1, \<lparr>p_buf = buf, p_off = 6\<rparr>)"
    "head16 \<lparr>p_buf = buf, p_off = 6\<rparr> = (0, \<lparr>p_buf = buf, p_off = 8\<rparr>)"
    "head16 \<lparr>p_buf = buf, p_off = 8\<rparr> = (0, \<lparr>p_buf = buf, p_off = 10\<rparr>)"
    "head16 \<lparr>p_buf = buf, p_off = 10\<rparr> = (1, \<lparr>p_buf = buf, p_off = 12\<rparr>)"
    using head16_at [OF d0] head16_at [OF d2] head16_at [OF d4] head16_at [OF d6] head16_at [OF d8]
      head16_at [OF d10] by simp_all
  ultimately show ?thesis by (simp add: Unpack_def Let_def)
qed

lemma p_name_root:
  assumes "drop off buf = 0 # rest"
  shows "p_name \<lparr>p_buf = buf, p_off = off\<rparr> = Inr ([], \<lparr>p_buf = buf, p_off = off + 1\<rparr>)"
  using name_loop_labels [of off buf "[]" rest 0 "[]" 0] assms
  by (simp add: p_name_def enc_labels_def)

lemma query_tail_eq:
  "query_tail b qtype n = b @ octets 2 qtype @ octets 2 ClassIN @ 0 # octets 2 TypeOPT @
     octets 2 udpPayloadSize @ octets 4 (0 :: u32) @ octets 2 n"
  by (simp add: query_tail_def AppendUint16_def AppendUint32_def)

lemma p_rr_opt:
  assumes d: "drop off buf = 0 # octets 2 TypeOPT @ octets 2 udpPayloadSize @ octets 4 (0 :: u32) @
      octets 2 (word_of_nat (length option) :: u16) @ option"
    and len: "length option < 65536"
  shows "p_rr \<lparr>p_buf = buf, p_off = off\<rparr> =
    Inr (\<lparr>rr_Name = [], rr_Type = TypeOPT, rr_Class = udpPayloadSize, rr_TTL = 0, rr_Data = option,
          rr_RDataAt = off + 11\<rparr>, \<lparr>p_buf = buf, p_off = off + 11 + length option\<rparr>)"
proof -
  have "drop (off + 1) buf = tl (drop off buf)" by (simp add: drop_Suc drop_tl)
  then have d1: "drop (off + 1) buf = octets 2 TypeOPT @ octets 2 udpPayloadSize @ octets 4 (0 :: u32) @
      octets 2 (word_of_nat (length option) :: u16) @ option" unfolding d by simp
  note d3 = p_uint16_at(2) [OF d1]
  note d5 = p_uint16_at(2) [OF d3]
  note d9 = p_uint32_at(2) [OF d5]
  note d11 = p_uint16_at(2) [OF d9]
  have e11: "drop (off + 11) buf = option" using d11 by (simp add: ac_simps)
  have "length (drop (off + 11) buf) = length option" unfolding e11 ..
  moreover have "off + 11 \<le> length buf"
    using arg_cong [OF d, of length] by simp
  ultimately have "\<not> length buf < off + 11 + length option" by simp
  moreover have "unat (word_of_nat (length option) :: u16) = length option"
    using len by (simp add: unsigned_of_nat take_bit_eq_mod)
  ultimately show ?thesis
    using p_name_root [OF d] p_uint16_at(1) [OF d1] p_uint16_at(1) [OF d3] p_uint32_at(1) [OF d5]
      p_uint16_at(1) [OF d9] e11
    by (simp add: p_rr_def ac_simps)
qed

lemma Unpack_query:
  assumes a: "appendName (query_header qid) name = Inr b" and len: "length option < 65536"
  shows "Unpack (query_tail b qtype (word_of_nat (length option)) @ option) =
    (if length (NormalizeName name) \<le> 254
     then Inr (query_msg qid (ToLower (NormalizeName name)) qtype option (length b + 15))
     else Inl ErrBadName)"
proof -
  define buf where "buf = query_tail b qtype (word_of_nat (length option)) @ option"
  let ?tail = "octets 2 qtype @ octets 2 ClassIN @ 0 # octets 2 TypeOPT @ octets 2 udpPayloadSize @
      octets 4 (0 :: u32) @ octets 2 (word_of_nat (length option) :: u16) @ option"
  have buf: "buf = b @ ?tail" by (simp add: buf_def query_tail_eq)
  obtain e where e: "b = query_header qid @ e" using name_encoding [OF a] by metis
  have hd: "buf = query_header qid @ (e @ ?tail)" by (simp add: buf e)
  have nm: "p_name \<lparr>p_buf = buf, p_off = 12\<rparr> =
      (if length (NormalizeName name) \<le> 254
       then Inr (ToLower (NormalizeName name), \<lparr>p_buf = buf, p_off = length b\<rparr>) else Inl ErrBadName)"
    using p_name_appendName [OF a, of ?tail] unfolding buf by simp
  show ?thesis
  proof (cases "length (NormalizeName name) \<le> 254")
    case False
    then show ?thesis using nm Unpack_header [OF hd]
      by (simp add: p_question_def flip: buf_def)
  next
    case True
    have q0: "drop (length b) buf = ?tail" by (simp add: buf)
    note q2 = p_uint16_at(2) [OF q0]
    note q4 = p_uint16_at(2) [OF q2]
    have "p_question \<lparr>p_buf = buf, p_off = 12\<rparr> =
        Inr (\<lparr>q_Name = ToLower (NormalizeName name), q_Type = qtype, q_Class = ClassIN\<rparr>,
             \<lparr>p_buf = buf, p_off = length b + 4\<rparr>)"
      using nm True p_uint16_at(1) [OF q0] p_uint16_at(1) [OF q2] by (simp add: p_question_def)
    moreover have "p_rr \<lparr>p_buf = buf, p_off = length b + 4\<rparr> =
        Inr (\<lparr>rr_Name = [], rr_Type = TypeOPT, rr_Class = udpPayloadSize, rr_TTL = 0, rr_Data = option,
          rr_RDataAt = length b + 15\<rparr>, \<lparr>p_buf = buf, p_off = length b + 15 + length option\<rparr>)"
      using p_rr_opt [of "length b + 4" buf option] q4 len by (simp add: add.assoc)
    ultimately show ?thesis using True Unpack_header [OF hd]
      by (simp add: sections_def query_msg_def Let_def flip: buf_def)
  qed
qed

section \<open>The client subnet\<close>

text \<open>A subnet the parser or \<open>PrefixFrom\<close> can produce: its bits fit its address.\<close>

definition wf_subnet :: "prefix \<Rightarrow> bool" where
  "wf_subnet s \<longleftrightarrow> pfx_bits s \<le> int (BitLen (pfx_addr s)) \<and> pfx_addr s \<noteq> AddrZero"

lemma options_loop_subnet:
  assumes "significant \<le> 16" and "significant \<le> length raw"
  shows "options_loop (subnet_option family bits significant raw) =
    Inl (decodeClientSubnet (octets 2 family @ [word_of_int bits, 0] @ take significant raw))"
proof -
  let ?d = "subnet_option family bits significant raw"
  have d: "?d = octets 2 OptCodeClientSubnet @ octets 2 (word_of_nat (4 + significant) :: u16) @
      octets 2 family @ [word_of_int bits, 0] @ take significant raw"
    by (simp add: subnet_option_def AppendUint16_def)
  have "BE_Uint16 ?d = OptCodeClientSubnet" by (simp add: d BE_Uint16_def from_octets_octets)
  moreover have "unat (BE_Uint16 (drop 2 ?d)) = 4 + significant"
    using assms(1) by (simp add: d BE_Uint16_def from_octets_octets unsigned_of_nat take_bit_eq_mod
        del: of_nat_add)
  moreover have "length ?d = 8 + significant" using assms(2) by (simp add: d)
  moreover have "take (4 + significant) (drop 4 ?d) =
      octets 2 family @ [word_of_int bits, 0] @ take significant raw"
    using assms(2) by (simp add: d)
  ultimately show ?thesis by (subst options_loop.simps) (simp add: Let_def)
qed

lemma decode_subnet_v4:
  assumes "b \<le> 32" and "w AND NOT (mask (32 - b)) = w"
  shows "decodeClientSubnet (octets 2 familyIPv4 @ [word_of_int (int b), 0] @
      take ((b + 7) div 8) (AsSlice (Addr4 w))) =
    Some \<lparr>cs_Prefix = Prefix (Addr4 w) (int b), cs_Scope = 0\<rparr>"
proof -
  have k: "(b + 7) div 8 \<le> 4" using assms(1) by linarith
  have "from_octets (take ((b + 7) div 8) (octets 4 w) @ replicate (4 - (b + 7) div 8) 0) = w"
    using from_octets_padded [of 4 b w "(b + 7) div 8"] assms by simp
  moreover have "unat (word_of_int (int b) :: u8) = b"
    using assms(1) by (simp add: unsigned_of_nat take_bit_eq_mod)
  ultimately show ?thesis using k assms(1)
    by (simp add: decodeClientSubnet_def BE_Uint16_def from_octets_octets familyIPv4_def familyIPv6_def
        nth_append AddrFromSlice_def PrefixFrom_def Let_def min_def)
qed

lemma decode_subnet_v6:
  assumes "b \<le> 128" and "w AND NOT (mask (128 - b)) = w"
  shows "decodeClientSubnet (octets 2 familyIPv6 @ [word_of_int (int b), 0] @
      take ((b + 7) div 8) (AsSlice (Addr6 w z))) =
    Some \<lparr>cs_Prefix = Prefix (Addr6 w []) (int b), cs_Scope = 0\<rparr>"
proof -
  have k: "(b + 7) div 8 \<le> 16" using assms(1) by linarith
  have "from_octets (take ((b + 7) div 8) (octets 16 w) @ replicate (16 - (b + 7) div 8) 0) = w"
    using from_octets_padded [of 16 b w "(b + 7) div 8"] assms by simp
  moreover have "unat (word_of_int (int b) :: u8) = b"
    using assms(1) by (simp add: unsigned_of_nat take_bit_eq_mod)
  ultimately show ?thesis using k assms(1)
    by (simp add: decodeClientSubnet_def BE_Uint16_def from_octets_octets familyIPv4_def familyIPv6_def
        nth_append AddrFromSlice_def PrefixFrom_def Let_def min_def)
qed

lemma masked_prefix_cases:
  assumes "wf_subnet s" and "pfx_IsValid s"
  obtains (v4) w b where "Masked s = Prefix (Addr4 w) (int b)" "b \<le> 32" "w AND NOT (mask (32 - b)) = w"
    | (v6) w b where "Masked s = Prefix (Addr6 w []) (int b)" "b \<le> 128" "w AND NOT (mask (128 - b)) = w"
proof (cases s rule: Masked.cases)
  case (2 w b)
  with assms have "Masked s = Prefix (Addr4 (clear_low (32 - nat b) w)) (int (nat b))" "nat b \<le> 32"
    by (auto simp: pfx_IsValid_def wf_subnet_def)
  then show ?thesis by (rule v4) (simp add: clear_low_def and.assoc)
next
  case (3 w z b)
  with assms have "Masked s = Prefix (Addr6 (clear_low (128 - nat b) w) []) (int (nat b))" "nat b \<le> 128"
    by (auto simp: pfx_IsValid_def wf_subnet_def)
  then show ?thesis by (rule v6) (simp add: clear_low_def and.assoc)
qed (use assms in \<open>simp add: wf_subnet_def pfx_IsValid_def\<close>)

lemma mapped_masked_bits:
  assumes "w AND NOT (mask (128 - b)) = w" and "drop_bit 32 (w :: u128) = 0xffff"
  shows "96 \<le> b"
proof (rule ccontr)
  assume "\<not> 96 \<le> b"
  then have "\<not> bit (w AND NOT (mask (128 - b))) 32" by (auto simp: bit_simps)
  moreover have "bit (drop_bit 32 w) 0" unfolding assms(2) by simp
  then have "bit w 32" by (simp add: bit_simps)
  ultimately show False using assms(1) by simp
qed

lemma subnet_query:
  assumes s: "Masked s = Prefix a (int b)" and v: "pfx_IsValid s" and a: "Unmap a = a"
    and b: "b \<le> BitLen a" and raw: "length (AsSlice a) * 8 = BitLen a"
    and fam: "family = (if Is6 a then familyIPv6 else familyIPv4)"
    and app: "appendName (query_header qid) name = Inr e"
  defines "opt \<equiv> subnet_option family (int b) ((b + 7) div 8) (AsSlice a)"
  shows "BuildQueryWithSubnet qid name qtype s = Inr (query_tail e qtype (word_of_nat (length opt)) @ opt)"
proof -
  have "(b + 7) div 8 \<le> length (AsSlice a)" using b raw by linarith
  moreover have "nat ((int b + 7) div 8) = (b + 7) div 8"
    by (metis nat_int of_nat_add of_nat_numeral zdiv_int)
  ultimately show ?thesis
    using s v a b app by (simp add: BuildQueryWithSubnet_def Let_def fam opt_def)
qed

lemma subnet_length: "length (subnet_option family bits k raw) = 8 + min (length raw) k"
  by (simp add: subnet_option_def AppendUint16_def)

lemma subnet_roundtrip:
  assumes s: "Masked s = Prefix a (int b)" and v: "pfx_IsValid s" and a: "Unmap a = a"
    and b: "b \<le> BitLen a" and raw: "length (AsSlice a) * 8 = BitLen a" and k: "BitLen a \<le> 128"
    and dec: "decodeClientSubnet (octets 2 (if Is6 a then familyIPv6 else familyIPv4) @
      [word_of_int (int b), 0] @ take ((b + 7) div 8) (AsSlice a)) =
      Some \<lparr>cs_Prefix = Prefix a (int b), cs_Scope = 0\<rparr>"
    and app: "appendName (query_header qid) name = Inr e" and n: "length (NormalizeName name) \<le> 254"
  shows "\<exists>buf m. BuildQueryWithSubnet qid name qtype s = Inr buf \<and> Unpack buf = Inr m \<and>
    m_ID m = qid \<and> m_Questions m = [\<lparr>q_Name = ToLower (NormalizeName name), q_Type = qtype, q_Class = ClassIN\<rparr>] \<and>
    ClientSubnet m = Some \<lparr>cs_Prefix = Masked s, cs_Scope = 0\<rparr>"
proof -
  define family where "family = (if Is6 a then familyIPv6 else familyIPv4)"
  define opt where "opt = subnet_option family (int b) ((b + 7) div 8) (AsSlice a)"
  have le: "(b + 7) div 8 \<le> length (AsSlice a)" "(b + 7) div 8 \<le> 16" using b raw k by linarith+
  have build: "BuildQueryWithSubnet qid name qtype s = Inr (query_tail e qtype (word_of_nat (length opt)) @ opt)"
    unfolding opt_def by (rule subnet_query [OF s v a b raw family_def app])
  have "length opt < 65536" using le by (simp add: opt_def subnet_length)
  then have un: "Unpack (query_tail e qtype (word_of_nat (length opt)) @ opt) =
      Inr (query_msg qid (ToLower (NormalizeName name)) qtype opt (length e + 15))"
    using Unpack_query [OF app] n by simp
  have "ClientSubnet (query_msg qid (ToLower (NormalizeName name)) qtype opt (length e + 15)) =
      Some \<lparr>cs_Prefix = Masked s, cs_Scope = 0\<rparr>"
    using options_loop_subnet [OF le(2,1), of family "int b"] dec s
    by (simp add: ClientSubnet_def query_msg_def opt_def family_def)
  with build un show ?thesis by (auto simp: query_msg_def)
qed

section \<open>What is read lies in the buffer\<close>

lemma name_loop_end:
  "name_loop buf labels off ende ptrs tot = Inr (s, e) \<Longrightarrow>
   (case ende of None \<Rightarrow> off < e \<and> e \<le> length buf | Some e' \<Rightarrow> e = e')"
proof (induction buf labels off ende ptrs tot rule: name_loop.induct)
  case (1 buf labels off ende ptrs tot)
  show ?case using "1.prems" "1.IH"
    by (subst (asm) name_loop.simps)
      (force simp: Let_def split: if_splits option.splits)
qed

text \<open>
  The labels a name is decoded to: each of 1 to 63 bytes, at most 254 bytes with the dots between
  them (before the final lower-casing).
\<close>

lemma label_byte_bound:
  assumes "(b :: u8) AND 0xC0 = 0"
  shows "unat b \<le> 63"
proof -
  have "b = (b AND mask 6) + (b AND NOT (mask 6))" by (simp add: and_mask_split)
  moreover have "(NOT (mask 6) :: u8) = 0xC0" by (simp add: mask_eq_exp_minus_1)
  ultimately have "b = b AND mask 6" using assms by simp
  then have "unat b = unat b mod 2 ^ 6" by (metis unat_and_mask)
  moreover have "unat b mod 2 ^ 6 < 64" by simp
  ultimately show ?thesis by linarith
qed

lemma name_loop_bounds:
  "\<lbrakk>name_loop buf labels off ende ptrs tot = Inr (s, e); \<forall>l \<in> set labels. wire_label l;
    tot = sum_list (map (\<lambda>l. length l + 1) labels); tot \<le> 255\<rbrakk> \<Longrightarrow>
   \<exists>ls. s = ToLower (Join (CHR ''.'') ls) \<and> (\<forall>l \<in> set ls. wire_label l) \<and>
     sum_list (map (\<lambda>l. length l + 1) ls) \<le> 255"
proof (induction buf labels off ende ptrs tot rule: name_loop.induct)
  case (1 buf labels off ende ptrs tot)
  let ?b = "buf ! off" and ?n = "unat (buf ! off)"
  let ?l = "map char_of_byte (take ?n (drop (off + 1) buf))"
  have lt: "off < length buf" using "1.prems"(1) by (subst (asm) name_loop.simps) (auto split: if_splits)
  consider "?n = 0" | "?n \<noteq> 0" "?b AND 0xC0 = 0xC0" | "?n \<noteq> 0" "?b AND 0xC0 = 0"
    using "1.prems"(1) lt by (subst (asm) name_loop.simps) (auto simp: Let_def split: if_splits)
  then show ?case
  proof cases
    case 1
    with "1.prems" lt show ?thesis by (subst (asm) name_loop.simps) (auto simp: Let_def)
  next
    case 2
    with "1.prems" lt "1.IH"(1) show ?thesis
      by (subst (asm) name_loop.simps) (auto simp: Let_def split: if_splits)
  next
    case 3
    then have step: "name_loop buf (labels @ [?l]) (off + 1 + ?n) ende ptrs (tot + (?n + 1)) = Inr (s, e)"
      and sz: "\<not> length buf < off + 1 + ?n" "\<not> 255 < tot + (?n + 1)"
      using "1.prems"(1) lt by (subst (asm) name_loop.simps, simp add: Let_def limit_defs split: if_splits)+
    have len: "length ?l = ?n" using sz(1) by simp
    then have "wire_label ?l" using 3 label_byte_bound [of ?b] by (auto simp: wire_label_def)
    with "1.prems" sz(2) len show ?thesis
      using "1.IH"(2) [OF _ refl refl, of] 3 lt sz step by (simp add: limit_defs)
  qed
qed

lemma p_name_step:
  "p_name p = Inr (s, p') \<Longrightarrow> p_buf p' = p_buf p \<and> p_off p < p_off p' \<and> p_off p' \<le> length (p_buf p)"
  using name_loop_end [of "p_buf p" "[]" "p_off p" None 0 0 s]
  by (auto simp: p_name_def bind_res_eq_Inr split: prod.splits)

lemma p_uint_step:
  "p_uint16 p = Inr (v, p') \<Longrightarrow> p_buf p' = p_buf p \<and> p_off p' = p_off p + 2 \<and> p_off p' \<le> length (p_buf p)"
  "p_uint32 p = Inr (x, p') \<Longrightarrow> p_buf p' = p_buf p \<and> p_off p' = p_off p + 4 \<and> p_off p' \<le> length (p_buf p)"
  by (auto simp: p_uint16_def p_uint32_def split: if_splits)

text \<open>A record's data is the slice of the buffer that starts where the record says.\<close>

definition rr_in :: "u8 list \<Rightarrow> rr \<Rightarrow> bool" where
  "rr_in buf r \<longleftrightarrow> rr_RDataAt r + length (rr_Data r) \<le> length buf \<and>
     rr_Data r = take (length (rr_Data r)) (drop (rr_RDataAt r) buf)"

lemma p_rr_step:
  assumes "p_rr p = Inr (r, p')"
  shows "p_buf p' = p_buf p \<and> p_off p < p_off p' \<and> p_off p' \<le> length (p_buf p) \<and> rr_in (p_buf p) r"
proof -
  obtain name p1 rtype p2 rclass p3 ttl p4 len p5 where
    s: "p_name p = Inr (name, p1)" "p_uint16 p1 = Inr (rtype, p2)" "p_uint16 p2 = Inr (rclass, p3)"
      "p_uint32 p3 = Inr (ttl, p4)" "p_uint16 p4 = Inr (len, p5)" and
    fin: "\<not> length (p_buf p5) < p_off p5 + unat len"
      "rr_Data r = take (unat len) (drop (p_off p5) (p_buf p5))" "rr_RDataAt r = p_off p5"
      "p' = p5\<lparr>p_off := p_off p5 + unat len\<rparr>"
    using assms by (auto simp: p_rr_def bind_res_eq_Inr split: prod.splits if_splits)
  have b: "p_buf p5 = p_buf p" "p_off p < p_off p5"
    using p_name_step [OF s(1)] p_uint_step(1) [OF s(2)] p_uint_step(1) [OF s(3)]
      p_uint_step(2) [OF s(4)] p_uint_step(1) [OF s(5)] by auto
  have "length (rr_Data r) = unat len" using fin(1,2) by simp
  then show ?thesis using fin b by (auto simp: rr_in_def)
qed

lemma section_loop_in:
  assumes "section_loop n p = (rs, res)"
  shows "list_all (rr_in (p_buf p)) rs"
    and "res = Inr p' \<Longrightarrow> length rs = n \<and> p_buf p' = p_buf p"
proof -
  have "list_all (rr_in (p_buf p)) rs \<and> (res = Inr p' \<longrightarrow> length rs = n \<and> p_buf p' = p_buf p)"
    using assms
  proof (induction n arbitrary: p rs)
    case (Suc n)
    show ?case
    proof (cases "p_rr p")
      case (Inl e)
      with Suc.prems show ?thesis by auto
    next
      case (Inr rp)
      obtain r q where rp: "rp = (r, q)" by fastforce
      obtain rs' where rs': "section_loop n q = (rs', res)" "rs = r # rs'"
        using Suc.prems Inr rp by (auto split: prod.splits)
      have "p_buf q = p_buf p \<and> rr_in (p_buf p) r" using p_rr_step [of p r q] Inr rp by blast
      with Suc.IH [OF rs'(1)] rs'(2) show ?thesis by simp
    qed
  qed auto
  then show "list_all (rr_in (p_buf p)) rs"
    and "res = Inr p' \<Longrightarrow> length rs = n \<and> p_buf p' = p_buf p" by blast+
qed

lemma sections_in:
  assumes "sections an ns ar m0 p = Inr m"
    and empty: "m_Answers m0 = []" "m_Authorities m0 = []" "m_Additionals m0 = []"
  shows "list_all (rr_in (p_buf p)) (m_Answers m @ m_Authorities m @ m_Additionals m)"
    and "\<not> m_Truncated m \<Longrightarrow> length (m_Answers m) = unat an \<and> length (m_Authorities m) = unat ns \<and>
      length (m_Additionals m) = unat ar"
    and "m_ID m = m_ID m0 \<and> m_Questions m = m_Questions m0 \<and> m_Truncated m = m_Truncated m0"
proof -
  obtain as r1 where 1: "section_loop (unat an) p = (as, r1)" by fastforce
  have "list_all (rr_in (p_buf p)) (m_Answers m @ m_Authorities m @ m_Additionals m) \<and>
    (\<not> m_Truncated m \<longrightarrow> length (m_Answers m) = unat an \<and> length (m_Authorities m) = unat ns \<and>
      length (m_Additionals m) = unat ar) \<and>
    m_ID m = m_ID m0 \<and> m_Questions m = m_Questions m0 \<and> m_Truncated m = m_Truncated m0"
  proof (cases r1)
    case (Inl e)
    then show ?thesis using assms 1 section_loop_in(1) [OF 1]
      by (auto simp: sections_def split: if_splits)
  next
    case r1: (Inr p1)
    note a = section_loop_in(1) [OF 1] section_loop_in(2) [OF 1 r1]
    obtain us r2 where 2: "section_loop (unat ns) p1 = (us, r2)" by fastforce
    show ?thesis
    proof (cases r2)
      case (Inl e)
      then show ?thesis using assms 1 2 r1 a section_loop_in(1) [OF 2]
        by (auto simp: sections_def split: if_splits)
    next
      case r2: (Inr p2)
      note u = section_loop_in(1) [OF 2] section_loop_in(2) [OF 2 r2]
      obtain ds r3 where 3: "section_loop (unat ar) p2 = (ds, r3)" by fastforce
      show ?thesis
      proof (cases r3)
        case (Inl e)
        then show ?thesis using assms 1 2 3 r1 r2 a u section_loop_in(1) [OF 3]
          by (auto simp: sections_def split: if_splits)
      next
        case r3: (Inr p3)
        then show ?thesis using assms 1 2 3 r1 r2 a u section_loop_in(1) [OF 3] section_loop_in(2) [OF 3 r3]
          by (auto simp: sections_def)
      qed
    qed
  qed
  then show "list_all (rr_in (p_buf p)) (m_Answers m @ m_Authorities m @ m_Additionals m)"
    and "\<not> m_Truncated m \<Longrightarrow> length (m_Answers m) = unat an \<and> length (m_Authorities m) = unat ns \<and>
      length (m_Additionals m) = unat ar"
    and "m_ID m = m_ID m0 \<and> m_Questions m = m_Questions m0 \<and> m_Truncated m = m_Truncated m0" by blast+
qed

lemma p_question_buf: "p_question p = Inr (q, p') \<Longrightarrow> p_buf p' = p_buf p"
  using p_name_step p_uint_step(1)
  by (fastforce simp: p_question_def bind_res_eq_Inr split: prod.splits)

lemma questions_loop_props:
  "questions_loop n p = Inr (qs, p') \<Longrightarrow> length qs = n \<and> p_buf p' = p_buf p"
proof (induction n arbitrary: p qs)
  case (Suc n)
  then obtain q p1 qs' where "p_question p = Inr (q, p1)" "questions_loop n p1 = Inr (qs', p')" "qs = q # qs'"
    by (auto simp: bind_res_eq_Inr split: prod.splits)
  with Suc.IH p_question_buf show ?case by fastforce
qed simp

definition header16 :: "u8 list \<Rightarrow> nat \<Rightarrow> u16" where
  "header16 buf k = BE_Uint16 (drop k buf)"

lemma head16_eq:
  "k + 2 \<le> length buf \<Longrightarrow>
   head16 \<lparr>p_buf = buf, p_off = k\<rparr> = (header16 buf k, \<lparr>p_buf = buf, p_off = k + 2\<rparr>)"
  by (simp add: head16_def p_uint16_def header16_def)

lemma Unpack_props:
  assumes "Unpack buf = Inr m"
  shows "12 \<le> length buf" and "m_ID m = header16 buf 0"
    and "length (m_Questions m) = unat (header16 buf 4)"
    and "list_all (rr_in buf) (m_Answers m @ m_Authorities m @ m_Additionals m)"
    and "\<not> m_Truncated m \<Longrightarrow> length (m_Answers m) = unat (header16 buf 6) \<and>
      length (m_Authorities m) = unat (header16 buf 8) \<and> length (m_Additionals m) = unat (header16 buf 10)"
proof -
  show len: "12 \<le> length buf" using assms by (auto simp: Unpack_def split: if_splits)
  obtain qs p m0 where q: "questions_loop (unat (header16 buf 4)) \<lparr>p_buf = buf, p_off = 12\<rparr> = Inr (qs, p)"
    and s: "sections (header16 buf 6) (header16 buf 8) (header16 buf 10) m0 p = Inr m"
    and m0: "m_Answers m0 = []" "m_Authorities m0 = []" "m_Additionals m0 = []" "m_ID m0 = header16 buf 0"
      "m_Questions m0 = qs"
    using assms len by (auto simp: Unpack_def Let_def head16_eq bind_res_eq_Inr)
  note qp = questions_loop_props [OF q] and sp = sections_in [OF s m0(1-3)]
  show "m_ID m = header16 buf 0" "length (m_Questions m) = unat (header16 buf 4)"
    "list_all (rr_in buf) (m_Answers m @ m_Authorities m @ m_Additionals m)"
    "\<not> m_Truncated m \<Longrightarrow> length (m_Answers m) = unat (header16 buf 6) \<and>
      length (m_Authorities m) = unat (header16 buf 8) \<and> length (m_Additionals m) = unat (header16 buf 10)"
    using qp sp m0(4,5) by auto
qed

section \<open>Type names\<close>

lemma ToUpper_ASCII_id: "list_all (\<lambda>c. is_ascii c \<and> \<not> (97 \<le> code c \<and> code c \<le> 122)) s \<Longrightarrow> ToUpper s = s"
  by (auto simp: ToUpper_def ascii_upper_def list_all_iff intro!: map_idI)

lemma TypeCode_TypeName_lemma: "TypeCode (TypeName t) = Some t"
proof (cases "map_of typeNames t")
  case (Some name)
  then have "(t, name) \<in> set typeNames" by (rule map_of_SomeD)
  moreover have "list_all (\<lambda>(t, name). TypeCode name = Some t) typeNames" by code_simp
  ultimately show ?thesis using Some by (auto simp: TypeName_def list_all_iff)
next
  case None
  let ?d = "dec_digits (unat t)"
  have dg: "is_digit c" if "c \<in> set ?d" for c using dec_digits_digits [of "unat t"] that by (simp add: list_all_iff)
  have name: "TypeName t = ''TYPE'' @ ?d" by (simp add: TypeName_def None)
  have "printable (last ?d)" using dg [of "last ?d"] by (auto simp: is_digit_def)
  then have trim: "TrimSpace (''TYPE'' @ ?d) = ''TYPE'' @ ?d" by (intro TrimSpace_id) auto
  have up: "ToUpper (''TYPE'' @ ?d) = ''TYPE'' @ ?d"
    by (rule ToUpper_ASCII_id) (use dg in \<open>fastforce simp: list_all_iff is_digit_def\<close>)
  have "list_all (\<lambda>(_, k). take 4 k \<noteq> ''TYPE'') typeNames" by code_simp
  then have "find (\<lambda>(u, known). known = ''TYPE'' @ ?d) typeNames = None"
    by (auto simp: find_None_iff list_all_iff)
  moreover have "ParseUint 16 ?d = Some (unat t)"
    using unsigned_less [of t] by (intro ParseUint_dec_digits) simp
  ultimately show ?thesis by (simp add: TypeCode_def name trim [simplified] up [simplified] Let_def)
qed

lemma BuildQuery_Unpack:
  assumes "BuildQuery qid name qtype = Inr buf"
  shows "Unpack buf =
    (if length (NormalizeName name) \<le> 254
     then Inr (query_msg qid (ToLower (NormalizeName name)) qtype [] (length buf)) else Inl ErrBadName)"
proof -
  obtain b where b: "appendName (query_header qid) name = Inr b" "buf = query_tail b qtype 0"
    using assms by (auto simp: BuildQuery_def bind_res_eq_Inr)
  have "length buf = length b + 15" by (simp add: b(2) query_tail_eq)
  then show ?thesis using Unpack_query [OF b(1), of "[]" qtype] by (simp add: b(2))
qed

lemma subnet_query_roundtrip:
  assumes wf: "wf_subnet s" and v: "pfx_IsValid s" and nm: "\<not> Is4In6 (pfx_addr (Masked s))"
    and q: "BuildQuery qid name qtype = Inr b0" and n: "length (NormalizeName name) \<le> 254"
  shows "\<exists>buf m. BuildQueryWithSubnet qid name qtype s = Inr buf \<and> Unpack buf = Inr m \<and>
    m_ID m = qid \<and> m_Questions m = [\<lparr>q_Name = ToLower (NormalizeName name), q_Type = qtype, q_Class = ClassIN\<rparr>] \<and>
    ClientSubnet m = Some \<lparr>cs_Prefix = Masked s, cs_Scope = 0\<rparr>"
proof -
  obtain e where app: "appendName (query_header qid) name = Inr e"
    using q by (auto simp: BuildQuery_def bind_res_eq_Inr)
  from wf v show ?thesis
  proof (cases rule: masked_prefix_cases)
    case (v4 w b)
    show ?thesis
      by (rule subnet_roundtrip [OF v4(1) v _ _ _ _ _ app n])
        (use v4 decode_subnet_v4 [OF v4(2,3)] in simp_all)
  next
    case (v6 w b)
    show ?thesis
      by (rule subnet_roundtrip [OF v6(1) v _ _ _ _ _ app n])
        (use v6 nm decode_subnet_v6 [OF v6(2,3)] in simp_all)
  qed
qed

lemma mapped_subnet_rejected:
  assumes "wf_subnet s" and "pfx_IsValid s" and "Is4In6 (pfx_addr (Masked s))"
  shows "BuildQueryWithSubnet qid name qtype s = Inl ErrBadSubnet"
  using assms(1,2)
proof (cases rule: masked_prefix_cases)
  case (v4 w b)
  with assms(3) show ?thesis by simp
next
  case (v6 w b)
  with assms(3) mapped_masked_bits [of w b] show ?thesis
    using assms(2) by (simp add: BuildQueryWithSubnet_def Let_def)
qed

section \<open>Properties\<close>

text \<open>C4: A query that was built is read back as the message it stands for: its ID, one question with the
  normalised name, and an empty OPT record. The one exception are names of 255 bytes, which
  the writer accepts and the reader rejects.\<close>

theorem query_roundtrip:
  assumes "BuildQuery qid name qtype = Inr buf"
  shows "Unpack buf =
    (if length (NormalizeName name) \<le> 254
     then Inr (query_msg qid (ToLower (NormalizeName name)) qtype [] (length buf)) else Inl ErrBadName)"
  using assms by (rule BuildQuery_Unpack)

theorem query_roundtrip_witness:
  "\<exists>buf. BuildQuery 7 ''A.cn'' TypeA = Inr buf \<and>
     Unpack buf = Inr (query_msg 7 ''a.cn'' TypeA [] (length buf))"
proof -
  have n: "NormalizeName ''A.cn'' = ''a.cn''" "ToLower ''a.cn'' = ''a.cn''"
    "Split (CHR ''.'') ''a.cn'' = [''a'', ''cn'']" by code_simp+
  then obtain buf where b: "BuildQuery 7 ''A.cn'' TypeA = Inr buf"
    by (auto simp: BuildQuery_def appendName_eq wire_label_def)
  from query_roundtrip [OF b] b show ?thesis by (simp add: n)
qed

text \<open>C5: The client subnet of a query survives the wire: for a valid subnet whose masked address is not
  IPv4-mapped and an encodable name, the message built is read back with the same question
  and the option decodes to the masked subnet with scope 0.\<close>

theorem client_subnet_roundtrip:
  assumes "wf_subnet s" and "pfx_IsValid s" and "\<not> Is4In6 (pfx_addr (Masked s))"
    and "BuildQuery qid name qtype = Inr b0" and "length (NormalizeName name) \<le> 254"
  shows "\<exists>buf m. BuildQueryWithSubnet qid name qtype s = Inr buf \<and> Unpack buf = Inr m \<and>
    m_ID m = qid \<and> m_Questions m = [\<lparr>q_Name = ToLower (NormalizeName name), q_Type = qtype, q_Class = ClassIN\<rparr>] \<and>
    ClientSubnet m = Some \<lparr>cs_Prefix = Masked s, cs_Scope = 0\<rparr>"
  using assms by (rule subnet_query_roundtrip)

theorem client_subnet_roundtrip_witness:
  "\<exists>buf m. BuildQueryWithSubnet 7 ''A.cn'' TypeA (Prefix (Addr4 0x01020304) 24) = Inr buf \<and>
     Unpack buf = Inr m \<and>
     ClientSubnet m = Some \<lparr>cs_Prefix = Masked (Prefix (Addr4 0x01020304) 24), cs_Scope = 0\<rparr>"
proof -
  have n: "NormalizeName ''A.cn'' = ''a.cn''" "Split (CHR ''.'') ''a.cn'' = [''a'', ''cn'']" by code_simp+
  then obtain b where b: "BuildQuery 7 ''A.cn'' TypeA = Inr b"
    by (auto simp: BuildQuery_def appendName_eq wire_label_def)
  from client_subnet_roundtrip [OF _ _ _ b, of "Prefix (Addr4 0x01020304) 24"] show ?thesis
    by (auto simp: wf_subnet_def pfx_IsValid_def n)
qed

text \<open>A subnet whose masked address is IPv4-mapped is always refused: unmapping shortens the address
  to 32 bits, but a masked mapped prefix has at least 96.\<close>

theorem mapped_subnet_error:
  assumes "wf_subnet s" and "pfx_IsValid s" and "Is4In6 (pfx_addr (Masked s))"
  shows "BuildQueryWithSubnet qid name qtype s = Inl ErrBadSubnet"
  using assms by (rule mapped_subnet_rejected)

theorem mapped_subnet_error_witness:
  "BuildQueryWithSubnet 7 ''a.cn'' TypeA (Prefix (Addr6 0xffff01020300 []) 120) = Inl ErrBadSubnet"
proof (rule mapped_subnet_error)
  show "Is4In6 (pfx_addr (Masked (Prefix (Addr6 0xffff01020300 []) 120)))" by code_simp
qed (simp_all add: wf_subnet_def pfx_IsValid_def)

text \<open>C6: Whatever the buffer, a message that is read has the header's question count, and the header's
  record counts unless it is truncated; the data of every record, kept early from a truncated
  message or not, is a slice inside the buffer.\<close>

theorem Unpack_within_buffer:
  assumes "Unpack buf = Inr m"
  shows "m_ID m = header16 buf 0 \<and> length (m_Questions m) = unat (header16 buf 4) \<and>
    list_all (rr_in buf) (m_Answers m @ m_Authorities m @ m_Additionals m) \<and>
    (\<not> m_Truncated m \<longrightarrow> length (m_Answers m) = unat (header16 buf 6) \<and>
       length (m_Authorities m) = unat (header16 buf 8) \<and> length (m_Additionals m) = unat (header16 buf 10))"
  using Unpack_props [OF assms] by blast

theorem Unpack_within_buffer_witness:
  "\<exists>m. Unpack (query_header 5 @ [0, 0, 1, 0, 1, 0, 0, 41, 4, 208, 0, 0, 0, 0, 0, 0]) = Inr m \<and> m_ID m = 5"
proof -
  let ?b = "query_header 5 @ [0, 0, 1, 0, 1, 0, 0, 41, 4, 208, 0, 0, 0, 0, 0, 0]"
  have "isl (Unpack ?b) = False" by code_simp
  then obtain m where m: "Unpack ?b = Inr m" by (cases "Unpack ?b") auto
  have "header16 ?b 0 = 5" by code_simp
  with Unpack_within_buffer [OF m] m show ?thesis by simp
qed

text \<open>The name parser always returns. Where it returns a name it has moved forward, inside the buffer,
  and the name consists of labels of 1 to 63 bytes, at most 254 bytes with the dots, whatever
  compression pointers the buffer holds.\<close>

theorem name_progress_and_bounds:
  assumes "p_name p = Inr (s, p')"
  shows "p_buf p' = p_buf p \<and> p_off p < p_off p' \<and> p_off p' \<le> length (p_buf p) \<and>
    (\<exists>ls. s = ToLower (Join (CHR ''.'') ls) \<and> (\<forall>l \<in> set ls. l \<noteq> [] \<and> length l \<le> 63) \<and>
       length (Join (CHR ''.'') ls) \<le> 254)"
proof -
  have "\<exists>e. name_loop (p_buf p) [] (p_off p) None 0 0 = Inr (s, e)"
    using assms by (auto simp: p_name_def bind_res_eq_Inr)
  then obtain ls where ls: "s = ToLower (Join (CHR ''.'') ls)" "\<forall>l \<in> set ls. wire_label l"
      "sum_list (map (\<lambda>l. length l + 1) ls) \<le> 255"
    using name_loop_bounds [of "p_buf p" "[]" "p_off p" None 0 0 s] by auto
  have "length (Join (CHR ''.'') ls) \<le> 254"
    using ls(3) length_Join [of ls "CHR ''.''"] by (cases "ls = []") auto
  with ls(1,2) p_name_step [OF assms] show ?thesis unfolding wire_label_def by blast
qed

theorem name_progress_and_bounds_witness:
  "\<exists>s p'. p_name \<lparr>p_buf = [1, 97, 0, 192, 0], p_off = 3\<rparr> = Inr (s, p') \<and> 3 < p_off p'"
proof -
  let ?p = "\<lparr>p_buf = [1, 97, 0, 192, 0], p_off = 3\<rparr>"
  have "isl (p_name ?p) = False" by code_simp
  then obtain s p' where r: "p_name ?p = Inr (s, p')" by (cases "p_name ?p") auto
  with name_progress_and_bounds [OF r] show ?thesis by auto
qed

text \<open>Printing a record type and parsing the result gives the type back, for all 65536 types.\<close>

theorem TypeCode_TypeName: "TypeCode (TypeName t) = Some t"
  by (rule TypeCode_TypeName_lemma)

end
