(* ===== verification/Resolve.thy ===== *)
theory Resolve
  imports DNS_Roundtrip
begin

text \<open>
  Package \<open>internal/resolve\<close>: the stub resolver. What the network does is an argument: whether
  dialling and writing succeed, and what each read returns. The random query ID is an argument
  too. A UDP trace that ends stands for the read error at the deadline.
\<close>

section \<open>Definitions\<close>

datatype status = StatusOK | StatusNXDomain | StatusServFail | StatusTimeout

record answer =
  a_Status :: status
  a_Msg :: "msg option"
  a_Raw :: "u8 list"

record client =
  c_Server :: "addr \<times> u16"
  c_Timeout :: int

definition DefaultTimeout :: int where
  "DefaultTimeout = 15 * 1000000000"

definition maxUDPResponse :: nat where
  "maxUDPResponse = 4096"

datatype client_error = BadHost | BadPort

definition NewClient :: "string \<Rightarrow> int \<Rightarrow> int \<Rightarrow> client_error + client" where
  "NewClient host port timeout =
     (case ParseAddr (TrimSpace host) of
        None \<Rightarrow> Inl BadHost
      | Some addr \<Rightarrow>
          if port \<le> 0 \<or> 65535 < port then Inl BadPort
          else Inr \<lparr>c_Server = (addr, word_of_int port),
                    c_Timeout = (if timeout \<le> 0 then DefaultTimeout else timeout)\<rparr>)"

text \<open>
  One connection. UDP reads return datagrams. A TCP read returns at most as many bytes as asked
  for, with or without an error; the events are what the successive reads return, a longer
  chunk being kept for the next read.
\<close>

record udp_net =
  udp_dial :: bool
  udp_write :: bool
  udp_reads :: "u8 list list"

record tcp_net =
  tcp_dial :: bool
  tcp_write :: bool
  tcp_events :: "(u8 list \<times> bool) list"

fun conn_read :: "nat \<Rightarrow> (u8 list \<times> bool) list \<Rightarrow> u8 list \<times> bool \<times> (u8 list \<times> bool) list" where
  "conn_read want [] = ([], True, [])"
| "conn_read want ((bs, err) # es) =
     (if want < length bs then (take want bs, False, (drop want bs, err) # es) else (bs, err, es))"

datatype exchange_error = NetError | WireError wire_error | IDMismatch

fun udp_loop :: "u16 \<Rightarrow> u8 list list \<Rightarrow> exchange_error + (msg \<times> u8 list)" where
  "udp_loop qid [] = Inl NetError"
| "udp_loop qid (d # ds) =
     (let raw = take maxUDPResponse d in
      case Unpack raw of
        Inl e \<Rightarrow> Inl (WireError e)
      | Inr m \<Rightarrow> if m_ID m \<noteq> qid then udp_loop qid ds else Inr (m, raw))"

definition exchangeUDP :: "udp_net \<Rightarrow> u16 \<Rightarrow> exchange_error + (msg \<times> u8 list)" where
  "exchangeUDP net qid =
     (if \<not> udp_dial net then Inl NetError
      else if \<not> udp_write net then Inl NetError
      else udp_loop qid (udp_reads net))"

text \<open>
  \<open>readFull\<close> with the bytes still wanted: \<open>None\<close> for an error. A read that returns neither bytes
  nor an error is repeated; every read uses up an event or fills the buffer.
\<close>

function readFull :: "nat \<Rightarrow> (u8 list \<times> bool) list \<Rightarrow> (u8 list \<times> (u8 list \<times> bool) list) option" where
  "readFull want es =
     (if want = 0 then Some ([], es)
      else
        let (bs, err, rest) = conn_read want es in
        if err then None
        else map_option (\<lambda>(more, rest). (bs @ more, rest)) (readFull (want - length bs) rest))"
  by pat_completeness auto
termination
proof (relation "measures [\<lambda>(want, es). length es, \<lambda>(want, es). want]", simp, goal_cases)
  case (1 want es _ bs _ err rest)
  then show ?case by (cases "(want, es)" rule: conn_read.cases) (auto split: if_splits)
qed

declare readFull.simps [simp del]

definition tcp_frame :: "u8 list \<Rightarrow> u8 list" where
  "tcp_frame packet = octets 2 (word_of_nat (length packet) :: u16) @ packet"

definition exchangeTCP :: "tcp_net \<Rightarrow> u16 \<Rightarrow> exchange_error + (msg \<times> u8 list)" where
  "exchangeTCP net qid =
     (if \<not> tcp_dial net then Inl NetError
      else if \<not> tcp_write net then Inl NetError
      else case readFull 2 (tcp_events net) of
        None \<Rightarrow> Inl NetError
      | Some (head, es) \<Rightarrow>
          case readFull (unat (BE_Uint16 head)) es of
            None \<Rightarrow> Inl NetError
          | Some (body, _) \<Rightarrow>
              case Unpack body of
                Inl e \<Rightarrow> Inl (WireError e)
              | Inr m \<Rightarrow> if m_ID m \<noteq> qid then Inl IDMismatch else Inr (m, body))"

definition answer_of :: "msg \<times> u8 list \<Rightarrow> answer" where
  "answer_of r =
     (case r of (m, raw) \<Rightarrow>
        \<lparr>a_Status = (if m_RCode m = RCodeNoError then StatusOK
                     else if m_RCode m = RCodeNXDomain then StatusNXDomain else StatusServFail),
         a_Msg = Some m, a_Raw = raw\<rparr>)"

definition no_answer :: "status \<Rightarrow> answer" where
  "no_answer s = \<lparr>a_Status = s, a_Msg = None, a_Raw = []\<rparr>"

definition build_packet :: "u16 \<Rightarrow> string \<Rightarrow> u16 \<Rightarrow> prefix \<Rightarrow> wire_error + u8 list" where
  "build_packet qid name qtype subnet =
     (if pfx_IsValid subnet then BuildQueryWithSubnet qid name qtype subnet else BuildQuery qid name qtype)"

definition QueryWithSubnet :: "udp_net \<Rightarrow> tcp_net \<Rightarrow> u16 \<Rightarrow> string \<Rightarrow> u16 \<Rightarrow> prefix \<Rightarrow> answer" where
  "QueryWithSubnet udp tcp qid name qtype subnet =
     (case build_packet qid name qtype subnet of
        Inl _ \<Rightarrow> no_answer StatusServFail
      | Inr packet \<Rightarrow>
          case exchangeUDP udp qid of
            Inl _ \<Rightarrow> no_answer StatusTimeout
          | Inr (m, raw) \<Rightarrow>
              answer_of (if m_Truncated m
                         then (case exchangeTCP tcp qid of Inl _ \<Rightarrow> (m, raw) | Inr r \<Rightarrow> r)
                         else (m, raw)))"

definition Query :: "udp_net \<Rightarrow> tcp_net \<Rightarrow> u16 \<Rightarrow> string \<Rightarrow> u16 \<Rightarrow> answer" where
  "Query udp tcp qid name qtype = QueryWithSubnet udp tcp qid name qtype prefix_zero"

definition Addresses :: "answer \<Rightarrow> addr list \<times> addr list" where
  "Addresses a =
     (if a_Status a \<noteq> StatusOK then ([], [])
      else case a_Msg a of
        None \<Rightarrow> ([], [])
      | Some m \<Rightarrow> (List.map_filter rr_A (m_Answers m), List.map_filter rr_AAAA (m_Answers m)))"

definition targets_in :: "u16 \<Rightarrow> u8 list \<Rightarrow> rr list \<Rightarrow> string list" where
  "targets_in rtype raw rs =
     List.map_filter (\<lambda>r. if rr_Type r \<noteq> rtype then None else TargetName r raw) rs"

definition TargetNames :: "answer \<Rightarrow> u16 \<Rightarrow> string list" where
  "TargetNames a rtype =
     (if a_Status a \<noteq> StatusOK then []
      else case a_Msg a of
        None \<Rightarrow> []
      | Some m \<Rightarrow>
          let out = targets_in rtype (a_Raw a) (m_Answers m)
          in if out = [] then targets_in rtype (a_Raw a) (m_Authorities m) else out)"

section \<open>Exchanges\<close>

lemma udp_loop_Inr:
  "udp_loop qid ds = Inr (m, raw) \<Longrightarrow> Unpack raw = Inr m \<and> m_ID m = qid \<and> length raw \<le> maxUDPResponse"
  by (induction ds) (auto simp: Let_def split: sum.splits if_splits)

lemma exchangeUDP_Inr:
  "exchangeUDP net qid = Inr (m, raw) \<Longrightarrow> Unpack raw = Inr m \<and> m_ID m = qid \<and> length raw \<le> maxUDPResponse"
  by (auto simp: exchangeUDP_def dest: udp_loop_Inr split: if_splits)

lemma exchangeTCP_Inr: "exchangeTCP net qid = Inr (m, raw) \<Longrightarrow> Unpack raw = Inr m \<and> m_ID m = qid"
  by (auto simp: exchangeTCP_def split: if_splits option.splits sum.splits)

text \<open>
  A datagram for another query is skipped; the first one with the right ID answers, however
  many others came before it, provided that they are well formed.
\<close>

lemma udp_loop_skips:
  assumes "\<forall>d \<in> set other. \<exists>m. Unpack (take maxUDPResponse d) = Inr m \<and> m_ID m \<noteq> qid"
    and "Unpack (take maxUDPResponse d) = Inr m" and "m_ID m = qid"
  shows "udp_loop qid (other @ d # rest) = Inr (m, take maxUDPResponse d)"
  using assms by (induction other) (auto simp: Let_def)

text \<open>Reading a stream that delivers its bytes without an error, in any chunks.\<close>

definition stream :: "(u8 list \<times> bool) list \<Rightarrow> u8 list" where
  "stream es = concat (map fst es)"

lemma conn_read_clean:
  assumes "\<forall>e \<in> set es. \<not> snd e" and "0 < want" and "want \<le> length (stream es)"
  obtains bs rest where "conn_read want es = (bs, False, rest)" "\<forall>e \<in> set rest. \<not> snd e"
    "stream es = bs @ stream rest" "length bs \<le> want"
proof (cases "(want, es)" rule: conn_read.cases)
  case (1 w)
  then show ?thesis using assms by (simp add: stream_def)
next
  case (2 w bs err es')
  show ?thesis
  proof (cases "want < length bs")
    case True
    then show ?thesis using 2 assms that [of "take want bs" "(drop want bs, err) # es'"]
      by (auto simp: stream_def)
  next
    case False
    then show ?thesis using 2 assms that [of bs es'] by (auto simp: stream_def)
  qed
qed

lemma readFull_clean:
  "\<lbrakk>\<forall>e \<in> set es. \<not> snd e; want \<le> length (stream es)\<rbrakk> \<Longrightarrow>
   \<exists>rest. readFull want es = Some (take want (stream es), rest) \<and>
     (\<forall>e \<in> set rest. \<not> snd e) \<and> stream rest = drop want (stream es)"
proof (induction want es rule: readFull.induct)
  case (1 want es)
  show ?case
  proof (cases "want = 0")
    case True
    then show ?thesis using 1(2) by (subst readFull.simps) simp
  next
    case False
    obtain bs rest where c: "conn_read want es = (bs, False, rest)" "\<forall>e \<in> set rest. \<not> snd e"
      "stream es = bs @ stream rest" "length bs \<le> want"
      using conn_read_clean [of es want] 1(2,3) False by blast
    have "\<exists>rest'. readFull (want - length bs) rest = Some (take (want - length bs) (stream rest), rest') \<and>
        (\<forall>e \<in> set rest'. \<not> snd e) \<and> stream rest' = drop (want - length bs) (stream rest)"
      using 1(1) [OF False c(1) [symmetric] refl refl] 1(3) c by auto
    then show ?thesis using False c by (subst readFull.simps) auto
  qed
qed

lemma readFull_length: "readFull want es = Some (bs, rest) \<Longrightarrow> length bs = want"
proof (induction want es arbitrary: bs rest rule: readFull.induct)
  case (1 want es)
  show ?case
  proof (cases "want = 0")
    case True
    with 1(2) show ?thesis by (subst (asm) readFull.simps) simp
  next
    case False
    obtain b err r where c: "conn_read want es = (b, err, r)" by (metis prod_cases3)
    have "length b \<le> want" using c by (cases "(want, es)" rule: conn_read.cases) (auto split: if_splits)
    moreover obtain more where "\<not> err" "readFull (want - length b) r = Some (more, rest)" "bs = b @ more"
      using 1(2) False c by (subst (asm) readFull.simps) (auto split: if_splits)
    moreover from this have "length more = want - length b"
      using 1(1) [OF False c [symmetric] refl refl] by blast
    ultimately show ?thesis by simp
  qed
qed

text \<open>A framed message is received whole whatever chunks the connection delivers it in.\<close>

lemma exchangeTCP_frame:
  assumes "tcp_dial net" and "tcp_write net" and "\<forall>e \<in> set (tcp_events net). \<not> snd e"
    and st: "stream (tcp_events net) = tcp_frame body @ extra" and len: "length body < 65536"
    and "Unpack body = Inr m" and "m_ID m = qid"
  shows "exchangeTCP net qid = Inr (m, body)"
proof -
  let ?es = "tcp_events net"
  have "2 \<le> length (stream ?es)" by (simp add: st tcp_frame_def)
  then obtain rest where r: "readFull 2 ?es = Some (take 2 (stream ?es), rest)"
    "\<forall>e \<in> set rest. \<not> snd e" "stream rest = drop 2 (stream ?es)"
    using readFull_clean [OF assms(3), of 2] by blast
  have h: "take 2 (stream ?es) = octets 2 (word_of_nat (length body) :: u16)"
    and s: "stream rest = body @ extra" using r(3) by (simp_all add: st tcp_frame_def)
  have n: "unat (BE_Uint16 (octets 2 (word_of_nat (length body) :: u16))) = length body"
    using len by (simp add: BE_Uint16_def from_octets_octets unsigned_of_nat take_bit_eq_mod)
  obtain rest' where "readFull (length body) rest = Some (body, rest')"
    using readFull_clean [OF r(2), of "length body"] s by auto
  then show ?thesis using assms(1,2,6,7) r(1) by (simp add: exchangeTCP_def h n)
qed

section \<open>Properties\<close>

text \<open>C7: Whatever the network delivers, an answer that carries a message carries the bytes it was read
  from, its ID is the query's, and its status is the one its response code stands for.\<close>

theorem Query_answer_sound:
  assumes "a_Msg (QueryWithSubnet udp tcp qid name qtype subnet) = Some m"
  defines "a \<equiv> QueryWithSubnet udp tcp qid name qtype subnet"
  shows "Unpack (a_Raw a) = Inr m \<and> m_ID m = qid \<and>
    (a_Status a = StatusOK \<longleftrightarrow> m_RCode m = RCodeNoError) \<and>
    (a_Status a = StatusNXDomain \<longleftrightarrow> m_RCode m = RCodeNXDomain) \<and> a_Status a \<noteq> StatusTimeout"
proof -
  obtain p m0 raw where "build_packet qid name qtype subnet = Inr p" and u: "exchangeUDP udp qid = Inr (m0, raw)"
    using assms(1) by (auto simp: QueryWithSubnet_def no_answer_def split: sum.splits)
  moreover define r where "r = (if m_Truncated m0
      then (case exchangeTCP tcp qid of Inl _ \<Rightarrow> (m0, raw) | Inr r \<Rightarrow> r) else (m0, raw))"
  ultimately have a: "a = answer_of r" by (simp add: a_def QueryWithSubnet_def)
  have "Unpack (snd r) = Inr (fst r) \<and> m_ID (fst r) = qid"
    using exchangeUDP_Inr [OF u] exchangeTCP_Inr [of tcp qid] by (auto simp: r_def split: sum.splits)
  moreover have "a_Msg a = Some (fst r)" "a_Raw a = snd r" by (simp_all add: a answer_of_def split: prod.splits)
  ultimately show ?thesis using assms(1)
    by (auto simp: a_def [symmetric] a answer_of_def RCodeNoError_def RCodeNXDomain_def split: prod.splits)
qed

theorem Query_answer_sound_witness:
  "\<exists>m. a_Msg (QueryWithSubnet \<lparr>udp_dial = True, udp_write = True, udp_reads = [query_header 7 @
       [0, 0, 1, 0, 1, 0, 0, 41, 4, 208, 0, 0, 0, 0, 0, 0]]\<rparr> \<lparr>tcp_dial = False, tcp_write = False, tcp_events = []\<rparr>
       7 ''a.cn'' TypeA prefix_zero) = Some m \<and> m_ID m = 7"
    (is "\<exists>m. a_Msg ?a = Some m \<and> _")
proof -
  have "a_Msg ?a \<noteq> None" by code_simp
  then obtain m where m: "a_Msg ?a = Some m" by blast
  with Query_answer_sound [OF m] show ?thesis by simp
qed

text \<open>A message framed for TCP is received whole, however the connection cuts it into chunks and
  whatever follows it, provided that it is shorter than 65536 bytes and no read fails.\<close>

theorem TCP_reassembly:
  assumes "tcp_dial net" and "tcp_write net" and "\<forall>e \<in> set (tcp_events net). \<not> snd e"
    and "stream (tcp_events net) = tcp_frame body @ extra" and "length body < 65536"
    and "Unpack body = Inr m" and "m_ID m = qid"
  shows "exchangeTCP net qid = Inr (m, body)"
  using assms by (rule exchangeTCP_frame)

theorem TCP_reassembly_witness:
  "\<exists>m. exchangeTCP \<lparr>tcp_dial = True, tcp_write = True,
       tcp_events = [([0], False), ([28], False), (query_header 7, False),
         ([0, 0, 1, 0, 1, 0, 0, 41, 4, 208, 0, 0, 0, 0, 0, 0, 9], False)]\<rparr> 7 =
     Inr (m, query_header 7 @ [0, 0, 1, 0, 1, 0, 0, 41, 4, 208, 0, 0, 0, 0, 0, 0])"
proof -
  let ?b = "query_header 7 @ [0, 0, 1, 0, 1, 0, 0, 41, 4, 208, 0, 0, 0, 0, 0, 0]"
  have "isl (Unpack ?b) = False" by code_simp
  then obtain m where m: "Unpack ?b = Inr m" by (cases "Unpack ?b") auto
  have "header16 ?b 0 = 7" by code_simp
  then have id: "m_ID m = 7" using Unpack_props(2) [OF m] by simp
  have fr: "tcp_frame ?b = [0, 28] @ ?b" by code_simp
  show ?thesis
    by (rule exI [of _ m], rule TCP_reassembly [where extra = "[9]", OF _ _ _ _ _ m id])
      (simp_all add: fr [simplified] stream_def)
qed

text \<open>Over UDP, well-formed datagrams with another ID are skipped and the first one with the query's
  ID is the answer.\<close>

theorem UDP_skips_other_ids:
  assumes "\<forall>d \<in> set other. \<exists>m. Unpack (take maxUDPResponse d) = Inr m \<and> m_ID m \<noteq> qid"
    and "Unpack (take maxUDPResponse d) = Inr m" and "m_ID m = qid"
  shows "exchangeUDP \<lparr>udp_dial = True, udp_write = True, udp_reads = other @ d # rest\<rparr> qid =
    Inr (m, take maxUDPResponse d)"
  using udp_loop_skips [OF assms] by (simp add: exchangeUDP_def)

theorem UDP_skips_other_ids_witness:
  "\<exists>m. exchangeUDP \<lparr>udp_dial = True, udp_write = True,
       udp_reads = [query_header 6 @ [0, 0, 1, 0, 1, 0, 0, 41, 4, 208, 0, 0, 0, 0, 0, 0],
         query_header 7 @ [0, 0, 1, 0, 1, 0, 0, 41, 4, 208, 0, 0, 0, 0, 0, 0]]\<rparr> 7 = Inr m"
proof -
  let ?t = "[0, 0, 1, 0, 1, 0, 0, 41, 4, 208, 0, 0, 0, 0, 0, 0] :: u8 list"
  have mx: "take maxUDPResponse (query_header k @ ?t) = query_header k @ ?t" for k
    by (simp add: maxUDPResponse_def)
  have "isl (Unpack (query_header 6 @ ?t)) = False" "isl (Unpack (query_header 7 @ ?t)) = False" by code_simp+
  then obtain m6 m7 where m: "Unpack (query_header 6 @ ?t) = Inr m6" "Unpack (query_header 7 @ ?t) = Inr m7"
    by (cases "Unpack (query_header 6 @ ?t)"; cases "Unpack (query_header 7 @ ?t)") auto
  have "header16 (query_header 6 @ ?t) 0 = 6" "header16 (query_header 7 @ ?t) 0 = 7" by code_simp+
  then have "m_ID m6 \<noteq> 7" "m_ID m7 = 7" using Unpack_props(2) [OF m(1)] Unpack_props(2) [OF m(2)] by simp_all
  then show ?thesis
    using UDP_skips_other_ids [of "[query_header 6 @ ?t]" 7 "query_header 7 @ ?t" m7 "[]"] m mx by auto
qed

end
