(* ===== verification/IPSet.thy ===== *)
theory IPSet
  imports CIDR_Util
begin

text \<open>
  Package \<open>internal/ipset\<close>: sets of IPv4 addresses as sorted lists of 32-bit ranges. Ranges are
  kept at their width, so \<open>Hi + 1\<close> wraps where the code's does. The theory relates every
  operation to the address set it stands for and shows that the 32-bit code agrees with the
  big-integer code of \<open>internal/cidrutil\<close>.
\<close>

section \<open>Ranges and sets\<close>

datatype range = Range (Lo: u32) (Hi: u32)

instantiation range :: linorder
begin

definition less_eq_range :: "range \<Rightarrow> range \<Rightarrow> bool" where
  "less_eq_range a b \<longleftrightarrow> Lo a < Lo b \<or> Lo a = Lo b \<and> Hi a \<le> Hi b"

definition less_range :: "range \<Rightarrow> range \<Rightarrow> bool" where
  "less_range a b \<longleftrightarrow> Lo a < Lo b \<or> Lo a = Lo b \<and> Hi a < Hi b"

instance
  by standard (auto simp: less_eq_range_def less_range_def intro: range.expand)

end

record ip_set =
  set_ranges :: "range list"
  set_starts :: "u32 list"

fun collapse_loop :: "range \<Rightarrow> range list \<Rightarrow> range list" where
  "collapse_loop cur [] = [cur]"
| "collapse_loop cur (r # rs) =
     (if Lo r \<le> Hi cur \<or> (Hi cur \<noteq> u32_max \<and> Lo r = Hi cur + 1)
      then collapse_loop (if Hi cur < Hi r then Range (Lo cur) (Hi r) else cur) rs
      else cur # collapse_loop r rs)"

definition Collapse :: "range list \<Rightarrow> range list" where
  "Collapse rs = (case sort rs of [] \<Rightarrow> [] | c # cs \<Rightarrow> collapse_loop c cs)"

definition New :: "range list \<Rightarrow> ip_set" where
  "New rs = (let c = Collapse rs in \<lparr>set_ranges = c, set_starts = map Lo c\<rparr>)"

text \<open>A \<open>*Set\<close> may be nil, here \<open>None\<close>; every method tests for it.\<close>

definition set_Len :: "ip_set option \<Rightarrow> nat" where
  "set_Len s = (case s of None \<Rightarrow> 0 | Some t \<Rightarrow> length (set_ranges t))"

definition range_count :: "range \<Rightarrow> u64" where
  "range_count r = ucast (Hi r - Lo r) + 1"

definition sum_counts :: "range list \<Rightarrow> u64" where
  "sum_counts rs = foldl (\<lambda>n r. n + range_count r) 0 rs"

definition AddressCount :: "ip_set option \<Rightarrow> u64" where
  "AddressCount s = (case s of None \<Rightarrow> 0 | Some t \<Rightarrow> sum_counts (set_ranges t))"

definition Ranges :: "ip_set option \<Rightarrow> range list" where
  "Ranges s = (case s of None \<Rightarrow> [] | Some t \<Rightarrow> set_ranges t)"

definition Overlaps :: "ip_set option \<Rightarrow> u32 \<Rightarrow> u32 \<Rightarrow> bool" where
  "Overlaps s lo hi =
     (case s of
        None \<Rightarrow> False
      | Some t \<Rightarrow>
          if hi < lo then False
          else let i = sort_Search (length (set_ranges t)) (\<lambda>k. lo \<le> Hi (set_ranges t ! k))
               in i < length (set_ranges t) \<and> Lo (set_ranges t ! i) \<le> hi)"

definition locate :: "ip_set \<Rightarrow> u32 \<Rightarrow> int" where
  "locate t v = int (sort_Search (length (set_starts t)) (\<lambda>k. v < set_starts t ! k)) - 1"

definition ContainsUint :: "ip_set option \<Rightarrow> u32 \<Rightarrow> bool" where
  "ContainsUint s v =
     (case s of
        None \<Rightarrow> False
      | Some t \<Rightarrow>
          if set_ranges t = [] then False
          else let i = locate t v in 0 \<le> i \<and> v \<le> Hi (set_ranges t ! nat i))"

definition CoversRange :: "ip_set option \<Rightarrow> u32 \<Rightarrow> u32 \<Rightarrow> bool" where
  "CoversRange s lo hi =
     (case s of
        None \<Rightarrow> False
      | Some t \<Rightarrow>
          if set_ranges t = [] \<or> hi < lo then False
          else let i = locate t lo in 0 \<le> i \<and> hi \<le> Hi (set_ranges t ! nat i))"

section \<open>Addresses and prefixes\<close>

text \<open>\<open>toUint32\<close> is called on IPv4 addresses only (\<open>As4\<close> panics on others).\<close>

definition toUint32 :: "addr \<Rightarrow> u32" where
  "toUint32 a =
     (let b = AsSlice a in
      push_bit 24 (ucast (b ! 0)) OR push_bit 16 (ucast (b ! 1)) OR push_bit 8 (ucast (b ! 2)) OR
      ucast (b ! 3))"

definition fromUint32 :: "u32 \<Rightarrow> addr" where
  "fromUint32 v = Addr4 (from_octets [ucast (drop_bit 24 v), ucast (drop_bit 16 v),
     ucast (drop_bit 8 v), ucast v])"

definition set_Contains :: "ip_set option \<Rightarrow> addr \<Rightarrow> bool" where
  "set_Contains s a = (if s = None \<or> \<not> Is4 a then False else ContainsUint s (toUint32 a))"

definition prefixBounds :: "prefix \<Rightarrow> (u32 \<times> u32) option" where
  "prefixBounds p =
     (if \<not> Is4 (pfx_addr p) then None
      else
        let m = Masked p; bits = pfx_bits m in
        if \<not> Is4 (pfx_addr m) \<or> bits < 0 \<or> 32 < bits then None
        else let lo = toUint32 (pfx_addr m); sz = push_bit (32 - nat bits) 1 - 1
             in Some (lo, lo + sz))"

definition PrefixRange :: "prefix \<Rightarrow> range option" where
  "PrefixRange p = map_option (\<lambda>(lo, hi). Range lo hi) (prefixBounds p)"

definition CoversPrefix :: "ip_set option \<Rightarrow> prefix \<Rightarrow> bool" where
  "CoversPrefix s p =
     (if s = None \<or> \<not> Is4 (pfx_addr p) then False
      else case prefixBounds p of None \<Rightarrow> False | Some (lo, hi) \<Rightarrow> CoversRange s lo hi)"

section \<open>Globally routable addresses\<close>

definition v4 :: "nat \<Rightarrow> nat \<Rightarrow> nat \<Rightarrow> nat \<Rightarrow> u32" where
  "v4 a b c d = word_of_nat (a * 16777216 + b * 65536 + c * 256 + d)"

definition nonGlobalPrefixes :: "prefix list" where
  "nonGlobalPrefixes =
     [Prefix (Addr4 (v4 0 0 0 0)) 8, Prefix (Addr4 (v4 10 0 0 0)) 8,
      Prefix (Addr4 (v4 100 64 0 0)) 10, Prefix (Addr4 (v4 127 0 0 0)) 8,
      Prefix (Addr4 (v4 169 254 0 0)) 16, Prefix (Addr4 (v4 172 16 0 0)) 12,
      Prefix (Addr4 (v4 192 0 0 0)) 24, Prefix (Addr4 (v4 192 0 2 0)) 24,
      Prefix (Addr4 (v4 192 88 99 0)) 24, Prefix (Addr4 (v4 192 168 0 0)) 16,
      Prefix (Addr4 (v4 198 18 0 0)) 15, Prefix (Addr4 (v4 198 51 100 0)) 24,
      Prefix (Addr4 (v4 203 0 113 0)) 24, Prefix (Addr4 (v4 224 0 0 0)) 4,
      Prefix (Addr4 (v4 240 0 0 0)) 4]"

definition NonGlobalPrefixes4 :: "prefix list" where
  "NonGlobalPrefixes4 = nonGlobalPrefixes"

definition cut_part :: "range \<Rightarrow> range \<Rightarrow> range list" where
  "cut_part excluded part =
     (if Hi excluded < Lo part \<or> Hi part < Lo excluded then [part]
      else (if Lo part < Lo excluded then [Range (Lo part) (Lo excluded - 1)] else []) @
           (if Hi excluded < Hi part then [Range (Hi excluded + 1) (Hi part)] else []))"

fun global_loop :: "prefix list \<Rightarrow> range list \<Rightarrow> range list" where
  "global_loop [] parts = parts"
| "global_loop (p # ps) parts =
     (case PrefixRange p of
        None \<Rightarrow> global_loop ps parts
      | Some excluded \<Rightarrow>
          let next = concat (map (cut_part excluded) parts)
          in if next = [] then [] else global_loop ps next)"

definition GlobalParts :: "range \<Rightarrow> range list" where
  "GlobalParts r = (if Hi r < Lo r then [] else sort (global_loop nonGlobalPrefixes [r]))"

definition IsGlobalPrefix :: "prefix \<Rightarrow> bool" where
  "IsGlobalPrefix p =
     (if \<not> Is4 (pfx_addr p) then False
      else case prefixBounds (Masked p) of
        None \<Rightarrow> False
      | Some (lo, hi) \<Rightarrow>
          let parts = GlobalParts (Range lo hi)
          in length parts = 1 \<and> Lo (parts ! 0) = lo \<and> Hi (parts ! 0) = hi)"

definition v6_top :: "nat \<Rightarrow> nat \<Rightarrow> u128" where
  "v6_top a b = push_bit 112 (word_of_nat a) OR push_bit 96 (word_of_nat b)"

definition nonGlobalPrefixes6 :: "prefix list" where
  "nonGlobalPrefixes6 =
     [Prefix (Addr6 (v6_top 0x2001 0xdb8) []) 32, Prefix (Addr6 (v6_top 0x2001 0) []) 32,
      Prefix (Addr6 (v6_top 0x2001 0x10) []) 28, Prefix (Addr6 (v6_top 0x2001 0x20) []) 28,
      Prefix (Addr6 (v6_top 0x2001 2) []) 48, Prefix (Addr6 (v6_top 0x3fff 0) []) 20,
      Prefix (Addr6 (v6_top 0x2002 0) []) 16]"

text \<open>The address tests of \<open>net/netip\<close> on an IPv6 address that is not IPv4-mapped.\<close>

definition v6_special :: "addr \<Rightarrow> bool" where
  "v6_special a =
     (case a of
        Addr6 w z \<Rightarrow>
          w = 1 \<or>
          (w = 0 \<and> z = []) \<or>
          drop_bit 120 w = 0xff \<or>
          drop_bit 112 w AND 0xffc0 = 0xfe80 \<or>
          drop_bit 112 w AND 0xff0f = 0xff02 \<or>
          drop_bit 112 w AND 0xff0f = 0xff01 \<or>
          drop_bit 120 w AND 0xfe = 0xfc
      | _ \<Rightarrow> False)"

definition IsGlobalAddr :: "addr \<Rightarrow> bool" where
  "IsGlobalAddr addr =
     (if \<not> IsValid addr then False
      else
        let a = Unmap addr in
        if Is4 a then IsGlobalPrefix (PrefixFrom a 32)
        else if \<not> Is6 a then False
        else if v6_special a then False
        else if (AsSlice a ! 0) AND 0xe0 \<noteq> 0x20 then False
        else \<not> list_ex (\<lambda>p. pfx_Contains p a) nonGlobalPrefixes6)"

section \<open>Subtraction\<close>

fun normalized_from :: "u32 option \<Rightarrow> range list \<Rightarrow> bool" where
  "normalized_from prev [] = True"
| "normalized_from prev (r # rs) =
     (if Hi r < Lo r then False
      else if (case prev of None \<Rightarrow> False | Some h \<Rightarrow> Lo r \<le> h + 1) then False
      else normalized_from (Some (Hi r)) rs)"

definition isNormalized :: "range list \<Rightarrow> bool" where
  "isNormalized rs = normalized_from None rs"

function subtract_span :: "u32 \<Rightarrow> u32 \<Rightarrow> range list \<Rightarrow> range list \<times> range list" where
  "subtract_span cur shi cuts =
     (case dropWhile (\<lambda>c. Hi c < cur) cuts of
        [] \<Rightarrow> ([Range cur shi], [])
      | c # cs \<Rightarrow>
          if shi < Lo c then ([Range cur shi], c # cs)
          else
            let piece = (if cur < Lo c then [Range cur (Lo c - 1)] else []) in
            if shi \<le> Hi c then (piece, c # cs)
            else let cur' = Hi c + 1 in
                 if shi < cur' then (piece, c # cs)
                 else (let (out, rest) = subtract_span cur' shi (c # cs) in (piece @ out, rest)))"
  by pat_completeness auto
termination
proof (relation "measure (\<lambda>(cur, shi, cuts). unat shi - unat cur)", simp_all, goal_cases)
  case (1 cur shi cuts c cs)
  then have "\<not> Hi c < cur" by (metis (mono_tags, lifting) hd_dropWhile list.distinct(1) list.sel(1))
  moreover have lt: "Hi c < shi" using 1 by auto
  moreover have "unat (Hi c + 1) = unat (Hi c) + 1" using lt by (rule unat_succ_less)
  ultimately show ?case by (simp add: word_less_nat_alt not_le not_less)
qed

fun subtract_spans :: "range list \<Rightarrow> range list \<Rightarrow> range list" where
  "subtract_spans [] cuts = []"
| "subtract_spans (s # ss) cuts =
     (let (out, rest) = subtract_span (Lo s) (Hi s) cuts in out @ subtract_spans ss rest)"

definition ipset_Subtract :: "range list \<Rightarrow> range list \<Rightarrow> range list" where
  "ipset_Subtract base remove =
     (if base = [] then []
      else if remove = [] then Collapse base
      else
        let cuts = (if isNormalized remove then remove else Collapse remove);
            spans = (if isNormalized base then base else Collapse base)
        in subtract_spans spans cuts)"

section \<open>Loading\<close>

definition ipset_parsePrefix :: "string \<Rightarrow> prefix option" where
  "ipset_parsePrefix s =
     (if CHR ''/'' \<in> set s then map_option Masked (ParsePrefix s)
      else case ParseAddr s of
        None \<Rightarrow> None
      | Some a \<Rightarrow> if Is4 a then Some (PrefixFrom a 32) else None)"

record load_state =
  ld_ranges :: "range list"
  ld_total :: nat
  ld_skipped :: nat

definition load_line :: "bool \<Rightarrow> string \<Rightarrow> load_state \<Rightarrow> load_state" where
  "load_line global_only raw st =
     (let line = TrimSpace raw in
      if line = [] \<or> HasPrefix line ''#'' then st
      else
        let skip = st\<lparr>ld_skipped := ld_skipped st + 1\<rparr> in
        case ipset_parsePrefix (hd (Fields line)) of
          None \<Rightarrow> skip
        | Some p \<Rightarrow>
            if \<not> Is4 (pfx_addr p) then skip
            else case PrefixRange p of
              None \<Rightarrow> skip
            | Some rg \<Rightarrow>
                if global_only then
                  let parts = GlobalParts rg in
                  if parts = [] then skip
                  else st\<lparr>ld_ranges := ld_ranges st @ parts, ld_total := ld_total st + 1\<rparr>
                else st\<lparr>ld_ranges := ld_ranges st @ [rg], ld_total := ld_total st + 1\<rparr>)"

text \<open>\<open>LoadReader\<close> over the lines the scanner delivers: the set, and the total and skipped counts.\<close>

definition LoadReader :: "bool \<Rightarrow> string list \<Rightarrow> ip_set \<times> nat \<times> nat" where
  "LoadReader global_only ls =
     (let st = fold (load_line global_only) ls \<lparr>ld_ranges = [], ld_total = 0, ld_skipped = 0\<rparr>
      in (New (ld_ranges st), ld_total st, ld_skipped st))"

section \<open>Ranges as prefixes\<close>

fun max_size_loop :: "u32 \<Rightarrow> u32 \<Rightarrow> nat \<Rightarrow> nat" where
  "max_size_loop lo hi 0 = 0"
| "max_size_loop lo hi (Suc m) =
     (let msk = push_bit (32 - m) 1 - 1 in
      if lo AND NOT msk \<noteq> lo then Suc m
      else if hi < lo + msk then Suc m
      else max_size_loop lo hi m)"

function range_loop :: "u32 \<Rightarrow> u32 \<Rightarrow> prefix list" where
  "range_loop lo hi =
     (let maxSize = max_size_loop lo hi 32;
          sz = push_bit (32 - maxSize) 1 - 1
      in PrefixFrom (fromUint32 lo) (int maxSize) #
         (if hi \<le> lo + sz \<or> lo + sz < lo then [] else range_loop (lo + sz + 1) hi))"
  by pat_completeness auto
termination
proof (relation "measure (\<lambda>(lo, hi). unat hi - unat lo)", simp_all add: Let_def, goal_cases)
  case (1 lo hi)
  let ?s = "lo + (push_bit (32 - max_size_loop lo hi 32) 1 - 1)"
  have lt: "?s < hi" and ge: "lo \<le> ?s" using 1 by auto
  have "unat (?s + 1) = unat ?s + 1" using lt by (rule unat_succ_less)
  then show ?case using lt ge by (simp add: word_less_nat_alt word_le_nat_alt add.assoc)
qed

definition rangeToPrefixes :: "range \<Rightarrow> prefix list" where
  "rangeToPrefixes r = range_loop (Lo r) (Hi r)"

definition RangePrefixes :: "range \<Rightarrow> prefix list" where
  "RangePrefixes r = rangeToPrefixes r"

definition set_Prefixes :: "ip_set option \<Rightarrow> prefix list" where
  "set_Prefixes s = (case s of None \<Rightarrow> [] | Some t \<Rightarrow> concat (map rangeToPrefixes (set_ranges t)))"

declare subtract_span.simps [simp del] range_loop.simps [simp del]

section \<open>Ranges as integer spans\<close>

definition span_of :: "range \<Rightarrow> span" where
  "span_of r = Span (uint (Lo r)) (uint (Hi r))"

abbreviation points :: "range list \<Rightarrow> int set" where
  "points rs \<equiv> spans_set (map span_of rs)"

lemma span_of_sel [simp]: "sp_lo (span_of r) = uint (Lo r)" "sp_hi (span_of r) = uint (Hi r)"
  by (simp_all add: span_of_def)

lemma span_of_inject [simp]: "span_of a = span_of b \<longleftrightarrow> a = b"
  by (auto simp: span_of_def word_uint_eq_iff range.expand)

lemma span_of_le [simp]: "span_of a \<le> span_of b \<longleftrightarrow> a \<le> b"
  by (simp add: less_eq_span_def less_eq_range_def word_less_def word_le_def word_uint_eq_iff)

lemma proper_span_of: "proper (span_of r) \<longleftrightarrow> Lo r \<le> Hi r"
  by (simp add: proper_def word_le_def)

lemma map_span_of_inject: "map span_of xs = map span_of ys \<longleftrightarrow> xs = ys"
  by (metis inj_map_eq_map injI span_of_inject)

lemma insort_span_of: "map span_of (insort x xs) = insort (span_of x) (map span_of xs)"
  by (induction xs) auto

lemma sort_span_of: "map span_of (sort xs) = sort (map span_of xs)"
  by (induction xs) (simp_all add: insort_span_of)

text \<open>
  \<open>Collapse\<close> refines \<open>mergeSpans\<close>: the 32-bit test, which avoids the wrap-around of
  \<open>Hi + 1\<close>, is the big-integer test.
\<close>

lemma adjacent_iff:
  "Lo r \<le> Hi cur \<or> (Hi cur \<noteq> u32_max \<and> Lo r = Hi cur + 1) \<longleftrightarrow> uint (Lo r) \<le> uint (Hi cur) + 1"
proof (cases "Hi cur = u32_max")
  case True
  then have "Lo r \<le> Hi cur" by simp
  then show ?thesis by (simp add: word_le_def)
next
  case False
  then have "Hi cur < u32_max" by (simp add: order_less_le)
  then have "uint (Hi cur + 1) = uint (Hi cur) + 1" by (rule uint_succ_less)
  with False show ?thesis by (auto simp: word_le_def word_uint_eq_iff)
qed

lemma collapse_loop_refines:
  "map span_of (collapse_loop cur rs) = merge_loop (span_of cur) (map span_of rs)"
proof (induction cur rs rule: collapse_loop.induct)
  case (2 cur r rs)
  have m: "span_of (if Hi cur < Hi r then Range (Lo cur) (Hi r) else cur) =
      (if uint (Hi cur) < uint (Hi r) then Span (uint (Lo cur)) (uint (Hi r)) else span_of cur)"
    by (simp add: span_of_def word_less_def)
  show ?case
  proof (cases "uint (Lo r) \<le> uint (Hi cur) + 1")
    case True
    then have "Lo r \<le> Hi cur \<or> (Hi cur \<noteq> u32_max \<and> Lo r = Hi cur + 1)"
      by (simp only: adjacent_iff)
    with 2(1) True m show ?thesis by simp
  next
    case False
    then have "\<not> (Lo r \<le> Hi cur \<or> (Hi cur \<noteq> u32_max \<and> Lo r = Hi cur + 1))"
      by (simp only: adjacent_iff) simp
    with 2(2) False show ?thesis by auto
  qed
qed simp

lemma Collapse_refines: "map span_of (Collapse rs) = mergeSpans (map span_of rs)"
  by (cases "sort rs") (simp_all add: Collapse_def mergeSpans_def collapse_loop_refines flip: sort_span_of)

abbreviation wf_ranges :: "range list \<Rightarrow> bool" where
  "wf_ranges rs \<equiv> list_all (\<lambda>r. Lo r \<le> Hi r) rs"

lemma wf_ranges_proper: "wf_ranges rs \<longleftrightarrow> list_all proper (map span_of rs)"
  by (simp add: list_all_iff proper_span_of)

definition normal_ranges :: "range list \<Rightarrow> bool" where
  "normal_ranges rs \<longleftrightarrow> normal (map span_of rs)"

lemma Collapse_points [simp, denotation]: "points (Collapse rs) = points rs"
  by (simp add: Collapse_refines)

lemma Collapse_normal: "wf_ranges rs \<Longrightarrow> normal_ranges (Collapse rs)"
  by (simp add: normal_ranges_def Collapse_refines mergeSpans_normal wf_ranges_proper)

lemma normal_ranges_wf: "normal_ranges rs \<Longrightarrow> wf_ranges rs"
  by (simp add: normal_ranges_def wf_ranges_proper normal_list_all_proper)

lemma normal_ranges_canonical:
  "\<lbrakk>normal_ranges xs; normal_ranges ys; points xs = points ys\<rbrakk> \<Longrightarrow> xs = ys"
  using normal_canonical map_span_of_inject unfolding normal_ranges_def by blast

lemma Collapse_canonical:
  "\<lbrakk>wf_ranges xs; wf_ranges ys; points xs = points ys\<rbrakk> \<Longrightarrow> Collapse xs = Collapse ys"
  by (rule normal_ranges_canonical) (simp_all add: Collapse_normal)

section \<open>Lookups\<close>

text \<open>The invariant of a \<open>Set\<close>: normal ranges, and their starts beside them.\<close>

definition set_inv :: "ip_set \<Rightarrow> bool" where
  "set_inv t \<longleftrightarrow> normal_ranges (set_ranges t) \<and> set_starts t = map Lo (set_ranges t)"

lemma New_inv: "wf_ranges rs \<Longrightarrow> set_inv (New rs)"
  by (simp add: set_inv_def New_def Let_def Collapse_normal)

lemma New_ranges [simp]: "set_ranges (New rs) = Collapse rs"
  by (simp add: New_def Let_def)

text \<open>
  The last range that starts at or below \<open>v\<close>: \<open>locate\<close> returns its index, \<open>-1\<close> for none.
\<close>

lemma locate_spec:
  assumes "set_inv t"
  shows "0 \<le> locate t v \<and> w \<le> Hi (set_ranges t ! nat (locate t v)) \<and> v \<le> w \<longleftrightarrow>
    (\<exists>r \<in> set (set_ranges t). Lo r \<le> v \<and> v \<le> w \<and> w \<le> Hi r)"
proof -
  let ?rs = "set_ranges t" and ?n = "length (set_ranges t)"
  let ?f = "\<lambda>k. v < set_starts t ! k"
  let ?i = "sort_Search ?n ?f"
  have norm: "normal (map span_of ?rs)" and st: "set_starts t = map Lo ?rs"
    using assms by (auto simp: set_inv_def normal_ranges_def)
  have up: "upward ?n ?f"
    unfolding upward_def
  proof (intro allI impI)
    fix a b assume "a \<le> b" "b < ?n" "?f a"
    then show "?f b" using normal_lo_mono [OF norm, of a b "uint v"] st by (simp add: word_less_def)
  qed
  have loc: "locate t v = int ?i - 1" by (simp add: locate_def st)
  have below: "Lo (?rs ! k) \<le> v" if "k < ?i" "k < ?n" for k
    using sort_Search_least(1) [OF up that(1)] that(2) st by simp
  have above: "v < Lo (?rs ! k)" if "?i \<le> k" "k < ?n" for k
    using sort_Search_least(2) [OF up that] that(2) st by simp
  have le: "?i \<le> ?n" by (rule sort_Search_le)
  show ?thesis
  proof
    assume a: "0 \<le> locate t v \<and> w \<le> Hi (?rs ! nat (locate t v)) \<and> v \<le> w"
    then have "nat (locate t v) < ?i" "nat (locate t v) < ?n" using loc le by auto
    then show "\<exists>r \<in> set ?rs. Lo r \<le> v \<and> v \<le> w \<and> w \<le> Hi r"
      using a below by (meson nth_mem)
  next
    assume "\<exists>r \<in> set ?rs. Lo r \<le> v \<and> v \<le> w \<and> w \<le> Hi r"
    then obtain k where k: "k < ?n" "Lo (?rs ! k) \<le> v" "v \<le> w" "w \<le> Hi (?rs ! k)"
      by (auto simp: in_set_conv_nth)
    have ki: "k < ?i" using above k(1,2) by (meson not_le order_le_less_trans less_irrefl)
    have "k = ?i - 1"
    proof (rule ccontr)
      assume "k \<noteq> ?i - 1"
      then have "k < ?i - 1" "?i - 1 < ?n" using ki le by auto
      then have "uint (Hi (?rs ! k)) + 1 < uint (Lo (?rs ! (?i - 1)))"
        using normal_nth_mono [OF norm, of k "?i - 1"] by simp
      moreover have "uint (Lo (?rs ! (?i - 1))) \<le> uint v"
        using below [of "?i - 1"] ki le by (simp add: word_le_def)
      ultimately show False using k(3,4) by (simp add: word_le_def)
    qed
    then have "nat (locate t v) = k" "0 \<le> locate t v" using loc ki by auto
    then show "0 \<le> locate t v \<and> w \<le> Hi (?rs ! nat (locate t v)) \<and> v \<le> w" using k by simp
  qed
qed

lemma mem_points: "uint v \<in> points rs \<longleftrightarrow> (\<exists>r \<in> set rs. Lo r \<le> v \<and> v \<le> Hi r)"
  by (auto simp: mem_spans_set word_le_def)

lemma ContainsUint_iff:
  assumes "set_inv t"
  shows "ContainsUint (Some t) v \<longleftrightarrow> uint v \<in> points (set_ranges t)"
proof (cases "set_ranges t = []")
  case False
  then have "ContainsUint (Some t) v \<longleftrightarrow>
      0 \<le> locate t v \<and> v \<le> Hi (set_ranges t ! nat (locate t v)) \<and> v \<le> v"
    by (simp add: ContainsUint_def Let_def)
  then show ?thesis using locate_spec [OF assms, of v v] by (simp add: mem_points)
qed (simp add: ContainsUint_def)

text \<open>
  A range is covered when a single member range holds it; with normal ranges that is the
  same as every address of it being a member.
\<close>

lemma normal_covers:
  "\<lbrakk>normal xs; lo \<le> hi\<rbrakk> \<Longrightarrow>
   {lo..hi} \<subseteq> spans_set xs \<longleftrightarrow> (\<exists>s \<in> set xs. sp_lo s \<le> lo \<and> hi \<le> sp_hi s)"
proof (induction xs)
  case (Cons x xs)
  show ?case
  proof (cases "lo \<le> sp_hi x")
    case True
    have above: "sp_hi x + 1 < v" if "v \<in> spans_set xs" for v
      by (rule normal_rest_above [OF Cons.prems(1) that])
    have "{lo..hi} \<subseteq> span_set x" if sub: "{lo..hi} \<subseteq> spans_set (x # xs)"
    proof -
      have "hi \<le> sp_hi x"
      proof (rule ccontr)
        assume "\<not> hi \<le> sp_hi x"
        then have "sp_hi x + 1 \<in> spans_set (x # xs)" using True by (intro subsetD [OF sub]) simp
        then show False using above [of "sp_hi x + 1"] by (auto simp: mem_span_set)
      qed
      then have "v \<notin> spans_set xs" if "v \<in> {lo..hi}" for v using above [of v] that by auto
      with sub show ?thesis by auto
    qed
    then have "{lo..hi} \<subseteq> spans_set (x # xs) \<longleftrightarrow> {lo..hi} \<subseteq> span_set x" by auto
    also have "\<dots> \<longleftrightarrow> sp_lo x \<le> lo \<and> hi \<le> sp_hi x" using Cons.prems(2) by (auto simp: span_set_def)
    also have "\<dots> \<longleftrightarrow> (\<exists>s \<in> set (x # xs). sp_lo s \<le> lo \<and> hi \<le> sp_hi s)"
      using Cons.prems True by (fastforce simp: gap_def)
    finally show ?thesis .
  next
    case False
    then have "{lo..hi} \<inter> span_set x = {}" by (auto simp: span_set_def)
    then have "{lo..hi} \<subseteq> spans_set (x # xs) \<longleftrightarrow> {lo..hi} \<subseteq> spans_set xs" by auto
    with Cons False show ?thesis by auto
  qed
qed simp

lemma CoversRange_iff:
  assumes "set_inv t" and "lo \<le> hi"
  shows "CoversRange (Some t) lo hi \<longleftrightarrow> {uint lo..uint hi} \<subseteq> points (set_ranges t)"
proof (cases "set_ranges t = []")
  case True
  then show ?thesis using assms(2) by (auto simp: CoversRange_def word_le_def)
next
  case False
  have "CoversRange (Some t) lo hi \<longleftrightarrow>
      0 \<le> locate t lo \<and> hi \<le> Hi (set_ranges t ! nat (locate t lo)) \<and> lo \<le> hi"
    using False assms(2) by (auto simp: CoversRange_def Let_def)
  also have "\<dots> \<longleftrightarrow> (\<exists>r \<in> set (set_ranges t). Lo r \<le> lo \<and> hi \<le> Hi r)"
    using locate_spec [OF assms(1), of lo hi] assms(2) by auto
  also have "\<dots> \<longleftrightarrow> {uint lo..uint hi} \<subseteq> points (set_ranges t)"
    using assms normal_covers [of "map span_of (set_ranges t)" "uint lo" "uint hi"]
    by (auto simp: set_inv_def normal_ranges_def word_le_def)
  finally show ?thesis .
qed

lemma Overlaps_iff:
  assumes "set_inv t" and "lo \<le> hi"
  shows "Overlaps (Some t) lo hi \<longleftrightarrow> {uint lo..uint hi} \<inter> points (set_ranges t) \<noteq> {}"
proof -
  let ?rs = "set_ranges t"
  let ?xs = "map span_of ?rs"
  let ?i = "sort_Search (length ?rs) (\<lambda>k. lo \<le> Hi (?rs ! k))"
  have norm: "normal ?xs" using assms(1) by (simp add: set_inv_def normal_ranges_def)
  have same: "?i = sort_Search (length ?xs) (\<lambda>k. uint lo \<le> sp_hi (?xs ! k))"
    by (simp, rule sort_Search_cong) (simp add: word_le_def)
  have "Overlaps (Some t) lo hi \<longleftrightarrow> ?i < length ?xs \<and> sp_lo (?xs ! ?i) \<le> uint hi"
  proof -
    have "\<not> hi < lo" using assms(2) by simp
    then show ?thesis by (auto simp: Overlaps_def Let_def word_le_def [of _ hi])
  qed
  also have "\<dots> \<longleftrightarrow> (\<exists>s \<in> set ?xs. uint lo \<le> sp_hi s \<and> sp_lo s \<le> uint hi)"
    by (rule search_hi [OF norm same])
  also have "\<dots> \<longleftrightarrow> {uint lo..uint hi} \<inter> points ?rs \<noteq> {}"
    using normal_proper [OF norm] assms(2) overlap_iff [of _ "uint lo" "uint hi"]
    by (auto simp: spans_set_def word_le_def)
  finally show ?thesis .
qed

section \<open>Subtraction on address sets\<close>

lemma points_Cons: "points (r # rs) = {uint (Lo r)..uint (Hi r)} \<union> points rs"
  by (simp add: span_set_def)

lemma normal_ranges_Nil [simp]: "normal_ranges []"
  by (simp add: normal_ranges_def)

lemma normal_ranges_Cons [simp]:
  "normal_ranges (r # rs) \<longleftrightarrow>
     Lo r \<le> Hi r \<and> (\<forall>x \<in> set rs. uint (Hi r) + 1 < uint (Lo x)) \<and> normal_ranges rs"
  by (auto simp: normal_ranges_def proper_span_of gap_def)

lemma normal_ranges_append:
  "normal_ranges (rs @ ss) \<longleftrightarrow> normal_ranges rs \<and> normal_ranges ss \<and>
     (\<forall>x \<in> set rs. \<forall>y \<in> set ss. uint (Hi x) + 1 < uint (Lo y))"
  by (auto simp: normal_ranges_def normal_append gap_def)

lemma normal_ranges_dropWhile: "normal_ranges rs \<Longrightarrow> normal_ranges (dropWhile P rs)"
  by (induction rs) auto

lemma dropWhile_points:
  "uint cur \<le> v \<Longrightarrow> v \<in> points (dropWhile (\<lambda>c. Hi c < cur) cuts) \<longleftrightarrow> v \<in> points cuts"
  by (induction cuts) (auto simp: mem_span_set word_less_def)

lemma points_above:
  "\<lbrakk>normal_ranges (c # cs); v \<in> points cs\<rbrakk> \<Longrightarrow> uint (Hi c) + 1 < v"
  using normal_rest_above [of "span_of c" "map span_of cs" v] by (simp add: normal_ranges_def)

definition piece_below :: "u32 \<Rightarrow> range \<Rightarrow> range list" where
  "piece_below cur c = (if cur < Lo c then [Range cur (Lo c - 1)] else [])"

lemma piece_below_props:
  shows "points (piece_below cur c) = {uint cur..<uint (Lo c)}"
    and "normal_ranges (piece_below cur c)"
    and "r \<in> set (piece_below cur c) \<Longrightarrow> Lo r = cur \<and> uint (Hi r) = uint (Lo c) - 1"
  using uint_pred_less [of cur "Lo c"]
  by (auto simp: piece_below_def span_set_def word_less_def word_le_def split: if_splits)

text \<open>
  One pass over a span: the pieces are what the cuts leave of it, in normal form, and the cuts
  kept for the next span still hold everything above this one.
\<close>

lemma subtract_span_cases [consumes 1, case_names none above last step]:
  assumes "cur \<le> shi"
  obtains (none) "dropWhile (\<lambda>c. Hi c < cur) cuts = []"
      "subtract_span cur shi cuts = ([Range cur shi], [])"
  | (above) c cs where "dropWhile (\<lambda>c. Hi c < cur) cuts = c # cs" "shi < Lo c"
      "subtract_span cur shi cuts = ([Range cur shi], c # cs)"
  | (last) c cs where "dropWhile (\<lambda>c. Hi c < cur) cuts = c # cs" "Lo c \<le> shi" "cur \<le> Hi c" "shi \<le> Hi c"
      "subtract_span cur shi cuts = (piece_below cur c, c # cs)"
  | (step) c cs where "dropWhile (\<lambda>c. Hi c < cur) cuts = c # cs" "Lo c \<le> shi" "cur \<le> Hi c" "Hi c < shi"
      "subtract_span cur shi cuts =
        (piece_below cur c @ fst (subtract_span (Hi c + 1) shi (c # cs)),
         snd (subtract_span (Hi c + 1) shi (c # cs)))"
proof (cases "dropWhile (\<lambda>c. Hi c < cur) cuts")
  case Nil
  then show thesis by (intro none) (simp_all only: subtract_span.simps [of cur] list.case)
next
  case (Cons c cs)
  have cur: "cur \<le> Hi c"
    using Cons hd_dropWhile [of "\<lambda>c. Hi c < cur" cuts] by (simp add: not_less)
  have noover: "\<not> shi < Hi c + 1" if "Hi c < shi"
    using uint_succ_less [OF that] that by (simp add: word_less_def)
  consider "shi < Lo c" | "Lo c \<le> shi" "shi \<le> Hi c" | "Lo c \<le> shi" "Hi c < shi" by fastforce
  then show thesis
  proof cases
    case 1
    with Cons show thesis by (intro above [of c cs]) (simp_all add: subtract_span.simps [of cur])
  next
    case 2
    then have "\<not> shi < Lo c" by simp
    with 2 Cons cur show thesis
      by (intro last [of c cs]) (simp_all add: subtract_span.simps [of cur] piece_below_def)
  next
    case 3
    then have "\<not> shi < Lo c" "\<not> shi \<le> Hi c" by simp_all
    with 3 Cons cur noover show thesis
      by (intro step [of c cs])
        (simp_all add: subtract_span.simps [of cur] piece_below_def Let_def split_beta)
  qed
qed

lemma subtract_span_correct:
  assumes "normal_ranges cuts" and "cur \<le> shi"
  defines "out \<equiv> fst (subtract_span cur shi cuts)" and "rest \<equiv> snd (subtract_span cur shi cuts)"
  shows "points out = {uint cur..uint shi} - points cuts" and "normal_ranges out"
    and "\<forall>r \<in> set out. cur \<le> Lo r \<and> Hi r \<le> shi"
    and "normal_ranges rest" and "\<forall>v > uint shi. v \<in> points rest \<longleftrightarrow> v \<in> points cuts"
proof -
  have "points (fst (subtract_span cur shi cuts)) = {uint cur..uint shi} - points cuts \<and>
    normal_ranges (fst (subtract_span cur shi cuts)) \<and>
    (\<forall>r \<in> set (fst (subtract_span cur shi cuts)). cur \<le> Lo r \<and> Hi r \<le> shi) \<and>
    normal_ranges (snd (subtract_span cur shi cuts)) \<and>
    (\<forall>v > uint shi. v \<in> points (snd (subtract_span cur shi cuts)) \<longleftrightarrow> v \<in> points cuts)"
    using assms(1,2)
  proof (induction "unat shi - unat cur" arbitrary: cur cuts rule: less_induct)
    case less
    let ?ds = "dropWhile (\<lambda>c. Hi c < cur) cuts"
    have nds: "normal_ranges ?ds" by (rule normal_ranges_dropWhile [OF less.prems(1)])
    have same: "v \<in> points cuts \<longleftrightarrow> v \<in> points ?ds" if "uint cur \<le> v" for v
      using dropWhile_points [OF that] by simp
    have uc: "uint cur \<le> uint shi" using less.prems(2) by (simp add: word_le_def)
    show ?case using less.prems(2)
    proof (cases rule: subtract_span_cases [where cuts = cuts])
      case none
      with same uc less.prems(2) show ?thesis by (auto simp: span_set_def)
    next
      case (above c cs)
      have "v \<notin> points ?ds" if "v \<le> uint shi" for v
        using points_above [of c cs v] nds above(1,2) that
        by (auto simp: mem_span_set word_less_def word_le_def)
      with same uc nds less.prems(2) above show ?thesis by (auto simp: span_set_def)
    next
      case (last c cs)
      have "v \<in> points ?ds \<longleftrightarrow> uint (Lo c) \<le> v" if "v \<le> uint shi" for v
        using points_above [of c cs v] nds last that by (auto simp: mem_span_set word_le_def)
      then have "points (piece_below cur c) = {uint cur..uint shi} - points cuts"
        using same last(2) uc by (auto simp: piece_below_props word_le_def)
      moreover have "cur \<le> Lo r \<and> Hi r \<le> shi" if "r \<in> set (piece_below cur c)" for r
        using piece_below_props(3) [OF that] last(2) by (simp add: word_le_def)
      ultimately show ?thesis using last same uc nds piece_below_props(2) by auto
    next
      case (step c cs)
      let ?r = "subtract_span (Hi c + 1) shi (c # cs)"
      have u: "uint (Hi c + 1) = uint (Hi c) + 1" using step(4) by (rule uint_succ_less)
      have ih: "points (fst ?r) = {uint (Hi c + 1)..uint shi} - points (c # cs) \<and>
        normal_ranges (fst ?r) \<and> (\<forall>r \<in> set (fst ?r). Hi c + 1 \<le> Lo r \<and> Hi r \<le> shi) \<and>
        normal_ranges (snd ?r) \<and>
        (\<forall>v > uint shi. v \<in> points (snd ?r) \<longleftrightarrow> v \<in> points (c # cs))"
      proof (rule less.hyps)
        show "unat shi - unat (Hi c + 1) < unat shi - unat cur"
          using unat_succ_less [OF step(4)] step(3,4) by (simp add: word_le_nat_alt word_less_nat_alt)
        show "normal_ranges (c # cs)" using nds step(1) by simp
        show "Hi c + 1 \<le> shi" using u step(4) by (simp add: word_le_def word_less_def)
      qed
      have c: "Lo c \<le> Hi c" using nds step(1) by simp
      have "{uint cur..uint shi} - points cuts =
          {uint cur..<uint (Lo c)} \<union> ({uint (Hi c + 1)..uint shi} - points (c # cs))"
        using same step(1-4) c points_above [of c cs] nds unfolding u
        by (force simp: word_le_def word_less_def mem_span_set)
      then have "points (piece_below cur c @ fst ?r) = {uint cur..uint shi} - points cuts"
        using ih by (simp add: piece_below_props)
      moreover have "normal_ranges (piece_below cur c @ fst ?r)"
        using ih c u by (auto simp: normal_ranges_append piece_below_props(2) word_le_def
            dest!: piece_below_props(3))
      moreover have "cur \<le> Lo r \<and> Hi r \<le> shi" if "r \<in> set (piece_below cur c @ fst ?r)" for r
        using that ih u step(2,3) by (auto simp: word_le_def dest!: piece_below_props(3))
      ultimately show ?thesis using ih step(1,5) same uc by auto
    qed
  qed
  then show "points out = {uint cur..uint shi} - points cuts" and "normal_ranges out"
    and "\<forall>r \<in> set out. cur \<le> Lo r \<and> Hi r \<le> shi"
    and "normal_ranges rest" and "\<forall>v > uint shi. v \<in> points rest \<longleftrightarrow> v \<in> points cuts"
    unfolding out_def rest_def by blast+
qed

lemma subtract_spans_correct:
  assumes "normal_ranges ss" and "normal_ranges cuts"
  shows "points (subtract_spans ss cuts) = points ss - points cuts"
    and "normal_ranges (subtract_spans ss cuts)"
proof -
  have "points (subtract_spans ss cuts) = points ss - points cuts \<and>
    normal_ranges (subtract_spans ss cuts) \<and>
    (\<forall>r \<in> set (subtract_spans ss cuts). \<exists>s \<in> set ss. uint (Lo s) \<le> uint (Lo r))"
    using assms
  proof (induction ss arbitrary: cuts)
    case (Cons s ss)
    let ?out = "fst (subtract_span (Lo s) (Hi s) cuts)" and ?rest = "snd (subtract_span (Lo s) (Hi s) cuts)"
    have s: "Lo s \<le> Hi s" and ns: "normal_ranges ss" using Cons.prems(1) by auto
    note one = subtract_span_correct [OF Cons.prems(2) s]
    have ih: "points (subtract_spans ss ?rest) = points ss - points ?rest"
        "normal_ranges (subtract_spans ss ?rest)"
        "\<forall>r \<in> set (subtract_spans ss ?rest). \<exists>t \<in> set ss. uint (Lo t) \<le> uint (Lo r)"
      using Cons.IH [OF ns one(4)] by blast+
    have eq: "subtract_spans (s # ss) cuts = ?out @ subtract_spans ss ?rest"
      by (simp add: split_beta)
    have "uint (Hi s) < v" if "v \<in> points ss" for v using points_above [OF Cons.prems(1) that] by simp
    then have "points ss - points ?rest = points ss - points cuts" using one(5) by blast
    then have "points (?out @ subtract_spans ss ?rest) = points (s # ss) - points cuts"
      using one(1) ih(1) by (auto simp: span_set_def)
    moreover have "uint (Hi x) + 1 < uint (Lo y)"
      if "x \<in> set ?out" "y \<in> set (subtract_spans ss ?rest)" for x y
    proof -
      obtain t where "t \<in> set ss" "uint (Lo t) \<le> uint (Lo y)" using ih(3) \<open>y \<in> _\<close> by blast
      moreover from this have "uint (Hi s) + 1 < uint (Lo t)" using Cons.prems(1) by auto
      moreover have "uint (Hi x) \<le> uint (Hi s)" using one(3) \<open>x \<in> _\<close> by (simp add: word_le_def)
      ultimately show ?thesis by linarith
    qed
    ultimately show ?case unfolding eq
      using one(2,3) ih(2,3) by (auto simp: normal_ranges_append word_le_def)
  qed simp
  then show "points (subtract_spans ss cuts) = points ss - points cuts"
    and "normal_ranges (subtract_spans ss cuts)" by blast+
qed

text \<open>
  The test whether an argument is already normal computes \<open>Hi + 1\<close> in 32 bits. It is exact for
  every list in which no range but the last ends at the top address; where one does, it may
  accept a list that is not normal.
\<close>

abbreviation no_wrap :: "range list \<Rightarrow> bool" where
  "no_wrap rs \<equiv> list_all (\<lambda>r. Hi r \<noteq> u32_max) (butlast rs)"

lemma uint_succ: "h \<noteq> u32_max \<Longrightarrow> uint (h + 1) = uint h + 1" for h :: u32
  using uint_succ_less [of h u32_max] by (simp add: order_less_le)

lemma normalized_from_iff:
  "\<lbrakk>no_wrap (r # rs)\<rbrakk> \<Longrightarrow>
   normalized_from prev (r # rs) \<longleftrightarrow>
     (case prev of None \<Rightarrow> True | Some h \<Rightarrow> h + 1 < Lo r) \<and> normal_ranges (r # rs)"
proof (induction rs arbitrary: prev r)
  case Nil
  then show ?case by (auto split: option.splits)
next
  case (Cons q rs)
  have u: "uint (Hi r + 1) = uint (Hi r) + 1" using Cons.prems by (intro uint_succ) simp
  have ih: "normalized_from (Some (Hi r)) (q # rs) \<longleftrightarrow> Hi r + 1 < Lo q \<and> normal_ranges (q # rs)"
    using Cons.IH [of q "Some (Hi r)"] Cons.prems by simp
  have "normalized_from prev (r # q # rs) \<longleftrightarrow>
      (case prev of None \<Rightarrow> True | Some h \<Rightarrow> h + 1 < Lo r) \<and> Lo r \<le> Hi r \<and>
      normalized_from (Some (Hi r)) (q # rs)"
    by (subst normalized_from.simps) (auto split: option.splits)
  also have "\<dots> \<longleftrightarrow> (case prev of None \<Rightarrow> True | Some h \<Rightarrow> h + 1 < Lo r) \<and> normal_ranges (r # q # rs)"
    unfolding ih using u by (fastforce simp: word_less_def word_le_def)
  finally show ?case .
qed

lemma isNormalized_iff: "no_wrap rs \<Longrightarrow> isNormalized rs \<longleftrightarrow> normal_ranges rs"
  by (cases rs) (simp_all add: isNormalized_def normalized_from_iff del: normalized_from.simps(2))

lemma normal_no_wrap: "normal_ranges rs \<Longrightarrow> no_wrap rs"
proof (induction rs)
  case (Cons r rs)
  have "Hi r \<noteq> u32_max" if ne: "rs \<noteq> []"
  proof
    assume m: "Hi r = u32_max"
    obtain q where "q \<in> set rs" using ne by (cases rs) auto
    then have "uint (Hi r) + 1 < uint (Lo q)" using Cons.prems by simp
    moreover have "uint (Lo q) \<le> uint u32_max" using word_n1_ge [of "Lo q"] by (simp only: word_le_def)
    ultimately show False using m by simp
  qed
  with Cons show ?case by simp
qed simp

text \<open>What the interface promises is that an argument the test accepts is normal.\<close>

definition range_arg :: "range list \<Rightarrow> bool" where
  "range_arg rs \<longleftrightarrow> wf_ranges rs \<and> (isNormalized rs \<longrightarrow> normal_ranges rs)"

lemma range_arg_no_wrap: "\<lbrakk>wf_ranges rs; no_wrap rs\<rbrakk> \<Longrightarrow> range_arg rs"
  by (simp add: range_arg_def isNormalized_iff)

lemma range_arg_normal: "normal_ranges rs \<Longrightarrow> range_arg rs"
  by (simp add: range_arg_def normal_ranges_wf)

lemma arg_normal:
  assumes "range_arg rs"
  shows "normal_ranges (if isNormalized rs then rs else Collapse rs)"
    and "points (if isNormalized rs then rs else Collapse rs) = points rs"
  using assms Collapse_normal [of rs] by (auto simp: range_arg_def)

lemma ipset_Subtract_correct:
  assumes "range_arg base" and "range_arg remove"
  shows "points (ipset_Subtract base remove) = points base - points remove"
    and "normal_ranges (ipset_Subtract base remove)"
  using subtract_spans_correct [OF arg_normal(1) [OF assms(1)] arg_normal(1) [OF assms(2)]]
    arg_normal(2) [OF assms(1)] arg_normal(2) [OF assms(2)] Collapse_normal [of base] assms(1)
  by (auto simp: ipset_Subtract_def Let_def range_arg_def)

lemma ipset_Subtract_refines:
  assumes "range_arg base" and "range_arg remove"
  shows "map span_of (ipset_Subtract base remove) =
    subtractSpans (map span_of base) (map span_of remove)"
proof (rule normal_canonical)
  have p: "list_all proper (map span_of base)" "list_all proper (map span_of remove)"
    using assms by (simp_all add: range_arg_def flip: wf_ranges_proper)
  show "normal (subtractSpans (map span_of base) (map span_of remove))"
    using p by (rule subtractSpans_normal)
  show "points (ipset_Subtract base remove) =
      spans_set (subtractSpans (map span_of base) (map span_of remove))"
    using p by (simp add: subtractSpans_set ipset_Subtract_correct(1) [OF assms])
  show "normal (map span_of (ipset_Subtract base remove))"
    using ipset_Subtract_correct(2) [OF assms] by (simp add: normal_ranges_def)
qed

interpretation ranges: interval_algebra points range_arg Collapse ipset_Subtract
proof unfold_locales
  fix xs ys assume "range_arg xs" "range_arg ys"
  then show "points (ipset_Subtract xs ys) = points xs - points ys"
    and "range_arg (ipset_Subtract xs ys)"
    by (simp_all add: ipset_Subtract_correct range_arg_normal)
  show "points xs = points ys \<Longrightarrow> Collapse xs = Collapse ys"
    using \<open>range_arg xs\<close> \<open>range_arg ys\<close> by (intro Collapse_canonical) (simp_all add: range_arg_def)
qed (auto simp: range_arg_def Collapse_normal intro: normal_ranges_wf)

section \<open>Properties\<close>



text \<open>The normal-form test adds one in 32 bits. A range that ends at the top address wraps, a
  list that is not normal passes, and an address that was subtracted is still in the result.\<close>

theorem isNormalized_wraps:
  "isNormalized [Range 0 u32_max, Range 5 10] \<and>
   7 \<in> points (ipset_Subtract [Range 0 u32_max, Range 5 10] [Range 7 7]) \<and> 7 \<in> points [Range 7 7]"
proof -
  have "isNormalized [Range 0 u32_max, Range 5 10]" "isNormalized [Range 7 7]"
    by (simp_all add: isNormalized_def)
  moreover have "ipset_Subtract [Range 0 u32_max, Range 5 10] [Range 7 7] =
      [Range 0 6, Range 8 u32_max, Range 5 10]"
    by code_simp
  ultimately show ?thesis by (simp add: span_set_def)
qed

text \<open>A set built by \<open>New\<close> answers membership, coverage of a range and overlap with a range as
  its address set does.\<close>

theorem New_lookups:
  assumes "wf_ranges rs"
    and "lo \<le> hi"
  shows "(ContainsUint (Some (New rs)) v \<longleftrightarrow> uint v \<in> points rs) \<and>
    (CoversRange (Some (New rs)) lo hi \<longleftrightarrow> {uint lo..uint hi} \<subseteq> points rs) \<and>
    (Overlaps (Some (New rs)) lo hi \<longleftrightarrow> {uint lo..uint hi} \<inter> points rs \<noteq> {})"
  using ContainsUint_iff [OF New_inv [OF assms(1)]] CoversRange_iff [OF New_inv [OF assms(1)] assms(2)]
    Overlaps_iff [OF New_inv [OF assms(1)] assms(2)] by simp

theorem New_lookups_witness:
  "ContainsUint (Some (New [Range 5 10, Range 0 4])) 3 \<and>
   CoversRange (Some (New [Range 5 10, Range 0 4])) 2 7 \<and>
   \<not> Overlaps (Some (New [Range 5 10, Range 0 4])) 11 12"
  using New_lookups [of "[Range 5 10, Range 0 4]" 2 7 3] New_lookups [of "[Range 5 10, Range 0 4]" 11 12 3]
  by (auto simp: span_set_def)

text \<open>\<open>Collapse\<close> is the normal form: it keeps the addresses, its result is sorted with gaps
  between the ranges, and lists with the same addresses have the same result.\<close>

theorem Collapse_normal_form:
  assumes "wf_ranges xs" and "wf_ranges ys"
  shows "points (Collapse xs) = points xs \<and> normal_ranges (Collapse xs) \<and>
    (Collapse xs = Collapse ys \<longleftrightarrow> points xs = points ys)"
  using Collapse_points Collapse_normal [OF assms(1)] Collapse_canonical [OF assms] by metis

theorem Collapse_normal_form_witness:
  "normal_ranges (Collapse [Range 5 10, Range 0 4])"
  using Collapse_normal_form [of "[Range 5 10, Range 0 4]" "[Range 0 10]"] by simp

end
