(* ===== verification/IPSet_Prefix.thy ===== *)
theory IPSet_Prefix
  imports IPSet
begin

text \<open>
  Package \<open>internal/ipset\<close>, continued: the facts on prefixes. A prefix becomes the range of its
  addresses, a range becomes a list of prefixes (the loop of \<open>internal/cidrutil\<close> at 32 bits),
  the globally routable parts of a range, and what a list file loads to.
\<close>

section \<open>Prefixes as ranges\<close>

lemma toUint32_Addr4 [simp]: "toUint32 (Addr4 w) = w"
  using from_octets_octets_4 [of w] by (simp add: toUint32_def octets_4)

lemma fromUint32_eq [simp]: "fromUint32 w = Addr4 w"
  using from_octets_octets_4 [of w] by (simp only: fromUint32_def octets_4)

lemma FormatAddr4_eq: "FormatAddr4 v = v4_String v"
  using from_octets_octets_4 [of v] by (simp add: FormatAddr4_def octets_4)

lemma size_mask: "push_bit n 1 - 1 = (mask n :: 'a::len word)" "2 ^ n - 1 = (mask n :: 'a::len word)"
  by (simp_all add: push_bit_eq_mult mask_eq_exp_minus_1)

lemma prefixBounds_v4:
  "b \<le> 32 \<Longrightarrow> prefixBounds (Prefix (Addr4 w) (int b)) =
     Some (clear_low (32 - b) w, clear_low (32 - b) w + mask (32 - b))"
  by (simp add: prefixBounds_def Let_def size_mask)

lemma prefixBounds_Masked: "prefixBounds (Masked p) = prefixBounds p"
proof (cases p rule: Masked.cases)
  case (2 w b)
  then show ?thesis
    by (auto simp: prefixBounds_def Let_def prefix_zero_def clear_low_def and.assoc)
qed (auto simp: prefixBounds_def prefix_zero_def)

lemma PrefixRange_span:
  assumes "wf_prefix p" and "pfx_IsValid p" and "Is4 (pfx_addr p)"
  shows "\<exists>r. PrefixRange p = Some r \<and> span_of r = spansOfPrefix p \<and> Lo r \<le> Hi r"
  using assms(1,2)
proof (cases rule: valid_cases)
  case (v4 w b)
  let ?lo = "clear_low (32 - b) w"
  have "span_of (Range ?lo (?lo + mask (32 - b))) = spansOfPrefix p"
    using v4 uint_block_end [of "32 - b" w] by (simp add: span_of_def span_v4 clear_low_def)
  moreover from this have "?lo \<le> ?lo + mask (32 - b)"
    using span_proper [OF assms(1,2)] proper_span_of [of "Range ?lo (?lo + mask (32 - b))"] by simp
  ultimately show ?thesis using v4 by (simp add: PrefixRange_def prefixBounds_v4)
qed (use assms(3) in simp)

lemma PrefixRange_None: "\<not> Is4 (pfx_addr p) \<or> \<not> pfx_IsValid p \<Longrightarrow> PrefixRange p = None"
  by (cases p rule: Masked.cases) (auto simp: PrefixRange_def prefixBounds_def prefix_zero_def pfx_IsValid_def Let_def)

lemma CoversPrefix_iff:
  assumes "set_inv t" and "wf_prefix p" and "pfx_IsValid p"
  shows "CoversPrefix (Some t) p \<longleftrightarrow>
    Is4 (pfx_addr p) \<and> span_set (spansOfPrefix p) \<subseteq> points (set_ranges t)"
proof (cases "Is4 (pfx_addr p)")
  case True
  obtain r where "PrefixRange p = Some r" and s: "span_of r = spansOfPrefix p" and le: "Lo r \<le> Hi r"
    using PrefixRange_span [OF assms(2,3) True] by blast
  then have "prefixBounds p = Some (Lo r, Hi r)" by (auto simp: PrefixRange_def)
  with True CoversRange_iff [OF assms(1) le] show ?thesis
    by (simp add: CoversPrefix_def span_set_def flip: s)
qed (simp add: CoversPrefix_def)

lemma set_Contains_iff:
  "set_inv t \<Longrightarrow> set_Contains (Some t) a \<longleftrightarrow> Is4 a \<and> ToBig a \<in> points (set_ranges t)"
  by (cases a) (simp_all add: set_Contains_def ContainsUint_iff)

section \<open>Ranges as prefixes\<close>

text \<open>The 32-bit loops are the big-integer loops of \<open>internal/cidrutil\<close>.\<close>

lemma clear_low_dvd: "\<lbrakk>n \<le> 32; 2 ^ n dvd uint lo\<rbrakk> \<Longrightarrow> clear_low n lo = (lo :: u32)"
  using clear_low_aligned(1) [of n "uint lo", where ?'a = 32] uint_lt2p [of lo]
  by (simp add: word_of_int_uint del: of_int_uint)

lemma max_size_step:
  fixes lo :: u32
  assumes "n \<le> 32" and "2 ^ n dvd uint lo"
  shows "uint (lo + mask n) = uint lo + 2 ^ n - 1"
proof -
  have "clear_low n lo = lo" using assms by (rule clear_low_dvd)
  then show ?thesis using uint_block_end [of n lo] assms(1) by (simp add: clear_low_def)
qed

lemma clear_low_iff_dvd:
  assumes "n \<le> 32"
  shows "lo AND NOT (mask n) = lo \<longleftrightarrow> 2 ^ n dvd uint (lo :: u32)"
proof
  assume "lo AND NOT (mask n) = lo"
  then have "unat lo - unat lo mod 2 ^ n = unat lo" by (metis unat_and_not_mask)
  then have "unat lo mod 2 ^ n = 0" using mod_less_eq_dividend [of "unat lo" "2 ^ n"] by linarith
  then have "2 ^ n dvd unat lo" by (simp add: dvd_eq_mod_eq_0)
  then have "int (2 ^ n) dvd int (unat lo)" by (simp only: of_nat_dvd_iff)
  then show "2 ^ n dvd uint lo" by simp
next
  assume "2 ^ n dvd uint lo"
  then show "lo AND NOT (mask n) = lo"
    using clear_low_dvd [of n lo] assms by (simp add: clear_low_def)
qed

lemma max_size_loop_eq: "sz \<le> 32 \<Longrightarrow> max_size_loop lo hi sz = size_loop 32 (uint lo) (uint hi) sz"
proof (induction sz)
  case (Suc m)
  have e: "32 - Suc m + 1 = 32 - m" using Suc.prems by simp
  have c: "lo AND NOT (mask (32 - m)) \<noteq> lo \<longleftrightarrow> uint lo AND (push_bit (32 - m) 1 - 1) \<noteq> 0"
    using clear_low_iff_dvd [of "32 - m" lo] by (simp add: push_bit_eq_mult and_mask_0_iff_dvd)
  have d: "hi < lo + mask (32 - m) \<longleftrightarrow> uint hi < uint lo + (push_bit (32 - m) 1 - 1)"
    if "2 ^ (32 - m) dvd uint lo"
    using max_size_step [OF _ that] unfolding word_less_def push_bit_eq_mult by auto
  show ?case
    unfolding max_size_loop.simps size_loop.simps Let_def e size_mask c
    using Suc d by (auto simp: push_bit_eq_mult and_mask_0_iff_dvd)
qed simp

lemma range_loop_eq:
  "lo \<le> hi \<Longrightarrow> range_loop lo hi = range_prefixes_loop False (uint lo) (uint hi)"
proof (induction lo hi rule: range_loop.induct)
  case (1 lo hi)
  define sz where "sz = size_loop 32 (uint lo) (uint hi) 32"
  define k where "k = 32 - sz"
  have le: "uint lo \<le> uint hi" using "1.prems" by (simp add: word_le_def)
  have al: "2 ^ k dvd uint lo \<and> uint lo + 2 ^ k - 1 \<le> uint hi \<and> k \<le> 32 \<and> 32 - k = sz"
    unfolding k_def sz_def by (rule size_loop_aligned) (use le in auto)
  have m: "max_size_loop lo hi 32 = sz" by (simp add: max_size_loop_eq sz_def)
  have u: "uint (lo + mask k) = uint lo + 2 ^ k - 1" using al by (intro max_size_step) auto
  have p: "fromUint32 lo = FromBig (uint lo) False" by (simp add: FromBig_def)
  have big: "range_prefixes_loop False (uint lo) (uint hi) =
      PrefixFrom (FromBig (uint lo) False) (int sz) #
      (if 2 ^ 32 \<le> uint lo + 2 ^ k then [] else range_prefixes_loop False (uint lo + 2 ^ k) (uint hi))"
    using le by (subst range_prefixes_loop.simps)
      (simp add: Let_def family_bits_def push_bit_eq_mult sz_def k_def)
  have nl: "\<not> lo + mask k < lo" using u one_le_power [of "2::int" k] unfolding word_less_def by linarith
  have small: "range_loop lo hi = PrefixFrom (fromUint32 lo) (int sz) #
      (if hi \<le> lo + mask k then [] else range_loop (lo + mask k + 1) hi)"
    using nl by (subst range_loop.simps) (simp add: Let_def m size_mask k_def [symmetric])
  show ?case
  proof (cases "hi \<le> lo + mask k")
    case True
    then have "range_prefixes_loop False (uint lo + 2 ^ k) (uint hi) = []"
      using u by (subst range_prefixes_loop.simps) (simp add: word_le_def)
    then show ?thesis using True big small p by simp
  next
    case False
    then have lt: "lo + mask k < hi" by simp
    have s: "uint (lo + mask k + 1) = uint lo + 2 ^ k" using uint_succ_less [OF lt] u by simp
    have "lo + mask k + 1 \<le> hi" using uint_succ_less [OF lt] lt by (simp add: word_le_def word_less_def)
    then have "range_loop (lo + mask k + 1) hi =
        range_prefixes_loop False (uint (lo + mask k + 1)) (uint hi)"
      using "1.IH" [OF refl refl] False nl by (simp add: m size_mask k_def [symmetric])
    moreover have "\<not> 2 ^ 32 \<le> uint lo + 2 ^ k"
      using s uint_lt2p [of "lo + mask k + 1"] by simp
    ultimately show ?thesis using False big small p s by simp
  qed
qed

lemma rangeToPrefixes_eq:
  "Lo r \<le> Hi r \<Longrightarrow> rangeToPrefixes r = rangePrefixes (sp_lo (span_of r)) (sp_hi (span_of r)) False"
  by (simp add: rangeToPrefixes_def rangePrefixes_def range_loop_eq)

lemma span_of_bounded: "wf_ranges rs \<Longrightarrow> bounded False (map span_of rs)"
  using uint_lt2p [where ?'a = 32] by (auto simp: bounded_def list_all_iff proper_span_of family_bits_def)

lemma set_Prefixes_eq:
  "wf_ranges (set_ranges t) \<Longrightarrow> set_Prefixes (Some t) = prefixes_of False (map span_of (set_ranges t))"
  by (induction "set_ranges t" arbitrary: t)
    (auto simp: set_Prefixes_def list_all_iff rangeToPrefixes_eq comp_def intro!: arg_cong [of _ _ concat])

lemma set_Prefixes_addrs:
  assumes "set_inv t"
  shows "pfxs_addrs (set_Prefixes (Some t)) = {Addr4 w |w. uint w \<in> points (set_ranges t)}"
    and "list_all wf_prefix (set_Prefixes (Some t))"
proof -
  let ?xs = "map span_of (set_ranges t)"
  have wf: "wf_ranges (set_ranges t)" using assms by (simp add: set_inv_def normal_ranges_wf)
  note b = span_of_bounded [OF wf] and eq = set_Prefixes_eq [OF wf]
  show w: "list_all wf_prefix (set_Prefixes (Some t))" unfolding eq by (rule prefixes_of_wf [OF b])
  have f: "spans_set (family_spans False (set_Prefixes (Some t))) = points (set_ranges t)"
      "family_spans True (set_Prefixes (Some t)) = []"
    unfolding eq using family_spans_prefixes_of [OF b] by simp_all
  show "pfxs_addrs (set_Prefixes (Some t)) = {Addr4 w |w. uint w \<in> points (set_ranges t)}"
  proof (intro set_eqI)
    fix a show "a \<in> pfxs_addrs (set_Prefixes (Some t)) \<longleftrightarrow>
        a \<in> {Addr4 w |w. uint w \<in> points (set_ranges t)}"
      by (cases a) (simp_all add: pfxs_addrs_iff [OF w] f)
  qed
qed

section \<open>Globally routable parts\<close>

lemma cut_part_props:
  assumes "Lo p \<le> Hi p" and "Lo e \<le> Hi e"
  shows "points (cut_part e p) = span_set (span_of p) - span_set (span_of e)"
    and "normal_ranges (cut_part e p)"
    and "r \<in> set (cut_part e p) \<Longrightarrow> uint (Lo p) \<le> uint (Lo r) \<and> uint (Hi r) \<le> uint (Hi p)"
  using assms uint_pred_less [of "Lo p" "Lo e"] uint_succ_less [of "Hi e" "Hi p"]
  by (auto simp: cut_part_def span_set_def word_less_def word_le_def split: if_splits)

lemma cut_parts_props:
  assumes "normal_ranges ps" and "Lo e \<le> Hi e"
  shows "points (concat (map (cut_part e) ps)) = points ps - span_set (span_of e)"
    and "normal_ranges (concat (map (cut_part e) ps))"
proof -
  have "points (concat (map (cut_part e) ps)) = points ps - span_set (span_of e) \<and>
      normal_ranges (concat (map (cut_part e) ps))"
    using assms(1)
  proof (induction ps)
    case (Cons p ps)
    have p: "Lo p \<le> Hi p" using Cons.prems by simp
    note one = cut_part_props [OF p assms(2)]
    have "uint (Hi x) + 1 < uint (Lo y)"
      if x: "x \<in> set (cut_part e p)" and q: "q \<in> set ps" and y: "y \<in> set (cut_part e q)" for x y q
    proof -
      have "Lo q \<le> Hi q" using Cons.prems q normal_ranges_wf [of ps] by (simp add: list_all_iff)
      then show ?thesis
        using cut_part_props(3) [OF _ assms(2) y] one(3) [OF x] Cons.prems q by fastforce
    qed
    with Cons one(1,2) show ?case by (auto simp: normal_ranges_append)
  qed simp
  then show "points (concat (map (cut_part e) ps)) = points ps - span_set (span_of e)"
    and "normal_ranges (concat (map (cut_part e) ps))" by blast+
qed

definition excluded_points :: "prefix list \<Rightarrow> int set" where
  "excluded_points ps = (\<Union>p \<in> set ps. span_set (spansOfPrefix p))"

lemma global_loop_props:
  assumes "list_all (\<lambda>p. wf_prefix p \<and> pfx_IsValid p \<and> Is4 (pfx_addr p)) ps" and "normal_ranges parts"
  shows "points (global_loop ps parts) = points parts - excluded_points ps"
    and "normal_ranges (global_loop ps parts)"
proof -
  have "points (global_loop ps parts) = points parts - excluded_points ps \<and>
      normal_ranges (global_loop ps parts)"
    using assms
  proof (induction ps arbitrary: parts)
    case (Cons p ps)
    obtain e where e: "PrefixRange p = Some e" "span_of e = spansOfPrefix p" "Lo e \<le> Hi e"
      using PrefixRange_span [of p] Cons.prems(1) by auto
    let ?next = "concat (map (cut_part e) parts)"
    note cut = cut_parts_props [OF Cons.prems(2) e(3)]
    have "global_loop (p # ps) parts = global_loop ps ?next"
      if "?next \<noteq> []" using that e(1) by (auto simp: Let_def)
    moreover have "points parts - span_set (spansOfPrefix p) = {} \<and> global_loop (p # ps) parts = []"
      if "?next = []" using cut(1) e unfolding that by (auto simp: Let_def that)
    ultimately show ?case
      using Cons.IH [OF _ cut(2)] Cons.prems(1) cut(1) e(2)
      by (cases "?next = []") (auto simp: excluded_points_def)
  qed (simp add: excluded_points_def)
  then show "points (global_loop ps parts) = points parts - excluded_points ps"
    and "normal_ranges (global_loop ps parts)" by blast+
qed

lemma nonGlobalPrefixes_wf:
  "list_all (\<lambda>p. wf_prefix p \<and> pfx_IsValid p \<and> Is4 (pfx_addr p)) nonGlobalPrefixes"
  by (simp add: nonGlobalPrefixes_def pfx_IsValid_def)

lemma normal_ranges_sorted: "normal_ranges rs \<Longrightarrow> sorted rs"
proof (induction rs)
  case (Cons r rs)
  have "r \<le> x" if "x \<in> set rs" for x
  proof -
    have "uint (Lo r) \<le> uint (Hi r)" "uint (Hi r) + 1 < uint (Lo x)"
      using Cons.prems that by (simp_all add: word_le_def)
    then show ?thesis by (simp add: less_eq_range_def word_less_def)
  qed
  with Cons show ?case by simp
qed simp

definition nonglobal :: "int set" where
  "nonglobal = excluded_points nonGlobalPrefixes"

lemma GlobalParts_correct:
  assumes "Lo r \<le> Hi r"
  shows "points (GlobalParts r) = span_set (span_of r) - nonglobal"
    and "normal_ranges (GlobalParts r)"
proof -
  have n: "normal_ranges [r]" using assms by simp
  note g = global_loop_props [OF nonGlobalPrefixes_wf n]
  have "GlobalParts r = global_loop nonGlobalPrefixes [r]"
    using assms leD [OF assms] normal_ranges_sorted [OF g(2)] by (simp add: GlobalParts_def sorted_sort_id)
  then show "points (GlobalParts r) = span_set (span_of r) - nonglobal"
    and "normal_ranges (GlobalParts r)" using g by (simp_all add: nonglobal_def)
qed

lemma IsGlobalPrefix_iff:
  assumes "wf_prefix p" and "pfx_IsValid p"
  shows "IsGlobalPrefix p \<longleftrightarrow> Is4 (pfx_addr p) \<and> span_set (spansOfPrefix p) \<inter> nonglobal = {}"
proof (cases "Is4 (pfx_addr p)")
  case True
  obtain r where r: "PrefixRange p = Some r" "span_of r = spansOfPrefix p" "Lo r \<le> Hi r"
    using PrefixRange_span [OF assms True] by blast
  then have b: "prefixBounds (Masked p) = Some (Lo r, Hi r)"
    by (auto simp: PrefixRange_def prefixBounds_Masked)
  let ?g = "GlobalParts r"
  have one: "length xs = 1 \<and> Lo (xs ! 0) = Lo r \<and> Hi (xs ! 0) = Hi r \<longleftrightarrow> xs = [r]" for xs
    by (cases xs) (auto intro: range.expand)
  have "IsGlobalPrefix p \<longleftrightarrow> ?g = [r]"
    using True one [of ?g] by (simp add: IsGlobalPrefix_def b)
  also have "\<dots> \<longleftrightarrow> points ?g = points [r]"
    using normal_ranges_canonical [of ?g "[r]"] GlobalParts_correct(2) [OF r(3)] r(3) by auto
  also have "\<dots> \<longleftrightarrow> span_set (spansOfPrefix p) \<inter> nonglobal = {}"
    using GlobalParts_correct(1) [OF r(3)] r(2) by auto
  finally show ?thesis using True by simp
qed (simp add: IsGlobalPrefix_def)

lemma IsGlobalAddr_v4: "IsGlobalAddr (Addr4 w) \<longleftrightarrow> uint w \<notin> nonglobal"
proof -
  have "IsGlobalAddr (Addr4 w) \<longleftrightarrow> IsGlobalPrefix (Prefix (Addr4 w) (int 32))"
    by (simp add: IsGlobalAddr_def PrefixFrom_def)
  also have "\<dots> \<longleftrightarrow> uint w \<notin> nonglobal"
    by (subst IsGlobalPrefix_iff) (simp_all add: pfx_IsValid_def span_v4 clear_low_def span_set_def
        del: of_nat_numeral)
  finally show ?thesis .
qed

lemma nonglobal_iff:
  "uint w \<in> nonglobal \<longleftrightarrow> (\<exists>p \<in> set nonGlobalPrefixes. pfx_Contains p (Addr4 w))"
proof -
  have "pfx_Contains p (Addr4 w) \<longleftrightarrow> uint w \<in> span_set (spansOfPrefix p)"
    if "p \<in> set nonGlobalPrefixes" for p
    using pfx_Contains_span [of p "Addr4 w"] nonGlobalPrefixes_wf that
    by (cases "pfx_addr p") (auto simp: list_all_iff)
  then show ?thesis by (auto simp: nonglobal_def excluded_points_def)
qed

section \<open>Loaded sets\<close>

definition line_range :: "string \<Rightarrow> range option" where
  "line_range raw =
     (let line = TrimSpace raw in
      if line = [] \<or> HasPrefix line ''#'' then None
      else Option.bind (ipset_parsePrefix (hd (Fields line))) PrefixRange)"

lemma ipset_parsePrefix_wf:
  "ipset_parsePrefix s = Some p \<Longrightarrow> wf_prefix p \<and> pfx_IsValid p"
  using cidr_ParsePrefix_wf [of s p]
  by (cases "CHR ''/'' \<in> set s")
    (auto simp: ipset_parsePrefix_def cidr_ParsePrefix_def PrefixFrom_def pfx_IsValid_def
      split: option.splits if_splits elim: Is4.elims)

lemma line_range_wf: "line_range raw = Some r \<Longrightarrow> Lo r \<le> Hi r"
proof -
  assume "line_range raw = Some r"
  then obtain p where p: "ipset_parsePrefix (hd (Fields (TrimSpace raw))) = Some p" "PrefixRange p = Some r"
    by (auto simp: line_range_def Let_def bind_eq_Some_conv split: if_splits)
  moreover from p have "Is4 (pfx_addr p)" using PrefixRange_None [of p] by force
  ultimately show ?thesis using PrefixRange_span [of p] ipset_parsePrefix_wf by fastforce
qed

lemma load_line_step:
  "points (ld_ranges (load_line g raw st)) = points (ld_ranges st) \<union>
     (case line_range raw of None \<Rightarrow> {} | Some r \<Rightarrow> span_set (span_of r) - (if g then nonglobal else {}))"
  "wf_ranges (ld_ranges st) \<Longrightarrow> wf_ranges (ld_ranges (load_line g raw st))"
proof -
  have n: "PrefixRange p = None" if "\<not> Is4 (pfx_addr p)" for p using PrefixRange_None that by blast
  have e: "GlobalParts r = [] \<Longrightarrow> span_set (span_of r) - nonglobal = {}" "wf_ranges (GlobalParts r)"
    "points (GlobalParts r) = span_set (span_of r) - nonglobal"
    if "line_range raw = Some r" for r
    using GlobalParts_correct [OF line_range_wf [OF that]] normal_ranges_wf by auto
  show "points (ld_ranges (load_line g raw st)) = points (ld_ranges st) \<union>
     (case line_range raw of None \<Rightarrow> {} | Some r \<Rightarrow> span_set (span_of r) - (if g then nonglobal else {}))"
    using e by (auto simp: load_line_def line_range_def Let_def n split: option.splits if_splits)
  show "wf_ranges (ld_ranges (load_line g raw st))" if "wf_ranges (ld_ranges st)"
    using e line_range_wf [of raw] that
    by (auto simp: load_line_def line_range_def Let_def n split: option.splits if_splits)
qed

lemma LoadReader_ranges:
  "points (ld_ranges (fold (load_line g) ls st)) = points (ld_ranges st) \<union>
     (\<Union>raw \<in> set ls. case line_range raw of None \<Rightarrow> {}
        | Some r \<Rightarrow> span_set (span_of r) - (if g then nonglobal else {}))"
  "wf_ranges (ld_ranges st) \<Longrightarrow> wf_ranges (ld_ranges (fold (load_line g) ls st))"
  by (induction ls arbitrary: st) (auto simp: load_line_step)

section \<open>Counting\<close>

lemma range_count_card:
  assumes "Lo r \<le> Hi r"
  shows "range_count r = word_of_nat (card (span_set (span_of r)))"
proof -
  have le: "uint (Lo r) \<le> uint (Hi r)" using assms by (simp add: word_le_def)
  have "uint (Hi r - Lo r) = uint (Hi r) - uint (Lo r)" using assms by (rule uint_sub_ge)
  then have "range_count r = word_of_int (uint (Hi r) - uint (Lo r) + 1)"
    by (simp only: range_count_def ucast_eq) simp
  also have "\<dots> = word_of_int (int (card (span_set (span_of r))))" using le by (simp add: span_set_def)
  finally show ?thesis by simp
qed

lemma sum_counts_card:
  "normal_ranges rs \<Longrightarrow> foldl (\<lambda>n r. n + range_count r) a rs = a + word_of_nat (card (points rs))"
proof (induction rs arbitrary: a)
  case (Cons r rs)
  have "span_set (span_of r) \<inter> points rs = {}"
    using points_above [OF Cons.prems] by (fastforce simp: mem_span_set)
  moreover have "finite (span_set (span_of r))" "finite (points rs)"
    by (auto simp: span_set_def spans_set_def)
  ultimately have "card (points (r # rs)) = card (span_set (span_of r)) + card (points rs)"
    by (simp add: card_Un_disjoint)
  with Cons range_count_card [of r] show ?case by simp
qed simp

lemma card_points: "card (points rs) \<le> 2 ^ 32"
proof -
  have "points rs \<subseteq> {0..<2 ^ 32}"
  proof
    fix v assume "v \<in> points rs"
    then obtain r where "uint (Lo r) \<le> v" "v \<le> uint (Hi r)" by (auto simp: mem_spans_set)
    moreover have "0 \<le> uint (Lo r)" "uint (Hi r) < 2 ^ 32" using uint_lt2p [of "Hi r"] by simp_all
    ultimately have "0 \<le> v" "v < 2 ^ 32" by linarith+
    then show "v \<in> {0..<2 ^ 32}" by simp
  qed
  then have "card (points rs) \<le> card {0..<2 ^ 32 :: int}" by (intro card_mono) simp_all
  then show ?thesis by simp
qed

lemma AddressCount_card:
  assumes "set_inv t"
  shows "unat (AddressCount (Some t)) = card (points (set_ranges t))"
proof -
  have "AddressCount (Some t) = word_of_nat (card (points (set_ranges t)))"
    using assms sum_counts_card [of "set_ranges t" 0]
    by (simp add: AddressCount_def sum_counts_def set_inv_def)
  moreover have "card (points (set_ranges t)) < 2 ^ 64" using card_points [of "set_ranges t"] by simp
  ultimately show ?thesis by (simp add: unsigned_of_nat take_bit_eq_mod)
qed

lemma IsGlobalPrefix_contains:
  assumes "wf_prefix p" and "pfx_IsValid p"
  shows "IsGlobalPrefix p \<longleftrightarrow>
    Is4 (pfx_addr p) \<and> (\<forall>w. pfx_Contains p (Addr4 w) \<longrightarrow> \<not> (\<exists>q \<in> set nonGlobalPrefixes. pfx_Contains q (Addr4 w)))"
proof (cases "Is4 (pfx_addr p)")
  case True
  then have n6: "\<not> Is6 (pfx_addr p)" by (cases "pfx_addr p") auto
  have c: "pfx_Contains p (Addr4 w) \<longleftrightarrow> uint w \<in> span_set (spansOfPrefix p)" for w
    using pfx_Contains_span [OF assms, of "Addr4 w"] n6 by simp
  have "\<exists>w :: u32. v = uint w" if "v \<in> span_set (spansOfPrefix p)" for v
  proof -
    have "0 \<le> v" "v < 2 ^ 32"
      using span_bounds [OF assms] n6 that by (auto simp: mem_span_set family_bits_def)
    then have "v = uint (word_of_int v :: u32)" by (simp add: uint_word_of_int)
    then show ?thesis by blast
  qed
  then have "span_set (spansOfPrefix p) \<inter> nonglobal = {} \<longleftrightarrow>
      (\<forall>w :: u32. uint w \<in> span_set (spansOfPrefix p) \<longrightarrow> uint w \<notin> nonglobal)"
    by blast
  then show ?thesis using True by (simp add: IsGlobalPrefix_iff [OF assms] c nonglobal_iff)
qed (simp add: IsGlobalPrefix_def)

lemma LoadReader_member:
  "ContainsUint (Some (fst (LoadReader g ls))) w \<longleftrightarrow>
     (\<exists>raw \<in> set ls. \<exists>r. line_range raw = Some r \<and> Lo r \<le> w \<and> w \<le> Hi r) \<and>
     (g \<longrightarrow> IsGlobalAddr (Addr4 w))"
proof -
  let ?st = "fold (load_line g) ls \<lparr>ld_ranges = [], ld_total = 0, ld_skipped = 0\<rparr>"
  have wf: "wf_ranges (ld_ranges ?st)" by (rule LoadReader_ranges(2)) simp
  have "ContainsUint (Some (fst (LoadReader g ls))) w \<longleftrightarrow> uint w \<in> points (ld_ranges ?st)"
    using ContainsUint_iff [OF New_inv [OF wf]] by (simp add: LoadReader_def Let_def)
  also have "\<dots> \<longleftrightarrow> (\<exists>raw \<in> set ls. \<exists>r. line_range raw = Some r \<and> Lo r \<le> w \<and> w \<le> Hi r) \<and>
      (g \<longrightarrow> IsGlobalAddr (Addr4 w))"
    unfolding LoadReader_ranges(1)
    by (auto simp: IsGlobalAddr_v4 mem_span_set word_le_def split: option.splits if_splits)
  finally show ?thesis .
qed

section \<open>Properties\<close>



text \<open>A valid IPv4 prefix is global exactly when none of its addresses lies in a special purpose
  prefix; an IPv6 prefix never is.\<close>

theorem IsGlobalPrefix_no_special:
  assumes "wf_prefix p" and "pfx_IsValid p"
  shows "IsGlobalPrefix p \<longleftrightarrow>
    Is4 (pfx_addr p) \<and> (\<forall>w. pfx_Contains p (Addr4 w) \<longrightarrow> \<not> (\<exists>q \<in> set nonGlobalPrefixes. pfx_Contains q (Addr4 w)))"
  by (rule IsGlobalPrefix_contains [OF assms])

theorem IsGlobalPrefix_no_special_witness:
  "IsGlobalPrefix (Prefix (Addr4 0x08080800) 24) \<longleftrightarrow>
    (\<forall>w. pfx_Contains (Prefix (Addr4 0x08080800) 24) (Addr4 w) \<longrightarrow>
       \<not> (\<exists>q \<in> set nonGlobalPrefixes. pfx_Contains q (Addr4 w)))"
  using IsGlobalPrefix_no_special [of "Prefix (Addr4 0x08080800) 24"] by (simp add: pfx_IsValid_def)

text \<open>The 32-bit loop that splits a range into prefixes computes the same list as the
  big-integer loop, and the prefixes of a set cover exactly the addresses of its ranges.\<close>

theorem set_Prefixes_roundtrip:
  assumes "wf_ranges rs"
  shows "pfxs_addrs (set_Prefixes (Some (New rs))) = {Addr4 w |w. uint w \<in> points rs} \<and>
    (\<forall>r \<in> set rs. rangeToPrefixes r = rangePrefixes (uint (Lo r)) (uint (Hi r)) False)"
  using set_Prefixes_addrs(1) [OF New_inv [OF assms]] rangeToPrefixes_eq assms
  by (simp add: list_all_iff)

theorem set_Prefixes_roundtrip_witness:
  "pfxs_addrs (set_Prefixes (Some (New [Range 5 10, Range 0 4]))) =
     {Addr4 w |w. uint w \<in> points [Range 5 10, Range 0 4]}"
  by (rule set_Prefixes_roundtrip [THEN conjunct1]) simp

text \<open>The set a list file loads to contains an address exactly when a line of the file names a
  prefix or address that covers it, less the special purpose addresses where only global ones
  are asked for.\<close>

theorem LoadReader_contains:
  "ContainsUint (Some (fst (LoadReader g ls))) w \<longleftrightarrow>
     (\<exists>raw \<in> set ls. \<exists>r. line_range raw = Some r \<and> Lo r \<le> w \<and> w \<le> Hi r) \<and>
     (g \<longrightarrow> IsGlobalAddr (Addr4 w))"
  by (rule LoadReader_member)

theorem LoadReader_contains_witness:
  "ContainsUint (Some (fst (LoadReader False []))) 1 \<longleftrightarrow> False"
  using LoadReader_contains [of False "[]" 1] by simp

text \<open>The 64-bit address count of a set is the number of its addresses, without overflow.\<close>

theorem AddressCount_exact:
  assumes "wf_ranges rs"
  shows "unat (AddressCount (Some (New rs))) = card (points rs)"
  using AddressCount_card [OF New_inv [OF assms]] by simp

theorem AddressCount_exact_witness:
  "unat (AddressCount (Some (New [Range 5 10, Range 0 4]))) = card (points [Range 5 10, Range 0 4])"
  using AddressCount_exact [of "[Range 5 10, Range 0 4]"] by simp

end
