(* ===== verification/Bufio.thy ===== *)
theory Bufio
  imports Go_Strings
begin

text \<open>
  The line scanner of the standard library, \<open>bufio.Scanner\<close>, as the file readers of the program set it
  up, and the substring test.
\<close>

text \<open>
  \<open>bufio.Scanner\<close> with a buffer of at most \<open>limit\<close> bytes: the lines without their end (one carriage
  return before it is dropped too), and whether no line was too long, which ends the scan. The readers
  set a limit of 4 MiB; a scanner left as it is has one of 64 KiB.
\<close>

definition maxLine :: int where "maxLine = 4 * 1024 * 1024"
definition maxToken :: int where "maxToken = 64 * 1024"

fun scan_pieces :: "int \<Rightarrow> string list \<Rightarrow> string list \<times> bool" where
  "scan_pieces limit [] = ([], True)"
| "scan_pieces limit [l] = (if l = [] then ([], True) else if limit \<le> int (length l) then ([], False)
     else ([TrimSuffix (CHR 0x0D) l], True))"
| "scan_pieces limit (l # ls) =
     (if limit \<le> int (length l) then ([], False)
      else let (rest, ok) = scan_pieces limit ls in (TrimSuffix (CHR 0x0D) l # rest, ok))"

definition ScanLines :: "string \<Rightarrow> string list \<times> bool" where
  "ScanLines body = scan_pieces maxLine (Split (CHR 0x0A) body)"

definition ScanShort :: "string \<Rightarrow> string list \<times> bool" where
  "ScanShort body = scan_pieces maxToken (Split (CHR 0x0A) body)"

fun strings_Contains :: "string \<Rightarrow> string \<Rightarrow> bool" where
  "strings_Contains [] sub \<longleftrightarrow> sub = []"
| "strings_Contains (c # s) sub \<longleftrightarrow> prefix sub (c # s) \<or> strings_Contains s sub"

lemma strings_Contains_iff: "strings_Contains s sub \<longleftrightarrow> (\<exists>a b. s = a @ sub @ b)"
proof (induction s)
  case (Cons c s)
  have "(\<exists>a b. c # s = a @ sub @ b) \<longleftrightarrow> prefix sub (c # s) \<or> (\<exists>a b. s = a @ sub @ b)"
    by (auto simp: prefix_def Cons_eq_append_conv)
  with Cons show ?case by simp
qed simp

text \<open>A text whose lines are short and end without a carriage return is scanned into its lines.\<close>

lemma scan_pieces_short:
  "\<lbrakk>\<forall>l \<in> set ls. int (length l) < limit \<and> (l = [] \<or> last l \<noteq> CHR 0x0D)\<rbrakk> \<Longrightarrow>
    scan_pieces limit (ls @ [[]]) = (ls, True)"
proof (induction ls)
  case (Cons l ls)
  then show ?case by (cases ls) (auto simp: TrimSuffix_def)
qed simp

lemma scan_lines:
  assumes "\<forall>l \<in> set ls. CHR 0x0A \<notin> set l \<and> int (length l) < limit \<and> (l = [] \<or> last l \<noteq> CHR 0x0D)"
  shows "scan_pieces limit (Split (CHR 0x0A) (concat (map (\<lambda>l. l @ [CHR 0x0A]) ls))) = (ls, True)"
  using assms Split_lines [of ls "CHR 0x0A"] by (simp add: scan_pieces_short)

lemmas ScanLines_lines = scan_lines [of _ maxLine, folded ScanLines_def]
  and ScanShort_lines = scan_lines [of _ maxToken, folded ScanShort_def]

end
