(* ===== verification/Authority.thy ===== *)
theory Authority
  imports Resolve Domain IPSet_Prefix Bufio
begin

text \<open>
  Package \<open>authority\<close>: is a name served from the mainland? The zone that holds the name is looked for
  from the name upwards, its name servers are resolved, and the verdict says whether one of their
  addresses is a mainland one. Many names are classified concurrently with a shared cache of zones.
  The answers of the resolver are a parameter: \<open>ask\<close> is the answer to a name and a record type.
\<close>

type_synonym asks = "string \<Rightarrow> u16 \<Rightarrow> answer"

section \<open>Verdicts\<close>

definition MaxNSPerZone :: nat where "MaxNSPerZone = 8"

definition VerdictCN :: string where "VerdictCN = ''cn''"
definition VerdictNone :: string where "VerdictNone = ''unknown''"
definition ReasonNoFinalAnswer :: string where "ReasonNoFinalAnswer = ''no_final_answer''"
definition ReasonNoAuthorityIP :: string where "ReasonNoAuthorityIP = ''no_authority_ip''"
definition ReasonNoZoneWithAuthority :: string where "ReasonNoZoneWithAuthority = ''no_zone_with_authority''"

record auth_verdict =
  av_Domain :: string
  av_Zone :: string
  av_Verdict :: string
  av_Reason :: string
  av_AuthorityIPs :: "addr list"
  av_CNAuthorityIPs :: "addr list"

type_synonym zone_cache = "string \<rightharpoonup> auth_verdict"

definition isRoutable :: "addr \<Rightarrow> bool" where
  "isRoutable a = IsGlobalAddr a"

definition nsNames :: "asks \<Rightarrow> string \<Rightarrow> string list" where
  "nsNames ask zone =
     (let names = TargetNames (ask zone TypeNS) TypeNS in
      if 0 < length names then (if MaxNSPerZone < length names then take MaxNSPerZone names else names)
      else take 1 (TargetNames (ask zone TypeSOA) TypeSOA))"

text \<open>The loop that unmaps, drops what is not routable and keeps the first of equal addresses.\<close>

fun keep_routable :: "addr set \<Rightarrow> addr list \<Rightarrow> addr list" where
  "keep_routable seen [] = []"
| "keep_routable seen (a0 # as) =
     (let a = Unmap a0 in
      if \<not> isRoutable a \<or> a \<in> seen then keep_routable seen as
      else a # keep_routable (insert a seen) as)"

definition both_families :: "asks \<Rightarrow> string \<Rightarrow> addr list" where
  "both_families ask name = fst (Addresses (ask name TypeA)) @ snd (Addresses (ask name TypeAAAA))"

definition authorityIPs :: "asks \<Rightarrow> string \<Rightarrow> addr list" where
  "authorityIPs ask zone =
     (let names = nsNames ask zone in
      if names = [] then [] else sort (keep_routable {} (concat (map (both_families ask) names))))"

definition FinalRecords :: "asks \<Rightarrow> string \<Rightarrow> addr list" where
  "FinalRecords ask name = sort (keep_routable {} (both_families ask name))"

section \<open>The authorities of a name\<close>

record zone_authority =
  za_Zone :: string
  za_ByName :: "string \<rightharpoonup> addr list"

fun by_name :: "asks \<Rightarrow> string list \<Rightarrow> (string \<rightharpoonup> addr list) \<Rightarrow> (string \<rightharpoonup> addr list)" where
  "by_name ask [] acc = acc"
| "by_name ask (ns # rest) acc =
     by_name ask rest
       (fold (\<lambda>a m. if isRoutable (Unmap a) then m(ns \<mapsto> (case m ns of None \<Rightarrow> [] | Some xs \<Rightarrow> xs) @ [Unmap a]) else m)
         (fst (Addresses (ask ns TypeA))) acc)"

fun authorities_loop :: "asks \<Rightarrow> string list \<Rightarrow> zone_authority" where
  "authorities_loop ask (l # l' # ls) =
     (let zone = Join (CHR ''.'') (l # l' # ls); names = nsNames ask zone; byName = by_name ask names Map.empty in
      if names = [] then authorities_loop ask (l' # ls)
      else if list_ex (\<lambda>ns. byName ns \<noteq> None) names then \<lparr>za_Zone = zone, za_ByName = byName\<rparr>
      else authorities_loop ask (l' # ls))"
| "authorities_loop ask ls = \<lparr>za_Zone = [], za_ByName = Map.empty\<rparr>"

definition Authorities :: "asks \<Rightarrow> string \<Rightarrow> zone_authority" where
  "Authorities ask name = authorities_loop ask (Split (CHR ''.'') (NormalizeName name))"

section \<open>One name\<close>

text \<open>The verdict of a zone with authority addresses \<open>ips\<close>, of which \<open>cn\<close> are mainland ones.\<close>

definition zone_verdict :: "(addr \<Rightarrow> bool) option \<Rightarrow> string \<Rightarrow> string \<Rightarrow> addr list \<Rightarrow> auth_verdict" where
  "zone_verdict m d zone ips =
     (let cn = filter (\<lambda>a. case m of None \<Rightarrow> False | Some isMainland \<Rightarrow> isMainland a) ips in
      \<lparr>av_Domain = d, av_Zone = zone,
       av_Verdict = (if 0 < length cn then VerdictCN else VerdictNone),
       av_Reason = (if 0 < length cn
         then ''authority_in_cn('' @ dec_digits (length cn) @ ''/'' @ dec_digits (length ips) @ '')''
         else ''authority_all_offshore(0/'' @ dec_digits (length ips) @ '')''),
       av_AuthorityIPs = ips, av_CNAuthorityIPs = cn\<rparr>)"

definition unknown_verdict :: "string \<Rightarrow> string \<Rightarrow> string \<Rightarrow> auth_verdict" where
  "unknown_verdict d zone reason =
     \<lparr>av_Domain = d, av_Zone = zone, av_Verdict = VerdictNone, av_Reason = reason, av_AuthorityIPs = [], av_CNAuthorityIPs = []\<rparr>"

text \<open>The loop over the zones of the name; a cache that is not there is \<open>None\<close>.\<close>

fun classify_loop :: "asks \<Rightarrow> (addr \<Rightarrow> bool) option \<Rightarrow> psl option \<Rightarrow> string \<Rightarrow> string list \<Rightarrow> zone_cache option \<Rightarrow> auth_verdict \<times> zone_cache option" where
  "classify_loop ask m psl d (l # l' # ls) cache =
     (let zone = Join (CHR ''.'') (l # l' # ls) in
      if (case psl of None \<Rightarrow> False | Some p \<Rightarrow> zone \<noteq> d \<and> IsPublicSuffix (Some p) zone)
      then classify_loop ask m psl d (l' # ls) cache
      else case Option.bind cache (\<lambda>c. c zone) of
        Some cached \<Rightarrow>
          if av_Verdict cached \<noteq> VerdictNone then (cached\<lparr>av_Domain := d, av_Zone := zone\<rparr>, cache)
          else classify_loop ask m psl d (l' # ls) cache
      | None \<Rightarrow>
          let ips = authorityIPs ask zone in
          if ips = [] then
            classify_loop ask m psl d (l' # ls)
              (map_option (\<lambda>c. c(zone \<mapsto> unknown_verdict d zone ReasonNoAuthorityIP)) cache)
          else
            let result = zone_verdict m d zone ips
            in (result, map_option (\<lambda>c. c(zone \<mapsto> result)) cache))"
| "classify_loop ask m psl d ls cache = (unknown_verdict d d ReasonNoZoneWithAuthority, cache)"

definition ClassifyOne :: "asks \<Rightarrow> (addr \<Rightarrow> bool) option \<Rightarrow> string \<Rightarrow> psl option \<Rightarrow> zone_cache option \<Rightarrow> auth_verdict \<times> zone_cache option" where
  "ClassifyOne ask m name psl cache =
     (let d = NormalizeName name in
      if length (FinalRecords ask d) = 0 then (unknown_verdict d d ReasonNoFinalAnswer, cache)
      else classify_loop ask m psl d (Split (CHR ''.'') d) cache)"

section \<open>Many names\<close>

text \<open>
  \<open>ClassifyMany\<close> runs a goroutine for each name. Each waits for a place of the semaphore, copies the
  cache under the lock, classifies with its copy, then adds what the cache lacks under the lock and
  leaves. The steps of a run are the two locked sections, in any order the scheduler chooses.
\<close>

datatype task = Waiting | Running zone_cache | Done auth_verdict

record many_state =
  ms_cache :: zone_cache
  ms_tasks :: "task list"

definition places :: "int \<Rightarrow> nat" where
  "places concurrency = (if concurrency < 1 then 1 else nat concurrency)"

definition running :: "task list \<Rightarrow> nat" where
  "running ts = length (filter (\<lambda>t. case t of Running _ \<Rightarrow> True | _ \<Rightarrow> False) ts)"

definition merge_cache :: "zone_cache \<Rightarrow> zone_cache \<Rightarrow> zone_cache" where
  "merge_cache cache loc = (\<lambda>k. case cache k of Some v \<Rightarrow> Some v | None \<Rightarrow> loc k)"

definition many_start :: "string list \<Rightarrow> many_state" where
  "many_start names = \<lparr>ms_cache = Map.empty, ms_tasks = replicate (length names) Waiting\<rparr>"

inductive many_step :: "asks \<Rightarrow> (addr \<Rightarrow> bool) option \<Rightarrow> string list \<Rightarrow> psl option \<Rightarrow> int \<Rightarrow> many_state \<Rightarrow> many_state \<Rightarrow> bool"
  for ask m names psl concurrency where
  enter: "\<lbrakk>i < length (ms_tasks s); ms_tasks s ! i = Waiting; running (ms_tasks s) < places concurrency\<rbrakk>
    \<Longrightarrow> many_step ask m names psl concurrency s (s\<lparr>ms_tasks := (ms_tasks s)[i := Running (ms_cache s)]\<rparr>)"
| leave: "\<lbrakk>i < length (ms_tasks s); ms_tasks s ! i = Running loc;
     ClassifyOne ask m (names ! i) psl (Some loc) = (v, Some loc')\<rbrakk>
    \<Longrightarrow> many_step ask m names psl concurrency s
      \<lparr>ms_cache = merge_cache (ms_cache s) loc', ms_tasks = (ms_tasks s)[i := Done v]\<rparr>"

definition many_done :: "many_state \<Rightarrow> bool" where
  "many_done s \<longleftrightarrow> list_all (\<lambda>t. case t of Done _ \<Rightarrow> True | _ \<Rightarrow> False) (ms_tasks s)"

section \<open>Collapsing names into their parents\<close>

fun dedup_loop :: "string set \<Rightarrow> string list \<Rightarrow> string list" where
  "dedup_loop seen [] = []"
| "dedup_loop seen (v0 # vs) =
     (let v = NormalizeName v0 in
      if v = [] \<or> v \<in> seen then dedup_loop seen vs else v # dedup_loop (insert v seen) vs)"

definition dedupSorted :: "string list \<Rightarrow> string list" where
  "dedupSorted vs = sort (dedup_loop {} vs)"

record outcome =
  oc_name :: string
  oc_parent :: string
  oc_hasAnswer :: bool

definition resolution_outcome :: "asks \<Rightarrow> string set \<Rightarrow> string \<Rightarrow> outcome" where
  "resolution_outcome ask members name =
     (let alone = \<lparr>oc_name = name, oc_parent = [], oc_hasAnswer = 0 < length (FinalRecords ask name)\<rparr> in
      case Cut (CHR ''.'') name of
        None \<Rightarrow> alone
      | Some (_, parent) \<Rightarrow>
          if \<not> strings_Contains parent ''.'' then alone
          else if parent \<notin> members then alone
          else
            let child = FinalRecords ask name in
            if length child = 0 then \<lparr>oc_name = name, oc_parent = [], oc_hasAnswer = False\<rparr>
            else
              let parentIPs = FinalRecords ask parent in
              if length parentIPs = 0 then \<lparr>oc_name = name, oc_parent = [], oc_hasAnswer = True\<rparr>
              else if list_ex (\<lambda>a. a \<in> set parentIPs) child
                then \<lparr>oc_name = name, oc_parent = parent, oc_hasAnswer = True\<rparr>
              else \<lparr>oc_name = name, oc_parent = [], oc_hasAnswer = True\<rparr>)"

definition CollapseByResolution :: "asks \<Rightarrow> string list \<Rightarrow> string list" where
  "CollapseByResolution ask names =
     (let unique = dedupSorted names in
      if unique = [] then []
      else
        let results = map (resolution_outcome ask (set unique)) unique;
            kept = map (\<lambda>r. if oc_parent r \<noteq> [] then oc_parent r else oc_name r) (filter oc_hasAnswer results)
        in sort (remdups kept))"

end
