(* ===== verification/Authority_Facts.thy ===== *)
theory Authority_Facts
  imports Authority
begin

text \<open>
  What the verdicts mean: one name gets the verdict of the first zone, from the name upwards, whose
  name servers have addresses; under every schedule of the goroutines a mainland verdict names a zone
  of the name with a mainland authority, no run gets stuck, and the verdict of a name may depend on
  the schedule.
\<close>

section \<open>Addresses\<close>

lemma keep_routable_set: "set (keep_routable seen as) = {a \<in> Unmap ` set as. isRoutable a} - seen"
  by (induction seen as rule: keep_routable.induct) (auto simp: Let_def)

lemma keep_routable_distinct: "distinct (keep_routable seen as)"
  by (induction seen as rule: keep_routable.induct) (auto simp: Let_def keep_routable_set)

lemma FinalRecords_facts:
  "set (FinalRecords ask name) = {a \<in> Unmap ` set (both_families ask name). IsGlobalAddr a}"
  "distinct (FinalRecords ask name)" "sorted (FinalRecords ask name)"
  by (simp_all add: FinalRecords_def keep_routable_set keep_routable_distinct isRoutable_def)

lemma authorityIPs_facts:
  "set (authorityIPs ask zone) =
     {a \<in> Unmap ` (\<Union>ns \<in> set (nsNames ask zone). set (both_families ask ns)). IsGlobalAddr a}"
  "distinct (authorityIPs ask zone)" "sorted (authorityIPs ask zone)"
  by (auto simp: authorityIPs_def Let_def keep_routable_set keep_routable_distinct isRoutable_def)

lemma nsNames_bound: "length (nsNames ask zone) \<le> MaxNSPerZone"
  by (auto simp: nsNames_def Let_def MaxNSPerZone_def)

section \<open>One name\<close>

text \<open>The zones that are tried: the name and its parents of at least two labels that are not public suffixes.\<close>

fun label_zones :: "string list \<Rightarrow> string list" where
  "label_zones (l # l' # ls) = Join (CHR ''.'') (l # l' # ls) # label_zones (l' # ls)"
| "label_zones ls = []"

definition tried_zones :: "psl option \<Rightarrow> string \<Rightarrow> string list" where
  "tried_zones psl d = filter (\<lambda>zone. zone = d \<or> psl = None \<or> \<not> IsPublicSuffix psl zone) (label_zones (Split (CHR ''.'') d))"

definition first_zone_verdict :: "asks \<Rightarrow> (addr \<Rightarrow> bool) option \<Rightarrow> string \<Rightarrow> string list \<Rightarrow> auth_verdict" where
  "first_zone_verdict ask m d zones =
     (case find (\<lambda>zone. authorityIPs ask zone \<noteq> []) zones of
        None \<Rightarrow> unknown_verdict d d ReasonNoZoneWithAuthority
      | Some zone \<Rightarrow> zone_verdict m d zone (authorityIPs ask zone))"

lemma classify_loop_no_cache:
  "classify_loop ask m psl d ls None =
     (first_zone_verdict ask m d (filter (\<lambda>zone. zone = d \<or> psl = None \<or> \<not> IsPublicSuffix psl zone) (label_zones ls)), None)"
proof (induction ls rule: label_zones.induct)
  case (1 l l' ls)
  then show ?case by (cases psl) (auto simp: Let_def first_zone_verdict_def)
qed (auto simp: first_zone_verdict_def)

text \<open>A cache entry is the verdict of its zone, for the name it was made for.\<close>

definition cache_ok :: "asks \<Rightarrow> (addr \<Rightarrow> bool) option \<Rightarrow> zone_cache \<Rightarrow> bool" where
  "cache_ok ask m c \<longleftrightarrow> (\<forall>zone v. c zone = Some v \<longrightarrow>
     (if authorityIPs ask zone = [] then av_Verdict v = VerdictNone
      else v = zone_verdict m (av_Domain v) zone (authorityIPs ask zone)))"

text \<open>What a verdict says: it is for \<open>d\<close>, mainland or unknown, and a mainland one names its evidence.\<close>

definition verdict_ok :: "asks \<Rightarrow> (addr \<Rightarrow> bool) option \<Rightarrow> string \<Rightarrow> string list \<Rightarrow> auth_verdict \<Rightarrow> bool" where
  "verdict_ok ask m d zones v \<longleftrightarrow> av_Domain v = d \<and> av_Verdict v \<in> {VerdictCN, VerdictNone} \<and>
     (av_Verdict v = VerdictCN \<longrightarrow> av_Zone v \<in> set zones \<and> av_AuthorityIPs v = authorityIPs ask (av_Zone v) \<and>
        av_CNAuthorityIPs v = filter (\<lambda>a. case m of None \<Rightarrow> False | Some f \<Rightarrow> f a) (authorityIPs ask (av_Zone v)) \<and>
        av_CNAuthorityIPs v \<noteq> [])"

lemma verdicts_differ [simp]: "VerdictCN \<noteq> VerdictNone" "VerdictNone \<noteq> VerdictCN"
  by (simp_all add: VerdictCN_def VerdictNone_def)

lemma zone_verdict_ok: "zone \<in> set zones \<Longrightarrow> verdict_ok ask m d zones (zone_verdict m d zone (authorityIPs ask zone))"
  by (auto simp: verdict_ok_def zone_verdict_def Let_def)

lemma unknown_verdict_ok: "verdict_ok ask m d zones (unknown_verdict d zone reason)"
  by (simp add: verdict_ok_def unknown_verdict_def)

lemma verdict_ok_mono: "verdict_ok ask m d zones v \<Longrightarrow> set zones \<subseteq> set zones' \<Longrightarrow> verdict_ok ask m d zones' v"
  by (auto simp: verdict_ok_def)

lemma classify_loop_step:
  assumes "zone = Join (CHR ''.'') (l # l' # ls)"
  shows "classify_loop ask m psl d (l # l' # ls) cache =
    (if (case psl of None \<Rightarrow> False | Some p \<Rightarrow> zone \<noteq> d \<and> IsPublicSuffix (Some p) zone)
     then classify_loop ask m psl d (l' # ls) cache
     else case Option.bind cache (\<lambda>c. c zone) of
       Some cached \<Rightarrow>
         if av_Verdict cached \<noteq> VerdictNone then (cached\<lparr>av_Domain := d, av_Zone := zone\<rparr>, cache)
         else classify_loop ask m psl d (l' # ls) cache
     | None \<Rightarrow>
         if authorityIPs ask zone = [] then
           classify_loop ask m psl d (l' # ls)
             (map_option (\<lambda>c. c(zone \<mapsto> unknown_verdict d zone ReasonNoAuthorityIP)) cache)
         else (zone_verdict m d zone (authorityIPs ask zone),
               map_option (\<lambda>c. c(zone \<mapsto> zone_verdict m d zone (authorityIPs ask zone))) cache))"
  unfolding assms by (simp only: classify_loop.simps Let_def)

text \<open>The result of the loop is the verdict of a zone, or the one of the remaining zones with a cache that is still right.\<close>

lemma classify_loop_ok:
  assumes "\<forall>c. cache = Some c \<longrightarrow> cache_ok ask m c" and "classify_loop ask m psl d ls cache = (v, cache')"
  shows "verdict_ok ask m d (label_zones ls) v \<and> (\<forall>c. cache' = Some c \<longrightarrow> cache_ok ask m c) \<and> (cache' = None \<longleftrightarrow> cache = None)"
  using assms
proof (induction ls arbitrary: cache rule: label_zones.induct)
  case (1 l l' ls)
  define zone where "zone = Join (CHR ''.'') (l # l' # ls)"
  have zones: "label_zones (l # l' # ls) = zone # label_zones (l' # ls)" unfolding zone_def by (simp only: label_zones.simps)
  note run = "1.prems"(2) [unfolded classify_loop_step [OF zone_def]]
  let ?zv = "zone_verdict m d zone (authorityIPs ask zone)"
  have rest: ?case if "classify_loop ask m psl d (l' # ls) cache1 = (v, cache')" "\<forall>c. cache1 = Some c \<longrightarrow> cache_ok ask m c"
    "cache1 = None \<longleftrightarrow> cache = None" for cache1
    using "1.IH" [OF that(2,1)] that(3) unfolding zones by (auto intro: verdict_ok_mono)
  have here: ?case if "v = ?zv" "\<forall>c. cache' = Some c \<longrightarrow> cache_ok ask m c" "cache' = None \<longleftrightarrow> cache = None"
    using that zone_verdict_ok [of zone "zone # label_zones (l' # ls)"] unfolding zones by simp
  show ?case
  proof (cases "case psl of None \<Rightarrow> False | Some p \<Rightarrow> zone \<noteq> d \<and> IsPublicSuffix (Some p) zone")
    case True
    then show ?thesis using run rest [of cache] "1.prems"(1) by simp
  next
    case ns: False
    show ?thesis
    proof (cases "Option.bind cache (\<lambda>c. c zone)")
      case (Some cached)
      then obtain c where c: "cache = Some c" "c zone = Some cached" by (cases cache) auto
      show ?thesis
      proof (cases "av_Verdict cached = VerdictNone")
        case True
        then show ?thesis using run ns Some rest [of cache] "1.prems"(1) by simp
      next
        case False
        then have "cached = zone_verdict m (av_Domain cached) zone (authorityIPs ask zone)"
          using "1.prems"(1) c by (auto simp: cache_ok_def split: if_splits)
        then have "cached\<lparr>av_Domain := d, av_Zone := zone\<rparr> = ?zv"
          by (metis (no_types, lifting) zone_verdict_def auth_verdict.update_convs(1,2))
        then show ?thesis using run ns Some False here "1.prems"(1) by simp
      qed
    next
      case None
      have upd: "cache_ok ask m (c(zone \<mapsto> w))"
        if "cache_ok ask m c" "if authorityIPs ask zone = [] then av_Verdict w = VerdictNone else w = ?zv" "av_Domain w = d" for c w
        using that by (auto simp: cache_ok_def)
      show ?thesis
      proof (cases "authorityIPs ask zone = []")
        case True
        let ?cache = "map_option (\<lambda>c. c(zone \<mapsto> unknown_verdict d zone ReasonNoAuthorityIP)) cache"
        have "\<forall>c. ?cache = Some c \<longrightarrow> cache_ok ask m c"
          using "1.prems"(1) True upd by (auto simp: unknown_verdict_def)
        then show ?thesis using run ns None True rest [of ?cache] by simp
      next
        case False
        have "av_Domain ?zv = d" by (simp add: zone_verdict_def Let_def)
        then have "\<forall>c. map_option (\<lambda>c. c(zone \<mapsto> ?zv)) cache = Some c \<longrightarrow> cache_ok ask m c"
          using "1.prems"(1) False upd by auto
        then show ?thesis using run ns None False here by auto
      qed
    qed
  qed
qed (auto simp: unknown_verdict_ok)

lemma ClassifyOne_ok:
  assumes "\<forall>c. cache = Some c \<longrightarrow> cache_ok ask m c" and "ClassifyOne ask m name psl cache = (v, cache')"
  shows "verdict_ok ask m (NormalizeName name) (label_zones (Split (CHR ''.'') (NormalizeName name))) v \<and>
    (\<forall>c. cache' = Some c \<longrightarrow> cache_ok ask m c) \<and> (cache' = None \<longleftrightarrow> cache = None)"
  using assms(2) classify_loop_ok [OF assms(1)] assms(1)
  by (auto simp: ClassifyOne_def Let_def unknown_verdict_ok split: if_splits)

section \<open>Many names\<close>

definition task_ok :: "asks \<Rightarrow> (addr \<Rightarrow> bool) option \<Rightarrow> string \<Rightarrow> task \<Rightarrow> bool" where
  "task_ok ask m name t \<longleftrightarrow> (case t of
     Waiting \<Rightarrow> True
   | Running loc \<Rightarrow> cache_ok ask m loc
   | Done v \<Rightarrow> verdict_ok ask m (NormalizeName name) (label_zones (Split (CHR ''.'') (NormalizeName name))) v)"

definition many_inv :: "asks \<Rightarrow> (addr \<Rightarrow> bool) option \<Rightarrow> string list \<Rightarrow> many_state \<Rightarrow> bool" where
  "many_inv ask m names s \<longleftrightarrow> cache_ok ask m (ms_cache s) \<and> list_all2 (task_ok ask m) names (ms_tasks s)"

lemma many_inv_start: "many_inv ask m names (many_start names)"
  by (simp add: many_inv_def many_start_def cache_ok_def list_all2_conv_all_nth task_ok_def)

lemma cache_ok_merge: "cache_ok ask m c \<Longrightarrow> cache_ok ask m loc \<Longrightarrow> cache_ok ask m (merge_cache c loc)"
  unfolding cache_ok_def merge_cache_def by (auto split: option.splits)

lemma task_ok_update:
  "\<lbrakk>list_all2 (task_ok ask m) names ts; task_ok ask m (names ! i) t\<rbrakk> \<Longrightarrow> list_all2 (task_ok ask m) names (ts[i := t])"
  unfolding list_all2_conv_all_nth length_list_update by (metis nth_list_update_eq nth_list_update_neq)

lemma many_inv_step:
  assumes "many_step ask m names psl k s s'" and "many_inv ask m names s"
  shows "many_inv ask m names s'"
  using assms
proof cases
  case (enter i)
  then show ?thesis using assms(2) by (simp add: many_inv_def task_ok_update task_ok_def)
next
  case (leave i loc v loc')
  have "task_ok ask m (names ! i) (ms_tasks s ! i)"
    using assms(2) leave(2) list_all2_nthD2 unfolding many_inv_def by blast
  then have "cache_ok ask m loc" using leave(3) by (simp add: task_ok_def)
  then have pre: "\<forall>c. Some loc = Some c \<longrightarrow> cache_ok ask m c" by simp
  have "verdict_ok ask m (NormalizeName (names ! i)) (label_zones (Split (CHR ''.'') (NormalizeName (names ! i)))) v"
    "cache_ok ask m loc'"
    using ClassifyOne_ok [OF pre leave(4)] by blast+
  then show ?thesis using assms(2) leave(1) by (simp add: many_inv_def task_ok_update task_ok_def cache_ok_merge)
qed

lemma many_inv_reachable: "(many_step ask m names psl k)\<^sup>*\<^sup>* (many_start names) s \<Longrightarrow> many_inv ask m names s"
  by (induction rule: rtranclp_induct) (auto intro: many_inv_start many_inv_step)

fun weight :: "task \<Rightarrow> nat" where
  "weight Waiting = 0"
| "weight (Running _) = 1"
| "weight (Done _) = 2"

definition total_weight :: "many_state \<Rightarrow> nat" where
  "total_weight s = sum_list (map weight (ms_tasks s))"

lemma sum_list_update_nat:
  "i < length xs \<Longrightarrow> sum_list (map f (xs[i := x])) + f (xs ! i) = sum_list (map f xs) + (f x :: nat)"
proof (induction xs arbitrary: i)
  case (Cons y ys)
  then show ?case by (cases i) auto
qed simp

lemma many_step_weight: "many_step ask m names psl k s s' \<Longrightarrow> total_weight s' = Suc (total_weight s)"
proof (erule many_step.cases)
  fix i s0
  assume "s = s0" "s' = s0\<lparr>ms_tasks := (ms_tasks s0)[i := Running (ms_cache s0)]\<rparr>"
    "i < length (ms_tasks s0)" "ms_tasks s0 ! i = Waiting"
  then show ?thesis using sum_list_update_nat [of i "ms_tasks s0" weight "Running (ms_cache s0)"] by (simp add: total_weight_def)
next
  fix i s0 loc v loc'
  assume "s = s0" "s' = \<lparr>ms_cache = merge_cache (ms_cache s0) loc', ms_tasks = (ms_tasks s0)[i := Done v]\<rparr>"
    "i < length (ms_tasks s0)" "ms_tasks s0 ! i = Running loc"
  then show ?thesis using sum_list_update_nat [of i "ms_tasks s0" weight "Done v"] by (simp add: total_weight_def)
qed

lemma weight_bounds: "weight t \<le> 2" "weight t = 2 \<longleftrightarrow> (\<exists>v. t = Done v)" "weight t = 0 \<longleftrightarrow> t = Waiting"
  by (cases t; simp)+

lemma sum_weights: "sum_list (map weight ts) \<le> 2 * length ts \<and>
  (sum_list (map weight ts) = 2 * length ts \<longleftrightarrow> (\<forall>t \<in> set ts. \<exists>v. t = Done v))"
proof (induction ts)
  case (Cons t ts)
  then show ?case using weight_bounds(1,2) [of t] by auto
qed simp

lemma many_done_iff: "many_done s \<longleftrightarrow> (\<forall>t \<in> set (ms_tasks s). \<exists>v. t = Done v)"
proof -
  have "(case t of Done _ \<Rightarrow> True | _ \<Rightarrow> False) \<longleftrightarrow> (\<exists>v. t = Done v)" for t by (cases t) auto
  then show ?thesis by (simp add: many_done_def list_all_iff)
qed

lemma many_progress:
  assumes "many_inv ask m names s" and "\<not> many_done s"
  shows "\<exists>s'. many_step ask m names psl k s s'"
proof (cases "\<exists>i < length (ms_tasks s). \<exists>loc. ms_tasks s ! i = Running loc")
  case True
  then obtain i loc where i: "i < length (ms_tasks s)" "ms_tasks s ! i = Running loc" by blast
  have "task_ok ask m (names ! i) (ms_tasks s ! i)"
    using assms(1) i(1) list_all2_nthD2 unfolding many_inv_def by blast
  then have "cache_ok ask m loc" using i(2) by (simp add: task_ok_def)
  then have pre: "\<forall>c. Some loc = Some c \<longrightarrow> cache_ok ask m c" by simp
  obtain v c where c: "ClassifyOne ask m (names ! i) psl (Some loc) = (v, c)" by fastforce
  from ClassifyOne_ok [OF pre c] obtain loc' where "c = Some loc'" by blast
  with c i show ?thesis using many_step.leave by blast
next
  case False
  then have "ms_tasks s ! i = Waiting \<or> (\<exists>v. ms_tasks s ! i = Done v)" if "i < length (ms_tasks s)" for i
    using that by (cases "ms_tasks s ! i") auto
  moreover obtain t where "t \<in> set (ms_tasks s)" "\<nexists>v. t = Done v" using assms(2) by (auto simp: many_done_iff)
  ultimately obtain i where i: "i < length (ms_tasks s)" "ms_tasks s ! i = Waiting" by (metis in_set_conv_nth)
  have "\<forall>t \<in> set (ms_tasks s). \<not> (case t of Running _ \<Rightarrow> True | _ \<Rightarrow> False)"
    using False by (auto simp: in_set_conv_nth split: task.splits)
  then have "running (ms_tasks s) = 0" by (simp add: running_def filter_empty_conv)
  moreover have "0 < places k" by (simp add: places_def)
  ultimately show ?thesis using many_step.enter i by metis
qed

section \<open>Collapsing names\<close>

lemma dedup_loop_set: "set (dedup_loop seen vs) = NormalizeName ` set vs - insert [] seen"
  by (induction seen vs rule: dedup_loop.induct) (auto simp: Let_def)

lemma dedupSorted_set: "set (dedupSorted vs) = NormalizeName ` set vs - {[]}"
  by (simp add: dedupSorted_def dedup_loop_set)

lemma resolution_outcome_facts:
  "oc_name (resolution_outcome ask M name) = name"
  "oc_hasAnswer (resolution_outcome ask M name) \<longleftrightarrow> FinalRecords ask name \<noteq> []"
  "oc_parent (resolution_outcome ask M name) = parent \<Longrightarrow> parent \<noteq> [] \<Longrightarrow>
     parent \<in> M \<and> (\<exists>l. name = l @ CHR ''.'' # parent) \<and> set (FinalRecords ask name) \<inter> set (FinalRecords ask parent) \<noteq> {}"
  by (auto simp: resolution_outcome_def Let_def list_ex_iff Cut_eq_Some split: option.splits if_splits)

lemma CollapseByResolution_set:
  "set (CollapseByResolution ask names) =
     {(if oc_parent r \<noteq> [] then oc_parent r else oc_name r) |r. r \<in> resolution_outcome ask (set (dedupSorted names)) ` set (dedupSorted names) \<and> oc_hasAnswer r}"
  by (auto simp: CollapseByResolution_def Let_def)

section \<open>A sample network\<close>

definition reply :: "u16 \<Rightarrow> u8 list \<Rightarrow> u8 list \<Rightarrow> answer" where
  "reply t data raw =
     \<lparr>a_Status = StatusOK,
      a_Msg = Some \<lparr>m_ID = 0, m_Response = True, m_Truncated = False, m_RCode = 0, m_Questions = [],
        m_Answers = (if data = [] \<and> raw = [] then [] else
          [\<lparr>rr_Name = [], rr_Type = t, rr_Class = ClassIN, rr_TTL = 60, rr_Data = data, rr_RDataAt = 0\<rparr>]),
        m_Authorities = [], m_Additionals = []\<rparr>,
      a_Raw = raw\<rparr>"

text \<open>
  The zone \<open>b.c.com\<close> has the name server \<open>o\<close>, which is abroad, its parent \<open>c.com\<close> the name server \<open>n\<close>
  in the mainland; both names below \<open>b.c.com\<close> have an address.
\<close>

definition sample_ask :: asks where
  "sample_ask name t =
     (if t = TypeNS then
        reply t [] (if name = ''b.c.com'' then [1, 111, 0] else if name = ''c.com'' then [1, 110, 0] else [])
      else if t = TypeA then
        reply t (if name = ''o'' then [8, 8, 8, 8] else if name = ''n'' then [223, 5, 5, 5]
                 else if name = ''a.b.c.com'' \<or> name = ''d.b.c.com'' then [9, 9, 9, 9] else []) []
      else reply t [] [])"

definition sample_mainland :: "(addr \<Rightarrow> bool) option" where
  "sample_mainland = Some (\<lambda>a. a = Addr4 0xDF050505)"

definition sample_names :: "string list" where
  "sample_names = [''a.b.c.com'', ''d.b.c.com'']"

lemma sample_global: "IsGlobalAddr (Addr4 0x08080808)" "IsGlobalAddr (Addr4 0xDF050505)" "IsGlobalAddr (Addr4 0x09090909)"
  unfolding IsGlobalAddr_v4 nonglobal_iff by (simp_all add: nonGlobalPrefixes_def v4_def)

lemma sample_answers:
  "TargetNames (sample_ask ''b.c.com'' TypeNS) TypeNS = [''o'']" "TargetNames (sample_ask ''c.com'' TypeNS) TypeNS = [''n'']"
  "nsNames sample_ask ''a.b.c.com'' = []" "nsNames sample_ask ''d.b.c.com'' = []"
  "both_families sample_ask ''o'' = [Addr4 0x08080808]" "both_families sample_ask ''n'' = [Addr4 0xDF050505]"
  "both_families sample_ask ''a.b.c.com'' = [Addr4 0x09090909]" "both_families sample_ask ''d.b.c.com'' = [Addr4 0x09090909]"
  "NormalizeName ''a.b.c.com'' = ''a.b.c.com''" "NormalizeName ''d.b.c.com'' = ''d.b.c.com''"
  "Split (CHR ''.'') ''a.b.c.com'' = [''a'', ''b'', ''c'', ''com'']" "Split (CHR ''.'') ''d.b.c.com'' = [''d'', ''b'', ''c'', ''com'']"
  by code_simp+

lemma sample_records:
  "FinalRecords sample_ask ''a.b.c.com'' = [Addr4 0x09090909]" "FinalRecords sample_ask ''d.b.c.com'' = [Addr4 0x09090909]"
  "authorityIPs sample_ask ''a.b.c.com'' = []" "authorityIPs sample_ask ''d.b.c.com'' = []"
  "authorityIPs sample_ask ''b.c.com'' = [Addr4 0x08080808]" "authorityIPs sample_ask ''c.com'' = [Addr4 0xDF050505]"
  by (simp_all add: FinalRecords_def authorityIPs_def sample_answers isRoutable_def sample_global
      nsNames_def [of _ "''b.c.com''"] nsNames_def [of _ "''c.com''"] MaxNSPerZone_def)

lemma sample_first:
  "ClassifyOne sample_ask sample_mainland ''d.b.c.com'' None None =
     (zone_verdict sample_mainland ''d.b.c.com'' ''b.c.com'' [Addr4 0x08080808], None)"
  by (simp add: ClassifyOne_def sample_answers sample_records Let_def)

lemma sample_runs:
  "ClassifyOne sample_ask sample_mainland ''a.b.c.com'' None (Some Map.empty) =
     (zone_verdict sample_mainland ''a.b.c.com'' ''b.c.com'' [Addr4 0x08080808],
      Some [''a.b.c.com'' \<mapsto> unknown_verdict ''a.b.c.com'' ''a.b.c.com'' ReasonNoAuthorityIP,
            ''b.c.com'' \<mapsto> zone_verdict sample_mainland ''a.b.c.com'' ''b.c.com'' [Addr4 0x08080808]])"
  "\<exists>c. ClassifyOne sample_ask sample_mainland ''d.b.c.com'' None (Some Map.empty) =
     (zone_verdict sample_mainland ''d.b.c.com'' ''b.c.com'' [Addr4 0x08080808], Some c)"
  "\<exists>c. ClassifyOne sample_ask sample_mainland ''d.b.c.com'' None (Some (merge_cache Map.empty
       [''a.b.c.com'' \<mapsto> unknown_verdict ''a.b.c.com'' ''a.b.c.com'' ReasonNoAuthorityIP,
        ''b.c.com'' \<mapsto> zone_verdict sample_mainland ''a.b.c.com'' ''b.c.com'' [Addr4 0x08080808]])) =
     (zone_verdict sample_mainland ''d.b.c.com'' ''c.com'' [Addr4 0xDF050505], Some c)"
  by (simp_all add: ClassifyOne_def sample_answers sample_records Let_def merge_cache_def)
    (simp_all add: zone_verdict_def sample_mainland_def VerdictNone_def)

lemma run_one:
  assumes "i < length (ms_tasks s)" and "ms_tasks s ! i = Waiting" and "running (ms_tasks s) < places k"
    and "ClassifyOne ask m (names ! i) psl (Some (ms_cache s)) = (v, Some c)"
  shows "(many_step ask m names psl k)\<^sup>*\<^sup>* s \<lparr>ms_cache = merge_cache (ms_cache s) c, ms_tasks = (ms_tasks s)[i := Done v]\<rparr>"
proof -
  let ?s = "s\<lparr>ms_tasks := (ms_tasks s)[i := Running (ms_cache s)]\<rparr>"
  have "many_step ask m names psl k s ?s" by (rule many_step.enter [OF assms(1-3)])
  moreover have "many_step ask m names psl k ?s
      \<lparr>ms_cache = merge_cache (ms_cache ?s) c, ms_tasks = (ms_tasks ?s)[i := Done v]\<rparr>"
    using assms by (intro many_step.leave) simp_all
  ultimately show ?thesis by simp
qed

section \<open>Properties\<close>

text \<open>Without a cache a name that resolves gets the verdict of the first of its zones, from the name upwards,
  that has routable authority addresses: mainland exactly when one of them is. Parents that are
  public suffixes and single labels are not tried; a name that does not resolve is unknown.\<close>

theorem ClassifyOne_first_zone:
  "ClassifyOne ask m name psl None =
     (let d = NormalizeName name in
      if FinalRecords ask d = [] then unknown_verdict d d ReasonNoFinalAnswer
      else first_zone_verdict ask m d (tried_zones psl d), None)"
  by (simp add: ClassifyOne_def Let_def classify_loop_no_cache tried_zones_def)

text \<open>C15: Whatever the schedule of the goroutines and their shared cache, a finished verdict is the one of
  its name, and a mainland verdict gives a zone of the name of at least two labels together with all
  the authority addresses of that zone and the mainland ones among them, of which there is one.\<close>

theorem ClassifyMany_sound:
  assumes "(many_step ask m names psl k)\<^sup>*\<^sup>* (many_start names) s"
    and "i < length names" and "ms_tasks s ! i = Done v"
  shows "av_Domain v = NormalizeName (names ! i) \<and> av_Verdict v \<in> {VerdictCN, VerdictNone} \<and>
    (av_Verdict v = VerdictCN \<longrightarrow> av_Zone v \<in> set (label_zones (Split (CHR ''.'') (NormalizeName (names ! i)))) \<and>
       av_AuthorityIPs v = authorityIPs ask (av_Zone v) \<and>
       av_CNAuthorityIPs v = filter (\<lambda>a. case m of None \<Rightarrow> False | Some f \<Rightarrow> f a) (authorityIPs ask (av_Zone v)) \<and>
       av_CNAuthorityIPs v \<noteq> [])"
proof -
  have "task_ok ask m (names ! i) (ms_tasks s ! i)"
    using many_inv_reachable [OF assms(1)] assms(2) list_all2_nthD unfolding many_inv_def by blast
  then show ?thesis using assms(3) unfolding task_ok_def verdict_ok_def by auto
qed

theorem ClassifyMany_sound_witness:
  "\<exists>s v. (many_step sample_ask sample_mainland [''d.b.c.com''] None 1)\<^sup>*\<^sup>* (many_start [''d.b.c.com'']) s \<and>
     ms_tasks s ! 0 = Done v \<and> av_Domain v = ''d.b.c.com''"
proof -
  obtain c where c: "ClassifyOne sample_ask sample_mainland ''d.b.c.com'' None (Some Map.empty) =
     (zone_verdict sample_mainland ''d.b.c.com'' ''b.c.com'' [Addr4 0x08080808], Some c)" using sample_runs(2) by blast
  let ?s = "\<lparr>ms_cache = merge_cache Map.empty c,
    ms_tasks = [Done (zone_verdict sample_mainland ''d.b.c.com'' ''b.c.com'' [Addr4 0x08080808])]\<rparr>"
  have "(many_step sample_ask sample_mainland [''d.b.c.com''] None 1)\<^sup>*\<^sup>* (many_start [''d.b.c.com'']) ?s"
    using run_one [of 0 "many_start [''d.b.c.com'']" 1 sample_ask sample_mainland "[''d.b.c.com'']" None] c
    by (simp add: many_start_def running_def places_def)
  from ClassifyMany_sound [OF this, of 0] this show ?thesis by (auto simp: sample_answers)
qed

text \<open>C16: The concurrent classification always completes: a state that is not final has a next step, whatever
  the number of places, every run of \<open>n\<close> names takes exactly \<open>2 * n\<close> steps to its end, and no run is
  longer.\<close>

theorem ClassifyMany_completes:
  assumes "(many_step ask m names psl k ^^ n) (many_start names) s"
  shows "n \<le> 2 * length names \<and> (n = 2 * length names \<longleftrightarrow> many_done s) \<and>
    (\<not> many_done s \<longrightarrow> (\<exists>s'. many_step ask m names psl k s s'))"
proof -
  have inv: "many_inv ask m names s" using assms many_inv_reachable by (metis relpowp_imp_rtranclp)
  have "total_weight s = n"
    using assms
  proof (induction n arbitrary: s)
    case (Suc n)
    then show ?case using many_step_weight by fastforce
  qed (simp add: total_weight_def many_start_def sum_list_replicate)
  moreover have "length (ms_tasks s) = length names"
    using inv unfolding many_inv_def by (metis list_all2_lengthD)
  ultimately show ?thesis
    using sum_weights [of "ms_tasks s"] many_done_iff [of s] many_progress [OF inv] by (simp add: total_weight_def)
qed

theorem ClassifyMany_completes_witness:
  "\<not> many_done (many_start sample_names) \<and> (\<exists>s'. many_step sample_ask sample_mainland sample_names None 0 (many_start sample_names) s')"
  using ClassifyMany_completes [of 0 sample_ask sample_mainland sample_names None 0 "many_start sample_names"]
  by (simp add: sample_names_def)

text \<open>The verdict of a name can depend on the schedule: an unknown verdict of a zone that has authority
  addresses ends the search when it is new, but is skipped when it comes from the cache, so the same
  name is unknown in one run and mainland in another.\<close>

theorem ClassifyMany_order_dependent:
  "\<exists>s s' v v'. (many_step sample_ask sample_mainland sample_names None 1)\<^sup>*\<^sup>* (many_start sample_names) s \<and>
     (many_step sample_ask sample_mainland sample_names None 1)\<^sup>*\<^sup>* (many_start sample_names) s' \<and>
     ms_tasks s ! 1 = Done v \<and> ms_tasks s' ! 1 = Done v' \<and> av_Verdict v = VerdictNone \<and> av_Verdict v' = VerdictCN"
proof -
  let ?va = "zone_verdict sample_mainland ''a.b.c.com'' ''b.c.com'' [Addr4 0x08080808]"
  let ?v = "zone_verdict sample_mainland ''d.b.c.com'' ''b.c.com'' [Addr4 0x08080808]"
  let ?v' = "zone_verdict sample_mainland ''d.b.c.com'' ''c.com'' [Addr4 0xDF050505]"
  let ?ca = "[''a.b.c.com'' \<mapsto> unknown_verdict ''a.b.c.com'' ''a.b.c.com'' ReasonNoAuthorityIP, ''b.c.com'' \<mapsto> ?va]"
  let ?run = "many_step sample_ask sample_mainland sample_names None 1" and ?s0 = "many_start sample_names"
  have s0: "ms_cache ?s0 = Map.empty" "ms_tasks ?s0 = [Waiting, Waiting]" "sample_names ! 0 = ''a.b.c.com''" "sample_names ! Suc 0 = ''d.b.c.com''"
    by (simp_all add: many_start_def sample_names_def numeral_2_eq_2)
  obtain c where c: "ClassifyOne sample_ask sample_mainland ''d.b.c.com'' None (Some Map.empty) = (?v, Some c)"
    using sample_runs(2) by blast
  obtain c' where c': "ClassifyOne sample_ask sample_mainland ''d.b.c.com'' None (Some (merge_cache Map.empty ?ca)) = (?v', Some c')"
    using sample_runs(3) by blast
  let ?s1 = "\<lparr>ms_cache = merge_cache Map.empty ?ca, ms_tasks = [Done ?va, Waiting]\<rparr>"
  have one: "?run\<^sup>*\<^sup>* ?s0 \<lparr>ms_cache = merge_cache Map.empty c, ms_tasks = [Waiting, Done ?v]\<rparr>"
    using run_one [of 1 ?s0 1 sample_ask sample_mainland sample_names None ?v c] c
    by (simp add: s0 running_def places_def)
  have two: "?run\<^sup>*\<^sup>* ?s0 ?s1"
    using run_one [of 0 ?s0 1 sample_ask sample_mainland sample_names None ?va ?ca] sample_runs(1)
    by (simp add: s0 running_def places_def)
  have "?run\<^sup>*\<^sup>* ?s1 \<lparr>ms_cache = merge_cache (ms_cache ?s1) c', ms_tasks = [Done ?va, Done ?v']\<rparr>"
    using run_one [of 1 ?s1 1 sample_ask sample_mainland sample_names None ?v' c'] c'
    by (simp add: s0 running_def places_def)
  with two have "?run\<^sup>*\<^sup>* ?s0 \<lparr>ms_cache = merge_cache (ms_cache ?s1) c', ms_tasks = [Done ?va, Done ?v']\<rparr>"
    by (rule rtranclp_trans)
  moreover have "av_Verdict ?v = VerdictNone" "av_Verdict ?v' = VerdictCN"
    by (simp_all add: zone_verdict_def sample_mainland_def Let_def)
  ultimately show ?thesis using one
    by (intro exI [of _ "\<lparr>ms_cache = merge_cache Map.empty c, ms_tasks = [Waiting, Done ?v]\<rparr>"]
        exI [of _ "\<lparr>ms_cache = merge_cache (ms_cache ?s1) c', ms_tasks = [Done ?va, Done ?v']\<rparr>"] exI [of _ ?v] exI [of _ ?v']) simp
qed

text \<open>Collapsing a list of names keeps only names of the list, sorted and without repetition, and loses none
  that resolves: such a name is kept itself, or its parent, with which it shares an address, is.\<close>

theorem CollapseByResolution_covers:
  "sorted (CollapseByResolution ask names) \<and> distinct (CollapseByResolution ask names) \<and>
   set (CollapseByResolution ask names) \<subseteq> NormalizeName ` set names \<and>
   (\<forall>n \<in> NormalizeName ` set names - {[]}. FinalRecords ask n \<noteq> [] \<longrightarrow> n \<in> set (CollapseByResolution ask names) \<or>
      (\<exists>l p. n = l @ CHR ''.'' # p \<and> p \<in> set (CollapseByResolution ask names) \<and>
        set (FinalRecords ask n) \<inter> set (FinalRecords ask p) \<noteq> {}))"
proof -
  let ?U = "set (dedupSorted names)" and ?out = "set (CollapseByResolution ask names)"
  let ?o = "resolution_outcome ask ?U"
  have "sorted (CollapseByResolution ask names)" "distinct (CollapseByResolution ask names)"
    by (simp_all add: CollapseByResolution_def Let_def)
  moreover have "?out \<subseteq> ?U"
    using resolution_outcome_facts(1,3) unfolding CollapseByResolution_set by (fastforce split: if_splits)
  moreover have "n \<in> ?out \<or> (\<exists>l p. n = l @ CHR ''.'' # p \<and> p \<in> ?out \<and> set (FinalRecords ask n) \<inter> set (FinalRecords ask p) \<noteq> {})"
    if n: "n \<in> ?U" and a: "FinalRecords ask n \<noteq> []" for n
  proof -
    have "oc_hasAnswer (?o n)" using a resolution_outcome_facts(2) by blast
    then have "(if oc_parent (?o n) \<noteq> [] then oc_parent (?o n) else oc_name (?o n)) \<in> ?out"
      unfolding CollapseByResolution_set using n by blast
    then show ?thesis
      using resolution_outcome_facts(1) [of ask ?U n] resolution_outcome_facts(3) [of ask ?U n "oc_parent (?o n)"]
      by (auto split: if_splits)
  qed
  ultimately show ?thesis unfolding dedupSorted_set by blast
qed

theorem CollapseByResolution_covers_witness:
  "''a.b.c.com'' \<in> set (CollapseByResolution sample_ask [''A.b.c.com'', ''a.b.c.com.''])"
proof -
  have n: "NormalizeName ''A.b.c.com'' = ''a.b.c.com''" "NormalizeName ''a.b.c.com.'' = ''a.b.c.com''" by code_simp+
  have "FinalRecords sample_ask ''a.b.c.com'' \<noteq> []" by (simp add: sample_records)
  with CollapseByResolution_covers [of sample_ask "[''A.b.c.com'', ''a.b.c.com.'']"] show ?thesis
    by (fastforce simp: n)
qed

end
