(* ===== verification/CDN.thy ===== *)
theory CDN
  imports Domain
begin

text \<open>
  Package \<open>internal/cdn\<close>: the table of operators whose zones answer by the client's place, and
  which AS numbers belong to shared DNS providers. Names in Chinese are their UTF-8 bytes.
\<close>

section \<open>Definitions\<close>

record operator =
  op_ID :: string
  op_Name :: string
  op_Roots :: "string list"
  op_ASNs :: "int list"
  op_PrefixASNs :: "int list"

definition AllASNs :: "operator \<Rightarrow> int list" where
  "AllASNs p = op_ASNs p @ op_PrefixASNs p"

definition operators :: "operator list" where
  "operators =
     [\<lparr>op_ID = ''akamai'', op_Name = ''Akamai'',
        op_Roots = [''akadns.net'', ''akadns6.net'', ''akagtm.org'', ''akam.net'', ''akamai.net'',
         ''akamaiedge.net'', ''akamaiedge-staging.net'', ''akamaihd.net'', ''akamaized.net'',
         ''akamaistream.net'', ''akamaitechnologies.com'', ''akaquill.net'', ''edgekey.net'',
         ''edgekey-staging.net'', ''edgesuite.net''],
        op_ASNs = [12222, 16625, 16702, 20940, 21342, 32787, 33905, 35994], op_PrefixASNs = []\<rparr>,
      \<lparr>op_ID = ''apple'', op_Name = ''Apple'',
        op_Roots = [''aaplimg.com'', ''apple-dns.net'', ''cdn-apple.com''],
        op_ASNs = [], op_PrefixASNs = [714, 6185]\<rparr>,
      \<lparr>op_ID = ''microsoft'', op_Name = ''Microsoft'',
        op_Roots = [''azure-dns.com'', ''azure-dns.net'', ''azure-dns.org'', ''azure-dns.info'',
         ''azureedge.net'', ''azurefd.net'', ''tm-azurefd.net'', ''trafficmanager.net'',
         ''msedge.net'', ''a-msedge.net'', ''l-msedge.net'', ''s-msedge.net''],
        op_ASNs = [8068, 8075], op_PrefixASNs = []\<rparr>,
      \<lparr>op_ID = ''amazon'', op_Name = ''AWS'',
        op_Roots = [''cloudfront.net''],
        op_ASNs = [7224, 14618, 16509], op_PrefixASNs = []\<rparr>,
      \<lparr>op_ID = ''cloudflare'', op_Name = ''Cloudflare'',
        op_Roots = [''cloudflare.net''],
        op_ASNs = [13335], op_PrefixASNs = []\<rparr>,
      \<lparr>op_ID = ''fastly'', op_Name = ''Fastly'',
        op_Roots = [''fastly.net'', ''fastlylb.net''],
        op_ASNs = [54113, 394192], op_PrefixASNs = []\<rparr>,
      \<lparr>op_ID = ''imperva'', op_Name = ''Imperva'',
        op_Roots = [''incapdns.net'', ''impervadns.net''],
        op_ASNs = [19551], op_PrefixASNs = []\<rparr>,
      \<lparr>op_ID = ''cdn77'', op_Name = ''CDN77'',
        op_Roots = [''cdn77.org''],
        op_ASNs = [], op_PrefixASNs = []\<rparr>,
      \<lparr>op_ID = ''gcore'', op_Name = ''G-Core'',
        op_Roots = [''gcdn.co'', ''gcorelabs.com''],
        op_ASNs = [], op_PrefixASNs = []\<rparr>,
      \<lparr>op_ID = ''bunny'', op_Name = ''Bunny'',
        op_Roots = [''b-cdn.net'', ''bunnycdn.com''],
        op_ASNs = [], op_PrefixASNs = []\<rparr>,
      \<lparr>op_ID = ''cachefly'', op_Name = ''CacheFly'',
        op_Roots = [''cachefly.net''],
        op_ASNs = [], op_PrefixASNs = []\<rparr>,
      \<lparr>op_ID = ''edgecast'', op_Name = ''Edgecast'',
        op_Roots = [''edgecastcdn.net''],
        op_ASNs = [], op_PrefixASNs = []\<rparr>,
      \<lparr>op_ID = ''edgio'', op_Name = ''Edgio'',
        op_Roots = [''llnwd.net'', ''footprint.net''],
        op_ASNs = [], op_PrefixASNs = []\<rparr>,
      \<lparr>op_ID = ''stackpath'', op_Name = ''StackPath'',
        op_Roots = [''hwcdn.net'', ''stackpathcdn.com''],
        op_ASNs = [], op_PrefixASNs = []\<rparr>,
      \<lparr>op_ID = ''alibaba'', op_Name = [CHR 0xE9, CHR 0x98, CHR 0xBF, CHR 0xE9, CHR 0x87, CHR 0x8C, CHR 0xE4, CHR 0xBA, CHR 0x91],
        op_Roots = [''alicdn.com'', ''alikunlun.com'', ''kunlunsl.com'', ''kunlunca.com'', ''kunlunar.com'',
         ''alidns.com'', ''hichina.com'', ''aliyuncs.com''],
        op_ASNs = [], op_PrefixASNs = [24429, 37963, 45102]\<rparr>,
      \<lparr>op_ID = ''tencent'', op_Name = [CHR 0xE8, CHR 0x85, CHR 0xBE, CHR 0xE8, CHR 0xAE, CHR 0xAF, CHR 0xE4, CHR 0xBA, CHR 0x91],
        op_Roots = [''myqcloud.com'', ''qcloudcdn.com'', ''ourdvsss.com'', ''tcdnvod.com'', ''cdngslb.com'',
         ''cdntip.com'', ''dnsv1.com'', ''dnsv2.com'', ''dnsv3.com'', ''dnsv4.com'',
         ''dnsv5.com''],
        op_ASNs = [], op_PrefixASNs = [45090, 132203, 132591]\<rparr>,
      \<lparr>op_ID = ''huawei'', op_Name = [CHR 0xE5, CHR 0x8D, CHR 0x8E, CHR 0xE4, CHR 0xB8, CHR 0xBA, CHR 0xE4, CHR 0xBA, CHR 0x91],
        op_Roots = [''cdnhwc1.com'', ''cdnhwc2.com'', ''cdnhwc3.com'', ''cdnhwc5.com'', ''dbankcdn.cn'',
         ''dbankcdn.com'', ''livehwc3.cn''],
        op_ASNs = [], op_PrefixASNs = [55990, 136907]\<rparr>,
      \<lparr>op_ID = ''wangsu'', op_Name = [CHR 0xE7, CHR 0xBD, CHR 0x91, CHR 0xE5, CHR 0xAE, CHR 0xBF],
        op_Roots = [''wscdns.com'', ''lxdns.com'', ''cdn20.com''],
        op_ASNs = [], op_PrefixASNs = []\<rparr>,
      \<lparr>op_ID = ''baidu'', op_Name = [CHR 0xE7, CHR 0x99, CHR 0xBE, CHR 0xE5, CHR 0xBA, CHR 0xA6, CHR 0xE4, CHR 0xBA, CHR 0x91],
        op_Roots = [''bdydns.com''],
        op_ASNs = [], op_PrefixASNs = [38365, 55967]\<rparr>,
      \<lparr>op_ID = ''qiniu'', op_Name = [CHR 0xE4, CHR 0xB8, CHR 0x83, CHR 0xE7, CHR 0x89, CHR 0x9B, CHR 0xE4, CHR 0xBA, CHR 0x91],
        op_Roots = [''qiniudns.com''],
        op_ASNs = [], op_PrefixASNs = []\<rparr>]"

text \<open>The keys of the table are distinct.\<close>

definition dnsOnlyAS :: "(int \<times> string) list" where
  "dnsOnlyAS =
     [(26496, ''GoDaddy''), (398101, ''GoDaddy''), (33517, ''Dyn''), (33070, ''Dyn''), (30060, ''Verisign'')]"

definition buildGeoSteered :: "string set" where
  "buildGeoSteered = set (concat (map op_Roots operators))"

definition geoSteered :: "string set" where
  "geoSteered = buildGeoSteered"

definition add_asns :: "operator \<Rightarrow> (int \<rightharpoonup> string) \<Rightarrow> (int \<rightharpoonup> string)" where
  "add_asns p table = fold (\<lambda>asn t. t(asn \<mapsto> op_Name p)) (op_ASNs p) table"

definition buildSharedDNSAS :: "int \<rightharpoonup> string" where
  "buildSharedDNSAS = fold add_asns operators (map_of dnsOnlyAS)"

definition sharedDNSAS :: "int \<rightharpoonup> string" where
  "sharedDNSAS = buildSharedDNSAS"

definition IsGeoSteered :: "string \<Rightarrow> bool" where
  "IsGeoSteered name = suffix_walk (\<lambda>rest. rest \<in> geoSteered) (Normalize name)"

definition Operators :: "operator list" where
  "Operators =
     sort_key op_ID
       (map (\<lambda>p. p\<lparr>op_Roots := sort (op_Roots p), op_ASNs := sort (op_ASNs p),
                   op_PrefixASNs := sort (op_PrefixASNs p)\<rparr>) operators)"

definition SharedDNSProvider :: "int \<Rightarrow> string option" where
  "SharedDNSProvider asn = sharedDNSAS asn"

section \<open>Steering\<close>

lemma IsGeoSteered_labels:
  "IsGeoSteered name \<longleftrightarrow>
     (\<exists>p \<in> set operators. \<exists>root \<in> set (op_Roots p). root \<noteq> [] \<and>
        suffix (Split (CHR ''.'') root) (Split (CHR ''.'') (Normalize name)))"
  by (auto simp: IsGeoSteered_def suffix_walk_iff geoSteered_def buildGeoSteered_def)

section \<open>AS numbers\<close>

lemma fold_asns: "fold (\<lambda>asn t. t(asn \<mapsto> v)) xs t k = (if k \<in> set xs then Some v else t k)"
  by (induction xs arbitrary: t) auto

lemma find_append: "find P (xs @ ys) = (case find P xs of None \<Rightarrow> find P ys | Some x \<Rightarrow> Some x)"
  by (induction xs) auto

lemma find_SomeD: "find P xs = Some x \<Longrightarrow> x \<in> set xs \<and> P x"
  by (induction xs) (auto split: if_splits)

lemma fold_add_asns:
  "fold add_asns ps t k =
     (case find (\<lambda>p. k \<in> set (op_ASNs p)) (rev ps) of Some p \<Rightarrow> Some (op_Name p) | None \<Rightarrow> t k)"
  by (induction ps arbitrary: t)
    (auto simp: add_asns_def fold_asns find_append split: option.splits)

text \<open>No AS number belongs to two operators, or to an operator and a DNS-only provider.\<close>

lemma asns_distinct: "distinct (concat (map op_ASNs (rev operators)) @ map fst dnsOnlyAS)"
  by code_simp

lemma distinct_concat_find:
  "\<lbrakk>distinct (concat (map f ps)); p \<in> set ps; k \<in> set (f p)\<rbrakk> \<Longrightarrow> find (\<lambda>p. k \<in> set (f p)) ps = Some p"
  by (induction ps) (auto simp: image_iff)

lemma SharedDNSProvider_iff:
  "SharedDNSProvider asn = Some label \<longleftrightarrow>
     (\<exists>p \<in> set operators. asn \<in> set (op_ASNs p) \<and> label = op_Name p) \<or> (asn, label) \<in> set dnsOnlyAS"
proof -
  have d: "distinct (concat (map op_ASNs (rev operators)))" "distinct (map fst dnsOnlyAS)"
    "\<And>a. a \<in> set (concat (map op_ASNs operators)) \<Longrightarrow> a \<notin> set (map fst dnsOnlyAS)"
    using asns_distinct by (auto simp: disjoint_iff)
  show ?thesis
  proof (cases "find (\<lambda>p. asn \<in> set (op_ASNs p)) (rev operators)")
    case None
    then have "\<forall>p \<in> set operators. asn \<notin> set (op_ASNs p)" by (auto simp: find_None_iff)
    with None d(2) show ?thesis
      by (auto simp: SharedDNSProvider_def sharedDNSAS_def buildSharedDNSAS_def fold_add_asns)
  next
    case (Some p)
    then have p: "p \<in> set operators" "asn \<in> set (op_ASNs p)"
      using find_SomeD [OF Some] by simp_all
    have q: "q = p" if "q \<in> set operators" "asn \<in> set (op_ASNs q)" for q
      using distinct_concat_find [OF d(1), of q asn] that Some by simp
    have n: "(asn, l) \<notin> set dnsOnlyAS" for l using d(3) [of asn] p by force
    have "SharedDNSProvider asn = Some (op_Name p)"
      by (simp add: SharedDNSProvider_def sharedDNSAS_def buildSharedDNSAS_def fold_add_asns Some)
    with p n show ?thesis by (auto dest: q)
  qed
qed

section \<open>Properties\<close>

text \<open>A name is steered exactly when the labels of an operator's root are its last labels, after
  normalising it.\<close>

theorem IsGeoSteered_iff:
  "IsGeoSteered name \<longleftrightarrow>
     list_ex (\<lambda>p. list_ex (\<lambda>root. root \<noteq> [] \<and>
        suffix (Split (CHR ''.'') root) (Split (CHR ''.'') (Normalize name))) (op_Roots p)) operators"
  by (auto simp: IsGeoSteered_labels list_ex_iff)

text \<open>The AS table returns an operator's name for each of its AS numbers and the provider's for each
  DNS-only number; no number has two owners, so the order of building does not matter.\<close>

theorem SharedDNSProvider_exact:
  "SharedDNSProvider asn = Some label \<longleftrightarrow>
     (\<exists>p \<in> set operators. asn \<in> set (op_ASNs p) \<and> label = op_Name p) \<or> (asn, label) \<in> set dnsOnlyAS"
  by (rule SharedDNSProvider_iff)

theorem SharedDNSProvider_exact_witness: "SharedDNSProvider 30060 = Some ''Verisign''"
  by (subst SharedDNSProvider_exact) (simp add: dnsOnlyAS_def)

end
