(* ===== verification/CDN_Rules.thy ===== *)
theory CDN_Rules
  imports CDN CIDR_Util Access Bufio
begin

text \<open>
  Package \<open>cdnrules\<close>: the rule set that tells the mainland nodes of a CDN from its others. A set
  holds the providers, their domains and their prefixes, and answers which provider owns a name
  and which one an address, by the most specific prefix. The file covers the set and its lookups,
  its text format, how it is built from the providers' feeds, and how it is synchronised.
\<close>

section \<open>Verdicts and providers\<close>

datatype verdict = VerdictUnknown | VerdictMainland | VerdictOffshore | VerdictMismatch

fun verdict_String :: "verdict \<Rightarrow> string" where
  "verdict_String VerdictMainland = ''mainland''"
| "verdict_String VerdictOffshore = ''offshore''"
| "verdict_String VerdictMismatch = ''mismatch''"
| "verdict_String VerdictUnknown = ''unknown''"

fun verdict_Label :: "verdict \<Rightarrow> string" where
  "verdict_Label VerdictMainland = [CHR 0xE5, CHR 0xA4, CHR 0xA7, CHR 0xE9, CHR 0x99, CHR 0x86, CHR 0xE8, CHR 0x8A, CHR 0x82, CHR 0xE7, CHR 0x82, CHR 0xB9]"
| "verdict_Label VerdictOffshore = [CHR 0xE5, CHR 0xA2, CHR 0x83, CHR 0xE5, CHR 0xA4, CHR 0x96, CHR 0xE8, CHR 0x8A, CHR 0x82, CHR 0xE7, CHR 0x82, CHR 0xB9]"
| "verdict_Label VerdictMismatch = [CHR 0xE5, CHR 0x9C, CHR 0xB0, CHR 0xE5, CHR 0x9D, CHR 0x80, CHR 0xE4, CHR 0xB8, CHR 0x8D, CHR 0xE5, CHR 0xB1, CHR 0x9E, CHR 0xE4, CHR 0xBA, CHR 0x8E, CHR 0xE8, CHR 0xAF, CHR 0xA5, CHR 0x20, CHR 0x43, CHR 0x44, CHR 0x4E]"
| "verdict_Label VerdictUnknown = [CHR 0xE4, CHR 0xB8, CHR 0x8D, CHR 0xE5, CHR 0x9C, CHR 0xA8, CHR 0xE8, CHR 0xA7, CHR 0x84, CHR 0xE5, CHR 0x88, CHR 0x99, CHR 0xE9, CHR 0x9B, CHR 0x86, CHR 0xE5, CHR 0x86, CHR 0x85]"

record provider =
  pr_ID :: string
  pr_Name :: string
  pr_Domains :: "string list"
  pr_Mainland :: "prefix list"
  pr_Offshore :: "prefix list"

definition MinMainlandPrefixes :: nat where "MinMainlandPrefixes = 4"

definition HasMainland :: "provider \<Rightarrow> bool" where
  "HasMainland p \<longleftrightarrow> 0 < length (pr_Mainland p)"

definition ServesMainland :: "provider \<Rightarrow> bool" where
  "ServesMainland p \<longleftrightarrow> MinMainlandPrefixes \<le> length (pr_Mainland p)"

definition pr_PrefixCount :: "provider \<Rightarrow> nat" where
  "pr_PrefixCount p = length (pr_Mainland p) + length (pr_Offshore p)"

record decision =
  dc_Verdict :: verdict
  dc_Provider :: string
  dc_Name :: string
  dc_Owner :: string
  dc_Prefix :: prefix

record rule_span =
  rs_lo :: addr
  rs_hi :: addr
  rs_prefix :: prefix
  rs_provider :: nat
  rs_mainland :: bool

record rule_set =
  st_generatedAt :: int
  st_providers :: "provider list"
  st_suffix :: "string \<rightharpoonup> nat"
  st_spans :: "rule_span list"
  st_maxHi :: "addr list"

section \<open>Building a set\<close>

definition set_bit_of :: "nat \<Rightarrow> u8 list \<Rightarrow> u8 list" where
  "set_bit_of i raw = raw[i div 8 := raw ! (i div 8) OR push_bit (7 - i mod 8) 1]"

definition bounds :: "prefix \<Rightarrow> (addr \<times> addr) option" where
  "bounds p =
     (if \<not> pfx_IsValid p then None
      else
        let lo = pfx_addr (Masked p); raw = AsSlice lo;
            raw' = fold set_bit_of [nat (pfx_bits p)..<length raw * 8] raw
        in case AddrFromSlice raw' of None \<Rightarrow> None | Some hi \<Rightarrow> Some (lo, hi))"

definition collect_span :: "nat \<Rightarrow> bool \<Rightarrow> prefix \<Rightarrow> rule_span list" where
  "collect_span idx mainland p =
     (if \<not> pfx_IsValid p then []
      else case bounds (Masked p) of
        None \<Rightarrow> []
      | Some (lo, hi) \<Rightarrow>
          [\<lparr>rs_lo = lo, rs_hi = hi, rs_prefix = Masked p, rs_provider = idx, rs_mainland = mainland\<rparr>])"

definition collect :: "nat \<Rightarrow> prefix list \<Rightarrow> bool \<Rightarrow> rule_span list" where
  "collect idx pfxs mainland = concat (map (collect_span idx mainland) pfxs)"

definition add_domain :: "nat \<Rightarrow> string \<Rightarrow> (string \<rightharpoonup> nat) \<Rightarrow> (string \<rightharpoonup> nat)" where
  "add_domain i d sfx =
     (let key = Normalize d in
      if key = [] then sfx else if sfx key \<noteq> None then sfx else sfx(key \<mapsto> i))"

fun running_max :: "addr \<Rightarrow> rule_span list \<Rightarrow> addr list" where
  "running_max m [] = []"
| "running_max m (sp # sps) = (let m' = (if rs_hi sp > m then rs_hi sp else m) in m' # running_max m' sps)"

definition max_his :: "rule_span list \<Rightarrow> addr list" where
  "max_his sps = (case sps of [] \<Rightarrow> [] | sp # rest \<Rightarrow> rs_hi sp # running_max (rs_hi sp) rest)"

text \<open>
  The sort of the spans compares their ends only and leaves the order of equal ones open; here
  they keep the order in which they were collected.
\<close>

definition rules_New :: "int \<Rightarrow> provider list \<Rightarrow> rule_set" where
  "rules_New generatedAt providers =
     (let ps = sort_key pr_ID providers;
          ips = enumerate 0 ps;
          spans = sort_key (\<lambda>sp. (rs_lo sp, rs_hi sp))
            (concat (map (\<lambda>(i, p). collect i (pr_Mainland p) True @ collect i (pr_Offshore p) False) ips))
      in \<lparr>st_generatedAt = generatedAt, st_providers = ps,
          st_suffix = fold (\<lambda>(i, p) sfx. fold (add_domain i) (pr_Domains p) sfx) ips Map.empty,
          st_spans = spans, st_maxHi = max_his spans\<rparr>)"

definition st_PrefixCount :: "rule_set \<Rightarrow> nat" where
  "st_PrefixCount s = length (st_spans s)"

definition DomainCount :: "rule_set \<Rightarrow> nat" where
  "DomainCount s = card (dom (st_suffix s))"

definition Empty :: "rule_set option \<Rightarrow> bool" where
  "Empty s = (case s of None \<Rightarrow> True | Some t \<Rightarrow> st_providers t = [])"

definition MainlandRoots :: "rule_set option \<Rightarrow> string list" where
  "MainlandRoots s =
     (case s of None \<Rightarrow> []
      | Some t \<Rightarrow> sort (filter (\<lambda>key. key \<noteq> [])
          (map Normalize (concat (map pr_Domains (filter HasMainland (st_providers t)))))))"

definition MainlandProviders :: "rule_set option \<Rightarrow> provider list" where
  "MainlandProviders s = (case s of None \<Rightarrow> [] | Some t \<Rightarrow> filter HasMainland (st_providers t))"

section \<open>Lookups\<close>

function provider_walk :: "(string \<rightharpoonup> nat) \<Rightarrow> string \<Rightarrow> nat option" where
  "provider_walk sfx rest =
     (if rest = [] then None
      else case sfx rest of
        Some idx \<Rightarrow> Some idx
      | None \<Rightarrow> (case Cut (CHR ''.'') rest of None \<Rightarrow> None | Some (_, r) \<Rightarrow> provider_walk sfx r))"
  by pat_completeness auto
termination
  by (relation "measure (length \<circ> snd)") (auto simp: Cut_eq_Some)

declare provider_walk.simps [simp del]

definition ProviderFor :: "rule_set option \<Rightarrow> string \<Rightarrow> provider option" where
  "ProviderFor s name =
     (case s of None \<Rightarrow> None
      | Some t \<Rightarrow> map_option (\<lambda>idx. st_providers t ! idx) (provider_walk (st_suffix t) (Normalize name)))"

fun owner_loop :: "rule_span list \<Rightarrow> addr list \<Rightarrow> addr \<Rightarrow> nat \<Rightarrow> nat option \<Rightarrow> nat option" where
  "owner_loop spans maxHi a 0 best = best"
| "owner_loop spans maxHi a (Suc i) best =
     (if maxHi ! i < a then best
      else
        let sp = spans ! i in
        owner_loop spans maxHi a i
          (if rs_lo sp \<le> a \<and> a \<le> rs_hi sp then
             (case best of
                None \<Rightarrow> Some i
              | Some b \<Rightarrow> if pfx_bits (rs_prefix sp) > pfx_bits (rs_prefix (spans ! b)) then Some i else best)
           else best))"

definition Owner :: "rule_set option \<Rightarrow> addr \<Rightarrow> (provider \<times> prefix \<times> bool) option" where
  "Owner s addr0 =
     (case s of None \<Rightarrow> None
      | Some t \<Rightarrow>
          if \<not> IsValid addr0 then None
          else
            let addr = Unmap addr0; spans = st_spans t;
                idx = sort_Search (length spans) (\<lambda>i. rs_lo (spans ! i) > addr)
            in case owner_loop spans (st_maxHi t) addr idx None of
                 None \<Rightarrow> None
               | Some b \<Rightarrow>
                   let sp = spans ! b in Some (st_providers t ! rs_provider sp, rs_prefix sp, rs_mainland sp))"

definition Classify :: "rule_set option \<Rightarrow> string \<Rightarrow> addr \<Rightarrow> decision" where
  "Classify s name addr =
     (let prov = ProviderFor s name; own = Owner s addr;
          verdict = (case prov of
             None \<Rightarrow> VerdictUnknown
           | Some p \<Rightarrow>
               (case own of
                  Some (q, _, mainland) \<Rightarrow>
                    if pr_ID q = pr_ID p then (if mainland then VerdictMainland else VerdictOffshore)
                    else if pr_PrefixCount p = 0 then VerdictUnknown else VerdictMismatch
                | None \<Rightarrow> if pr_PrefixCount p = 0 then VerdictUnknown else VerdictMismatch))
      in \<lparr>dc_Verdict = verdict,
          dc_Provider = (case prov of None \<Rightarrow> [] | Some p \<Rightarrow> pr_ID p),
          dc_Name = name,
          dc_Owner = (case own of None \<Rightarrow> [] | Some (q, _, _) \<Rightarrow> pr_ID q),
          dc_Prefix = (case own of None \<Rightarrow> prefix_zero | Some (_, pfx, _) \<Rightarrow> pfx)\<rparr>)"

section \<open>The text format\<close>

definition Schema :: string where "Schema = ''cdn-direct/1''"
definition tagProvider :: string where "tagProvider = ''P''"
definition tagDomain :: string where "tagDomain = ''D''"
definition tagNet :: string where "tagNet = ''N''"
definition placeMainland :: string where "placeMainland = ''cn''"
definition placeOffshore :: string where "placeOffshore = ''off''"

datatype parse_error =
  BadSchema string | BadGeneratedAt string | ProviderColumns nat nat | ProviderNoID nat | ProviderTwice nat string
  | DomainColumns nat nat | Undeclared nat string | EmptyDomain nat | NetColumns nat nat | BadNet nat
  | BadPlace nat | BadTag nat string | ScanTooLong | NoSchema | NoGeneratedAt

record parse_state =
  ps_generated :: "int option"
  ps_schemaSeen :: bool
  ps_order :: "string list"
  ps_byID :: "string \<rightharpoonup> provider"
  ps_line :: nat

definition headerField :: "string \<Rightarrow> (string \<times> string) option" where
  "headerField text =
     (let body = TrimSpace (if HasPrefix text ''#'' then drop 1 text else text) in
      case Cut (CHR '':'') body of None \<Rightarrow> None | Some (k, v) \<Rightarrow> Some (TrimSpace k, TrimSpace v))"

definition parse_header :: "string \<Rightarrow> parse_state \<Rightarrow> parse_error + parse_state" where
  "parse_header text st =
     (case headerField text of
        None \<Rightarrow> Inr st
      | Some (key, val) \<Rightarrow>
          if key = ''schema'' then
            (if val \<noteq> Schema then Inl (BadSchema val) else Inr (st\<lparr>ps_schemaSeen := True\<rparr>))
          else if key = ''generated-at'' then
            (case Atoi val of
               None \<Rightarrow> Inl (BadGeneratedAt val)
             | Some secs \<Rightarrow> if secs \<le> 0 then Inl (BadGeneratedAt val) else Inr (st\<lparr>ps_generated := Some secs\<rparr>))
          else Inr st)"

definition parse_fields :: "string list \<Rightarrow> parse_state \<Rightarrow> parse_error + parse_state" where
  "parse_fields cols st =
     (let line = ps_line st; n = length cols in
      if hd cols = tagProvider then
        (if n \<noteq> 3 then Inl (ProviderColumns line n)
         else let id = TrimSpace (cols ! 1) in
           if id = [] then Inl (ProviderNoID line)
           else if ps_byID st id \<noteq> None then Inl (ProviderTwice line id)
           else Inr (st\<lparr>ps_byID := (ps_byID st)(id \<mapsto> \<lparr>pr_ID = id, pr_Name = TrimSpace (cols ! 2), pr_Domains = [],
                          pr_Mainland = [], pr_Offshore = []\<rparr>),
                        ps_order := ps_order st @ [id]\<rparr>))
      else if hd cols = tagDomain then
        (if n \<noteq> 3 then Inl (DomainColumns line n)
         else let id = TrimSpace (cols ! 1) in
           case ps_byID st id of
             None \<Rightarrow> Inl (Undeclared line id)
           | Some p \<Rightarrow>
               let name = Normalize (cols ! 2) in
               if name = [] then Inl (EmptyDomain line)
               else Inr (st\<lparr>ps_byID := (ps_byID st)(id \<mapsto> p\<lparr>pr_Domains := pr_Domains p @ [name]\<rparr>)\<rparr>))
      else if hd cols = tagNet then
        (if n \<noteq> 4 then Inl (NetColumns line n)
         else let id = TrimSpace (cols ! 1) in
           case ps_byID st id of
             None \<Rightarrow> Inl (Undeclared line id)
           | Some p \<Rightarrow>
               (case cidr_ParsePrefix (TrimSpace (cols ! 3)) of
                  None \<Rightarrow> Inl (BadNet line)
                | Some pfx \<Rightarrow>
                    let place = TrimSpace (cols ! 2) in
                    if place = placeMainland then
                      Inr (st\<lparr>ps_byID := (ps_byID st)(id \<mapsto> p\<lparr>pr_Mainland := pr_Mainland p @ [pfx]\<rparr>)\<rparr>)
                    else if place = placeOffshore then
                      Inr (st\<lparr>ps_byID := (ps_byID st)(id \<mapsto> p\<lparr>pr_Offshore := pr_Offshore p @ [pfx]\<rparr>)\<rparr>)
                    else Inl (BadPlace line)))
      else Inl (BadTag line (hd cols)))"

definition parse_rule_line :: "string \<Rightarrow> parse_state \<Rightarrow> parse_error + parse_state" where
  "parse_rule_line raw st0 =
     (let st = st0\<lparr>ps_line := ps_line st0 + 1\<rparr>; text = TrimRight (CHR 0x0D) raw in
      if HasPrefix text ''#'' then parse_header text st
      else if TrimSpace text = [] then Inr st
      else parse_fields (Split (CHR 0x09) text) st)"

fun parse_loop :: "string list \<Rightarrow> parse_state \<Rightarrow> parse_error + parse_state" where
  "parse_loop [] st = Inr st"
| "parse_loop (raw # ls) st = bind_res (parse_rule_line raw st) (parse_loop ls)"

definition parse_start :: parse_state where
  "parse_start = \<lparr>ps_generated = None, ps_schemaSeen = False, ps_order = [], ps_byID = Map.empty, ps_line = 0\<rparr>"

definition rules_Parse :: "string \<Rightarrow> parse_error + rule_set" where
  "rules_Parse body =
     (let (ls, ok) = ScanLines body in
      bind_res (parse_loop ls parse_start) (\<lambda>st.
        if \<not> ok then Inl ScanTooLong
        else if \<not> ps_schemaSeen st then Inl NoSchema
        else case ps_generated st of
          None \<Rightarrow> Inl NoGeneratedAt
        | Some g \<Rightarrow> Inr (rules_New g (map (\<lambda>id. the (ps_byID st id)) (ps_order st)))))"

definition rules_Load :: "env \<Rightarrow> string \<Rightarrow> dir \<Rightarrow> io_error + (parse_error + rule_set)" where
  "rules_Load env path d = bind_res (ReadFile env path d) (\<lambda>body. Inr (rules_Parse body))"

fun dedupe_loop :: "string set \<Rightarrow> string list \<Rightarrow> string list" where
  "dedupe_loop seen [] = []"
| "dedupe_loop seen (d # ds) =
     (let key = Normalize d in
      if key = [] \<or> key \<in> seen then dedupe_loop seen ds else key # dedupe_loop (insert key seen) ds)"

definition dedupeDomains :: "string list \<Rightarrow> string list" where
  "dedupeDomains ds = sort (dedupe_loop {} ds)"

definition tab :: string where "tab = [CHR 0x09]"

definition nl :: string where "nl = [CHR 0x0A]"

definition rules_Render :: "int \<Rightarrow> provider list \<Rightarrow> string" where
  "rules_Render generatedAt providers =
     (let ps = map (\<lambda>p. p\<lparr>pr_Domains := dedupeDomains (pr_Domains p),
                          pr_Mainland := CollapsePrefixes (pr_Mainland p),
                          pr_Offshore := CollapsePrefixes (pr_Offshore p)\<rparr>) (sort_key pr_ID providers)
      in ''# schema: '' @ Schema @ nl
         @ ''# generated-at: '' @ int_digits generatedAt @ nl
         @ ''# providers: '' @ dec_digits (length ps) @ nl
         @ ''# domains: '' @ dec_digits (sum_list (map (length \<circ> pr_Domains) ps)) @ nl
         @ ''# prefixes: '' @ dec_digits (sum_list (map pr_PrefixCount ps)) @ nl
         @ concat (map (\<lambda>p. tagProvider @ tab @ pr_ID p @ tab @ pr_Name p @ nl) ps)
         @ concat (map (\<lambda>p. concat (map (\<lambda>d. tagDomain @ tab @ pr_ID p @ tab @ d @ nl) (pr_Domains p))) ps)
         @ concat (map (\<lambda>p.
             concat (map (\<lambda>n. tagNet @ tab @ pr_ID p @ tab @ placeMainland @ tab @ pfx_String n @ nl) (pr_Mainland p)) @
             concat (map (\<lambda>n. tagNet @ tab @ pr_ID p @ tab @ placeOffshore @ tab @ pfx_String n @ nl) (pr_Offshore p))) ps))"

section \<open>Building the providers from their feeds\<close>

definition minV4Bits :: int where "minV4Bits = 8"
definition minV6Bits :: int where "minV6Bits = 16"

fun parseAll :: "string list \<Rightarrow> prefix list option" where
  "parseAll [] = Some []"
| "parseAll (v0 # vs) =
     (let v = TrimSpace v0 in
      if v = [] then parseAll vs
      else case cidr_ParsePrefix v of
        None \<Rightarrow> None | Some p \<Rightarrow> map_option ((#) p) (parseAll vs))"

definition decodePlain :: "string \<Rightarrow> prefix list option" where
  "decodePlain body = (let (ls, ok) = ScanLines body in if ok then ReadPrefixes ls else None)"

fun check_prefixes :: "prefix list \<Rightarrow> prefix list option" where
  "check_prefixes [] = Some []"
| "check_prefixes (p # ps) =
     (if \<not> pfx_IsValid p then check_prefixes ps
      else if pfx_bits p < (if Is6 (pfx_addr p) then minV6Bits else minV4Bits) then None
      else map_option ((#) (Masked p)) (check_prefixes ps))"

text \<open>
  \<open>fetch\<close> downloads a feed and \<open>decode\<close> is its decoder; a source with a prefix that is too wide, or
  with none, is refused as a whole.
\<close>

definition fetchPrefixes :: "(string \<Rightarrow> string option) \<Rightarrow> string \<Rightarrow> (string \<Rightarrow> prefix list option) \<Rightarrow> prefix list option" where
  "fetchPrefixes fetch url decode =
     Option.bind (fetch url) (\<lambda>body.
       Option.bind (decode body) (\<lambda>raw.
         Option.bind (check_prefixes raw) (\<lambda>out. if out = [] then None else Some out)))"

text \<open>
  The documents that \<open>encoding/json\<close> reads from the bodies of the three JSON feeds; reading JSON is a
  parameter of the model, one function for each document type (\<open>None\<close>: not such a document).
\<close>

record fastly_doc =
  fd_Addresses :: "string list"
  fd_IPv6Addresses :: "string list"

record cloudfront_doc =
  cd_Prefixes :: "(string \<times> string) list"
  cd_IPv6Prefixes :: "(string \<times> string) list"

record ripe_doc =
  rd_Status :: string
  rd_Prefixes :: "string list"

record json =
  js_fastly :: "string \<Rightarrow> fastly_doc option"
  js_cloudfront :: "string \<Rightarrow> cloudfront_doc option"
  js_ripe :: "string \<Rightarrow> ripe_doc option"

definition decodeFastly :: "json \<Rightarrow> string \<Rightarrow> prefix list option" where
  "decodeFastly js body =
     Option.bind (js_fastly js body) (\<lambda>doc. parseAll (fd_Addresses doc @ fd_IPv6Addresses doc))"

definition decodeCloudFront :: "json \<Rightarrow> string \<Rightarrow> prefix list option" where
  "decodeCloudFront js body =
     Option.bind (js_cloudfront js body) (\<lambda>doc.
       parseAll (map fst (filter (\<lambda>(_, service). service = ''CLOUDFRONT'') (cd_Prefixes doc)) @
                 map fst (filter (\<lambda>(_, service). service = ''CLOUDFRONT'') (cd_IPv6Prefixes doc))))"

definition decodeRIPEStat :: "json \<Rightarrow> string \<Rightarrow> prefix list option" where
  "decodeRIPEStat js body =
     Option.bind (js_ripe js body) (\<lambda>doc.
       if rd_Status doc \<noteq> [] \<and> rd_Status doc \<noteq> ''ok'' then None else parseAll (rd_Prefixes doc))"

definition officialFeeds :: "json \<Rightarrow> string \<Rightarrow> (string \<times> (string \<Rightarrow> prefix list option)) list" where
  "officialFeeds js pid =
     (if pid = ''cloudflare'' then
        [(''https://www.cloudflare.com/ips-v4'', decodePlain), (''https://www.cloudflare.com/ips-v6'', decodePlain)]
      else if pid = ''fastly'' then [(''https://api.fastly.com/public-ip-list'', decodeFastly js)]
      else if pid = ''amazon'' then [(''https://ip-ranges.amazonaws.com/ip-ranges.json'', decodeCloudFront js)]
      else [])"

text \<open>A failed source leaves a warning, here its operator and the address that failed.\<close>

record report =
  rp_Providers :: "provider list"
  rp_Warnings :: "(string \<times> string) list"
  rp_Prefixes :: nat
  rp_Domains :: nat
  rp_WithNets :: "string list"
  rp_WithoutNets :: "string list"

definition report_zero :: report where
  "report_zero = \<lparr>rp_Providers = [], rp_Warnings = [], rp_Prefixes = 0, rp_Domains = 0, rp_WithNets = [], rp_WithoutNets = []\<rparr>"

definition operator_sources :: "json \<Rightarrow> string \<Rightarrow> operator \<Rightarrow> (string \<times> (string \<Rightarrow> prefix list option)) list" where
  "operator_sources js endpoint p =
     officialFeeds js (op_ID p) @ map (\<lambda>asn. (endpoint @ int_digits asn, decodeRIPEStat js)) (AllASNs p)"

fun gather :: "(string \<Rightarrow> string option) \<Rightarrow> (string \<times> (string \<Rightarrow> prefix list option)) list \<Rightarrow> prefix list \<times> string list" where
  "gather fetch [] = ([], [])"
| "gather fetch ((url, decode) # fs) =
     (let (raw, warn) = gather fetch fs in
      case fetchPrefixes fetch url decode of None \<Rightarrow> (raw, url # warn) | Some got \<Rightarrow> (got @ raw, warn))"

definition build_provider :: "prefix list \<Rightarrow> operator \<Rightarrow> prefix list \<Rightarrow> provider" where
  "build_provider mainland p raw0 =
     (let raw = CollapsePrefixes raw0 in
      \<lparr>pr_ID = op_ID p, pr_Name = op_Name p, pr_Domains = op_Roots p,
       pr_Mainland = cidr_Intersect raw mainland, pr_Offshore = cidr_Subtract raw mainland\<rparr>)"

definition build_step :: "(string \<Rightarrow> string option) \<Rightarrow> json \<Rightarrow> string \<Rightarrow> prefix list \<Rightarrow> operator \<Rightarrow> report \<Rightarrow> report" where
  "build_step fetch js endpoint mainland q rep =
     (let (raw, warn) = gather fetch (operator_sources js endpoint q);
          p = build_provider mainland q raw
      in rep\<lparr>rp_Providers := rp_Providers rep @ [p],
             rp_Warnings := rp_Warnings rep @ map (\<lambda>url. (op_ID q, url)) warn,
             rp_Prefixes := rp_Prefixes rep + pr_PrefixCount p,
             rp_Domains := rp_Domains rep + length (pr_Domains p),
             rp_WithNets := rp_WithNets rep @ (if 0 < pr_PrefixCount p then [op_ID q] else []),
             rp_WithoutNets := rp_WithoutNets rep @ (if 0 < pr_PrefixCount p then [] else [op_ID q])\<rparr>)"

datatype rules_error = NoBaseline | TooFew nat

definition rules_Build :: "(string \<Rightarrow> string option) \<Rightarrow> json \<Rightarrow> string \<Rightarrow> prefix list \<Rightarrow> int \<Rightarrow> report \<times> rules_error option" where
  "rules_Build fetch js endpoint0 mainland0 minPrefixes =
     (let endpoint = (if endpoint0 = [] then ''https://stat.ripe.net/data/announced-prefixes/data.json?resource=AS'' else endpoint0) in
      if mainland0 = [] then (report_zero, Some NoBaseline)
      else
        let rep = fold (build_step fetch js endpoint (CollapsePrefixes mainland0)) Operators report_zero;
            rep' = rep\<lparr>rp_WithNets := sort (rp_WithNets rep), rp_WithoutNets := sort (rp_WithoutNets rep)\<rparr>
        in (rep', if 0 < minPrefixes \<and> int (rp_Prefixes rep') < minPrefixes then Some (TooFew (rp_Prefixes rep')) else None))"

section \<open>Synchronising the file\<close>

definition FileName :: string where "FileName = ''cdn-direct.txt''"
definition selfTestAddr :: string where "selfTestAddr = ''192.0.2.1''"
definition shrinkPercent :: nat where "shrinkPercent = 20"

datatype validate_error = Unparsed parse_error | NoProviders | BadSelfTest | SelfTestOwned

definition rules_validate :: "string \<Rightarrow> validate_error + rule_set" where
  "rules_validate body =
     (case rules_Parse body of
        Inl e \<Rightarrow> Inl (Unparsed e)
      | Inr s \<Rightarrow>
          if st_providers s = [] then Inl NoProviders
          else case ParseAddr selfTestAddr of
            None \<Rightarrow> Inl BadSelfTest
          | Some probe \<Rightarrow> if Owner (Some s) probe \<noteq> None then Inl SelfTestOwned else Inr s)"

text \<open>Why a synchronisation wrote nothing.\<close>

datatype sync_reason = NoReason | NoSource | Unchanged | Older | Shrunk nat nat nat

datatype sync_error = NoStateDir | NoFetcher | WriteFailed io_error

record sync_result =
  sr_Applied :: bool
  sr_GeneratedAt :: int
  sr_Source :: string
  sr_Providers :: nat
  sr_Prefixes :: nat
  sr_Reason :: sync_reason

definition sync_zero :: sync_result where
  "sync_zero = \<lparr>sr_Applied = False, sr_GeneratedAt = 0, sr_Source = [], sr_Providers = 0, sr_Prefixes = 0, sr_Reason = NoReason\<rparr>"

definition best_source :: "(string \<Rightarrow> string option) \<Rightarrow> string \<Rightarrow> (string \<times> rule_set \<times> string) option \<Rightarrow> (string \<times> rule_set \<times> string) option" where
  "best_source fetch src0 best =
     (let src = TrimRight (CHR ''/'') (TrimSpace src0) in
      if src = [] then best
      else case fetch (src @ ''/'' @ FileName) of
        None \<Rightarrow> best
      | Some body \<Rightarrow>
          (case rules_validate body of
             Inl _ \<Rightarrow> best
           | Inr s \<Rightarrow>
               (case best of
                  None \<Rightarrow> Some (body, s, src)
                | Some (_, b, _) \<Rightarrow> if st_generatedAt s > st_generatedAt b then Some (body, s, src) else best)))"

definition keep_reason :: "bool \<Rightarrow> string \<Rightarrow> string \<Rightarrow> rule_set \<Rightarrow> sync_reason" where
  "keep_reason force old body best =
     (if old = body then Unchanged
      else case rules_Parse old of
        Inl _ \<Rightarrow> NoReason
      | Inr prev \<Rightarrow>
          if st_generatedAt best < st_generatedAt prev then Older
          else if \<not> force \<and> 100 < st_PrefixCount prev then
            (let floor = st_PrefixCount prev * (100 - shrinkPercent) div 100 in
             if st_PrefixCount best < floor then Shrunk (st_PrefixCount prev) (st_PrefixCount best) floor
             else NoReason)
          else NoReason)"

text \<open>\<open>d\<close> is the content of the state directory; \<open>fetch\<close> is \<open>None\<close> when no downloader was given.\<close>

definition Sync :: "env \<Rightarrow> string \<Rightarrow> (string \<Rightarrow> string option) option \<Rightarrow> string list \<Rightarrow> bool \<Rightarrow> dir \<Rightarrow> (sync_result \<times> sync_error option) \<times> dir" where
  "Sync env stateDir fetcher sources force d =
     (if stateDir = [] then ((sync_zero, Some NoStateDir), d)
      else case fetcher of
        None \<Rightarrow> ((sync_zero, Some NoFetcher), d)
      | Some fetch \<Rightarrow>
          (case fold (best_source fetch) sources None of
             None \<Rightarrow> ((sync_zero\<lparr>sr_Reason := NoSource\<rparr>, None), d)
           | Some (body, best, src) \<Rightarrow>
               let res = \<lparr>sr_Applied = False, sr_GeneratedAt = st_generatedAt best, sr_Source = src,
                     sr_Providers = length (st_providers best), sr_Prefixes = st_PrefixCount best, sr_Reason = NoReason\<rparr>;
                   reason = (case ReadFile env FileName d of
                     Inl _ \<Rightarrow> NoReason | Inr old \<Rightarrow> keep_reason force old body best)
               in if reason \<noteq> NoReason then ((res\<lparr>sr_Reason := reason\<rparr>, None), d)
                  else case WriteAtomic env FileName body 420 d of
                    (Inl e, d') \<Rightarrow> ((res, Some (WriteFailed e)), d')
                  | (Inr _, d') \<Rightarrow> ((res\<lparr>sr_Applied := True\<rparr>, None), d')))"

end
