(* ===== verification/CDN_Hit.thy ===== *)
theory CDN_Hit
  imports CDN_Rules DNS_Wire IPSet_Prefix
begin

text \<open>
  Package \<open>internal/cdnhit\<close>: for well-known names, does a client in the mainland get a mainland node?
  Each probe asks a resolver with a client subnet and classifies the answer by the CDN rule set and
  the mainland prefixes. The probes run in goroutines that share nothing but the resolver: what it
  answers to each call (slot of the probe, number of the call) is the argument \<open>hit_resolve\<close>, so
  that a model run stands for every interleaving. Flushing names from the cache is an argument too.
\<close>

section \<open>Verdicts\<close>

datatype hit_verdict = HitMainland | HitNoSteering | HitNoNode | HitNoEcho | HitNotDelivered | HitUnresolved

fun hit_Label :: "hit_verdict \<Rightarrow> string" where
  "hit_Label HitMainland =
     bytes [230, 139, 191, 229, 136, 176, 228, 186, 134, 229, 155, 189, 229, 134, 133, 232, 138, 130, 231,
       130, 185]"
| "hit_Label HitNoSteering =
     bytes [230, 157, 131, 229, 168, 129, 228, 184, 141, 229, 136, 134, 229, 156, 176, 229, 140, 186, 239,
       188, 140, 230, 137, 128, 230, 156, 137, 228, 186, 186, 230, 139, 191, 229, 136, 176, 229, 144, 140, 228,
       184, 128, 228, 184, 170, 229, 156, 176, 229, 157, 128]"
| "hit_Label HitNoEcho =
     bytes [231, 173, 148, 230, 161, 136, 230, 157, 165, 232, 135, 170, 231, 188, 147, 229, 173, 152, 239,
       188, 140, 231, 156, 139, 228, 184, 141, 229, 135, 186, 230, 152, 175, 229, 144, 166, 230, 140, 137, 229,
       156, 176, 229, 140, 186, 230, 140, 145, 232, 191, 135, 239, 188, 140, 229, 164, 141, 230, 160, 184, 228,
       188, 154, 230, 184, 133, 231, 188, 147, 229, 173, 152, 233, 135, 141, 230, 159, 165]"
| "hit_Label HitNotDelivered =
     bytes [230, 184, 133, 228, 186, 134, 231, 188, 147, 229, 173, 152, 233, 135, 141, 230, 159, 165, 239,
       188, 140, 230, 157, 131, 229, 168, 129, 228, 187, 141, 230, 178, 161, 230, 148, 182, 229, 136, 176, 228,
       189, 160, 231, 154, 132, 229, 173, 144, 231, 189, 145, 239, 188, 140, 69, 67, 83, 32, 231, 153, 189, 229,
       144, 141, 229, 141, 149, 229, 143, 175, 232, 131, 189, 230, 188, 143, 228, 186, 134, 229, 174, 131]"
| "hit_Label HitNoNode =
     bytes [230, 140, 137, 228, 189, 160, 231, 154, 132, 229, 156, 176, 229, 140, 186, 230, 140, 145, 232,
       191, 135, 228, 186, 134, 228, 187, 141, 231, 187, 153, 229, 162, 131, 229, 164, 150, 239, 188, 140, 232,
       191, 153, 229, 174, 182, 229, 156, 168, 229, 155, 189, 229, 134, 133, 230, 178, 161, 230, 156, 137, 232,
       138, 130, 231, 130, 185]"
| "hit_Label HitUnresolved =
     bytes [232, 191, 153, 230, 172, 161, 230, 178, 161, 232, 167, 163, 230, 158, 144, 229, 135, 186, 229,
       156, 176, 229, 157, 128]"

fun hit_Short :: "hit_verdict \<Rightarrow> string" where
  "hit_Short HitMainland =
     bytes [229, 155, 189, 229, 134, 133, 232, 138, 130, 231, 130, 185]"
| "hit_Short HitNoSteering =
     bytes [228, 184, 141, 229, 136, 134, 229, 156, 176, 229, 140, 186]"
| "hit_Short HitNoEcho =
     bytes [229, 190, 133, 229, 164, 141, 230, 160, 184]"
| "hit_Short HitNotDelivered =
     bytes [229, 173, 144, 231, 189, 145, 230, 178, 161, 233, 128, 129, 229, 136, 176]"
| "hit_Short HitNoNode =
     bytes [230, 151, 160, 229, 155, 189, 229, 134, 133, 232, 138, 130, 231, 130, 185]"
| "hit_Short HitUnresolved =
     bytes [232, 167, 163, 230, 158, 144, 229, 164, 177, 232, 180, 165]"

definition Decided :: "hit_verdict \<Rightarrow> bool" where
  "Decided v \<longleftrightarrow> v = HitMainland \<or> v = HitNoSteering \<or> v = HitNoNode \<or> v = HitNotDelivered"

record hit_probe =
  hp_Domain :: string
  hp_Label :: string

definition LocalUnbound :: string where "LocalUnbound = ''127.0.0.1:5335''"
definition DefaultResolver :: string where "DefaultResolver = LocalUnbound"

definition BeijingTelecom :: string where "BeijingTelecom = ''219.141.136.0/24''"
definition BeijingUnicom :: string where "BeijingUnicom = ''202.106.0.0/24''"
definition BeijingMobile :: string where "BeijingMobile = ''221.130.33.0/24''"

definition Vantages :: "(string \<times> string) list" where
  "Vantages =
     [(BeijingTelecom, bytes [229, 140, 151, 228, 186, 172, 231, 148, 181, 228, 191, 161]),
      (BeijingUnicom, bytes [229, 140, 151, 228, 186, 172, 232, 129, 148, 233, 128, 154]),
      (BeijingMobile, bytes [229, 140, 151, 228, 186, 172, 231, 167, 187, 229, 138, 168])]"

definition DefaultProbes :: "hit_probe list" where
  "DefaultProbes =
     [\<lparr>hp_Domain = ''www.taobao.com'', hp_Label = bytes [230, 183, 152, 229, 174, 157]\<rparr>,
      \<lparr>hp_Domain = ''www.qq.com'', hp_Label = bytes [232, 133, 190, 232, 174, 175]\<rparr>,
      \<lparr>hp_Domain = ''www.baidu.com'', hp_Label = bytes [231, 153, 190, 229, 186, 166]\<rparr>,
      \<lparr>hp_Domain = ''www.huawei.com'', hp_Label = bytes [229, 141, 142, 228, 184, 186]\<rparr>,
      \<lparr>hp_Domain = ''www.apple.com'', hp_Label = ''Apple''\<rparr>,
      \<lparr>hp_Domain = ''www.microsoft.com'', hp_Label = bytes [229, 190, 174, 232, 189, 175]\<rparr>,
      \<lparr>hp_Domain = ''www.bing.com'', hp_Label = bytes [229, 191, 133, 229, 186, 148]\<rparr>,
      \<lparr>hp_Domain = ''www.cloudflare.com'', hp_Label = ''Cloudflare''\<rparr>]"

record hit_answer =
  ha_Addrs :: "addr list"
  ha_Scope :: nat
  ha_Echoed :: bool
  ha_Chain :: "string list"

definition answer_zero :: hit_answer where
  "answer_zero = \<lparr>ha_Addrs = [], ha_Scope = 0, ha_Echoed = False, ha_Chain = []\<rparr>"

record hit_outcome =
  ho_Domain :: string
  ho_Label :: string
  ho_Provider :: string
  ho_ProviderID :: string
  ho_HasMainland :: bool
  ho_MainlandNum :: nat
  ho_Addrs :: "string list"
  ho_Scope :: nat
  ho_ECSEchoed :: bool
  ho_Flushed :: bool
  ho_FlushError :: string
  ho_Prefix :: string
  ho_Foreign :: bool
  ho_Mismatch :: bool
  ho_Verdict :: hit_verdict
  ho_VerdictText :: string
  ho_VerdictShort :: string
  ho_Error :: string

record hit_report =
  hr_Resolver :: string
  hr_Subnet :: string
  hr_GeneratedAt :: int
  hr_RulesetAt :: int
  hr_Fresh :: bool
  hr_Probes :: "hit_outcome list"
  hr_Mainland :: nat
  hr_NoNode :: nat
  hr_NoSteering :: nat
  hr_NotDelivered :: nat
  hr_Undecided :: nat
  hr_Comparable :: nat

type_synonym hit_resolve = "nat \<Rightarrow> nat \<Rightarrow> string \<Rightarrow> prefix \<Rightarrow> hit_answer \<times> string option"

record hit_options =
  hopt_Resolver :: string
  hopt_Probes :: "hit_probe list"
  hopt_Set :: "rule_set option"
  hopt_Mainland :: "ip_set option"
  hopt_Now :: int
  hopt_Resolve :: hit_resolve
  hopt_Flush :: "(nat \<Rightarrow> string \<Rightarrow> string option) option"

text \<open>\<open>fl_done\<close>, \<open>fl_err\<close> and \<open>fl_global\<close> are the fields of \<open>flushState\<close>.\<close>

record flush_state =
  fl_done :: bool
  fl_err :: string
  fl_global :: bool

definition flush_zero :: flush_state where
  "flush_zero = \<lparr>fl_done = False, fl_err = [], fl_global = False\<rparr>"

datatype hit_error = RulesEmpty | SubnetSyntax string | SubnetNotIPv4 string | NoSubnets | ListUnreadable io_error | ListEmpty

section \<open>The mainland list\<close>

definition LoadMainland :: "env \<Rightarrow> string \<Rightarrow> dir \<Rightarrow> hit_error + ip_set" where
  "LoadMainland env path d =
     (case ReadFile env path d of
        Inl e \<Rightarrow> Inl (ListUnreadable e)
      | Inr body \<Rightarrow>
          let (ls, ok) = ScanLines body; (t, _, _) = LoadReader True ls in
          if \<not> ok then Inl (ListUnreadable IOFailure)
          else if set_Len (Some t) = 0 then Inl ListEmpty else Inr t)"

section \<open>One probe\<close>

text \<open>\<open>flushTargets\<close>: the name, and the names of the chain its answer went through, each once.\<close>

fun chain_loop :: "string list \<Rightarrow> string set \<Rightarrow> string list" where
  "chain_loop [] seen = []"
| "chain_loop (link # links) seen =
     (let key = ToLower (TrimSuffix (CHR ''.'') link) in
      if key = [] \<or> key \<in> seen then chain_loop links seen else key # chain_loop links (insert key seen))"

definition flushTargets :: "hit_resolve \<Rightarrow> nat \<Rightarrow> string \<Rightarrow> prefix \<Rightarrow> string list" where
  "flushTargets resolve slot name subnet =
     (case resolve slot 0 name subnet of
        (_, Some _) \<Rightarrow> [name]
      | (prime, None) \<Rightarrow> name # chain_loop (ha_Chain prime) {ToLower (TrimSuffix (CHR ''.'') name)})"

fun flush_loop :: "(string \<Rightarrow> string option) \<Rightarrow> string list \<Rightarrow> flush_state" where
  "flush_loop flush [] = flush_zero\<lparr>fl_done := True\<rparr>"
| "flush_loop flush (name # names) =
     (case flush name of Some e \<Rightarrow> flush_zero\<lparr>fl_err := e\<rparr> | None \<Rightarrow> flush_loop flush names)"

text \<open>What the loop over the addresses keeps: the provider and the prefix found so far, the addresses without an owner; the flag tells that it ended at a mainland address.\<close>

definition set_provider :: "provider \<Rightarrow> hit_outcome \<Rightarrow> hit_outcome" where
  "set_provider p out =
     out\<lparr>ho_Provider := pr_Name p, ho_ProviderID := pr_ID p, ho_HasMainland := ServesMainland p,
         ho_MainlandNum := length (pr_Mainland p)\<rparr>"

definition note_owner :: "(provider \<times> prefix \<times> bool) option \<Rightarrow> hit_outcome \<Rightarrow> hit_outcome" where
  "note_owner own out =
     (case own of
        None \<Rightarrow> out
      | Some (owner, pfx, _) \<Rightarrow>
          let out = (if ho_ProviderID out = [] then set_provider owner out else out)
          in if ho_Prefix out = [] then out\<lparr>ho_Prefix := pfx_String pfx\<rparr> else out)"

fun owners_loop :: "rule_set option \<Rightarrow> ip_set option \<Rightarrow> addr list \<Rightarrow> hit_outcome \<Rightarrow> nat \<Rightarrow> bool \<times> hit_outcome \<times> nat" where
  "owners_loop rules mainland [] out unowned = (False, out, unowned)"
| "owners_loop rules mainland (a # addrs) out unowned =
     (let own = Owner rules a;
          out = note_owner own out;
          unowned = (if own = None then unowned + 1 else unowned);
          inRules = (case own of Some (_, _, m) \<Rightarrow> m | None \<Rightarrow> False)
      in if inRules \<or> mainland \<noteq> None \<and> set_Contains mainland a then (True, out, unowned)
         else owners_loop rules mainland addrs out unowned)"

definition with_verdict :: "hit_verdict \<Rightarrow> hit_outcome \<Rightarrow> hit_outcome" where
  "with_verdict v out = out\<lparr>ho_Verdict := v, ho_VerdictText := hit_Label v, ho_VerdictShort := hit_Short v\<rparr>"

definition outcome_start :: "rule_set option \<Rightarrow> hit_probe \<Rightarrow> flush_state \<Rightarrow> hit_outcome" where
  "outcome_start rules probe flush =
     (let out = \<lparr>ho_Domain = hp_Domain probe, ho_Label = hp_Label probe, ho_Provider = [], ho_ProviderID = [],
            ho_HasMainland = False, ho_MainlandNum = 0, ho_Addrs = [], ho_Scope = 0, ho_ECSEchoed = False,
            ho_Flushed = fl_done flush, ho_FlushError = fl_err flush, ho_Prefix = [], ho_Foreign = False,
            ho_Mismatch = False, ho_Verdict = HitUnresolved, ho_VerdictText = [], ho_VerdictShort = [], ho_Error = []\<rparr>
      in case ProviderFor rules (hp_Domain probe) of None \<Rightarrow> out | Some p \<Rightarrow> set_provider p out)"

definition hit_classify ::
  "rule_set option \<Rightarrow> ip_set option \<Rightarrow> hit_probe \<Rightarrow> flush_state \<Rightarrow> hit_answer \<times> string option \<Rightarrow> hit_outcome" where
  "hit_classify rules mainland probe flush resolved =
     (let (answer, err) = resolved; addrs = ha_Addrs answer;
          out = (outcome_start rules probe flush)\<lparr>ho_Scope := ha_Scope answer, ho_ECSEchoed := ha_Echoed answer\<rparr>
      in if err \<noteq> None \<or> addrs = [] then
           with_verdict HitUnresolved (case err of None \<Rightarrow> out | Some e \<Rightarrow> out\<lparr>ho_Error := e\<rparr>)
         else
           let out = out\<lparr>ho_Addrs := map addr_String addrs\<rparr>;
               (hit, out, unowned) = owners_loop rules mainland addrs out 0
           in if hit then with_verdict HitMainland out
              else
                let out = out\<lparr>ho_Foreign := mainland \<noteq> None\<rparr>;
                    out = out\<lparr>ho_Mismatch := ho_Foreign out \<and> ho_ProviderID out \<noteq> [] \<and> unowned = length addrs\<rparr>
                in with_verdict
                     (if \<not> ha_Echoed answer \<and> fl_global flush then HitNoSteering
                      else if \<not> ha_Echoed answer \<and> ho_Flushed out then HitNotDelivered
                      else if \<not> ha_Echoed answer then HitNoEcho
                      else if ha_Scope answer = 0 then HitNoSteering
                      else HitNoNode) out)"

section \<open>A run\<close>

fun parse_subnets :: "string list \<Rightarrow> hit_error + prefix list" where
  "parse_subnets [] = Inr []"
| "parse_subnets (raw # raws) =
     (case ParsePrefix raw of
        None \<Rightarrow> Inl (SubnetSyntax raw)
      | Some p \<Rightarrow>
          if \<not> Is4 (pfx_addr p) then Inl (SubnetNotIPv4 raw)
          else bind_res (parse_subnets raws) (\<lambda>ps. Inr (p # ps)))"

text \<open>The goroutine of one probe in the second phase: one outcome for each subnet; \<open>call\<close> counts its calls of the resolver.\<close>

fun probe_subnets :: "hit_options \<Rightarrow> nat \<Rightarrow> hit_probe \<Rightarrow> nat \<Rightarrow> flush_state \<Rightarrow> prefix list \<Rightarrow> hit_outcome list" where
  "probe_subnets opt slot probe call state [] = []"
| "probe_subnets opt slot probe call state (subnet # subnets) =
     (let out = hit_classify (hopt_Set opt) (hopt_Mainland opt) probe state
            (hopt_Resolve opt slot call (hp_Domain probe) subnet);
          state = (if ho_ECSEchoed out \<and> ho_Scope out = 0 then state\<lparr>fl_global := True\<rparr> else state)
      in out # probe_subnets opt slot probe (call + 1) state subnets)"

definition probe_run :: "hit_options \<Rightarrow> prefix list \<Rightarrow> nat \<times> hit_probe \<Rightarrow> hit_outcome list" where
  "probe_run opt subnets = (\<lambda>(slot, probe).
     let state = (case hopt_Flush opt of
           None \<Rightarrow> flush_zero
         | Some flush \<Rightarrow> flush_loop (flush slot) (flushTargets (hopt_Resolve opt) slot (hp_Domain probe) (hd subnets)))
     in probe_subnets opt slot probe 1 state subnets)"

definition tally_one :: "hit_outcome \<Rightarrow> hit_report \<Rightarrow> hit_report" where
  "tally_one item r =
     (let r = (case ho_Verdict item of
           HitMainland \<Rightarrow> r\<lparr>hr_Mainland := hr_Mainland r + 1\<rparr>
         | HitNoNode \<Rightarrow> r\<lparr>hr_NoNode := hr_NoNode r + 1\<rparr>
         | HitNoSteering \<Rightarrow> r\<lparr>hr_NoSteering := hr_NoSteering r + 1\<rparr>
         | HitNotDelivered \<Rightarrow> r\<lparr>hr_NotDelivered := hr_NotDelivered r + 1\<rparr>
         | _ \<Rightarrow> r\<lparr>hr_Undecided := hr_Undecided r + 1\<rparr>)
      in if Decided (ho_Verdict item) then r\<lparr>hr_Comparable := hr_Comparable r + 1\<rparr> else r)"

definition tallyReport :: "hit_report \<Rightarrow> hit_report" where
  "tallyReport r = fold tally_one (hr_Probes r) r"

definition report_start :: "hit_options \<Rightarrow> prefix \<Rightarrow> hit_outcome list \<Rightarrow> hit_report" where
  "report_start opt subnet probes =
     \<lparr>hr_Resolver = (if hopt_Resolver opt = [] then DefaultResolver else hopt_Resolver opt),
      hr_Subnet = pfx_String (Masked subnet), hr_GeneratedAt = hopt_Now opt,
      hr_RulesetAt = (case hopt_Set opt of None \<Rightarrow> 0 | Some t \<Rightarrow> st_generatedAt t),
      hr_Fresh = (hopt_Flush opt \<noteq> None), hr_Probes = probes,
      hr_Mainland = 0, hr_NoNode = 0, hr_NoSteering = 0, hr_NotDelivered = 0, hr_Undecided = 0, hr_Comparable = 0\<rparr>"

definition RunAll :: "hit_options \<Rightarrow> string list \<Rightarrow> hit_error + hit_report list" where
  "RunAll opt subnets =
     (if Empty (hopt_Set opt) then Inl RulesEmpty
      else bind_res (parse_subnets subnets) (\<lambda>pfxs.
        if pfxs = [] then Inl NoSubnets
        else
          let probes = (if hopt_Probes opt = [] then DefaultProbes else hopt_Probes opt);
              columns = map (probe_run opt pfxs) (enumerate 0 probes)
          in Inr (map (\<lambda>(r, subnet). tallyReport (report_start opt subnet (map (\<lambda>column. column ! r) columns)))
                 (enumerate 0 pfxs))))"

definition hit_Run :: "hit_options \<Rightarrow> string \<Rightarrow> hit_error + hit_report" where
  "hit_Run opt subnet =
     bind_res (RunAll opt [if subnet = [] then BeijingTelecom else subnet]) (\<lambda>reports. Inr (hd reports))"

fun JoinAddrs :: "addr list \<Rightarrow> string \<Rightarrow> string" where
  "JoinAddrs [] sep = []"
| "JoinAddrs [a] sep = addr_String a"
| "JoinAddrs (a # addrs) sep = addr_String a @ sep @ JoinAddrs addrs sep"

section \<open>Asking a resolver\<close>

datatype hit_query_error = QueryBuild wire_error | QueryIO string | QueryUnpack wire_error

text \<open>\<open>exchange\<close> sends a packet and returns the datagram received; the code reads at most 4096 octets of it.\<close>

definition hit_Query ::
  "(u8 list \<Rightarrow> string + u8 list) \<Rightarrow> u16 \<Rightarrow> string \<Rightarrow> prefix \<Rightarrow> hit_query_error + hit_answer" where
  "hit_Query exchange qid name subnet =
     (case BuildQueryWithSubnet qid name TypeA subnet of
        Inl e \<Rightarrow> Inl (QueryBuild e)
      | Inr packet \<Rightarrow>
      case exchange packet of
        Inl e \<Rightarrow> Inl (QueryIO e)
      | Inr received \<Rightarrow>
          let buf = take 4096 received in
          case Unpack buf of
            Inl e \<Rightarrow> Inl (QueryUnpack e)
          | Inr msg \<Rightarrow>
              let out = answer_zero
                    \<lparr>ha_Addrs := sort (List.map_filter rr_A (m_Answers msg)),
                     ha_Chain := List.map_filter (\<lambda>r. if rr_Type r = TypeCNAME then TargetName r buf else None) (m_Answers msg)\<rparr>
              in Inr (case ClientSubnet msg of
                   None \<Rightarrow> out | Some ecs \<Rightarrow> out\<lparr>ha_Scope := cs_Scope ecs, ha_Echoed := True\<rparr>))"

end
