(* ===== verification/CDN_Hit_Facts.thy ===== *)
theory CDN_Hit_Facts
  imports CDN_Hit
begin

text \<open>
  What package \<open>cdnhit\<close> reports: the verdict of a probe on every branch, and for a run the shape of the
  reports, their counters, and what one subnet's answer means for the next ones.
\<close>

section \<open>The verdict of a probe\<close>

definition mainland_addr :: "rule_set option \<Rightarrow> ip_set option \<Rightarrow> addr \<Rightarrow> bool" where
  "mainland_addr rules mainland a \<longleftrightarrow>
     (\<exists>p pfx. Owner rules a = Some (p, pfx, True)) \<or> mainland \<noteq> None \<and> set_Contains mainland a"

lemma note_owner_keeps [simp]:
  "ho_Flushed (note_owner own out) = ho_Flushed out" "ho_Mismatch (note_owner own out) = ho_Mismatch out"
  "ho_Scope (note_owner own out) = ho_Scope out" "ho_ECSEchoed (note_owner own out) = ho_ECSEchoed out"
  "ho_Domain (note_owner own out) = ho_Domain out" "ho_Label (note_owner own out) = ho_Label out"
  by (simp_all add: note_owner_def set_provider_def Let_def split: option.split)

lemma note_owner_None [simp]: "note_owner None out = out"
  by (simp add: note_owner_def)

lemma mainland_addr_test:
  "(case Owner rules a of Some (_, _, m) \<Rightarrow> m | None \<Rightarrow> False) \<or> mainland \<noteq> None \<and> set_Contains mainland a \<longleftrightarrow>
   mainland_addr rules mainland a"
  by (auto simp: mainland_addr_def split: option.split)

lemma owners_loop_Cons:
  "owners_loop rules mainland (a # addrs) out n =
     (if mainland_addr rules mainland a
      then (True, note_owner (Owner rules a) out, if Owner rules a = None then n + 1 else n)
      else owners_loop rules mainland addrs (note_owner (Owner rules a) out) (if Owner rules a = None then n + 1 else n))"
  unfolding owners_loop.simps Let_def mainland_addr_test ..

declare owners_loop.simps(2) [simp del]

lemma owners_loop_keeps:
  "owners_loop rules mainland addrs out n = (hit, out', n') \<Longrightarrow>
   ho_Flushed out' = ho_Flushed out \<and> ho_Scope out' = ho_Scope out \<and> ho_ECSEchoed out' = ho_ECSEchoed out \<and>
   ho_Domain out' = ho_Domain out \<and> ho_Label out' = ho_Label out \<and> ho_Mismatch out' = ho_Mismatch out"
  by (induction addrs arbitrary: out n) (auto simp: owners_loop_Cons split: if_splits)

lemma owners_loop_hit:
  "fst (owners_loop rules mainland addrs out n) \<longleftrightarrow> (\<exists>a \<in> set addrs. mainland_addr rules mainland a)"
  by (induction addrs arbitrary: out n) (auto simp: owners_loop_Cons)

lemma owners_loop_unowned:
  "owners_loop rules mainland addrs out n = (False, out', n') \<Longrightarrow>
   n' = n + length (filter (\<lambda>a. Owner rules a = None) addrs)"
proof (induction addrs arbitrary: out n)
  case (Cons a addrs)
  have "owners_loop rules mainland addrs (note_owner (Owner rules a) out) (if Owner rules a = None then n + 1 else n) =
      (False, out', n')"
    using Cons.prems by (auto simp: owners_loop_Cons split: if_splits)
  from Cons.IH [OF this] show ?case by simp
qed simp

lemma owners_loop_no_owner:
  "owners_loop rules mainland addrs out n = (hit, out', n') \<Longrightarrow> \<forall>a \<in> set addrs. Owner rules a = None \<Longrightarrow> out' = out"
  by (induction addrs arbitrary: out n) (auto simp: owners_loop_Cons split: if_splits)

lemma hit_classify_cases:
  fixes answer :: hit_answer
  defines "addrs \<equiv> ha_Addrs answer"
  shows "ho_Verdict (hit_classify rules mainland probe flush (answer, err)) =
      (if err \<noteq> None \<or> addrs = [] then HitUnresolved
       else if \<exists>a \<in> set addrs. mainland_addr rules mainland a then HitMainland
       else if \<not> ha_Echoed answer then
         (if fl_global flush then HitNoSteering else if fl_done flush then HitNotDelivered else HitNoEcho)
       else if ha_Scope answer = 0 then HitNoSteering else HitNoNode) \<and>
    (ho_Mismatch (hit_classify rules mainland probe flush (answer, err)) \<longleftrightarrow>
       err = None \<and> addrs \<noteq> [] \<and> mainland \<noteq> None \<and> (\<forall>a \<in> set addrs. \<not> mainland_addr rules mainland a) \<and>
       (\<exists>p. ProviderFor rules (hp_Domain probe) = Some p \<and> pr_ID p \<noteq> []) \<and> (\<forall>a \<in> set addrs. Owner rules a = None))"
proof (cases "err \<noteq> None \<or> addrs = []")
  case True
  then show ?thesis
    by (auto simp: hit_classify_def addrs_def with_verdict_def outcome_start_def set_provider_def Let_def
        split: option.splits)
next
  case False
  define out0 where "out0 = (outcome_start rules probe flush)
    \<lparr>ho_Scope := ha_Scope answer, ho_ECSEchoed := ha_Echoed answer, ho_Addrs := map addr_String addrs\<rparr>"
  obtain hit out n where loop: "owners_loop rules mainland addrs out0 0 = (hit, out, n)"
    by (cases "owners_loop rules mainland addrs out0 0")
  have hit: "hit \<longleftrightarrow> (\<exists>a \<in> set addrs. mainland_addr rules mainland a)"
    using owners_loop_hit [of rules mainland addrs out0 0] by (simp add: loop)
  have out0: "ho_Flushed out0 = fl_done flush" "\<not> ho_Mismatch out0"
    "ho_ProviderID out0 \<noteq> [] \<longleftrightarrow> (\<exists>p. ProviderFor rules (hp_Domain probe) = Some p \<and> pr_ID p \<noteq> [])"
    by (auto simp: out0_def outcome_start_def set_provider_def Let_def split: option.splits)
  note k = owners_loop_keeps [OF loop]
  show ?thesis
  proof (cases hit)
    case True
    then show ?thesis
      using False hit loop out0(2) k unfolding out0_def addrs_def
      by (simp add: hit_classify_def with_verdict_def Let_def)
  next
    case miss: False
    have "n = length (filter (\<lambda>a. Owner rules a = None) addrs)"
      using owners_loop_unowned [of rules mainland addrs out0 0 out n] loop miss by simp
    then have n: "n = length addrs \<longleftrightarrow> (\<forall>a \<in> set addrs. Owner rules a = None)"
      using filter_id_conv [of "\<lambda>a. Owner rules a = None" addrs] length_filter_less [of _ addrs "\<lambda>a. Owner rules a = None"]
      by (metis less_irrefl)
    have id: "ho_ProviderID out \<noteq> [] \<longleftrightarrow> (\<exists>p. ProviderFor rules (hp_Domain probe) = Some p \<and> pr_ID p \<noteq> [])"
      if "\<forall>a \<in> set addrs. Owner rules a = None"
      using owners_loop_no_owner [OF loop that] out0(3) by simp
    show ?thesis
      using False miss hit loop out0(1) k n id unfolding out0_def addrs_def
      by (auto simp: hit_classify_def with_verdict_def Let_def)
  qed
qed

text \<open>The verdict of a probe on every branch: unresolved without an answer; a mainland node when the rule
  set or the mainland list knows any address of the answer; otherwise what the echoed client subnet
  tells, where an answer without an echo counts as unsteered only if an earlier answer was, and as an
  undelivered subnet only after the cache was flushed. A mismatch is reported exactly when the name
  belongs to a provider, no address does, and none is in the mainland.\<close>

theorem hit_classify_verdict:
  "ho_Verdict (hit_classify rules mainland probe flush (answer, err)) =
      (if err \<noteq> None \<or> ha_Addrs answer = [] then HitUnresolved
       else if \<exists>a \<in> set (ha_Addrs answer). mainland_addr rules mainland a then HitMainland
       else if \<not> ha_Echoed answer then
         (if fl_global flush then HitNoSteering else if fl_done flush then HitNotDelivered else HitNoEcho)
       else if ha_Scope answer = 0 then HitNoSteering else HitNoNode) \<and>
    (ho_Mismatch (hit_classify rules mainland probe flush (answer, err)) \<longleftrightarrow>
       err = None \<and> ha_Addrs answer \<noteq> [] \<and> mainland \<noteq> None \<and>
       (\<forall>a \<in> set (ha_Addrs answer). \<not> mainland_addr rules mainland a) \<and>
       (\<exists>p. ProviderFor rules (hp_Domain probe) = Some p \<and> pr_ID p \<noteq> []) \<and>
       (\<forall>a \<in> set (ha_Addrs answer). Owner rules a = None))"
  by (rule hit_classify_cases)

theorem hit_classify_verdict_witness:
  "ho_Verdict (hit_classify None None \<lparr>hp_Domain = ''a'', hp_Label = ''a''\<rparr> (flush_zero\<lparr>fl_done := True\<rparr>)
     (\<lparr>ha_Addrs = [Addr4 1], ha_Scope = 0, ha_Echoed = False, ha_Chain = []\<rparr>, None)) = HitNotDelivered"
  using hit_classify_verdict [of None None "\<lparr>hp_Domain = ''a'', hp_Label = ''a''\<rparr>" "flush_zero\<lparr>fl_done := True\<rparr>"
      "\<lparr>ha_Addrs = [Addr4 1], ha_Scope = 0, ha_Echoed = False, ha_Chain = []\<rparr>" None]
  by (simp add: mainland_addr_def Owner_def flush_zero_def)

section \<open>A run\<close>

lemma parse_subnets_length: "parse_subnets raws = Inr pfxs \<Longrightarrow> length pfxs = length raws"
  by (induction raws arbitrary: pfxs) (auto simp: bind_res_eq_Inr split: option.splits if_splits)

lemma length_probe_subnets [simp]: "length (probe_subnets opt slot probe call state subnets) = length subnets"
  by (induction opt slot probe call state subnets rule: probe_subnets.induct) (simp_all add: Let_def)

lemma with_verdict_keeps [simp]:
  "ho_Domain (with_verdict v out) = ho_Domain out" "ho_Scope (with_verdict v out) = ho_Scope out"
  "ho_ECSEchoed (with_verdict v out) = ho_ECSEchoed out" "ho_Verdict (with_verdict v out) = v"
  by (simp_all add: with_verdict_def)

lemma outcome_start_Domain [simp]: "ho_Domain (outcome_start rules probe flush) = hp_Domain probe"
  by (simp add: outcome_start_def set_provider_def Let_def split: option.split)

lemma hit_classify_fields:
  "ho_Domain (hit_classify rules mainland probe flush (answer, err)) = hp_Domain probe \<and>
   ho_Scope (hit_classify rules mainland probe flush (answer, err)) = ha_Scope answer \<and>
   ho_ECSEchoed (hit_classify rules mainland probe flush (answer, err)) = ha_Echoed answer"
proof (cases "err \<noteq> None \<or> ha_Addrs answer = []")
  case True
  then show ?thesis by (cases err) (simp_all add: hit_classify_def Let_def)
next
  case False
  define out0 where "out0 = (outcome_start rules probe flush)
    \<lparr>ho_Scope := ha_Scope answer, ho_ECSEchoed := ha_Echoed answer, ho_Addrs := map addr_String (ha_Addrs answer)\<rparr>"
  obtain hit out n where loop: "owners_loop rules mainland (ha_Addrs answer) out0 0 = (hit, out, n)"
    by (cases "owners_loop rules mainland (ha_Addrs answer) out0 0")
  have "ho_Domain out0 = hp_Domain probe \<and> ho_Scope out0 = ha_Scope answer \<and> ho_ECSEchoed out0 = ha_Echoed answer"
    by (simp add: out0_def)
  with owners_loop_keeps [OF loop] False loop show ?thesis
    unfolding out0_def by (simp add: hit_classify_def Let_def)
qed

text \<open>The verdicts that blame the delivery of the subnet need a state in which no answer was unsteered.\<close>

lemma blamed_not_global:
  "fl_global flush \<Longrightarrow> ho_Verdict (hit_classify rules mainland probe flush res) \<notin> {HitNotDelivered, HitNoEcho}"
  by (cases res) (simp add: hit_classify_cases)

lemma global_stays:
  assumes "fl_global state" and "out \<in> set (probe_subnets opt slot probe call state subnets)"
  shows "ho_Verdict out \<notin> {HitNotDelivered, HitNoEcho}"
  using assms
proof (induction subnets arbitrary: call state)
  case (Cons subnet subnets)
  let ?out = "hit_classify (hopt_Set opt) (hopt_Mainland opt) probe state (hopt_Resolve opt slot call (hp_Domain probe) subnet)"
  let ?state = "if ho_ECSEchoed ?out \<and> ho_Scope ?out = 0 then state\<lparr>fl_global := True\<rparr> else state"
  have "out = ?out \<or> out \<in> set (probe_subnets opt slot probe (call + 1) ?state subnets)"
    using Cons.prems(2) by (simp add: Let_def)
  moreover have "fl_global ?state" using Cons.prems(1) by simp
  ultimately show ?case
    using blamed_not_global [OF Cons.prems(1)] Cons.IH [of ?state "call + 1"] by blast
qed simp

lemma unsteered_never_blamed:
  assumes "j < k" and "k < length subnets"
    and "ho_ECSEchoed (probe_subnets opt slot probe call state subnets ! j)"
    and "ho_Scope (probe_subnets opt slot probe call state subnets ! j) = 0"
  shows "ho_Verdict (probe_subnets opt slot probe call state subnets ! k) \<notin> {HitNotDelivered, HitNoEcho}"
  using assms
proof (induction subnets arbitrary: call state j k)
  case (Cons subnet subnets)
  let ?out = "hit_classify (hopt_Set opt) (hopt_Mainland opt) probe state (hopt_Resolve opt slot call (hp_Domain probe) subnet)"
  let ?state = "if ho_ECSEchoed ?out \<and> ho_Scope ?out = 0 then state\<lparr>fl_global := True\<rparr> else state"
  let ?rest = "probe_subnets opt slot probe (call + 1) ?state subnets"
  have outs: "probe_subnets opt slot probe call state (subnet # subnets) = ?out # ?rest"
    by (simp add: Let_def)
  obtain k' where k: "k = Suc k'" "k' < length subnets" using Cons.prems(1,2) by (cases k) auto
  have kth: "probe_subnets opt slot probe call state (subnet # subnets) ! k = ?rest ! k'" by (simp only: outs k nth_Cons_Suc)
  show ?case
  proof (cases j)
    case 0
    then have "fl_global ?state" using Cons.prems(3,4) by (simp only: outs nth_Cons_0) simp
    moreover have "?rest ! k' \<in> set ?rest" using k(2) by (intro nth_mem) simp
    ultimately show ?thesis unfolding kth by (rule global_stays)
  next
    case (Suc j')
    have less: "j' < k'" using Cons.prems(1) k(1) Suc by simp
    have "ho_ECSEchoed (?rest ! j')" using Cons.prems(3) unfolding outs Suc nth_Cons_Suc .
    moreover have "ho_Scope (?rest ! j') = 0" using Cons.prems(4) unfolding outs Suc nth_Cons_Suc .
    ultimately show ?thesis unfolding kth by (rule Cons.IH [OF less k(2)])
  qed
qed simp

lemma tally_fold:
  "hr_Mainland (fold tally_one items r) = hr_Mainland r + length (filter (\<lambda>o'. ho_Verdict o' = HitMainland) items)"
  "hr_NoNode (fold tally_one items r) = hr_NoNode r + length (filter (\<lambda>o'. ho_Verdict o' = HitNoNode) items)"
  "hr_NoSteering (fold tally_one items r) = hr_NoSteering r + length (filter (\<lambda>o'. ho_Verdict o' = HitNoSteering) items)"
  "hr_NotDelivered (fold tally_one items r) = hr_NotDelivered r + length (filter (\<lambda>o'. ho_Verdict o' = HitNotDelivered) items)"
  "hr_Undecided (fold tally_one items r) = hr_Undecided r + length (filter (\<lambda>o'. \<not> Decided (ho_Verdict o')) items)"
  "hr_Comparable (fold tally_one items r) = hr_Comparable r + length (filter (\<lambda>o'. Decided (ho_Verdict o')) items)"
  "hr_Probes (fold tally_one items r) = hr_Probes r" "hr_Subnet (fold tally_one items r) = hr_Subnet r"
  by (induction items arbitrary: r) (auto simp: tally_one_def Let_def Decided_def split: hit_verdict.split)

definition probes_of :: "hit_options \<Rightarrow> hit_probe list" where
  "probes_of opt = (if hopt_Probes opt = [] then DefaultProbes else hopt_Probes opt)"

definition run_state :: "hit_options \<Rightarrow> prefix list \<Rightarrow> nat \<Rightarrow> hit_probe \<Rightarrow> flush_state" where
  "run_state opt pfxs slot probe =
     (case hopt_Flush opt of
        None \<Rightarrow> flush_zero
      | Some flush \<Rightarrow> flush_loop (flush slot) (flushTargets (hopt_Resolve opt) slot (hp_Domain probe) (hd pfxs)))"

abbreviation outcome_at :: "hit_options \<Rightarrow> prefix list \<Rightarrow> nat \<Rightarrow> nat \<Rightarrow> hit_outcome" where
  "outcome_at opt pfxs r i \<equiv>
     probe_subnets opt i (probes_of opt ! i) 1 (run_state opt pfxs i (probes_of opt ! i)) pfxs ! r"

lemma probe_subnets_Domain:
  "out \<in> set (probe_subnets opt slot probe call state subnets) \<Longrightarrow> ho_Domain out = hp_Domain probe"
proof (induction subnets arbitrary: call state)
  case (Cons subnet subnets)
  have "ho_Domain (hit_classify (hopt_Set opt) (hopt_Mainland opt) probe state
      (hopt_Resolve opt slot call (hp_Domain probe) subnet)) = hp_Domain probe"
    using hit_classify_fields by (metis prod.collapse)
  with Cons show ?case by (auto simp: Let_def)
qed simp

lemma probe_run_eq: "probe_run opt pfxs (i, probe) = probe_subnets opt i probe 1 (run_state opt pfxs i probe) pfxs"
  by (simp add: probe_run_def run_state_def Let_def)

text \<open>The report of the \<open>r\<close>-th subnet is the tally of the \<open>r\<close>-th outcome of every probe.\<close>

lemma RunAll_report_at:
  assumes "RunAll opt raws = Inr reports"
  obtains pfxs where "parse_subnets raws = Inr pfxs" and "pfxs \<noteq> []" and "length reports = length raws"
    and "\<And>r. r < length reports \<Longrightarrow> reports ! r =
      tallyReport (report_start opt (pfxs ! r) (map (outcome_at opt pfxs r) [0..<length (probes_of opt)]))"
proof -
  obtain pfxs where pfxs: "parse_subnets raws = Inr pfxs" "pfxs \<noteq> []"
    and reports: "reports = map (\<lambda>(r, subnet). tallyReport (report_start opt subnet
      (map (\<lambda>column. column ! r) (map (probe_run opt pfxs) (enumerate 0 (probes_of opt)))))) (enumerate 0 pfxs)"
    using assms by (auto simp: RunAll_def bind_res_eq_Inr probes_of_def Let_def split: if_splits)
  show thesis
  proof (rule that [OF pfxs])
    show len: "length reports = length raws" using parse_subnets_length [OF pfxs(1)] by (simp add: reports)
    fix r assume "r < length reports"
    then have r: "r < length pfxs" by (simp add: reports)
    have "map (\<lambda>column. column ! r) (map (probe_run opt pfxs) (enumerate 0 (probes_of opt))) =
        map (outcome_at opt pfxs r) [0..<length (probes_of opt)]"
      by (rule nth_equalityI) (simp_all add: nth_enumerate_eq probe_run_eq)
    then show "reports ! r = tallyReport (report_start opt (pfxs ! r)
        (map (outcome_at opt pfxs r) [0..<length (probes_of opt)]))"
      using r by (simp add: reports nth_enumerate_eq)
  qed
qed

lemma decided_split:
  "length (filter (\<lambda>o'. Decided (ho_Verdict o')) items) =
     length (filter (\<lambda>o'. ho_Verdict o' = HitMainland) items) + length (filter (\<lambda>o'. ho_Verdict o' = HitNoNode) items) +
     length (filter (\<lambda>o'. ho_Verdict o' = HitNoSteering) items) + length (filter (\<lambda>o'. ho_Verdict o' = HitNotDelivered) items)"
  by (induction items) (auto simp: Decided_def)

text \<open>A run gives one report for each subnet it was asked for, each with every probe in its order; the
  counters of a report count its verdicts, the comparable probes are those with a verdict about the
  answer, and with the undecided ones they are all probes. Once a probe's answer to one subnet says
  that it does not steer by subnet (echo with scope 0), no later subnet's report blames the delivery
  of the subnet for that probe: neither as not delivered nor as without an echo.\<close>

theorem RunAll_reports:
  assumes "RunAll opt raws = Inr reports"
  shows "length reports = length raws \<and>
    (\<forall>r \<in> set reports.
       map ho_Domain (hr_Probes r) = map hp_Domain (probes_of opt) \<and>
       hr_NotDelivered r = length (filter (\<lambda>item. ho_Verdict item = HitNotDelivered) (hr_Probes r)) \<and>
       hr_Comparable r = hr_Mainland r + hr_NoNode r + hr_NoSteering r + hr_NotDelivered r \<and>
       hr_Comparable r + hr_Undecided r = length (probes_of opt)) \<and>
    (\<forall>j k i. j < k \<and> k < length reports \<and> i < length (probes_of opt) \<and>
       ho_ECSEchoed (hr_Probes (reports ! j) ! i) \<and> ho_Scope (hr_Probes (reports ! j) ! i) = 0 \<longrightarrow>
       ho_Verdict (hr_Probes (reports ! k) ! i) \<notin> {HitNotDelivered, HitNoEcho})"
proof -
  obtain pfxs where pfxs: "parse_subnets raws = Inr pfxs" "pfxs \<noteq> []" "length reports = length raws"
    and at: "\<And>r. r < length reports \<Longrightarrow> reports ! r =
      tallyReport (report_start opt (pfxs ! r) (map (outcome_at opt pfxs r) [0..<length (probes_of opt)]))"
    using RunAll_report_at [OF assms] by blast
  have len: "length pfxs = length reports" using parse_subnets_length [OF pfxs(1)] pfxs(3) by simp
  have probes: "hr_Probes (reports ! r) = map (outcome_at opt pfxs r) [0..<length (probes_of opt)]"
    if "r < length reports" for r
    using that by (simp add: at tallyReport_def tally_fold report_start_def)
  have "map ho_Domain (hr_Probes r) = map hp_Domain (probes_of opt) \<and>
      hr_NotDelivered r = length (filter (\<lambda>item. ho_Verdict item = HitNotDelivered) (hr_Probes r)) \<and>
      hr_Comparable r = hr_Mainland r + hr_NoNode r + hr_NoSteering r + hr_NotDelivered r \<and>
      hr_Comparable r + hr_Undecided r = length (probes_of opt)" if "r \<in> set reports" for r
  proof -
    obtain n where n: "n < length reports" "r = reports ! n" using \<open>r \<in> set reports\<close> by (auto simp: in_set_conv_nth)
    have "map ho_Domain (hr_Probes r) = map hp_Domain (probes_of opt)"
      by (rule nth_equalityI) (simp_all add: n probes probe_subnets_Domain [OF nth_mem] len)
    moreover have "length (filter (\<lambda>o'. Decided (ho_Verdict o')) (hr_Probes r)) +
        length (filter (\<lambda>o'. \<not> Decided (ho_Verdict o')) (hr_Probes r)) = length (probes_of opt)"
      by (simp only: sum_length_filter_compl) (simp add: n probes)
    ultimately show ?thesis
      using decided_split [of "hr_Probes r"] n
      by (simp add: at tallyReport_def tally_fold report_start_def)
  qed
  moreover have "ho_Verdict (hr_Probes (reports ! k) ! i) \<notin> {HitNotDelivered, HitNoEcho}"
    if "j < k" "k < length reports" "i < length (probes_of opt)"
      "ho_ECSEchoed (hr_Probes (reports ! j) ! i)" "ho_Scope (hr_Probes (reports ! j) ! i) = 0" for j k i
  proof -
    have "j < length reports" using that by simp
    then show ?thesis
      using that unsteered_never_blamed [of j k pfxs opt i "probes_of opt ! i" 1 "run_state opt pfxs i (probes_of opt ! i)"]
      by (simp add: probes len)
  qed
  ultimately show ?thesis using pfxs(3) by blast
qed

text \<open>One name asked for two client subnets with a flushed cache: the first answer carries scope 0, the second comes
  without an echo and is read in the light of the first.\<close>

definition hit_sample :: hit_options where
  "hit_sample =
     \<lparr>hopt_Resolver = ''r'', hopt_Probes = [\<lparr>hp_Domain = ''a'', hp_Label = ''a''\<rparr>],
      hopt_Set = Some \<lparr>st_generatedAt = 7, st_providers = [\<lparr>pr_ID = ''p'', pr_Name = ''p'', pr_Domains = [], pr_Mainland = [], pr_Offshore = []\<rparr>],
        st_suffix = Map.empty, st_spans = [], st_maxHi = []\<rparr>,
      hopt_Mainland = None, hopt_Now = 9,
      hopt_Resolve = (\<lambda>slot call name subnet.
        (\<lparr>ha_Addrs = [Addr4 1], ha_Scope = 0, ha_Echoed = (call = 1), ha_Chain = []\<rparr>, None)),
      hopt_Flush = Some (\<lambda>slot name. None)\<rparr>"

lemma hit_sample_run:
  "map_sum (\<lambda>_. ()) (map (\<lambda>r. (map ho_Verdict (hr_Probes r), ho_Scope (hr_Probes r ! 0), ho_ECSEchoed (hr_Probes r ! 0))))
     (RunAll hit_sample [BeijingTelecom, BeijingUnicom]) =
   Inr [([HitNoSteering], 0, True), ([HitNoSteering], 0, False)]"
  by code_simp

theorem RunAll_reports_witness:
  "\<exists>a b. RunAll hit_sample [BeijingTelecom, BeijingUnicom] = Inr [a, b] \<and>
     ho_Verdict (hr_Probes b ! 0) \<notin> {HitNotDelivered, HitNoEcho} \<and> hr_Comparable b + hr_Undecided b = 1"
proof -
  obtain a b where run: "RunAll hit_sample [BeijingTelecom, BeijingUnicom] = Inr [a, b]"
    and a: "ho_Scope (hr_Probes a ! 0) = 0" "ho_ECSEchoed (hr_Probes a ! 0)"
    using hit_sample_run by (cases "RunAll hit_sample [BeijingTelecom, BeijingUnicom]") auto
  have probes: "length (probes_of hit_sample) = 1" by (simp add: probes_of_def hit_sample_def)
  note run2 = RunAll_reports [OF run, THEN conjunct2]
  have "hr_Comparable b + hr_Undecided b = 1"
    using run2 [THEN conjunct1, rule_format, of b] probes by simp
  moreover have "ho_Verdict (hr_Probes b ! 0) \<notin> {HitNotDelivered, HitNoEcho}"
    using run2 [THEN conjunct2, rule_format, of 0 1 0] a probes by simp
  ultimately show ?thesis using run by blast
qed

end
