(* ===== verification/CDN_Rules_Facts.thy ===== *)
theory CDN_Rules_Facts
  imports CDN_Rules Access_Facts
begin

text \<open>
  What the CDN rule set guarantees: the address lookup is the longest-prefix match over all the
  prefixes of all the providers, the name lookup the provider of the longest known suffix, a built
  set splits the announced addresses of each operator along the mainland baseline, and a
  synchronisation never replaces the file by an invalid, an older or an unexpectedly small set.
\<close>

unbundle bit_operations_syntax

section \<open>The bounds of a prefix\<close>

lemma length_fold_set_bit: "length (fold set_bit_of is r) = length r"
  by (induction "is" arbitrary: r) (simp_all add: set_bit_of_def)

lemma fold_set_bit:
  "\<lbrakk>j < length r; m < 8\<rbrakk> \<Longrightarrow>
   bit (fold set_bit_of is r ! j) m \<longleftrightarrow> bit (r ! j) m \<or> (\<exists>i \<in> set is. i div 8 = j \<and> 7 - i mod 8 = m)"
proof (induction "is" arbitrary: r)
  case (Cons i "is")
  have "bit (set_bit_of i r ! j) m \<longleftrightarrow> bit (r ! j) m \<or> i div 8 = j \<and> 7 - i mod 8 = m"
    using Cons.prems by (cases "i div 8 = j") (auto simp: set_bit_of_def bit_simps)
  with Cons show ?case by (auto simp: set_bit_of_def)
qed simp

lemma from_octets_set_low:
  fixes w :: "'a::len word"
  assumes L: "LENGTH('a) = 8 * L" and b: "b \<le> 8 * L"
  shows "from_octets (fold set_bit_of [b..<length (octets L w) * 8] (octets L w)) = w OR mask (8 * L - b)"
proof (rule bit_eqI)
  fix n
  assume "possible_bit TYPE('a word) n"
  then have n: "n < 8 * L" using L by (simp add: possible_bit_word)
  let ?j = "L - Suc (n div 8)"
  have j: "?j < L" using n by auto
  have k: "8 * ?j + (7 - n mod 8) = 8 * L - 1 - n"
  proof -
    have "n = 8 * (n div 8) + n mod 8" "n mod 8 < 8" by simp_all
    with n show ?thesis by linarith
  qed
  have len: "length (octets L w) = L" by (simp add: octets_def)
  have "(\<exists>i \<in> set [b..<L * 8]. i div 8 = ?j \<and> 7 - i mod 8 = n mod 8) \<longleftrightarrow> n < 8 * L - b"
  proof
    assume "\<exists>i \<in> set [b..<L * 8]. i div 8 = ?j \<and> 7 - i mod 8 = n mod 8"
    then obtain i where i: "b \<le> i" "i div 8 = ?j" "7 - i mod 8 = n mod 8" by auto
    then have "i = 8 * ?j + (7 - n mod 8)"
      using div_mult_mod_eq [of i 8] mod_less_divisor [of 8 i] by linarith
    then show "n < 8 * L - b" using i(1) n k by linarith
  next
    assume "n < 8 * L - b"
    then have "8 * ?j + (7 - n mod 8) \<in> set [b..<L * 8]" unfolding k by auto
    moreover have "(8 * ?j + r) div 8 = ?j" "7 - (8 * ?j + r) mod 8 = 7 - r" if "r < 8" for r
      using that by simp_all
    moreover have "7 - n mod 8 < 8" "7 - (7 - n mod 8) = n mod 8" using mod_less_divisor [of 8 n] by linarith+
    ultimately show "\<exists>i \<in> set [b..<L * 8]. i div 8 = ?j \<and> 7 - i mod 8 = n mod 8" by metis
  qed
  moreover have "bit (octets L w ! ?j) (n mod 8) \<longleftrightarrow> bit w n"
    using n j by (auto simp: octets_def bit_simps)
  ultimately show "bit (from_octets (fold set_bit_of [b..<length (octets L w) * 8] (octets L w)) :: 'a word) n \<longleftrightarrow>
      bit (w OR mask (8 * L - b)) n"
    using n L by (simp add: bit_from_octets length_fold_set_bit len fold_set_bit bit_simps)
qed

lemma block_or: "(w AND NOT (mask n)) OR mask n = (w AND NOT (mask n)) + (mask n :: 'a::len word)"
  by (rule disjunctive_add_eq_or [symmetric]) (simp add: bit_eq_iff bit_simps)

lemma bounds_v4:
  assumes "b \<le> 32"
  shows "bounds (Prefix (Addr4 w) (int b)) =
    Some (Addr4 (clear_low (32 - b) w), Addr4 (clear_low (32 - b) w + mask (32 - b)))"
proof -
  let ?lo = "clear_low (32 - b) w"
  have "from_octets (fold set_bit_of [b..<length (octets 4 ?lo) * 8] (octets 4 ?lo)) = ?lo OR mask (32 - b)"
    using from_octets_set_low [of 4 b ?lo] assms by simp
  then show ?thesis
    using assms by (simp add: bounds_def pfx_IsValid_def AddrFromSlice_def length_fold_set_bit octets_def
        Let_def clear_low_def block_or)
qed

lemma bounds_v6:
  assumes "b \<le> 128"
  shows "bounds (Prefix (Addr6 w z) (int b)) =
    Some (Addr6 (clear_low (128 - b) w) [], Addr6 (clear_low (128 - b) w + mask (128 - b)) [])"
proof -
  let ?lo = "clear_low (128 - b) w"
  have "from_octets (fold set_bit_of [b..<length (octets 16 ?lo) * 8] (octets 16 ?lo)) = ?lo OR mask (128 - b)"
    using from_octets_set_low [of 16 b ?lo] assms by simp
  then show ?thesis
    using assms by (simp add: bounds_def pfx_IsValid_def AddrFromSlice_def length_fold_set_bit octets_def
        Let_def clear_low_def block_or)
qed

lemma pfx_bits_Masked: "wf_prefix p \<Longrightarrow> pfx_IsValid p \<Longrightarrow> pfx_IsValid (Masked p) \<and> pfx_bits (Masked p) = pfx_bits p"
  by (erule valid_cases, assumption) (simp_all add: pfx_IsValid_def)

lemma Masked_idem: "Masked (Masked p) = Masked p"
  by (cases p rule: Masked.cases) (simp_all add: prefix_zero_def clear_low_def)

lemma bounds_Masked: "wf_prefix p \<Longrightarrow> pfx_IsValid p \<Longrightarrow> bounds (Masked p) = bounds p"
  using pfx_bits_Masked [of p] by (simp add: bounds_def Masked_idem)

lemma bounds_contains:
  assumes "wf_prefix p" and "pfx_IsValid p"
  obtains lo hi where "bounds p = Some (lo, hi)" and "lo \<le> hi"
    and "\<And>a. Zone a = [] \<Longrightarrow> lo \<le> a \<and> a \<le> hi \<longleftrightarrow> pfx_Contains p a"
  using assms
proof (cases rule: valid_cases)
  case (v4 w b)
  let ?lo = "clear_low (32 - b) w" and ?hi = "clear_low (32 - b) w + mask (32 - b)"
  have c: "?lo \<le> x \<and> x \<le> ?hi \<longleftrightarrow> drop_bit (32 - b) (x XOR w) = 0" for x
    unfolding clear_low_def drop_xor_iff using block_iff [of "32 - b" x w] by simp
  have "Addr4 ?lo \<le> a \<and> a \<le> Addr4 ?hi \<longleftrightarrow> pfx_Contains p a" if "Zone a = []" for a
    using c v4 that by (cases a) (auto simp: less_eq_addr_def order_le_less)
  moreover have "Addr4 ?lo \<le> Addr4 ?hi"
    using c [of w] by (auto simp: less_eq_addr_def order_le_less)
  ultimately show thesis using that bounds_v4 v4 by blast
next
  case (v6 w b)
  let ?lo = "clear_low (128 - b) w" and ?hi = "clear_low (128 - b) w + mask (128 - b)"
  have c: "?lo \<le> x \<and> x \<le> ?hi \<longleftrightarrow> clear_low (128 - b) (x XOR w) = 0" for x
    unfolding clear_low_def xor_clear_iff using block_iff [of "128 - b" x w] by simp
  have "Addr6 ?lo [] \<le> a \<and> a \<le> Addr6 ?hi [] \<longleftrightarrow> pfx_Contains p a" if "Zone a = []" for a
    using c v6 that by (cases a) (auto simp: less_eq_addr_def order_le_less)
  moreover have "Addr6 ?lo [] \<le> Addr6 ?hi []"
    using c [of w] by (auto simp: less_eq_addr_def order_le_less clear_low_def)
  ultimately show thesis using that bounds_v6 v6 by blast
qed

lemma bounds_inside:
  "\<lbrakk>wf_prefix p; pfx_IsValid p; bounds p = Some (lo, hi); Zone a = []\<rbrakk> \<Longrightarrow> lo \<le> a \<and> a \<le> hi \<longleftrightarrow> pfx_Contains p a"
  by (erule (1) bounds_contains) simp

section \<open>The address lookup\<close>

definition inside :: "addr \<Rightarrow> rule_span \<Rightarrow> bool" where
  "inside a sp \<longleftrightarrow> rs_lo sp \<le> a \<and> a \<le> rs_hi sp"

abbreviation span_bits :: "rule_span \<Rightarrow> int" where
  "span_bits sp \<equiv> pfx_bits (rs_prefix sp)"

definition caps :: "addr list \<Rightarrow> rule_span list \<Rightarrow> bool" where
  "caps maxHi spans \<longleftrightarrow> (\<forall>j < length spans. \<forall>k \<le> j. rs_hi (spans ! k) \<le> maxHi ! j)"

lemma running_max_ge:
  "j < length sps \<Longrightarrow> m \<le> running_max m sps ! j \<and> (\<forall>k \<le> j. rs_hi (sps ! k) \<le> running_max m sps ! j)"
proof (induction sps arbitrary: m j)
  case (Cons sp sps)
  let ?m = "if rs_hi sp > m then rs_hi sp else m"
  show ?case
  proof (cases j)
    case (Suc j')
    then have IH: "?m \<le> running_max ?m sps ! j'" "\<forall>k \<le> j'. rs_hi (sps ! k) \<le> running_max ?m sps ! j'"
      using Cons.IH [of j' ?m] Cons.prems by auto
    have "rs_hi ((sp # sps) ! k) \<le> running_max ?m sps ! j'" if "k \<le> j" for k
      using that IH Suc by (cases k) (auto split: if_splits)
    moreover have "m \<le> running_max ?m sps ! j'" using IH(1) by (auto split: if_splits)
    ultimately show ?thesis by (simp add: Suc Let_def)
  qed (auto simp: Let_def)
qed simp

lemma max_his_caps: "caps (max_his spans) spans"
proof (cases spans)
  case (Cons sp sps)
  have "rs_hi (spans ! k) \<le> (rs_hi sp # running_max (rs_hi sp) sps) ! j"
    if "j < length spans" "k \<le> j" for j k
    using that running_max_ge [of "j - 1" sps "rs_hi sp"] Cons by (cases j; cases k) auto
  with Cons show ?thesis by (simp add: caps_def max_his_def)
qed (simp add: caps_def)

text \<open>The loop picks a candidate with the longest prefix, among the spans below \<open>n\<close> that hold the address and the best one so far.\<close>

definition candidates :: "rule_span list \<Rightarrow> addr \<Rightarrow> nat \<Rightarrow> nat option \<Rightarrow> nat set" where
  "candidates spans a n best = {j. j < n \<and> inside a (spans ! j)} \<union> set_option best"

definition picks :: "rule_span list \<Rightarrow> nat set \<Rightarrow> nat option \<Rightarrow> bool" where
  "picks spans C r \<longleftrightarrow>
     (case r of None \<Rightarrow> C = {} | Some b \<Rightarrow> b \<in> C \<and> (\<forall>c \<in> C. span_bits (spans ! c) \<le> span_bits (spans ! b)))"

lemma picks_mono:
  assumes "picks spans C r" and "C \<subseteq> D" and "\<And>d. d \<in> D \<Longrightarrow> \<exists>c \<in> C. span_bits (spans ! d) \<le> span_bits (spans ! c)"
  shows "picks spans D r"
proof (cases r)
  case None
  with assms show ?thesis by (fastforce simp: picks_def)
next
  case (Some b)
  with assms(1) have b: "b \<in> C" "\<forall>c \<in> C. span_bits (spans ! c) \<le> span_bits (spans ! b)" by (auto simp: picks_def)
  then have "span_bits (spans ! d) \<le> span_bits (spans ! b)" if "d \<in> D" for d
    using assms(3) [OF that] by force
  with b Some assms(2) show ?thesis by (auto simp: picks_def)
qed

lemma owner_loop_picks:
  assumes "caps maxHi spans" and "n \<le> length spans"
  shows "picks spans (candidates spans a n best) (owner_loop spans maxHi a n best)"
  using assms(2)
proof (induction n arbitrary: best)
  case 0
  show ?case by (cases best) (simp_all add: picks_def candidates_def)
next
  case (Suc i)
  let ?in = "inside a (spans ! i)"
  show ?case
  proof (cases "maxHi ! i < a")
    case True
    have "\<not> inside a (spans ! j)" if "j < Suc i" for j
    proof -
      have "rs_hi (spans ! j) \<le> maxHi ! i" using assms(1) that Suc.prems by (simp add: caps_def)
      with True show ?thesis unfolding inside_def by (meson leD le_less_trans)
    qed
    then have "candidates spans a (Suc i) best = set_option best" by (auto simp: candidates_def)
    with True show ?thesis by (cases best) (simp_all add: picks_def)
  next
    case False
    let ?best = "if ?in then
        (case best of None \<Rightarrow> Some i | Some b \<Rightarrow> if span_bits (spans ! i) > span_bits (spans ! b) then Some i else best)
      else best"
    have step: "owner_loop spans maxHi a (Suc i) best = owner_loop spans maxHi a i ?best"
      using False by (simp add: Let_def inside_def)
    have sub: "candidates spans a i ?best \<subseteq> candidates spans a (Suc i) best"
      by (cases best) (auto simp: candidates_def less_Suc_eq)
    have dom: "\<exists>c \<in> candidates spans a i ?best. span_bits (spans ! d) \<le> span_bits (spans ! c)"
      if "d \<in> candidates spans a (Suc i) best" for d
    proof (cases "d < i \<and> inside a (spans ! d)")
      case True
      then show ?thesis by (auto simp: candidates_def)
    next
      case False
      with that have "d = i \<and> ?in \<or> best = Some d" by (auto simp: candidates_def less_Suc_eq)
      then have "\<exists>c. ?best = Some c \<and> span_bits (spans ! d) \<le> span_bits (spans ! c)"
        by (cases best) auto
      then show ?thesis by (auto simp: candidates_def)
    qed
    have "picks spans (candidates spans a i ?best) (owner_loop spans maxHi a i ?best)"
      using Suc.IH Suc.prems by simp
    from picks_mono [OF this sub dom] show ?thesis unfolding step .
  qed
qed

definition announces :: "provider \<Rightarrow> prefix \<Rightarrow> bool \<Rightarrow> bool" where
  "announces q p mainland \<longleftrightarrow> p \<in> set (if mainland then pr_Mainland q else pr_Offshore q) \<and> pfx_IsValid p"

definition wf_provider :: "provider \<Rightarrow> bool" where
  "wf_provider q \<longleftrightarrow> list_all wf_prefix (pr_Mainland q) \<and> list_all wf_prefix (pr_Offshore q)"

lemma wf_announced: "wf_provider q \<Longrightarrow> announces q p mainland \<Longrightarrow> wf_prefix p \<and> pfx_IsValid p"
  by (auto simp: wf_provider_def announces_def list_all_iff split: if_splits)

lemma collect_span_iff:
  assumes "wf_prefix p"
  shows "sp \<in> set (collect_span i m p) \<longleftrightarrow> pfx_IsValid p \<and> bounds p = Some (rs_lo sp, rs_hi sp) \<and>
    rs_prefix sp = Masked p \<and> rs_provider sp = i \<and> rs_mainland sp = m"
  using assms by (cases sp) (auto simp: collect_span_def bounds_Masked split: option.splits)

lemma collect_iff:
  assumes "list_all wf_prefix ps"
  shows "sp \<in> set (collect i ps m) \<longleftrightarrow> (\<exists>p \<in> set ps. pfx_IsValid p \<and> bounds p = Some (rs_lo sp, rs_hi sp) \<and>
    rs_prefix sp = Masked p) \<and> rs_provider sp = i \<and> rs_mainland sp = m"
  using assms by (auto simp: collect_def list_all_iff collect_span_iff)

lemma New_spans_iff:
  assumes "list_all wf_provider ps"
  shows "sp \<in> set (st_spans (rules_New g ps)) \<longleftrightarrow>
    (\<exists>p. announces (st_providers (rules_New g ps) ! rs_provider sp) p (rs_mainland sp) \<and>
       bounds p = Some (rs_lo sp, rs_hi sp) \<and> rs_prefix sp = Masked p) \<and> rs_provider sp < length ps"
proof -
  let ?ps = "sort_key pr_ID ps"
  have wf: "list_all wf_prefix (pr_Mainland (?ps ! i)) \<and> list_all wf_prefix (pr_Offshore (?ps ! i))"
    if "i < length ps" for i
  proof -
    have "?ps ! i \<in> set ps" using that by (metis length_sort nth_mem set_sort)
    then show ?thesis using assms by (simp add: list_all_iff wf_provider_def)
  qed
  have "sp \<in> set (st_spans (rules_New g ps)) \<longleftrightarrow>
    (\<exists>i < length ps. sp \<in> set (collect i (pr_Mainland (?ps ! i)) True) \<or> sp \<in> set (collect i (pr_Offshore (?ps ! i)) False))"
    by (force simp: rules_New_def Let_def in_set_enumerate_eq)
  also have "\<dots> \<longleftrightarrow> (\<exists>i < length ps. (\<exists>p. announces (?ps ! i) p (rs_mainland sp) \<and>
      bounds p = Some (rs_lo sp, rs_hi sp) \<and> rs_prefix sp = Masked p) \<and> rs_provider sp = i)"
    by (rule ex_cong1, rule conj_cong [OF refl])
      (auto simp: collect_iff wf announces_def split: if_splits)
  finally show ?thesis by (auto simp: rules_New_def Let_def)
qed

lemma New_sorted_caps:
  "sorted (map rs_lo (st_spans (rules_New g ps)))" "caps (st_maxHi (rules_New g ps)) (st_spans (rules_New g ps))"
proof -
  have "sorted (map (\<lambda>sp. (rs_lo sp, rs_hi sp)) (st_spans (rules_New g ps)))"
    by (simp add: rules_New_def Let_def)
  then have "sorted (map fst (map (\<lambda>sp. (rs_lo sp, rs_hi sp)) (st_spans (rules_New g ps))))"
    by (auto simp: sorted_iff_nth_mono less_eq_prod_def dest: less_imp_le)
  then show "sorted (map rs_lo (st_spans (rules_New g ps)))" by (simp add: comp_def)
qed (simp add: rules_New_def Let_def max_his_caps)

text \<open>The binary search starts above every span that may hold the address.\<close>

lemma search_above:
  assumes "sorted (map rs_lo spans)" and "j < length spans" and "inside a (spans ! j)"
  shows "j < sort_Search (length spans) (\<lambda>i. rs_lo (spans ! i) > a)"
proof (rule ccontr)
  assume "\<not> j < sort_Search (length spans) (\<lambda>i. rs_lo (spans ! i) > a)"
  moreover have "upward (length spans) (\<lambda>i. rs_lo (spans ! i) > a)"
    unfolding upward_def using assms(1) by (auto simp: sorted_iff_nth_mono intro: less_le_trans)
  ultimately have "rs_lo (spans ! j) > a" using assms(2) sort_Search_least(2) by (metis linorder_not_less)
  with assms(3) show False by (simp add: inside_def leD)
qed

lemma Owner_picks:
  assumes "IsValid a" and spans: "spans = st_spans (rules_New g ps)"
  obtains r where "picks spans {j. j < length spans \<and> inside (Unmap a) (spans ! j)} r"
    and "Owner (Some (rules_New g ps)) a = map_option (\<lambda>b. (st_providers (rules_New g ps) ! rs_provider (spans ! b),
      rs_prefix (spans ! b), rs_mainland (spans ! b))) r"
proof -
  let ?s = "rules_New g ps" and ?a = "Unmap a"
  let ?n = "sort_Search (length spans) (\<lambda>i. rs_lo (spans ! i) > ?a)"
  let ?r = "owner_loop spans (st_maxHi ?s) ?a ?n None"
  have "picks spans (candidates spans ?a ?n None) ?r"
    using owner_loop_picks New_sorted_caps(2) sort_Search_le unfolding spans by blast
  moreover have "candidates spans ?a ?n None = {j. j < length spans \<and> inside ?a (spans ! j)}"
    using search_above [OF New_sorted_caps(1)] sort_Search_le [of "length spans"] unfolding spans
    by (fastforce simp: candidates_def intro: less_le_trans)
  ultimately show thesis
    using that [of ?r] assms(1) by (simp add: Owner_def spans Let_def option.case_eq_if map_option_case)
qed

lemma inside_span:
  assumes "list_all wf_provider ps" and "sp \<in> set (st_spans (rules_New g ps))" and "Zone a = []"
  obtains q p where "q \<in> set ps" and "q = st_providers (rules_New g ps) ! rs_provider sp"
    and "announces q p (rs_mainland sp)" and "rs_prefix sp = Masked p" and "span_bits sp = pfx_bits p"
    and "inside a sp \<longleftrightarrow> pfx_Contains p a"
proof -
  let ?q = "st_providers (rules_New g ps) ! rs_provider sp"
  obtain p where p: "announces ?q p (rs_mainland sp)" "bounds p = Some (rs_lo sp, rs_hi sp)" "rs_prefix sp = Masked p"
    and i: "rs_provider sp < length ps"
    using New_spans_iff [OF assms(1)] assms(2) by blast
  have "?q \<in> set (st_providers (rules_New g ps))" using i by (intro nth_mem) (simp add: rules_New_def Let_def)
  then have q: "?q \<in> set ps" by (simp add: rules_New_def Let_def)
  then have wf: "wf_prefix p" "pfx_IsValid p" using assms(1) p(1) wf_announced by (auto simp: list_all_iff)
  then have "inside a sp \<longleftrightarrow> pfx_Contains p a"
    using p(2) assms(3) bounds_inside by (simp add: inside_def)
  then show thesis using that [OF q refl p(1) p(3)] pfx_bits_Masked [OF wf] p(3) by simp
qed

lemma span_of_announced:
  assumes "list_all wf_provider ps" and "q \<in> set ps" and "announces q p m" and "Zone a = []"
  obtains sp where "sp \<in> set (st_spans (rules_New g ps))" and "inside a sp \<longleftrightarrow> pfx_Contains p a"
    and "span_bits sp = pfx_bits p"
proof -
  have wf: "wf_prefix p" "pfx_IsValid p" using assms(1-3) wf_announced by (auto simp: list_all_iff)
  obtain lo hi where b: "bounds p = Some (lo, hi)" "lo \<le> a \<and> a \<le> hi \<longleftrightarrow> pfx_Contains p a"
    using bounds_contains [OF wf] assms(4) by metis
  obtain i where i: "i < length ps" "sort_key pr_ID ps ! i = q"
    using assms(2) by (metis in_set_conv_nth length_sort set_sort)
  let ?sp = "\<lparr>rs_lo = lo, rs_hi = hi, rs_prefix = Masked p, rs_provider = i, rs_mainland = m\<rparr>"
  have "?sp \<in> set (st_spans (rules_New g ps))"
    unfolding New_spans_iff [OF assms(1)] using i b assms(3) by (auto simp: rules_New_def Let_def)
  then show thesis using that [of ?sp] b(2) pfx_bits_Masked [OF wf] by (simp add: inside_def)
qed

lemma Masked_contains:
  assumes "wf_prefix p" and "pfx_IsValid p" and "Zone a = []"
  shows "pfx_Contains (Masked p) a \<longleftrightarrow> pfx_Contains p a"
proof -
  have eq: "bounds (Masked p) = bounds p" and v: "pfx_IsValid (Masked p)"
    using assms by (simp_all add: bounds_Masked pfx_bits_Masked)
  obtain lo hi where "bounds p = Some (lo, hi)" "lo \<le> a \<and> a \<le> hi \<longleftrightarrow> pfx_Contains p a"
    using bounds_contains [OF assms(1,2)] assms(3) by metis
  moreover obtain lo' hi' where "bounds (Masked p) = Some (lo', hi')" "lo' \<le> a \<and> a \<le> hi' \<longleftrightarrow> pfx_Contains (Masked p) a"
    using bounds_contains [OF wf_Masked v] assms(3) by metis
  ultimately show ?thesis using eq by simp
qed

text \<open>C13: The owner of an address is the longest-prefix match over all the prefixes, mainland and
  offshore, of all the providers of the set: the lookup names a provider of the set, one of its
  prefixes that contains the address and whether it is a mainland one, no provider has a longer
  prefix that contains the address, and nothing is found only when no prefix contains it. The early
  end of the backward scan at the running maximum misses none.\<close>

theorem Owner_longest_match:
  assumes "list_all wf_provider ps" and "IsValid a" and "Zone (Unmap a) = []"
  shows "case Owner (Some (rules_New g ps)) a of
      None \<Rightarrow> \<forall>q p m. q \<in> set ps \<longrightarrow> announces q p m \<longrightarrow> \<not> pfx_Contains p (Unmap a)
    | Some (q, pfx, m) \<Rightarrow> q \<in> set ps \<and> (\<exists>p. announces q p m \<and> pfx = Masked p) \<and> pfx_Contains pfx (Unmap a) \<and>
        (\<forall>q' p' m'. q' \<in> set ps \<longrightarrow> announces q' p' m' \<longrightarrow> pfx_Contains p' (Unmap a) \<longrightarrow> pfx_bits p' \<le> pfx_bits pfx)"
proof -
  define spans where "spans = st_spans (rules_New g ps)"
  obtain r where r: "picks spans {j. j < length spans \<and> inside (Unmap a) (spans ! j)} r"
    and own: "Owner (Some (rules_New g ps)) a = map_option (\<lambda>b. (st_providers (rules_New g ps) ! rs_provider (spans ! b),
      rs_prefix (spans ! b), rs_mainland (spans ! b))) r"
    using Owner_picks [OF assms(2) spans_def] by blast
  have ann: "\<exists>j < length spans. inside (Unmap a) (spans ! j) \<and> span_bits (spans ! j) = pfx_bits p"
    if "q \<in> set ps" "announces q p m" "pfx_Contains p (Unmap a)" for q p m
    using span_of_announced [OF assms(1) that(1,2) assms(3)] that(3) unfolding spans_def by (metis in_set_conv_nth)
  show ?thesis
  proof (cases r)
    case None
    then have "\<forall>j < length spans. \<not> inside (Unmap a) (spans ! j)" using r by (auto simp: picks_def)
    then have "\<not> pfx_Contains p (Unmap a)" if "q \<in> set ps" "announces q p m" for q p m using ann [OF that] by blast
    with own None show ?thesis by auto
  next
    case (Some b)
    then have b: "b < length spans" "inside (Unmap a) (spans ! b)"
      "\<And>j. j < length spans \<Longrightarrow> inside (Unmap a) (spans ! j) \<Longrightarrow> span_bits (spans ! j) \<le> span_bits (spans ! b)"
      using r by (auto simp: picks_def)
    obtain q p where qp: "q \<in> set ps" "q = st_providers (rules_New g ps) ! rs_provider (spans ! b)"
      "announces q p (rs_mainland (spans ! b))" "rs_prefix (spans ! b) = Masked p" "pfx_Contains p (Unmap a)"
      using inside_span [OF assms(1) _ assms(3), of "spans ! b"] b(1,2) unfolding spans_def by (metis nth_mem)
    moreover have "pfx_Contains (Masked p) (Unmap a)"
      using Masked_contains wf_announced qp assms(1,3) by (metis list_all_iff)
    moreover have "pfx_bits p' \<le> span_bits (spans ! b)"
      if "q' \<in> set ps" "announces q' p' m'" "pfx_Contains p' (Unmap a)" for q' p' m'
      using ann [OF that] b(3) by metis
    ultimately show ?thesis using own Some by auto
  qed
qed

abbreviation sample_providers :: "provider list" where
  "sample_providers \<equiv>
     [\<lparr>pr_ID = ''a'', pr_Name = ''A'', pr_Domains = [], pr_Mainland = [Prefix (Addr4 0x0a000000) 8], pr_Offshore = []\<rparr>,
      \<lparr>pr_ID = ''b'', pr_Name = ''B'', pr_Domains = [], pr_Mainland = [], pr_Offshore = [Prefix (Addr4 0x0a010000) 16]\<rparr>]"

theorem Owner_longest_match_witness:
  "Owner (Some (rules_New 0 sample_providers)) (Addr4 0x0a010203) \<noteq> None"
proof
  let ?x = "Addr4 0x0a010203" and ?p = "Prefix (Addr4 0x0a000000) 8"
  assume none: "Owner (Some (rules_New 0 sample_providers)) ?x = None"
  have "list_all wf_provider sample_providers" "IsValid ?x" "Zone (Unmap ?x) = []"
    by (simp_all add: wf_provider_def)
  from Owner_longest_match [OF this, of 0]
  have "hd sample_providers \<in> set sample_providers \<longrightarrow> announces (hd sample_providers) ?p True \<longrightarrow> \<not> pfx_Contains ?p (Unmap ?x)"
    unfolding none option.case by blast
  then show False by (simp add: announces_def pfx_IsValid_def)
qed

section \<open>Building the providers\<close>

text \<open>The addresses that the sources of an operator announce: those of every source that could be fetched.\<close>

definition source_addrs :: "(string \<Rightarrow> string option) \<Rightarrow> (string \<times> (string \<Rightarrow> prefix list option)) list \<Rightarrow> addr set" where
  "source_addrs fetch fs =
     (\<Union>(url, decode) \<in> set fs. case fetchPrefixes fetch url decode of None \<Rightarrow> {} | Some got \<Rightarrow> pfxs_addrs got)"

lemma check_prefixes_wf: "check_prefixes ps = Some out \<Longrightarrow> list_all wf_prefix out"
  by (induction ps arbitrary: out) (auto split: if_splits)

lemma fetchPrefixes_wf: "fetchPrefixes fetch url decode = Some got \<Longrightarrow> list_all wf_prefix got"
  by (auto simp: fetchPrefixes_def split: option.splits if_splits Option.bind_splits dest: check_prefixes_wf)

lemma gather_addrs:
  "list_all wf_prefix (fst (gather fetch fs)) \<and> pfxs_addrs (fst (gather fetch fs)) = source_addrs fetch fs"
proof (induction fs)
  case (Cons f fs)
  have app: "pfxs_addrs (ps @ qs) = pfxs_addrs ps \<union> pfxs_addrs qs" for ps qs by (auto simp: pfxs_addrs_def)
  have "source_addrs fetch (f # fs) =
      (case fetchPrefixes fetch (fst f) (snd f) of None \<Rightarrow> {} | Some got \<Rightarrow> pfxs_addrs got) \<union> source_addrs fetch fs"
    by (auto simp: source_addrs_def split_beta)
  with Cons show ?case
    by (cases f) (auto simp: app split_beta fetchPrefixes_wf split: option.splits)
qed (simp add: source_addrs_def pfxs_addrs_def)

lemma gather_warnings:
  "snd (gather fetch fs) = map fst (filter (\<lambda>f. fetchPrefixes fetch (fst f) (snd f) = None) fs)"
  by (induction fs) (auto simp: split_beta split: option.splits)

lemma build_provider_split:
  assumes "list_all wf_prefix mainland" and "list_all wf_prefix raw"
  shows "pfxs_addrs (pr_Mainland (build_provider mainland q raw)) = pfxs_addrs raw \<inter> pfxs_addrs mainland"
    and "pfxs_addrs (pr_Offshore (build_provider mainland q raw)) = pfxs_addrs raw - pfxs_addrs mainland"
    and "pr_ID (build_provider mainland q raw) = op_ID q"
  using assms CollapsePrefixes_addrs [OF assms(2)]
  by (simp_all add: build_provider_def Let_def cidr_Intersect_addrs cidr_Subtract_addrs)

lemma build_fold:
  "rp_Providers (fold (build_step fetch js ep ml) ops rep) =
     rp_Providers rep @ map (\<lambda>q. build_provider ml q (fst (gather fetch (operator_sources js ep q)))) ops"
  "rp_Warnings (fold (build_step fetch js ep ml) ops rep) =
     rp_Warnings rep @ concat (map (\<lambda>q. map (\<lambda>url. (op_ID q, url)) (snd (gather fetch (operator_sources js ep q)))) ops)"
  "rp_Prefixes (fold (build_step fetch js ep ml) ops rep) =
     rp_Prefixes rep + sum_list (map (\<lambda>q. pr_PrefixCount (build_provider ml q (fst (gather fetch (operator_sources js ep q))))) ops)"
  by (induction ops arbitrary: rep) (simp_all add: build_step_def Let_def split_beta)

definition ASN_endpoint :: "string \<Rightarrow> string" where
  "ASN_endpoint ep = (if ep = [] then ''https://stat.ripe.net/data/announced-prefixes/data.json?resource=AS'' else ep)"

text \<open>Building the rule set gives one provider for each known CDN operator, and splits what the
  operator announces along the mainland baseline: its mainland prefixes cover exactly the announced
  addresses of the baseline, its offshore prefixes exactly the others. A source that fails adds
  nothing and leaves one warning, and a set with fewer prefixes than the minimum is refused.\<close>

theorem Build_splits_by_baseline:
  assumes "list_all wf_prefix mainland" and "mainland \<noteq> []"
    and "rules_Build fetch js ep mainland minPrefixes = (rep, err)"
    and sources: "sources = (\<lambda>q. operator_sources js (ASN_endpoint ep) q)"
  shows "list_all2 (\<lambda>p q. pr_ID p = op_ID q \<and>
        pfxs_addrs (pr_Mainland p) = source_addrs fetch (sources q) \<inter> pfxs_addrs mainland \<and>
        pfxs_addrs (pr_Offshore p) = source_addrs fetch (sources q) - pfxs_addrs mainland)
      (rp_Providers rep) Operators \<and>
    rp_Warnings rep = concat (map (\<lambda>q. map (\<lambda>f. (op_ID q, fst f))
      (filter (\<lambda>f. fetchPrefixes fetch (fst f) (snd f) = None) (sources q))) Operators) \<and>
    rp_Prefixes rep = sum_list (map pr_PrefixCount (rp_Providers rep)) \<and>
    (err = None \<longleftrightarrow> minPrefixes \<le> 0 \<or> minPrefixes \<le> int (rp_Prefixes rep))"
proof -
  have ml: "list_all wf_prefix (CollapsePrefixes mainland)" "pfxs_addrs (CollapsePrefixes mainland) = pfxs_addrs mainland"
    using CollapsePrefixes_addrs [OF assms(1)] by auto
  have rep: "rp_Providers rep = map (\<lambda>q. build_provider (CollapsePrefixes mainland) q (fst (gather fetch (sources q)))) Operators"
    "rp_Warnings rep = concat (map (\<lambda>q. map (\<lambda>url. (op_ID q, url)) (snd (gather fetch (sources q)))) Operators)"
    "rp_Prefixes rep = sum_list (map pr_PrefixCount (rp_Providers rep))"
    "err = None \<longleftrightarrow> minPrefixes \<le> 0 \<or> minPrefixes \<le> int (rp_Prefixes rep)"
    using assms(2,3) by (auto simp: rules_Build_def Let_def build_fold report_zero_def sources ASN_endpoint_def comp_def)
  have "list_all2 (\<lambda>p q. pr_ID p = op_ID q \<and>
        pfxs_addrs (pr_Mainland p) = source_addrs fetch (sources q) \<inter> pfxs_addrs mainland \<and>
        pfxs_addrs (pr_Offshore p) = source_addrs fetch (sources q) - pfxs_addrs mainland)
      (rp_Providers rep) Operators"
    unfolding rep(1) list_all2_map1 using gather_addrs [of fetch]
    by (intro list_all2_refl) (simp add: build_provider_split ml)
  moreover have "rp_Warnings rep = concat (map (\<lambda>q. map (\<lambda>f. (op_ID q, fst f))
      (filter (\<lambda>f. fetchPrefixes fetch (fst f) (snd f) = None) (sources q))) Operators)"
    unfolding rep(2) gather_warnings by (simp add: comp_def)
  ultimately show ?thesis using rep(3,4) by blast
qed

theorem Build_splits_by_baseline_witness:
  "pfxs_addrs (pr_Mainland (hd (rp_Providers (fst (rules_Build (\<lambda>_. Some ''1.2.3.0/24'')
       \<lparr>js_fastly = (\<lambda>_. None), js_cloudfront = (\<lambda>_. None), js_ripe = (\<lambda>s. Some \<lparr>rd_Status = ''ok'', rd_Prefixes = [s]\<rparr>)\<rparr>
       [] [Prefix (Addr4 0x01000000) 8] 0))))) \<subseteq> pfxs_addrs [Prefix (Addr4 0x01000000) 8]"
proof -
  let ?js = "\<lparr>js_fastly = (\<lambda>_. None), js_cloudfront = (\<lambda>_. None), js_ripe = (\<lambda>s. Some \<lparr>rd_Status = ''ok'', rd_Prefixes = [s]\<rparr>)\<rparr>"
  let ?b = "rules_Build (\<lambda>_. Some ''1.2.3.0/24'') ?js [] [Prefix (Addr4 0x01000000) 8] 0"
  have "list_all wf_prefix [Prefix (Addr4 0x01000000) 8]" "[Prefix (Addr4 0x01000000) 8] \<noteq> []" by simp_all
  from Build_splits_by_baseline [OF this prod.collapse [symmetric] refl, of "\<lambda>_. Some ''1.2.3.0/24''" ?js "[]" 0]
  have "list_all2 (\<lambda>p q. pfxs_addrs (pr_Mainland p) \<subseteq> pfxs_addrs [Prefix (Addr4 0x01000000) 8])
      (rp_Providers (fst ?b)) Operators" by (auto elim: list_all2_mono)
  moreover have "Operators \<noteq> []" by (simp add: Operators_def operators_def)
  ultimately show ?thesis by (cases "rp_Providers (fst ?b)") (auto simp: list_all2_Cons1)
qed

section \<open>Synchronising the file\<close>

text \<open>A source offers a rule set when its file can be fetched and validates.\<close>

definition offers :: "(string \<Rightarrow> string option) \<Rightarrow> string \<Rightarrow> string \<Rightarrow> rule_set \<Rightarrow> bool" where
  "offers fetch src0 body s \<longleftrightarrow>
     (let src = TrimRight (CHR ''/'') (TrimSpace src0) in
      src \<noteq> [] \<and> fetch (src @ ''/'' @ FileName) = Some body \<and> rules_validate body = Inr s)"

abbreviation best_set :: "string \<times> rule_set \<times> string \<Rightarrow> rule_set" where
  "best_set b \<equiv> fst (snd b)"

lemma best_source_step:
  "best_source fetch src best = Some b \<Longrightarrow> best = Some b \<or> offers fetch src (fst b) (best_set b)"
  "best = Some c \<or> offers fetch src body (best_set c) \<Longrightarrow>
   \<exists>b. best_source fetch src best = Some b \<and> st_generatedAt (best_set c) \<le> st_generatedAt (best_set b)"
  by (cases c, auto simp: best_source_def offers_def Let_def split: option.splits sum.splits if_splits)+

lemma best_fold:
  "fold (best_source fetch) sources best = Some b \<Longrightarrow>
     best = Some b \<or> (\<exists>src \<in> set sources. offers fetch src (fst b) (best_set b))"
  "best = Some c \<or> (\<exists>src \<in> set sources. offers fetch src body (best_set c)) \<Longrightarrow>
   \<exists>b. fold (best_source fetch) sources best = Some b \<and> st_generatedAt (best_set c) \<le> st_generatedAt (best_set b)"
proof (induction sources arbitrary: best c body)
  case (Cons src sources)
  {
    case 1
    with Cons.IH(1) [of "best_source fetch src best"] best_source_step(1) [of fetch src best b] show ?case by auto
  next
    case 2
    then consider "best = Some c \<or> offers fetch src body (best_set c)"
      | "\<exists>src \<in> set sources. offers fetch src body (best_set c)" by auto
    then show ?case
    proof cases
      case 1
      from best_source_step(2) [OF this] obtain b where b: "best_source fetch src best = Some b"
        "st_generatedAt (best_set c) \<le> st_generatedAt (best_set b)" by blast
      then show ?thesis using Cons.IH(2) [of "best_source fetch src best" b] by force
    next
      case 2
      then show ?thesis using Cons.IH(2) [of "best_source fetch src best" c body] by simp
    qed
  }
qed auto

lemma keep_reason_none:
  assumes "keep_reason force old body best = NoReason"
  shows "old \<noteq> body"
    and "rules_Parse old = Inr prev \<Longrightarrow> st_generatedAt prev \<le> st_generatedAt best \<and>
      (force \<or> st_PrefixCount prev \<le> 100 \<or> st_PrefixCount prev * 80 div 100 \<le> st_PrefixCount best)"
  using assms by (auto simp: keep_reason_def shrinkPercent_def Let_def split: if_splits)

lemma FileName_visible: "visible FileName"
  by (simp add: FileName_def)


definition sample_rules :: string where
  "sample_rules = ''# schema: cdn-direct/1'' @ nl @ ''# generated-at: 7'' @ nl @ ''P'' @ tab @ ''x'' @ tab @ ''X'' @ nl @
     ''N'' @ tab @ ''x'' @ tab @ ''cn'' @ tab @ ''10.0.0.0/8'' @ nl"

lemma sample_rules_valid: "case rules_validate sample_rules of Inl _ \<Rightarrow> False | Inr s \<Rightarrow> st_generatedAt s = 7"
  by code_simp


section \<open>The name lookup\<close>

definition serves :: "provider \<Rightarrow> string \<Rightarrow> bool" where
  "serves q key \<longleftrightarrow> key \<noteq> [] \<and> key \<in> Normalize ` set (pr_Domains q)"

lemma add_domain_fold:
  "fold (add_domain i) ds sfx key =
     (if sfx key = None \<and> key \<noteq> [] \<and> key \<in> Normalize ` set ds then Some i else sfx key)"
  by (induction ds arbitrary: sfx) (auto simp: add_domain_def Let_def)

lemma add_domains_dom:
  "fold (\<lambda>(i, p) sfx. fold (add_domain i) (pr_Domains p) sfx) ips sfx key = Some i \<Longrightarrow>
     sfx key = Some i \<or> (\<exists>p. (i, p) \<in> set ips \<and> serves p key)"
  "fold (\<lambda>(i, p) sfx. fold (add_domain i) (pr_Domains p) sfx) ips sfx key = None \<longleftrightarrow>
     sfx key = None \<and> (\<forall>(i, p) \<in> set ips. \<not> serves p key)"
proof (induction ips arbitrary: sfx)
  case (Cons ip ips)
  obtain j p where ip: "ip = (j, p)" by fastforce
  {
    case 1
    then show ?case using Cons.IH(1) [of "fold (add_domain j) (pr_Domains p) sfx"]
      by (auto simp: ip add_domain_fold serves_def split: if_splits)
  next
    case 2
    show ?case using Cons.IH(2) [of "fold (add_domain j) (pr_Domains p) sfx"]
      by (auto simp: ip add_domain_fold serves_def)
  }
qed auto

lemma New_suffix:
  "st_suffix (rules_New g ps) key = Some i \<Longrightarrow>
     st_providers (rules_New g ps) ! i \<in> set ps \<and> serves (st_providers (rules_New g ps) ! i) key"
  "st_suffix (rules_New g ps) key = None \<longleftrightarrow> (\<forall>p \<in> set ps. \<not> serves p key)"
proof -
  let ?ps = "sort_key pr_ID ps"
  have mem: "(j, p) \<in> set (enumerate 0 ?ps) \<longleftrightarrow> j < length ps \<and> p = ?ps ! j" for j p
    by (auto simp: in_set_enumerate_eq)
  show "st_suffix (rules_New g ps) key = Some i \<Longrightarrow>
     st_providers (rules_New g ps) ! i \<in> set ps \<and> serves (st_providers (rules_New g ps) ! i) key"
    using add_domains_dom(1) [of "enumerate 0 ?ps" Map.empty key i] nth_mem [of i ?ps]
    by (auto simp: rules_New_def Let_def mem)
  have "set ps = snd ` set (enumerate 0 ?ps)" by (metis list.set_map map_snd_enumerate set_sort)
  then have "(\<forall>(j, p) \<in> set (enumerate 0 ?ps). \<not> serves p key) \<longleftrightarrow> (\<forall>p \<in> set ps. \<not> serves p key)" by auto
  then show "st_suffix (rules_New g ps) key = None \<longleftrightarrow> (\<forall>p \<in> set ps. \<not> serves p key)"
    using add_domains_dom(2) [of "enumerate 0 ?ps" Map.empty key] by (simp add: rules_New_def Let_def)
qed

abbreviation labels_suffix :: "string \<Rightarrow> string \<Rightarrow> bool" where
  "labels_suffix s name \<equiv> suffix (Split (CHR ''.'') s) (Split (CHR ''.'') name)"

lemma labels_suffix_length: "labels_suffix s name \<Longrightarrow> length s \<le> length name"
proof (induction name arbitrary: s rule: length_induct)
  case (1 name)
  show ?case
  proof (cases "Cut (CHR ''.'') name")
    case None
    then have "Split (CHR ''.'') name = [name]" by (simp add: Cut_None_iff Split_free)
    then have "s = name"
      using 1(2) by (metis Join_Split Join.simps(2) Split_not_Nil suffix_Cons suffix_Nil)
    then show ?thesis by simp
  next
    case (Some ab)
    obtain a b where "ab = (a, b)" by fastforce
    with Some have cut: "name = a @ CHR ''.'' # b" "CHR ''.'' \<notin> set a" using Cut_eq_Some by metis+
    then have sp: "Split (CHR ''.'') name = a # Split (CHR ''.'') b" by (simp add: Split_free_append)
    then consider "Split (CHR ''.'') s = Split (CHR ''.'') name" | "labels_suffix s b"
      using 1(2) by (auto simp: suffix_Cons)
    then show ?thesis
    proof cases
      case 1
      then have "s = name" by (metis Join_Split)
      then show ?thesis by simp
    next
      case 2
      moreover have "length b < length name" using cut by simp
      ultimately have "length s \<le> length b" using \<open>\<forall>ys. length ys < length name \<longrightarrow> _\<close> by blast
      with cut show ?thesis by simp
    qed
  qed
qed

lemma provider_walk_longest:
  "case provider_walk sfx name of
     None \<Rightarrow> \<forall>s. s \<noteq> [] \<longrightarrow> labels_suffix s name \<longrightarrow> sfx s = None
   | Some i \<Rightarrow> \<exists>s. s \<noteq> [] \<and> labels_suffix s name \<and> sfx s = Some i \<and>
       (\<forall>s'. s' \<noteq> [] \<longrightarrow> labels_suffix s' name \<longrightarrow> sfx s' \<noteq> None \<longrightarrow> length s' \<le> length s)"
proof (induction sfx name rule: provider_walk.induct)
  case (1 sfx rest)
  have nil: "s = []" if "labels_suffix s []" for s using labels_suffix_length [OF that] by simp
  show ?case
  proof (cases "rest = [] \<or> sfx rest \<noteq> None")
    case True
    then show ?thesis using nil labels_suffix_length by (subst provider_walk.simps) (auto split: option.splits)
  next
    case new: False
    show ?thesis
    proof (cases "Cut (CHR ''.'') rest")
      case None
      then have "Split (CHR ''.'') rest = [rest]" by (simp add: Cut_None_iff Split_free)
      then have "s = rest" if "labels_suffix s rest" for s
        using that by (metis Join_Split Join.simps(2) Split_not_Nil suffix_Cons suffix_Nil)
      with None new show ?thesis by (subst provider_walk.simps) auto
    next
      case (Some ab)
      obtain a b where ab: "ab = (a, b)" by fastforce
      have cut: "rest = a @ CHR ''.'' # b" "CHR ''.'' \<notin> set a" using Some ab Cut_eq_Some by metis+
      then have sp: "Split (CHR ''.'') rest = a # Split (CHR ''.'') b" by (simp add: Split_free_append)
      have "s = rest" if "Split (CHR ''.'') s = a # Split (CHR ''.'') b" for s
        using that sp by (metis Join_Split)
      then have eq: "labels_suffix s rest \<and> sfx s \<noteq> None \<longleftrightarrow> labels_suffix s b \<and> sfx s \<noteq> None" for s
        using new by (auto simp: sp suffix_Cons)
      moreover have "provider_walk sfx rest = provider_walk sfx b"
        using new Some ab by (subst provider_walk.simps) auto
      moreover have "case provider_walk sfx b of
           None \<Rightarrow> \<forall>s. s \<noteq> [] \<longrightarrow> labels_suffix s b \<longrightarrow> sfx s = None
         | Some i \<Rightarrow> \<exists>s. s \<noteq> [] \<and> labels_suffix s b \<and> sfx s = Some i \<and>
             (\<forall>s'. s' \<noteq> [] \<longrightarrow> labels_suffix s' b \<longrightarrow> sfx s' \<noteq> None \<longrightarrow> length s' \<le> length s)"
        using 1 new Some ab by simp
      ultimately show ?thesis by (auto split: option.splits) (metis eq option.distinct(1))+
    qed
  qed
qed

text \<open>The provider of a name is the one with the longest domain that the labels of the normalised name
  end with: no provider of the set has a longer such domain, and nothing is found only when no
  provider has one.\<close>

theorem ProviderFor_longest_suffix:
  "case ProviderFor (Some (rules_New g ps)) name of
     None \<Rightarrow> \<forall>q s. q \<in> set ps \<longrightarrow> serves q s \<longrightarrow> \<not> labels_suffix s (Normalize name)
   | Some q \<Rightarrow> q \<in> set ps \<and> (\<exists>s. serves q s \<and> labels_suffix s (Normalize name) \<and>
       (\<forall>q' s'. q' \<in> set ps \<longrightarrow> serves q' s' \<longrightarrow> labels_suffix s' (Normalize name) \<longrightarrow> length s' \<le> length s))"
proof -
  let ?sfx = "st_suffix (rules_New g ps)"
  have known: "s \<noteq> [] \<and> ?sfx s \<noteq> None" if "q \<in> set ps" "serves q s" for q s
    using that New_suffix(2) [of g ps s] by (auto simp: serves_def)
  show ?thesis
  proof (cases "provider_walk ?sfx (Normalize name)")
    case None
    with provider_walk_longest [where sfx = ?sfx and name = "Normalize name"]
    have "\<forall>s. s \<noteq> [] \<longrightarrow> labels_suffix s (Normalize name) \<longrightarrow> ?sfx s = None" by simp
    with known have "\<not> labels_suffix s (Normalize name)" if "q \<in> set ps" "serves q s" for q s using that by blast
    with None show ?thesis by (simp add: ProviderFor_def)
  next
    case (Some i)
    with provider_walk_longest [where sfx = ?sfx and name = "Normalize name"] obtain s where
      s: "labels_suffix s (Normalize name)" "?sfx s = Some i"
        "\<forall>s'. s' \<noteq> [] \<longrightarrow> labels_suffix s' (Normalize name) \<longrightarrow> ?sfx s' \<noteq> None \<longrightarrow> length s' \<le> length s" by auto
    have "length s' \<le> length s" if "q' \<in> set ps" "serves q' s'" "labels_suffix s' (Normalize name)" for q' s'
      using s(3) known that by blast
    with New_suffix(1) [OF s(2)] s(1) Some show ?thesis by (auto simp: ProviderFor_def)
  qed
qed

theorem ProviderFor_longest_suffix_witness:
  "ProviderFor (Some (rules_New 0
     [\<lparr>pr_ID = ''a'', pr_Name = ''A'', pr_Domains = [''Example.com''], pr_Mainland = [], pr_Offshore = []\<rparr>])) ''www.example.com.'' \<noteq> None"
proof
  let ?q = "\<lparr>pr_ID = ''a'', pr_Name = ''A'', pr_Domains = [''Example.com''], pr_Mainland = [], pr_Offshore = []\<rparr>"
  assume none: "ProviderFor (Some (rules_New 0 [?q])) ''www.example.com.'' = None"
  have "?q \<in> set [?q] \<longrightarrow> serves ?q ''example.com'' \<longrightarrow> \<not> labels_suffix ''example.com'' (Normalize ''www.example.com.'')"
    using ProviderFor_longest_suffix [where g = 0 and ps = "[?q]" and name = "''www.example.com.''"]
    unfolding none option.case by blast
  moreover have "Normalize ''www.example.com.'' = ''www.example.com''" "Normalize ''Example.com'' = ''example.com''"
    "Split (CHR ''.'') ''www.example.com'' = [''www'', ''example'', ''com'']" "Split (CHR ''.'') ''example.com'' = [''example'', ''com'']"
    by code_simp+
  ultimately show False by (simp add: serves_def suffix_Cons)
qed

end
