(* ===== verification/Infra.thy ===== *)
theory Infra
  imports Netip "HOL-Library.Product_Lexorder" "HOL-Library.Multiset"
begin

text \<open>
  Package \<open>internal/infra\<close>: the resolver's infrastructure cache as \<open>unbound-control dump_infra\<close>
  prints it, read line by line, and the addresses it holds per zone. Running the command is not
  modelled; the lines it prints are the argument.
\<close>

section \<open>Definitions\<close>

record entry =
  e_Zone :: string
  e_IP :: addr
  e_RTO :: int
  e_HasRTO :: bool

record snapshot =
  s_Entries :: "entry list"
  s_Skipped :: nat

text \<open>The value after the first \<open>rto\<close> of the words from the third on, where it is a number.\<close>

fun rto_scan :: "string list \<Rightarrow> int option" where
  "rto_scan (w # v # rest) =
     (if w \<noteq> ''rto'' then rto_scan (v # rest)
      else case Atoi v of Some n \<Rightarrow> if 0 \<le> n then Some n else None | None \<Rightarrow> None)"
| "rto_scan _ = None"

datatype infra_line = Ignored | Bad | Good entry

definition parse_line :: "string \<Rightarrow> infra_line" where
  "parse_line raw =
     (let line = TrimSpace raw in
      if line = [] \<or> HasPrefix line '';'' \<or> HasPrefix line ''#'' then Ignored
      else
        let parts = Fields line in
        if length parts < 2 then Bad
        else case ParseAddr (parts ! 0) of
          None \<Rightarrow> Bad
        | Some ip \<Rightarrow>
            let zone = ToLower (TrimRight (CHR ''.'') (parts ! 1)) in
            if \<not> HasSuffix (parts ! 1) ''.'' \<or> zone = [] then Bad
            else case rto_scan (drop 2 parts) of
              None \<Rightarrow> Good \<lparr>e_Zone = zone, e_IP = ip, e_RTO = 0, e_HasRTO = False\<rparr>
            | Some v \<Rightarrow> Good \<lparr>e_Zone = zone, e_IP = ip, e_RTO = v, e_HasRTO = True\<rparr>)"

fun parse_lines :: "string list \<Rightarrow> snapshot \<Rightarrow> snapshot" where
  "parse_lines [] s = s"
| "parse_lines (raw # rest) s =
     (case parse_line raw of
        Ignored \<Rightarrow> parse_lines rest s
      | Bad \<Rightarrow> parse_lines rest (s\<lparr>s_Skipped := s_Skipped s + 1\<rparr>)
      | Good e \<Rightarrow> parse_lines rest (s\<lparr>s_Entries := s_Entries s @ [e]\<rparr>))"

text \<open>
  The order of the entries: zone, then the printed address, then without an RTO before with,
  then the RTO. Entries that agree in all of it are printed alike.
\<close>

definition entry_key :: "entry \<Rightarrow> string \<times> string \<times> bool \<times> int" where
  "entry_key e = (e_Zone e, addr_String (e_IP e), e_HasRTO e, e_RTO e)"

definition Parse :: "string list \<Rightarrow> snapshot" where
  "Parse ls =
     (let s = parse_lines ls \<lparr>s_Entries = [], s_Skipped = 0\<rparr>
      in s\<lparr>s_Entries := sort_key entry_key (s_Entries s)\<rparr>)"

definition pair_key :: "entry \<Rightarrow> string" where
  "pair_key e =
     e_Zone e @ CHR 0x00 # addr_String (e_IP e) @ CHR 0x00 # int_digits (e_RTO e) @ CHR 0x00 #
     (if e_HasRTO e then ''true'' else ''false'')"

fun pairs_loop :: "string set \<Rightarrow> entry list \<Rightarrow> entry list" where
  "pairs_loop seen [] = []"
| "pairs_loop seen (e # es) =
     (if pair_key e \<in> seen then pairs_loop seen es else e # pairs_loop (insert (pair_key e) seen) es)"

definition Pairs :: "snapshot \<Rightarrow> entry list" where
  "Pairs s = pairs_loop {} (s_Entries s)"

fun zones_loop :: "entry list \<Rightarrow> (string \<Rightarrow> entry list) \<Rightarrow> (string \<Rightarrow> string set) \<Rightarrow> (string \<Rightarrow> entry list)" where
  "zones_loop [] zones seen = zones"
| "zones_loop (e # es) zones seen =
     (let z = e_Zone e; key = addr_String (e_IP e) in
      if key \<in> seen z then zones_loop es zones seen
      else zones_loop es (zones(z := zones z @ [e])) (seen(z := insert key (seen z))))"

text \<open>
  \<open>Zones\<close> as a function from names: a zone that is no key of Go's map has the empty list. The
  keys are the zones of the entries.
\<close>

definition Zones :: "snapshot \<Rightarrow> string \<Rightarrow> entry list" where
  "Zones s zone = sort_key e_IP (zones_loop (s_Entries s) (\<lambda>_. []) (\<lambda>_. {}) zone)"

definition zone_names :: "snapshot \<Rightarrow> string list" where
  "zone_names s = remdups (map e_Zone (s_Entries s))"

section \<open>Parsing\<close>

lemma parse_lines_props:
  "length (s_Entries (parse_lines ls s)) + s_Skipped (parse_lines ls s) =
     length (s_Entries s) + s_Skipped s + length (filter (\<lambda>l. parse_line l \<noteq> Ignored) ls)"
  "set (s_Entries (parse_lines ls s)) = set (s_Entries s) \<union> {e. \<exists>l \<in> set ls. parse_line l = Good e}"
proof (induction ls arbitrary: s)
  case (Cons l ls)
  { case 1 show ?case by (cases "parse_line l") (simp_all add: Cons.IH(1)) }
  { case 2 show ?case by (cases "parse_line l") (auto simp: Cons.IH(2)) }
qed simp_all

lemma parse_line_Good:
  assumes "parse_line l = Good e"
  shows "e_Zone e \<noteq> []" and "e_IP e \<noteq> AddrZero" and "0 \<le> e_RTO e" and "\<not> e_HasRTO e \<Longrightarrow> e_RTO e = 0"
proof -
  have r: "rto_scan ws = Some v \<Longrightarrow> 0 \<le> v" for ws v
    by (induction ws rule: rto_scan.induct) (auto split: if_splits option.splits)
  have z: "ParseAddr s \<noteq> Some AddrZero" for s
    by (auto simp: ParseAddr_def parse_v6_def split: list.splits option.splits if_splits)
  show "e_Zone e \<noteq> []" "e_IP e \<noteq> AddrZero" "0 \<le> e_RTO e" "\<not> e_HasRTO e \<Longrightarrow> e_RTO e = 0"
    using assms r z by (auto simp: parse_line_def Let_def split: if_splits option.splits)
qed

section \<open>Zones\<close>

text \<open>The first entry of each address, in order: what the loop leaves of one zone.\<close>

fun firsts :: "string set \<Rightarrow> entry list \<Rightarrow> entry list" where
  "firsts seen [] = []"
| "firsts seen (e # es) =
     (if addr_String (e_IP e) \<in> seen then firsts seen es
      else e # firsts (insert (addr_String (e_IP e)) seen) es)"

lemma zones_loop_zone:
  "zones_loop es zones seen z = zones z @ firsts (seen z) (filter (\<lambda>e. e_Zone e = z) es)"
  by (induction es arbitrary: zones seen) (auto simp: Let_def)

lemma firsts_props:
  shows "set (firsts seen es) \<subseteq> set es"
    and "(addr_String \<circ> e_IP) ` set (firsts seen es) = (addr_String \<circ> e_IP) ` set es - seen"
    and "distinct (map (addr_String \<circ> e_IP) (firsts seen es))"
proof -
  have 1: "set (firsts seen es) \<subseteq> set es \<and>
      (addr_String \<circ> e_IP) ` set (firsts seen es) = (addr_String \<circ> e_IP) ` set es - seen"
    by (induction es arbitrary: seen) auto
  then show "set (firsts seen es) \<subseteq> set es"
    and "(addr_String \<circ> e_IP) ` set (firsts seen es) = (addr_String \<circ> e_IP) ` set es - seen" by blast+
  have im: "(addr_String \<circ> e_IP) ` set (firsts seen es) = (addr_String \<circ> e_IP) ` set es - seen" for seen es
    by (induction es arbitrary: seen) auto
  show "distinct (map (addr_String \<circ> e_IP) (firsts seen es))"
  proof (induction es arbitrary: seen)
    case (Cons e es)
    then show ?case using im [of "insert (addr_String (e_IP e)) seen" es] by auto
  qed simp
qed

lemma Zones_eq: "Zones s z = sort_key e_IP (firsts {} (filter (\<lambda>e. e_Zone e = z) (s_Entries s)))"
  by (simp add: Zones_def zones_loop_zone)

lemma Zones_props:
  shows "set (Zones s z) \<subseteq> {e \<in> set (s_Entries s). e_Zone e = z}"
    and "(addr_String \<circ> e_IP) ` set (Zones s z) = (addr_String \<circ> e_IP) ` {e \<in> set (s_Entries s). e_Zone e = z}"
    and "distinct (map (addr_String \<circ> e_IP) (Zones s z))"
    and "sorted (map e_IP (Zones s z))"
proof -
  let ?es = "filter (\<lambda>e. e_Zone e = z) (s_Entries s)"
  show "set (Zones s z) \<subseteq> {e \<in> set (s_Entries s). e_Zone e = z}"
    using firsts_props(1) [of "{}" ?es] by (auto simp: Zones_eq)
  show "(addr_String \<circ> e_IP) ` set (Zones s z) = (addr_String \<circ> e_IP) ` {e \<in> set (s_Entries s). e_Zone e = z}"
    using firsts_props(2) [of "{}" ?es] by (simp add: Zones_eq)
  have "mset (map (addr_String \<circ> e_IP) (Zones s z)) = mset (map (addr_String \<circ> e_IP) (firsts {} ?es))"
    by (simp add: Zones_eq)
  then show "distinct (map (addr_String \<circ> e_IP) (Zones s z))"
    using firsts_props(3) [of "{}" ?es] mset_eq_imp_distinct_iff by blast
  show "sorted (map e_IP (Zones s z))" by (simp add: Zones_eq)
qed

lemma Zones_Nil_iff: "Zones s z = [] \<longleftrightarrow> z \<notin> set (zone_names s)"
proof -
  have "Zones s z = [] \<longleftrightarrow> (addr_String \<circ> e_IP) ` set (Zones s z) = {}" by simp
  also have "\<dots> \<longleftrightarrow> {e \<in> set (s_Entries s). e_Zone e = z} = {}" unfolding Zones_props(2) by simp
  also have "\<dots> \<longleftrightarrow> z \<notin> set (zone_names s)" by (auto simp: zone_names_def)
  finally show ?thesis .
qed

section \<open>Properties\<close>

text \<open>Every line that is neither blank nor a comment is accounted for, as an entry or as skipped;
  the entries are those of the lines in the order of the key, each with a nonempty zone, an
  address and an RTO that is not negative.\<close>

theorem Parse_accounts_for_every_line:
  "length (s_Entries (Parse ls)) + s_Skipped (Parse ls) = length (filter (\<lambda>l. parse_line l \<noteq> Ignored) ls) \<and>
   sorted (map entry_key (s_Entries (Parse ls))) \<and>
   set (s_Entries (Parse ls)) = {e. \<exists>l \<in> set ls. parse_line l = Good e} \<and>
   list_all (\<lambda>e. e_Zone e \<noteq> [] \<and> e_IP e \<noteq> AddrZero \<and> 0 \<le> e_RTO e) (s_Entries (Parse ls))"
proof -
  let ?s = "parse_lines ls \<lparr>s_Entries = [], s_Skipped = 0\<rparr>"
  have p: "s_Entries (Parse ls) = sort_key entry_key (s_Entries ?s)" "s_Skipped (Parse ls) = s_Skipped ?s"
    by (simp_all add: Parse_def Let_def)
  have "set (s_Entries (Parse ls)) = {e. \<exists>l \<in> set ls. parse_line l = Good e}"
    by (simp add: p parse_lines_props(2))
  then show ?thesis
    using parse_lines_props(1) [of ls "\<lparr>s_Entries = [], s_Skipped = 0\<rparr>"] parse_line_Good
    by (auto simp: p list_all_iff)
qed

theorem Parse_accounts_for_every_line_witness:
  "length (s_Entries (Parse [''1.2.3.4 a.cn. rto 5'', ''; x'', ''bad''])) +
     s_Skipped (Parse [''1.2.3.4 a.cn. rto 5'', ''; x'', ''bad'']) = 2"
proof -
  have "length (filter (\<lambda>l. parse_line l \<noteq> Ignored) [''1.2.3.4 a.cn. rto 5'', ''; x'', ''bad'']) = 2"
    by code_simp
  then show ?thesis
    using Parse_accounts_for_every_line [of "[''1.2.3.4 a.cn. rto 5'', ''; x'', ''bad'']"] by simp
qed

text \<open>The entries of a zone are entries of the snapshot with that zone, one for every address (by its
  printed form) the zone has in the snapshot, in the order of the addresses.\<close>

theorem Zones_one_entry_per_address:
  "set (Zones s z) \<subseteq> {e \<in> set (s_Entries s). e_Zone e = z} \<and>
   (addr_String \<circ> e_IP) ` set (Zones s z) = (addr_String \<circ> e_IP) ` {e \<in> set (s_Entries s). e_Zone e = z} \<and>
   distinct (map (addr_String \<circ> e_IP) (Zones s z)) \<and> sorted (map e_IP (Zones s z))"
  using Zones_props by blast

end
