(* ===== verification/Ruleset.thy ===== *)
theory Ruleset
  imports CDN Infra IPSet_Prefix "HOL-Library.AList"
begin

text \<open>
  Package \<open>internal/ruleset\<close>: from the resolver's infrastructure cache and the address lists, the
  prefixes to route directly and those that get a client subnet. The loop over zones ranges over
  a Go map; the order is an argument of the model. The accumulators the loop appends to and the
  sets it fills are the fields of \<open>acc\<close>.
\<close>

section \<open>Configuration\<close>

definition DeadRTOMillis :: int where "DeadRTOMillis = 120000"
definition SteeredECSBits :: int where "SteeredECSBits = 24"

record config =
  cfg_Direct :: "ip_set option"
  cfg_Disputed :: "ip_set option"
  cfg_Promoted :: "ip_set option"
  cfg_PSL :: "psl option"
  cfg_ManualZones :: "string set"
  cfg_SharedAnycast :: "addr set"
  cfg_MainlandCDN :: "string set"
  cfg_Aggregate :: int

definition cfg_mainlandCDN :: "config \<Rightarrow> string \<Rightarrow> bool" where
  "cfg_mainlandCDN cfg zone =
     (if cfg_MainlandCDN cfg = {} then False
      else suffix_walk (\<lambda>rest. rest \<in> cfg_MainlandCDN cfg) (ToLower (TrimRight (CHR ''.'') zone)))"

definition routable :: "addr \<Rightarrow> bool" where
  "routable a \<longleftrightarrow> Is4 a \<and> IsGlobalPrefix (PrefixFrom a 32)"

definition isDisputed :: "config \<Rightarrow> addr \<Rightarrow> bool" where
  "isDisputed cfg a \<longleftrightarrow> cfg_Disputed cfg \<noteq> None \<and> routable a \<and> set_Contains (cfg_Disputed cfg) a"

definition isPromoted :: "config \<Rightarrow> addr \<Rightarrow> bool" where
  "isPromoted cfg a \<longleftrightarrow> cfg_Promoted cfg \<noteq> None \<and> routable a \<and> set_Contains (cfg_Promoted cfg) a"

definition mainlandEvidence :: "config \<Rightarrow> addr \<Rightarrow> bool" where
  "mainlandEvidence cfg a =
     (if \<not> routable a then False
      else if isDisputed cfg a then False
      else if isPromoted cfg a then True
      else set_Contains (cfg_Direct cfg) a)"

record zone_match =
  z_Name :: string
  z_Count :: nat
  z_Forced :: bool

record result =
  r_RoutePrefixes :: "prefix list"
  r_ECSPrefixes :: "prefix list"
  r_AuthorityECS :: "prefix list"
  r_MatchedZones :: "zone_match list"
  r_DeadZones :: "string list"
  r_Defective :: "string \<Rightarrow> string list"
  r_SharedExcluded :: "string list"
  r_DisputedExcluded :: "string list"
  r_PromotedUsed :: "string list"
  r_SteeredZones :: "string list"
  r_SteeredByRuleset :: "string list"
  r_SteeredECSAddrs :: nat
  r_RTOSeen :: bool
  r_DirectECSPrefixes :: nat
  r_DirectECSCutAddrs :: u64

section \<open>Prefix lists\<close>

definition directECSAddressCount :: "prefix list \<Rightarrow> u64" where
  "directECSAddressCount ps =
     foldl (\<lambda>n p. case PrefixRange p of None \<Rightarrow> n | Some rg \<Rightarrow> n + (ucast (Hi rg - Lo rg) + 1)) 0 ps"

definition directECSPrefixes :: "config \<Rightarrow> prefix list" where
  "directECSPrefixes cfg =
     (if cfg_Disputed cfg = None \<or> set_Len (cfg_Disputed cfg) = 0 then set_Prefixes (cfg_Direct cfg)
      else set_Prefixes (Some (New (ipset_Subtract (Ranges (cfg_Direct cfg)) (Ranges (cfg_Disputed cfg))))))"

definition collapse :: "prefix list \<Rightarrow> prefix list" where
  "collapse ps =
     (if ps = [] then [] else set_Prefixes (Some (New (List.map_filter PrefixRange ps))))"

fun unique_loop :: "prefix set \<Rightarrow> prefix list \<Rightarrow> prefix list" where
  "unique_loop seen [] = []"
| "unique_loop seen (p # ps) =
     (let m = Masked p in
      if m \<in> seen then unique_loop seen ps else m # unique_loop (insert m seen) ps)"

definition uniquePrefixes :: "prefix list \<Rightarrow> prefix list" where
  "uniquePrefixes ps = sort_key (\<lambda>p. (pfx_addr p, pfx_bits p)) (unique_loop {} ps)"

section \<open>The loop over zones\<close>

text \<open>The greatest RTO per zone and address: \<open>rtos\<close>.\<close>

definition rto_step :: "entry \<Rightarrow> (string \<Rightarrow> (string \<times> entry) list) \<Rightarrow> (string \<Rightarrow> (string \<times> entry) list)" where
  "rto_step e m =
     (if \<not> Is4 (e_IP e) then m
      else
        let z = e_Zone e; key = addr_String (e_IP e);
            better = (case map_of (m z) key of
              None \<Rightarrow> True
            | Some old \<Rightarrow> (\<not> e_HasRTO old \<and> e_HasRTO e) \<or> (e_HasRTO e \<and> e_HasRTO old \<and> e_RTO old < e_RTO e))
        in if better then m(z := AList.update key e (m z)) else m)"

definition rtos_of :: "snapshot \<Rightarrow> string \<Rightarrow> (string \<times> entry) list" where
  "rtos_of s = fold rto_step (s_Entries s) (\<lambda>_. [])"

definition rto_seen :: "snapshot \<Rightarrow> bool" where
  "rto_seen s = list_ex (\<lambda>e. Is4 (e_IP e) \<and> e_HasRTO e \<and> 0 \<le> e_RTO e) (s_Entries s)"

record acc =
  acc_route :: "prefix list"
  acc_exact :: "prefix list"
  acc_extra :: "prefix list"
  acc_shared :: "string set"
  acc_disputed :: "string set"
  acc_promoted :: "string set"
  acc_steeredECS :: "string set"
  acc_steeredZones :: "string set"
  acc_rulesetZones :: "string set"
  acc_defective :: "string \<Rightarrow> string list"
  acc_dead :: "string list"
  acc_matched :: "zone_match list"

definition acc_empty :: acc where
  "acc_empty = \<lparr>acc_route = [], acc_exact = [], acc_extra = [], acc_shared = {}, acc_disputed = {},
     acc_promoted = {}, acc_steeredECS = {}, acc_steeredZones = {}, acc_rulesetZones = {},
     acc_defective = (\<lambda>_. []), acc_dead = [], acc_matched = []\<rparr>"

definition steer :: "bool \<Rightarrow> string \<Rightarrow> entry \<Rightarrow> acc \<Rightarrow> acc" where
  "steer fromRuleset zone e a =
     (if \<not> Is4 (e_IP e) \<or> \<not> IsGlobalPrefix (PrefixFrom (e_IP e) 32) then a
      else a\<lparr>acc_extra := acc_extra a @ [Masked (PrefixFrom (e_IP e) SteeredECSBits)],
             acc_steeredECS := insert (addr_String (e_IP e)) (acc_steeredECS a),
             acc_steeredZones := insert zone (acc_steeredZones a),
             acc_rulesetZones := (if fromRuleset then insert zone (acc_rulesetZones a) else acc_rulesetZones a)\<rparr>)"

definition matched_entry :: "config \<Rightarrow> bool \<Rightarrow> bool \<Rightarrow> string \<Rightarrow> entry \<Rightarrow> acc \<Rightarrow> acc" where
  "matched_entry cfg steered fromRuleset zone e a0 =
     (let ip = e_IP e; agg = cfg_Aggregate cfg; host = PrefixFrom ip 32 in
      if \<not> Is4 ip then a0
      else if \<not> IsGlobalPrefix host then a0
      else if isDisputed cfg ip then
        a0\<lparr>acc_route := acc_route a0 @ [if 0 < agg \<and> agg < 32 then Masked (PrefixFrom ip agg) else host],
           acc_disputed := insert (addr_String ip) (acc_disputed a0)\<rparr>
      else
        let a = (if isPromoted cfg ip then a0\<lparr>acc_promoted := insert (addr_String ip) (acc_promoted a0)\<rparr> else a0) in
        if 0 < agg \<and> agg < 32 \<and> mainlandEvidence cfg ip then
          a\<lparr>acc_route := acc_route a @ [Masked (PrefixFrom ip agg)], acc_exact := acc_exact a @ [host]\<rparr>
        else if steered \<and> \<not> mainlandEvidence cfg ip then steer fromRuleset zone e a
        else if ip \<in> cfg_SharedAnycast cfg then
          a\<lparr>acc_extra := acc_extra a @ [host], acc_shared := insert (addr_String ip) (acc_shared a)\<rparr>
        else a\<lparr>acc_route := acc_route a @ [host], acc_exact := acc_exact a @ [host]\<rparr>)"

definition zone_forced :: "config \<Rightarrow> string \<Rightarrow> bool" where
  "zone_forced cfg zone \<longleftrightarrow>
     (\<exists>manual \<in> cfg_ManualZones cfg. zone = manual \<or> HasSuffix zone (CHR ''.'' # manual))"

definition zone_dead :: "(string \<times> entry) list \<Rightarrow> entry list \<Rightarrow> bool" where
  "zone_dead byIP entries \<longleftrightarrow>
     0 < length byIP \<and> length byIP = length entries \<and>
     list_all (\<lambda>e. case map_of byIP (addr_String (e_IP e)) of
        None \<Rightarrow> False | Some v \<Rightarrow> e_HasRTO v \<and> \<not> e_RTO v < DeadRTOMillis) entries"

definition build_zone :: "config \<Rightarrow> bool \<Rightarrow> (string \<Rightarrow> (string \<times> entry) list) \<Rightarrow> string \<Rightarrow> entry list \<Rightarrow> acc \<Rightarrow> acc" where
  "build_zone cfg seenRTO rtos zone entries a =
     (let defect = ZoneDefect zone (cfg_PSL cfg) in
      if defect \<noteq> '''' then
        a\<lparr>acc_defective := (acc_defective a)(defect := acc_defective a defect @ [zone])\<rparr>
      else
        let forced = zone_forced cfg zone;
            hasCN = list_ex (\<lambda>e. mainlandEvidence cfg (e_IP e)) entries;
            geo = IsGeoSteered zone;
            fromRuleset = (\<not> geo \<and> cfg_mainlandCDN cfg zone);
            steered = (geo \<or> fromRuleset)
        in if \<not> forced \<and> \<not> hasCN then
             (if steered then fold (steer fromRuleset zone) entries a else a)
           else if \<not> forced \<and> seenRTO \<and> zone_dead (rtos zone) entries then
             a\<lparr>acc_dead := acc_dead a @ [zone]\<rparr>
           else
             fold (matched_entry cfg steered fromRuleset zone) entries
               (a\<lparr>acc_matched := acc_matched a @
                    [\<lparr>z_Name = zone, z_Count = length entries, z_Forced = forced\<rparr>]\<rparr>))"

definition zones4 :: "snapshot \<Rightarrow> string \<Rightarrow> entry list" where
  "zones4 s zone = filter (\<lambda>e. Is4 (e_IP e)) (Zones s zone)"

definition finish :: "config \<Rightarrow> bool \<Rightarrow> acc \<Rightarrow> result" where
  "finish cfg seenRTO a =
     (let allECS = acc_exact a @ acc_extra a;
          directECS = directECSPrefixes cfg
      in \<lparr>r_RoutePrefixes = collapse (acc_route a),
          r_ECSPrefixes = collapse (allECS @ filter IsGlobalPrefix directECS),
          r_AuthorityECS = uniquePrefixes allECS,
          r_MatchedZones = sort_key z_Name (acc_matched a),
          r_DeadZones = sort (acc_dead a),
          r_Defective = (\<lambda>d. sort (acc_defective a d)),
          r_SharedExcluded = sorted_list_of_set (acc_shared a),
          r_DisputedExcluded = sorted_list_of_set (acc_disputed a),
          r_PromotedUsed = sorted_list_of_set (acc_promoted a),
          r_SteeredZones = sorted_list_of_set (acc_steeredZones a),
          r_SteeredByRuleset = sorted_list_of_set (acc_rulesetZones a),
          r_SteeredECSAddrs = card (acc_steeredECS a),
          r_RTOSeen = seenRTO,
          r_DirectECSPrefixes = length directECS,
          r_DirectECSCutAddrs = AddressCount (cfg_Direct cfg) - directECSAddressCount directECS\<rparr>)"

datatype build_error = ErrDirectEmpty | ErrNoPSL | ErrAggregate

text \<open>\<open>order\<close> is the order in which the range over the zones with an IPv4 entry visits them.\<close>

definition Build :: "string list \<Rightarrow> snapshot \<Rightarrow> config \<Rightarrow> build_error + result" where
  "Build order s cfg =
     (if cfg_Direct cfg = None \<or> set_Len (cfg_Direct cfg) = 0 then Inl ErrDirectEmpty
      else if cfg_PSL cfg = None then Inl ErrNoPSL
      else if cfg_Aggregate cfg < 0 \<or> 32 < cfg_Aggregate cfg then Inl ErrAggregate
      else Inr (finish cfg (rto_seen s)
        (fold (\<lambda>zone. build_zone cfg (rto_seen s) (rtos_of s) zone (zones4 s zone)) order acc_empty)))"

definition zone_order :: "snapshot \<Rightarrow> string list \<Rightarrow> bool" where
  "zone_order s order \<longleftrightarrow> distinct order \<and> set order = {z. zones4 s z \<noteq> []}"

section \<open>The accumulators grow\<close>

definition acc_join :: "acc \<Rightarrow> acc \<Rightarrow> acc" where
  "acc_join a b = \<lparr>acc_route = acc_route a @ acc_route b, acc_exact = acc_exact a @ acc_exact b,
     acc_extra = acc_extra a @ acc_extra b, acc_shared = acc_shared a \<union> acc_shared b,
     acc_disputed = acc_disputed a \<union> acc_disputed b, acc_promoted = acc_promoted a \<union> acc_promoted b,
     acc_steeredECS = acc_steeredECS a \<union> acc_steeredECS b,
     acc_steeredZones = acc_steeredZones a \<union> acc_steeredZones b,
     acc_rulesetZones = acc_rulesetZones a \<union> acc_rulesetZones b,
     acc_defective = (\<lambda>d. acc_defective a d @ acc_defective b d),
     acc_dead = acc_dead a @ acc_dead b, acc_matched = acc_matched a @ acc_matched b\<rparr>"

lemma acc_join_empty [simp]: "acc_join a acc_empty = a"
  by (simp add: acc_join_def acc_empty_def)

lemma steer_join: "steer f z e (acc_join a b) = acc_join a (steer f z e b)"
  by (simp add: steer_def acc_join_def)

lemma matched_entry_join: "matched_entry cfg st f z e (acc_join a b) = acc_join a (matched_entry cfg st f z e b)"
proof -
  have promoted: "(acc_join a b)\<lparr>acc_promoted := insert x (acc_promoted (acc_join a b))\<rparr> =
      acc_join a (b\<lparr>acc_promoted := insert x (acc_promoted b)\<rparr>)" for x
    by (simp add: acc_join_def)
  show ?thesis
    by (simp add: matched_entry_def Let_def promoted steer_join) (simp add: acc_join_def)
qed

lemma fold_join:
  assumes "\<And>x a b. f x (acc_join a b) = acc_join a (f x b)"
  shows "fold f xs (acc_join a b) = acc_join a (fold f xs b)"
  using assms by (induction xs arbitrary: b) simp_all

lemma build_zone_join:
  "build_zone cfg s rtos z es (acc_join a b) = acc_join a (build_zone cfg s rtos z es b)"
proof -
  have m: "(acc_join a b)\<lparr>acc_matched := acc_matched (acc_join a b) @ ms\<rparr> =
      acc_join a (b\<lparr>acc_matched := acc_matched b @ ms\<rparr>)" for ms
    by (simp add: acc_join_def)
  show ?thesis
    by (simp add: build_zone_def Let_def m fold_join [OF steer_join] fold_join [OF matched_entry_join])
      (auto simp: acc_join_def)
qed

end
