(* ===== verification/ECS_Zone.thy ===== *)
theory ECS_Zone
  imports IPSet_Prefix
begin

text \<open>
  Package \<open>ecszone\<close>: which province and carrier an address block belongs to, the table of address
  ranges with their zone that the resolver loads, and the choice of the zones a query fans out to.
  The records of the address database reach the package through a callback; here they are the
  list of the visited prefixes with their fields. Strings are bytes, so the Chinese names are
  their UTF-8 encoding.
\<close>

section \<open>Names of provinces and carriers\<close>

definition carrierNames :: "(string \<times> string) list" where
  "carrierNames =
    [(bytes [231, 148, 181, 228, 191, 161], bytes [231, 148, 181, 228, 191, 161]),
     (bytes [232, 129, 148, 233, 128, 154], bytes [232, 129, 148, 233, 128, 154]),
     (bytes [231, 189, 145, 233, 128, 154], bytes [232, 129, 148, 233, 128, 154]),
     (bytes [231, 167, 187, 229, 138, 168], bytes [231, 167, 187, 229, 138, 168]),
     (bytes [233, 147, 129, 233, 128, 154], bytes [231, 167, 187, 229, 138, 168]),
     (bytes [230, 149, 153, 232, 130, 178, 231, 189, 145], bytes [230, 149, 153, 232, 130, 178, 231, 189, 145]),
     (bytes [230, 149, 153, 232, 130, 178], bytes [230, 149, 153, 232, 130, 178, 231, 189, 145]),
     (bytes [229, 185, 191, 231, 148, 181], bytes [229, 185, 191, 231, 148, 181]),
     (bytes [230, 156, 137, 231, 186, 191], bytes [229, 185, 191, 231, 148, 181]),
     (bytes [233, 185, 143, 229, 141, 154, 229, 163, 171], bytes [233, 185, 143, 229, 141, 154, 229, 163, 171]),
     (bytes [233, 149, 191, 229, 159, 142], bytes [233, 149, 191, 229, 159, 142, 229, 174, 189, 229, 184, 166])]"

definition provinces :: "string list" where
  "provinces =
    [bytes [229, 140, 151, 228, 186, 172],
     bytes [229, 164, 169, 230, 180, 165],
     bytes [230, 178, 179, 229, 140, 151],
     bytes [229, 177, 177, 232, 165, 191],
     bytes [229, 134, 133, 232, 146, 153, 229, 143, 164],
     bytes [232, 190, 189, 229, 174, 129],
     bytes [229, 144, 137, 230, 158, 151],
     bytes [233, 187, 145, 233, 190, 153, 230, 177, 159],
     bytes [228, 184, 138, 230, 181, 183],
     bytes [230, 177, 159, 232, 139, 143],
     bytes [230, 181, 153, 230, 177, 159],
     bytes [229, 174, 137, 229, 190, 189],
     bytes [231, 166, 143, 229, 187, 186],
     bytes [230, 177, 159, 232, 165, 191],
     bytes [229, 177, 177, 228, 184, 156],
     bytes [230, 178, 179, 229, 141, 151],
     bytes [230, 185, 150, 229, 140, 151],
     bytes [230, 185, 150, 229, 141, 151],
     bytes [229, 185, 191, 228, 184, 156],
     bytes [229, 185, 191, 232, 165, 191],
     bytes [230, 181, 183, 229, 141, 151],
     bytes [233, 135, 141, 229, 186, 134],
     bytes [229, 155, 155, 229, 183, 157],
     bytes [232, 180, 181, 229, 183, 158],
     bytes [228, 186, 145, 229, 141, 151],
     bytes [232, 165, 191, 232, 151, 143],
     bytes [233, 153, 149, 232, 165, 191],
     bytes [231, 148, 152, 232, 130, 131],
     bytes [233, 157, 146, 230, 181, 183],
     bytes [229, 174, 129, 229, 164, 143],
     bytes [230, 150, 176, 231, 150, 134]]"

type_synonym ipdb_record = "string \<Rightarrow> string"

text \<open>\<open>regionTrim\<close> deletes the words for city and province, scanning from the left.\<close>

fun regionTrim :: "string \<Rightarrow> string" where
  "regionTrim [] = []"
| "regionTrim (c # cs) =
     (if prefix (bytes [229, 184, 130]) (c # cs) \<or> prefix (bytes [231, 156, 129]) (c # cs)
      then regionTrim (drop 2 cs) else c # regionTrim cs)"

definition ProvinceOf :: "ipdb_record \<Rightarrow> string" where
  "ProvinceOf rec =
     (let region = regionTrim (rec ''region_name'') in
      case find (\<lambda>name. region \<noteq> [] \<and> HasPrefix region name) provinces of
        None \<Rightarrow> [] | Some name \<Rightarrow> name)"

definition CarrierOf :: "ipdb_record \<Rightarrow> string" where
  "CarrierOf rec =
     (let text = rec ''isp_domain'' @ ''|'' @ rec ''owner_domain'' in
      case find (\<lambda>(keyword, name). Contains text keyword) carrierNames of
        None \<Rightarrow> [] | Some (keyword, name) \<Rightarrow> name)"

definition ZoneOf :: "ipdb_record \<Rightarrow> string" where
  "ZoneOf rec =
     (let province = ProvinceOf rec; carrier = CarrierOf rec in
      if province = [] \<or> carrier = [] then [] else province @ carrier)"

definition SplitZone :: "string \<Rightarrow> string \<times> string" where
  "SplitZone zone =
     (case find (\<lambda>name. HasPrefix zone name) provinces of
        None \<Rightarrow> ([], zone) | Some name \<Rightarrow> (name, drop (length name) zone))"

section \<open>Rows and intervals\<close>

record row =
  row_Lo :: u32
  row_Hi :: u32
  row_Zone :: string

definition direct_line :: "string \<Rightarrow> range list" where
  "direct_line raw =
     (let line = TrimSpace raw in
      if line = [] \<or> HasPrefix line ''#'' then []
      else case ParsePrefix line of
        None \<Rightarrow> []
      | Some p \<Rightarrow>
          if \<not> Is4 (pfx_addr p) then []
          else (case PrefixRange (Masked p) of None \<Rightarrow> [] | Some r \<Rightarrow> GlobalParts r))"

text \<open>A file is its contents, \<open>None\<close> where reading it fails.\<close>

definition LoadDirectIntervals :: "string option \<Rightarrow> range list option" where
  "LoadDirectIntervals file =
     map_option (\<lambda>data. Collapse (concat (map direct_line (Split (CHR 0x0A) data)))) file"

definition max32 :: "u32 \<Rightarrow> u32 \<Rightarrow> u32" where
  "max32 a b = (if a > b then a else b)"

definition min32 :: "u32 \<Rightarrow> u32 \<Rightarrow> u32" where
  "min32 a b = (if a < b then a else b)"

text \<open>The downward loop from \<open>index - 1\<close>; the code reverses the hits at the end.\<close>

fun hits_down :: "u32 \<Rightarrow> u32 \<Rightarrow> range list \<Rightarrow> nat \<Rightarrow> range list" where
  "hits_down lo hi intervals 0 = []"
| "hits_down lo hi intervals (Suc index) =
     (let r = intervals ! index in
      if \<not> Hi r \<ge> lo then []
      else (if Lo r \<le> hi \<and> Hi r \<ge> lo then [Range (max32 lo (Lo r)) (min32 hi (Hi r))] else [])
           @ hits_down lo hi intervals index)"

definition intersections :: "u32 \<Rightarrow> u32 \<Rightarrow> range list \<Rightarrow> range list" where
  "intersections lo hi intervals =
     (if lo > hi \<or> intervals = [] then []
      else rev (hits_down lo hi intervals (sort_Search (length intervals) (\<lambda>i. Lo (intervals ! i) > hi))))"

definition row_key :: "row \<Rightarrow> u32 \<times> u32 \<times> string" where
  "row_key r = (row_Lo r, row_Hi r, row_Zone r)"

text \<open>The loop of \<open>MergeRows\<close>; \<open>merged\<close> is kept in reverse, its last row in front. \<open>row_Hi l + 1\<close> wraps.\<close>

fun merge_rows_loop :: "row list \<Rightarrow> nat \<Rightarrow> row list \<Rightarrow> row list \<times> nat" where
  "merge_rows_loop merged clipped [] = (rev merged, clipped)"
| "merge_rows_loop merged clipped (r # rows) =
     (if row_Lo r > row_Hi r then merge_rows_loop merged clipped rows
      else case merged of
        [] \<Rightarrow> merge_rows_loop [r] clipped rows
      | l # ms \<Rightarrow>
          if row_Zone r = row_Zone l \<and> row_Lo r \<le> row_Hi l + 1 then
            merge_rows_loop ((if row_Hi r > row_Hi l then l\<lparr>row_Hi := row_Hi r\<rparr> else l) # ms) clipped rows
          else if row_Lo r \<le> row_Hi l then
            (if row_Hi l + 1 > row_Hi r then merge_rows_loop merged (clipped + 1) rows
             else merge_rows_loop (r\<lparr>row_Lo := row_Hi l + 1\<rparr> # merged) (clipped + 1) rows)
          else merge_rows_loop (r # merged) clipped rows)"

definition MergeRows :: "row list \<Rightarrow> row list \<times> nat" where
  "MergeRows rows = merge_rows_loop [] 0 (sort_key row_key rows)"

definition span_count :: "u32 \<Rightarrow> u32 \<Rightarrow> u64" where
  "span_count lo hi = ucast (hi - lo) + 1"

fun covered_down :: "range \<Rightarrow> row list \<Rightarrow> nat \<Rightarrow> u64 \<Rightarrow> u64" where
  "covered_down r rows 0 covered = covered"
| "covered_down r rows (Suc index) covered =
     (let row = rows ! index in
      if \<not> row_Hi row \<ge> Lo r then covered
      else covered_down r rows index
        (if row_Lo row \<le> Hi r \<and> row_Hi row \<ge> Lo r
         then covered + span_count (max32 (Lo r) (row_Lo row)) (min32 (Hi r) (row_Hi row)) else covered))"

definition DirectCoverage :: "row list \<Rightarrow> range list \<Rightarrow> u64 \<times> u64" where
  "DirectCoverage rows direct =
     (let total = fold (\<lambda>r t. t + span_count (Lo r) (Hi r)) direct 0 in
      if total = 0 \<or> rows = [] then (0, total)
      else (fold (\<lambda>r covered. covered_down r rows (sort_Search (length rows) (\<lambda>i. row_Lo (rows ! i) > Hi r)) covered)
              direct 0, total))"

section \<open>Building the table from the database\<close>

record build_stats =
  bs_Raw :: nat
  bs_SkippedNoZone :: nat
  bs_DisputedSpans :: nat
  bs_DisputedCutSum :: u64
  bs_Unidentified :: "range list"
  bs_UnidentifiedCN :: u64

definition stats_zero :: build_stats where
  "stats_zero = \<lparr>bs_Raw = 0, bs_SkippedNoZone = 0, bs_DisputedSpans = 0, bs_DisputedCutSum = 0,
     bs_Unidentified = [], bs_UnidentifiedCN = 0\<rparr>"

definition anyOverlap :: "range list \<Rightarrow> range list \<Rightarrow> bool" where
  "anyOverlap parts cuts =
     list_ex (\<lambda>part. let i = sort_Search (length cuts) (\<lambda>i. Hi (cuts ! i) \<ge> Lo part) in
        i < length cuts \<and> Lo (cuts ! i) \<le> Hi part) parts"

definition counts :: "range list \<Rightarrow> u64" where
  "counts parts = fold (\<lambda>r t. t + span_count (Lo r) (Hi r)) parts 0"

definition cut_disputed :: "range list \<Rightarrow> range list \<Rightarrow> build_stats \<Rightarrow> range list \<times> build_stats" where
  "cut_disputed cuts parts stats =
     (if cuts \<noteq> [] \<and> anyOverlap parts cuts then
        let before = counts parts; parts' = ipset_Subtract parts cuts; after = counts parts' in
        (parts', if after < before
                 then stats\<lparr>bs_DisputedSpans := bs_DisputedSpans stats + 1,
                            bs_DisputedCutSum := bs_DisputedCutSum stats + (before - after)\<rparr>
                 else stats)
      else (parts, stats))"

definition build_visit :: "range list \<Rightarrow> range list \<Rightarrow> prefix \<times> ipdb_record \<Rightarrow> row list \<times> build_stats \<Rightarrow> row list \<times> build_stats" where
  "build_visit direct cuts visit st =
     (let (pfx, rec) = visit; (rows, stats) = st in
      if rec ''country_code'' \<noteq> ''CN'' then st
      else if \<not> Is4 (pfx_addr pfx) then st
      else case PrefixRange (Masked pfx) of
        None \<Rightarrow> st
      | Some sp \<Rightarrow>
          let zone = ZoneOf rec; parts0 = intersections (Lo sp) (Hi sp) direct in
          if zone = [] then
            (rows, stats\<lparr>bs_SkippedNoZone := bs_SkippedNoZone stats + 1,
               bs_Unidentified := bs_Unidentified stats @ parts0,
               bs_UnidentifiedCN := fold (\<lambda>r t. t + span_count (Lo r) (Hi r)) parts0 (bs_UnidentifiedCN stats)\<rparr>)
          else
            let (parts, stats') = cut_disputed cuts parts0 stats in
            (rows @ map (\<lambda>part. \<lparr>row_Lo = Lo part, row_Hi = Hi part, row_Zone = zone\<rparr>) parts,
             stats'\<lparr>bs_Raw := bs_Raw stats' + length parts\<rparr>))"

text \<open>The database: whether it opens, what its walk visits, and whether the walk ends without an error.\<close>

record ipdb_walk =
  db_opens :: bool
  db_visits :: "(prefix \<times> ipdb_record) list"
  db_walk_ok :: bool

definition ecs_Build :: "ipdb_walk \<Rightarrow> range list \<Rightarrow> ip_set option \<Rightarrow> row list option \<times> build_stats" where
  "ecs_Build db direct disputed =
     (if \<not> db_opens db then (None, stats_zero)
      else
        let (rows, stats) = fold (build_visit direct (Ranges disputed)) (db_visits db) ([], stats_zero) in
        (if db_walk_ok db then Some rows else None, stats))"

section \<open>The table as text\<close>

definition render_row :: "row \<Rightarrow> string" where
  "render_row r = FormatAddr4 (row_Lo r) @ '','' @ FormatAddr4 (row_Hi r) @ '','' @ row_Zone r @ [CHR 0x0A]"

definition Render :: "row list \<Rightarrow> string" where
  "Render rows =
     ''# generated by dns-stack ecs-zone'' @ [CHR 0x0A] @ ''# format: start,end,zone'' @ [CHR 0x0A]
     @ concat (map render_row rows)"

definition ecs_parseAddr :: "string \<Rightarrow> u32 option" where
  "ecs_parseAddr text =
     (case ParseAddr (TrimSpace text) of
        None \<Rightarrow> None | Some a \<Rightarrow> if \<not> Is4 a then None else Some (from_octets (AsSlice a)))"

definition load_row :: "string \<Rightarrow> row option" where
  "load_row raw =
     (let line = TrimSpace raw in
      if line = [] \<or> HasPrefix line ''#'' then None
      else case Split (CHR '','') line of
        [f0, f1, f2] \<Rightarrow>
          (case (ecs_parseAddr f0, ecs_parseAddr f1) of
             (Some lo, Some hi) \<Rightarrow>
               if lo > hi then None else Some \<lparr>row_Lo = lo, row_Hi = hi, row_Zone = TrimSpace f2\<rparr>
           | _ \<Rightarrow> None)
      | _ \<Rightarrow> None)"

text \<open>
  \<open>sort.Slice\<close> compares the lower ends only and leaves the order of rows with the same one open;
  here they keep their order.
\<close>

definition LoadRows :: "string option \<Rightarrow> row list option" where
  "LoadRows file =
     map_option (\<lambda>data. sort_key row_Lo (List.map_filter load_row (Split (CHR 0x0A) data))) file"

definition Marked :: "row list \<Rightarrow> u32 \<Rightarrow> bool" where
  "Marked rows v =
     (let n = sort_Search (length rows) (\<lambda>i. row_Lo (rows ! i) > v) in 0 < n \<and> row_Hi (rows ! (n - 1)) \<ge> v)"

fun overlap_loop :: "nat \<Rightarrow> row list \<Rightarrow> nat option" where
  "overlap_loop i (a # b # rows) = (if row_Hi a \<ge> row_Lo b then Some i else overlap_loop (i + 1) (b # rows))"
| "overlap_loop i _ = None"

definition FirstOverlap :: "row list \<Rightarrow> nat option" where
  "FirstOverlap rows = overlap_loop 0 rows"

definition CountDataLines :: "string option \<Rightarrow> nat" where
  "CountDataLines file =
     (case file of None \<Rightarrow> 0
      | Some data \<Rightarrow> length (filter (\<lambda>line. TrimSpace line \<noteq> [] \<and> \<not> HasPrefix line ''#'') (Split (CHR 0x0A) data)))"

definition RenderUnidentified :: "range list \<Rightarrow> u64 \<Rightarrow> string" where
  "RenderUnidentified ranges sum64 =
     (let collapsed = Collapse ranges in
      ''# generated by dns-stack routing-data (ecs-zone)''
      @ bytes [10]
      @ ''# ''
      @ bytes [232, 191, 153, 228, 186, 155, 229, 164, 167, 233, 153, 134, 231, 189, 145, 230, 174, 181, 229, 156, 168, 229, 189, 146, 229, 177, 158, 229, 186, 147, 233, 135, 140, 230, 159, 165, 228, 184, 141, 229, 136, 176, 231, 156, 129, 228, 187, 189, 230, 136, 150, 232, 191, 144, 232, 144, 165, 229, 149, 134, 239, 188, 140, 230, 139, 191, 228, 184, 141, 229, 136, 176]
      @ '' ECS ''
      @ bytes [231, 188, 147, 229, 173, 152, 229, 136, 134, 231, 137, 135, 10]
      @ ''# addresses ''
      @ dec_digits (unat sum64)
      @ bytes [10]
      @ ''# prefixes ''
      @ dec_digits (length collapsed)
      @ bytes [10]
      @ concat (map (\<lambda>p. pfx_String p @ bytes [10]) (set_Prefixes (Some (New collapsed)))))"

section \<open>Publishing\<close>

datatype publish_error = PublishEmpty | PublishOverlap row row | PublishShrunk nat nat

definition CheckPublishable :: "string option \<Rightarrow> row list \<Rightarrow> publish_error option" where
  "CheckPublishable out merged =
     (if merged = [] then Some PublishEmpty
      else case FirstOverlap merged of
        Some index \<Rightarrow> Some (PublishOverlap (merged ! index) (merged ! (index + 1)))
      | None \<Rightarrow>
          let old = CountDataLines out in
          if 100 \<le> old \<and> length merged < old * 6 div 10 then Some (PublishShrunk old (length merged)) else None)"

text \<open>
  \<open>replace\<close> is \<open>metrics.ReplaceAndReload\<close>: it writes the text it is given and reloads the service;
  its result is the message or the error.
\<close>

definition Publish :: "(string \<Rightarrow> string + string) \<Rightarrow> string option \<Rightarrow> row list \<Rightarrow> (publish_error + string) + string" where
  "Publish replace out merged =
     (case CheckPublishable out merged of
        Some e \<Rightarrow> Inl (Inl e)
      | None \<Rightarrow> (case replace (Render merged) of Inl e \<Rightarrow> Inl (Inr e) | Inr m \<Rightarrow> Inr m))"

section \<open>Fan-out\<close>

record zone_traffic =
  zt_Zone :: string
  zt_Subnet :: string
  zt_Queries :: int
  zt_SubnetHits :: int

definition AddTraffic :: "(string \<rightharpoonup> zone_traffic) \<Rightarrow> string \<Rightarrow> string \<Rightarrow> int \<Rightarrow> (string \<rightharpoonup> zone_traffic)" where
  "AddTraffic byZone zone subnet n =
     (let (province, carrier) = SplitZone zone in
      if province = [] \<or> carrier = [] then byZone
      else case ParsePrefix subnet of
        None \<Rightarrow> byZone
      | Some p \<Rightarrow>
          if \<not> Is4 (pfx_addr p) \<or> pfx_bits p \<noteq> 24 then byZone
          else
            let t = (case byZone zone of
                       None \<Rightarrow> \<lparr>zt_Zone = zone, zt_Subnet = [], zt_Queries = 0, zt_SubnetHits = 0\<rparr>
                     | Some t \<Rightarrow> t);
                t' = t\<lparr>zt_Queries := zt_Queries t + n\<rparr>;
                text = pfx_String (Masked p)
            in byZone(zone \<mapsto>
                 (if n > zt_SubnetHits t' \<or> n = zt_SubnetHits t' \<and> text < zt_Subnet t'
                  then t'\<lparr>zt_Subnet := text, zt_SubnetHits := n\<rparr> else t')))"

text \<open>\<open>visited\<close> are the values of the map in the order of the range; a negative bound panics.\<close>

definition fanout_key :: "zone_traffic \<Rightarrow> int \<times> string" where
  "fanout_key t = (- zt_Queries t, zt_Zone t)"

definition PickFanout :: "zone_traffic list \<Rightarrow> int \<Rightarrow> int \<Rightarrow> zone_traffic list option" where
  "PickFanout visited minQueries maxZones =
     (let out0 = sort_key fanout_key
            (filter (\<lambda>t. zt_Queries t \<ge> minQueries \<and> zt_Subnet t \<noteq> []) visited)
      in if int (length out0) > maxZones \<and> maxZones < 0 then None
         else
           let out = (if int (length out0) > maxZones then take (nat maxZones) out0 else out0) in
           if length out < 2 then Some [] else Some (sort_key zt_Zone out))"

definition RenderFanout :: "zone_traffic list \<Rightarrow> int \<Rightarrow> string" where
  "RenderFanout picked days =
     ''# generated by dns-stack routing-data (ecs-fanout)''
     @ bytes [10]
     @ ''# ''
     @ bytes [230, 156, 128, 232, 191, 145]
     @ '' ''
     @ int_digits days
     @ '' ''
     @ bytes [229, 164, 169, 229, 174, 162, 230, 136, 183, 231, 171, 175, 229, 174, 158, 233, 153, 133, 231, 148, 168, 229, 136, 176, 231, 154, 132, 229, 136, 134, 231, 137, 135, 239, 188, 155, 229, 133, 182, 228, 184, 173, 228, 184, 128, 228, 184, 170, 229, 136, 134, 231, 137, 135, 230, 139, 191, 229, 136, 176, 230, 140, 137, 229, 173, 144, 231, 189, 145, 232, 176, 131, 229, 186, 166, 231, 154, 132, 231, 173, 148, 230, 161, 136, 230, 151, 182, 239, 188, 140]
     @ ''mosproxy ''
     @ bytes [230, 155, 191, 229, 133, 182, 228, 189, 153, 229, 136, 134, 231, 137, 135, 229, 144, 132, 233, 151, 174, 228, 184, 128, 230, 172, 161, 10]
     @ concat (map (\<lambda>t. zt_Zone t @ '','' @ zt_Subnet t @ bytes [10]) picked)"

end
