(* ===== verification/ECS_Zone_Facts.thy ===== *)
theory ECS_Zone_Facts
  imports ECS_Zone
begin

text \<open>
  What the table of zones holds. The rows built from the database are the blocks of identified
  mainland records inside the direct intervals, less the disputed ones; merging them gives
  disjoint ascending rows over the same addresses; lookups, the publication check and the text
  form agree with that.
\<close>

section \<open>Rows as sets\<close>

definition marks :: "row list \<Rightarrow> (int \<times> string) set" where
  "marks rows = {(v, z). \<exists>r \<in> set rows. uint (row_Lo r) \<le> v \<and> v \<le> uint (row_Hi r) \<and> row_Zone r = z}"

definition marked_points :: "row list \<Rightarrow> int set" where
  "marked_points rows = fst ` marks rows"

lemma mem_marks: "(v, z) \<in> marks rows \<longleftrightarrow>
    (\<exists>r \<in> set rows. uint (row_Lo r) \<le> v \<and> v \<le> uint (row_Hi r) \<and> row_Zone r = z)"
  by (simp add: marks_def)

lemma mem_marked_points: "v \<in> marked_points rows \<longleftrightarrow>
    (\<exists>r \<in> set rows. uint (row_Lo r) \<le> v \<and> v \<le> uint (row_Hi r))"
  by (force simp: marked_points_def marks_def)

lemma marks_simps [simp]:
  "marks [] = {}" "marks (xs @ ys) = marks xs \<union> marks ys"
  "marks (r # xs) = {uint (row_Lo r)..uint (row_Hi r)} \<times> {row_Zone r} \<union> marks xs"
  by (auto simp: marks_def)

lemma marked_points_simps [simp]:
  "marked_points [] = {}" "marked_points (r # xs) = {uint (row_Lo r)..uint (row_Hi r)} \<union> marked_points xs"
  by (auto simp: mem_marked_points)

lemma marks_cong: "set xs = set ys \<Longrightarrow> marks xs = marks ys"
  by (simp add: marks_def)

lemma interval_absorb:
  assumes "{a..h} \<subseteq> C" and "a \<le> h + 1" and "h \<le> b"
  shows "C \<union> {a..b} = C \<union> {h + 1..b :: int}"
proof -
  have "{a..b} = {a..h} \<union> {h + 1..b}" using assms(2,3) by auto
  with assms(1) show ?thesis by blast
qed

section \<open>Merging\<close>

text \<open>Disjoint rows in ascending order, with at least one address between rows of the same zone.\<close>

definition apart :: "row \<Rightarrow> row \<Rightarrow> bool" where
  "apart a b \<longleftrightarrow> row_Hi a < row_Lo b \<and> (row_Zone a = row_Zone b \<longrightarrow> uint (row_Hi a) + 1 < uint (row_Lo b))"

abbreviation row_ok :: "row \<Rightarrow> bool" where
  "row_ok r \<equiv> row_Lo r \<le> row_Hi r \<and> row_Hi r \<noteq> u32_max"

definition table :: "row list \<Rightarrow> bool" where
  "table rows \<longleftrightarrow> list_all (\<lambda>r. row_Lo r \<le> row_Hi r) rows \<and> sorted_wrt apart rows"

definition merge_inv :: "row list \<Rightarrow> row list \<Rightarrow> bool" where
  "merge_inv merged rest \<longleftrightarrow>
     list_all row_ok merged \<and> sorted_wrt (\<lambda>b a. apart a b) merged \<and>
     (\<forall>r \<in> set rest. merged \<noteq> [] \<longrightarrow> {uint (row_Lo r)..uint (row_Hi (hd merged))} \<subseteq> marked_points merged)"

lemma merge_inv_append:
  assumes inv: "merge_inv (l # ms) (r # rest)" and r: "row_ok r'" "row_Zone r' = row_Zone r" "row_Hi r' = row_Hi r"
    and ap: "apart l r'" and cov: "{uint (row_Lo r)..uint (row_Hi r)} \<subseteq> marked_points (r' # l # ms)"
    and srt: "\<forall>q \<in> set rest. row_Lo r \<le> row_Lo q"
  shows "merge_inv (r' # l # ms) rest"
proof -
  have "apart m r'" if "m \<in> set ms" for m
    using that inv ap unfolding merge_inv_def
    by (fastforce simp: apart_def word_less_def word_le_def list_all_iff)
  then have "sorted_wrt (\<lambda>b a. apart a b) (r' # l # ms)" using inv ap by (auto simp: merge_inv_def)
  moreover have "{uint (row_Lo q)..uint (row_Hi r')} \<subseteq> marked_points (r' # l # ms)" if "q \<in> set rest" for q
  proof -
    have "uint (row_Lo r) \<le> uint (row_Lo q)" using srt that by (simp add: word_le_def)
    then have "{uint (row_Lo q)..uint (row_Hi r')} \<subseteq> {uint (row_Lo r)..uint (row_Hi r)}" by (simp add: r(3))
    with cov show ?thesis by blast
  qed
  ultimately show ?thesis using inv r by (simp add: merge_inv_def del: marked_points_simps)
qed

lemma merge_inv_extend:
  assumes inv: "merge_inv (l # ms) (r # rest)" and r: "row_ok r" "row_Hi l < row_Hi r"
    and srt: "\<forall>q \<in> set rest. row_Lo r \<le> row_Lo q" and near: "row_Lo r \<le> row_Hi l + 1"
  shows "merge_inv (l\<lparr>row_Hi := row_Hi r\<rparr> # ms) rest"
proof -
  have lok: "row_ok l" using inv by (simp add: merge_inv_def)
  have "{uint (row_Lo q)..uint (row_Hi r)} \<subseteq> marked_points (l\<lparr>row_Hi := row_Hi r\<rparr> # ms)" if q: "q \<in> set rest" for q
  proof
    fix v assume v: "v \<in> {uint (row_Lo q)..uint (row_Hi r)}"
    show "v \<in> marked_points (l\<lparr>row_Hi := row_Hi r\<rparr> # ms)"
    proof (cases "v \<le> uint (row_Hi l)")
      case True
      have "uint (row_Lo r) \<le> uint (row_Lo q)" using srt q by (simp add: word_le_def)
      with True v have "v \<in> {uint (row_Lo r)..uint (row_Hi l)}" by simp
      then have "v \<in> marked_points (l # ms)" using inv unfolding merge_inv_def by (metis hd_conv_nth list.sel(1) list.set_intros(1) list.simps(3) subsetD)
      then show ?thesis using r(2) by (auto simp: word_less_def)
    next
      case False
      then show ?thesis using v lok by (auto simp: word_le_def)
    qed
  qed
  then show ?thesis using inv r lok
    by (auto simp: merge_inv_def apart_def word_less_def word_le_def simp del: marked_points_simps)
qed

text \<open>One step of the loop: the invariant is kept and the addresses of the row are added.\<close>

lemma merge_step:
  assumes inv: "merge_inv merged (r # rest)" and hi: "row_Hi r \<noteq> u32_max"
    and srt: "\<forall>q \<in> set rest. row_Lo r \<le> row_Lo q"
  obtains merged' c' where
    "merge_rows_loop merged c (r # rest) = merge_rows_loop merged' c' rest" and "merge_inv merged' rest"
    and "marked_points merged' = marked_points merged \<union> marked_points [r]"
    and "marks merged' \<subseteq> marks merged \<union> marks [r]"
proof (cases "row_Hi r < row_Lo r")
  case True
  then have "marked_points [r] = {}" by (simp add: word_less_def)
  then show ?thesis using that [of merged c] True inv by (auto simp: merge_inv_def)
next
  case False
  then have rok: "row_ok r" using hi by (simp add: not_less)
  show ?thesis
  proof (cases merged)
    case Nil
    have "merge_inv [r] rest" using rok srt by (auto simp: merge_inv_def word_le_def)
    then show ?thesis using that [of "[r]" c] Nil False by simp
  next
    case (Cons l ms)
    have lok: "row_ok l" using inv Cons by (simp add: merge_inv_def)
    then have suc: "uint (row_Hi l + 1) = uint (row_Hi l) + 1" by (intro uint_succ) simp
    have cov: "{uint (row_Lo r)..uint (row_Hi l)} \<subseteq> marked_points merged"
      using inv Cons by (simp add: merge_inv_def)
    have nr: "\<not> row_Lo r > row_Hi r" using rok by (simp add: not_less)
    consider (join) "row_Zone r = row_Zone l" "row_Lo r \<le> row_Hi l + 1"
      | (inside) "row_Zone r \<noteq> row_Zone l" "row_Lo r \<le> row_Hi l" "row_Hi l + 1 > row_Hi r"
      | (clip) "row_Zone r \<noteq> row_Zone l" "row_Lo r \<le> row_Hi l" "row_Hi l + 1 \<le> row_Hi r"
      | (new) "\<not> (row_Zone r = row_Zone l \<and> row_Lo r \<le> row_Hi l + 1)" "row_Hi l < row_Lo r"
      using suc by (fastforce simp: word_le_def word_less_def)
    then show ?thesis
    proof cases
      case join
      show ?thesis
      proof (cases "row_Hi l < row_Hi r")
        case True
        have "marked_points (l\<lparr>row_Hi := row_Hi r\<rparr> # ms) = marked_points merged \<union> marked_points [r]"
        proof -
          have "marked_points merged \<union> marked_points [r] = marked_points merged \<union> {uint (row_Hi l) + 1..uint (row_Hi r)}"
            using interval_absorb [OF cov, of "uint (row_Hi r)"] True join(2) suc by (simp add: word_less_def word_le_def)
          also have "\<dots> = marked_points (l\<lparr>row_Hi := row_Hi r\<rparr> # ms)"
            using True lok unfolding Cons by (auto simp: word_less_def word_le_def)
          finally show ?thesis ..
        qed
        moreover have "marks (l\<lparr>row_Hi := row_Hi r\<rparr> # ms) \<subseteq> marks merged \<union> marks [r]"
          using join suc unfolding Cons by (auto simp: mem_marks word_le_def)
        ultimately show ?thesis
          using that [of "l\<lparr>row_Hi := row_Hi r\<rparr> # ms" c] join True nr Cons
            merge_inv_extend [OF _ rok True srt join(2)] inv by simp
      next
        case False
        then have "marked_points merged = marked_points merged \<union> marked_points [r]"
          using cov by (auto simp: word_less_def)
        then show ?thesis using that [of merged c] join False nr Cons inv by (auto simp: merge_inv_def)
      qed
    next
      case inside
      then have "marked_points merged = marked_points merged \<union> marked_points [r]"
        using cov suc by (auto simp: word_less_def)
      then show ?thesis using that [of merged "c + 1"] inside nr Cons inv by (auto simp: merge_inv_def)
    next
      case clip
      let ?r = "r\<lparr>row_Lo := row_Hi l + 1\<rparr>"
      have pts: "marked_points (?r # merged) = marked_points merged \<union> marked_points [r]"
        using interval_absorb [OF cov, of "uint (row_Hi r)"] suc clip(2,3) by (auto simp: word_le_def)
      have "apart l ?r" using clip(1) suc by (simp add: apart_def word_less_def)
      then have "merge_inv (?r # merged) rest"
        using merge_inv_append [of l ms r rest ?r] inv Cons rok clip srt pts by auto
      moreover have "marks (?r # merged) \<subseteq> marks merged \<union> marks [r]"
        using clip(2) suc by (auto simp: mem_marks word_le_def)
      moreover have "\<not> row_Hi r < row_Hi l + 1" using clip(3) by simp
      ultimately show ?thesis using that [of "?r # merged" "c + 1"] clip(1,2) nr Cons pts by auto
    next
      case new
      have "apart l r" using new suc by (auto simp: apart_def word_le_def word_less_def)
      then have "merge_inv (r # merged) rest"
        using merge_inv_append [of l ms r rest r] inv Cons rok srt by auto
      moreover have "\<not> row_Lo r \<le> row_Hi l" using new(2) by simp
      ultimately show ?thesis using that [of "r # merged" c] new(1) nr Cons by auto
    qed
  qed
qed

lemma merge_rows_loop_correct:
  fixes c :: nat
  assumes "merge_inv merged rows" and "\<forall>r \<in> set rows. row_Hi r \<noteq> u32_max"
    and "sorted (map row_Lo rows)"
  defines "out \<equiv> fst (merge_rows_loop merged c rows)"
  shows "table out \<and> marked_points out = marked_points merged \<union> marked_points rows \<and>
    marks out \<subseteq> marks merged \<union> marks rows"
  using assms(1-3) unfolding out_def
proof (induction rows arbitrary: merged c)
  case Nil
  then show ?case
    by (auto simp: merge_inv_def table_def list_all_iff sorted_wrt_rev mem_marked_points mem_marks)
next
  case (Cons r rows)
  then have "\<forall>q \<in> set rows. row_Lo r \<le> row_Lo q" by auto
  with Cons.prems obtain merged' c' where
    s: "merge_rows_loop merged c (r # rows) = merge_rows_loop merged' c' rows" "merge_inv merged' rows"
      "marked_points merged' = marked_points merged \<union> marked_points [r]"
      "marks merged' \<subseteq> marks merged \<union> marks [r]"
    by (auto elim: merge_step [of merged r rows c])
  have "table (fst (merge_rows_loop merged' c' rows)) \<and>
    marked_points (fst (merge_rows_loop merged' c' rows)) = marked_points merged' \<union> marked_points rows \<and>
    marks (fst (merge_rows_loop merged' c' rows)) \<subseteq> marks merged' \<union> marks rows"
    by (rule Cons.IH) (use s Cons.prems in auto)
  then show ?case using s(3,4) unfolding s(1) by auto
qed

lemma sorted_row_key_Lo: "sorted (map row_Lo (sort_key row_key rows))"
proof -
  have "sorted (map row_key (sort_key row_key rows))" by simp
  then have "sorted_wrt (\<lambda>a b. row_Lo a \<le> row_Lo b) (sort_key row_key rows)"
    unfolding sorted_map by (rule sorted_wrt_mono_rel [rotated]) (auto simp: row_key_def less_eq_prod_def)
  then show ?thesis by (simp add: sorted_map)
qed

lemma MergeRows_correct:
  assumes "\<forall>r \<in> set rows. row_Hi r \<noteq> u32_max"
  shows "table (fst (MergeRows rows))" and "marked_points (fst (MergeRows rows)) = marked_points rows"
    and "marks (fst (MergeRows rows)) \<subseteq> marks rows"
proof -
  have eq: "marks (sort_key row_key rows) = marks rows" by (rule marks_cong) simp
  then have "marked_points (sort_key row_key rows) = marked_points rows" by (simp add: marked_points_def)
  with eq merge_rows_loop_correct [of "[]" "sort_key row_key rows" 0] assms sorted_row_key_Lo
  show "table (fst (MergeRows rows))" "marked_points (fst (MergeRows rows)) = marked_points rows"
    "marks (fst (MergeRows rows)) \<subseteq> marks rows"
    by (auto simp: MergeRows_def merge_inv_def)
qed

section \<open>Intersections with the direct intervals\<close>

lemma upward_Lo:
  assumes "normal_ranges iv"
  shows "upward (length iv) (\<lambda>i. Lo (iv ! i) > hi)"
  using normal_lo_mono [of "map span_of iv" _ _ "uint hi"] assms
  by (fastforce simp: upward_def normal_ranges_def word_less_def)

lemma spans_meet: "A \<inter> spans_set xs \<noteq> {} \<longleftrightarrow> (\<exists>s \<in> set xs. A \<inter> span_set s \<noteq> {})"
  by (auto simp: spans_set_def)

lemma points_disjoint_below: "\<forall>q \<in> set rs. uint (Hi q) < a \<Longrightarrow> {a..b} \<inter> points rs = {}"
  by (auto simp: mem_spans_set) (meson leD order_trans)

lemma points_disjoint_above: "\<forall>q \<in> set rs. b < uint (Lo q) \<Longrightarrow> {a..b} \<inter> points rs = {}"
  by (auto simp: mem_spans_set) (meson leD order_trans)

lemma points_meet: "points rs \<inter> C \<noteq> {} \<longleftrightarrow> (\<exists>p \<in> set rs. {uint (Lo p)..uint (Hi p)} \<inter> C \<noteq> {})"
proof -
  have "points rs = (\<Union>p \<in> set rs. {uint (Lo p)..uint (Hi p)})" by (simp add: spans_set_def span_set_def)
  then show ?thesis by auto
qed

lemma hits_down_correct:
  assumes iv: "normal_ranges iv" and "lo \<le> hi"
  shows "n \<le> length iv \<Longrightarrow> \<forall>k < n. Lo (iv ! k) \<le> hi \<Longrightarrow>
    normal_ranges (rev (hits_down lo hi iv n)) \<and>
    points (hits_down lo hi iv n) = {uint lo..uint hi} \<inter> points (take n iv) \<and>
    (\<forall>h \<in> set (hits_down lo hi iv n). \<exists>r \<in> set (take n iv). Hi h \<le> Hi r)"
proof (induction n)
  case (Suc n)
  let ?r = "iv ! n"
  have tk: "take (Suc n) iv = take n iv @ [?r]" using Suc.prems(1) by (simp add: take_Suc_conv_app_nth)
  have nr: "normal_ranges (take n iv @ [?r])"
    using iv append_take_drop_id [of "Suc n" iv] unfolding tk [symmetric] by (metis normal_ranges_append)
  then have gap: "uint (Hi q) + 1 < uint (Lo ?r)" if "q \<in> set (take n iv)" for q
    using that by (auto simp: normal_ranges_append)
  have pr: "Lo ?r \<le> Hi ?r" using nr by (simp add: normal_ranges_append)
  have rlo: "Lo ?r \<le> hi" using Suc.prems(2) by simp
  have IH: "normal_ranges (rev (hits_down lo hi iv n))"
    "points (hits_down lo hi iv n) = {uint lo..uint hi} \<inter> points (take n iv)"
    "\<forall>h \<in> set (hits_down lo hi iv n). \<exists>r \<in> set (take n iv). Hi h \<le> Hi r"
    using Suc by auto
  show ?case
  proof (cases "lo \<le> Hi ?r")
    case False
    have "\<forall>q \<in> set (take (Suc n) iv). uint (Hi q) < uint lo"
    proof
      fix q assume "q \<in> set (take (Suc n) iv)"
      then have "q \<in> set (take n iv) \<or> q = ?r" by (auto simp: tk)
      moreover have "uint (Hi ?r) < uint lo" "uint (Lo ?r) \<le> uint (Hi ?r)" using False pr by (simp_all add: word_le_def)
      ultimately show "uint (Hi q) < uint lo" using gap [of q] by fastforce
    qed
    then have "{uint lo..uint hi} \<inter> points (take (Suc n) iv) = {}" by (rule points_disjoint_below)
    then show ?thesis using False by (simp add: Let_def)
  next
    case True
    let ?h = "Range (max32 lo (Lo ?r)) (min32 hi (Hi ?r))"
    have eq: "hits_down lo hi iv (Suc n) = ?h # hits_down lo hi iv n" using True rlo by (simp add: Let_def)
    have lo': "uint (max32 lo (Lo ?r)) = max (uint lo) (uint (Lo ?r))"
      and hi': "uint (min32 hi (Hi ?r)) = min (uint hi) (uint (Hi ?r))"
      by (simp_all add: max32_def min32_def max_def min_def word_less_def)
    have "Lo ?h \<le> Hi ?h" using True rlo pr assms(2) by (simp add: word_le_def lo' hi')
    moreover have "uint (Hi h) + 1 < uint (Lo ?h)" if "h \<in> set (hits_down lo hi iv n)" for h
    proof -
      obtain q where "q \<in> set (take n iv)" "Hi h \<le> Hi q" using IH(3) \<open>h \<in> _\<close> by blast
      with gap [of q] show ?thesis by (simp add: lo' word_le_def max_def)
    qed
    ultimately have "normal_ranges (rev (hits_down lo hi iv (Suc n)))"
      using IH(1) unfolding eq by (simp add: normal_ranges_append)
    moreover have "points (hits_down lo hi iv (Suc n)) = {uint lo..uint hi} \<inter> points (take (Suc n) iv)"
      unfolding eq tk points_Cons IH(2) by (auto simp: lo' hi' span_set_def)
    moreover have "Hi ?h \<le> Hi ?r" by (simp add: word_le_def hi')
    then have "\<forall>h \<in> set (hits_down lo hi iv (Suc n)). \<exists>r \<in> set (take (Suc n) iv). Hi h \<le> Hi r"
      using IH(3) unfolding eq tk by auto
    ultimately show ?thesis by blast
  qed
qed simp

lemma intersections_correct:
  assumes iv: "normal_ranges iv"
  shows "normal_ranges (intersections lo hi iv)"
    and "points (intersections lo hi iv) = {uint lo..uint hi} \<inter> points iv"
proof -
  let ?n = "sort_Search (length iv) (\<lambda>i. Lo (iv ! i) > hi)"
  have le: "?n \<le> length iv" by (rule sort_Search_le)
  have below: "\<forall>k < ?n. Lo (iv ! k) \<le> hi"
    using sort_Search_least(1) [OF upward_Lo [OF iv]] by (metis not_less)
  have above: "uint hi < uint (Lo r)" if r: "r \<in> set (drop ?n iv)" for r
  proof -
    obtain k where "k < length (drop ?n iv)" "r = drop ?n iv ! k" using r unfolding in_set_conv_nth by blast
    then have "?n + k < length iv" "r = iv ! (?n + k)" by auto
    with sort_Search_least(2) [OF upward_Lo [OF iv], of hi "?n + k"] show ?thesis by (simp add: word_less_def)
  qed
  have eq: "{uint lo..uint hi} \<inter> points (take ?n iv) = {uint lo..uint hi} \<inter> points iv"
  proof -
    have "{uint lo..uint hi} \<inter> points (drop ?n iv) = {}"
      by (rule points_disjoint_above) (use above in blast)
    moreover have "points iv = points (take ?n iv) \<union> points (drop ?n iv)"
      by (metis append_take_drop_id map_append spans_set_simps(3))
    ultimately show ?thesis by blast
  qed
  have rv: "points (rev rs) = points rs" for rs by (rule spans_set_cong) simp
  have "normal_ranges (intersections lo hi iv) \<and> points (intersections lo hi iv) = {uint lo..uint hi} \<inter> points iv"
  proof (cases "lo > hi \<or> iv = []")
    case True
    then show ?thesis by (auto simp: intersections_def word_less_def)
  next
    case False
    then have "lo \<le> hi" by (simp add: not_less)
    from hits_down_correct [OF iv this le below] False show ?thesis
      by (simp add: intersections_def rv eq)
  qed
  then show "normal_ranges (intersections lo hi iv)"
    and "points (intersections lo hi iv) = {uint lo..uint hi} \<inter> points iv" by simp_all
qed

lemma anyOverlap_iff:
  assumes "normal_ranges cuts" and "wf_ranges parts"
  shows "anyOverlap parts cuts \<longleftrightarrow> points parts \<inter> points cuts \<noteq> {}"
proof -
  have "(let i = sort_Search (length cuts) (\<lambda>i. Hi (cuts ! i) \<ge> Lo p) in i < length cuts \<and> Lo (cuts ! i) \<le> Hi p)
      \<longleftrightarrow> {uint (Lo p)..uint (Hi p)} \<inter> points cuts \<noteq> {}" if "p \<in> set parts" for p
  proof -
    have pp: "uint (Lo p) \<le> uint (Hi p)" using assms(2) that by (auto simp: list_all_iff word_le_def)
    let ?i = "sort_Search (length cuts) (\<lambda>i. Hi (cuts ! i) \<ge> Lo p)"
    have i: "?i = sort_Search (length (map span_of cuts)) (\<lambda>k. uint (Lo p) \<le> sp_hi (map span_of cuts ! k))"
      by (auto simp: word_le_def intro: sort_Search_cong)
    have "?i < length cuts \<and> Lo (cuts ! ?i) \<le> Hi p \<longleftrightarrow>
        (\<exists>s \<in> set (map span_of cuts). uint (Lo p) \<le> sp_hi s \<and> sp_lo s \<le> uint (Hi p))"
      using search_hi [OF _ i, of "uint (Hi p)"] assms(1)
      by (cases "?i < length cuts") (auto simp: normal_ranges_def word_le_def)
    also have "\<dots> \<longleftrightarrow> {uint (Lo p)..uint (Hi p)} \<inter> points cuts \<noteq> {}"
      unfolding spans_meet using normal_proper assms(1)
      by (intro bex_cong refl overlap_iff pp) (auto simp: normal_ranges_def)
    finally show ?thesis by (simp add: Let_def)
  qed
  then show ?thesis unfolding anyOverlap_def list_ex_iff points_meet by blast
qed

section \<open>Building the rows\<close>

text \<open>The addresses a visited record marks, before the merge.\<close>

definition record_zone :: "prefix \<times> ipdb_record \<Rightarrow> u32 \<Rightarrow> string option" where
  "record_zone visit a =
     (let (pfx, rec) = visit in
      if rec ''country_code'' = ''CN'' \<and> ZoneOf rec \<noteq> [] \<and> pfx_Contains (Masked pfx) (Addr4 a)
      then Some (ZoneOf rec) else None)"

lemma PrefixRange_Masked:
  shows "PrefixRange (Masked p) = Some sp \<Longrightarrow> Lo sp \<le> Hi sp"
    and "PrefixRange (Masked p) = Some sp \<Longrightarrow>
      pfx_Contains (Masked p) (Addr4 a) \<longleftrightarrow> uint a \<in> {uint (Lo sp)..uint (Hi sp)}"
    and "PrefixRange (Masked p) = None \<Longrightarrow> \<not> pfx_Contains (Masked p) (Addr4 a)"
    and "\<not> Is4 (pfx_addr p) \<Longrightarrow> \<not> pfx_Contains (Masked p) (Addr4 a)"
proof -
  show "Lo sp \<le> Hi sp" if s: "PrefixRange (Masked p) = Some sp"
    using PrefixRange_span [of "Masked p"] PrefixRange_None [of "Masked p"] s by fastforce
  show "pfx_Contains (Masked p) (Addr4 a) \<longleftrightarrow> uint a \<in> {uint (Lo sp)..uint (Hi sp)}"
    if s: "PrefixRange (Masked p) = Some sp"
  proof -
    have v: "pfx_IsValid (Masked p)" "Is4 (pfx_addr (Masked p))" using PrefixRange_None [of "Masked p"] s by auto
    then have "span_of sp = spansOfPrefix (Masked p)" using PrefixRange_span [of "Masked p"] s by auto
    moreover have "\<not> Is6 (pfx_addr (Masked p))" using v(2) by (cases "pfx_addr (Masked p)") simp_all
    ultimately show ?thesis using pfx_Contains_span [of "Masked p" "Addr4 a"] v(1)
      by (simp add: span_set_def flip: \<open>span_of sp = _\<close>)
  qed
  show "\<not> pfx_Contains (Masked p) (Addr4 a)" if s: "PrefixRange (Masked p) = None"
    using PrefixRange_span [of "Masked p"] wf_Masked [of p] s
    by (cases "Masked p" rule: wf_prefix.cases) (auto simp: pfx_IsValid_def simp del: wf_Masked)
  show "\<not> pfx_Contains (Masked p) (Addr4 a)" if "\<not> Is4 (pfx_addr p)"
    using that by (cases p rule: Masked.cases) (auto simp: prefix_zero_def)
qed

lemma cut_disputed_correct:
  assumes "normal_ranges cuts" and "normal_ranges parts"
  shows "normal_ranges (fst (cut_disputed cuts parts st))"
    and "points (fst (cut_disputed cuts parts st)) = points parts - points cuts"
proof -
  have a: "range_arg parts" "range_arg cuts" using assms by (simp_all add: range_arg_normal)
  have "points parts \<inter> points cuts = {}" if "cuts = [] \<or> \<not> anyOverlap parts cuts"
    using that anyOverlap_iff [OF assms(1) normal_ranges_wf [OF assms(2)]] by auto
  then show "normal_ranges (fst (cut_disputed cuts parts st))"
    "points (fst (cut_disputed cuts parts st)) = points parts - points cuts"
    using ipset_Subtract_correct [OF a] assms(2) by (auto simp: cut_disputed_def Let_def)
qed

lemma marks_of_parts:
  "marks (map (\<lambda>part. \<lparr>row_Lo = Lo part, row_Hi = Hi part, row_Zone = z\<rparr>) parts) = points parts \<times> {z}"
  by (induction parts) (auto simp: span_set_def)

lemma build_visit_rows:
  "fst (build_visit direct cuts (pfx, rec) st) = fst st @
     (case PrefixRange (Masked pfx) of
        None \<Rightarrow> []
      | Some sp \<Rightarrow>
          if rec ''country_code'' = ''CN'' \<and> Is4 (pfx_addr pfx) \<and> ZoneOf rec \<noteq> [] then
            map (\<lambda>part. \<lparr>row_Lo = Lo part, row_Hi = Hi part, row_Zone = ZoneOf rec\<rparr>)
              (fst (cut_disputed cuts (intersections (Lo sp) (Hi sp) direct) (snd st)))
          else [])"
  by (auto simp: build_visit_def Let_def split: prod.splits option.splits)

lemma build_visit_marks:
  assumes "normal_ranges direct" and "normal_ranges cuts"
  shows "(uint a, z) \<in> marks (fst (build_visit direct cuts visit st)) \<longleftrightarrow>
    (uint a, z) \<in> marks (fst st) \<or>
    record_zone visit a = Some z \<and> uint a \<in> points direct \<and> uint a \<notin> points cuts"
proof (cases visit)
  case (Pair pfx rec)
  note P = PrefixRange_Masked [of pfx]
  show ?thesis
  proof (cases "rec ''country_code'' = ''CN'' \<and> Is4 (pfx_addr pfx) \<and> ZoneOf rec \<noteq> [] \<and> PrefixRange (Masked pfx) \<noteq> None")
    case False
    then have "record_zone visit a = None" using P(3,4) by (auto simp: record_zone_def Pair)
    moreover have "fst (build_visit direct cuts visit st) = fst st"
      using False by (auto simp: build_visit_rows Pair split: option.splits)
    ultimately show ?thesis by simp
  next
    case True
    then obtain sp where sp: "PrefixRange (Masked pfx) = Some sp" by blast
    let ?parts0 = "intersections (Lo sp) (Hi sp) direct"
    let ?parts = "fst (cut_disputed cuts ?parts0 (snd st))"
    have "marks (fst (build_visit direct cuts visit st)) = marks (fst st) \<union> points ?parts \<times> {ZoneOf rec}"
      using True sp by (simp add: build_visit_rows Pair marks_of_parts)
    moreover have "points ?parts = {uint (Lo sp)..uint (Hi sp)} \<inter> points direct - points cuts"
      using cut_disputed_correct(2) [OF assms(2) intersections_correct(1) [OF assms(1)]]
        intersections_correct(2) [OF assms(1)] by simp
    ultimately show ?thesis using True P(2) [OF sp, of a] by (auto simp: record_zone_def Pair)
  qed
qed

lemma build_marks:
  assumes "normal_ranges direct" and "normal_ranges cuts"
  shows "(uint a, z) \<in> marks (fst (fold (build_visit direct cuts) visits st)) \<longleftrightarrow>
    (uint a, z) \<in> marks (fst st) \<or>
    (\<exists>visit \<in> set visits. record_zone visit a = Some z) \<and> uint a \<in> points direct \<and> uint a \<notin> points cuts"
proof (induction visits arbitrary: st)
  case (Cons visit visits)
  show ?case unfolding fold_simps Cons.IH build_visit_marks [OF assms] by auto
qed simp

lemma build_visit_hi:
  assumes "normal_ranges direct" and "normal_ranges cuts" and "uint u32_max \<notin> points direct"
    and "list_all row_ok (fst st)"
  shows "list_all row_ok (fst (build_visit direct cuts visit st))"
proof (cases "fst (build_visit direct cuts visit st) = fst st")
  case False
  obtain pfx rec where v: "visit = (pfx, rec)" by (cases visit)
  from False obtain sp where
    eq: "fst (build_visit direct cuts visit st) = fst st @ map (\<lambda>part. \<lparr>row_Lo = Lo part, row_Hi = Hi part, row_Zone = ZoneOf rec\<rparr>)
      (fst (cut_disputed cuts (intersections (Lo sp) (Hi sp) direct) (snd st)))"
    by (auto simp: build_visit_rows v split: option.splits if_splits)
  let ?parts = "fst (cut_disputed cuts (intersections (Lo sp) (Hi sp) direct) (snd st))"
  have n: "normal_ranges ?parts" and sub: "points ?parts \<subseteq> points direct"
    using cut_disputed_correct [OF assms(2) intersections_correct(1) [OF assms(1)]]
      intersections_correct(2) [OF assms(1)] by auto
  have "Lo p \<le> Hi p \<and> Hi p \<noteq> u32_max" if p: "p \<in> set ?parts" for p
  proof -
    have le: "Lo p \<le> Hi p" using normal_ranges_wf [OF n] p by (auto simp: list_all_iff)
    then have "uint (Hi p) \<in> points ?parts" using p by (auto simp: mem_points)
    with sub assms(3) le show ?thesis by auto
  qed
  then show ?thesis unfolding eq using assms(4) by (auto simp: list_all_iff)
qed (use assms(4) in simp)

lemma build_hi:
  assumes "normal_ranges direct" and "normal_ranges cuts" and "uint u32_max \<notin> points direct"
  shows "list_all row_ok (fst st) \<Longrightarrow> list_all row_ok (fst (fold (build_visit direct cuts) visits st))"
  by (induction visits arbitrary: st) (simp_all add: build_visit_hi [OF assms])

section \<open>The direct intervals\<close>

lemma direct_line_correct:
  "points (direct_line raw) \<inter> nonglobal = {} \<and> wf_ranges (direct_line raw)"
proof (cases "direct_line raw = []")
  case False
  then obtain p r where "PrefixRange (Masked p) = Some r" "direct_line raw = GlobalParts r"
    by (auto simp: direct_line_def Let_def split: if_splits option.splits)
  then show ?thesis using GlobalParts_correct [OF PrefixRange_Masked(1) [of p r]] normal_ranges_wf by auto
qed simp

lemma LoadDirectIntervals_correct:
  assumes "LoadDirectIntervals file = Some direct"
  shows "normal_ranges direct" and "points direct \<inter> nonglobal = {}"
proof -
  obtain data where d: "direct = Collapse (concat (map direct_line (Split (CHR 0x0A) data)))"
    using assms by (auto simp: LoadDirectIntervals_def)
  have "points (concat (map direct_line ls)) \<inter> nonglobal = {} \<and> wf_ranges (concat (map direct_line ls))" for ls
    using direct_line_correct by (induction ls) (auto simp: list_all_iff)
  then show "normal_ranges direct" "points direct \<inter> nonglobal = {}" unfolding d by (simp_all add: Collapse_normal)
qed

lemma broadcast_nonglobal: "uint u32_max \<in> nonglobal"
  unfolding nonglobal_iff by (simp add: nonGlobalPrefixes_def v4_def)

section \<open>Lookups and the publication check\<close>

lemma table_nth:
  assumes "table rows" and "i < j" and "j < length rows"
  shows "row_Hi (rows ! i) < row_Lo (rows ! j)"
  using assms by (auto simp: table_def apart_def sorted_wrt_iff_nth_less)

lemma table_proper: "table rows \<Longrightarrow> i < length rows \<Longrightarrow> row_Lo (rows ! i) \<le> row_Hi (rows ! i)"
  by (auto simp: table_def list_all_length)

lemma Marked_iff:
  assumes t: "table rows"
  shows "Marked rows a \<longleftrightarrow> uint a \<in> marked_points rows"
proof -
  let ?f = "\<lambda>i. row_Lo (rows ! i) > a"
  let ?n = "sort_Search (length rows) ?f"
  have up: "upward (length rows) ?f" unfolding upward_def
  proof (intro allI impI)
    fix i j assume ij: "i \<le> j" "j < length rows" "a < row_Lo (rows ! i)"
    show "a < row_Lo (rows ! j)"
    proof (cases "i = j")
      case False
      then have "row_Hi (rows ! i) < row_Lo (rows ! j)" using table_nth [OF t, of i j] ij by simp
      then show ?thesis using table_proper [OF t, of i] ij by (meson le_less_trans less_trans order_less_le_trans)
    qed (use ij in simp)
  qed
  have le: "?n \<le> length rows" by (rule sort_Search_le)
  have "Marked rows a \<longleftrightarrow> (\<exists>i < length rows. row_Lo (rows ! i) \<le> a \<and> a \<le> row_Hi (rows ! i))"
  proof
    assume "Marked rows a"
    then have n: "0 < ?n" "a \<le> row_Hi (rows ! (?n - 1))" by (simp_all add: Marked_def Let_def)
    moreover from n have "\<not> ?f (?n - 1)" using sort_Search_least(1) [OF up, of "?n - 1"] by simp
    ultimately show "\<exists>i < length rows. row_Lo (rows ! i) \<le> a \<and> a \<le> row_Hi (rows ! i)"
      using le by (intro exI [of _ "?n - 1"]) auto
  next
    assume "\<exists>i < length rows. row_Lo (rows ! i) \<le> a \<and> a \<le> row_Hi (rows ! i)"
    then obtain i where i: "i < length rows" "row_Lo (rows ! i) \<le> a" "a \<le> row_Hi (rows ! i)" by blast
    have "i < ?n" using sort_Search_least(2) [OF up, of i] i(1,2) by (meson leD not_le_imp_less)
    moreover have "\<not> i < ?n - 1"
    proof
      assume "i < ?n - 1"
      then have "row_Hi (rows ! i) < row_Lo (rows ! (?n - 1))" using le by (intro table_nth [OF t]) auto
      moreover have "\<not> ?f (?n - 1)" using sort_Search_least(1) [OF up, of "?n - 1"] \<open>i < ?n\<close> by simp
      ultimately show False using i(3) by simp
    qed
    ultimately have "i = ?n - 1" "0 < ?n" by linarith+
    with i show "Marked rows a" by (simp add: Marked_def Let_def)
  qed
  also have "\<dots> \<longleftrightarrow> uint a \<in> marked_points rows"
    by (auto simp: mem_marked_points in_set_conv_nth word_le_def Bex_def)
  finally show ?thesis .
qed

lemma table_no_overlap: "table rows \<Longrightarrow> FirstOverlap rows = None"
proof -
  assume "table rows"
  then have "sorted_wrt apart rows" by (simp add: table_def)
  then have "overlap_loop i rows = None" for i
    by (induction i rows rule: overlap_loop.induct) (auto simp: apart_def)
  then show ?thesis by (simp add: FirstOverlap_def)
qed

lemma Ranges_normal: "\<forall>t. disputed = Some t \<longrightarrow> set_inv t \<Longrightarrow> normal_ranges (Ranges disputed)"
  by (cases disputed) (auto simp: Ranges_def set_inv_def)

lemma Ranges_points:
  "\<forall>t. disputed = Some t \<longrightarrow> set_inv t \<Longrightarrow> uint a \<in> points (Ranges disputed) \<longleftrightarrow> ContainsUint disputed a"
  by (cases disputed) (auto simp: Ranges_def ContainsUint_iff, simp add: ContainsUint_def)

lemma built_rows:
  assumes "LoadDirectIntervals file = Some direct" and "\<forall>t. disputed = Some t \<longrightarrow> set_inv t"
    and "ecs_Build db direct disputed = (Some rows, stats)"
  shows "\<forall>r \<in> set rows. row_Hi r \<noteq> u32_max"
    and "(uint a, z) \<in> marks rows \<longleftrightarrow> (\<exists>visit \<in> set (db_visits db). record_zone visit a = Some z) \<and>
      uint a \<in> points direct \<and> \<not> ContainsUint disputed a"
proof -
  note d = LoadDirectIntervals_correct [OF assms(1)] and c = Ranges_normal [OF assms(2)]
  have max: "uint u32_max \<notin> points direct" using d(2) broadcast_nonglobal by blast
  have rows: "rows = fst (fold (build_visit direct (Ranges disputed)) (db_visits db) ([], stats_zero))"
    using assms(3) by (auto simp: ecs_Build_def split: if_splits prod.splits)
  show "\<forall>r \<in> set rows. row_Hi r \<noteq> u32_max"
    using build_hi [OF d(1) c max, of "([], stats_zero)"] unfolding rows by (simp add: list_all_iff)
  show "(uint a, z) \<in> marks rows \<longleftrightarrow> (\<exists>visit \<in> set (db_visits db). record_zone visit a = Some z) \<and>
      uint a \<in> points direct \<and> \<not> ContainsUint disputed a"
    unfolding rows build_marks [OF d(1) c] Ranges_points [OF assms(2)] by simp
qed

section \<open>The text form\<close>

definition plain_zone :: "string \<Rightarrow> bool" where
  "plain_zone z \<longleftrightarrow> TrimSpace z = z \<and> CHR '','' \<notin> set z \<and> CHR 0x0A \<notin> set z"

lemma ecs_parseAddr_v4_String: "ecs_parseAddr (v4_String v) = Some v"
  by (simp add: ecs_parseAddr_def TrimSpace_v4_String ParseAddr_v4_String from_octets_octets_4)

definition row_line :: "row \<Rightarrow> string" where
  "row_line r = v4_String (row_Lo r) @ CHR '','' # v4_String (row_Hi r) @ CHR '','' # row_Zone r"

lemma load_row_line:
  assumes "plain_zone (row_Zone r)" and "row_Lo r \<le> row_Hi r"
  shows "load_row (row_line r) = Some r"
proof -
  obtain c s where c: "v4_String (row_Lo r) = c # s" "printable c" by (rule v4_String_Cons)
  have "TrimSpace (row_line r) = row_line r"
    using TrimSpace_append [of c "CHR '',''" "row_Zone r" "s @ CHR '','' # v4_String (row_Hi r)"] assms(1) c
    by (simp add: row_line_def plain_zone_def)
  moreover have "\<not> HasPrefix (row_line r) ''#''" using v4_String_chars(5) [of c "row_Lo r"] c
    by (simp add: row_line_def)
  moreover have "row_line r \<noteq> []" by (simp add: row_line_def)
  moreover have "Split (CHR '','') (row_line r) = [v4_String (row_Lo r), v4_String (row_Hi r), row_Zone r]"
    using assms(1) v4_String_chars unfolding row_line_def plain_zone_def
    by (subst Split_free_append, blast, subst Split_free_append, blast) (simp add: Split_free)
  ultimately show ?thesis using assms by (simp add: load_row_def ecs_parseAddr_v4_String plain_zone_def not_less)
qed

lemma LoadRows_Render_lemma:
  assumes "\<forall>r \<in> set rows. plain_zone (row_Zone r) \<and> row_Lo r \<le> row_Hi r" and "sorted (map row_Lo rows)"
  shows "LoadRows (Some (Render rows)) = Some rows"
proof -
  let ?h = "''# generated by dns-stack ecs-zone''" and ?g = "''# format: start,end,zone''"
  have "Render rows = concat (map (\<lambda>l. l @ [CHR 0x0A]) (?h # ?g # map row_line rows))"
    by (simp add: Render_def render_row_def [abs_def] row_line_def FormatAddr4_eq comp_def)
  moreover have "CHR 0x0A \<notin> set (row_line r)" if "r \<in> set rows" for r
    using that assms(1) v4_String_chars(4) by (fastforce simp: row_line_def plain_zone_def)
  then have "\<forall>l \<in> set (?h # ?g # map row_line rows). CHR 0x0A \<notin> set l" by auto
  ultimately have "Split (CHR 0x0A) (Render rows) = ?h # ?g # map row_line rows @ [[]]"
    by (simp add: Split_lines del: concat.simps list.map)
  moreover have "load_row ?h = None" "load_row ?g = None" "load_row [] = None"
    using TrimSpace_id [of ?h] TrimSpace_id [of ?g] by (simp_all add: load_row_def)
  moreover have "List.map_filter load_row (map row_line rows) = rows"
    using assms(1) by (induction rows) (auto simp: map_filter_simps load_row_line)
  moreover have "List.map_filter f (xs @ ys) = List.map_filter f xs @ List.map_filter f ys" for f :: "string \<Rightarrow> row option" and xs ys
    by (induction xs) (simp_all add: map_filter_simps split: option.split)
  ultimately show ?thesis using assms(2) by (simp add: LoadRows_def map_filter_simps sort_key_id_if_sorted)
qed

lemma no_overlap_sorted:
  assumes "FirstOverlap rows = None" and "\<forall>r \<in> set rows. row_Lo r \<le> row_Hi r"
  shows "sorted (map row_Lo rows)"
proof -
  have "overlap_loop i rows = None \<Longrightarrow> sorted (map row_Lo rows)" for i
    using assms(2)
  proof (induction i rows rule: overlap_loop.induct)
    case (1 i a b rows)
    then have "row_Lo a \<le> row_Lo b" by (auto split: if_splits)
    with 1 show ?case by (auto split: if_splits intro: order_trans)
  qed simp_all
  then show ?thesis using assms(1) by (simp add: FirstOverlap_def)
qed

section \<open>Properties\<close>

text \<open>From the database to the table. For direct intervals loaded from a file and any disputed set, the
  rows built and merged are disjoint and in order. An address is marked exactly when a mainland
  record with a known zone holds it and it is direct and not disputed, and each row carries the
  zone of a record that holds the address.\<close>

theorem zone_table_correct:
  assumes "LoadDirectIntervals file = Some direct"
    and "disputed = None \<or> (\<exists>rs. wf_ranges rs \<and> disputed = Some (New rs))"
    and "ecs_Build db direct disputed = (Some rows, stats)"
  shows "FirstOverlap (fst (MergeRows rows)) = None \<and>
    (\<forall>a. Marked (fst (MergeRows rows)) a \<longleftrightarrow>
       (\<exists>visit \<in> set (db_visits db). record_zone visit a \<noteq> None) \<and> uint a \<in> points direct \<and> \<not> ContainsUint disputed a) \<and>
    (\<forall>r \<in> set (fst (MergeRows rows)). \<forall>a. row_Lo r \<le> a \<and> a \<le> row_Hi r \<longrightarrow>
       (\<exists>visit \<in> set (db_visits db). record_zone visit a = Some (row_Zone r)))"
proof -
  have inv: "\<forall>t. disputed = Some t \<longrightarrow> set_inv t" using assms(2) New_inv by auto
  note b = built_rows [OF assms(1) inv assms(3)]
  note m = MergeRows_correct [OF b(1)]
  have p: "uint a \<in> marked_points rows \<longleftrightarrow> (\<exists>z. (uint a, z) \<in> marks rows)" for a
    by (force simp: marked_points_def)
  have "Marked (fst (MergeRows rows)) a \<longleftrightarrow>
      (\<exists>visit \<in> set (db_visits db). record_zone visit a \<noteq> None) \<and> uint a \<in> points direct \<and> \<not> ContainsUint disputed a" for a
    unfolding Marked_iff [OF m(1)] m(2) p b(2) by auto
  moreover have "\<exists>visit \<in> set (db_visits db). record_zone visit a = Some (row_Zone r)"
    if "r \<in> set (fst (MergeRows rows))" "row_Lo r \<le> a \<and> a \<le> row_Hi r" for r a
  proof -
    have "(uint a, row_Zone r) \<in> marks (fst (MergeRows rows))" using that by (auto simp: mem_marks word_le_def)
    with m(3) b(2) show ?thesis by blast
  qed
  ultimately show ?thesis using table_no_overlap [OF m(1)] by blast
qed

definition sample_db :: ipdb_walk where
  "sample_db = \<lparr>db_opens = True,
     db_visits = [(Prefix (Addr4 16909056) 24, \<lambda>f. if f = ''country_code'' then ''CN''
       else if f = ''region_name'' then bytes [229, 140, 151, 228, 186, 172, 229, 184, 130]
       else if f = ''isp_domain'' then bytes [231, 148, 181, 228, 191, 161] else [])],
     db_walk_ok = True\<rparr>"

theorem zone_table_correct_witness:
  "\<exists>direct rows. LoadDirectIntervals (Some ''1.2.0.0/16'') = Some direct \<and> fst (ecs_Build sample_db direct None) = Some rows \<and>
     FirstOverlap (fst (MergeRows rows)) = None \<and>
     (\<forall>a. Marked (fst (MergeRows rows)) a \<longrightarrow> uint a \<in> points direct)"
proof -
  obtain direct where d: "LoadDirectIntervals (Some ''1.2.0.0/16'') = Some direct"
    by (simp add: LoadDirectIntervals_def)
  obtain rows stats where r: "ecs_Build sample_db direct None = (Some rows, stats)"
  proof (cases "fold (build_visit direct (Ranges None)) (db_visits sample_db) ([], stats_zero)")
    case (Pair rows stats)
    moreover have "db_opens sample_db" "db_walk_ok sample_db" by (simp_all add: sample_db_def)
    ultimately show thesis using that by (simp add: ecs_Build_def)
  qed
  show ?thesis
    using zone_table_correct [OF d _ r] d r by (intro exI [of _ direct] exI [of _ rows]) auto
qed

text \<open>What the publication check lets through is read back unchanged: rendering the rows and loading
  the text gives the same rows, where the zones are free of the separators.\<close>

theorem published_rows_roundtrip:
  assumes "CheckPublishable out rows = None" and "\<forall>r \<in> set rows. row_Lo r \<le> row_Hi r \<and> plain_zone (row_Zone r)"
  shows "LoadRows (Some (Render rows)) = Some rows"
proof (rule LoadRows_Render_lemma)
  have "FirstOverlap rows = None" using assms(1) by (auto simp: CheckPublishable_def Let_def split: if_splits option.splits)
  then show "sorted (map row_Lo rows)" by (rule no_overlap_sorted) (use assms(2) in blast)
qed (use assms(2) in blast)

theorem published_rows_roundtrip_witness:
  "LoadRows (Some (Render [\<lparr>row_Lo = 16777216, row_Hi = 16777471, row_Zone = bytes [229, 140, 151]\<rparr>])) =
     Some [\<lparr>row_Lo = 16777216, row_Hi = 16777471, row_Zone = bytes [229, 140, 151]\<rparr>]"
  by (rule published_rows_roundtrip [of None]) code_simp+

text \<open>A row that ends at the last address makes the sum \<open>last.Hi + 1\<close> wrap to 0. The next
  row is then clipped to start at 0, and the result overlaps and marks addresses no row had.\<close>

theorem MergeRows_wraps:
  "fst (MergeRows [\<lparr>row_Lo = 100, row_Hi = u32_max, row_Zone = ''A''\<rparr>, \<lparr>row_Lo = 200, row_Hi = 300, row_Zone = ''B''\<rparr>]) =
     [\<lparr>row_Lo = 100, row_Hi = u32_max, row_Zone = ''A''\<rparr>, \<lparr>row_Lo = 0, row_Hi = 300, row_Zone = ''B''\<rparr>]"
  by code_simp

end
