(* ===== verification/Geo_Trie.thy ===== *)
theory Geo_Trie
  imports Netip "HOL-Library.Multiset"
begin

text \<open>
  The binary trie that both address databases of package \<open>internal/geoip\<close> are: reading the record
  of a node for a bit, following the bits of an address, and the walk over all the IPv4 networks
  with its explicit stack and its cache. The two readers \<open>MMDB\<close> and \<open>IPDB\<close> supply the records; the
  locale \<open>trie_reader\<close> holds what the walk and the lookup have in common.
\<close>

section \<open>Following the bits of an address\<close>

definition packed_bit :: "u8 list \<Rightarrow> nat \<Rightarrow> nat" where
  "packed_bit packed i = unat (drop_bit (7 - i mod 8) (packed ! (i div 8)) AND 1)"

definition packed_bits :: "u8 list \<Rightarrow> nat \<Rightarrow> nat list" where
  "packed_bits packed bits = map (packed_bit packed) [0..<bits]"

fun descend :: "(int \<Rightarrow> nat \<Rightarrow> 'e + int) \<Rightarrow> int \<Rightarrow> nat list \<Rightarrow> int \<Rightarrow> 'e + int" where
  "descend child nodeCount [] node = Inr node"
| "descend child nodeCount (b # bs) node =
     (if nodeCount \<le> node then Inr node
      else bind_res (child node b) (descend child nodeCount bs))"

section \<open>The walk over the IPv4 networks\<close>

record walk_item =
  wi_node :: int
  wi_prefix :: u32
  wi_depth :: nat

datatype ('e, 'v) walk_error = ReadError 'e | VisitError 'v

text \<open>A Go shift of a 32-bit value; the count \<open>31 - depth\<close> is converted to an unsigned number, so a negative count shifts everything out.\<close>

definition shl32 :: "nat \<Rightarrow> int \<Rightarrow> u32" where
  "shl32 b k = (if k < 0 then 0 else push_bit (nat k) (word_of_nat b))"

definition child_value :: "walk_item \<Rightarrow> nat \<Rightarrow> u32" where
  "child_value it b = wi_prefix it OR shl32 b (31 - int (wi_depth it))"

definition child_prefix :: "walk_item \<Rightarrow> nat \<Rightarrow> prefix" where
  "child_prefix it b = PrefixFrom (Addr4 (child_value it b)) (int (wi_depth it) + 1)"

type_synonym ('p, 's) walk_state = "walk_item list \<times> (int \<rightharpoonup> 'p) \<times> 's"

text \<open>
  One round of the inner loop, for the bit \<open>b\<close>: the stack (its top first), the cache of the
  payloads already decoded and the state of the visitor. \<open>payload\<close> decodes the data of a leaf and
  \<open>absent\<close> tells the payloads that are not reported.
\<close>

definition walk_child ::
  "(int \<Rightarrow> nat \<Rightarrow> 'e + int) \<Rightarrow> int \<Rightarrow> (int \<Rightarrow> 'p) \<Rightarrow> ('p \<Rightarrow> bool) \<Rightarrow>
   (prefix \<Rightarrow> 'p \<Rightarrow> 's \<Rightarrow> 'v option \<times> 's) \<Rightarrow> walk_item \<Rightarrow> nat \<Rightarrow> ('p, 's) walk_state \<Rightarrow>
   (('e, 'v) walk_error \<times> 's) + ('p, 's) walk_state" where
  "walk_child child nodeCount payload absent visit it b = (\<lambda>(stack, cache, s).
     case child (wi_node it) b of
       Inl e \<Rightarrow> Inl (ReadError e, s)
     | Inr c \<Rightarrow>
         if c < nodeCount then
           Inr (\<lparr>wi_node = c, wi_prefix = child_value it b, wi_depth = wi_depth it + 1\<rparr> # stack, cache, s)
         else if c = nodeCount then Inr (stack, cache, s)
         else
           let (p, cache) = (case cache c of Some p \<Rightarrow> (p, cache) | None \<Rightarrow> (payload c, cache(c \<mapsto> payload c))) in
           if absent p then Inr (stack, cache, s)
           else case visit (child_prefix it b) p s of
             (Some e, s) \<Rightarrow> Inl (VisitError e, s)
           | (None, s) \<Rightarrow> Inr (stack, cache, s))"

definition item_weight :: "walk_item \<Rightarrow> nat" where
  "item_weight it = 3 ^ (34 - wi_depth it)"

definition stack_weight :: "walk_item list \<Rightarrow> nat" where
  "stack_weight st = sum_list (map item_weight st)"

lemma stack_weight_Cons [simp]: "stack_weight (it # st) = item_weight it + stack_weight st"
  by (simp add: stack_weight_def)

lemma walk_child_weight:
  assumes "walk_child child n payload absent visit it b (st, cache, s) = Inr (st', cache', s')"
  shows "stack_weight st' \<le> stack_weight st + 3 ^ (33 - wi_depth it)"
  using assms
  by (auto simp: walk_child_def item_weight_def Let_def split: sum.splits if_splits option.splits prod.splits)

lemma item_weight_step: "\<not> 32 < wi_depth it \<Longrightarrow> 2 * 3 ^ (33 - wi_depth it) < item_weight it"
proof -
  assume "\<not> 32 < wi_depth it"
  then have "34 - wi_depth it = Suc (33 - wi_depth it)" by simp
  then show ?thesis by (simp add: item_weight_def)
qed

function walk_loop ::
  "(int \<Rightarrow> nat \<Rightarrow> 'e + int) \<Rightarrow> int \<Rightarrow> (int \<Rightarrow> 'p) \<Rightarrow> ('p \<Rightarrow> bool) \<Rightarrow>
   (prefix \<Rightarrow> 'p \<Rightarrow> 's \<Rightarrow> 'v option \<times> 's) \<Rightarrow> ('p, 's) walk_state \<Rightarrow>
   ('e, 'v) walk_error option \<times> 's" where
  "walk_loop child nodeCount payload absent visit ([], cache, s) = (None, s)"
| "walk_loop child nodeCount payload absent visit (it # stack, cache, s) =
     (if 32 < wi_depth it then walk_loop child nodeCount payload absent visit (stack, cache, s)
      else case walk_child child nodeCount payload absent visit it 1 (stack, cache, s) of
        Inl (e, s) \<Rightarrow> (Some e, s)
      | Inr st \<Rightarrow>
          case walk_child child nodeCount payload absent visit it 0 st of
            Inl (e, s) \<Rightarrow> (Some e, s)
          | Inr st \<Rightarrow> walk_loop child nodeCount payload absent visit st)"
  by pat_completeness auto
termination
proof (relation "measure (\<lambda>(child, n, payload, absent, visit, st). stack_weight (fst st))", goal_cases)
  case 1
  show ?case by simp
next
  case (2 child n payload absent visit it stack cache s)
  then show ?case by (simp add: item_weight_def)
next
  case (3 child n payload absent visit it stack cache s st1 st2)
  obtain a1 b1 c1 where st1: "st1 = (a1, b1, c1)" by (cases st1)
  obtain a2 b2 c2 where st2: "st2 = (a2, b2, c2)" by (cases st2)
  have "stack_weight a1 \<le> stack_weight stack + 3 ^ (33 - wi_depth it)"
    using 3(2) unfolding st1 by (rule walk_child_weight)
  moreover have "stack_weight a2 \<le> stack_weight a1 + 3 ^ (33 - wi_depth it)"
    using 3(3) unfolding st1 st2 by (rule walk_child_weight)
  ultimately show ?case using item_weight_step [OF 3(1)] by (simp add: st2)
qed

declare walk_loop.simps(2) [simp del]

text \<open>The visitor that records what it is called with.\<close>

definition record_visit :: "prefix \<Rightarrow> 'p \<Rightarrow> (prefix \<times> 'p) list \<Rightarrow> unit option \<times> (prefix \<times> 'p) list" where
  "record_visit p x visited = (None, visited @ [(p, x)])"

section \<open>What the walk reports\<close>

text \<open>
  The reports below an item, without stack or cache: \<open>k\<close> is the number of levels left. The walk
  reports the same networks in another order.
\<close>

fun reports :: "(int \<Rightarrow> nat \<Rightarrow> 'e + int) \<Rightarrow> int \<Rightarrow> (int \<Rightarrow> 'p) \<Rightarrow> ('p \<Rightarrow> bool) \<Rightarrow> nat \<Rightarrow> walk_item \<Rightarrow> (prefix \<times> 'p) list"
  and child_reports :: "(int \<Rightarrow> nat \<Rightarrow> 'e + int) \<Rightarrow> int \<Rightarrow> (int \<Rightarrow> 'p) \<Rightarrow> ('p \<Rightarrow> bool) \<Rightarrow> nat \<Rightarrow> walk_item \<Rightarrow> nat \<Rightarrow> (prefix \<times> 'p) list" where
  "reports child n payload absent 0 it = []"
| "reports child n payload absent (Suc k) it =
     child_reports child n payload absent k it 1 @ child_reports child n payload absent k it 0"
| "child_reports child n payload absent k it b =
     (case child (wi_node it) b of
        Inl e \<Rightarrow> []
      | Inr c \<Rightarrow>
          if c < n then
            reports child n payload absent k \<lparr>wi_node = c, wi_prefix = child_value it b, wi_depth = wi_depth it + 1\<rparr>
          else if c = n \<or> absent (payload c) then []
          else [(child_prefix it b, payload c)])"

text \<open>The walk reports what lies below the items of its stack, each network once.\<close>

definition cache_ok :: "(int \<Rightarrow> 'p) \<Rightarrow> (int \<rightharpoonup> 'p) \<Rightarrow> bool" where
  "cache_ok payload cache \<longleftrightarrow> (\<forall>c p. cache c = Some p \<longrightarrow> p = payload c)"

definition pending ::
  "(int \<Rightarrow> nat \<Rightarrow> 'e + int) \<Rightarrow> int \<Rightarrow> (int \<Rightarrow> 'p) \<Rightarrow> ('p \<Rightarrow> bool) \<Rightarrow> walk_item list \<Rightarrow> (prefix \<times> 'p) multiset" where
  "pending child n payload absent st =
     sum_list (map (\<lambda>it. mset (reports child n payload absent (33 - wi_depth it) it)) st)"

lemma pending_simps [simp]:
  "pending child n payload absent [] = {#}"
  "pending child n payload absent (it # st) =
     mset (reports child n payload absent (33 - wi_depth it) it) + pending child n payload absent st"
  by (simp_all add: pending_def)

lemma walk_child_record:
  assumes "walk_child child n payload absent record_visit it b (st, cache, vs) = Inr (st', cache', vs')"
    and "cache_ok payload cache" and "wi_depth it \<le> 32"
  shows "cache_ok payload cache' \<and>
    pending child n payload absent st' + mset vs' =
      pending child n payload absent st + mset vs +
        mset (child_reports child n payload absent (32 - wi_depth it) it b)"
proof (cases "child (wi_node it) b")
  case (Inl e)
  with assms(1) show ?thesis by (simp add: walk_child_def)
next
  case (Inr c)
  consider "c < n" | "c = n" | "n < c" by linarith
  then show ?thesis
  proof cases
    case 3
    define p where "p = payload c"
    have "(case cache c of Some p \<Rightarrow> (p, cache) | None \<Rightarrow> (payload c, cache(c \<mapsto> payload c))) =
        (p, if cache c = None then cache(c \<mapsto> p) else cache)"
      using assms(2) by (auto simp: cache_ok_def p_def split: option.split)
    with 3 assms show ?thesis
      by (auto simp: walk_child_def Inr record_visit_def cache_ok_def p_def split: if_splits)
  qed (use assms in \<open>auto simp: walk_child_def Inr\<close>)
qed

lemma walk_loop_ConsE:
  assumes "walk_loop child n payload absent visit (it # st, cache, s) = (None, s')"
    and "\<not> 32 < wi_depth it"
  obtains st1 c1 s1 st2 c2 s2 where
    "walk_child child n payload absent visit it 1 (st, cache, s) = Inr (st1, c1, s1)"
    "walk_child child n payload absent visit it 0 (st1, c1, s1) = Inr (st2, c2, s2)"
    "walk_loop child n payload absent visit (st2, c2, s2) = (None, s')"
proof (cases "walk_child child n payload absent visit it 1 (st, cache, s)")
  case (Inl e)
  with assms show thesis by (cases e) (simp add: walk_loop.simps(2))
next
  case 1: (Inr t)
  show thesis
  proof (cases "walk_child child n payload absent visit it 0 t")
    case (Inl e)
    with assms 1 show thesis by (cases e) (simp add: walk_loop.simps(2))
  next
    case (Inr t')
    obtain st1 c1 s1 where t: "t = (st1, c1, s1)" by (cases t)
    obtain st2 c2 s2 where t': "t' = (st2, c2, s2)" by (cases t')
    show thesis
      by (rule that [of st1 c1 s1 st2 c2 s2]) (use assms 1 Inr in \<open>simp_all add: t t' walk_loop.simps(2)\<close>)
  qed
qed

lemma walk_loop_record:
  assumes "walk_loop child n payload absent record_visit (st, cache, vs) = (None, vs')"
    and "cache_ok payload cache"
  shows "mset vs' = mset vs + pending child n payload absent st"
  using assms
proof (induction "stack_weight st" arbitrary: st cache vs rule: less_induct)
  case less
  show ?case
  proof (cases st)
    case Nil
    with less.prems show ?thesis by simp
  next
    case (Cons it rest)
    show ?thesis
    proof (cases "32 < wi_depth it")
      case True
      have "mset vs' = mset vs + pending child n payload absent rest"
        by (rule less.hyps [of rest cache])
          (use less.prems True in \<open>simp_all add: Cons walk_loop.simps(2) item_weight_def\<close>)
      then show ?thesis using True by (simp add: Cons)
    next
      case False
      obtain st1 c1 v1 st2 c2 v2 where
        1: "walk_child child n payload absent record_visit it 1 (rest, cache, vs) = Inr (st1, c1, v1)" and
        2: "walk_child child n payload absent record_visit it 0 (st1, c1, v1) = Inr (st2, c2, v2)" and
        3: "walk_loop child n payload absent record_visit (st2, c2, v2) = (None, vs')"
        using less.prems(1) False unfolding Cons by (rule walk_loop_ConsE)
      from walk_child_record [OF 1 less.prems(2)] False
      have r1: "cache_ok payload c1"
        "pending child n payload absent st1 + mset v1 = pending child n payload absent rest + mset vs +
          mset (child_reports child n payload absent (32 - wi_depth it) it 1)" by auto
      from walk_child_record [OF 2 r1(1)] False
      have r2: "cache_ok payload c2"
        "pending child n payload absent st2 + mset v2 = pending child n payload absent st1 + mset v1 +
          mset (child_reports child n payload absent (32 - wi_depth it) it 0)" by auto
      have "stack_weight st2 < stack_weight st"
        using walk_child_weight [OF 1] walk_child_weight [OF 2] item_weight_step [OF False] by (simp add: Cons)
      from less.hyps [OF this 3 r2(1)] have "mset vs' = pending child n payload absent st2 + mset v2"
        by (simp add: add.commute)
      moreover have "33 - wi_depth it = Suc (32 - wi_depth it)" using False by simp
      ultimately show ?thesis using r1(2) r2(2) by (simp add: Cons ac_simps)
    qed
  qed
qed

section \<open>The reports below an item cover the addresses its lookup finds\<close>

definition addr_bits :: "u32 \<Rightarrow> nat list" where
  "addr_bits w = map (\<lambda>i. of_bool (bit w (31 - i))) [0..<32]"

definition agree :: "nat \<Rightarrow> u32 \<Rightarrow> u32 \<Rightarrow> bool" where
  "agree d v w \<longleftrightarrow> (\<forall>j < 32. 32 - d \<le> j \<longrightarrow> bit v j = bit w j)"

definition aligned :: "nat \<Rightarrow> u32 \<Rightarrow> bool" where
  "aligned d v \<longleftrightarrow> (\<forall>j < 32 - d. \<not> bit v j)"

definition found :: "int \<Rightarrow> (int \<Rightarrow> 'p) \<Rightarrow> ('p \<Rightarrow> bool) \<Rightarrow> 'e + int \<Rightarrow> 'p list" where
  "found n payload absent r =
     (case r of Inl _ \<Rightarrow> [] | Inr m \<Rightarrow> if n < m \<and> \<not> absent (payload m) then [payload m] else [])"

definition holding :: "u32 \<Rightarrow> (prefix \<times> 'p) list \<Rightarrow> 'p list" where
  "holding w vs = map snd (filter (\<lambda>(p, _). pfx_Contains p (Addr4 w)) vs)"

lemma holding_append [simp]: "holding w (xs @ ys) = holding w xs @ holding w ys"
  by (simp add: holding_def)

lemma addr_bits_drop: "d < 32 \<Longrightarrow> drop d (addr_bits w) = of_bool (bit w (31 - d)) # drop (Suc d) (addr_bits w)"
  by (subst Cons_nth_drop_Suc [symmetric]) (simp_all add: addr_bits_def)

lemma agree_0 [simp]: "agree 0 v w"
  by (simp add: agree_def)

lemma contains_agree:
  assumes "d \<le> 32"
  shows "pfx_Contains (PrefixFrom (Addr4 v) (int d)) (Addr4 w) \<longleftrightarrow> agree d v w"
proof -
  have eq: "x = y \<longleftrightarrow> (\<forall>j < 32. bit x j = bit y j)" for x y :: u32
    by (auto intro: bit_word_eqI)
  have "drop_bit (32 - d) (w XOR v) = 0 \<longleftrightarrow> agree d v w"
    unfolding drop_xor_iff unfolding eq agree_def by (auto simp: bit_simps)
  then show ?thesis using assms by (simp add: PrefixFrom_def)
qed

lemma child_value_bit:
  assumes "wi_depth it < 32" and "b \<le> 1"
  shows "bit (child_value it b) j \<longleftrightarrow> bit (wi_prefix it) j \<or> j = 31 - wi_depth it \<and> b = 1"
proof -
  have "nat (31 - int (wi_depth it)) = 31 - wi_depth it" by simp
  moreover have "b = 0 \<or> b = 1" using assms(2) by auto
  ultimately show ?thesis using assms(1)
    by (auto simp: child_value_def shl32_def bit_simps)
qed

lemma child_value_agree:
  assumes "wi_depth it < 32" and "b \<le> 1" and "aligned (wi_depth it) (wi_prefix it)"
  shows "agree (Suc (wi_depth it)) (child_value it b) w \<longleftrightarrow>
    agree (wi_depth it) (wi_prefix it) w \<and> bit w (31 - wi_depth it) = (b = 1)"
proof -
  have no: "\<not> bit (wi_prefix it) (31 - wi_depth it)" using assms(1,3) by (simp add: aligned_def)
  have split: "j < 32 \<and> 32 - Suc (wi_depth it) \<le> j \<longleftrightarrow> j = 31 - wi_depth it \<or> j < 32 \<and> 32 - wi_depth it \<le> j" for j
    using assms(1) by auto
  have "agree (Suc (wi_depth it)) (child_value it b) w \<longleftrightarrow>
      (\<forall>j. j < 32 \<and> 32 - Suc (wi_depth it) \<le> j \<longrightarrow> bit (child_value it b) j = bit w j)"
    by (auto simp: agree_def)
  also have "\<dots> \<longleftrightarrow> bit w (31 - wi_depth it) = (b = 1) \<and>
      (\<forall>j. j < 32 \<and> 32 - wi_depth it \<le> j \<longrightarrow> bit (child_value it b) j = bit w j)"
    unfolding split using no by (auto simp: child_value_bit [OF assms(1,2)])
  also have "(\<forall>j. j < 32 \<and> 32 - wi_depth it \<le> j \<longrightarrow> bit (child_value it b) j = bit w j) \<longleftrightarrow>
      agree (wi_depth it) (wi_prefix it) w"
    using assms(1) by (auto simp: agree_def child_value_bit [OF assms(1,2)])
  finally show ?thesis by auto
qed

lemma child_value_aligned:
  "wi_depth it < 32 \<Longrightarrow> b \<le> 1 \<Longrightarrow> aligned (wi_depth it) (wi_prefix it) \<Longrightarrow>
   aligned (Suc (wi_depth it)) (child_value it b)"
  by (auto simp: aligned_def child_value_bit)

lemma agree_SucD: "agree (Suc d) v w \<Longrightarrow> agree d v w"
  by (auto simp: agree_def)

lemma reports_holding:
  assumes "wi_node it < n" and "wi_depth it \<le> 32" and "aligned (wi_depth it) (wi_prefix it)"
  shows "holding w (reports child n payload absent (33 - wi_depth it) it) =
    (if agree (wi_depth it) (wi_prefix it) w
     then found n payload absent (descend child n (drop (wi_depth it) (addr_bits w)) (wi_node it)) else [])"
  using assms
proof (induction "32 - wi_depth it" arbitrary: it)
  case 0
  then have d: "wi_depth it = 32" by simp
  have "\<not> pfx_Contains (child_prefix it b) (Addr4 w)" for b
    by (simp add: child_prefix_def PrefixFrom_def d)
  then have "holding w (child_reports child n payload absent 0 it b) = []" for b
    by (simp add: holding_def split: sum.split)
  with 0 d show ?case by (simp add: found_def addr_bits_def)
next
  case (Suc k)
  then have d: "wi_depth it < 32" and k: "32 - wi_depth it = Suc k" "33 - wi_depth it = Suc (Suc k)" by auto
  let ?f = "\<lambda>b. found n payload absent
    (bind_res (child (wi_node it) b) (descend child n (drop (Suc (wi_depth it)) (addr_bits w))))"
  have step: "holding w (child_reports child n payload absent (Suc k) it b) =
      (if agree (wi_depth it) (wi_prefix it) w \<and> bit w (31 - wi_depth it) = (b = 1) then ?f b else [])"
    if b: "b \<le> 1" for b
  proof (cases "child (wi_node it) b")
    case (Inl e)
    then show ?thesis by (simp add: holding_def found_def)
  next
    case (Inr c)
    note agree = child_value_agree [OF d b Suc.prems(3), of w]
    show ?thesis
    proof (cases "c < n")
      case True
      let ?it = "\<lparr>wi_node = c, wi_prefix = child_value it b, wi_depth = wi_depth it + 1\<rparr>"
      have "holding w (reports child n payload absent (33 - wi_depth ?it) ?it) =
        (if agree (wi_depth ?it) (wi_prefix ?it) w
         then found n payload absent (descend child n (drop (wi_depth ?it) (addr_bits w)) (wi_node ?it)) else [])"
        by (rule Suc.hyps(1)) (use k d True child_value_aligned [OF d b Suc.prems(3)] in auto)
      moreover have "33 - wi_depth ?it = Suc k" using k by simp
      ultimately show ?thesis using True Inr agree by simp
    next
      case False
      have pc: "pfx_Contains (child_prefix it b) (Addr4 w) \<longleftrightarrow>
          agree (wi_depth it) (wi_prefix it) w \<and> bit w (31 - wi_depth it) = (b = 1)"
        using contains_agree [of "Suc (wi_depth it)" "child_value it b" w] d agree
        by (simp add: child_prefix_def add.commute)
      have "descend child n bs c = Inr c" for bs using False by (cases bs) auto
      then show ?thesis using False Inr pc by (auto simp: holding_def found_def)
    qed
  qed
  have "found n payload absent (descend child n (drop (wi_depth it) (addr_bits w)) (wi_node it)) =
      ?f (of_bool (bit w (31 - wi_depth it)))"
    using Suc.prems(1) by (simp add: addr_bits_drop [OF d])
  moreover have "holding w (reports child n payload absent (33 - wi_depth it) it) =
      holding w (child_reports child n payload absent (Suc k) it 1) @
      holding w (child_reports child n payload absent (Suc k) it 0)"
    by (simp add: k(2))
  ultimately show ?case by (simp add: step del: child_reports.simps)
qed

lemma reports_v4:
  "(p, x) \<in> set (reports child n payload absent k it) \<Longrightarrow> \<exists>v b. p = PrefixFrom (Addr4 v) b"
  "(p, x) \<in> set (child_reports child n payload absent k it b) \<Longrightarrow> \<exists>v b. p = PrefixFrom (Addr4 v) b"
proof (induction child n payload absent k it and child n payload absent k it b rule: reports_child_reports.induct)
  case (3 child n payload absent k it b)
  show ?case
  proof (cases "child (wi_node it) b")
    case (Inl e)
    then show ?thesis using 3(2) by simp
  next
    case (Inr c)
    show ?thesis
    proof (cases "c < n")
      case True
      then show ?thesis using 3(1) [OF Inr True] 3(2) Inr by simp
    next
      case False
      then show ?thesis using 3(2) Inr by (auto simp: child_prefix_def split: if_splits)
    qed
  qed
qed auto

section \<open>A visitor sees what the recording one records\<close>

fun visit_all :: "(prefix \<Rightarrow> 'p \<Rightarrow> 's \<Rightarrow> 'v option \<times> 's) \<Rightarrow> (prefix \<times> 'p) list \<Rightarrow> 's \<Rightarrow> 'v option \<times> 's" where
  "visit_all visit [] s = (None, s)"
| "visit_all visit ((p, x) # vs) s =
     (case visit p x s of (Some e, s) \<Rightarrow> (Some e, s) | (None, s) \<Rightarrow> visit_all visit vs s)"

lemma visit_all_append:
  "visit_all visit (xs @ ys) s =
     (case visit_all visit xs s of (Some e, s) \<Rightarrow> (Some e, s) | (None, s) \<Rightarrow> visit_all visit ys s)"
  by (induction visit xs s rule: visit_all.induct) (auto split: prod.splits option.splits)

lemma walk_child_visit:
  obtains (fails) x where "\<And>vs. walk_child child n payload absent record_visit it b (st, cache, vs) = Inl (ReadError x, vs)"
      and "\<And>s. walk_child child n payload absent visit it b (st, cache, s) = Inl (ReadError x, s)"
  | (goes) st' cache' seen where
      "\<And>vs. walk_child child n payload absent record_visit it b (st, cache, vs) = Inr (st', cache', vs @ seen)"
      and "\<And>s. walk_child child n payload absent visit it b (st, cache, s) =
        (case visit_all visit seen s of (Some v, s) \<Rightarrow> Inl (VisitError v, s) | (None, s) \<Rightarrow> Inr (st', cache', s))"
proof (cases "child (wi_node it) b")
  case (Inl e)
  then show thesis by (intro fails [of e]) (simp_all add: walk_child_def)
next
  case (Inr c)
  consider "c < n" | "c = n" | "n < c" by linarith
  then show thesis
  proof cases
    case 1
    with Inr show thesis by (intro goes [where seen = "[]"]) (simp_all add: walk_child_def)
  next
    case 2
    with Inr show thesis by (intro goes [where seen = "[]"]) (simp_all add: walk_child_def)
  next
    case 3
    obtain p cache' where pc: "(case cache c of Some p \<Rightarrow> (p, cache) | None \<Rightarrow> (payload c, cache(c \<mapsto> payload c))) = (p, cache')"
      by (cases "case cache c of Some p \<Rightarrow> (p, cache) | None \<Rightarrow> (payload c, cache(c \<mapsto> payload c))")
    show thesis
    proof (cases "absent p")
      case True
      with Inr 3 pc show thesis by (intro goes [where seen = "[]"]) (simp_all add: walk_child_def)
    next
      case False
      with Inr 3 pc show thesis
        by (intro goes [where seen = "[(child_prefix it b, p)]"])
          (auto simp: walk_child_def record_visit_def split: prod.splits option.splits)
    qed
  qed
qed

lemma walk_loop_visit:
  "\<exists>seen e. (\<forall>vs. walk_loop child n payload absent record_visit (st, cache, vs) =
        (map_option ReadError e, vs @ seen)) \<and>
     (\<forall>s. walk_loop child n payload absent visit (st, cache, s) =
        (case visit_all visit seen s of
           (Some v, s) \<Rightarrow> (Some (VisitError v), s) | (None, s) \<Rightarrow> (map_option ReadError e, s)))"
proof (induction "stack_weight st" arbitrary: st cache rule: less_induct)
  case less
  show ?case
  proof (cases st)
    case Nil
    then show ?thesis by (intro exI [of _ "[]"] exI [of _ None]) simp
  next
    case (Cons it rest)
    show ?thesis
    proof (cases "32 < wi_depth it")
      case True
      have "stack_weight rest < stack_weight st" by (simp add: Cons item_weight_def)
      from less.hyps [OF this, of cache] show ?thesis using True by (simp add: Cons walk_loop.simps(2))
    next
      case d: False
      show ?thesis
      proof (cases rule: walk_child_visit [where child = child and n = n and payload = payload and absent = absent and it = it and b = 1 and st = rest and cache = cache and visit = visit])
        case (fails x)
        note fails [unfolded One_nat_def, simp]
        show ?thesis
          by (intro exI [of _ "[]"] exI [of _ "Some x"]) (simp add: Cons walk_loop.simps(2) d)
      next
        case first: (goes st1 c1 seen1)
        note first' = first [unfolded One_nat_def]
        show ?thesis
        proof (cases rule: walk_child_visit [where child = child and n = n and payload = payload and absent = absent and it = it and b = 0 and st = st1 and cache = c1 and visit = visit])
          case (fails x)
          with first' show ?thesis
            by (intro exI [of _ seen1] exI [of _ "Some x"])
              (simp add: Cons walk_loop.simps(2) d split: prod.splits option.splits)
        next
          case second: (goes st2 c2 seen2)
          have "stack_weight st2 < stack_weight st"
            using walk_child_weight [OF first(1)] walk_child_weight [OF second(1)] item_weight_step [OF d]
            by (simp add: Cons)
          from less.hyps [OF this, of c2] obtain seen3 e where
            rec: "\<And>vs. walk_loop child n payload absent record_visit (st2, c2, vs) =
              (map_option ReadError e, vs @ seen3)" and
            vis: "\<And>s. walk_loop child n payload absent visit (st2, c2, s) =
              (case visit_all visit seen3 s of
                 (Some v, s) \<Rightarrow> (Some (VisitError v), s) | (None, s) \<Rightarrow> (map_option ReadError e, s))"
            by auto
          show ?thesis
            by (intro exI [of _ "seen1 @ seen2 @ seen3"] exI [of _ e])
              (auto simp: Cons walk_loop.simps(2) d first' second rec vis visit_all_append
                split: prod.splits option.splits)
        qed
      qed
    qed
  qed
qed

section \<open>The contract of a reader\<close>

text \<open>
  A reader gives the record of a node, the root of its IPv4 networks and the decoded data of a
  leaf. Its lookup follows the bits of the address from that root; its walk starts there. Where the
  root is a node of the tree (\<open>usable\<close>), the networks the walk reports for an address are exactly
  what the lookup finds: one or none.
\<close>

definition walk_start :: "int \<Rightarrow> 's \<Rightarrow> ('p, 's) walk_state" where
  "walk_start root s = ([\<lparr>wi_node = root, wi_prefix = 0, wi_depth = 0\<rparr>], Map.empty, s)"

locale trie_reader =
  fixes child :: "'r \<Rightarrow> int \<Rightarrow> nat \<Rightarrow> 'e + int"
    and node_count :: "'r \<Rightarrow> int"
    and root4 :: "'r \<Rightarrow> int"
    and payload :: "'r \<Rightarrow> int \<Rightarrow> 'p"
    and absent :: "'p \<Rightarrow> bool"
    and usable :: "'r \<Rightarrow> bool"
    and lookup4 :: "'r \<Rightarrow> u32 \<Rightarrow> 'p list"
    and walk4 :: "'r \<Rightarrow> ('e, unit) walk_error option \<times> (prefix \<times> 'p) list"
  assumes usable_root: "usable r \<Longrightarrow> root4 r < node_count r"
    and lookup_descends: "usable r \<Longrightarrow>
      lookup4 r w = found (node_count r) (payload r) absent
        (descend (child r) (node_count r) (addr_bits w) (root4 r))"
    and walk_runs: "usable r \<Longrightarrow>
      walk4 r = walk_loop (child r) (node_count r) (payload r) absent record_visit (walk_start (root4 r) [])"
begin

lemma walk_reports_mset:
  assumes "usable r" and "walk4 r = (None, vs)"
  shows "mset vs = mset (reports (child r) (node_count r) (payload r) absent 33
    \<lparr>wi_node = root4 r, wi_prefix = 0, wi_depth = 0\<rparr>)"
proof -
  have "mset vs = mset [] + pending (child r) (node_count r) (payload r) absent
      [\<lparr>wi_node = root4 r, wi_prefix = 0, wi_depth = 0\<rparr>]"
  proof (rule walk_loop_record)
    show "walk_loop (child r) (node_count r) (payload r) absent record_visit
        ([\<lparr>wi_node = root4 r, wi_prefix = 0, wi_depth = 0\<rparr>], Map.empty, []) = (None, vs)"
      using walk_runs [OF assms(1)] assms(2) by (simp only: walk_start_def)
    show "cache_ok (payload r) Map.empty" by (simp add: cache_ok_def)
  qed
  then show ?thesis by simp
qed

lemma walk_reports_lookup:
  assumes "usable r" and "walk4 r = (None, vs)"
  shows "holding w vs = lookup4 r w"
proof -
  let ?it = "\<lparr>wi_node = root4 r, wi_prefix = 0, wi_depth = 0\<rparr>"
  let ?rs = "reports (child r) (node_count r) (payload r) absent 33 ?it"
  have "mset vs = mset ?rs" by (rule walk_reports_mset [OF assms])
  then have "mset (holding w vs) = mset (holding w ?rs)"
    by (simp add: holding_def mset_filter)
  also have "holding w ?rs = lookup4 r w"
    using reports_holding [of ?it "node_count r" w "child r" "payload r" absent]
    by (simp add: usable_root [OF assms(1)] aligned_def lookup_descends [OF assms(1)])
  finally have m: "mset (holding w vs) = mset (lookup4 r w)" .
  have "lookup4 r w = [] \<or> (\<exists>x. lookup4 r w = [x])"
    by (auto simp: lookup_descends [OF assms(1)] found_def split: sum.splits)
  with m show ?thesis by auto
qed

lemma walk_reports_v4:
  assumes "usable r" and "walk4 r = (None, vs)" and "(p, x) \<in> set vs"
  shows "\<exists>v b. p = PrefixFrom (Addr4 v) b"
  using reports_v4(1) assms(3) walk_reports_mset [OF assms(1,2)] by (metis set_mset_mset)

lemma walk_reports_once:
  assumes "usable r" and "walk4 r = (None, vs)"
  shows "length (holding w vs) \<le> 1"
  by (simp add: walk_reports_lookup [OF assms] lookup_descends [OF assms(1)] found_def split: sum.split)

end

end
