(* ===== verification/MMDB.thy ===== *)
theory MMDB
  imports Geo_Trie DNS_Wire "HOL-Library.AList"
begin

text \<open>
  Package \<open>internal/geoip\<close>: the reader of MaxMind databases. The file is a list of octets; the
  system calls that open, measure and map it are the argument \<open>db_file\<close>. A Go \<open>int\<close> has 64 bits:
  sums and products of numbers taken from the file wrap around (\<open>go_int\<close>), while an offset inside
  the buffer plus the size of a value does not leave the range. A Go map is an association list
  with distinct keys. Errors are values of \<open>geo_error\<close>, one for each message.
\<close>

unbundle bit_operations_syntax

section \<open>Values of unknown type\<close>

datatype any =
  ANil | AString string | AFloat64 u64 | ABytes "u8 list" | AUint64 u64 | AInt64 u64 | AInt int
  | ABool bool | ANumber string | AMap "(string \<times> any) list" | AArray "any list"

text \<open>
  The conversion of a 64-bit float (its bits) to \<open>int\<close> drops the fraction. What it gives for a
  number outside the range of \<open>int\<close> is left open by the language; it is the smallest \<open>int\<close> on amd64.
\<close>

definition float_int :: "u64 \<Rightarrow> int" where
  "float_int w =
     (let e = unat (drop_bit 52 w AND 0x7ff); m = unat (w AND mask 52);
          sig = (if e = 0 then m else 2 ^ 52 + m);
          ex = int (max e 1) - 1075;
          mag = (if 0 \<le> ex then int sig * 2 ^ nat ex else int sig div 2 ^ nat (- ex));
          v = (if bit w 63 then - mag else mag)
      in if e = 0x7ff \<or> v < - (2 ^ 63) \<or> 2 ^ 63 \<le> v then - (2 ^ 63) else v)"

text \<open>The bits of the 64-bit float with the value of a 32-bit one; a NaN becomes quiet.\<close>

fun top_bit :: "nat \<Rightarrow> nat" where
  "top_bit n = (if n < 2 then 0 else Suc (top_bit (n div 2)))"

declare top_bit.simps [simp del]

definition float_widen :: "u32 \<Rightarrow> u64" where
  "float_widen w =
     (let e = unat (drop_bit 23 w AND 0xff); m = unat (w AND mask 23);
          body =
            (if e = 0xff then push_bit 52 0x7ff OR push_bit 29 (word_of_nat m) OR (if m = 0 then 0 else push_bit 51 1)
             else if e = 0 then
               if m = 0 then 0
               else push_bit 52 (word_of_nat (top_bit m + 874)) OR push_bit (52 - top_bit m) (word_of_nat (m - 2 ^ top_bit m))
             else push_bit 52 (word_of_nat (e + 896)) OR push_bit 29 (word_of_nat m))
      in (if bit w 31 then push_bit 63 1 else 0) OR body)"

fun intValue :: "any \<Rightarrow> int option" where
  "intValue (AInt x) = Some x"
| "intValue (AInt64 w) = Some (sint w)"
| "intValue (AUint64 w) = Some (go_int (uint w))"
| "intValue (AFloat64 w) = Some (float_int w)"
| "intValue (ANumber s) = Atoi s"
| "intValue _ = None"

text \<open>\<open>m[key]\<close> is \<open>nil\<close> for a missing key.\<close>

definition any_at :: "(string \<times> any) list \<Rightarrow> string \<Rightarrow> any" where
  "any_at m key = (case map_of m key of None \<Rightarrow> ANil | Some v \<Rightarrow> v)"

section \<open>The data section\<close>

datatype geo_error =
  OffsetOutOfRange | NestsTooDeep | ExtendedTypeTruncated | ValueTruncated | DoubleSize | FloatSize
  | UnsupportedType nat | SizeTruncated | PointerTruncated | OpenFailed | EmptyDatabase | MissingMarker
  | InvalidMetadata | MissingNodeCount | UnsupportedRecordSize | NodeOutOfRange | HeaderTruncated
  | MetadataTruncated

definition maxDecodeDepth :: nat where "maxDecodeDepth = 64"

definition decode_size :: "u8 list \<Rightarrow> u8 \<Rightarrow> nat \<Rightarrow> geo_error + (nat \<times> nat)" where
  "decode_size b ctrl off =
     (let v = unat (ctrl AND 0x1f) in
      if v = 29 then
        if length b \<le> off then Inl SizeTruncated else Inr (29 + unat (b ! off), off + 1)
      else if v = 30 then
        if length b < off + 2 then Inl SizeTruncated
        else Inr (285 + unat (BE_Uint16 (drop off b)), off + 2)
      else if v = 31 then
        if length b < off + 3 then Inl SizeTruncated
        else Inr (65821 + (unat (b ! off) * 65536 + unat (b ! (off + 1)) * 256 + unat (b ! (off + 2))), off + 3)
      else Inr (v, off))"

definition decode_pointer ::
  "(int \<Rightarrow> geo_error + (any \<times> nat)) \<Rightarrow> u8 list \<Rightarrow> int \<Rightarrow> u8 \<Rightarrow> nat \<Rightarrow> geo_error + (any \<times> nat)" where
  "decode_pointer dec b base ctrl off =
     (let ps = drop_bit 3 ctrl AND 3; low = unat (ctrl AND 7);
          follow = (\<lambda>p off. bind_res (dec (go_int (base + int p))) (\<lambda>(v, _). Inr (v, off)))
      in if ps = 0 then
           if length b \<le> off then Inl PointerTruncated
           else follow (low * 256 + unat (b ! off)) (off + 1)
         else if ps = 1 then
           if length b < off + 2 then Inl PointerTruncated
           else follow (low * 65536 + unat (BE_Uint16 (drop off b)) + 2048) (off + 2)
         else if ps = 2 then
           if length b < off + 3 then Inl PointerTruncated
           else follow (low * 16777216 + unat (b ! off) * 65536 + unat (b ! (off + 1)) * 256
                  + unat (b ! (off + 2)) + 526336) (off + 3)
         else if length b < off + 4 then Inl PointerTruncated
         else follow (unat (BE_Uint32 (drop off b))) (off + 4))"

definition bytes_uint :: "u8 list \<Rightarrow> u64" where
  "bytes_uint bs = foldl (\<lambda>v x. push_bit 8 v OR ucast x) 0 bs"

fun decode_array :: "(int \<Rightarrow> geo_error + (any \<times> nat)) \<Rightarrow> nat \<Rightarrow> any list \<Rightarrow> nat \<Rightarrow> geo_error + (any \<times> nat)" where
  "decode_array dec 0 a off = Inr (AArray a, off)"
| "decode_array dec (Suc n) a off = bind_res (dec (int off)) (\<lambda>(v, off). decode_array dec n (a @ [v]) off)"

fun decode_map ::
  "(int \<Rightarrow> geo_error + (any \<times> nat)) \<Rightarrow> nat \<Rightarrow> (string \<times> any) list \<Rightarrow> nat \<Rightarrow> geo_error + (any \<times> nat)" where
  "decode_map dec 0 m off = Inr (AMap m, off)"
| "decode_map dec (Suc n) m off =
     bind_res (dec (int off)) (\<lambda>(k, off).
     bind_res (dec (int off)) (\<lambda>(v, off).
       decode_map dec n (case k of AString ks \<Rightarrow> AList.update ks v m | _ \<Rightarrow> m) off))"

definition decode_typed ::
  "(int \<Rightarrow> geo_error + (any \<times> nat)) \<Rightarrow> u8 list \<Rightarrow> nat \<Rightarrow> nat \<Rightarrow> nat \<Rightarrow> geo_error + (any \<times> nat)" where
  "decode_typed dec b typ sz off =
     (let bs = take sz (drop off b) in
      if typ = 2 then Inr (AString (map char_of_byte bs), off + sz)
      else if typ = 3 then
        if sz \<noteq> 8 then Inl DoubleSize else Inr (AFloat64 (from_octets (take 8 (drop off b))), off + sz)
      else if typ = 4 then Inr (ABytes bs, off + sz)
      else if typ = 5 \<or> typ = 6 \<or> typ = 9 \<or> typ = 10 then Inr (AUint64 (bytes_uint bs), off + sz)
      else if typ = 7 then decode_map dec sz [] off
      else if typ = 8 then
        Inr (AInt64 (bytes_uint bs - (if 0 < sz \<and> b ! off AND 0x80 \<noteq> 0 then push_bit (sz * 8) 1 else 0)), off + sz)
      else if typ = 11 then decode_array dec sz [] off
      else if typ = 14 then Inr (ABool (sz \<noteq> 0), off)
      else if typ = 15 then
        if sz \<noteq> 4 then Inl FloatSize else Inr (AFloat64 (float_widen (BE_Uint32 (drop off b))), off + sz)
      else Inl (UnsupportedType typ))"

definition decode_value ::
  "(int \<Rightarrow> geo_error + (any \<times> nat)) \<Rightarrow> u8 list \<Rightarrow> int \<Rightarrow> nat \<Rightarrow> geo_error + (any \<times> nat)" where
  "decode_value dec b base off0 =
     (let ctrl = b ! off0; off = off0 + 1; t = unat (drop_bit 5 ctrl) in
      if t = 0 \<and> length b \<le> off then Inl ExtendedTypeTruncated
      else
        let (typ, off) = (if t = 0 then (unat (b ! off) + 7, off + 1) else (t, off)) in
        if typ = 1 then decode_pointer dec b base ctrl off
        else bind_res (decode_size b ctrl off) (\<lambda>(sz, off).
          if length b < off + sz then Inl ValueTruncated else decode_typed dec b typ sz off))"

text \<open>
  \<open>left\<close> is \<open>maxDecodeDepth\<close> less the depth of the decoder that is called: the recursive calls get
  one level less, so that decoding ends also where pointers form a loop.
\<close>

primrec decode :: "u8 list \<Rightarrow> int \<Rightarrow> nat \<Rightarrow> int \<Rightarrow> geo_error + (any \<times> nat)" where
  "decode b base 0 off = (if off < 0 \<or> int (length b) \<le> off then Inl OffsetOutOfRange else Inl NestsTooDeep)"
| "decode b base (Suc left) off =
     (if off < 0 \<or> int (length b) \<le> off then Inl OffsetOutOfRange
      else decode_value (decode b base left) b base (nat off))"

section \<open>The reader\<close>

record db_file =
  df_opens :: bool
  df_stats :: bool
  df_maps :: bool
  df_data :: "u8 list"

record mmdb =
  mm_data :: "u8 list"
  mm_recordSize :: int
  mm_nodeCount :: int
  mm_ipVersion :: int
  mm_dataBase :: int
  mm_Metadata :: "(string \<times> any) list"
  mm_BuildEpoch :: int

definition mapReadOnly :: "db_file \<Rightarrow> u8 list option" where
  "mapReadOnly f = (if df_data f = [] \<or> \<not> df_maps f then None else Some (df_data f))"

definition mmdb_marker :: "u8 list" where
  "mmdb_marker = [0xab, 0xcd, 0xef] @ map byte_of_char ''MaxMind.com''"

definition marker_index :: "u8 list \<Rightarrow> nat option" where
  "marker_index b =
     (if length b < length mmdb_marker then None
      else find (\<lambda>i. take (length mmdb_marker) (drop i b) = mmdb_marker)
        (rev [length b - 128 * 1024..<Suc (length b - length mmdb_marker)]))"

definition OpenMMDB :: "db_file \<Rightarrow> geo_error + mmdb" where
  "OpenMMDB f =
     (if \<not> df_opens f \<or> \<not> df_stats f then Inl OpenFailed
      else if df_data f = [] then Inl EmptyDatabase
      else case mapReadOnly f of None \<Rightarrow> Inl OpenFailed | Some b \<Rightarrow>
      case marker_index b of None \<Rightarrow> Inl MissingMarker | Some idx \<Rightarrow>
      let metaStart = int (idx + length mmdb_marker) in
      bind_res (decode b metaStart maxDecodeDepth metaStart) (\<lambda>(meta, _).
      case meta of
        AMap m \<Rightarrow>
          (case intValue (any_at m ''node_count'') of
             None \<Rightarrow> Inl MissingNodeCount
           | Some nodeCount \<Rightarrow>
               case intValue (any_at m ''record_size'') of
                 None \<Rightarrow> Inl UnsupportedRecordSize
               | Some recordSize \<Rightarrow>
                   if recordSize \<noteq> 24 \<and> recordSize \<noteq> 28 \<and> recordSize \<noteq> 32 then Inl UnsupportedRecordSize
                   else
                     let v = (case intValue (any_at m ''ip_version'') of None \<Rightarrow> 0 | Some v \<Rightarrow> v) in
                     Inr \<lparr>mm_data = b, mm_recordSize = recordSize, mm_nodeCount = nodeCount,
                          mm_ipVersion = (if v = 0 then 4 else v),
                          mm_dataBase = go_int (nodeCount * (recordSize * 2 div 8) + 16),
                          mm_Metadata = m,
                          mm_BuildEpoch = (case intValue (any_at m ''build_epoch'') of None \<Rightarrow> 0 | Some e \<Rightarrow> e)\<rparr>)
      | _ \<Rightarrow> Inl InvalidMetadata))"

definition readNode :: "mmdb \<Rightarrow> int \<Rightarrow> nat \<Rightarrow> geo_error + int" where
  "readNode r node b =
     (let width = mm_recordSize r * 2 div 8; base = go_int (node * width); d = mm_data r in
      if base < 0 \<or> int (length d) < go_int (base + width) then Inl NodeOutOfRange
      else if mm_recordSize r = 24 then
        let off = nat base + b * 3 in
        Inr (int (unat (d ! off) * 65536 + unat (d ! (off + 1)) * 256 + unat (d ! (off + 2))))
      else if mm_recordSize r = 32 then
        let off = nat base + b * 4 in Inr (int (unat (BE_Uint32 (drop off d))))
      else
        let middle = d ! (nat base + 3) in
        if b = 0 then
          Inr (int (unat (middle AND 0xf0) * 1048576 + unat (d ! nat base) * 65536
                 + unat (d ! (nat base + 1)) * 256 + unat (d ! (nat base + 2))))
        else
          Inr (int (unat (middle AND 0x0f) * 16777216 + unat (d ! (nat base + 4)) * 65536
                 + unat (d ! (nat base + 5)) * 256 + unat (d ! (nat base + 6)))))"

definition leaf_offset :: "mmdb \<Rightarrow> int \<Rightarrow> int" where
  "leaf_offset r node = go_int (node - mm_nodeCount r - 16 + mm_dataBase r)"

definition as_map :: "any \<Rightarrow> (string \<times> any) list option" where
  "as_map v = (case v of AMap m \<Rightarrow> Some m | _ \<Rightarrow> None)"

definition mmdb_packed :: "mmdb \<Rightarrow> addr \<Rightarrow> u8 list \<times> nat" where
  "mmdb_packed r a =
     (case a of
        Addr4 v \<Rightarrow>
          if mm_ipVersion r = 6 then (replicate 10 0 @ [0xff, 0xff] @ octets 4 v, 128)
          else (octets 4 v @ replicate 12 0, 32)
      | _ \<Rightarrow> (AsSlice a, 128))"

definition mmdb_Get :: "mmdb \<Rightarrow> string \<Rightarrow> geo_error + (string \<times> any) list option" where
  "mmdb_Get r ip =
     (case ParseAddr (TrimSpace ip) of
        None \<Rightarrow> Inr None
      | Some a \<Rightarrow>
          if Is6 a \<and> mm_ipVersion r = 4 then Inr None
          else
            let (packed, bits) = mmdb_packed r a in
            bind_res (descend (readNode r) (mm_nodeCount r) (packed_bits packed bits) 0) (\<lambda>node.
              if node \<le> mm_nodeCount r then Inr None
              else bind_res (decode (mm_data r) (mm_dataBase r) maxDecodeDepth (leaf_offset r node)) (\<lambda>(v, _).
                Inr (as_map v))))"

definition v4Root :: "mmdb \<Rightarrow> geo_error + int" where
  "v4Root r =
     (if mm_ipVersion r = 4 then Inr 0
      else descend (readNode r) (mm_nodeCount r) (map (\<lambda>i. if 80 \<le> i \<and> i < 96 then 1 else 0) [0..<96]) 0)"

definition decodeAt :: "mmdb \<Rightarrow> int \<Rightarrow> (string \<times> any) list" where
  "decodeAt r node =
     (case decode (mm_data r) (mm_dataBase r) maxDecodeDepth (leaf_offset r node) of
        Inl _ \<Rightarrow> [] | Inr (v, _) \<Rightarrow> (case as_map v of None \<Rightarrow> [] | Some m \<Rightarrow> m))"

definition any_string :: "any \<Rightarrow> string" where
  "any_string v = (case v of AString s \<Rightarrow> s | _ \<Rightarrow> [])"

fun country_blocks :: "(string \<times> any) list \<Rightarrow> string list \<Rightarrow> string" where
  "country_blocks m [] = any_string (any_at m ''country_code'')"
| "country_blocks m (key # keys) =
     (case any_at m key of
        AMap block \<Rightarrow>
          let code = any_string (any_at block ''iso_code'') in
          if code \<noteq> [] then code else country_blocks m keys
      | _ \<Rightarrow> country_blocks m keys)"

definition mmdbCountryCode :: "(string \<times> any) list \<Rightarrow> string" where
  "mmdbCountryCode m = country_blocks m [''country'', ''registered_country'']"

definition CountryCodeOf :: "(string \<times> any) list \<Rightarrow> string" where
  "CountryCodeOf m = mmdbCountryCode m"

definition mmdb_WalkV4 ::
  "mmdb \<Rightarrow> (prefix \<Rightarrow> string \<Rightarrow> 's \<Rightarrow> 'v option \<times> 's) \<Rightarrow> 's \<Rightarrow> (geo_error, 'v) walk_error option \<times> 's" where
  "mmdb_WalkV4 r visit s =
     (case v4Root r of
        Inl e \<Rightarrow> (Some (ReadError e), s)
      | Inr root \<Rightarrow>
          walk_loop (readNode r) (mm_nodeCount r) (\<lambda>child. mmdbCountryCode (decodeAt r child)) (\<lambda>code. code = [])
            visit (walk_start root s))"

definition DatabaseType :: "mmdb option \<Rightarrow> string" where
  "DatabaseType r = (case r of None \<Rightarrow> [] | Some r \<Rightarrow> any_string (any_at (mm_Metadata r) ''database_type''))"

definition NodeCount :: "mmdb option \<Rightarrow> int" where
  "NodeCount r = (case r of None \<Rightarrow> 0 | Some r \<Rightarrow> mm_nodeCount r)"

end
