(* ===== verification/IPDB.thy ===== *)
theory IPDB
  imports MMDB
begin

text \<open>
  Package \<open>internal/geoip\<close>: the reader of ipdb databases. The header is a JSON object, whose decoding
  by the standard library is the argument \<open>json\<close> (\<open>None\<close> for an error); the tree and the texts of the
  leaves follow. A leaf holds the fields of its network in the columns of one text.
\<close>

unbundle bit_operations_syntax

record ipdb =
  ip_data :: "u8 list"
  ip_metaLen :: int
  ip_nodeCount :: int
  ip_dataBase :: int
  ip_ipVersion :: int
  ip_v4Start :: int
  ip_Metadata :: "(string \<times> any) list"
  ip_Fields :: "string list"
  ip_BuildEpoch :: int

definition ipdb_record :: "ipdb \<Rightarrow> int \<Rightarrow> nat \<Rightarrow> geo_error + int" where
  "ipdb_record r node b =
     (let off = go_int (4 + ip_metaLen r + node * 8 + int b * 4) in
      if off < 0 \<or> int (length (ip_data r)) < go_int (off + 4) then Inl NodeOutOfRange
      else Inr (int (unat (BE_Uint32 (drop (nat off) (ip_data r))))))"

definition ipdb_walk_to :: "ipdb \<Rightarrow> int \<Rightarrow> u8 list \<Rightarrow> nat \<Rightarrow> geo_error + int" where
  "ipdb_walk_to r node packed bits = descend (ipdb_record r) (ip_nodeCount r) (packed_bits packed bits) node"

definition mapped_prefix :: "u8 list" where
  "mapped_prefix = [0, 0, 0, 0, 0, 0, 0, 0, 0, 0, 0xff, 0xff, 0, 0, 0, 0]"

definition string_fields :: "any \<Rightarrow> string list" where
  "string_fields v =
     (case v of AArray a \<Rightarrow> concat (map (\<lambda>x. case x of AString s \<Rightarrow> [s] | _ \<Rightarrow> []) a) | _ \<Rightarrow> [])"

definition OpenIPDB :: "(u8 list \<Rightarrow> (string \<times> any) list option) \<Rightarrow> db_file \<Rightarrow> geo_error + ipdb" where
  "OpenIPDB json f =
     (if \<not> df_opens f \<or> \<not> df_stats f then Inl OpenFailed
      else case mapReadOnly f of None \<Rightarrow> Inl OpenFailed | Some b \<Rightarrow>
      if length b < 4 then Inl HeaderTruncated
      else
        let ml = unat (BE_Uint32 (take 4 b)) in
        if ml < 2 \<or> length b < 4 + ml then Inl MetadataTruncated
        else case json (take ml (drop 4 b)) of None \<Rightarrow> Inl InvalidMetadata | Some meta \<Rightarrow>
        case intValue (any_at meta ''node_count'') of None \<Rightarrow> Inl MissingNodeCount | Some nodeCount \<Rightarrow>
        let v = (case intValue (any_at meta ''ip_version'') of None \<Rightarrow> 0 | Some v \<Rightarrow> v);
            v4 = (case intValue (any_at meta ''v4node'') of None \<Rightarrow> 0 | Some v \<Rightarrow> v);
            r = \<lparr>ip_data = b, ip_metaLen = int ml, ip_nodeCount = nodeCount,
                 ip_dataBase = go_int (4 + int ml + nodeCount * 8), ip_ipVersion = (if v = 0 then 1 else v),
                 ip_v4Start = v4, ip_Metadata = meta, ip_Fields = string_fields (any_at meta ''fields''),
                 ip_BuildEpoch = (case intValue (any_at meta ''build'') of None \<Rightarrow> 0 | Some e \<Rightarrow> e)\<rparr>
        in if ip_v4Start r = 0 \<and> ip_ipVersion r AND 2 \<noteq> 0 then
             bind_res (ipdb_walk_to r 0 mapped_prefix 96) (\<lambda>start. Inr (r\<lparr>ip_v4Start := start\<rparr>))
           else Inr r)"

text \<open>The text of a leaf, \<open>None\<close> where it does not lie inside the file.\<close>

definition leaf_text :: "ipdb \<Rightarrow> int \<Rightarrow> string option" where
  "leaf_text r node =
     (let base = go_int (4 + ip_metaLen r + (node - ip_nodeCount r + ip_nodeCount r * 8));
          d = ip_data r
      in if base < 0 \<or> int (length d) < go_int (base + 2) then None
         else
           let sz = unat (BE_Uint16 (drop (nat base) d)) in
           if int (length d) < go_int (base + 2 + int sz) then None
           else Some (map char_of_byte (take sz (drop (nat base + 2) d))))"

text \<open>Store the trimmed text of a column, unless it is empty.\<close>

definition put_column :: "string \<Rightarrow> string \<Rightarrow> (string \<times> string) list \<Rightarrow> (string \<times> string) list" where
  "put_column name column out = (let v = TrimSpace column in if v \<noteq> [] then AList.update name v out else out)"

fun node_columns :: "string list \<Rightarrow> string list \<Rightarrow> (string \<times> string) list \<Rightarrow> (string \<times> string) list" where
  "node_columns (name # names) (part # parts) out = node_columns names parts (put_column name part out)"
| "node_columns _ _ out = out"

definition decodeNode :: "ipdb \<Rightarrow> int \<Rightarrow> (string \<times> string) list" where
  "decodeNode r node =
     (case leaf_text r node of
        None \<Rightarrow> [] | Some s \<Rightarrow> node_columns (ip_Fields r) (Split (CHR 0x09) s) [])"

text \<open>The lookup returns no map (\<open>None\<close>) for an address that is not in the tree.\<close>

definition ipdb_Get :: "ipdb \<Rightarrow> string \<Rightarrow> geo_error + (string \<times> string) list option" where
  "ipdb_Get r ip =
     (case ParseAddr (TrimSpace ip) of
        None \<Rightarrow> Inr None
      | Some a \<Rightarrow>
          if Is4 a \<and> ip_v4Start r = 0 \<and> ip_ipVersion r \<noteq> 1 then Inr None
          else
            bind_res
              (case a of
                 Addr4 v \<Rightarrow> ipdb_walk_to r (ip_v4Start r) (octets 4 v @ replicate 12 0) 32
               | _ \<Rightarrow> ipdb_walk_to r 0 (AsSlice a) 128)
              (\<lambda>node. if node \<le> ip_nodeCount r then Inr None else Inr (Some (decodeNode r node))))"

fun skip_columns :: "nat \<Rightarrow> string \<Rightarrow> string option" where
  "skip_columns 0 raw = Some raw"
| "skip_columns (Suc n) raw =
     (case Cut (CHR 0x09) raw of None \<Rightarrow> None | Some (_, rest) \<Rightarrow> skip_columns n rest)"

fun wanted_columns ::
  "nat list \<Rightarrow> string list \<Rightarrow> string \<Rightarrow> nat \<Rightarrow> (string \<times> string) list \<Rightarrow> (string \<times> string) list" where
  "wanted_columns [] names raw column out = out"
| "wanted_columns (target # want) names raw column out =
     (case skip_columns (target - column) raw of
        None \<Rightarrow> out
      | Some raw \<Rightarrow>
          let column = max column target in
          wanted_columns want names raw column
            (put_column (names ! column) (takeWhile (\<lambda>c. c \<noteq> CHR 0x09) raw) out))"

definition decodeFields :: "ipdb \<Rightarrow> int \<Rightarrow> nat list \<Rightarrow> string list \<Rightarrow> (string \<times> string) list" where
  "decodeFields r node want names =
     (case leaf_text r node of None \<Rightarrow> [] | Some raw \<Rightarrow> wanted_columns want names raw 0 [])"

definition wanted :: "string list \<Rightarrow> string list \<Rightarrow> nat list" where
  "wanted names requested = filter (\<lambda>i. names ! i \<in> set requested) [0..<length names]"

definition ipdb_WalkV4 ::
  "ipdb \<Rightarrow> string list \<Rightarrow> (prefix \<Rightarrow> (string \<times> string) list \<Rightarrow> 's \<Rightarrow> 'v option \<times> 's) \<Rightarrow> 's \<Rightarrow>
   (geo_error, 'v) walk_error option \<times> 's" where
  "ipdb_WalkV4 r requested visit s =
     (if ip_v4Start r = 0 \<and> ip_ipVersion r \<noteq> 1 then (None, s)
      else
        walk_loop (ipdb_record r) (ip_nodeCount r)
          (\<lambda>child. decodeFields r child (wanted (ip_Fields r) requested) (ip_Fields r)) (\<lambda>rec. rec = [])
          visit (walk_start (ip_v4Start r) s))"

definition ipdb_NodeCount :: "ipdb option \<Rightarrow> int" where
  "ipdb_NodeCount r = (case r of None \<Rightarrow> 0 | Some r \<Rightarrow> ip_nodeCount r)"

end
