(* ===== verification/MMDB_Format.thy ===== *)
theory MMDB_Format
  imports MMDB DNS_Roundtrip
begin

text \<open>
  The data section of a MaxMind database: an encoder after the description of the format, and the
  theorems that the decoder of package \<open>internal/geoip\<close> reads back what was encoded.
\<close>

unbundle bit_operations_syntax

section \<open>Decoding what was encoded\<close>

text \<open>
  The layout of the MaxMind format, as its description gives it: a control byte with the type and
  the size, an extended type, up to three ext octets for the size, and the inner.
\<close>

definition enc_size :: "nat \<Rightarrow> nat \<times> u8 list" where
  "enc_size n =
     (if n < 29 then (n, [])
      else if n < 285 then (29, octets 1 (word_of_nat (n - 29) :: u8))
      else if n < 65821 then (30, octets 2 (word_of_nat (n - 285) :: u16))
      else (31, octets 3 (word_of_nat (n - 65821) :: u32)))"

definition enc_head :: "nat \<Rightarrow> nat \<Rightarrow> u8 list" where
  "enc_head typ n =
     (let (v, ext) = enc_size n in
      if typ < 8 then word_of_nat (typ * 32 + v) # ext
      else [word_of_nat v, word_of_nat (typ - 7)] @ ext)"

fun encode :: "any \<Rightarrow> u8 list" where
  "encode (AString s) = enc_head 2 (length s) @ map byte_of_char s"
| "encode (AFloat64 w) = enc_head 3 8 @ octets 8 w"
| "encode (ABytes bs) = enc_head 4 (length bs) @ bs"
| "encode (AUint64 w) =
     (let bs = dropWhile (\<lambda>x. x = 0) (octets 8 w) in enc_head 9 (length bs) @ bs)"
| "encode (AInt64 w) = enc_head 8 4 @ octets 4 (ucast w :: u32)"
| "encode (ABool b) = enc_head 14 (of_bool b)"
| "encode (AMap m) =
     enc_head 7 (length m) @ concat (map (\<lambda>(k, v). (enc_head 2 (length k) @ map byte_of_char k) @ encode v) m)"
| "encode (AArray a) = enc_head 11 (length a) @ concat (map encode a)"
| "encode _ = []"

definition max_size :: nat where
  "max_size = 65821 + 2 ^ 24"

text \<open>What can be encoded in \<open>left\<close> levels.\<close>

fun encodable :: "nat \<Rightarrow> any \<Rightarrow> bool" where
  "encodable 0 v = False"
| "encodable (Suc left) (AString s) = (length s < max_size)"
| "encodable (Suc left) (AFloat64 w) = True"
| "encodable (Suc left) (ABytes bs) = (length bs < max_size)"
| "encodable (Suc left) (AUint64 w) = True"
| "encodable (Suc left) (AInt64 w) = (- (2 ^ 31) \<le> sint w \<and> sint w < 2 ^ 31)"
| "encodable (Suc left) (ABool b) = True"
| "encodable (Suc left) (AMap m) =
     (length m < max_size \<and> distinct (map fst m) \<and>
      list_all (\<lambda>(k, v). 0 < left \<and> length k < max_size \<and> encodable left v) m)"
| "encodable (Suc left) (AArray a) = (length a < max_size \<and> list_all (encodable left) a)"
| "encodable (Suc left) _ = False"


lemma drop_ConsD:
  assumes "drop off b = x # xs"
  shows "b ! off = x" and "drop (Suc off) b = xs" and "off < length b"
proof -
  show l: "off < length b" using assms by (cases "off < length b") auto
  show "b ! off = x" "drop (Suc off) b = xs" using assms by (simp_all add: Cons_nth_drop_Suc [OF l, symmetric])
qed

lemma drop_appendD:
  assumes "drop off b = xs @ ys"
  shows "drop (off + length xs) b = ys" and "take (length xs) (drop off b) = xs"
proof -
  have "drop (off + length xs) b = drop (length xs) (drop off b)" by (simp add: add.commute)
  then show "drop (off + length xs) b = ys" using assms by simp
  show "take (length xs) (drop off b) = xs" using assms by simp
qed

lemma drop_length: "drop off b = xs \<Longrightarrow> xs \<noteq> [] \<Longrightarrow> length b = off + length xs"
  by auto

lemma octets_3: "octets 3 (w :: u32) = [ucast (drop_bit 16 w), ucast (drop_bit 8 w), ucast w]"
  by (simp add: octets_def upt_rec numeral_eq_Suc)

lemma octets_1: "octets (Suc 0) (w :: u8) = [w]" "octets 1 (w :: u8) = [w]"
  by (simp_all add: octets_def)

lemma unat_octet: "n < 256 \<Longrightarrow> unat (word_of_nat n :: u8) = n"
  by (simp add: unsigned_of_nat take_bit_eq_mod)

lemma octets_3_value:
  assumes "n < 2 ^ 24"
  shows "unat (ucast (drop_bit 16 (word_of_nat n :: u32)) :: u8) * 65536
    + unat (ucast (drop_bit 8 (word_of_nat n :: u32)) :: u8) * 256 + unat (ucast (word_of_nat n :: u32) :: u8) = n"
proof -
  have u: "unat (ucast (drop_bit k (word_of_nat n :: u32)) :: u8) = n div 2 ^ k mod 256" for k
  proof -
    have "unat (drop_bit k (word_of_nat n :: u32)) = n div 2 ^ k"
      unfolding unat_drop_bit_eq using assms by (simp add: unsigned_of_nat take_bit_eq_mod drop_bit_eq_div)
    then show ?thesis by (simp add: unsigned_ucast_eq take_bit_eq_mod)
  qed
  have z: "unat (ucast (word_of_nat n :: u32) :: u8) = n mod 256"
    using u [of 0] by simp
  define a where "a = n div 256"
  have "n div 65536 = a div 256" by (simp add: a_def div_mult2_eq [symmetric])
  moreover have "n div 65536 mod 256 = n div 65536" using assms by (simp add: less_mult_imp_div_less)
  ultimately have xy: "unat (ucast (drop_bit 16 (word_of_nat n :: u32)) :: u8) = a div 256"
    "unat (ucast (drop_bit 8 (word_of_nat n :: u32)) :: u8) = a mod 256"
    using u [of 16] u [of 8] by (simp_all add: a_def)
  have "n = a * 256 + n mod 256" unfolding a_def by (rule div_mult_mod_eq [symmetric])
  moreover have "a = a div 256 * 256 + a mod 256" by (rule div_mult_mod_eq [symmetric])
  ultimately show ?thesis unfolding xy z by linarith
qed

lemma decode_size_enc:
  assumes "enc_size n = (v, ext)" and "n < max_size" and "drop off b = ext @ rest" and "unat (ctrl AND 0x1f) = v"
  shows "decode_size b ctrl off = Inr (n, off + length ext)"
proof -
  consider "n < 29" | "29 \<le> n" "n < 285" | "285 \<le> n" "n < 65821" | "65821 \<le> n" by linarith
  then show ?thesis
  proof cases
    case 1
    then show ?thesis using assms by (simp add: enc_size_def decode_size_def)
  next
    case 2
    define x where "x = (word_of_nat (n - 29) :: u8)"
    have x: "unat x = n - 29" unfolding x_def by (rule unat_octet) (use 2 in simp)
    have "ext = [x]" "v = 29" using assms(1) 2 unfolding x_def by (simp_all add: enc_size_def octets_1 del: of_nat_diff)
    with drop_ConsD [of off b x rest] 2 x assms(3,4) show ?thesis
      by (simp add: decode_size_def)
  next
    case 3
    then have ext: "ext = octets 2 (word_of_nat (n - 285) :: u16)" and v: "v = 30"
      using assms(1) by (auto simp: enc_size_def)
    have "BE_Uint16 (drop off b) = word_of_nat (n - 285)"
      using drop_appendD(2) [OF assms(3)] by (simp add: BE_Uint16_def ext from_octets_octets)
    moreover have "off + 2 \<le> length b"
      using arg_cong [OF assms(3), of length] by (simp add: ext)
    moreover have "unat (word_of_nat (n - 285) :: u16) = n - 285"
      using 3 by (simp only: unat_of_nat) simp
    ultimately show ?thesis using 3 v assms(4)
      by (simp add: decode_size_def ext del: of_nat_diff)
  next
    case 4
    define w where "w = (word_of_nat (n - 65821) :: u32)"
    have ext: "ext = [ucast (drop_bit 16 w), ucast (drop_bit 8 w), ucast w]" and v: "v = 31"
      using assms(1) 4 by (auto simp: enc_size_def octets_3 w_def)
    have d0: "drop off b = ucast (drop_bit 16 w) # ucast (drop_bit 8 w) # ucast w # rest"
      using assms(3) by (simp add: ext)
    note d1 = drop_ConsD [OF d0]
    note d2 = drop_ConsD [OF d1(2)]
    note d3 = drop_ConsD [OF d2(2)]
    have "unat (ucast (drop_bit 16 w) :: u8) * 65536 + unat (ucast (drop_bit 8 w) :: u8) * 256
        + unat (ucast w :: u8) = n - 65821"
      unfolding w_def by (rule octets_3_value) (use assms(2) in \<open>simp add: max_size_def\<close>)
    then show ?thesis using 4 v assms(4) d1 d2 d3
      by (simp add: decode_size_def ext)
  qed
qed

lemma enc_size_small: "enc_size n = (v, ext) \<Longrightarrow> v < 32"
  by (auto simp: enc_size_def split: if_splits)

lemma ctrl_octet:
  assumes "t < 8" and "v < 32"
  shows "unat (drop_bit 5 (word_of_nat (t * 32 + v) :: u8)) = t"
    and "unat ((word_of_nat (t * 32 + v) :: u8) AND 0x1f) = v"
proof -
  have u: "unat (word_of_nat (t * 32 + v) :: u8) = t * 32 + v"
    using assms by (intro unat_octet) simp
  then show "unat (drop_bit 5 (word_of_nat (t * 32 + v) :: u8)) = t"
    unfolding unat_drop_bit_eq u using assms by (simp add: drop_bit_eq_div)
  have "(0x1f :: u8) = mask 5" by (simp add: mask_eq_exp_minus_1)
  then show "unat ((word_of_nat (t * 32 + v) :: u8) AND 0x1f) = v"
    unfolding \<open>0x1f = mask 5\<close> unat_and_mask u using assms by simp
qed

lemma decode_head:
  assumes d: "drop off b = enc_head typ n @ rest" and n: "n < max_size" and tp: "2 \<le> typ" "typ \<le> 15"
  shows "decode_value dec b base off =
    (if length b < off + length (enc_head typ n) + n then Inl ValueTruncated
     else decode_typed dec b typ n (off + length (enc_head typ n)))"
proof -
  obtain v ext where s: "enc_size n = (v, ext)" by (cases "enc_size n")
  note v = enc_size_small [OF s]
  show ?thesis
  proof (cases "typ < 8")
    case True
    then have h: "enc_head typ n = word_of_nat (typ * 32 + v) # ext" by (simp add: enc_head_def s)
    have d': "drop off b = word_of_nat (typ * 32 + v) # (ext @ rest)" using d by (simp add: h)
    note e = drop_ConsD [OF d']
    have "decode_size b (b ! off) (Suc off) = Inr (n, Suc off + length ext)"
      by (rule decode_size_enc [OF s n e(2)]) (use e(1) ctrl_octet(2) [OF True v] in simp)
    then show ?thesis using tp ctrl_octet(1) [OF True v]
      by (simp add: decode_value_def e(1) h Let_def)
  next
    case False
    then have h: "enc_head typ n = [word_of_nat v, word_of_nat (typ - 7)] @ ext" by (simp add: enc_head_def s)
    have d': "drop off b = word_of_nat v # word_of_nat (typ - 7) # (ext @ rest)" using d by (simp add: h)
    note e = drop_ConsD [OF d']
    note e2 = drop_ConsD [OF e(2)]
    have t: "unat (word_of_nat (typ - 7) :: u8) + 7 = typ"
      using False tp by (subst unat_octet) simp_all
    have "decode_size b (b ! off) (Suc (Suc off)) = Inr (n, Suc (Suc off) + length ext)"
      by (rule decode_size_enc [OF s n e2(2)]) (use e(1) ctrl_octet(2) [of 0 v] v in simp)
    then show ?thesis using tp t ctrl_octet(1) [of 0 v] v False e2(1,3)
      by (simp add: decode_value_def e(1) h Let_def)
  qed
qed

lemma bytes_uint_from_octets: "bytes_uint bs = from_octets bs"
proof -
  have "foldl (\<lambda>v x. push_bit 8 v OR ucast x) a bs = (push_bit (8 * length bs) a OR from_octets bs :: u64)" for a
    by (induction bs arbitrary: a) (simp_all add: push_bit_or or.assoc add.commute)
  from this [of 0] show ?thesis by (simp add: bytes_uint_def)
qed

lemma from_octets_trim: "from_octets (dropWhile (\<lambda>x. x = 0) bs) = from_octets bs"
  by (induction bs) simp_all

lemma from_octets_word32: "from_octets (octets 4 (x :: u32)) = (ucast x :: u64)"
proof -
  have "from_octets bs = (ucast (from_octets bs :: u32) :: u64)" if "length bs = 4" for bs
    using that by (intro bit_word_eqI) (auto simp: bit_from_octets bit_simps)
  from this [of "octets 4 x"] show ?thesis by (simp add: from_octets_octets_4)
qed

lemma int32_octets:
  assumes "- (2 ^ 31) \<le> sint w" and "sint w < 2 ^ 31"
  shows "(ucast (ucast w :: u32) :: u64) - (if bit (ucast w :: u32) 31 then push_bit 32 1 else 0) = w"
proof -
  have w: "w = word_of_int (sint w)" by simp
  have u: "uint (ucast w :: u32) = sint w mod 2 ^ 32"
  proof -
    have "uint w = sint w mod 2 ^ 64" using uint_word_of_int [where ?'a = 64, of "sint w"] by simp
    then show ?thesis by (simp add: unsigned_ucast_eq take_bit_eq_mod mod_mod_cancel)
  qed
  have c: "(ucast (ucast w :: u32) :: u64) = word_of_int (sint w mod 2 ^ 32)"
    unfolding u [symmetric] by (rule ucast_eq)
  have b: "bit (ucast w :: u32) 31 \<longleftrightarrow> sint w < 0"
  proof -
    have "bit (ucast w :: u32) 31 \<longleftrightarrow> bit (sint w) 31" by (simp add: bit_simps)
    also have "\<dots> \<longleftrightarrow> sint w < 0"
    proof (cases "sint w < 0")
      case True
      then have "sint w div 2 ^ 31 = - 1" using assms by (intro int_div_pos_eq [of _ _ _ "sint w + 2 ^ 31"]) simp_all
      then show ?thesis using True by (simp add: bit_iff_odd)
    qed (use assms in \<open>simp add: bit_iff_odd\<close>)
    finally show ?thesis .
  qed
  show ?thesis
  proof (cases "sint w < 0")
    case True
    then have "sint w mod 2 ^ 32 = sint w + 2 ^ 32"
      using assms by (intro int_mod_pos_eq [of _ _ "- 1"]) simp_all
    then show ?thesis using True b c w by simp
  next
    case False
    then show ?thesis using assms b c w by simp
  qed
qed

definition decodes :: "u8 list \<Rightarrow> int \<Rightarrow> nat \<Rightarrow> any \<Rightarrow> bool" where
  "decodes b base left v \<longleftrightarrow>
     (\<forall>off rest. drop off b = encode v @ rest \<longrightarrow> rest \<noteq> [] \<longrightarrow>
        decode b base left (int off) = Inr (v, off + length (encode v)))"

lemma decodesD:
  "decodes b base left v \<Longrightarrow> drop off b = encode v @ rest \<Longrightarrow> rest \<noteq> [] \<Longrightarrow>
   decode b base left (int off) = Inr (v, off + length (encode v))"
  by (simp add: decodes_def)

lemma enc_head_not_Nil [simp]: "enc_head typ n \<noteq> []"
  by (auto simp: enc_head_def split: prod.splits)

lemma decode_headed:
  assumes "drop off b = enc_head typ n @ body @ rest" and "n < max_size" and "2 \<le> typ" "typ \<le> 15"
    and "n \<le> length body + length rest"
  shows "decode b base (Suc left) (int off) =
    decode_typed (decode b base left) b typ n (off + length (enc_head typ n))"
proof -
  have l: "length b = off + length (enc_head typ n @ body @ rest)"
    by (rule drop_length [OF assms(1)]) simp
  moreover from this have "int off < int (length b)" by (cases "enc_head typ n") simp_all
  ultimately show ?thesis using assms(5) decode_head [OF assms(1-4)] by simp
qed

lemma decode_array_items:
  assumes "\<And>v. v \<in> set a \<Longrightarrow> decodes b base left v"
    and "drop off b = concat (map encode a) @ rest" and "rest \<noteq> []"
  shows "decode_array (decode b base left) (length a) acc off =
    Inr (AArray (acc @ a), off + length (concat (map encode a)))"
  using assms
proof (induction a arbitrary: acc off)
  case (Cons v a)
  have d: "drop off b = encode v @ concat (map encode a) @ rest" using Cons.prems(2) by simp
  have "decode b base left (int off) = Inr (v, off + length (encode v))"
    by (rule decodesD [OF Cons.prems(1) d]) (use Cons.prems(3) in simp_all)
  moreover have "decode_array (decode b base left) (length a) (acc @ [v]) (off + length (encode v)) =
      Inr (AArray ((acc @ [v]) @ a), off + length (encode v) + length (concat (map encode a)))"
    by (rule Cons.IH) (use Cons.prems drop_appendD(1) [OF d] in simp_all)
  ultimately show ?case by (simp add: add.assoc)
qed simp

lemma update_fresh: "k \<notin> set (map fst m) \<Longrightarrow> AList.update k v m = m @ [(k, v)]"
  by (induction m) auto

lemma decode_map_items:
  assumes "\<And>k v. (k, v) \<in> set m \<Longrightarrow> decodes b base left (AString k) \<and> decodes b base left v"
    and "drop off b = concat (map (\<lambda>(k, v). encode (AString k) @ encode v) m) @ rest" and "rest \<noteq> []"
    and "distinct (map fst (acc @ m))"
  shows "decode_map (decode b base left) (length m) acc off =
    Inr (AMap (acc @ m), off + length (concat (map (\<lambda>(k, v). encode (AString k) @ encode v) m)))"
  using assms
proof (induction m arbitrary: acc off)
  case (Cons kv m)
  obtain k v where kv: "kv = (k, v)" by (cases kv)
  let ?r = "concat (map (\<lambda>(k, v). encode (AString k) @ encode v) m) @ rest"
  have d1: "drop off b = encode (AString k) @ (encode v @ ?r)" using Cons.prems(2) by (simp add: kv)
  note d2 = drop_appendD(1) [OF d1]
  have 1: "decode b base left (int off) = Inr (AString k, off + length (encode (AString k)))"
    by (rule decodesD [OF _ d1]) (use Cons.prems(1) [of k v] Cons.prems(3) in \<open>simp_all add: kv\<close>)
  have 2: "decode b base left (int (off + length (encode (AString k)))) =
      Inr (v, off + length (encode (AString k)) + length (encode v))"
    by (rule decodesD [OF _ d2]) (use Cons.prems(1) [of k v] Cons.prems(3) in \<open>simp_all add: kv\<close>)
  have 3: "decode_map (decode b base left) (length m) (acc @ [(k, v)])
        (off + length (encode (AString k)) + length (encode v)) =
      Inr (AMap ((acc @ [(k, v)]) @ m), off + length (encode (AString k)) + length (encode v)
        + length (concat (map (\<lambda>(k, v). encode (AString k) @ encode v) m)))"
  proof (rule Cons.IH)
    show "decodes b base left (AString k) \<and> decodes b base left v" if "(k, v) \<in> set m" for k v
      using that by (intro Cons.prems(1)) simp
  qed (use Cons.prems(3,4) drop_appendD(1) [OF d2] in \<open>simp_all add: kv\<close>)
  have "AList.update k v acc = acc @ [(k, v)]"
    using Cons.prems(4) by (intro update_fresh) (simp add: kv)
  with 1 2 3 show ?case by (simp add: kv add.assoc del: encode.simps)
qed simp

lemma encode_length_pos: "encodable left v \<Longrightarrow> 0 < length (encode v)"
  by (induction left v rule: encodable.induct) (simp_all add: Let_def)

lemma length_concat_ge: "(\<And>x. x \<in> set xs \<Longrightarrow> 0 < length (f x)) \<Longrightarrow> length xs \<le> length (concat (map f xs))"
proof (induction xs)
  case (Cons x xs)
  have "length xs \<le> length (concat (map f xs))" by (rule Cons.IH) (use Cons.prems in simp)
  moreover have "0 < length (f x)" using Cons.prems by simp
  ultimately show ?case by (simp del: length_greater_0_conv)
qed simp

lemma char_of_byte_of_char [simp]: "char_of_byte (byte_of_char c) = c"
  by (simp add: char_of_byte_def byte_of_char_def unat_octet)

lemma decodes_headedI:
  assumes "encode v = enc_head t n @ body" and "n < max_size" and "2 \<le> t" "t \<le> 15" and "n \<le> Suc (length body)"
    and "\<And>off rest. drop off b = body @ rest \<Longrightarrow> rest \<noteq> [] \<Longrightarrow>
      decode_typed (decode b base left) b t n off = Inr (v, off + length body)"
  shows "decodes b base (Suc left) v"
  unfolding decodes_def
proof (intro allI impI)
  fix off rest
  assume d: "drop off b = encode v @ rest" and r: "rest \<noteq> []"
  have d': "drop off b = enc_head t n @ body @ rest" using d assms(1) by simp
  have "n \<le> length body + length rest" using assms(5) r by (cases rest) auto
  from decode_headed [OF d' assms(2-4) this]
  show "decode b base (Suc left) (int off) = Inr (v, off + length (encode v))"
    using assms(6) [OF drop_appendD(1) [OF d'] r] by (simp add: assms(1))
qed

lemma high_bit_octet: "(x AND 0x80 :: u8) \<noteq> 0 \<longleftrightarrow> bit x 7"
proof -
  have "(0x80 :: u8) = 2 ^ 7" by simp
  then show ?thesis by (metis and_exp_eq_0_iff_not_bit)
qed

lemma decodes_AString: "length s < max_size \<Longrightarrow> decodes b base (Suc left) (AString s)"
  by (rule decodes_headedI [of _ 2 "length s" "map byte_of_char s"]) (simp_all add: decode_typed_def comp_def)

lemma decodes_AFloat64: "decodes b base (Suc left) (AFloat64 w)"
  by (rule decodes_headedI [of _ 3 8 "octets 8 w"]) (simp_all add: decode_typed_def max_size_def from_octets_octets)

lemma decodes_ABytes: "length bs < max_size \<Longrightarrow> decodes b base (Suc left) (ABytes bs)"
  by (rule decodes_headedI [of _ 4 "length bs" bs]) (simp_all add: decode_typed_def)

lemma decodes_AUint64: "decodes b base (Suc left) (AUint64 w)"
proof -
  define bs where "bs = dropWhile (\<lambda>x. x = 0) (octets 8 w)"
  have l: "length bs \<le> 8" unfolding bs_def by (rule order_trans [OF length_dropWhile_le]) simp
  have "bytes_uint bs = w" by (simp add: bs_def bytes_uint_from_octets from_octets_trim from_octets_octets)
  then show ?thesis
    by (intro decodes_headedI [of _ 9 "length bs" bs])
      (use l in \<open>simp_all add: decode_typed_def max_size_def Let_def bs_def [symmetric]\<close>)
qed

lemma decodes_AInt64:
  assumes "- (2 ^ 31) \<le> sint w" and "sint w < 2 ^ 31"
  shows "decodes b base (Suc left) (AInt64 w)"
proof (rule decodes_headedI [of _ 8 4 "octets 4 (ucast w :: u32)"])
  fix off rest
  define x where "x = (ucast w :: u32)"
  assume "drop off b = octets 4 (ucast w :: u32) @ rest"
  then have d: "drop off b = octets 4 x @ rest" by (simp add: x_def)
  have "b ! off = ucast (drop_bit 24 x)"
    using d by (intro drop_ConsD(1)) (simp add: octets_4)
  then have "b ! off AND 0x80 \<noteq> 0 \<longleftrightarrow> bit x 31"
    unfolding high_bit_octet by (simp add: bit_simps)
  moreover have "(ucast x :: u64) - (if bit x 31 then push_bit 32 1 else 0) = w"
    using int32_octets [OF assms] by (simp add: x_def)
  ultimately show "decode_typed (decode b base left) b 8 4 off = Inr (AInt64 w, off + length (octets 4 (ucast w :: u32)))"
    using d by (cases "bit x 31") (simp_all add: decode_typed_def bytes_uint_from_octets from_octets_word32)
qed (simp_all add: max_size_def)

lemma decodes_ABool: "decodes b base (Suc left) (ABool c)"
  by (rule decodes_headedI [of _ 14 "of_bool c" "[]"]) (simp_all add: decode_typed_def max_size_def)

lemma decodes_AMap:
  assumes "length m < max_size" and "distinct (map fst m)"
    and "\<And>k v. (k, v) \<in> set m \<Longrightarrow> decodes b base left (AString k) \<and> decodes b base left v"
  shows "decodes b base (Suc left) (AMap m)"
proof (rule decodes_headedI [of _ 7 "length m" "concat (map (\<lambda>(k, v). encode (AString k) @ encode v) m)"])
  let ?body = "concat (map (\<lambda>(k, v). encode (AString k) @ encode v) m)"
  have "length m \<le> length ?body"
  proof (rule length_concat_ge)
    show "0 < length ((\<lambda>(k, v). encode (AString k) @ encode v) kv)" for kv by (cases kv) simp
  qed
  then show "length m \<le> Suc (length ?body)" by simp
  show "decode_typed (decode b base left) b 7 (length m) off = Inr (AMap m, off + length ?body)"
    if "drop off b = ?body @ rest" "rest \<noteq> []" for off rest
    using decode_map_items [OF assms(3) that, of "[]"] assms(2) by (simp add: decode_typed_def)
qed (use assms(1) in simp_all)

lemma decodes_AArray:
  assumes "length a < max_size" and "\<And>v. v \<in> set a \<Longrightarrow> decodes b base left v \<and> 0 < length (encode v)"
  shows "decodes b base (Suc left) (AArray a)"
proof (rule decodes_headedI [of _ 11 "length a" "concat (map encode a)"])
  have "length a \<le> length (concat (map encode a))"
    by (rule length_concat_ge) (use assms(2) in blast)
  then show "length a \<le> Suc (length (concat (map encode a)))" by simp
  show "decode_typed (decode b base left) b 11 (length a) off = Inr (AArray a, off + length (concat (map encode a)))"
    if "drop off b = concat (map encode a) @ rest" "rest \<noteq> []" for off rest
    using decode_array_items [OF _ that, of base left "[]"] assms(2) by (simp add: decode_typed_def)
qed (use assms(1) in simp_all)

lemma encodable_decodes: "encodable left v \<Longrightarrow> decodes b base left v"
proof (induction left v rule: encodable.induct)
  case (8 left m)
  have "decodes b base left (AString k) \<and> decodes b base left v" if "(k, v) \<in> set m" for k v
  proof -
    have kv: "0 < left" "length k < max_size" "encodable left v"
      using 8(2) that by (auto simp: list_all_iff)
    then show ?thesis using 8(1) [OF that refl] by (cases left) (auto intro: decodes_AString)
  qed
  then show ?case using 8(2) by (intro decodes_AMap) simp_all
next
  case (9 left a)
  then show ?case by (intro decodes_AArray) (auto simp: list_all_iff simp del: length_greater_0_conv dest: encode_length_pos)
qed (auto intro: decodes_AString decodes_AFloat64 decodes_ABytes decodes_AUint64 decodes_AInt64 decodes_ABool)

lemma decode_encoded:
  "encodable maxDecodeDepth v \<Longrightarrow> rest \<noteq> [] \<Longrightarrow>
   decode (front @ encode v @ rest) base maxDecodeDepth (int (length front)) = Inr (v, length front + length (encode v))"
  by (rule decodesD [OF encodable_decodes]) simp_all


lemma maxDecodeDepth_Suc: obtains n where "maxDecodeDepth = Suc (Suc (Suc (Suc n)))"
  by (rule that [of 60]) (simp add: maxDecodeDepth_def)

definition sample_record :: any where
  "sample_record =
     AMap [(''country'', AMap [(''iso_code'', AString ''CN''), (''geoname_id'', AUint64 1814991)]),
           (''ids'', AArray [AInt64 (- 5), ABool True])]"


text \<open>
  The octet after the value is needed: the size field of a boolean is its value, and the test that
  the content lies inside the buffer takes it for a length.
\<close>

lemma bool_at_end: "decode (encode (ABool True)) 0 maxDecodeDepth 0 = Inl ValueTruncated"
proof -
  have "encode (ABool True) = [1, 7]" by (simp add: enc_head_def enc_size_def)
  moreover obtain n where n: "maxDecodeDepth = Suc (Suc (Suc (Suc n)))" by (rule maxDecodeDepth_Suc)
  ultimately show ?thesis unfolding n by (simp add: decode_value_def decode_size_def)
qed

text \<open>Pointers, in their four sizes.\<close>

definition enc_pointer :: "nat \<Rightarrow> u8 list" where
  "enc_pointer p =
     (if p < 2048 then [word_of_nat (32 + p div 256), word_of_nat (p mod 256)]
      else if p < 526336 then word_of_nat (40 + (p - 2048) div 65536) # octets 2 (word_of_nat ((p - 2048) mod 65536) :: u16)
      else if p < 526336 + 2 ^ 27 then
        word_of_nat (48 + (p - 526336) div 2 ^ 24) # octets 3 (word_of_nat ((p - 526336) mod 2 ^ 24) :: u32)
      else 56 # octets 4 (word_of_nat p :: u32))"

lemma pointer_ctrl:
  assumes "k < 4" and "l < 8"
  shows "unat (drop_bit 5 (word_of_nat (32 + 8 * k + l) :: u8)) = 1"
    and "drop_bit 3 (word_of_nat (32 + 8 * k + l) :: u8) AND 3 = word_of_nat k"
    and "unat ((word_of_nat (32 + 8 * k + l) :: u8) AND 7) = l"
proof -
  have u: "unat (word_of_nat (32 + 8 * k + l) :: u8) = 32 + 8 * k + l"
    using assms by (intro unat_octet) simp
  show "unat (drop_bit 5 (word_of_nat (32 + 8 * k + l) :: u8)) = 1"
    unfolding unat_drop_bit_eq u using assms by (simp add: drop_bit_eq_div)
  have m: "(3 :: u8) = mask 2" "(7 :: u8) = mask 3" by (simp_all add: mask_eq_exp_minus_1)
  have "unat (drop_bit 3 (word_of_nat (32 + 8 * k + l) :: u8) AND 3) = k"
  proof -
    have "(32 + 8 * k + l) div 8 = 4 + k" using assms(2) by (intro div_nat_eqI) simp_all
    then show ?thesis
      unfolding m unat_and_mask unat_drop_bit_eq u using assms by (simp add: drop_bit_eq_div)
  qed
  moreover have "unat (word_of_nat k :: u8) = k" using assms by (intro unat_octet) simp
  ultimately show "drop_bit 3 (word_of_nat (32 + 8 * k + l) :: u8) AND 3 = word_of_nat k"
    by (simp add: word_unat_eq_iff)
  show "unat ((word_of_nat (32 + 8 * k + l) :: u8) AND 7) = l"
  proof -
    have "32 + 8 * k + l = l + (4 + k) * 2 ^ 3" by simp
    then show ?thesis unfolding m unat_and_mask u using assms(2) by (simp only: mod_mult_self1) simp
  qed
qed

definition reads_pointer :: "nat \<Rightarrow> u8 \<Rightarrow> u8 list \<Rightarrow> bool" where
  "reads_pointer p ctrl tail \<longleftrightarrow> (\<forall>dec b base off rest. drop off b = tail @ rest \<longrightarrow>
     decode_pointer dec b base ctrl off = bind_res (dec (go_int (base + int p))) (\<lambda>(v, _). Inr (v, off + length tail)))"

lemma reads_pointer_1:
  assumes "p < 2048"
  shows "reads_pointer p (word_of_nat (32 + 8 * 0 + p div 256)) [word_of_nat (p mod 256)]"
  unfolding reads_pointer_def
proof (intro allI impI)
  fix dec base off rest
  fix b :: "u8 list"
  assume d: "drop off b = [word_of_nat (p mod 256)] @ rest"
  note e = drop_ConsD [OF d [simplified]]
  have "p div 256 < 8" "unat (word_of_nat (p mod 256) :: u8) = p mod 256"
    using assms by (simp_all add: unat_octet del: of_nat_mod)
  then show "decode_pointer dec b base (word_of_nat (32 + 8 * 0 + p div 256)) off =
    bind_res (dec (go_int (base + int p))) (\<lambda>(v, _). Inr (v, off + length [word_of_nat (p mod 256) :: u8]))"
    using pointer_ctrl [of 0 "p div 256"] e by (simp add: decode_pointer_def Let_def)
qed

lemma reads_pointer_2:
  assumes "2048 \<le> p" and "p < 526336"
  shows "reads_pointer p (word_of_nat (32 + 8 * 1 + (p - 2048) div 65536))
    (octets 2 (word_of_nat ((p - 2048) mod 65536) :: u16))"
  unfolding reads_pointer_def
proof (intro allI impI)
  fix dec b base off rest
  define q where "q = p - 2048"
  define x where "x = (word_of_nat (q mod 65536) :: u16)"
  assume "drop off b = octets 2 (word_of_nat ((p - 2048) mod 65536) :: u16) @ rest"
  then have d: "drop off b = octets 2 x @ rest" by (simp add: x_def q_def)
  have l: "q div 65536 < 8" using assms by (simp add: q_def less_mult_imp_div_less)
  have u: "unat x = q mod 65536" unfolding x_def by (simp add: unsigned_of_nat take_bit_eq_mod)
  have p: "q div 65536 * 65536 + q mod 65536 + 2048 = p" using assms by (simp add: q_def)
  have "BE_Uint16 (drop off b) = x" "off + 2 \<le> length b"
    using drop_appendD(2) [OF d] arg_cong [OF d, of length] by (simp_all add: BE_Uint16_def from_octets_octets)
  then show "decode_pointer dec b base (word_of_nat (32 + 8 * 1 + (p - 2048) div 65536)) off =
    bind_res (dec (go_int (base + int p)))
      (\<lambda>(v, _). Inr (v, off + length (octets 2 (word_of_nat ((p - 2048) mod 65536) :: u16))))"
    using pointer_ctrl [of 1 "q div 65536"] l u p
    by (simp add: decode_pointer_def Let_def flip: q_def)
qed

lemma reads_pointer_3:
  assumes "526336 \<le> p" and "p < 526336 + 2 ^ 27"
  shows "reads_pointer p (word_of_nat (32 + 8 * 2 + (p - 526336) div 2 ^ 24))
    (octets 3 (word_of_nat ((p - 526336) mod 2 ^ 24) :: u32))"
  unfolding reads_pointer_def
proof (intro allI impI)
  fix dec b base off rest
  define q where "q = p - 526336"
  define x where "x = (word_of_nat (q mod 2 ^ 24) :: u32)"
  assume "drop off b = octets 3 (word_of_nat ((p - 526336) mod 2 ^ 24) :: u32) @ rest"
  then have d: "drop off b = ucast (drop_bit 16 x) # ucast (drop_bit 8 x) # ucast x # rest"
    by (simp only: x_def q_def octets_3) simp
  have l: "q div 2 ^ 24 < 8" using assms by (simp add: q_def less_mult_imp_div_less)
  have u: "unat (ucast (drop_bit 16 x) :: u8) * 65536 + unat (ucast (drop_bit 8 x) :: u8) * 256 + unat (ucast x :: u8)
      = q mod 2 ^ 24"
    unfolding x_def by (rule octets_3_value) simp
  have p: "q div 2 ^ 24 * 2 ^ 24 + q mod 2 ^ 24 + 526336 = p" using assms by (simp add: q_def)
  note d1 = drop_ConsD [OF d]
  note d2 = drop_ConsD [OF d1(2)]
  note d3 = drop_ConsD [OF d2(2)]
  show "decode_pointer dec b base (word_of_nat (32 + 8 * 2 + (p - 526336) div 2 ^ 24)) off =
    bind_res (dec (go_int (base + int p)))
      (\<lambda>(v, _). Inr (v, off + length (octets 3 (word_of_nat ((p - 526336) mod 2 ^ 24) :: u32))))"
    using pointer_ctrl [of 2 "q div 2 ^ 24"] l u p d1 d2 d3
    by (simp add: decode_pointer_def Let_def add.assoc flip: q_def)
qed

lemma reads_pointer_4:
  assumes "p < 2 ^ 32"
  shows "reads_pointer p (word_of_nat (32 + 8 * 3 + 0)) (octets 4 (word_of_nat p :: u32))"
  unfolding reads_pointer_def
proof (intro allI impI)
  fix dec b base off rest
  assume d: "drop off b = octets 4 (word_of_nat p :: u32) @ rest"
  have "BE_Uint32 (drop off b) = word_of_nat p" "off + 4 \<le> length b"
    using drop_appendD(2) [OF d] arg_cong [OF d, of length] by (simp_all add: BE_Uint32_def from_octets_octets)
  moreover have "unat (word_of_nat p :: u32) = p"
    using assms by (simp add: unsigned_of_nat take_bit_eq_mod)
  ultimately show "decode_pointer dec b base (word_of_nat (32 + 8 * 3 + 0)) off =
    bind_res (dec (go_int (base + int p))) (\<lambda>(v, _). Inr (v, off + length (octets 4 (word_of_nat p :: u32))))"
    using pointer_ctrl [of 3 0] by (simp add: decode_pointer_def Let_def)
qed

lemma pointer_shape:
  assumes "p < 2 ^ 32"
  shows "\<exists>k l tail. k < 4 \<and> l < 8 \<and> enc_pointer p = word_of_nat (32 + 8 * k + l) # tail \<and>
    reads_pointer p (word_of_nat (32 + 8 * k + l)) tail"
proof -
  consider "p < 2048" | "2048 \<le> p" "p < 526336" | "526336 \<le> p" "p < 526336 + 2 ^ 27" | "526336 + 2 ^ 27 \<le> p"
    by linarith
  then show ?thesis
  proof cases
    case 1
    with reads_pointer_1 [OF 1] show ?thesis
      by (intro exI [of _ "0 :: nat"] exI [of _ "p div 256"] exI [of _ "[word_of_nat (p mod 256)]"])
        (simp add: enc_pointer_def less_mult_imp_div_less)
  next
    case 2
    with reads_pointer_2 [OF 2] show ?thesis
      by (intro exI [of _ "1 :: nat"] exI [of _ "(p - 2048) div 65536"] exI [of _ "octets 2 (word_of_nat ((p - 2048) mod 65536) :: u16)"])
        (simp add: enc_pointer_def less_mult_imp_div_less)
  next
    case 3
    with reads_pointer_3 [OF 3] show ?thesis
      by (intro exI [of _ "2 :: nat"] exI [of _ "(p - 526336) div 2 ^ 24"] exI [of _ "octets 3 (word_of_nat ((p - 526336) mod 2 ^ 24) :: u32)"])
        (simp add: enc_pointer_def less_mult_imp_div_less)
  next
    case 4
    with reads_pointer_4 [OF assms] show ?thesis
      by (intro exI [of _ "3 :: nat"] exI [of _ "0 :: nat"] exI [of _ "octets 4 (word_of_nat p :: u32)"])
        (simp add: enc_pointer_def less_mult_imp_div_less)
  qed
qed

text \<open>A pointer of the data section is followed to the value at its target, one level deeper, and
  reading goes on after the pointer; all the four sizes of pointers are read back.\<close>

theorem decode_pointer_target:
  assumes "p < 2 ^ 32" and "0 \<le> base" and "base < 2 ^ 62"
  shows "decode (front @ enc_pointer p @ rest) base (Suc left) (int (length front)) =
    bind_res (decode (front @ enc_pointer p @ rest) base left (base + int p))
      (\<lambda>(v, _). Inr (v, length front + length (enc_pointer p)))"
proof -
  let ?b = "front @ enc_pointer p @ rest"
  obtain k l tail where kl: "k < 4" "l < 8" and enc: "enc_pointer p = word_of_nat (32 + 8 * k + l) # tail"
    and dec: "reads_pointer p (word_of_nat (32 + 8 * k + l)) tail"
    using pointer_shape [OF assms(1)] by blast
  have nth: "?b ! length front = word_of_nat (32 + 8 * k + l)" by (simp add: enc)
  have "go_int (base + int p) = base + int p"
    using assms by (simp add: go_int_def signed_take_bit_int_eq_self)
  moreover have "drop (Suc (length front)) ?b = tail @ rest" by (simp add: enc)
  ultimately show ?thesis
    using pointer_ctrl(1) [OF kl] dec [unfolded reads_pointer_def, rule_format, of "Suc (length front)" ?b rest "decode ?b base left" base] nth
    by (simp add: decode_value_def Let_def enc)
qed

theorem decode_pointer_target_witness:
  "decode (encode (AString ''CN'') @ enc_pointer 0 @ []) 0 (Suc 1) (int (length (encode (AString ''CN'')))) =
    bind_res (decode (encode (AString ''CN'') @ enc_pointer 0 @ []) 0 1 (0 + int 0))
      (\<lambda>(v, _). Inr (v, length (encode (AString ''CN'')) + length (enc_pointer 0)))"
  by (rule decode_pointer_target) simp_all

end
