(* ===== verification/MMDB_Facts.thy ===== *)
theory MMDB_Facts
  imports MMDB_Format
begin

text \<open>
  What the MaxMind reader guarantees: the walk over the IPv4 networks and the lookup of an address
  agree, and records of the three sizes are read back.
\<close>

unbundle bit_operations_syntax

section \<open>The bits of an address\<close>

lemma packed_bit_octets:
  assumes "i < 32"
  shows "packed_bit (pre @ octets 4 (w :: u32) @ post) (8 * length pre + i) = of_bool (bit w (31 - i))"
proof -
  have "(8 * length pre + i) div 8 = length pre + i div 8" "(8 * length pre + i) mod 8 = i mod 8" by simp_all
  moreover have "i div 8 < 4" using assms by simp
  moreover have "7 - i mod 8 + 8 * (4 - 1 - i div 8) = 31 - i"
    using assms by presburger
  moreover have "7 - i mod 8 < 8" by simp
  moreover have "unat (drop_bit m x AND 1) = of_bool (bit x m)" for m and x :: u8
    by (simp add: and_one_eq mod_2_eq_odd bit_iff_odd_drop_bit)
  ultimately show ?thesis
    by (simp add: packed_bit_def nth_append octets_nth bit_simps add.commute)
qed

lemma descend_append:
  "descend child n (xs @ ys) node = bind_res (descend child n xs node) (descend child n ys)"
proof (induction xs arbitrary: node)
  case (Cons x xs)
  have "descend child n ys node = Inr node" if "n \<le> node" using that by (cases ys) auto
  with Cons show ?case by (cases "child node x") auto
qed simp

lemma packed_bits_v4:
  "packed_bits (octets 4 w @ replicate 12 0) 32 = addr_bits w"
  using packed_bit_octets [of _ "[]" w "replicate 12 0"]
  by (auto simp: packed_bits_def addr_bits_def)

lemma packed_bits_mapped:
  "packed_bits (replicate 10 0 @ [0xff, 0xff] @ octets 4 w) 128 =
     map (\<lambda>i. if 80 \<le> i \<and> i < 96 then 1 else 0) [0..<96] @ addr_bits w"
proof -
  let ?p = "replicate 10 0 @ [0xff, 0xff] @ octets 4 w :: u8 list"
  have upt: "[0..<a + b] = [0..<a] @ map (\<lambda>i. a + i) [0..<b]" for a b
    by (induction b) simp_all
  have "packed_bits ?p (96 + 32) = map (packed_bit ?p) [0..<96] @ map (\<lambda>i. packed_bit ?p (96 + i)) [0..<32]"
    unfolding packed_bits_def upt by simp
  then have "packed_bits ?p 128 = map (packed_bit ?p) [0..<96] @ map (\<lambda>i. packed_bit ?p (96 + i)) [0..<32]"
    by simp
  moreover have "map (packed_bit ?p) [0..<96] = map (\<lambda>i. if 80 \<le> i \<and> i < 96 then 1 else 0) [0..<96]"
    by code_simp
  moreover have "map (\<lambda>i. packed_bit ?p (96 + i)) [0..<32] = addr_bits w"
    using packed_bit_octets [of _ "replicate 10 0 @ [0xff, 0xff]" w "[]"]
    by (auto simp: addr_bits_def)
  ultimately show ?thesis by simp
qed

section \<open>The reader meets the contract\<close>

definition mm_usable :: "mmdb \<Rightarrow> bool" where
  "mm_usable r \<longleftrightarrow> mm_ipVersion r \<in> {4, 6} \<and>
     (case v4Root r of Inl _ \<Rightarrow> False | Inr root \<Rightarrow> root < mm_nodeCount r)"

definition mm_root4 :: "mmdb \<Rightarrow> int" where
  "mm_root4 r = (case v4Root r of Inl _ \<Rightarrow> 0 | Inr root \<Rightarrow> root)"

text \<open>The country of an IPv4 address: a list of one code, or none.\<close>

definition mm_country4 :: "mmdb \<Rightarrow> u32 \<Rightarrow> string list" where
  "mm_country4 r w =
     (case mmdb_Get r (v4_String w) of
        Inr (Some rec) \<Rightarrow> if CountryCodeOf rec = [] then [] else [CountryCodeOf rec]
      | _ \<Rightarrow> [])"

lemma mmdb_Get_v4:
  "mm_ipVersion r = 4 \<or> mm_ipVersion r = 6 \<Longrightarrow>
   mmdb_Get r (v4_String w) =
     bind_res (v4Root r) (\<lambda>root.
     bind_res (descend (readNode r) (mm_nodeCount r) (addr_bits w) root) (\<lambda>node.
       if node \<le> mm_nodeCount r then Inr None
       else bind_res (decode (mm_data r) (mm_dataBase r) maxDecodeDepth (leaf_offset r node)) (\<lambda>(v, _).
         Inr (as_map v))))"
proof -
  assume "mm_ipVersion r = 4 \<or> mm_ipVersion r = 6"
  moreover have "bind_res (bind_res x f) g = bind_res x (\<lambda>y. bind_res (f y) g)" for x f g by (cases x) auto
  ultimately show ?thesis
    by (auto simp: mmdb_Get_def TrimSpace_v4_String ParseAddr_v4_String mmdb_packed_def v4Root_def
        packed_bits_v4 packed_bits_mapped [simplified] descend_append)
qed

lemma mm_country4_found:
  assumes "mm_usable r"
  shows "mm_country4 r w =
    found (mm_nodeCount r) (\<lambda>child. mmdbCountryCode (decodeAt r child)) (\<lambda>code. code = [])
      (descend (readNode r) (mm_nodeCount r) (addr_bits w) (mm_root4 r))"
proof -
  obtain root where root: "v4Root r = Inr root" "root < mm_nodeCount r" and v: "mm_ipVersion r = 4 \<or> mm_ipVersion r = 6"
    using assms by (auto simp: mm_usable_def split: sum.splits)
  have nil: "mmdbCountryCode [] = []" by (simp add: mmdbCountryCode_def any_at_def any_string_def)
  show ?thesis
    using mmdb_Get_v4 [OF v, of w] nil
    by (auto simp: mm_country4_def mm_root4_def root found_def decodeAt_def CountryCodeOf_def
        split: sum.splits option.splits)
qed

interpretation mm: trie_reader readNode mm_nodeCount mm_root4
    "\<lambda>r child. mmdbCountryCode (decodeAt r child)" "\<lambda>code. code = []" mm_usable mm_country4
    "\<lambda>r. mmdb_WalkV4 r record_visit []"
proof unfold_locales
  fix r w
  assume r: "mm_usable r"
  then show "mm_root4 r < mm_nodeCount r"
    by (auto simp: mm_usable_def mm_root4_def split: sum.splits)
  show "mm_country4 r w =
    found (mm_nodeCount r) (\<lambda>child. mmdbCountryCode (decodeAt r child)) (\<lambda>code. code = [])
      (descend (readNode r) (mm_nodeCount r) (addr_bits w) (mm_root4 r))"
    by (rule mm_country4_found [OF r])
  show "mmdb_WalkV4 r record_visit [] =
    walk_loop (readNode r) (mm_nodeCount r) (\<lambda>child. mmdbCountryCode (decodeAt r child)) (\<lambda>code. code = [])
      record_visit (walk_start (mm_root4 r) [])"
    using r by (auto simp: mm_usable_def mm_root4_def mmdb_WalkV4_def split: sum.splits)
qed

text \<open>C19: The walk over the IPv4 networks of a MaxMind database and the lookup of one address agree:
  for every IPv4 address the networks reported by a successful walk that contain it are exactly what
  the lookup finds, one network with the country of the address or none at all. This holds where the
  database has IPv4 networks at all, its IPv4 root being a node of the tree.\<close>

theorem WalkV4_agrees_with_Get:
  assumes "mm_ipVersion r = 4 \<or> mm_ipVersion r = 6"
    and "v4Root r = Inr root" and "root < mm_nodeCount r"
    and "mmdb_WalkV4 r record_visit [] = (None, vs)"
  shows "map snd (filter (\<lambda>(p, _). pfx_Contains p (Addr4 w)) vs) =
    (case mmdb_Get r (v4_String w) of
       Inr (Some rec) \<Rightarrow> if CountryCodeOf rec = [] then [] else [CountryCodeOf rec]
     | _ \<Rightarrow> [])"
proof -
  have "mm_usable r" using assms(1-3) by (auto simp: mm_usable_def)
  from mm.walk_reports_lookup [OF this assms(4), of w] show ?thesis
    by (simp add: holding_def mm_country4_def)
qed

definition sample_country :: any where
  "sample_country = AMap [(''country'', AMap [(''iso_code'', AString ''CN'')])]"

definition sample_mmdb :: mmdb where
  "sample_mmdb =
     \<lparr>mm_data = ([0, 0, 17, 0, 0, 1] @ replicate 16 0) @ encode sample_country @ [0],
      mm_recordSize = 24, mm_nodeCount = 1, mm_ipVersion = 4, mm_dataBase = 22, mm_Metadata = [],
      mm_BuildEpoch = 0\<rparr>"

lemma sample_mmdb_nodes:
  "readNode sample_mmdb 0 (Suc 0) = Inr 1" "readNode sample_mmdb 0 0 = Inr 17"
  by (simp_all add: sample_mmdb_def readNode_def go_int_def)

lemma sample_mmdb_leaf:
  "mmdbCountryCode (decodeAt sample_mmdb 17) = ''CN''"
proof -
  obtain n where n: "maxDecodeDepth = Suc (Suc (Suc (Suc n)))" by (rule maxDecodeDepth_Suc)
  have "encodable maxDecodeDepth sample_country"
    unfolding n by (simp add: sample_country_def max_size_def)
  from decode_encoded [OF this, of "[0]" "[0, 0, 17, 0, 0, 1] @ replicate 16 0" 22]
  have "decode (mm_data sample_mmdb) 22 maxDecodeDepth 22 = Inr (sample_country, 22 + length (encode sample_country))"
    by (simp add: sample_mmdb_def del: decode.simps)
  then show ?thesis
    by (simp add: decodeAt_def leaf_offset_def go_int_def sample_mmdb_def sample_country_def as_map_def
        mmdbCountryCode_def any_at_def any_string_def)
qed

lemma sample_mmdb_walk:
  "mmdb_WalkV4 sample_mmdb record_visit [] = (None, [(Prefix (Addr4 0) 1, ''CN'')])"
proof -
  have "v4Root sample_mmdb = Inr 0" "mm_nodeCount sample_mmdb = 1"
    by (simp_all add: v4Root_def sample_mmdb_def)
  then show ?thesis
    by (simp add: mmdb_WalkV4_def walk_start_def walk_loop.simps(2) walk_child_def sample_mmdb_nodes
        sample_mmdb_leaf record_visit_def child_prefix_def child_value_def shl32_def PrefixFrom_def)
qed

theorem WalkV4_agrees_with_Get_witness:
  "map snd (filter (\<lambda>(p, _). pfx_Contains p (Addr4 5)) [(Prefix (Addr4 0) 1, ''CN'')]) =
    (case mmdb_Get sample_mmdb (v4_String 5) of
       Inr (Some rec) \<Rightarrow> if CountryCodeOf rec = [] then [] else [CountryCodeOf rec]
     | _ \<Rightarrow> [])"
  by (rule WalkV4_agrees_with_Get [OF _ _ _ sample_mmdb_walk, where root = 0])
    (simp_all add: sample_mmdb_def v4Root_def)

section \<open>The search tree\<close>

text \<open>The two records of a node, in the layouts of the three record sizes.\<close>

definition enc_node :: "int \<Rightarrow> nat \<times> nat \<Rightarrow> u8 list" where
  "enc_node rsz = (\<lambda>(l, r).
     if rsz = 24 then octets 3 (word_of_nat l :: u32) @ octets 3 (word_of_nat r :: u32)
     else if rsz = 32 then octets 4 (word_of_nat l :: u32) @ octets 4 (word_of_nat r :: u32)
     else octets 3 (word_of_nat (l mod 2 ^ 24) :: u32)
       @ [word_of_nat (l div 2 ^ 24 * 16 + r div 2 ^ 24)] @ octets 3 (word_of_nat (r mod 2 ^ 24) :: u32))"

lemma length_enc_node:
  "rsz = 24 \<or> rsz = 28 \<or> rsz = 32 \<Longrightarrow> length (enc_node rsz n) = nat (rsz * 2 div 8)"
  by (auto simp: enc_node_def split: prod.split)

lemma nth_block:
  assumes "\<And>x. x \<in> set xs \<Longrightarrow> length (f x) = k" and "i < length xs" and "j < k"
  shows "(concat (map f xs) @ rest) ! (i * k + j) = f (xs ! i) ! j"
    and "i * k + k \<le> length (concat (map f xs))"
  using assms
proof (induction xs arbitrary: i)
  case (Cons x xs)
  { case 1 with Cons show ?case by (cases i) (auto simp: nth_append algebra_simps) }
  { case 2 with Cons show ?case by (cases i) (auto simp: algebra_simps) }
qed simp_all

lemma nibble_octet:
  assumes "h < 16" and "l < 16"
  shows "unat (word_of_nat (h * 16 + l) AND 0xf0 :: u8) = h * 16"
    and "unat (word_of_nat (h * 16 + l) AND 0x0f :: u8) = l"
proof -
  have u: "unat (word_of_nat (h * 16 + l) :: u8) = h * 16 + l"
    using assms by (intro unat_octet) simp
  have m: "(0xf0 :: u8) = NOT (mask 4)" "(0x0f :: u8) = mask 4" by (simp_all add: mask_eq_exp_minus_1)
  show "unat (word_of_nat (h * 16 + l) AND 0x0f :: u8) = l"
    unfolding m unat_and_mask u using assms by simp
  show "unat (word_of_nat (h * 16 + l) AND 0xf0 :: u8) = h * 16"
    unfolding m unat_and_not_mask u using assms by simp
qed

lemma octets_3_nth:
  "octets 3 (w :: u32) ! 0 = ucast (drop_bit 16 w)" "octets 3 (w :: u32) ! Suc 0 = ucast (drop_bit 8 w)"
  "octets 3 (w :: u32) ! 2 = ucast w"
  by (simp_all add: octets_3)

lemma readNode_range:
  assumes "mm_recordSize r = 24 \<or> mm_recordSize r = 28 \<or> mm_recordSize r = 32"
    and "mm_data r = concat (map (enc_node (mm_recordSize r)) nodes) @ rest"
    and "int (length (mm_data r)) < 2 ^ 62" and "i < length nodes"
  defines "w \<equiv> nat (mm_recordSize r * 2 div 8)"
  shows "go_int (int i * (mm_recordSize r * 2 div 8)) = int (i * w)"
    and "go_int (int (i * w) + mm_recordSize r * 2 div 8) \<le> int (length (mm_data r))"
    and "j < w \<Longrightarrow> mm_data r ! (i * w + j) = enc_node (mm_recordSize r) (nodes ! i) ! j"
    and "i * w + w \<le> length (mm_data r)"
proof -
  have w: "mm_recordSize r * 2 div 8 = int w" "0 < w" using assms(1) by (auto simp: w_def)
  have len: "length (enc_node (mm_recordSize r) x) = w" for x
    unfolding w_def by (rule length_enc_node [OF assms(1)])
  show l: "i * w + w \<le> length (mm_data r)"
    using nth_block(2) [of nodes "enc_node (mm_recordSize r)" w i 0] len assms(2,4) w(2) by simp
  from l have b: "int (i * w) + int w \<le> int (length (mm_data r))" by linarith
  then have g: "go_int x = x" if "0 \<le> x" "x \<le> int (i * w) + int w" for x
    using that assms(3) by (simp add: go_int_def signed_take_bit_int_eq_self)
  show "go_int (int i * (mm_recordSize r * 2 div 8)) = int (i * w)"
    using g [of "int (i * w)"] by (simp add: w)
  show "go_int (int (i * w) + mm_recordSize r * 2 div 8) \<le> int (length (mm_data r))"
    using b g [of "int (i * w) + int w"] by (simp add: w)
  show "mm_data r ! (i * w + j) = enc_node (mm_recordSize r) (nodes ! i) ! j" if "j < w"
    using nth_block(1) [of nodes "enc_node (mm_recordSize r)" w i j] len assms(2,4) that by simp
qed

lemma nat_int_mult: "nat (int i * 6) = i * 6" "nat (int i * 7) = i * 7" "nat (int i * 8) = i * 8"
  by simp_all

lemma take_drop_nth:
  "(\<And>j. j < n \<Longrightarrow> d ! (k + j) = xs ! j) \<Longrightarrow> k + n \<le> length d \<Longrightarrow> length xs = n \<Longrightarrow> take n (drop k d) = xs"
  by (rule nth_equalityI) simp_all

text \<open>The records of a node are read back for both bits and the three record sizes of the format,
  where the middle octet of a 28-bit node holds the high bits of both records.\<close>

theorem readNode_layout:
  assumes "mm_recordSize r = 24 \<or> mm_recordSize r = 28 \<or> mm_recordSize r = 32"
    and "mm_data r = concat (map (enc_node (mm_recordSize r)) nodes) @ rest"
    and "int (length (mm_data r)) < 2 ^ 62"
    and "i < length nodes" and "nodes ! i = (left, right)"
    and "left < 2 ^ nat (mm_recordSize r)" and "right < 2 ^ nat (mm_recordSize r)" and "b \<le> 1"
  shows "readNode r (int i) b = Inr (int (if b = 0 then left else right))"
proof -
  let ?d = "mm_data r"
  note range = readNode_range [OF assms(1-4)]
  have b: "b = 0 \<or> b = Suc 0" using assms(8) by auto
  note plain = readNode_def Let_def nat_int_mult octets_3_nth nth_append
  consider "mm_recordSize r = 24" | "mm_recordSize r = 32" | "mm_recordSize r = 28" using assms(1) by blast
  then show ?thesis
  proof cases
    case 1
    have "?d ! (i * 6 + j) = (octets 3 (word_of_nat left :: u32) @ octets 3 (word_of_nat right :: u32)) ! j"
      if "j < 6" for j
      using range(3) [of j] that 1 assms(5) by (simp add: enc_node_def)
    from this [of 0] this [of 1] this [of 2] this [of 3] this [of 4] this [of 5]
    show ?thesis using b range(1,2) 1 octets_3_value [of left] octets_3_value [of right] assms(6,7)
      by (auto simp: plain add.commute [of _ "i * 6"] simp del: of_nat_unat of_nat_add of_nat_mult)
  next
    case 2
    have l: "unat (word_of_nat left :: u32) = left" "unat (word_of_nat right :: u32) = right"
      using assms(6,7) 2 by (simp_all add: unsigned_of_nat take_bit_eq_mod)
    have "?d ! (i * 8 + j) = (octets 4 (word_of_nat left :: u32) @ octets 4 (word_of_nat right :: u32)) ! j"
      if "j < 8" for j
      using range(3) [of j] that 2 assms(5) by (simp add: enc_node_def)
    then have nth: "?d ! (i * 8 + j) = octets 4 (word_of_nat left :: u32) ! j"
        "?d ! (i * 8 + 4 + j) = octets 4 (word_of_nat right :: u32) ! j" if "j < 4" for j
      using that by (simp_all add: nth_append add.assoc)
    have len: "i * 8 + 8 \<le> length ?d" using range(4) 2 by simp
    have "BE_Uint32 (drop (i * 8) ?d) = word_of_nat left" "BE_Uint32 (drop (i * 8 + 4) ?d) = word_of_nat right"
      using take_drop_nth [OF nth(1)] take_drop_nth [OF nth(2)] len by (simp_all add: BE_Uint32_def from_octets_octets)
    then show ?thesis using b range(1,2) 2 l
      by (auto simp: plain add.commute [of _ "i * 8"] simp del: of_nat_unat of_nat_add of_nat_mult)
  next
    case 3
    obtain lh lm where l: "left = lh * 2 ^ 24 + lm" "lm < 2 ^ 24" "left div 2 ^ 24 = lh" "left mod 2 ^ 24 = lm"
      by (rule that [of "left div 2 ^ 24" "left mod 2 ^ 24"]) simp_all
    obtain rh rm where r: "right = rh * 2 ^ 24 + rm" "rm < 2 ^ 24" "right div 2 ^ 24 = rh" "right mod 2 ^ 24 = rm"
      by (rule that [of "right div 2 ^ 24" "right mod 2 ^ 24"]) simp_all
    have h: "lh < 16" "rh < 16" using assms(6,7) 3 l r by simp_all
    have "?d ! (i * 7 + j) = (octets 3 (word_of_nat lm :: u32) @ [word_of_nat (lh * 16 + rh)]
        @ octets 3 (word_of_nat rm :: u32)) ! j" if "j < 7" for j
      using range(3) [of j] that 3 unfolding assms(5) enc_node_def prod.case l(3,4) r(3,4) by simp
    from this [of 0] this [of 1] this [of 2] this [of 3] this [of 4] this [of 5] this [of 6]
    show ?thesis using b range(1,2) 3 octets_3_value [OF l(2)] octets_3_value [OF r(2)] nibble_octet [OF h] l(1) r(1)
      by (auto simp: plain add.commute [of _ "i * 7"] simp del: of_nat_unat of_nat_add of_nat_mult)
  qed
qed

definition sample_28 :: mmdb where
  "sample_28 = sample_mmdb\<lparr>mm_recordSize := 28,
     mm_data := concat (map (enc_node 28) [(1, 2), (0x5000001, 3)]) @ [0]\<rparr>"

theorem readNode_layout_witness:
  "readNode sample_28 (int 1) 0 = Inr (int (if (0::nat) = 0 then 0x5000001 else 3))"
  by (rule readNode_layout [where nodes = "[(1, 2), (0x5000001, 3)]" and rest = "[0]"])
    (simp_all add: sample_28_def enc_node_def)

section \<open>A database without IPv4 networks\<close>

text \<open>Only \<open>8000::/1\<close> has data; the path of the IPv4 addresses ends at once in the node count, for no data.\<close>

definition sample_v6 :: mmdb where
  "sample_v6 = sample_mmdb\<lparr>mm_ipVersion := 6,
     mm_data := ([0, 0, 1, 0, 0, 17] @ replicate 16 0) @ encode sample_country @ [0]\<rparr>"

lemma sample_v6_nodes:
  "readNode sample_v6 0 0 = Inr 1" "readNode sample_v6 0 (Suc 0) = Inr 17"
  "readNode sample_v6 1 0 = Inr 0" "readNode sample_v6 1 (Suc 0) = Inr 0"
  by (simp_all add: sample_v6_def sample_mmdb_def readNode_def go_int_def nth_append)

lemma decodeAt_moved:
  assumes "decode (mm_data r) (mm_dataBase r) maxDecodeDepth (leaf_offset r node) = Inr (sample_country, off)"
  shows "mmdbCountryCode (decodeAt r node) = ''CN''"
  using assms by (simp add: decodeAt_def sample_country_def as_map_def mmdbCountryCode_def any_at_def any_string_def)

text \<open>In a database whose IPv4 path leads to no data, the lookup finds nothing for any IPv4 address,
  but the walk takes the node count for a node: it reads the octets after the tree as records, which
  are zero, goes on at the root of the IPv6 tree and reports IPv6 networks as IPv4 ones.\<close>

theorem WalkV4_without_IPv4_networks:
  "v4Root sample_v6 = Inr (mm_nodeCount sample_v6) \<and>
   mmdb_Get sample_v6 (v4_String w) = Inr None \<and>
   mmdb_WalkV4 sample_v6 record_visit [] =
     (None, [(Prefix (Addr4 0x40000000) 2, ''CN''), (Prefix (Addr4 0xC0000000) 2, ''CN'')])"
proof -
  obtain n where n: "maxDecodeDepth = Suc (Suc (Suc (Suc n)))" by (rule maxDecodeDepth_Suc)
  have "encodable maxDecodeDepth sample_country"
    unfolding n by (simp add: sample_country_def max_size_def)
  from encodable_decodes [OF this, of "mm_data sample_v6" 22] have
    "decode (mm_data sample_v6) 22 maxDecodeDepth (int 22) = Inr (sample_country, 22 + length (encode sample_country))"
    by (rule decodesD [of _ _ _ _ _ "[0]"]) (simp_all add: sample_v6_def sample_mmdb_def)
  then have leaf: "mmdbCountryCode (decodeAt sample_v6 17) = ''CN''"
    by (intro decodeAt_moved) (simp add: leaf_offset_def go_int_def sample_v6_def sample_mmdb_def)
  have params: "mm_nodeCount sample_v6 = 1" "mm_ipVersion sample_v6 = 6"
    by (simp_all add: sample_v6_def sample_mmdb_def)
  have bits: "map (\<lambda>i. if 80 \<le> i \<and> i < 96 then 1 else 0) [0..<96] =
      0 # map (\<lambda>i. if 80 \<le> i \<and> i < 96 then 1 else 0 :: nat) [1..<96]" by (simp add: upt_conv_Cons)
  have "descend (readNode sample_v6) 1 bs 1 = Inr 1" for bs by (cases bs) simp_all
  then have root: "v4Root sample_v6 = Inr 1"
    by (simp add: v4Root_def params bits sample_v6_nodes del: upt_Suc upt_rec_numeral)
  moreover have "mmdb_Get sample_v6 (v4_String w) = Inr None"
  proof -
    have "descend (readNode sample_v6) 1 (addr_bits w) 1 = Inr 1" by (cases "addr_bits w") simp_all
    then show ?thesis by (simp add: mmdb_Get_v4 params root)
  qed
  moreover have "mmdb_WalkV4 sample_v6 record_visit [] =
     (None, [(Prefix (Addr4 0x40000000) 2, ''CN''), (Prefix (Addr4 0xC0000000) 2, ''CN'')])"
    by (simp add: mmdb_WalkV4_def root params walk_start_def walk_loop.simps(2) walk_child_def sample_v6_nodes
        leaf record_visit_def child_prefix_def child_value_def shl32_def PrefixFrom_def)
  ultimately show ?thesis by (simp add: params)
qed

end
