(* ===== verification/IPDB_Facts.thy ===== *)
theory IPDB_Facts
  imports IPDB MMDB_Facts
begin

text \<open>
  What the ipdb reader guarantees: picking columns gives the same fields as reading all of them, and
  the walk over the IPv4 networks agrees with the lookup of an address.
\<close>

section \<open>The columns of a leaf\<close>

lemma hd_Split: "hd (Split d s) = takeWhile (\<lambda>c. c \<noteq> d) s"
  by (induction s) (auto split: list.splits)

lemma Split_Cut:
  "Split d s = (case Cut d s of None \<Rightarrow> [s] | Some (w, rest) \<Rightarrow> w # Split d rest)"
proof (cases "d \<in> set s")
  case True
  then have "s = takeWhile (\<lambda>c. c \<noteq> d) s @ d # tl (dropWhile (\<lambda>c. c \<noteq> d) s)"
    by (induction s) auto
  moreover have "d \<notin> set (takeWhile (\<lambda>c. c \<noteq> d) s)" by (auto dest: set_takeWhileD)
  ultimately show ?thesis using True
    by (simp add: Cut_def) (metis Split_free_append)
qed (simp add: Cut_def Split_free)

lemma skip_columns_Split:
  "(case skip_columns n raw of
      None \<Rightarrow> length (Split (CHR 0x09) raw) \<le> n
    | Some rest \<Rightarrow> n < length (Split (CHR 0x09) raw) \<and> Split (CHR 0x09) rest = drop n (Split (CHR 0x09) raw))"
proof (induction n raw rule: skip_columns.induct)
  case (2 n raw)
  then show ?case
    by (subst (1 2 3) Split_Cut) (auto split: option.splits)
qed simp

definition column_step :: "string list \<Rightarrow> string list \<Rightarrow> (string \<times> string) list \<Rightarrow> nat \<Rightarrow> (string \<times> string) list" where
  "column_step names parts out i = put_column (names ! i) (parts ! i) out"

lemma wanted_columns_fold:
  assumes "Split (CHR 0x09) raw = drop column parts" and "column < length parts"
    and "sorted want" and "\<forall>i \<in> set want. column \<le> i"
  shows "wanted_columns want names raw column out =
    foldl (column_step names parts) out (filter (\<lambda>i. i < length parts) want)"
  using assms
proof (induction want names raw column out rule: wanted_columns.induct)
  case (2 target want names raw column out)
  have le: "column \<le> target" "\<forall>i \<in> set want. target \<le> i" using 2(4,5) by auto
  show ?case
  proof (cases "skip_columns (target - column) raw")
    case None
    then have "length parts \<le> target"
      using skip_columns_Split [where n = "target - column" and raw = raw] 2(2,3) by simp
    then have "filter (\<lambda>i. i < length parts) (target # want) = []" using le(2) by (auto simp: filter_empty_conv)
    then show ?thesis using None by simp
  next
    case (Some rest)
    then have rest: "target < length parts" "Split (CHR 0x09) rest = drop target parts"
      using skip_columns_Split [where n = "target - column" and raw = raw] 2(2,3) le(1) by auto
    have "takeWhile (\<lambda>c. c \<noteq> CHR 0x09) rest = parts ! target"
      using rest by (simp add: hd_drop_conv_nth flip: hd_Split)
    moreover have "wanted_columns want names rest (max column target) (put_column (names ! max column target)
          (takeWhile (\<lambda>c. c \<noteq> CHR 0x09) rest) out) =
        foldl (column_step names parts) (put_column (names ! max column target)
          (takeWhile (\<lambda>c. c \<noteq> CHR 0x09) rest) out) (filter (\<lambda>i. i < length parts) want)"
      by (rule 2(1) [OF Some refl]) (use rest le 2(4) in \<open>simp_all add: max_absorb2\<close>)
    ultimately show ?thesis using Some rest(1) le(1)
      by (simp add: column_step_def [of _ _ _ target] max_absorb2)
  qed
qed simp

lemma node_columns_fold:
  "node_columns names parts out =
     foldl (column_step names parts) out [0..<min (length names) (length parts)]"
proof (induction names parts out rule: node_columns.induct)
  case (1 name names part parts out)
  have "[0..<min (length (name # names)) (length (part # parts))] =
      0 # map Suc [0..<min (length names) (length parts)]"
    by (simp add: upt_conv_Cons map_Suc_upt del: upt_Suc)
  then show ?case using 1 by (simp add: column_step_def foldl_map del: upt_Suc)
qed simp_all

lemma filter_update:
  "filter (\<lambda>(k, _). k \<in> R) (AList.update k v m) =
     (if k \<in> R then AList.update k v (filter (\<lambda>(k, _). k \<in> R) m) else filter (\<lambda>(k, _). k \<in> R) m)"
  by (induction m) auto

lemma filter_fold_columns:
  "filter (\<lambda>(k, _). k \<in> R) (foldl (column_step names parts) out is) =
     foldl (column_step names parts) (filter (\<lambda>(k, _). k \<in> R) out) (filter (\<lambda>i. names ! i \<in> R) is)"
  by (induction "is" arbitrary: out)
    (simp_all add: column_step_def put_column_def Let_def filter_update)

lemma decodeFields_filter:
  "decodeFields r node (wanted (ip_Fields r) requested) (ip_Fields r) =
     filter (\<lambda>(field, _). field \<in> set requested) (decodeNode r node)"
proof (cases "leaf_text r node")
  case (Some s)
  let ?parts = "Split (CHR 0x09) s" and ?names = "ip_Fields r"
  have "wanted_columns (wanted ?names requested) ?names s 0 [] =
      foldl (column_step ?names ?parts) [] (filter (\<lambda>i. i < length ?parts) (wanted ?names requested))"
    by (rule wanted_columns_fold) (simp_all add: wanted_def sorted_wrt_filter)
  also have "filter (\<lambda>i. i < length ?parts) (wanted ?names requested) =
      filter (\<lambda>i. ?names ! i \<in> set requested) [0..<min (length ?names) (length ?parts)]"
  proof -
    have "filter (\<lambda>i. i < k) [0..<n] = [0..<min n k]" for n k :: nat
    proof (induction n)
      case (Suc n)
      then show ?case by (cases "n < k") (simp_all add: min_absorb1 min_absorb2)
    qed simp
    from this [of "length ?parts" "length ?names", symmetric] show ?thesis
      by (simp add: wanted_def conj_commute)
  qed
  finally show ?thesis
    by (simp add: decodeFields_def decodeNode_def Some node_columns_fold filter_fold_columns)
qed (simp add: decodeFields_def decodeNode_def)

text \<open>Picking the wanted columns of a leaf, which skips the others and stops at the end of the text,
  gives the same fields as reading all the columns and keeping the wanted ones.\<close>

theorem decodeFields_restricts_decodeNode:
  "decodeFields r node (wanted (ip_Fields r) requested) (ip_Fields r) =
     filter (\<lambda>(field, _). field \<in> set requested) (decodeNode r node)"
  by (rule decodeFields_filter)

section \<open>The walk and the lookup\<close>

definition ip_usable :: "ipdb \<Rightarrow> bool" where
  "ip_usable r \<longleftrightarrow> (ip_v4Start r \<noteq> 0 \<or> ip_ipVersion r = 1) \<and> ip_v4Start r < ip_nodeCount r"

text \<open>The requested fields of an IPv4 address: a list of one map, or none.\<close>

definition ip_fields4 :: "string list \<Rightarrow> ipdb \<Rightarrow> u32 \<Rightarrow> (string \<times> string) list list" where
  "ip_fields4 requested r w =
     (case ipdb_Get r (v4_String w) of
        Inr (Some rec) \<Rightarrow>
          let rec = filter (\<lambda>(field, _). field \<in> set requested) rec in if rec = [] then [] else [rec]
      | _ \<Rightarrow> [])"

lemma ipdb_Get_v4:
  assumes "ip_v4Start r \<noteq> 0 \<or> ip_ipVersion r = 1"
  shows "ipdb_Get r (v4_String w) =
    bind_res (descend (ipdb_record r) (ip_nodeCount r) (addr_bits w) (ip_v4Start r))
      (\<lambda>node. if node \<le> ip_nodeCount r then Inr None else Inr (Some (decodeNode r node)))"
  using assms by (auto simp: ipdb_Get_def TrimSpace_v4_String ParseAddr_v4_String ipdb_walk_to_def packed_bits_v4)

interpretation ip: trie_reader ipdb_record ip_nodeCount ip_v4Start
    "\<lambda>r child. decodeFields r child (wanted (ip_Fields r) requested) (ip_Fields r)" "\<lambda>rec. rec = []"
    ip_usable "ip_fields4 requested" "\<lambda>r. ipdb_WalkV4 r requested record_visit []"
  for requested
proof unfold_locales
  fix r w
  assume r: "ip_usable r"
  then show "ip_v4Start r < ip_nodeCount r" by (simp add: ip_usable_def)
  have v: "ip_v4Start r \<noteq> 0 \<or> ip_ipVersion r = 1" using r by (simp add: ip_usable_def)
  show "ip_fields4 requested r w =
    found (ip_nodeCount r) (\<lambda>child. decodeFields r child (wanted (ip_Fields r) requested) (ip_Fields r))
      (\<lambda>rec. rec = []) (descend (ipdb_record r) (ip_nodeCount r) (addr_bits w) (ip_v4Start r))"
    by (auto simp: ip_fields4_def ipdb_Get_v4 [OF v] found_def decodeFields_filter Let_def
        split: sum.splits)
  show "ipdb_WalkV4 r requested record_visit [] =
    walk_loop (ipdb_record r) (ip_nodeCount r)
      (\<lambda>child. decodeFields r child (wanted (ip_Fields r) requested) (ip_Fields r)) (\<lambda>rec. rec = [])
      record_visit (walk_start (ip_v4Start r) [])"
    using v by (auto simp: ipdb_WalkV4_def)
qed

text \<open>The walk over the IPv4 networks of an ipdb database and the lookup of one address agree: for every
  IPv4 address the networks reported by a successful walk that contain it are exactly what the
  lookup finds, one network with the requested fields of the address, or none where the address is
  not in the tree or has none of those fields.\<close>

theorem ipdb_WalkV4_agrees_with_Get:
  assumes "ip_v4Start r \<noteq> 0 \<or> ip_ipVersion r = 1" and "ip_v4Start r < ip_nodeCount r"
    and "ipdb_WalkV4 r requested record_visit [] = (None, vs)"
  shows "map snd (filter (\<lambda>(p, _). pfx_Contains p (Addr4 w)) vs) =
    (case ipdb_Get r (v4_String w) of
       Inr (Some rec) \<Rightarrow>
         let rec = filter (\<lambda>(field, _). field \<in> set requested) rec in if rec = [] then [] else [rec]
     | _ \<Rightarrow> [])"
proof -
  have "ip_usable r" using assms(1,2) by (simp add: ip_usable_def)
  from ip.walk_reports_lookup [OF this assms(3), of w] show ?thesis
    by (simp add: holding_def ip_fields4_def)
qed

definition sample_ipdb :: ipdb where
  "sample_ipdb =
     \<lparr>ip_data = [0, 0, 0, 2, 123, 125] @ [0, 0, 0, 2, 0, 0, 0, 1] @ [0] @ [0, 5] @ [67, 78, 9, 65, 66],
      ip_metaLen = 2, ip_nodeCount = 1, ip_dataBase = 14, ip_ipVersion = 1, ip_v4Start = 0,
      ip_Metadata = [], ip_Fields = [''country_code'', ''region_name''], ip_BuildEpoch = 0\<rparr>"

lemma sample_ipdb_nodes:
  "ipdb_record sample_ipdb 0 (Suc 0) = Inr 1" "ipdb_record sample_ipdb 0 0 = Inr 2"
  by (simp_all add: sample_ipdb_def ipdb_record_def go_int_def BE_Uint32_def)

lemma sample_ipdb_leaf:
  "decodeFields sample_ipdb 2 (wanted [''country_code'', ''region_name''] [''country_code'']) [''country_code'', ''region_name'']
     = [(''country_code'', ''CN'')]"
proof -
  have "leaf_text sample_ipdb 2 = Some [CHR ''C'', CHR ''N'', CHR 0x09, CHR ''A'', CHR ''B'']"
    by code_simp
  moreover have "TrimSpace ''CN'' = ''CN''" by (rule TrimSpace_id) simp_all
  ultimately show ?thesis
    by (simp add: decodeFields_def wanted_def put_column_def)
qed

theorem ipdb_WalkV4_agrees_with_Get_witness:
  "map snd (filter (\<lambda>(p, _). pfx_Contains p (Addr4 5)) [(Prefix (Addr4 0) 1, [(''country_code'', ''CN'')])]) =
    (case ipdb_Get sample_ipdb (v4_String 5) of
       Inr (Some rec) \<Rightarrow>
         let rec = filter (\<lambda>(field, _). field \<in> set [''country_code'']) rec in if rec = [] then [] else [rec]
     | _ \<Rightarrow> [])"
proof (rule ipdb_WalkV4_agrees_with_Get)
  have params: "ip_v4Start sample_ipdb = 0" "ip_ipVersion sample_ipdb = 1" "ip_nodeCount sample_ipdb = 1"
    "ip_Fields sample_ipdb = [''country_code'', ''region_name'']" by (simp_all add: sample_ipdb_def)
  then show "ip_v4Start sample_ipdb \<noteq> 0 \<or> ip_ipVersion sample_ipdb = 1"
    "ip_v4Start sample_ipdb < ip_nodeCount sample_ipdb" by simp_all
  show "ipdb_WalkV4 sample_ipdb [''country_code''] record_visit [] =
      (None, [(Prefix (Addr4 0) 1, [(''country_code'', ''CN'')])])"
    by (simp add: ipdb_WalkV4_def params walk_start_def walk_loop.simps(2) walk_child_def sample_ipdb_nodes
        sample_ipdb_leaf record_visit_def child_prefix_def child_value_def shl32_def PrefixFrom_def)
qed

end
