(* ===== verification/ECS_Build.thy ===== *)
theory ECS_Build
  imports ECS_Zone_Facts IPDB_Facts
begin

text \<open>
  The ECS zone table built from the database itself: \<open>ecszone.Build\<close> walks the ipdb database with a
  visitor that adds rows. Composed with the reader of package \<open>geoip\<close> and the merge of the rows, each
  marked address carries the zone of the record that the lookup of that address returns.
\<close>

definition field_of :: "(string \<times> string) list \<Rightarrow> ipdb_record" where
  "field_of rec = (\<lambda>field. case map_of rec field of None \<Rightarrow> [] | Some v \<Rightarrow> v)"

definition zone_fields :: "string list" where
  "zone_fields = [''country_code'', ''region_name'', ''owner_domain'', ''isp_domain'']"

text \<open>\<open>Build\<close>, from the opened file on; its visitor never stops the walk.\<close>

definition ecs_Build_file ::
  "(u8 list \<Rightarrow> (string \<times> any) list option) \<Rightarrow> db_file \<Rightarrow> range list \<Rightarrow> ip_set option \<Rightarrow> row list option \<times> build_stats" where
  "ecs_Build_file json f direct disputed =
     (case OpenIPDB json f of
        Inl _ \<Rightarrow> (None, stats_zero)
      | Inr r \<Rightarrow>
          let (e, rows, stats) = ipdb_WalkV4 r zone_fields
                (\<lambda>p rec st. (None :: unit option, build_visit direct (Ranges disputed) (p, field_of rec) st)) ([], stats_zero)
          in (if e = None then Some rows else None, stats))"

text \<open>What the walk of the database visits, as the argument of the model of \<open>Build\<close> in \<open>ECS_Zone\<close>.\<close>

definition ecs_database :: "(u8 list \<Rightarrow> (string \<times> any) list option) \<Rightarrow> db_file \<Rightarrow> ipdb_walk" where
  "ecs_database json f =
     (case OpenIPDB json f of
        Inl _ \<Rightarrow> \<lparr>db_opens = False, db_visits = [], db_walk_ok = False\<rparr>
      | Inr r \<Rightarrow>
          let (e, vs) = ipdb_WalkV4 r zone_fields record_visit [] in
          \<lparr>db_opens = True, db_visits = map (\<lambda>(p, rec). (p, field_of rec)) vs, db_walk_ok = e = None\<rparr>)"

lemma visit_all_fold:
  "visit_all (\<lambda>p x s. (None, f (p, x) s)) vs s = (None, fold f vs s)"
  by (induction vs arbitrary: s) auto

lemma ecs_Build_file_refines:
  "ecs_Build_file json f direct disputed = ecs_Build (ecs_database json f) direct disputed"
proof (cases "OpenIPDB json f")
  case (Inr r)
  let ?visit = "\<lambda>p rec st. (None :: unit option, build_visit direct (Ranges disputed) (p, field_of rec) st)"
  have "\<exists>vs e. ipdb_WalkV4 r zone_fields record_visit [] = (map_option ReadError e, vs) \<and>
      ipdb_WalkV4 r zone_fields ?visit ([], stats_zero) =
        (map_option ReadError e, fold (\<lambda>(p, rec). build_visit direct (Ranges disputed) (p, field_of rec)) vs ([], stats_zero))"
  proof (cases "ip_v4Start r = 0 \<and> ip_ipVersion r \<noteq> 1")
    case True
    then show ?thesis by (intro exI [of _ "[]"] exI [of _ None]) (simp add: ipdb_WalkV4_def)
  next
    case False
    let ?p = "\<lambda>child. decodeFields r child (wanted (ip_Fields r) zone_fields) (ip_Fields r)"
    obtain vs e where
      rec: "walk_loop (ipdb_record r) (ip_nodeCount r) ?p (\<lambda>rec. rec = []) record_visit (walk_start (ip_v4Start r) []) =
        (map_option ReadError e, [] @ vs)" and
      vis: "walk_loop (ipdb_record r) (ip_nodeCount r) ?p (\<lambda>rec. rec = []) ?visit (walk_start (ip_v4Start r) ([], stats_zero)) =
        (case visit_all ?visit vs ([], stats_zero) of
           (Some v, s) \<Rightarrow> (Some (VisitError v), s) | (None, s) \<Rightarrow> (map_option ReadError e, s))"
      using walk_loop_visit [of "ipdb_record r" "ip_nodeCount r" ?p "\<lambda>rec. rec = []"
        "[\<lparr>wi_node = ip_v4Start r, wi_prefix = 0, wi_depth = 0\<rparr>]" Map.empty ?visit]
      unfolding walk_start_def by blast
    have "visit_all ?visit vs ([], stats_zero) =
        (None, fold (\<lambda>(p, rec). build_visit direct (Ranges disputed) (p, field_of rec)) vs ([], stats_zero))"
      using visit_all_fold [of "\<lambda>(p, rec). build_visit direct (Ranges disputed) (p, field_of rec)" vs "([], stats_zero)"]
      by simp
    with rec vis False show ?thesis
      by (intro exI [of _ vs] exI [of _ e]) (auto simp: ipdb_WalkV4_def)
  qed
  then obtain vs e where w: "ipdb_WalkV4 r zone_fields record_visit [] = (map_option ReadError e, vs)"
      "ipdb_WalkV4 r zone_fields ?visit ([], stats_zero) =
        (map_option ReadError e, fold (\<lambda>(p, rec). build_visit direct (Ranges disputed) (p, field_of rec)) vs ([], stats_zero))"
    by blast
  have "fold (build_visit direct (Ranges disputed)) (map (\<lambda>(p, rec). (p, field_of rec)) vs) s =
      fold (\<lambda>(p, rec). build_visit direct (Ranges disputed) (p, field_of rec)) vs s" for s
    by (simp add: fold_map comp_def case_prod_unfold)
  then show ?thesis
    by (simp add: ecs_Build_file_def ecs_Build_def ecs_database_def Inr w split: prod.split)
qed (simp add: ecs_Build_file_def ecs_Build_def ecs_database_def)

section \<open>The zone of an address\<close>

lemma field_of_filter: "f \<in> R \<Longrightarrow> field_of (filter (\<lambda>(field, _). field \<in> R) rec) f = field_of rec f"
proof -
  assume "f \<in> R"
  then have "map_of (filter (\<lambda>(field, _). field \<in> R) rec) f = map_of rec f" by (induction rec) auto
  then show ?thesis by (simp add: field_of_def)
qed

lemma ZoneOf_cong:
  "(\<And>f. f \<in> {''region_name'', ''owner_domain'', ''isp_domain''} \<Longrightarrow> rec f = rec' f) \<Longrightarrow> ZoneOf rec = ZoneOf rec'"
  by (simp add: ZoneOf_def ProvinceOf_def CarrierOf_def)

lemma Contains_Masked_v4: "pfx_Contains (Masked (PrefixFrom (Addr4 v) b)) (Addr4 a) = pfx_Contains (PrefixFrom (Addr4 v) b) (Addr4 a)"
proof (cases "0 \<le> b \<and> b \<le> 32")
  case True
  let ?n = "32 - nat b"
  have "drop_bit ?n (a XOR clear_low ?n v) = 0 \<longleftrightarrow> drop_bit ?n (a XOR v) = 0"
    unfolding drop_xor_iff by (simp add: clear_low_def and.assoc)
  then show ?thesis using True by (simp add: PrefixFrom_def)
next
  case False
  then have "PrefixFrom (Addr4 v) b = Prefix (Addr4 v) (- 1)" by (auto simp: PrefixFrom_def)
  then show ?thesis by (simp add: prefix_zero_def)
qed

text \<open>The zone the database gives an address by the lookup.\<close>

definition looked_up_zone :: "ipdb \<Rightarrow> u32 \<Rightarrow> string" where
  "looked_up_zone r a =
     (case ipdb_Get r (v4_String a) of
        Inr (Some rec) \<Rightarrow> if field_of rec ''country_code'' = ''CN'' then ZoneOf (field_of rec) else []
      | _ \<Rightarrow> [])"

lemma visits_zone:
  assumes "ip_usable r" and "ipdb_WalkV4 r zone_fields record_visit [] = (None, vs)"
  shows "(\<exists>visit \<in> set (map (\<lambda>(p, rec). (p, field_of rec)) vs). record_zone visit a = Some z) \<longleftrightarrow>
    z \<noteq> [] \<and> looked_up_zone r a = z"
proof -
  let ?R = "set zone_fields"
  have cont: "pfx_Contains (Masked p) (Addr4 a) = pfx_Contains p (Addr4 a)" if "(p, x) \<in> set vs" for p x
    using ip.walk_reports_v4 [OF assms that] Contains_Masked_v4 by auto
  have "(\<exists>visit \<in> set (map (\<lambda>(p, rec). (p, field_of rec)) vs). record_zone visit a = Some z) \<longleftrightarrow>
      (\<exists>rec \<in> set (holding a vs). field_of rec ''country_code'' = ''CN'' \<and> z \<noteq> [] \<and> ZoneOf (field_of rec) = z)"
    (is "?L \<longleftrightarrow> ?R'")
  proof -
    let ?Q = "\<lambda>rec. field_of rec ''country_code'' = ''CN'' \<and> z \<noteq> [] \<and> ZoneOf (field_of rec) = z"
    have "?L \<longleftrightarrow> (\<exists>v \<in> set vs. pfx_Contains (Masked (fst v)) (Addr4 a) \<and> ?Q (snd v))"
      unfolding set_map bex_simps record_zone_def case_prod_unfold
      by (intro bex_cong refl) (auto split: if_splits)
    also have "\<dots> \<longleftrightarrow> (\<exists>v \<in> set vs. pfx_Contains (fst v) (Addr4 a) \<and> ?Q (snd v))"
      using cont by (metis prod.collapse)
    also have "\<dots> \<longleftrightarrow> ?R'" by (force simp: holding_def case_prod_unfold)
    finally show ?thesis .
  qed
  also have "holding a vs = ip_fields4 zone_fields r a" by (rule ip.walk_reports_lookup [OF assms])
  also have "(\<exists>rec \<in> set (ip_fields4 zone_fields r a). field_of rec ''country_code'' = ''CN'' \<and> z \<noteq> [] \<and> ZoneOf (field_of rec) = z)
      \<longleftrightarrow> z \<noteq> [] \<and> looked_up_zone r a = z"
  proof (cases "ipdb_Get r (v4_String a)")
    case (Inr m)
    show ?thesis
    proof (cases m)
      case (Some rec)
      let ?rec = "filter (\<lambda>(field, _). field \<in> ?R) rec"
      have c: "field_of ?rec ''country_code'' = field_of rec ''country_code''"
        by (rule field_of_filter) (simp add: zone_fields_def)
      have zn: "ZoneOf (field_of ?rec) = ZoneOf (field_of rec)"
        by (rule ZoneOf_cong) (rule field_of_filter, auto simp: zone_fields_def)
      have "field_of rec ''country_code'' \<noteq> ''CN''" if "?rec = []"
        using c that by (simp add: field_of_def)
      then show ?thesis
        by (auto simp: ip_fields4_def Inr Some looked_up_zone_def Let_def c zn)
    qed (auto simp: ip_fields4_def Inr looked_up_zone_def)
  qed (auto simp: ip_fields4_def looked_up_zone_def)
  finally show ?thesis .
qed

text \<open>C20: From the database file to the merged table of zones: an address is marked exactly when it is direct,
  not disputed, and its lookup in the database gives a mainland record with a known zone; and the row
  that holds a marked address carries the zone of that very record. No two rows overlap.\<close>

theorem ecs_table_of_database:
  assumes "OpenIPDB json f = Inr r" and "ip_usable r"
    and "LoadDirectIntervals text = Some direct"
    and "disputed = None \<or> (\<exists>rs. wf_ranges rs \<and> disputed = Some (New rs))"
    and "ecs_Build_file json f direct disputed = (Some rows, stats)"
  shows "FirstOverlap (fst (MergeRows rows)) = None \<and>
    (\<forall>a. Marked (fst (MergeRows rows)) a \<longleftrightarrow>
       looked_up_zone r a \<noteq> [] \<and> uint a \<in> points direct \<and> \<not> ContainsUint disputed a) \<and>
    (\<forall>row \<in> set (fst (MergeRows rows)). \<forall>a. row_Lo row \<le> a \<and> a \<le> row_Hi row \<longrightarrow>
       row_Zone row = looked_up_zone r a)"
proof -
  have b: "ecs_Build (ecs_database json f) direct disputed = (Some rows, stats)"
    using assms(5) by (simp add: ecs_Build_file_refines)
  obtain e vs where w: "ipdb_WalkV4 r zone_fields record_visit [] = (e, vs)"
    by (cases "ipdb_WalkV4 r zone_fields record_visit []")
  have db: "ecs_database json f = \<lparr>db_opens = True, db_visits = map (\<lambda>(p, rec). (p, field_of rec)) vs, db_walk_ok = e = None\<rparr>"
    by (simp add: ecs_database_def assms(1) w)
  have "e = None" using b by (auto simp: ecs_Build_def db split: prod.splits if_splits)
  note z = visits_zone [OF assms(2) w [unfolded this]]
  let ?visits = "map (\<lambda>(p, rec). (p, field_of rec)) vs"
  have visits: "db_visits (ecs_database json f) = ?visits" by (simp add: db)
  have some: "(\<exists>visit \<in> set ?visits. record_zone visit a \<noteq> None) \<longleftrightarrow> looked_up_zone r a \<noteq> []" for a
  proof -
    have "(\<exists>visit \<in> set ?visits. record_zone visit a \<noteq> None) \<longleftrightarrow>
        (\<exists>y. \<exists>visit \<in> set ?visits. record_zone visit a = Some y)" by blast
    also have "\<dots> \<longleftrightarrow> looked_up_zone r a \<noteq> []" unfolding z by blast
    finally show ?thesis .
  qed
  note t = zone_table_correct [OF assms(3,4) b, unfolded visits]
  show ?thesis
  proof (intro conjI allI ballI impI)
    show "FirstOverlap (fst (MergeRows rows)) = None" using t by (rule conjunct1)
    show "Marked (fst (MergeRows rows)) a \<longleftrightarrow>
        looked_up_zone r a \<noteq> [] \<and> uint a \<in> points direct \<and> \<not> ContainsUint disputed a" for a
      unfolding some [symmetric] by (rule spec [OF conjunct1 [OF conjunct2 [OF t]]])
    fix w a
    assume w: "w \<in> set (fst (MergeRows rows))" "row_Lo w \<le> a \<and> a \<le> row_Hi w"
    have "\<exists>visit \<in> set ?visits. record_zone visit a = Some (row_Zone w)"
      by (rule mp [OF spec [OF bspec [OF conjunct2 [OF conjunct2 [OF t]] w(1)]] w(2)])
    then show "row_Zone w = looked_up_zone r a" unfolding z by simp
  qed
qed

definition sample_json :: "u8 list \<Rightarrow> (string \<times> any) list option" where
  "sample_json bs = Some
     [(''node_count'', AFloat64 0x3FF0000000000000), (''ip_version'', AFloat64 0x3FF0000000000000),
      (''fields'', AArray [AString ''country_code'', AString ''region_name''])]"

definition sample_file :: db_file where
  "sample_file = \<lparr>df_opens = True, df_stats = True, df_maps = True, df_data = ip_data sample_ipdb\<rparr>"

lemma sample_open: "OpenIPDB sample_json sample_file = Inr (sample_ipdb\<lparr>ip_Metadata := the (sample_json [])\<rparr>)"
proof -
  have one: "intValue (AFloat64 0x3FF0000000000000) = Some 1"
    by (simp add: float_int_def Let_def mask_eq_exp_minus_1)
  have "BE_Uint32 [0, 0, 0, 2] = 2" by (simp add: BE_Uint32_def)
  moreover have "(1 :: int) AND 2 = 0" by simp
  ultimately show ?thesis
    by (simp add: OpenIPDB_def sample_file_def sample_ipdb_def mapReadOnly_def sample_json_def any_at_def one
        string_fields_def go_int_def del: intValue.simps(4))
qed

theorem ecs_table_of_database_witness:
  "\<exists>direct rows. LoadDirectIntervals (Some ''1.2.0.0/16'') = Some direct \<and>
     fst (ecs_Build_file sample_json sample_file direct None) = Some rows \<and>
     FirstOverlap (fst (MergeRows rows)) = None \<and>
     (\<forall>a. Marked (fst (MergeRows rows)) a \<longrightarrow>
        looked_up_zone (sample_ipdb\<lparr>ip_Metadata := the (sample_json [])\<rparr>) a \<noteq> [])"
proof -
  let ?r = "sample_ipdb\<lparr>ip_Metadata := the (sample_json [])\<rparr>"
  obtain direct where d: "LoadDirectIntervals (Some ''1.2.0.0/16'') = Some direct"
    by (simp add: LoadDirectIntervals_def)
  have same: "ipdb_record ?r = ipdb_record sample_ipdb" by (intro ext) (simp add: ipdb_record_def Let_def)
  have params: "ip_v4Start sample_ipdb = 0" "ip_ipVersion sample_ipdb = 1" "ip_nodeCount sample_ipdb = 1"
    by (simp_all add: sample_ipdb_def)
  have "fst (ipdb_WalkV4 ?r zone_fields record_visit []) = None"
    by (simp add: ipdb_WalkV4_def same params walk_start_def walk_loop.simps(2) walk_child_def sample_ipdb_nodes
        record_visit_def Let_def split: if_split)
  then have "db_walk_ok (ecs_database sample_json sample_file)" "db_opens (ecs_database sample_json sample_file)"
    by (auto simp: ecs_database_def sample_open split: prod.split)
  then obtain rows stats where r: "ecs_Build_file sample_json sample_file direct None = (Some rows, stats)"
    by (cases "fold (build_visit direct (Ranges None)) (db_visits (ecs_database sample_json sample_file)) ([], stats_zero)")
      (simp add: ecs_Build_file_refines ecs_Build_def)
  have "ip_usable ?r" by (simp add: ip_usable_def params)
  from ecs_table_of_database [OF sample_open this d _ r] show ?thesis
    using d r by (intro exI [of _ direct] exI [of _ rows]) simp
qed

end
