(* ===== verification/Geo_Audit.thy ===== *)
theory Geo_Audit
  imports ECS_Build MMDB_Facts Access_Facts Bufio
begin

text \<open>
  Package \<open>geoaudit\<close>: the mainland list is compared with several address databases. An address of the
  list that enough databases place abroad is disputed; an address outside the list that all of them
  place in the mainland is promoted. The databases are files (\<open>dbs\<close>), read by the readers of package
  \<open>geoip\<close>; the lists are files of the state directory. The buffers that \<open>add\<close> reuses between calls are
  consumed before they are filled again, so they are plain results here. The texts of the notes in a
  report are replaced by the numbers they quote.
\<close>

section \<open>Spans of a database against the list\<close>

record geo_source =
  src_Name :: string
  src_Path :: string
  src_Kind :: string

record geo_span =
  gs_Lo :: u32
  gs_Hi :: u32
  gs_Country :: string
  gs_Source :: string

definition rangesOverlap :: "range \<Rightarrow> range \<Rightarrow> range option" where
  "rangesOverlap a b =
     (let lo = (if Lo b > Lo a then Lo b else Lo a); hi = (if Hi b < Hi a then Hi b else Hi a) in
      if lo > hi then None else Some (Range lo hi))"

fun intersect_from :: "range \<Rightarrow> range list \<Rightarrow> range list" where
  "intersect_from sp [] = []"
| "intersect_from sp (r # rs) =
     (if Lo r \<le> Hi sp
      then (case rangesOverlap sp r of None \<Rightarrow> [] | Some part \<Rightarrow> [part]) @ intersect_from sp rs
      else [])"

definition audit_intersect :: "range \<Rightarrow> range list \<Rightarrow> range list" where
  "audit_intersect sp direct =
     intersect_from sp (drop (sort_Search (length direct) (\<lambda>i. Hi (direct ! i) \<ge> Lo sp)) direct)"

fun subtract_hits :: "u32 \<Rightarrow> u32 \<Rightarrow> range list \<Rightarrow> range list" where
  "subtract_hits cursor hi [] = (if cursor \<le> hi then [Range cursor hi] else [])"
| "subtract_hits cursor hi (hit # hits) =
     (if Lo hit > cursor then [Range cursor (Lo hit - 1)] else []) @
     (if Hi hit = u32_max then []
      else subtract_hits (if Hi hit \<ge> cursor then Hi hit + 1 else cursor) hi hits)"

definition subtractSorted :: "range \<Rightarrow> range list \<Rightarrow> range list" where
  "subtractSorted sp hits = subtract_hits (Lo sp) (Hi sp) hits"

record scan_result =
  sr_offshore :: "geo_span list"
  sr_mainland :: "geo_span list"
  sr_offshoreTotal :: u64
  sr_mainlandTotal :: u64

definition scan_zero :: scan_result where
  "scan_zero = \<lparr>sr_offshore = [], sr_mainland = [], sr_offshoreTotal = 0, sr_mainlandTotal = 0\<rparr>"

definition appendSpan :: "geo_span list \<Rightarrow> u32 \<Rightarrow> u32 \<Rightarrow> string \<Rightarrow> string \<Rightarrow> geo_span list" where
  "appendSpan dst lo hi country name =
     (if dst \<noteq> [] \<and> gs_Country (last dst) = country \<and> gs_Hi (last dst) \<noteq> u32_max \<and> gs_Hi (last dst) + 1 = lo
      then butlast dst @ [(last dst)\<lparr>gs_Hi := hi\<rparr>]
      else dst @ [\<lparr>gs_Lo = lo, gs_Hi = hi, gs_Country = country, gs_Source = name\<rparr>])"

definition add_mainland :: "string \<Rightarrow> range \<Rightarrow> scan_result \<Rightarrow> scan_result" where
  "add_mainland name part s =
     s\<lparr>sr_mainland := appendSpan (sr_mainland s) (Lo part) (Hi part) ''CN'' name,
       sr_mainlandTotal := sr_mainlandTotal s + range_count part\<rparr>"

definition add_offshore :: "string \<Rightarrow> string \<Rightarrow> range \<Rightarrow> scan_result \<Rightarrow> scan_result" where
  "add_offshore name country part s =
     s\<lparr>sr_offshore := appendSpan (sr_offshore s) (Lo part) (Hi part) country name,
       sr_offshoreTotal := sr_offshoreTotal s + range_count part\<rparr>"

definition scan_add :: "string \<Rightarrow> string \<Rightarrow> range \<Rightarrow> range list \<Rightarrow> scan_result \<Rightarrow> scan_result" where
  "scan_add name country sp direct s =
     (if country = ''CN''
      then fold (add_mainland name)
             (concat (map GlobalParts (subtractSorted sp (audit_intersect sp direct)))) s
      else fold (add_offshore name country) (audit_intersect sp direct) s)"

text \<open>What both kinds of databases do with a network and its country.\<close>

definition scan_visit :: "string \<Rightarrow> range list \<Rightarrow> prefix \<times> string \<Rightarrow> scan_result \<Rightarrow> scan_result" where
  "scan_visit name direct visit s =
     (let country = ToUpper (TrimSpace (snd visit)) in
      if country = [] then s
      else case PrefixRange (Masked (fst visit)) of None \<Rightarrow> s | Some sp \<Rightarrow> scan_add name country sp direct s)"

datatype scan_error = OpenError geo_error | WalkError | UnknownKind string

definition scan ::
  "(u8 list \<Rightarrow> (string \<times> any) list option) \<Rightarrow> (string \<Rightarrow> db_file) \<Rightarrow> range list \<Rightarrow> geo_source \<Rightarrow> scan_error + scan_result" where
  "scan json dbs direct src =
     (if src_Kind src = ''ipdb'' then
        (case OpenIPDB json (dbs (src_Path src)) of
           Inl e \<Rightarrow> Inl (OpenError e)
         | Inr r \<Rightarrow>
             (case ipdb_WalkV4 r [''country_code'']
                (\<lambda>p rec s. (None :: unit option, scan_visit (src_Name src) direct (p, field_of rec ''country_code'') s)) scan_zero of
                (None, s) \<Rightarrow> Inr s | (Some _, _) \<Rightarrow> Inl WalkError))
      else if src_Kind src = ''mmdb'' then
        (case OpenMMDB (dbs (src_Path src)) of
           Inl e \<Rightarrow> Inl (OpenError e)
         | Inr r \<Rightarrow>
             (case mmdb_WalkV4 r
                (\<lambda>p rawCode s. (None :: unit option, scan_visit (src_Name src) direct (p, rawCode) s)) scan_zero of
                (None, s) \<Rightarrow> Inr s | (Some _, _) \<Rightarrow> Inl WalkError))
      else Inl (UnknownKind (src_Kind src)))"

section \<open>Agreement of several databases\<close>

record edge =
  ed_at :: u32
  ed_delta :: int
  ed_code :: string

definition edge_key :: "edge \<Rightarrow> u32 \<times> int" where
  "edge_key e = (ed_at e, ed_delta e)"

text \<open>A span that ends at the last address has no closing edge.\<close>

definition span_edges :: "geo_span \<Rightarrow> edge list" where
  "span_edges s =
     \<lparr>ed_at = gs_Lo s, ed_delta = 1, ed_code = gs_Country s\<rparr> #
     (if gs_Hi s = u32_max then [] else [\<lparr>ed_at = gs_Hi s + 1, ed_delta = - 1, ed_code = gs_Country s\<rparr>])"

definition note_code :: "edge \<Rightarrow> string \<Rightarrow> string" where
  "note_code e c = (if 0 < ed_delta e \<and> c = [] then ed_code e else c)"

record sweep_state =
  sw_out :: "geo_span list"
  sw_total :: u64
  sw_depth :: int
  sw_start :: u32
  sw_code :: string

definition sweep_zero :: sweep_state where
  "sweep_zero = \<lparr>sw_out = [], sw_total = 0, sw_depth = 0, sw_start = 0, sw_code = []\<rparr>"

text \<open>All edges at one address; then the crossing of the threshold.\<close>

definition sweep_group :: "int \<Rightarrow> edge list \<Rightarrow> sweep_state \<Rightarrow> sweep_state" where
  "sweep_group need evs s =
     (let previous = sw_depth s; point = ed_at (hd evs);
          s = s\<lparr>sw_depth := previous + sum_list (map ed_delta evs), sw_code := fold note_code evs (sw_code s)\<rparr> in
      if previous < need \<and> need \<le> sw_depth s then s\<lparr>sw_start := point\<rparr>
      else if need \<le> previous \<and> sw_depth s < need then
        (if point > sw_start s
         then s\<lparr>sw_out := sw_out s @ [\<lparr>gs_Lo = sw_start s, gs_Hi = point - 1, gs_Country = sw_code s, gs_Source = ''agreed''\<rparr>],
                sw_total := sw_total s + ucast (point - sw_start s)\<rparr>
         else s)\<lparr>sw_code := []\<rparr>
      else s)"

function sweep :: "int \<Rightarrow> edge list \<Rightarrow> sweep_state \<Rightarrow> sweep_state" where
  "sweep need [] s = s"
| "sweep need (e # es) s =
     sweep need (dropWhile (\<lambda>x. ed_at x = ed_at e) es)
       (sweep_group need (e # takeWhile (\<lambda>x. ed_at x = ed_at e) es) s)"
  by pat_completeness auto
termination
  by (relation "measure (\<lambda>(need, es, s). length es)") (auto simp: less_Suc_eq_le length_dropWhile_le)

text \<open>\<open>sort.Slice\<close> leaves the order of edges with the same address and delta open; here they keep their order.\<close>

definition mergeAgreement :: "geo_span list list \<Rightarrow> int \<Rightarrow> geo_span list \<times> u64" where
  "mergeAgreement sets need =
     (if need < 1 then ([], 0)
      else
        let edges = sort_key edge_key (concat (map span_edges (concat sets)));
            s = sweep need edges sweep_zero
        in (sw_out s, sw_total s))"

section \<open>A run\<close>

definition MinSources :: nat where "MinSources = 2"
definition DefaultDisputeNeed :: int where "DefaultDisputeNeed = 2"
definition DefaultPromoteLimit :: u64 where "DefaultPromoteLimit = push_bit 22 1"
definition DefaultDisputeRatio :: u64 where "DefaultDisputeRatio = 5"
definition KindDisputed :: string where "KindDisputed = ''disputed''"
definition KindPromoted :: string where "KindPromoted = ''promoted''"

definition DefaultSources :: "(string \<Rightarrow> string) \<Rightarrow> geo_source list" where
  "DefaultSources in_geoDir =
     [\<lparr>src_Name = ''qqwry'', src_Path = in_geoDir ''qqwry.ipdb'', src_Kind = ''ipdb''\<rparr>,
      \<lparr>src_Name = ''maxmind'', src_Path = in_geoDir ''GeoLite2-City.mmdb'', src_Kind = ''mmdb''\<rparr>,
      \<lparr>src_Name = ''dbip'', src_Path = in_geoDir ''dbip-city.mmdb'', src_Kind = ''mmdb''\<rparr>]"

record geo_report =
  ga_Entries :: nat
  ga_TotalAddresses :: u64
  ga_Sources :: "string list"
  ga_Unavailable :: "string \<rightharpoonup> scan_error"
  ga_OffshoreBySource :: "string \<rightharpoonup> u64"
  ga_MainlandBySource :: "string \<rightharpoonup> u64"
  ga_DisputeNeed :: int
  ga_PromoteNeed :: int
  ga_Disputed :: "geo_span list"
  ga_DisputedTotal :: u64
  ga_Promoted :: "geo_span list"
  ga_PromotedTotal :: u64
  ga_FailOpen :: "nat option"
  ga_PromoteRejected :: "(u64 \<times> u64) option"
  ga_DisputeRejected :: "(u64 \<times> u64) option"

record geo_config =
  gc_Direct4Path :: string
  gc_Sources :: "geo_source list"
  gc_DisputeNeed :: int
  gc_PromoteLimit :: u64
  gc_DisputeLimit :: u64

definition geo_report_zero :: geo_report where
  "geo_report_zero = \<lparr>ga_Entries = 0, ga_TotalAddresses = 0, ga_Sources = [], ga_Unavailable = Map.empty,
     ga_OffshoreBySource = Map.empty, ga_MainlandBySource = Map.empty, ga_DisputeNeed = 0, ga_PromoteNeed = 0,
     ga_Disputed = [], ga_DisputedTotal = 0, ga_Promoted = [], ga_PromotedTotal = 0,
     ga_FailOpen = None, ga_PromoteRejected = None, ga_DisputeRejected = None\<rparr>"

definition audit_loadDirect :: "env \<Rightarrow> string \<Rightarrow> dir \<Rightarrow> range list option" where
  "audit_loadDirect env path d =
     (case ReadFile env path d of
        Inl _ \<Rightarrow> None
      | Inr body \<Rightarrow>
          let (ls, ok) = ScanLines body; (t, _, _) = LoadReader True ls in
          if ok then Some (Ranges (Some t)) else None)"

type_synonym scanned = "geo_report \<times> geo_span list list \<times> geo_span list list"

definition scan_source ::
  "(u8 list \<Rightarrow> (string \<times> any) list option) \<Rightarrow> (string \<Rightarrow> db_file) \<Rightarrow> range list \<Rightarrow> geo_source \<Rightarrow> scanned \<Rightarrow> scanned" where
  "scan_source json dbs direct src st =
     (let (report, offshoreSets, mainlandSets) = st in
      if TrimSpace (src_Path src) = [] then st
      else case scan json dbs direct src of
        Inl e \<Rightarrow> (report\<lparr>ga_Unavailable := (ga_Unavailable report)(src_Name src \<mapsto> e)\<rparr>, offshoreSets, mainlandSets)
      | Inr result \<Rightarrow>
          (report\<lparr>ga_Sources := ga_Sources report @ [src_Name src],
                  ga_OffshoreBySource := (ga_OffshoreBySource report)(src_Name src \<mapsto> sr_offshoreTotal result),
                  ga_MainlandBySource := (ga_MainlandBySource report)(src_Name src \<mapsto> sr_mainlandTotal result)\<rparr>,
           offshoreSets @ [sr_offshore result], mainlandSets @ [sr_mainland result]))"

definition dispute :: "geo_config \<Rightarrow> geo_span list list \<Rightarrow> geo_report \<Rightarrow> geo_report" where
  "dispute cfg offshoreSets report =
     (let n = int (length (ga_Sources report));
          need0 = (if gc_DisputeNeed cfg \<le> 0 then DefaultDisputeNeed else gc_DisputeNeed cfg);
          need = (if need0 > n then n else need0);
          (disputed, disputedTotal) = mergeAgreement offshoreSets need;
          limit = (if gc_DisputeLimit cfg = 0 then ga_TotalAddresses report * DefaultDisputeRatio div 100 else gc_DisputeLimit cfg);
          report = report\<lparr>ga_DisputeNeed := need\<rparr>
      in if disputedTotal > limit then report\<lparr>ga_DisputeRejected := Some (disputedTotal, limit)\<rparr>
         else report\<lparr>ga_Disputed := disputed, ga_DisputedTotal := disputedTotal\<rparr>)"

definition promote :: "geo_config \<Rightarrow> geo_span list list \<Rightarrow> geo_report \<Rightarrow> geo_report" where
  "promote cfg mainlandSets report =
     (let need = int (length (ga_Sources report));
          (promoted, promotedTotal) = mergeAgreement mainlandSets need;
          limit = (if gc_PromoteLimit cfg = 0 then DefaultPromoteLimit else gc_PromoteLimit cfg);
          report = report\<lparr>ga_PromoteNeed := need\<rparr>
      in if promotedTotal > limit then report\<lparr>ga_PromoteRejected := Some (promotedTotal, limit)\<rparr>
         else report\<lparr>ga_Promoted := promoted, ga_PromotedTotal := promotedTotal\<rparr>)"

datatype geo_audit_error = DirectUnreadable | DirectEmpty

definition audit_Run ::
  "(u8 list \<Rightarrow> (string \<times> any) list option) \<Rightarrow> (string \<Rightarrow> db_file) \<Rightarrow> env \<Rightarrow> dir \<Rightarrow> geo_config \<Rightarrow>
   geo_report \<times> geo_audit_error option" where
  "audit_Run json dbs env d cfg =
     (case audit_loadDirect env (gc_Direct4Path cfg) d of
        None \<Rightarrow> (geo_report_zero, Some DirectUnreadable)
      | Some direct \<Rightarrow>
          let report = geo_report_zero\<lparr>ga_Entries := length direct, ga_TotalAddresses := sum_counts direct\<rparr> in
          if ga_TotalAddresses report = 0 then (report, Some DirectEmpty)
          else
            let (report, offshoreSets, mainlandSets) = fold (scan_source json dbs direct) (gc_Sources cfg) (report, [], []) in
            if length (ga_Sources report) < MinSources
            then (report\<lparr>ga_FailOpen := Some (length (ga_Sources report))\<rparr>, None)
            else (promote cfg mainlandSets (dispute cfg offshoreSets report), None))"

section \<open>Snapshots\<close>

definition Join_comma :: "string list \<Rightarrow> string" where
  "Join_comma xs = Join (CHR '','') xs"

definition audit_Render :: "int \<Rightarrow> string \<Rightarrow> int \<Rightarrow> string list \<Rightarrow> geo_span list \<Rightarrow> string" where
  "audit_Render now kind need sources spans =
     (let s = Some (New (map (\<lambda>sp. Range (gs_Lo sp) (gs_Hi sp)) spans)); prefixes = set_Prefixes s in
      concat (map (\<lambda>l. l @ [CHR 0x0A])
        ([''# generated-at '' @ int_digits now, ''# kind '' @ kind, ''# agreement '' @ int_digits need,
          ''# sources '' @ Join_comma sources, ''# addresses '' @ dec_digits (unat (AddressCount s)),
          ''# prefixes '' @ dec_digits (length prefixes)] @ map pfx_String prefixes)))"

definition audit_Write ::
  "env \<Rightarrow> int \<Rightarrow> string \<Rightarrow> string \<Rightarrow> int \<Rightarrow> string list \<Rightarrow> geo_span list \<Rightarrow> dir \<Rightarrow> (io_error + unit) \<times> dir" where
  "audit_Write env now path kind need sources spans d =
     WriteAtomic env path (audit_Render now kind need sources spans) 420 d"

record geo_snapshot =
  sn_Set :: "ip_set option"
  sn_Kind :: string
  sn_Agreement :: int
  sn_Sources :: "string list"
  sn_GeneratedAt :: int
  sn_Prefixes :: nat

definition snapshot_zero :: geo_snapshot where
  "snapshot_zero = \<lparr>sn_Set = None, sn_Kind = [], sn_Agreement = 0, sn_Sources = [], sn_GeneratedAt = 0, sn_Prefixes = 0\<rparr>"

definition meta_line :: "string \<Rightarrow> bool" where
  "meta_line line = HasPrefix (TrimSpace line) ''#''"

text \<open>The value \<open>strconv\<close> returns beside an error is used: the nearest 64-bit number, or 0 for what is no number.\<close>

definition Atoi_value :: "string \<Rightarrow> int" where
  "Atoi_value v =
     (case Atoi v of
        Some n \<Rightarrow> n
      | None \<Rightarrow>
          let neg = HasPrefix v ''-''; body = (if neg \<or> HasPrefix v ''+'' then drop 1 v else v) in
          if body \<noteq> [] \<and> list_all is_digit body then (if neg then - 9223372036854775808 else 9223372036854775807) else 0)"

definition read_meta :: "string \<Rightarrow> geo_snapshot \<Rightarrow> geo_snapshot" where
  "read_meta line out =
     (let line = TrimSpace line in
      case Fields (if HasPrefix line ''#'' then drop 1 line else line) of
        key # v # _ \<Rightarrow>
          if key = ''generated-at'' then out\<lparr>sn_GeneratedAt := Atoi_value v\<rparr>
          else if key = ''kind'' then out\<lparr>sn_Kind := v\<rparr>
          else if key = ''agreement'' then out\<lparr>sn_Agreement := Atoi_value v\<rparr>
          else if key = ''sources'' then out\<lparr>sn_Sources := Split (CHR '','') v\<rparr>
          else out
      | _ \<Rightarrow> out)"

definition LoadSnapshot :: "env \<Rightarrow> string \<Rightarrow> dir \<Rightarrow> geo_snapshot option" where
  "LoadSnapshot env path d =
     (case ReadFile env path d of
        Inl _ \<Rightarrow> None
      | Inr data \<Rightarrow>
          let (ls, ok) = ScanLines data in
          if \<not> ok then None
          else
            let (body, ok) = ScanLines (concat (map (\<lambda>l. l @ [CHR 0x0A]) (filter (\<lambda>l. \<not> meta_line l) ls)));
                (t, n, _) = LoadReader True body
            in if \<not> ok then None
               else Some (fold read_meta (filter meta_line ls) (snapshot_zero\<lparr>sn_Set := Some t, sn_Prefixes := n\<rparr>)))"

definition Age :: "geo_snapshot \<Rightarrow> int \<Rightarrow> int" where
  "Age s now = (if sn_GeneratedAt s = 0 then 0 else now - sn_GeneratedAt s)"

text \<open>Which of the lists were kept, and an error; \<open>now1\<close>, \<open>now2\<close> are the times of the two writes.\<close>

datatype kept_note = KeptBoth nat | KeptDisputed "u64 \<times> u64" | KeptPromoted "u64 \<times> u64"

definition WriteSnapshots ::
  "env \<Rightarrow> int \<Rightarrow> int \<Rightarrow> string \<Rightarrow> string \<Rightarrow> geo_report \<Rightarrow> dir \<Rightarrow> (kept_note list \<times> io_error option) \<times> dir" where
  "WriteSnapshots env now1 now2 disputedPath promotedPath report d =
     (case ga_FailOpen report of
        Some n \<Rightarrow> (([KeptBoth n], None), d)
      | None \<Rightarrow>
          let (kept, r, d) = (case ga_DisputeRejected report of
                 Some q \<Rightarrow> ([KeptDisputed q], Inr (), d)
               | None \<Rightarrow> ([], audit_Write env now1 disputedPath KindDisputed (ga_DisputeNeed report) (ga_Sources report)
                               (ga_Disputed report) d)) in
          case r of Inl e \<Rightarrow> ((kept, Some e), d) | Inr _ \<Rightarrow>
          let (kept, r, d) = (case ga_PromoteRejected report of
                 Some q \<Rightarrow> (kept @ [KeptPromoted q], Inr (), d)
               | None \<Rightarrow> (kept, audit_Write env now2 promotedPath KindPromoted (ga_PromoteNeed report) (ga_Sources report)
                               (ga_Promoted report) d)) in
          case r of Inl e \<Rightarrow> ((kept, Some e), d) | Inr _ \<Rightarrow> ((kept, None), d))"

end
