(* ===== verification/CN_Auth.thy ===== *)
theory CN_Auth
  imports CDN_Rules Ruleset Geo_Audit
begin

text \<open>
  Package \<open>internal/cnauth\<close>: each round turns the infrastructure cache and the address lists into
  the direct routes and the ECS allowlist of the resolver. An authority that the cache does not show
  this time stays on the allowlist for a while (the accumulation); the audit looks for entries
  nothing accounts for. The messages for the operator are not modelled. \<open>now\<close> is the Unix time.
\<close>

section \<open>Options\<close>

definition hour :: int where "hour = 3600000000000"
definition DefaultAccumTTL :: int where "DefaultAccumTTL = 72 * hour"
definition DefaultMaxECSEntries :: int where "DefaultMaxECSEntries = 20000"
definition DefaultMaxForeignOrphans :: int where "DefaultMaxForeignOrphans = 9"
definition minAccumulatedBits :: int where "minAccumulatedBits = 28"

record cn_options =
  co_Direct4Path :: string
  co_PairsPath :: string
  co_ManualPath :: string
  co_SharedPath :: string
  co_DisputedPath :: string
  co_PromotedPath :: string
  co_PSLPaths :: "string list option"
  co_ResultPath :: string
  co_MatchedPath :: string
  co_ECSOutPath :: string
  co_PrevECSPath :: string
  co_ECSStatePath :: string
  co_ECSTargetsPath :: string
  co_SharedExcludedOut :: string
  co_SteeredOutPath :: string
  co_CDNRulesPath :: string
  co_Aggregate :: int
  co_AccumTTL :: int
  co_MaxECSEntries :: int

record cn_result =
  cr_Zones :: nat
  cr_MatchedZones :: nat
  cr_ForcedZones :: nat
  cr_DeadZones :: nat
  cr_RoutePrefixes :: nat
  cr_ECSPrefixes :: nat
  cr_SharedExcluded :: nat
  cr_DisputedCut :: nat
  cr_PromotedUsed :: nat
  cr_SteeredZones :: nat
  cr_SteeredByRuleset :: nat
  cr_SteeredECSAddrs :: nat
  cr_AccumKept :: nat
  cr_RTOSeen :: bool

text \<open>Whole seconds of a duration in nanoseconds, \<open>int64(d.Seconds())\<close>.\<close>

definition whole_seconds :: "int \<Rightarrow> int" where
  "whole_seconds d = (if d < 0 then - ((- d) div 1000000000) else d div 1000000000)"

section \<open>Reading the lists\<close>

text \<open>A line longer than the scanner takes is an error like any other.\<close>

definition loadLines :: "env \<Rightarrow> string \<Rightarrow> dir \<Rightarrow> io_error + string list" where
  "loadLines env path d =
     bind_res (ReadFile env path d) (\<lambda>body.
       let (ls, ok) = ScanLines body in if ok then Inr ls else Inl IOFailure)"

definition manual_line :: "string \<Rightarrow> string list" where
  "manual_line line =
     (let before = (case Cut (CHR ''#'') line of None \<Rightarrow> line | Some (b, _) \<Rightarrow> b) in
      case Fields before of [] \<Rightarrow> [] | f # _ \<Rightarrow> [ToLower (TrimSuffix (CHR ''.'') f)])"

definition loadManual :: "env \<Rightarrow> string \<Rightarrow> dir \<Rightarrow> string set" where
  "loadManual env path d =
     (case loadLines env path d of Inl _ \<Rightarrow> {} | Inr ls \<Rightarrow> set (concat (map manual_line ls)))"

definition loadMainlandCDN :: "env \<Rightarrow> string \<Rightarrow> dir \<Rightarrow> string set" where
  "loadMainlandCDN env path d =
     (if TrimSpace path = [] then {}
      else case rules_Load env path d of
        Inr (Inr t) \<Rightarrow> set (MainlandRoots (Some t))
      | _ \<Rightarrow> {})"

record shared_list =
  sl_addrs :: "addr set"
  sl_generatedAt :: int

definition shared_line :: "string \<Rightarrow> shared_list \<Rightarrow> shared_list" where
  "shared_line line out =
     (let trimmed = TrimSpace line in
      if HasPrefix trimmed ''# generated-at'' then
        (case Fields trimmed of
           _ # _ # v # _ \<Rightarrow> (case Atoi v of Some n \<Rightarrow> out\<lparr>sl_generatedAt := n\<rparr> | None \<Rightarrow> out)
         | _ \<Rightarrow> out)
      else if trimmed = [] \<or> HasPrefix trimmed ''#'' then out
      else case ParseAddr (hd (Fields trimmed)) of
        Some a \<Rightarrow> out\<lparr>sl_addrs := insert a (sl_addrs out)\<rparr>
      | None \<Rightarrow> out)"

definition loadShared :: "env \<Rightarrow> string \<Rightarrow> dir \<Rightarrow> shared_list" where
  "loadShared env path d =
     (let out = \<lparr>sl_addrs = {}, sl_generatedAt = 0\<rparr> in
      case loadLines env path d of Inl _ \<Rightarrow> out | Inr ls \<Rightarrow> fold shared_line ls out)"

datatype cn_error =
  NoPSL | DirectRead io_error | NoDirect | WrongKind string string | PairsRead io_error
  | BuildFailed build_error | OutputFailed io_error

definition loadCross :: "env \<Rightarrow> string \<Rightarrow> string \<Rightarrow> dir \<Rightarrow> cn_error + geo_snapshot" where
  "loadCross env path wantKind d =
     (case LoadSnapshot env path d of
        None \<Rightarrow> Inr snapshot_zero
      | Some s \<Rightarrow>
          if sn_Kind s \<noteq> [] \<and> sn_Kind s \<noteq> wantKind then Inl (WrongKind path (sn_Kind s)) else Inr s)"

text \<open>The entries of the cache, and the addresses of each zone as they are written.\<close>

type_synonym zone_ips = "(string \<times> string list) list"

definition zone_add :: "string \<Rightarrow> string \<Rightarrow> zone_ips \<Rightarrow> zone_ips" where
  "zone_add zone ip m =
     AList.update zone (List.insert ip (case map_of m zone of None \<Rightarrow> [] | Some ips \<Rightarrow> ips)) m"

definition pair_line :: "string \<Rightarrow> snapshot \<times> zone_ips \<Rightarrow> snapshot \<times> zone_ips" where
  "pair_line line st =
     (case Fields line of
        zone # ip # rest \<Rightarrow>
          (case ParseAddr ip of
             None \<Rightarrow> st
           | Some a \<Rightarrow>
               let rto = (case rest of [] \<Rightarrow> None
                   | w # _ \<Rightarrow> (case Atoi w of Some n \<Rightarrow> if 0 \<le> n then Some n else None | None \<Rightarrow> None));
                   e = (case rto of
                     None \<Rightarrow> \<lparr>e_Zone = zone, e_IP = a, e_RTO = 0, e_HasRTO = False\<rparr>
                   | Some n \<Rightarrow> \<lparr>e_Zone = zone, e_IP = a, e_RTO = n, e_HasRTO = True\<rparr>)
               in ((fst st)\<lparr>s_Entries := s_Entries (fst st) @ [e]\<rparr>, zone_add zone ip (snd st)))
      | _ \<Rightarrow> st)"

definition parsePairs :: "env \<Rightarrow> string \<Rightarrow> dir \<Rightarrow> io_error + snapshot \<times> zone_ips" where
  "parsePairs env path d =
     bind_res (loadLines env path d) (\<lambda>ls. Inr (fold pair_line ls (\<lparr>s_Entries = [], s_Skipped = 0\<rparr>, [])))"

section \<open>The previous allowlist\<close>

text \<open>\<open>ecsLine\<close>, \<open>^\s*send-client-subnet:\s*(\S+)\<close>: the word it captures.\<close>

definition re_space :: "char \<Rightarrow> bool" where
  "re_space c \<longleftrightarrow> c \<in> {CHR 0x20, CHR 0x09, CHR 0x0A, CHR 0x0C, CHR 0x0D}"

definition ecsLine :: "string \<Rightarrow> string option" where
  "ecsLine line =
     (let s = dropWhile re_space line; key = ''send-client-subnet:'' in
      if \<not> HasPrefix s key then None
      else
        let v = takeWhile (\<lambda>c. \<not> re_space c) (dropWhile re_space (drop (length key) s))
        in if v = [] then None else Some v)"

text \<open>The addresses of a merged block, from its first: the loop with \<open>Next\<close>.\<close>

fun addr_Next :: "addr \<Rightarrow> addr" where
  "addr_Next AddrZero = AddrZero"
| "addr_Next (Addr4 w) = (if w = - 1 then AddrZero else Addr4 (w + 1))"
| "addr_Next (Addr6 w z) = (if w = - 1 then AddrZero else Addr6 (w + 1) z)"

fun block_loop :: "nat \<Rightarrow> prefix \<Rightarrow> addr \<Rightarrow> addr list" where
  "block_loop 0 p a = []"
| "block_loop (Suc n) p a = (if pfx_Contains p a then a # block_loop n p (addr_Next a) else [])"

text \<open>A block of at least 28 bits has at most 16 addresses; the test after the last one ends the loop.\<close>

definition block_addrs :: "prefix \<Rightarrow> addr list" where
  "block_addrs p = block_loop 17 p (pfx_addr (Masked p))"

type_synonym prev_entries = "(prefix \<times> bool) list"

definition prev_line :: "string \<Rightarrow> prev_entries \<Rightarrow> prev_entries" where
  "prev_line line out =
     (case ecsLine line of
        None \<Rightarrow> out
      | Some v \<Rightarrow>
          (case ParsePrefix v of
             None \<Rightarrow> out
           | Some p \<Rightarrow>
               if \<not> Is4 (pfx_addr p) then out
               else if pfx_bits p = 32 then AList.update (Masked p) False out
               else if pfx_bits p < minAccumulatedBits then out
               else fold (\<lambda>a. AList.update (PrefixFrom a 32) True) (block_addrs p) out))"

definition loadPrevECS :: "env \<Rightarrow> string \<Rightarrow> dir \<Rightarrow> prev_entries" where
  "loadPrevECS env path d =
     (case loadLines env path d of Inl _ \<Rightarrow> [] | Inr ls \<Rightarrow> fold prev_line ls [])"

type_synonym accum_state = "(string \<times> int) list"

definition state_line :: "string \<Rightarrow> accum_state \<Rightarrow> accum_state" where
  "state_line line st =
     (case Fields line of
        [key, v] \<Rightarrow> (case Atoi v of Some n \<Rightarrow> AList.update key n st | None \<Rightarrow> st)
      | _ \<Rightarrow> st)"

definition loadAccumState :: "env \<Rightarrow> string \<Rightarrow> dir \<Rightarrow> accum_state \<times> bool" where
  "loadAccumState env path d =
     (case ReadFile env path d of
        Inl NotExist \<Rightarrow> ([], True)
      | Inl IOFailure \<Rightarrow> ([], False)
      | Inr body \<Rightarrow> (let (ls, ok) = ScanShort body in (fold state_line ls [], ok)))"

definition target_line :: "string \<Rightarrow> prefix list" where
  "target_line line =
     (case ParsePrefix (TrimSpace line) of
        Some p \<Rightarrow> if Is4 (pfx_addr p) then [Masked p] else []
      | None \<Rightarrow> [])"

definition loadECSTargets :: "env \<Rightarrow> string \<Rightarrow> dir \<Rightarrow> prefix list" where
  "loadECSTargets env path d =
     (if path = [] then []
      else case loadLines env path d of Inl _ \<Rightarrow> [] | Inr ls \<Rightarrow> concat (map target_line ls))"

section \<open>The accumulation\<close>

definition setOf :: "prefix list \<Rightarrow> ip_set" where
  "setOf ps = New (List.map_filter PrefixRange ps)"

definition collapsePrefixes :: "prefix list \<Rightarrow> prefix list" where
  "collapsePrefixes targets = set_Prefixes (Some (setOf targets))"

definition state_key :: "string \<times> int \<Rightarrow> prefix list" where
  "state_key kv =
     (case ParsePrefix (fst kv) of
        Some p \<Rightarrow> if Is4 (pfx_addr p) then [Masked p] else []
      | None \<Rightarrow> [])"

definition prev_entries :: "prev_entries \<Rightarrow> prefix list \<Rightarrow> accum_state \<Rightarrow> prev_entries" where
  "prev_entries conf targets state =
     fold (\<lambda>p. AList.update p False) (targets @ concat (map state_key state)) conf"

text \<open>What becomes of an entry of the previous round; \<open>Kept\<close> with its time stamp.\<close>

datatype fate = Covered | CutDisputed | NeverStamped | Expired | Kept int

definition entry_fate ::
  "ip_set \<Rightarrow> ip_set option \<Rightarrow> accum_state \<Rightarrow> bool \<Rightarrow> int \<Rightarrow> int \<Rightarrow> prefix \<times> bool \<Rightarrow> fate" where
  "entry_fate live disputed state stateOK ttl now e =
     (let (p, fromMergedBlock) = e in
      if CoversPrefix (Some live) p then Covered
      else if disputed \<noteq> None \<and> set_Contains disputed (pfx_addr p) then CutDisputed
      else
        let stamp = map_of state (pfx_String p) in
        if stamp = None \<and> fromMergedBlock then NeverStamped
        else
          let since = (case stamp of None \<Rightarrow> now | Some t \<Rightarrow> t) in
          if stateOK \<and> whole_seconds ttl < go_int (now - since) then Expired else Kept since)"

definition kept_entry :: "(prefix \<times> bool \<Rightarrow> fate) \<Rightarrow> prefix \<times> bool \<Rightarrow> (prefix \<times> int) option" where
  "kept_entry fate e = (case fate e of Kept since \<Rightarrow> Some (fst e, since) | _ \<Rightarrow> None)"

text \<open>
  The entries that stay, with the time stamps that go into the next state file. The range over the map
  \<open>prev\<close> follows the order of the list; what it computes are maps.
\<close>

definition applyAccumulation ::
  "env \<Rightarrow> cn_options \<Rightarrow> prefix list \<Rightarrow> ip_set option \<Rightarrow> int \<Rightarrow> dir \<Rightarrow> (prefix \<times> int) list" where
  "applyAccumulation env opt ecsTargets disputed now d =
     (let (state, stateOK) = loadAccumState env (co_ECSStatePath opt) d;
          prev = prev_entries (loadPrevECS env (co_PrevECSPath opt) d)
                   (loadECSTargets env (co_ECSTargetsPath opt) d) state
      in if prev = [] then []
         else
           let kept = List.map_filter
                 (kept_entry (entry_fate (setOf ecsTargets) disputed state stateOK (co_AccumTTL opt) now)) prev
           in if co_MaxECSEntries opt < int (length ecsTargets + length kept) then [] else kept)"

definition next_state :: "(prefix \<times> int) list \<Rightarrow> accum_state" where
  "next_state kept = map (\<lambda>(p, since). (pfx_String p, since)) kept"

section \<open>Writing\<close>

definition newline_list :: "string list \<Rightarrow> string" where
  "newline_list ls = concat (map (\<lambda>l. l @ [CHR 0x0A]) ls)"

definition state_text :: "accum_state \<Rightarrow> string" where
  "state_text state = newline_list (map (\<lambda>(key, since). key @ [CHR 0x09] @ int_digits since) (sort_key fst state))"

text \<open>A failed write of the state and of the targets is a warning only.\<close>

definition writeAccumState :: "env \<Rightarrow> string \<Rightarrow> accum_state \<Rightarrow> dir \<Rightarrow> dir" where
  "writeAccumState env path state d = snd (WriteAtomic env path (state_text state) 420 d)"

definition writeECSTargets :: "env \<Rightarrow> string \<Rightarrow> prefix list \<Rightarrow> dir \<Rightarrow> dir" where
  "writeECSTargets env path targets d =
     (if path = [] then d else snd (WriteAtomic env path (newline_list (map pfx_String targets)) 420 d))"

definition conf_header :: string where
  "conf_header =
     ''# ''
     @ [CHR 0xE7, CHR 0x94, CHR 0xB1]
     @ '' dns-stack routing-data ''
     @ [CHR 0xE8, CHR 0x87, CHR 0xAA, CHR 0xE5, CHR 0x8A, CHR 0xA8, CHR 0xE7, CHR 0x94, CHR 0x9F, CHR 0xE6, CHR 0x88, CHR 0x90, CHR 0xEF, CHR 0xBC, CHR 0x8C, CHR 0xE8, CHR 0xAF, CHR 0xB7, CHR 0xE5, CHR 0x8B, CHR 0xBF, CHR 0xE6, CHR 0x89, CHR 0x8B, CHR 0xE5, CHR 0xB7, CHR 0xA5, CHR 0xE7, CHR 0xBC, CHR 0x96, CHR 0xE8, CHR 0xBE, CHR 0x91, CHR 0x0A]
     @ ''# ''
     @ [CHR 0xE5, CHR 0x8F, CHR 0xAA, CHR 0xE6, CHR 0x9C, CHR 0x89, CHR 0xE5, CHR 0x88, CHR 0x97, CHR 0xE5, CHR 0x9C, CHR 0xA8, CHR 0xE8, CHR 0xBF, CHR 0x99, CHR 0xE9, CHR 0x87, CHR 0x8C, CHR 0xE7, CHR 0x9A, CHR 0x84, CHR 0xE6, CHR 0x9D, CHR 0x83, CHR 0xE5, CHR 0xA8, CHR 0x81, CHR 0xE4, CHR 0xBC, CHR 0x9A, CHR 0xE6, CHR 0x94, CHR 0xB6, CHR 0xE5, CHR 0x88, CHR 0xB0, CHR 0xE5, CHR 0xAE, CHR 0xA2, CHR 0xE6, CHR 0x88, CHR 0xB7, CHR 0xE7, CHR 0xAB, CHR 0xAF, CHR 0xE5, CHR 0xAD, CHR 0x90, CHR 0xE7, CHR 0xBD, CHR 0x91]
     @ ''(ECS)''
     @ [CHR 0xE3, CHR 0x80, CHR 0x82, CHR 0x0A]
     @ ''server:''
     @ [CHR 0x0A]"

definition conf_text :: "prefix list \<Rightarrow> string" where
  "conf_text targets =
     conf_header @ newline_list (map (\<lambda>p. ''    send-client-subnet: '' @ pfx_String p) (collapsePrefixes targets))"

definition writeECSConf :: "env \<Rightarrow> string \<Rightarrow> prefix list \<Rightarrow> dir \<Rightarrow> (io_error + unit) \<times> dir" where
  "writeECSConf env path targets d = WriteAtomic env path (conf_text targets) 420 d"

definition steered_text :: "int \<Rightarrow> result \<Rightarrow> string" where
  "steered_text now built =
     ''# generated-at '' @ int_digits now @ [CHR 0x0A] @
     ''# ''
     @ [CHR 0xE8, CHR 0xBF, CHR 0x99, CHR 0xE4, CHR 0xBA, CHR 0x9B, CHR 0xE5, CHR 0x8C, CHR 0xBA, CHR 0xE5, CHR 0x9F, CHR 0x9F, CHR 0xE7, CHR 0x9A, CHR 0x84, CHR 0xE6, CHR 0x9D, CHR 0x83, CHR 0xE5, CHR 0xA8, CHR 0x81, CHR 0xE5, CHR 0x85, CHR 0xA8, CHR 0xE5, CHR 0x9C, CHR 0xA8, CHR 0xE5, CHR 0xA2, CHR 0x83, CHR 0xE5, CHR 0xA4, CHR 0x96, CHR 0xEF, CHR 0xBC, CHR 0x8C, CHR 0xE4, CHR 0xBD, CHR 0x86, CHR 0xE5, CHR 0xB1, CHR 0x9E, CHR 0xE4, CHR 0xBA, CHR 0x8E, CHR 0xE5, CHR 0xB7, CHR 0xB2, CHR 0xE7, CHR 0x9F, CHR 0xA5]
     @ '' geo-steering CDN''
     @ [CHR 0xEF, CHR 0xBC, CHR 0x9A, CHR 0x0A]
     @ ''# ''
     @ [CHR 0xE5, CHR 0x8F, CHR 0xAA, CHR 0xE8, CHR 0xBF, CHR 0x9B]
     @ '' ECS ''
     @ [CHR 0xE7, CHR 0x99, CHR 0xBD, CHR 0xE5, CHR 0x90, CHR 0x8D, CHR 0xE5, CHR 0x8D, CHR 0x95, CHR 0xEF, CHR 0xBC, CHR 0x88, CHR 0xE6, CHR 0x8C, CHR 0x89]
     @ '' /'' @ int_digits SteeredECSBits @
     '' ''
     @ [CHR 0xE8, CHR 0x81, CHR 0x9A, CHR 0xE5, CHR 0x90, CHR 0x88, CHR 0xEF, CHR 0xBC, CHR 0x89, CHR 0xEF, CHR 0xBC, CHR 0x8C, CHR 0xE4, CHR 0xB8, CHR 0x80, CHR 0xE5, CHR 0xBE, CHR 0x8B, CHR 0xE4, CHR 0xB8, CHR 0x8D, CHR 0xE8, CHR 0xBF, CHR 0x9B, CHR 0xE7, CHR 0x9B, CHR 0xB4, CHR 0xE8, CHR 0xBF, CHR 0x9E, CHR 0xE9, CHR 0x9B, CHR 0x86, CHR 0xE5, CHR 0x90, CHR 0x88, CHR 0x0A] @
     ''# zones '' @ dec_digits (length (r_SteeredZones built)) @ [CHR 0x0A] @
     ''# addresses '' @ dec_digits (r_SteeredECSAddrs built) @ [CHR 0x0A] @
     newline_list (r_SteeredZones built)"

section \<open>A round\<close>

text \<open>The inputs \<open>Run\<close> reads before it builds, with the error that ends the round.\<close>

definition load_direct :: "env \<Rightarrow> string \<Rightarrow> dir \<Rightarrow> cn_error + ip_set" where
  "load_direct env path d =
     (case loadLines env path d of
        Inl e \<Rightarrow> Inl (DirectRead e)
      | Inr ls \<Rightarrow> (let (t, _, _) = LoadReader True ls in if set_Len (Some t) = 0 then Inl NoDirect else Inr t))"

definition cn_inputs :: "env \<Rightarrow> cn_options \<Rightarrow> dir \<Rightarrow> cn_error + config \<times> snapshot \<times> zone_ips" where
  "cn_inputs env opt d =
     (case fst (LoadPSL (en_PSL_FILE env) (en_psl_files env) (co_PSLPaths opt)) of
        None \<Rightarrow> Inl NoPSL
      | Some psl \<Rightarrow>
          bind_res (load_direct env (co_Direct4Path opt) d) (\<lambda>direct.
          bind_res (loadCross env (co_DisputedPath opt) KindDisputed d) (\<lambda>disputed.
          bind_res (loadCross env (co_PromotedPath opt) KindPromoted d) (\<lambda>promoted.
          case parsePairs env (co_PairsPath opt) d of
            Inl e \<Rightarrow> Inl (PairsRead e)
          | Inr (snap, zoneIPs) \<Rightarrow>
              Inr (\<lparr>cfg_Direct = Some direct, cfg_Disputed = sn_Set disputed, cfg_Promoted = sn_Set promoted,
                    cfg_PSL = Some psl, cfg_ManualZones = loadManual env (co_ManualPath opt) d,
                    cfg_SharedAnycast = sl_addrs (loadShared env (co_SharedPath opt) d),
                    cfg_MainlandCDN = loadMainlandCDN env (co_CDNRulesPath opt) d,
                    cfg_Aggregate = co_Aggregate opt\<rparr>, snap, zoneIPs)))))"

definition write_lists :: "env \<Rightarrow> cn_options \<Rightarrow> int \<Rightarrow> result \<Rightarrow> dir \<Rightarrow> (io_error + unit) \<times> dir" where
  "write_lists env opt now built d =
     (case (if co_SharedExcludedOut opt = [] then (Inr (), d)
            else WriteAtomic env (co_SharedExcludedOut opt) (newline_list (r_SharedExcluded built)) 420 d) of
        (Inl e, d1) \<Rightarrow> (Inl e, d1)
      | (Inr _, d1) \<Rightarrow>
          (Inr (), if co_SteeredOutPath opt = [] then d1
                   else snd (WriteAtomic env (co_SteeredOutPath opt) (steered_text now built) 420 d1)))"

definition write_results :: "env \<Rightarrow> cn_options \<Rightarrow> result \<Rightarrow> prefix list \<Rightarrow> dir \<Rightarrow> (io_error + unit) \<times> dir" where
  "write_results env opt built targets d =
     (case writeECSConf env (co_ECSOutPath opt) targets d of
        (Inl e, d1) \<Rightarrow> (Inl e, d1)
      | (Inr _, d1) \<Rightarrow>
          (case WriteAtomic env (co_ResultPath opt) (newline_list (map pfx_String (r_RoutePrefixes built))) 420 d1 of
             (Inl e, d2) \<Rightarrow> (Inl e, d2)
           | (Inr _, d2) \<Rightarrow>
               WriteAtomic env (co_MatchedPath opt) (newline_list (map z_Name (r_MatchedZones built))) 420 d2))"

definition defaults :: "cn_options \<Rightarrow> cn_options" where
  "defaults opt =
     (let opt = (if co_AccumTTL opt = 0 then opt\<lparr>co_AccumTTL := DefaultAccumTTL\<rparr> else opt) in
      if co_MaxECSEntries opt = 0 then opt\<lparr>co_MaxECSEntries := DefaultMaxECSEntries\<rparr> else opt)"

definition cn_report :: "result \<Rightarrow> nat \<Rightarrow> nat \<Rightarrow> prefix list \<Rightarrow> cn_result" where
  "cn_report built zones accumKept targets =
     \<lparr>cr_Zones = zones, cr_MatchedZones = length (r_MatchedZones built),
      cr_ForcedZones = length (filter z_Forced (r_MatchedZones built)),
      cr_DeadZones = length (r_DeadZones built), cr_RoutePrefixes = length (r_RoutePrefixes built),
      cr_ECSPrefixes = length (collapsePrefixes targets), cr_SharedExcluded = length (r_SharedExcluded built),
      cr_DisputedCut = length (r_DisputedExcluded built), cr_PromotedUsed = length (r_PromotedUsed built),
      cr_SteeredZones = length (r_SteeredZones built), cr_SteeredByRuleset = length (r_SteeredByRuleset built),
      cr_SteeredECSAddrs = r_SteeredECSAddrs built, cr_AccumKept = accumKept, cr_RTOSeen = r_RTOSeen built\<rparr>"

text \<open>
  \<open>Run\<close>; \<open>order\<close> is the order in which \<open>ruleset.Build\<close> visits the zones. Of a round that ends early only
  the error is modelled, not the counts filled in so far.
\<close>

definition cn_Run ::
  "env \<Rightarrow> string list \<Rightarrow> cn_options \<Rightarrow> int \<Rightarrow> dir \<Rightarrow> (cn_error + cn_result) \<times> dir" where
  "cn_Run env order opt0 now d =
     (let opt = defaults opt0 in
      case cn_inputs env opt d of
        Inl e \<Rightarrow> (Inl e, d)
      | Inr (cfg, snap, zoneIPs) \<Rightarrow>
          (case Build order snap cfg of
             Inl e \<Rightarrow> (Inl (BuildFailed e), d)
           | Inr built \<Rightarrow>
               (case write_lists env opt now built d of
                  (Inl e, d1) \<Rightarrow> (Inl (OutputFailed e), d1)
                | (Inr _, d1) \<Rightarrow>
                    let ecsTargets = remdups (r_ECSPrefixes built);
                        kept = applyAccumulation env opt ecsTargets (cfg_Disputed cfg) now d1;
                        d2 = writeECSTargets env (co_ECSTargetsPath opt) (r_AuthorityECS built) d1;
                        targets = remdups (ecsTargets @ map fst kept);
                        d3 = writeAccumState env (co_ECSStatePath opt) (next_state kept) d2
                    in (case write_results env opt built targets d3 of
                          (Inl e, d4) \<Rightarrow> (Inl (OutputFailed e), d4)
                        | (Inr _, d4) \<Rightarrow>
                            (Inr (cn_report built (length zoneIPs) (length kept) targets), d4)))))"

section \<open>The audit of the allowlist\<close>

record orphan_options =
  oo_ECSConfPath :: string
  oo_Direct4Path :: string
  oo_CNAuthorityPath :: string
  oo_SharedExcludedPath :: string
  oo_AccumStatePath :: string
  oo_AccumTTL :: int
  oo_MaxForeign :: int

record orphan_entry =
  or_Prefix :: prefix
  or_Code :: string
  or_Label :: string
  or_Foreign :: bool

record orphan_report =
  op_Whitelist :: nat
  op_Direct4 :: nat
  op_CNAuthority :: nat
  op_SharedExcluded :: nat
  op_AccumRetained :: nat
  op_Orphans :: "orphan_entry list"
  op_ForeignOrphans :: nat
  op_MaxForeign :: int
  op_ByCode :: "(string \<times> nat) list"
  op_OK :: bool

datatype orphan_error =
  BadThreshold | ConfUnreadable | ConfEmpty | DirectUnreadable | DirectEmpty | AuthorityUnreadable
  | SharedUnreadable | NoGeo nat | GeoUnavailable nat

fun whitelist_lines :: "string list \<Rightarrow> prefix list option" where
  "whitelist_lines [] = Some []"
| "whitelist_lines (line # ls) =
     (case ecsLine line of
        None \<Rightarrow> whitelist_lines ls
      | Some v \<Rightarrow>
          (case ParsePrefix v of
             None \<Rightarrow> None
           | Some p \<Rightarrow> map_option ((#) (Masked p)) (whitelist_lines ls)))"

definition LoadECSWhitelist :: "env \<Rightarrow> string \<Rightarrow> dir \<Rightarrow> prefix list option" where
  "LoadECSWhitelist env path d =
     (case loadLines env path d of Inl _ \<Rightarrow> None | Inr ls \<Rightarrow> whitelist_lines ls)"

definition loadPrefixFile :: "env \<Rightarrow> string \<Rightarrow> dir \<Rightarrow> io_error + prefix list" where
  "loadPrefixFile env path d =
     bind_res (loadLines env path d) (\<lambda>ls. let (t, _, _) = LoadReader False ls in Inr (set_Prefixes (Some t)))"

definition live_key :: "int \<Rightarrow> int \<Rightarrow> string \<times> int \<Rightarrow> prefix list" where
  "live_key ttl now kv =
     (case ParsePrefix (fst kv) of
        Some p \<Rightarrow>
          if \<not> Is4 (pfx_addr p) then []
          else if whole_seconds ttl < go_int (now - snd kv) then []
          else [Masked p]
      | None \<Rightarrow> [])"

definition liveAccumPrefixes :: "env \<Rightarrow> string \<Rightarrow> int \<Rightarrow> int \<Rightarrow> dir \<Rightarrow> prefix list" where
  "liveAccumPrefixes env path ttl now d =
     (let (state, ok) = loadAccumState env path d in
      if \<not> ok then [] else concat (map (live_key ttl now) state))"

definition sortPrefixes :: "prefix list \<Rightarrow> prefix list" where
  "sortPrefixes ps = sort_key (\<lambda>p. (pfx_addr p, pfx_bits p)) ps"

text \<open>\<open>geo\<close> is \<open>CountryOf\<close>: code, label, and whether a database was there.\<close>

definition orphan_entry :: "(addr \<Rightarrow> string \<times> string \<times> bool) \<Rightarrow> prefix \<Rightarrow> orphan_entry" where
  "orphan_entry geo p =
     (let (code0, label, _) = geo (pfx_addr p); cc = (if code0 = [] then ''??'' else code0)
      in \<lparr>or_Prefix = p, or_Code = cc, or_Label = label, or_Foreign = (cc \<noteq> ''CN'')\<rparr>)"

definition tally_code :: "orphan_entry \<Rightarrow> (string \<times> nat) list \<Rightarrow> (string \<times> nat) list" where
  "tally_code e m =
     AList.update (or_Code e) (case map_of m (or_Code e) of None \<Rightarrow> 1 | Some n \<Rightarrow> n + 1) m"

definition orphan_lists ::
  "env \<Rightarrow> orphan_options \<Rightarrow> dir \<Rightarrow> orphan_error + prefix list \<times> prefix list \<times> prefix list \<times> prefix list" where
  "orphan_lists env opt d =
     (if oo_MaxForeign opt < 0 then Inl BadThreshold
      else case LoadECSWhitelist env (oo_ECSConfPath opt) d of
        None \<Rightarrow> Inl ConfUnreadable
      | Some whitelist \<Rightarrow>
          if whitelist = [] then Inl ConfEmpty
          else (case loadPrefixFile env (oo_Direct4Path opt) d of
            Inl _ \<Rightarrow> Inl DirectUnreadable
          | Inr direct4 \<Rightarrow>
              if direct4 = [] then Inl DirectEmpty
              else (case loadPrefixFile env (oo_CNAuthorityPath opt) d of
                Inl _ \<Rightarrow> Inl AuthorityUnreadable
              | Inr cnAuthority \<Rightarrow>
                  (case loadPrefixFile env (oo_SharedExcludedPath opt) d of
                     Inl IOFailure \<Rightarrow> Inl SharedUnreadable
                   | Inl NotExist \<Rightarrow> Inr (whitelist, direct4, cnAuthority, [])
                   | Inr shared \<Rightarrow> Inr (whitelist, direct4, cnAuthority, shared)))))"

definition AuditOrphans ::
  "env \<Rightarrow> (addr \<Rightarrow> string \<times> string \<times> bool) option \<Rightarrow> orphan_options \<Rightarrow> int \<Rightarrow> dir \<Rightarrow> orphan_error + orphan_report" where
  "AuditOrphans env geo opt now d =
     bind_res (orphan_lists env opt d) (\<lambda>(whitelist, direct4, cnAuthority, shared).
       let ttl = (if oo_AccumTTL opt \<le> 0 then DefaultAccumTTL else oo_AccumTTL opt);
           accum = liveAccumPrefixes env (oo_AccumStatePath opt) ttl now d;
           legitimate = setOf (direct4 @ cnAuthority @ shared);
           retained = setOf accum;
           rest = filter (\<lambda>p. \<not> CoversPrefix (Some legitimate) p) whitelist;
           orphans = sortPrefixes (filter (\<lambda>p. \<not> CoversPrefix (Some retained) p) rest);
           report = \<lparr>op_Whitelist = length whitelist, op_Direct4 = length direct4,
             op_CNAuthority = length cnAuthority, op_SharedExcluded = length shared,
             op_AccumRetained = length (filter (CoversPrefix (Some retained)) rest), op_Orphans = [],
             op_ForeignOrphans = 0, op_MaxForeign = oo_MaxForeign opt, op_ByCode = [], op_OK = True\<rparr>
       in if orphans = [] then Inr report
          else case geo of
            None \<Rightarrow> Inl (NoGeo (length orphans))
          | Some g \<Rightarrow>
              let entries = map (orphan_entry g) orphans;
                  foreign = length (filter or_Foreign entries)
              in if list_all (\<lambda>p. \<not> snd (snd (g (pfx_addr p)))) orphans then Inl (GeoUnavailable (length orphans))
                 else Inr (report\<lparr>op_Orphans := entries, op_ForeignOrphans := foreign,
                   op_ByCode := fold tally_code entries [], op_OK := int foreign \<le> oo_MaxForeign opt\<rparr>))"

end
