(* ===== verification/Ruleset_Facts.thy ===== *)
theory Ruleset_Facts
  imports Ruleset
begin

text \<open>
  Package \<open>internal/ruleset\<close>, continued: the result of \<open>Build\<close> does not depend on the order in
  which the zones are visited, every zone has one verdict, which addresses are routed, and the
  direct prefixes that get a client subnet.
\<close>

section \<open>Independence of the order\<close>

definition contribution :: "config \<Rightarrow> snapshot \<Rightarrow> string \<Rightarrow> acc" where
  "contribution cfg s z = build_zone cfg (rto_seen s) (rtos_of s) z (zones4 s z) acc_empty"

lemma fold_build_zone:
  "fold (\<lambda>z. build_zone cfg (rto_seen s) (rtos_of s) z (zones4 s z)) order a =
     foldl acc_join a (map (contribution cfg s) order)"
proof (induction order arbitrary: a)
  case (Cons z order)
  have "build_zone cfg (rto_seen s) (rtos_of s) z (zones4 s z) a = acc_join a (contribution cfg s z)"
    using build_zone_join [of cfg "rto_seen s" "rtos_of s" z "zones4 s z" a acc_empty]
    by (simp add: contribution_def)
  with Cons show ?case by simp
qed simp

lemma joins_fields:
  "acc_route (foldl acc_join a cs) = acc_route a @ concat (map acc_route cs)"
  "acc_exact (foldl acc_join a cs) = acc_exact a @ concat (map acc_exact cs)"
  "acc_extra (foldl acc_join a cs) = acc_extra a @ concat (map acc_extra cs)"
  "acc_dead (foldl acc_join a cs) = acc_dead a @ concat (map acc_dead cs)"
  "acc_matched (foldl acc_join a cs) = acc_matched a @ concat (map acc_matched cs)"
  "acc_defective (foldl acc_join a cs) d = acc_defective a d @ concat (map (\<lambda>c. acc_defective c d) cs)"
  "acc_shared (foldl acc_join a cs) = acc_shared a \<union> (\<Union>c \<in> set cs. acc_shared c)"
  "acc_disputed (foldl acc_join a cs) = acc_disputed a \<union> (\<Union>c \<in> set cs. acc_disputed c)"
  "acc_promoted (foldl acc_join a cs) = acc_promoted a \<union> (\<Union>c \<in> set cs. acc_promoted c)"
  "acc_steeredECS (foldl acc_join a cs) = acc_steeredECS a \<union> (\<Union>c \<in> set cs. acc_steeredECS c)"
  "acc_steeredZones (foldl acc_join a cs) = acc_steeredZones a \<union> (\<Union>c \<in> set cs. acc_steeredZones c)"
  "acc_rulesetZones (foldl acc_join a cs) = acc_rulesetZones a \<union> (\<Union>c \<in> set cs. acc_rulesetZones c)"
  by (induction cs arbitrary: a; simp add: acc_join_def Un_assoc)+

lemma mset_concat_map: "mset xs = mset ys \<Longrightarrow> mset (concat (map f xs)) = mset (concat (map f ys))"
  by (simp add: mset_concat comp_def sum_mset_sum_list [symmetric])

lemma sort_mset_cong: "mset xs = mset ys \<Longrightarrow> sort xs = sort ys"
  by (metis sorted_list_of_multiset_mset)

lemma sort_key_mset_cong: "\<lbrakk>mset xs = mset ys; inj_on f (set xs)\<rbrakk> \<Longrightarrow> sort_key f xs = sort_key f ys"
  by (rule sort_key_inj_key_eq) simp_all

lemma PrefixRange_le: "PrefixRange p = Some r \<Longrightarrow> Lo r \<le> Hi r"
proof -
  assume p: "PrefixRange p = Some r"
  then have v: "Is4 (pfx_addr p)" "pfx_IsValid p" using PrefixRange_None by (metis option.distinct(1))+
  have "wf_prefix p" using v(1)
    by (cases p; cases "pfx_addr p")
      (use p in \<open>auto simp: PrefixRange_def prefixBounds_def prefix_zero_def Let_def split: if_splits\<close>)
  then show ?thesis using PrefixRange_span [OF _ v(2,1)] p by auto
qed

lemma set_map_filter: "set (List.map_filter f xs) = {y. \<exists>x \<in> set xs. f x = Some y}"
  by (induction xs) (auto simp: List.map_filter_simps split: option.splits)

lemma map_filter_wf: "wf_ranges (List.map_filter PrefixRange ps)"
  using PrefixRange_le by (auto simp: list_all_iff set_map_filter)

lemma points_cong: "set rs = set ss \<Longrightarrow> points rs = points ss"
  by (intro spans_set_cong) simp

lemma collapse_cong: "set ps = set qs \<Longrightarrow> collapse ps = collapse qs"
proof -
  assume eq: "set ps = set qs"
  have "set (List.map_filter PrefixRange ps) = set (List.map_filter PrefixRange qs)"
    by (simp add: set_map_filter eq)
  then have "Collapse (List.map_filter PrefixRange ps) = Collapse (List.map_filter PrefixRange qs)"
    by (intro Collapse_canonical map_filter_wf points_cong)
  moreover have "ps = [] \<longleftrightarrow> qs = []" using eq by (metis set_empty)
  ultimately show ?thesis by (simp add: collapse_def New_def)
qed

lemma unique_loop_props:
  "distinct (unique_loop seen ps) \<and> set (unique_loop seen ps) = Masked ` set ps - seen"
  by (induction ps arbitrary: seen) (auto simp: Let_def)

lemma uniquePrefixes_cong: "set ps = set qs \<Longrightarrow> uniquePrefixes ps = uniquePrefixes qs"
proof -
  assume eq: "set ps = set qs"
  have "mset (unique_loop {} ps) = mset (unique_loop {} qs)"
    using unique_loop_props [of "{}" ps] unique_loop_props [of "{}" qs] eq
      set_eq_iff_mset_eq_distinct by metis
  moreover have "inj_on (\<lambda>p. (pfx_addr p, pfx_bits p)) X" for X
    by (auto intro!: inj_onI prefix.expand)
  ultimately show ?thesis unfolding uniquePrefixes_def by (intro sort_key_mset_cong)
qed

definition acc_perm :: "acc \<Rightarrow> acc \<Rightarrow> bool" where
  "acc_perm a b \<longleftrightarrow> mset (acc_route a) = mset (acc_route b) \<and> mset (acc_exact a) = mset (acc_exact b) \<and>
     mset (acc_extra a) = mset (acc_extra b) \<and> mset (acc_dead a) = mset (acc_dead b) \<and>
     mset (acc_matched a) = mset (acc_matched b) \<and> (\<forall>d. mset (acc_defective a d) = mset (acc_defective b d)) \<and>
     acc_shared a = acc_shared b \<and> acc_disputed a = acc_disputed b \<and> acc_promoted a = acc_promoted b \<and>
     acc_steeredECS a = acc_steeredECS b \<and> acc_steeredZones a = acc_steeredZones b \<and>
     acc_rulesetZones a = acc_rulesetZones b"

lemma joins_perm:
  assumes "mset cs = mset ds"
  shows "acc_perm (foldl acc_join a cs) (foldl acc_join a ds)"
  using mset_eq_setD [OF assms]
  by (auto simp: acc_perm_def joins_fields intro!: mset_concat_map [OF assms])

lemma finish_perm:
  assumes "acc_perm a b" and "distinct (map z_Name (acc_matched a))"
  shows "finish cfg seen a = finish cfg seen b"
proof -
  have ms: "mset (acc_exact a @ acc_extra a) = mset (acc_exact b @ acc_extra b)"
    using assms(1) by (simp add: acc_perm_def)
  have "set (acc_route a) = set (acc_route b)" and s: "set (acc_exact a @ acc_extra a) = set (acc_exact b @ acc_extra b)"
    using assms(1) mset_eq_setD [OF ms] by (auto simp: acc_perm_def dest: mset_eq_setD)
  then have "collapse (acc_route a) = collapse (acc_route b)"
    "uniquePrefixes (acc_exact a @ acc_extra a) = uniquePrefixes (acc_exact b @ acc_extra b)"
    by (auto intro: collapse_cong uniquePrefixes_cong simp del: set_append)
  moreover have "collapse ((acc_exact a @ acc_extra a) @ xs) = collapse ((acc_exact b @ acc_extra b) @ xs)" for xs
    using s by (intro collapse_cong) (metis set_append)
  moreover have "sort_key z_Name (acc_matched a) = sort_key z_Name (acc_matched b)"
    using assms by (intro sort_key_mset_cong) (auto simp: acc_perm_def distinct_map)
  moreover have "(\<lambda>d. sort (acc_defective a d)) = (\<lambda>d. sort (acc_defective b d))"
    using assms(1) by (auto simp: acc_perm_def intro: sort_mset_cong)
  moreover have "sort (acc_dead a) = sort (acc_dead b)"
    using assms(1) by (intro sort_mset_cong) (simp add: acc_perm_def)
  ultimately show ?thesis using assms(1) by (simp add: finish_def Let_def acc_perm_def)
qed

section \<open>The verdict on a zone\<close>

definition has_evidence :: "config \<Rightarrow> snapshot \<Rightarrow> string \<Rightarrow> bool" where
  "has_evidence cfg s z \<longleftrightarrow> (\<exists>e \<in> set (zones4 s z). mainlandEvidence cfg (e_IP e))"

definition defect_of :: "config \<Rightarrow> string \<Rightarrow> string" where
  "defect_of cfg z = ZoneDefect z (cfg_PSL cfg)"

definition is_dead :: "config \<Rightarrow> snapshot \<Rightarrow> string \<Rightarrow> bool" where
  "is_dead cfg s z \<longleftrightarrow> defect_of cfg z = '''' \<and> \<not> zone_forced cfg z \<and> has_evidence cfg s z \<and>
     rto_seen s \<and> zone_dead (rtos_of s z) (zones4 s z)"

definition is_matched :: "config \<Rightarrow> snapshot \<Rightarrow> string \<Rightarrow> bool" where
  "is_matched cfg s z \<longleftrightarrow> defect_of cfg z = '''' \<and> (zone_forced cfg z \<or> has_evidence cfg s z) \<and> \<not> is_dead cfg s z"

definition zone_steered :: "config \<Rightarrow> string \<Rightarrow> bool" where
  "zone_steered cfg z \<longleftrightarrow> IsGeoSteered z \<or> cfg_mainlandCDN cfg z"

lemma steer_fields [simp]:
  "acc_matched (steer f z e a) = acc_matched a" "acc_dead (steer f z e a) = acc_dead a"
  "acc_defective (steer f z e a) = acc_defective a" "acc_route (steer f z e a) = acc_route a"
  by (simp_all add: steer_def)

lemma matched_entry_fields [simp]:
  "acc_matched (matched_entry cfg st f z e a) = acc_matched a"
  "acc_dead (matched_entry cfg st f z e a) = acc_dead a"
  "acc_defective (matched_entry cfg st f z e a) = acc_defective a"
  by (simp_all add: matched_entry_def Let_def)

lemma fold_fields [simp]:
  "acc_matched (fold (steer f z) es a) = acc_matched a" "acc_dead (fold (steer f z) es a) = acc_dead a"
  "acc_defective (fold (steer f z) es a) = acc_defective a" "acc_route (fold (steer f z) es a) = acc_route a"
  "acc_matched (fold (matched_entry cfg st f z) es a) = acc_matched a"
  "acc_dead (fold (matched_entry cfg st f z) es a) = acc_dead a"
  "acc_defective (fold (matched_entry cfg st f z) es a) = acc_defective a"
  by (induction es arbitrary: a) simp_all

lemma contribution_verdict:
  "acc_dead (contribution cfg s z) = (if is_dead cfg s z then [z] else [])"
  "acc_matched (contribution cfg s z) =
     (if is_matched cfg s z
      then [\<lparr>z_Name = z, z_Count = length (zones4 s z), z_Forced = zone_forced cfg z\<rparr>] else [])"
  "acc_defective (contribution cfg s z) d = (if defect_of cfg z \<noteq> '''' \<and> d = defect_of cfg z then [z] else [])"
  by (simp_all add: contribution_def build_zone_def Let_def is_dead_def is_matched_def has_evidence_def
      defect_of_def acc_empty_def list_ex_iff)

lemma concat_singleton: "concat (map (\<lambda>z. if P z then [f z] else []) zs) = map f (filter P zs)"
  by (induction zs) simp_all

definition final_acc :: "config \<Rightarrow> snapshot \<Rightarrow> string list \<Rightarrow> acc" where
  "final_acc cfg s order = foldl acc_join acc_empty (map (contribution cfg s) order)"

lemma Build_Inr:
  assumes "Build order s cfg = Inr r"
  shows "r = finish cfg (rto_seen s) (final_acc cfg s order)"
  using assms by (auto simp: Build_def final_acc_def fold_build_zone split: if_splits)

lemma final_verdicts:
  "acc_dead (final_acc cfg s order) = filter (is_dead cfg s) order"
  "map z_Name (acc_matched (final_acc cfg s order)) = filter (is_matched cfg s) order"
  "acc_defective (final_acc cfg s order) d = filter (\<lambda>z. defect_of cfg z \<noteq> '''' \<and> d = defect_of cfg z) order"
  by (simp_all add: final_acc_def joins_fields acc_empty_def contribution_verdict comp_def concat_singleton
      concat_singleton [where f = "\<lambda>z. z", simplified])

lemma zone_order_mset: "\<lbrakk>zone_order s xs; zone_order s ys\<rbrakk> \<Longrightarrow> mset xs = mset ys"
  using set_eq_iff_mset_eq_distinct by (metis zone_order_def)

lemma Build_order:
  assumes "zone_order s xs" and "zone_order s ys"
  shows "Build xs s cfg = Build ys s cfg"
proof -
  have m: "mset (map (contribution cfg s) xs) = mset (map (contribution cfg s) ys)"
    using zone_order_mset [OF assms] by simp
  have d: "distinct (map z_Name (acc_matched (final_acc cfg s xs)))"
    using assms(1) by (simp add: final_verdicts zone_order_def)
  have "finish cfg (rto_seen s) (final_acc cfg s xs) = finish cfg (rto_seen s) (final_acc cfg s ys)"
    using joins_perm [OF m, of acc_empty] d by (intro finish_perm) (simp_all add: final_acc_def)
  then show ?thesis by (simp add: Build_def fold_build_zone flip: final_acc_def)
qed

section \<open>Which addresses are routed\<close>

text \<open>With host granularity (aggregation 0 or 32) a routed prefix is a single address.\<close>

definition routed :: "config \<Rightarrow> bool \<Rightarrow> addr \<Rightarrow> bool" where
  "routed cfg steered ip \<longleftrightarrow> routable ip \<and>
     (isDisputed cfg ip \<or> ((mainlandEvidence cfg ip \<or> \<not> steered) \<and> ip \<notin> cfg_SharedAnycast cfg))"

lemma matched_entry_route:
  assumes "\<not> (0 < cfg_Aggregate cfg \<and> cfg_Aggregate cfg < 32)"
  shows "acc_route (matched_entry cfg st f z e a) =
    acc_route a @ (if routed cfg st (e_IP e) then [PrefixFrom (e_IP e) 32] else [])"
  using assms by (auto simp: matched_entry_def Let_def routed_def routable_def)

lemma fold_route:
  assumes "\<not> (0 < cfg_Aggregate cfg \<and> cfg_Aggregate cfg < 32)"
  shows "acc_route (fold (matched_entry cfg st f z) es a) =
    acc_route a @ map (\<lambda>e. PrefixFrom (e_IP e) 32) (filter (\<lambda>e. routed cfg st (e_IP e)) es)"
  by (induction es arbitrary: a) (simp_all add: matched_entry_route [OF assms])

lemma contribution_route:
  assumes "\<not> (0 < cfg_Aggregate cfg \<and> cfg_Aggregate cfg < 32)"
  shows "acc_route (contribution cfg s z) =
    (if is_matched cfg s z
     then map (\<lambda>e. PrefixFrom (e_IP e) 32) (filter (\<lambda>e. routed cfg (zone_steered cfg z) (e_IP e)) (zones4 s z))
     else [])"
proof -
  have st: "(IsGeoSteered z \<or> \<not> IsGeoSteered z \<and> cfg_mainlandCDN cfg z) = zone_steered cfg z"
    by (auto simp: zone_steered_def)
  show ?thesis
    using fold_route [OF assms] st
    by (simp add: contribution_def build_zone_def Let_def is_dead_def is_matched_def has_evidence_def
        defect_of_def acc_empty_def list_ex_iff) blast
qed

lemma host_prefix: "Is4 a \<Longrightarrow> \<exists>w. a = Addr4 w \<and> PrefixFrom a 32 = Prefix (Addr4 w) (int 32)"
  by (cases a) (simp_all add: PrefixFrom_def)

lemma collapse_addrs:
  assumes "list_all wf_prefix ps"
  shows "pfxs_addrs (collapse ps) = {Addr4 w |w. \<exists>p \<in> set ps. pfx_IsValid p \<and> pfx_Contains p (Addr4 w)}"
proof -
  let ?rs = "List.map_filter PrefixRange ps"
  have in_iff: "uint w \<in> points ?rs \<longleftrightarrow> (\<exists>p \<in> set ps. pfx_IsValid p \<and> pfx_Contains p (Addr4 w))" for w
  proof -
    have "(\<exists>r. PrefixRange p = Some r \<and> Lo r \<le> w \<and> w \<le> Hi r) \<longleftrightarrow> pfx_IsValid p \<and> pfx_Contains p (Addr4 w)"
      if "p \<in> set ps" for p
    proof (cases "Is4 (pfx_addr p) \<and> pfx_IsValid p")
      case True
      have wf: "wf_prefix p" using assms that by (simp add: list_all_iff)
      obtain r where r: "PrefixRange p = Some r" "span_of r = spansOfPrefix p"
        using PrefixRange_span [OF wf] True by blast
      have "\<not> Is6 (pfx_addr p)" using True by (cases "pfx_addr p") auto
      then have "pfx_Contains p (Addr4 w) \<longleftrightarrow> uint w \<in> span_set (span_of r)"
        using pfx_Contains_span [OF wf, of "Addr4 w"] True r(2) by simp
      then show ?thesis using r(1) True by (auto simp: mem_span_set word_le_def)
    next
      case False
      then have "PrefixRange p = None" using PrefixRange_None by blast
      moreover have "\<not> (pfx_IsValid p \<and> pfx_Contains p (Addr4 w))"
        using False by (cases "(p, Addr4 w)" rule: pfx_Contains.cases) auto
      ultimately show ?thesis by simp
    qed
    then show ?thesis by (simp add: mem_points set_map_filter) blast
  qed
  show ?thesis
  proof (cases "ps = []")
    case True
    then show ?thesis by (auto simp: collapse_def pfxs_addrs_def)
  next
    case False
    then have "pfxs_addrs (collapse ps) = {Addr4 w |w. uint w \<in> points ?rs}"
      using set_Prefixes_addrs(1) [OF New_inv [OF map_filter_wf]] by (simp add: collapse_def)
    then show ?thesis by (simp add: in_iff)
  qed
qed

lemma host_contains: "pfx_Contains (Prefix (Addr4 v) (int 32)) (Addr4 w) \<longleftrightarrow> v = w"
  by (auto simp: xor_eq_0)

lemma RoutePrefixes_addrs:
  assumes b: "Build order s cfg = Inr r" and o: "zone_order s order"
    and agg: "\<not> (0 < cfg_Aggregate cfg \<and> cfg_Aggregate cfg < 32)"
  shows "pfxs_addrs (r_RoutePrefixes r) =
    {a. \<exists>z. is_matched cfg s z \<and> (\<exists>e \<in> set (zones4 s z). e_IP e = a \<and> routed cfg (zone_steered cfg z) a)}"
proof -
  let ?ps = "acc_route (final_acc cfg s order)"
  have r: "r_RoutePrefixes r = collapse ?ps" using Build_Inr [OF b] by (simp add: finish_def Let_def)
  have mem: "p \<in> set ?ps \<longleftrightarrow> (\<exists>z. is_matched cfg s z \<and> (\<exists>e \<in> set (zones4 s z).
      routed cfg (zone_steered cfg z) (e_IP e) \<and> p = PrefixFrom (e_IP e) 32))" for p
  proof -
    have "p \<in> set ?ps \<longleftrightarrow> (\<exists>z \<in> set order. is_matched cfg s z \<and> (\<exists>e \<in> set (zones4 s z).
        routed cfg (zone_steered cfg z) (e_IP e) \<and> p = PrefixFrom (e_IP e) 32))"
      by (auto simp: final_acc_def joins_fields acc_empty_def contribution_route [OF agg] split: if_splits)
    then show ?thesis using o by (auto simp: zone_order_def) (metis empty_iff list.set(1))
  qed
  have host: "\<exists>w. e_IP e = Addr4 w \<and> PrefixFrom (e_IP e) 32 = Prefix (Addr4 w) (int 32)"
    if "routed cfg st (e_IP e)" for e :: entry and st
    using that host_prefix [of "e_IP e"] by (auto simp: routed_def routable_def)
  have wf: "list_all wf_prefix ?ps"
    using host by (fastforce simp: list_all_iff mem)
  have "Addr4 w \<in> pfxs_addrs (collapse ?ps) \<longleftrightarrow> Prefix (Addr4 w) (int 32) \<in> set ?ps" for w
  proof -
    have "p = Prefix (Addr4 w) (int 32)" if p: "p \<in> set ?ps" "pfx_Contains p (Addr4 w)" for p
    proof -
      obtain e :: entry and st where "routed cfg st (e_IP e)" "p = PrefixFrom (e_IP e) 32" using p(1) unfolding mem by blast
      then obtain v where "p = Prefix (Addr4 v) (int 32)" using host by metis
      then show ?thesis using p(2) host_contains by simp
    qed
    moreover have "pfx_IsValid (Prefix (Addr4 w) (int 32)) \<and> pfx_Contains (Prefix (Addr4 w) (int 32)) (Addr4 w)"
      using host_contains [of w w] by (simp add: pfx_IsValid_def)
    moreover have "Addr4 w \<in> pfxs_addrs (collapse ?ps) \<longleftrightarrow>
        (\<exists>p \<in> set ?ps. pfx_IsValid p \<and> pfx_Contains p (Addr4 w))"
      unfolding collapse_addrs [OF wf] by blast
    ultimately show ?thesis by blast
  qed
  then have left: "a \<in> pfxs_addrs (collapse ?ps) \<longleftrightarrow> (\<exists>w. a = Addr4 w \<and> Prefix (Addr4 w) (int 32) \<in> set ?ps)" for a
    using collapse_addrs [OF wf] by fastforce
  have "routed cfg st (e_IP e) \<and> Prefix (Addr4 w) (int 32) = PrefixFrom (e_IP e) 32 \<longleftrightarrow>
      e_IP e = Addr4 w \<and> routed cfg st (Addr4 w)" for e :: entry and st w
    using host [of st e] by (auto simp: PrefixFrom_def)
  then have right: "Prefix (Addr4 w) (int 32) \<in> set ?ps \<longleftrightarrow> (\<exists>z. is_matched cfg s z \<and>
      (\<exists>e \<in> set (zones4 s z). e_IP e = Addr4 w \<and> routed cfg (zone_steered cfg z) (Addr4 w)))" for w
    unfolding mem by simp
  have v4: "\<exists>w. a = Addr4 w" if "routed cfg st a" for a st
    using that by (cases a) (auto simp: routed_def routable_def)
  show ?thesis
  proof (intro set_eqI, unfold r left right mem_Collect_eq)
    fix a
    show "(\<exists>w. a = Addr4 w \<and> (\<exists>z. is_matched cfg s z \<and>
        (\<exists>e \<in> set (zones4 s z). e_IP e = Addr4 w \<and> routed cfg (zone_steered cfg z) (Addr4 w)))) \<longleftrightarrow>
      (\<exists>z. is_matched cfg s z \<and> (\<exists>e \<in> set (zones4 s z). e_IP e = a \<and> routed cfg (zone_steered cfg z) a))"
      using v4 by metis
  qed
qed

section \<open>Direct prefixes\<close>

lemma directECSPrefixes_eq:
  assumes "cfg_Direct cfg = Some d" and "set_inv d" and "\<And>t. cfg_Disputed cfg = Some t \<Longrightarrow> set_inv t"
  obtains t where "directECSPrefixes cfg = set_Prefixes (Some t)" "set_inv t"
    "points (set_ranges t) = points (set_ranges d) - points (Ranges (cfg_Disputed cfg))"
proof (cases "cfg_Disputed cfg = None \<or> set_Len (cfg_Disputed cfg) = 0")
  case True
  then have "points (Ranges (cfg_Disputed cfg)) = {}"
    by (cases "cfg_Disputed cfg") (auto simp: Ranges_def set_Len_def)
  then show ?thesis using that [of d] True assms(1,2) by (simp add: directECSPrefixes_def)
next
  case False
  then obtain x where x: "cfg_Disputed cfg = Some x" by auto
  let ?sub = "ipset_Subtract (set_ranges d) (set_ranges x)"
  have n: "range_arg (set_ranges d)" "range_arg (set_ranges x)"
    using assms(2) assms(3) [OF x] by (simp_all add: set_inv_def range_arg_normal)
  note sub = ipset_Subtract_correct [OF n]
  have "set_inv (New ?sub)" using sub(2) by (intro New_inv normal_ranges_wf)
  moreover have "directECSPrefixes cfg = set_Prefixes (Some (New ?sub))"
    using False assms(1) x by (simp add: directECSPrefixes_def Ranges_def)
  ultimately show ?thesis using that [of "New ?sub"] sub(1) x by (simp add: Ranges_def)
qed

lemma count_step:
  assumes "wf_prefix p" and "pfx_IsValid p" and "Is4 (pfx_addr p)"
  obtains rg where "PrefixRange p = Some rg"
    "ucast (Hi rg - Lo rg) + 1 = (word_of_int (sp_hi (spansOfPrefix p) - sp_lo (spansOfPrefix p) + 1) :: u64)"
proof -
  obtain rg where r: "PrefixRange p = Some rg" "span_of rg = spansOfPrefix p" "Lo rg \<le> Hi rg"
    using PrefixRange_span [OF assms] by blast
  have "uint (Hi rg - Lo rg) = uint (Hi rg) - uint (Lo rg)" using r(3) by (rule uint_sub_ge)
  then have "ucast (Hi rg - Lo rg) + 1 = (word_of_int (uint (Hi rg) - uint (Lo rg) + 1) :: u64)"
    by (simp only: ucast_eq) simp
  then show ?thesis using that [OF r(1)] by (simp flip: r(2))
qed

abbreviation count_loop :: "u64 \<Rightarrow> prefix list \<Rightarrow> u64" where
  "count_loop \<equiv> foldl (\<lambda>n p. case PrefixRange p of None \<Rightarrow> n | Some rg \<Rightarrow> n + (ucast (Hi rg - Lo rg) + 1))"

lemma chain_count:
  "\<lbrakk>chain lo hi (map spansOfPrefix ps); \<forall>p \<in> set ps. wf_prefix p \<and> pfx_IsValid p \<and> Is4 (pfx_addr p)\<rbrakk> \<Longrightarrow>
   count_loop n ps = n + word_of_int (hi + 1 - lo)"
proof (induction ps arbitrary: lo n)
  case (Cons p ps)
  obtain rg where rg: "PrefixRange p = Some rg"
    "ucast (Hi rg - Lo rg) + 1 = (word_of_int (sp_hi (spansOfPrefix p) - sp_lo (spansOfPrefix p) + 1) :: u64)"
    using count_step [of p] Cons.prems(2) by auto
  have "count_loop n (p # ps) = count_loop (n + word_of_int (sp_hi (spansOfPrefix p) - lo + 1)) ps"
    using rg Cons.prems(1) by simp
  also have "\<dots> = n + word_of_int (sp_hi (spansOfPrefix p) - lo + 1) + word_of_int (hi + 1 - (sp_hi (spansOfPrefix p) + 1))"
    using Cons.prems by (intro Cons.IH) auto
  also have "\<dots> = n + word_of_int (hi + 1 - lo)" by (simp add: algebra_simps)
  finally show ?case .
qed simp

lemma range_prefixes_count:
  assumes "Lo r \<le> Hi r"
  shows "count_loop n (rangeToPrefixes r) = n + range_count r"
proof -
  let ?ps = "rangePrefixes (uint (Lo r)) (uint (Hi r)) False"
  have le: "uint (Lo r) \<le> uint (Hi r)" using assms by (simp add: word_le_def)
  have "uint (Hi r) < 2 ^ family_bits False" using uint_lt2p [of "Hi r"] by (simp add: family_bits_def)
  then have c: "chain (uint (Lo r)) (uint (Hi r)) (map spansOfPrefix ?ps)"
    and p: "\<forall>p \<in> set ?ps. wf_prefix p \<and> pfx_IsValid p \<and> Masked p = p \<and> Is6 (pfx_addr p) = False"
    using range_prefixes_chain [OF _ le] by (auto simp: rangePrefixes_def)
  have "Is4 (pfx_addr p)" if "p \<in> set ?ps" for p
    using bspec [OF p that] by (cases p rule: wf_prefix.cases) (auto simp: pfx_IsValid_def)
  then have "count_loop n ?ps = n + word_of_int (uint (Hi r) + 1 - uint (Lo r))"
    using p by (intro chain_count [OF c]) auto
  also have "word_of_int (uint (Hi r) + 1 - uint (Lo r)) = range_count r"
    using range_count_card [OF assms] le by (simp add: span_set_def algebra_simps)
  finally show ?thesis using rangeToPrefixes_eq [OF assms] by simp
qed

lemma directECSAddressCount_set:
  assumes "set_inv t"
  shows "directECSAddressCount (set_Prefixes (Some t)) = AddressCount (Some t)"
proof -
  have "wf_ranges rs \<Longrightarrow> count_loop n (concat (map rangeToPrefixes rs)) = foldl (\<lambda>n r. n + range_count r) n rs"
    for rs n by (induction rs arbitrary: n) (simp_all add: range_prefixes_count)
  moreover have "wf_ranges (set_ranges t)" using assms by (simp add: set_inv_def normal_ranges_wf)
  ultimately show ?thesis
    by (simp add: directECSAddressCount_def set_Prefixes_def AddressCount_def sum_counts_def)
qed

lemma direct_cut:
  assumes d: "cfg_Direct cfg = Some d" "set_inv d" and x: "\<And>t. cfg_Disputed cfg = Some t \<Longrightarrow> set_inv t"
    and b: "Build order s cfg = Inr r"
  shows "unat (r_DirectECSCutAddrs r) = card (points (set_ranges d) \<inter> points (Ranges (cfg_Disputed cfg)))"
proof -
  let ?D = "points (set_ranges d)" and ?X = "points (Ranges (cfg_Disputed cfg))"
  obtain t where t: "directECSPrefixes cfg = set_Prefixes (Some t)" "set_inv t" "points (set_ranges t) = ?D - ?X"
    by (rule directECSPrefixes_eq [OF d x]) auto
  have cut: "r_DirectECSCutAddrs r = AddressCount (Some d) - AddressCount (Some t)"
    using Build_Inr [OF b] by (simp add: finish_def Let_def t(1) directECSAddressCount_set [OF t(2)] d(1))
  have fin: "finite ?D" by (auto simp: spans_set_def span_set_def)
  have le: "card (?D - ?X) \<le> card ?D" using fin by (intro card_mono) auto
  have "AddressCount (Some t) \<le> AddressCount (Some d)"
    using le AddressCount_card [OF d(2)] AddressCount_card [OF t(2)] t(3) by (simp add: word_le_nat_alt)
  then have "unat (r_DirectECSCutAddrs r) = card ?D - card (?D - ?X)"
    using AddressCount_card [OF d(2)] AddressCount_card [OF t(2)] t(3) by (simp add: cut unat_sub)
  also have "\<dots> = card (?D \<inter> ?X)"
    using fin card_Diff_subset_Int [of ?D ?X] card_mono [OF fin, of "?D \<inter> ?X"] by simp
  finally show ?thesis .
qed

section \<open>Properties\<close>

text \<open>C8: The result does not depend on the order in which the map of zones is visited.\<close>

theorem Build_order_independent:
  assumes "zone_order s xs" and "zone_order s ys"
  shows "Build xs s cfg = Build ys s cfg"
  using assms by (rule Build_order)

theorem Build_order_independent_witness:
  "Build [''a.cn'', ''b.cn''] \<lparr>s_Entries = [\<lparr>e_Zone = ''a.cn'', e_IP = Addr4 1, e_RTO = 0, e_HasRTO = False\<rparr>,
       \<lparr>e_Zone = ''b.cn'', e_IP = Addr4 2, e_RTO = 0, e_HasRTO = False\<rparr>], s_Skipped = 0\<rparr>
     \<lparr>cfg_Direct = Some (New [Range 1 2]), cfg_Disputed = None, cfg_Promoted = None,
      cfg_PSL = Some (ParsePSL [] []), cfg_ManualZones = {}, cfg_SharedAnycast = {}, cfg_MainlandCDN = {},
      cfg_Aggregate = 0\<rparr> =
   Build [''b.cn'', ''a.cn''] \<lparr>s_Entries = [\<lparr>e_Zone = ''a.cn'', e_IP = Addr4 1, e_RTO = 0, e_HasRTO = False\<rparr>,
       \<lparr>e_Zone = ''b.cn'', e_IP = Addr4 2, e_RTO = 0, e_HasRTO = False\<rparr>], s_Skipped = 0\<rparr>
     \<lparr>cfg_Direct = Some (New [Range 1 2]), cfg_Disputed = None, cfg_Promoted = None,
      cfg_PSL = Some (ParsePSL [] []), cfg_ManualZones = {}, cfg_SharedAnycast = {}, cfg_MainlandCDN = {},
      cfg_Aggregate = 0\<rparr>"
  by (rule Build_order_independent) (auto simp: zone_order_def zones4_def Zones_eq)



text \<open>With host granularity, the routed addresses are exactly those of matched zones that are globally
  routable and either disputed, or not shared anycast and, in a steered zone, with mainland
  evidence.\<close>

theorem Build_routes:
  assumes "Build order s cfg = Inr r" and "zone_order s order"
    and "cfg_Aggregate cfg = 0 \<or> cfg_Aggregate cfg = 32"
  shows "pfxs_addrs (r_RoutePrefixes r) =
    {a. \<exists>z. is_matched cfg s z \<and> (\<exists>e \<in> set (zones4 s z). e_IP e = a \<and> routed cfg (zone_steered cfg z) a)}"
  using assms(3) by (intro RoutePrefixes_addrs [OF assms(1,2)]) auto

theorem Build_routes_witness:
  "\<exists>r. Build [] \<lparr>s_Entries = [], s_Skipped = 0\<rparr> \<lparr>cfg_Direct = Some (New [Range 1 2]), cfg_Disputed = None,
       cfg_Promoted = None, cfg_PSL = Some (ParsePSL [] []), cfg_ManualZones = {}, cfg_SharedAnycast = {},
       cfg_MainlandCDN = {}, cfg_Aggregate = 32\<rparr> = Inr r \<and> pfxs_addrs (r_RoutePrefixes r) = {}"
    (is "\<exists>r. Build [] ?s ?c = Inr r \<and> _")
proof -
  have "set_Len (Some (New [Range 1 2])) \<noteq> 0" by code_simp
  then obtain r where r: "Build [] ?s ?c = Inr r" by (simp add: Build_def)
  have "zone_order ?s []" by (simp add: zone_order_def zones4_def Zones_eq)
  with Build_routes [OF r] show ?thesis using r by (simp add: zones4_def Zones_eq)
qed

text \<open>The direct prefixes that get a client subnet cover the direct set less the disputed one, and the
  reported number of addresses cut off is the size of their intersection.\<close>

theorem Build_direct_ECS:
  assumes "cfg_Direct cfg = Some (New ds)" and "wf_ranges ds"
    and "cfg_Disputed cfg = Some (New xs)" and "wf_ranges xs" and "Build order s cfg = Inr r"
  shows "pfxs_addrs (directECSPrefixes cfg) = {Addr4 w |w. uint w \<in> points ds - points xs} \<and>
    unat (r_DirectECSCutAddrs r) = card (points ds \<inter> points xs)"
proof -
  have i: "set_inv (New ds)" "\<And>t. cfg_Disputed cfg = Some t \<Longrightarrow> set_inv t"
    using assms New_inv by auto
  obtain t where t: "directECSPrefixes cfg = set_Prefixes (Some t)" "set_inv t"
    "points (set_ranges t) = points (set_ranges (New ds)) - points (Ranges (cfg_Disputed cfg))"
    by (rule directECSPrefixes_eq [OF assms(1) i]) auto
  show ?thesis
    using direct_cut [OF assms(1) i assms(5)] set_Prefixes_addrs(1) [OF t(2)] t(3) assms(3)
    by (simp add: t(1) Ranges_def)
qed

theorem Build_direct_ECS_witness:
  "\<exists>r. Build [] \<lparr>s_Entries = [], s_Skipped = 0\<rparr> \<lparr>cfg_Direct = Some (New [Range 1 9]),
       cfg_Disputed = Some (New [Range 4 5]), cfg_Promoted = None, cfg_PSL = Some (ParsePSL [] []),
       cfg_ManualZones = {}, cfg_SharedAnycast = {}, cfg_MainlandCDN = {}, cfg_Aggregate = 0\<rparr> = Inr r \<and>
     unat (r_DirectECSCutAddrs r) = 2"
    (is "\<exists>r. Build [] ?s ?c = Inr r \<and> _")
proof -
  have "set_Len (Some (New [Range 1 9])) \<noteq> 0" by code_simp
  then obtain r where r: "Build [] ?s ?c = Inr r" by (simp add: Build_def)
  have "unat (r_DirectECSCutAddrs r) = card (points [Range 1 9] \<inter> points [Range 4 5])"
    using Build_direct_ECS [of ?c "[Range 1 9]" "[Range 4 5]", OF _ _ _ _ r] by simp
  also have "points [Range 1 9] \<inter> points [Range 4 5] = {4..5}" by (auto simp: span_set_def)
  finally show ?thesis using r by simp
qed

end
