(* ===== verification/File_Facts.thy ===== *)
theory File_Facts
  imports Access_Facts
begin

text \<open>
  What the writers of state files share: an atomic write touches its file only and none when it fails,
  and a printed number is read back.
\<close>

section \<open>Writes\<close>

lemma WriteAtomic_other:
  assumes "temps_ok env d0" and "visible p" and "p \<noteq> path"
  shows "snd (WriteAtomic env path data mode d) p = d p"
  using assms by (auto simp: WriteAtomic_def Let_def temps_ok_def remove_temp_def split: option.splits)

lemma WriteAtomic_failed:
  assumes "WriteAtomic env path data mode d = (Inl e, d')" and "temps_ok env d0" and "visible p"
  shows "d' p = d p"
  using assms by (auto simp: WriteAtomic_def Let_def temps_ok_def remove_temp_def split: option.splits if_splits)

definition can_write :: "env \<Rightarrow> string \<Rightarrow> bool" where
  "can_write env path \<longleftrightarrow> (let i = en_io env path in
     io_mkdir i \<and> io_temp i \<noteq> None \<and> io_write i \<and> io_chmod i \<and> io_owner i \<and> io_close i \<and> io_rename i)"

lemma can_write_done:
  assumes "can_write env path"
  shows "snd (WriteAtomic env path data mode d) path = Some \<lparr>f_data = data, f_mode = mode\<rparr>"
  using assms by (auto simp: can_write_def WriteAtomic_def Let_def)

section \<open>Printed numbers\<close>

lemma Atoi_int_digits_any:
  assumes "- (2 ^ 63) \<le> k" and "k < 2 ^ 63"
  shows "Atoi (int_digits k) = Some k"
proof -
  have digits: "d \<noteq> [] \<and> list_all is_digit d \<and> dec_value 0 d = n \<and> hd d \<noteq> CHR ''-'' \<and> hd d \<noteq> CHR ''+''"
    if "d = dec_digits n" for d n
    using dec_digits_digits [of n] unfolding that
    by (cases "dec_digits n") (auto simp: is_digit_def simp del: dec_value.simps dest: dec_digits_not_Nil [THEN notE],
        (metis dec_value_dec_digits)?)
  show ?thesis
  proof (cases "k < 0")
    case True
    then show ?thesis using digits [OF refl, of "nat (- k)"] assms unfolding Atoi_def int_digits_def
      by (simp del: dec_value.simps)
  next
    case False
    then show ?thesis using digits [OF refl, of "nat k"] assms unfolding Atoi_def int_digits_def
      by (cases "dec_digits (nat k)") (simp_all del: dec_value.simps)
  qed
qed

lemma length_dec_digits_le: "n < 10 ^ Suc k \<Longrightarrow> length (dec_digits n) \<le> Suc k"
proof (induction k arbitrary: n)
  case (Suc k)
  then have "n div 10 < 10 ^ Suc k" by (simp add: div_less_iff_less_mult mult.commute)
  from Suc.IH [OF this] show ?case by (subst dec_digits.simps) simp
qed (subst dec_digits.simps, simp)

lemma int_digits_word:
  assumes "- (2 ^ 63) \<le> k" and "k < 2 ^ 63"
  shows "\<forall>c \<in> set (int_digits k). printable c" and "length (int_digits k) \<le> 20" and "int_digits k \<noteq> []"
proof -
  have "printable c" if "c \<in> set (dec_digits n)" for c n
    using that dec_digits_digits [of n] by (auto simp: list_all_iff is_digit_def)
  then show "\<forall>c \<in> set (int_digits k). printable c" by (auto simp: int_digits_def)
  have "nat \<bar>k\<bar> < 10 ^ Suc 18" using assms by (auto simp: nat_less_iff)
  from length_dec_digits_le [OF this] show "length (int_digits k) \<le> 20" by (simp add: int_digits_def abs_if split: if_splits)
  show "int_digits k \<noteq> []" by (simp add: int_digits_def)
qed

end
