(* ===== verification/CN_Auth_Facts.thy ===== *)
theory CN_Auth_Facts
  imports CN_Auth Ruleset_Facts Access_ACL File_Facts
begin

text \<open>
  The properties of package \<open>internal/cnauth\<close>: what the accumulation keeps, that the state file carries
  the time stamps from round to round, what a round writes, and what the audit reports.
\<close>

section \<open>Address sets\<close>

lemma collapsePrefixes_eq: "collapsePrefixes ps = collapse ps"
proof (cases "ps = []")
  case True
  have "collapsePrefixes [] = []" by code_simp
  with True show ?thesis by (simp add: collapse_def)
qed (simp add: collapsePrefixes_def collapse_def setOf_def)

lemma setOf_inv [simp]: "set_inv (setOf ps)"
  unfolding setOf_def by (intro New_inv map_filter_wf)

lemma setOf_points:
  assumes "list_all wf_prefix ps"
  shows "uint w \<in> points (set_ranges (setOf ps)) \<longleftrightarrow> (\<exists>p \<in> set ps. pfx_IsValid p \<and> pfx_Contains p (Addr4 w))"
proof -
  have "Addr4 w \<in> pfxs_addrs (collapsePrefixes ps) \<longleftrightarrow> uint w \<in> points (set_ranges (setOf ps))"
    unfolding collapsePrefixes_def set_Prefixes_addrs(1) [OF setOf_inv] by auto
  then show ?thesis by (simp add: collapsePrefixes_eq collapse_addrs [OF assms])
qed

definition addrs4 :: "prefix list \<Rightarrow> addr set" where
  "addrs4 ps = {Addr4 w |w. \<exists>p \<in> set ps. pfx_IsValid p \<and> pfx_Contains p (Addr4 w)}"

lemma addrs4_append [simp]: "addrs4 (ps @ qs) = addrs4 ps \<union> addrs4 qs"
  by (auto simp: addrs4_def)

lemma collapsePrefixes_addrs: "list_all wf_prefix ps \<Longrightarrow> pfxs_addrs (collapsePrefixes ps) = addrs4 ps"
  by (simp add: collapsePrefixes_eq collapse_addrs addrs4_def)

lemma covers_setOf:
  assumes "list_all wf_prefix ps" and "canonical4 p"
  shows "CoversPrefix (Some (setOf ps)) p \<longleftrightarrow> addrs4 [p] \<subseteq> addrs4 ps"
proof -
  have p: "wf_prefix p" "pfx_IsValid p" "Is4 (pfx_addr p)" using assms(2) by (simp_all add: canonical4_def)
  have n6: "\<not> Is6 (pfx_addr p)" using p(3) by (cases "pfx_addr p") auto
  have span: "pfx_Contains p (Addr4 w) \<longleftrightarrow> uint w \<in> span_set (spansOfPrefix p)" for w
    using pfx_Contains_span [OF p(1,2), of "Addr4 w"] n6 by simp
  have range: "\<exists>w :: u32. x = uint w" if "x \<in> span_set (spansOfPrefix p)" for x
  proof -
    have "0 \<le> x" "x < 2 ^ 32"
      using that span_bounds [OF p(1,2)] n6 by (auto simp: span_set_def family_bits_def)
    then have "x = uint (word_of_int x :: u32)" by (simp add: uint_word_of_int)
    then show ?thesis by blast
  qed
  have "span_set (spansOfPrefix p) \<subseteq> points (set_ranges (setOf ps)) \<longleftrightarrow> addrs4 [p] \<subseteq> addrs4 ps"
    using range setOf_points [OF assms(1)] span p(2) by (fastforce simp: addrs4_def)
  then show ?thesis using CoversPrefix_iff [OF setOf_inv p(1,2)] p(3) by simp
qed

section \<open>The state file\<close>

lemma Fields_pair:
  assumes "\<forall>c \<in> set a. printable c" and "\<forall>c \<in> set b. printable c" and "a \<noteq> []" and "b \<noteq> []"
  shows "Fields (a @ CHR 0x09 # b) = [a, b]"
proof -
  have "fields_loop acc (a @ CHR 0x09 # b) = [rev acc @ a, b]" if "rev acc @ a \<noteq> []" for acc
    using assms(1) that
  proof (induction a arbitrary: acc)
    case Nil
    have "front_space (CHR 0x09 # b) = 1" by (simp add: front_space_def space_width.simps)
    then show ?case using Nil assms(2,4) fields_loop_word [of b "[]"] by simp
  next
    case (Cons c a)
    then have "fields_loop acc (c # a @ CHR 0x09 # b) = fields_loop (c # acc) (a @ CHR 0x09 # b)"
      by (simp add: front_space_printable)
    with Cons show ?case by simp
  qed
  from this [of "[]"] assms(3) show ?thesis by (simp add: Fields_def)
qed

lemma v4_String_length: "length (v4_String w) \<le> 15"
proof -
  have d: "length (dec_digits (unat b)) \<le> 3" for b :: u8
  proof -
    have "unat b < 2 ^ LENGTH(8)" by (rule unsigned_less)
    then show ?thesis using length_dec_digits_le [of "unat b" 2] by simp
  qed
  show ?thesis
    using d [of "ucast (drop_bit 24 w)"] d [of "ucast (drop_bit 16 w)"] d [of "ucast (drop_bit 8 w)"] d [of "ucast w"]
    by (simp add: v4_String_def octets_4)
qed

lemma canonical4_word:
  assumes "canonical4 p"
  shows "\<forall>c \<in> set (pfx_String p). printable c" and "length (pfx_String p) \<le> 18" and "ParsePrefix (pfx_String p) = Some p"
proof -
  from assms obtain w b where p: "p = Prefix (Addr4 w) (int b)" "b \<le> 32"
    using valid_cases [of p] unfolding canonical4_def by (metis Is4.simps(3) prefix.sel(1))
  have s: "pfx_String p = v4_String w @ CHR ''/'' # dec_digits b"
    using p by (simp add: pfx_String_def pfx_IsValid_def)
  have "printable c" if "c \<in> set (dec_digits n)" for c n
    using that dec_digits_digits [of n] by (auto simp: list_all_iff is_digit_def)
  then show "\<forall>c \<in> set (pfx_String p). printable c" using v4_String_chars(1,2) by (auto simp: s)
  show "length (pfx_String p) \<le> 18"
    using v4_String_length [of w] length_dec_digits_le [of b 1] p(2) by (simp add: s)
  show "ParsePrefix (pfx_String p) = Some p" unfolding s using ParsePrefix_v4 [OF p(2), of w] by (simp only: p(1))
qed

lemma canonical4_not_Nil: "canonical4 p \<Longrightarrow> pfx_String p \<noteq> []"
  using canonical4_word(3) [of p] by (auto simp: ParsePrefix_def)

lemma pfx_String_inject: "canonical4 p \<Longrightarrow> canonical4 q \<Longrightarrow> pfx_String p = pfx_String q \<longleftrightarrow> p = q"
  using canonical4_word(3) by (metis option.sel)

definition stamp_ok :: "int \<Rightarrow> bool" where
  "stamp_ok s \<longleftrightarrow> - (2 ^ 63) \<le> s \<and> s < 2 ^ 63"

abbreviation stamped :: "(prefix \<times> int) list \<Rightarrow> bool" where
  "stamped kept \<equiv> distinct (map fst kept) \<and> (\<forall>(p, since) \<in> set kept. canonical4 p \<and> stamp_ok since)"

lemma state_line_entry:
  assumes "canonical4 p" and "stamp_ok since"
  shows "state_line (pfx_String p @ CHR 0x09 # int_digits since) st = AList.update (pfx_String p) since st"
proof -
  have k: "- (2 ^ 63) \<le> since" "since < 2 ^ 63" using assms(2) by (simp_all add: stamp_ok_def)
  have "pfx_String p \<noteq> []" by (rule canonical4_not_Nil [OF assms(1)])
  from Fields_pair [OF canonical4_word(1) [OF assms(1)] int_digits_word(1) [OF k] this int_digits_word(3) [OF k]]
  show ?thesis by (simp add: state_line_def Atoi_int_digits_any [OF k])
qed

lemma state_text_lines:
  "state_text state = newline_list (map (\<lambda>(key, since). key @ CHR 0x09 # int_digits since) (sort_key fst state))"
  by (simp add: state_text_def)

lemma fold_state_entries:
  assumes "\<forall>(key, since) \<in> set es. (\<exists>p. canonical4 p \<and> key = pfx_String p) \<and> stamp_ok since"
  shows "map_of (fold state_line (map (\<lambda>(key, since). key @ CHR 0x09 # int_digits since) es) st) =
    map_of st ++ map_of (rev es)"
  using assms
proof (induction es arbitrary: st)
  case (Cons e es)
  obtain key since where e: "e = (key, since)" by fastforce
  with Cons.prems obtain p where "canonical4 p" "key = pfx_String p" "stamp_ok since" by auto
  then have "state_line (key @ CHR 0x09 # int_digits since) st = AList.update key since st" by (simp add: state_line_entry)
  with Cons show ?case by (auto simp: e AList.update_conv' fun_eq_iff map_add_def split: option.split)
qed simp

text \<open>The state file of one round gives the next round its time stamps.\<close>

lemma accum_state_read:
  assumes "stamped kept" and "d path = Some \<lparr>f_data = state_text (next_state kept), f_mode = m\<rparr>"
    and "\<not> en_read_fails env path"
  shows "\<exists>st. loadAccumState env path d = (st, True) \<and> map_of st = map_of (next_state kept)"
proof -
  let ?es = "sort_key fst (next_state kept)" and ?line = "\<lambda>(key, since). key @ CHR 0x09 # int_digits since"
  have keys: "\<forall>(key, since) \<in> set ?es. (\<exists>p. canonical4 p \<and> key = pfx_String p) \<and> stamp_ok since"
    using assms(1) by (auto simp: next_state_def)
  have dist: "distinct (map fst (next_state kept))"
    using assms(1) pfx_String_inject
    by (fastforce simp: next_state_def comp_def split_beta distinct_map inj_on_def)
  then have dist': "distinct (map fst ?es)"
    by (simp add: distinct_map)
  have "\<forall>l \<in> set (map ?line ?es). CHR 0x0A \<notin> set l \<and> int (length l) < maxToken \<and> (l = [] \<or> last l \<noteq> CHR 0x0D)"
  proof
    fix l assume "l \<in> set (map ?line ?es)"
    with keys obtain p since where p: "canonical4 p" "stamp_ok since" and l: "l = pfx_String p @ CHR 0x09 # int_digits since"
      by auto
    have k: "- (2 ^ 63) \<le> since" "since < 2 ^ 63" using p(2) by (simp_all add: stamp_ok_def)
    have "last l \<noteq> CHR 0x0D"
      using int_digits_word(1) [OF k] int_digits_word(3) [OF k] last_in_set [of "int_digits since"] unfolding l by fastforce
    moreover have "CHR 0x0A \<notin> set l" using canonical4_word(1) [OF p(1)] int_digits_word(1) [OF k] unfolding l by auto
    ultimately show "CHR 0x0A \<notin> set l \<and> int (length l) < maxToken \<and> (l = [] \<or> last l \<noteq> CHR 0x0D)"
      using canonical4_word(2) [OF p(1)] int_digits_word(2) [OF k] by (simp add: l maxToken_def)
  qed
  from ScanShort_lines [OF this] have "ScanShort (state_text (next_state kept)) = (map ?line ?es, True)"
    by (simp add: state_text_lines newline_list_def)
  moreover have "map_of (fold state_line (map ?line ?es) []) = map_of (next_state kept)"
    using fold_state_entries [OF keys] map_of_inject_set [of "rev ?es" "next_state kept"] dist dist'
    by (simp add: rev_map [symmetric])
  ultimately show ?thesis using assms(2,3) by (simp add: loadAccumState_def ReadFile_def)
qed

section \<open>What is kept\<close>

definition good_prev :: "prev_entries \<Rightarrow> bool" where
  "good_prev xs \<longleftrightarrow> distinct (map fst xs) \<and> (\<forall>p \<in> fst ` set xs. canonical4 p)"

lemma good_prev_update: "good_prev xs \<Longrightarrow> canonical4 p \<Longrightarrow> good_prev (AList.update p b xs)"
  by (auto simp: good_prev_def AList.dom_update AList.distinct_update)

lemma good_prev_fold: "good_prev xs \<Longrightarrow> \<forall>a \<in> set as. canonical4 (f a) \<Longrightarrow> good_prev (fold (\<lambda>a. AList.update (f a) b) as xs)"
  by (induction as arbitrary: xs) (simp_all add: good_prev_update)

lemma Masked_canonical4:
  assumes "ParsePrefix s = Some p" and "Is4 (pfx_addr p)"
  shows "canonical4 (Masked p)"
proof -
  obtain a b where p: "p = PrefixFrom a b" and b: "0 \<le> b" "b \<le> int (BitLen a)"
    using assms(1) by (auto simp: ParsePrefix_def Let_def split: if_splits option.splits)
  then obtain w where "a = Addr4 w" using assms(2) by (cases a) (auto simp: PrefixFrom_def)
  then show ?thesis using b Masked_Masked [of p] by (simp add: p PrefixFrom_def canonical4_def pfx_IsValid_def)
qed

lemma host_canonical4: "canonical4 (PrefixFrom (Addr4 w) 32)"
  by (simp add: PrefixFrom_def canonical4_def pfx_IsValid_def clear_low_def)

lemma block_loop_Is4: "Is4 (pfx_addr p) \<Longrightarrow> a \<in> set (block_loop n p a0) \<Longrightarrow> \<exists>w. a = Addr4 w"
proof (induction n p a0 rule: block_loop.induct)
  case (2 n p a0)
  then show ?case by (cases p; cases "pfx_addr p"; cases a0) (auto split: if_splits)
qed simp

lemma loadPrevECS_good: "good_prev (loadPrevECS env path d)"
proof -
  have "good_prev (prev_line line out)" if g: "good_prev out" for line out
  proof (cases "ecsLine line")
    case (Some v)
    show ?thesis
    proof (cases "ParsePrefix v")
      case (Some p)
      show ?thesis
      proof (cases "Is4 (pfx_addr p) \<and> pfx_bits p \<noteq> 32 \<and> \<not> pfx_bits p < minAccumulatedBits")
        case True
        have "\<forall>a \<in> set (block_addrs p). canonical4 (PrefixFrom a 32)"
          using block_loop_Is4 [of p _ 17] True host_canonical4 by (auto simp: block_addrs_def)
        with g have "good_prev (fold (\<lambda>a. AList.update (PrefixFrom a 32) True) (block_addrs p) out)"
          by (rule good_prev_fold)
        then show ?thesis using True by (simp add: prev_line_def \<open>ecsLine line = Some v\<close> Some)
      next
        case False
        then show ?thesis using g good_prev_update [OF g Masked_canonical4 [OF Some], of False]
          by (auto simp: prev_line_def \<open>ecsLine line = Some v\<close> Some)
      qed
    qed (use g \<open>ecsLine line = Some v\<close> in \<open>simp add: prev_line_def\<close>)
  qed (use g in \<open>simp add: prev_line_def\<close>)
  then have "good_prev (fold prev_line ls out)" if "good_prev out" for ls out
    using that by (induction ls arbitrary: out) simp_all
  moreover have "good_prev []" by (simp add: good_prev_def)
  ultimately show ?thesis by (simp add: loadPrevECS_def split: sum.split)
qed

lemma prev_entries_good: "good_prev (prev_entries (loadPrevECS env path d) (loadECSTargets env path' d) st)"
proof -
  have "canonical4 p" if "p \<in> set (loadECSTargets env path' d @ concat (map state_key st))" for p
    using that Masked_canonical4
    by (auto simp: loadECSTargets_def target_line_def state_key_def split: if_splits sum.splits option.splits)
  then show ?thesis unfolding prev_entries_def by (intro good_prev_fold [OF loadPrevECS_good]) blast
qed

lemma state_stamp_ok:
  assumes "map_of (fold state_line ls []) key = Some n"
  shows "stamp_ok n"
proof -
  have step: "\<forall>(k, n) \<in> set (state_line l st). stamp_ok n" if "\<forall>(k, n) \<in> set st. stamp_ok n" for l st
  proof -
    have up: "\<forall>(k, n) \<in> set (AList.update key v st). stamp_ok n" if "stamp_ok v" for key v
      using \<open>\<forall>(k, n) \<in> set st. stamp_ok n\<close> that by (induction st) auto
    have "Atoi v = Some n \<Longrightarrow> stamp_ok n" for v n
      by (auto simp: Atoi_def stamp_ok_def Let_def split: if_splits list.splits)
    with up have "\<forall>(k, n) \<in> set (AList.update key n' st). stamp_ok n" if "Atoi v = Some n'" for key v n' using that by blast
    with that show ?thesis by (simp add: state_line_def split: list.split option.split)
  qed
  have "\<forall>(k, n) \<in> set (fold state_line ls st). stamp_ok n" if "\<forall>(k, n) \<in> set st. stamp_ok n" for st
    using that
  proof (induction ls arbitrary: st)
    case (Cons l ls)
    from Cons.IH [OF step [OF Cons.prems]] show ?case by simp
  qed simp
  from this [of "[]"] assms show ?thesis by (auto dest: map_of_SomeD)
qed

lemma loadAccumState_stamps: "loadAccumState env path d = (st, ok) \<Longrightarrow> map_of st key = Some n \<Longrightarrow> stamp_ok n"
  using state_stamp_ok by (auto simp: loadAccumState_def split: sum.splits io_error.splits prod.splits)

definition disputed_addr :: "ip_set option \<Rightarrow> addr \<Rightarrow> bool" where
  "disputed_addr disputed a \<longleftrightarrow> (case disputed of None \<Rightarrow> False | Some t \<Rightarrow> Is4 a \<and> ToBig a \<in> points (set_ranges t))"

lemma entry_fate_Kept:
  assumes "canonical4 p" and "list_all wf_prefix targets" and "\<forall>t. disputed = Some t \<longrightarrow> set_inv t"
  shows "entry_fate (setOf targets) disputed st ok ttl now (p, merged) = Kept since \<longleftrightarrow>
    \<not> addrs4 [p] \<subseteq> addrs4 targets \<and> \<not> disputed_addr disputed (pfx_addr p) \<and>
    (case map_of st (pfx_String p) of None \<Rightarrow> \<not> merged \<and> since = now | Some t \<Rightarrow> since = t) \<and>
    (ok \<longrightarrow> go_int (now - since) \<le> whole_seconds ttl)"
  using set_Contains_iff assms(3)
  by (cases disputed) (auto simp: entry_fate_def covers_setOf [OF assms(2,1)] disputed_addr_def Let_def not_less
      split: option.splits)

lemma map_filter_keys:
  assumes "distinct (map fst xs)" and "\<forall>e y. f e = Some y \<longrightarrow> fst y = fst e"
  shows "distinct (map fst (List.map_filter f xs))"
proof -
  have "fst ` set (List.map_filter f xs) \<subseteq> fst ` set xs" for xs
    using assms(2) by (force simp: set_map_filter)
  then have out: "fst e \<notin> fst ` set (List.map_filter f xs)" if "fst e \<notin> fst ` set xs" for e xs using that by blast
  show ?thesis using assms(1)
  proof (induction xs)
    case (Cons e xs)
    then have o: "fst e \<notin> fst ` set (List.map_filter f xs)" using out [of e xs] by simp
    show ?case
    proof (cases "f e")
      case (Some y)
      then have "fst y = fst e" using assms(2) by blast
      then show ?thesis using Cons o by (simp add: List.map_filter_simps Some)
    qed (use Cons in \<open>simp add: List.map_filter_simps\<close>)
  qed (simp add: List.map_filter_simps)
qed

lemma kept_entry_Some: "kept_entry f e = Some (p, since) \<longleftrightarrow> f e = Kept since \<and> p = fst e"
  by (auto simp: kept_entry_def split: fate.splits)

definition from_earlier :: "env \<Rightarrow> cn_options \<Rightarrow> accum_state \<Rightarrow> dir \<Rightarrow> prev_entries" where
  "from_earlier env opt st d =
     prev_entries (loadPrevECS env (co_PrevECSPath opt) d) (loadECSTargets env (co_ECSTargetsPath opt) d) st"

lemma kept_cases:
  assumes "(p, since) \<in> set (applyAccumulation env opt targets disputed now d)"
    and "loadAccumState env (co_ECSStatePath opt) d = (st, ok)"
  obtains merged where "(p, merged) \<in> set (from_earlier env opt st d)"
    and "entry_fate (setOf targets) disputed st ok (co_AccumTTL opt) now (p, merged) = Kept since"
proof -
  let ?f = "entry_fate (setOf targets) disputed st ok (co_AccumTTL opt) now"
  have "(p, since) \<in> set (List.map_filter (kept_entry ?f) (from_earlier env opt st d))"
    using assms by (simp add: applyAccumulation_def from_earlier_def Let_def split: if_splits)
  then obtain e where e: "e \<in> set (from_earlier env opt st d)" "?f e = Kept since" "p = fst e"
    by (auto simp only: set_map_filter kept_entry_Some mem_Collect_eq)
  have "e = (p, snd e)" by (simp add: e(3))
  then show thesis using e(1,2) that [of "snd e"] by metis
qed

lemma kept_stamped:
  assumes "stamp_ok now"
  shows "stamped (applyAccumulation env opt targets disputed now d)"
proof -
  obtain st ok where st: "loadAccumState env (co_ECSStatePath opt) d = (st, ok)" by fastforce
  let ?f = "kept_entry (entry_fate (setOf targets) disputed st ok (co_AccumTTL opt) now)"
  have good: "good_prev (from_earlier env opt st d)" unfolding from_earlier_def by (rule prev_entries_good)
  have "distinct (map fst (List.map_filter ?f (from_earlier env opt st d)))"
    using good by (intro map_filter_keys) (auto simp: good_prev_def kept_entry_Some)
  then have "distinct (map fst (applyAccumulation env opt targets disputed now d))"
    by (simp add: applyAccumulation_def st from_earlier_def Let_def)
  moreover have "canonical4 p \<and> stamp_ok since" if k: "(p, since) \<in> set (applyAccumulation env opt targets disputed now d)" for p since
  proof -
    obtain merged where m: "(p, merged) \<in> set (from_earlier env opt st d)"
        "entry_fate (setOf targets) disputed st ok (co_AccumTTL opt) now (p, merged) = Kept since"
      by (rule kept_cases [OF k st])
    have "since = now \<or> map_of st (pfx_String p) = Some since"
      using m(2) by (auto simp: entry_fate_def Let_def split: if_splits option.splits)
    then show ?thesis using m(1) good loadAccumState_stamps [OF st] assms by (force simp: good_prev_def)
  qed
  ultimately show ?thesis by blast
qed

section \<open>The allowlist is read back as it was written\<close>

lemma ecsLine_entry:
  assumes "\<forall>c \<in> set v. printable c" and "v \<noteq> []"
  shows "ecsLine (''    send-client-subnet: '' @ v) = Some v"
proof -
  have sp: "\<not> re_space c" if "c \<in> set v" for c using assms(1) that by (auto simp: re_space_def)
  then have w: "dropWhile re_space v = v" "takeWhile (\<lambda>c. \<not> re_space c) v = v"
    using assms(2) by (auto simp: takeWhile_eq_all_conv dropWhile_eq_self_iff)
  have "re_space (CHR '' '')" "\<not> re_space (CHR ''s'')" by (simp_all add: re_space_def)
  then show ?thesis by (simp add: ecsLine_def Let_def w assms(2))
qed

lemma whitelist_entries:
  assumes "list_all canonical4 ps"
  shows "whitelist_lines (map (\<lambda>p. ''    send-client-subnet: '' @ pfx_String p) ps) = Some ps"
  using assms
proof (induction ps)
  case (Cons p ps)
  then have "canonical4 p" by simp
  then have "pfx_String p \<noteq> []" by (rule canonical4_not_Nil)
  with canonical4_word(1,3) [OF \<open>canonical4 p\<close>] Cons ecsLine_entry [of "pfx_String p"] show ?case
    by (simp add: canonical4_def)
qed simp

lemma collapsePrefixes_canonical: "list_all canonical4 (collapsePrefixes ps)"
proof -
  have wf: "wf_ranges (set_ranges (setOf ps))" using setOf_inv [of ps] by (simp add: set_inv_def normal_ranges_wf)
  from set_Prefixes_eq [OF this] prefixes_of_canonical4 [OF span_of_bounded [OF wf]]
  show ?thesis by (simp add: collapsePrefixes_def)
qed

definition header_lines :: "string list" where
  "header_lines = butlast (Split (CHR 0x0A) conf_header)"

lemma header_lines_eq: "conf_header = newline_list header_lines" "map ecsLine header_lines = [None, None, None]"
  "list_all (\<lambda>l. CHR 0x0A \<notin> set l \<and> length l < 100 \<and> (l = [] \<or> last l \<noteq> CHR 0x0D)) header_lines"
  by code_simp+

lemma conf_lines:
  "ScanLines (conf_text targets) =
    (header_lines @ map (\<lambda>p. ''    send-client-subnet: '' @ pfx_String p) (collapsePrefixes targets), True)"
proof -
  let ?ls = "header_lines @ map (\<lambda>p. ''    send-client-subnet: '' @ pfx_String p) (collapsePrefixes targets)"
  have "conf_text targets = concat (map (\<lambda>l. l @ [CHR 0x0A]) ?ls)"
    by (simp add: conf_text_def header_lines_eq(1) newline_list_def)
  moreover have "\<forall>l \<in> set ?ls. CHR 0x0A \<notin> set l \<and> int (length l) < maxLine \<and> (l = [] \<or> last l \<noteq> CHR 0x0D)"
  proof
    fix l assume "l \<in> set ?ls"
    then consider "l \<in> set header_lines"
      | p where "p \<in> set (collapsePrefixes targets)" "l = ''    send-client-subnet: '' @ pfx_String p" by auto
    then show "CHR 0x0A \<notin> set l \<and> int (length l) < maxLine \<and> (l = [] \<or> last l \<noteq> CHR 0x0D)"
    proof cases
      case 1
      then show ?thesis using header_lines_eq(3) by (auto simp: list_all_iff maxLine_def)
    next
      case 2
      then have c: "canonical4 p" using collapsePrefixes_canonical by (auto simp: list_all_iff)
      then have ne: "pfx_String p \<noteq> []" by (rule canonical4_not_Nil)
      have "last (pfx_String p) \<noteq> CHR 0x0D" using canonical4_word(1) [OF c] last_in_set [OF ne] by fastforce
      then show ?thesis using canonical4_word(1,2) [OF c] ne by (auto simp: 2(2) maxLine_def)
    qed
  qed
  ultimately show ?thesis using ScanLines_lines [of ?ls] by simp
qed

lemma whitelist_conf:
  assumes "d path = Some \<lparr>f_data = conf_text targets, f_mode = m\<rparr>" and "\<not> en_read_fails env path"
  shows "LoadECSWhitelist env path d = Some (collapsePrefixes targets)"
proof -
  have skip: "whitelist_lines (hs @ ls) = whitelist_lines ls" if "set (map ecsLine hs) \<subseteq> {None}" for hs ls
    using that by (induction hs) simp_all
  have "loadLines env path d = Inr (header_lines @ map (\<lambda>p. ''    send-client-subnet: '' @ pfx_String p) (collapsePrefixes targets))"
    using assms by (simp add: loadLines_def ReadFile_def conf_lines)
  then show ?thesis using whitelist_entries [OF collapsePrefixes_canonical [of targets]] skip [of header_lines]
    by (simp only: LoadECSWhitelist_def sum.case header_lines_eq(2)) simp
qed

section \<open>What a round writes\<close>

lemma cn_Run_Inr:
  assumes "cn_Run env order opt now d = (Inr res, d')"
  obtains cfg snap zoneIPs built d1 kept targets where
    "cn_inputs env (defaults opt) d = Inr (cfg, snap, zoneIPs)" and "Build order snap cfg = Inr built"
    and "write_lists env (defaults opt) now built d = (Inr (), d1)"
    and "kept = applyAccumulation env (defaults opt) (remdups (r_ECSPrefixes built)) (cfg_Disputed cfg) now d1"
    and "targets = remdups (remdups (r_ECSPrefixes built) @ map fst kept)"
    and "write_results env (defaults opt) built targets
      (writeAccumState env (co_ECSStatePath opt) (next_state kept)
        (writeECSTargets env (co_ECSTargetsPath opt) (r_AuthorityECS built) d1)) = (Inr (), d')"
    and "res = cn_report built (length zoneIPs) (length kept) targets"
proof -
  have paths: "co_ECSStatePath (defaults opt) = co_ECSStatePath opt" "co_ECSTargetsPath (defaults opt) = co_ECSTargetsPath opt"
    by (simp_all add: defaults_def)
  obtain cfg snap zoneIPs where i: "cn_inputs env (defaults opt) d = Inr (cfg, snap, zoneIPs)"
    using assms by (cases "cn_inputs env (defaults opt) d") (auto simp: cn_Run_def Let_def)
  obtain built where b: "Build order snap cfg = Inr built"
    using assms i by (cases "Build order snap cfg") (auto simp: cn_Run_def Let_def)
  obtain d1 where w: "write_lists env (defaults opt) now built d = (Inr (), d1)"
    using assms i b by (cases "write_lists env (defaults opt) now built d"; cases "fst (write_lists env (defaults opt) now built d)")
      (auto simp: cn_Run_def Let_def)
  let ?t = "remdups (r_ECSPrefixes built)"
  let ?kept = "applyAccumulation env (defaults opt) ?t (cfg_Disputed cfg) now d1"
  let ?targets = "remdups (?t @ map fst ?kept)"
  let ?w = "write_results env (defaults opt) built ?targets
        (writeAccumState env (co_ECSStatePath opt) (next_state ?kept)
          (writeECSTargets env (co_ECSTargetsPath opt) (r_AuthorityECS built) d1))"
  have run: "cn_Run env order opt now d = (case ?w of (Inl e, d4) \<Rightarrow> (Inl (OutputFailed e), d4)
      | (Inr _, d4) \<Rightarrow> (Inr (cn_report built (length zoneIPs) (length ?kept) ?targets), d4))"
    by (simp add: cn_Run_def Let_def i b w paths del: remdups_append2)
  obtain r d4 where wr: "?w = (r, d4)" by fastforce
  have "?w = (Inr (), d') \<and> res = cn_report built (length zoneIPs) (length ?kept) ?targets"
    using assms unfolding run wr by (cases r) simp_all
  then show thesis using that [OF i b w refl refl] by blast
qed

definition own_outputs :: "cn_options \<Rightarrow> string set" where
  "own_outputs opt = {co_SharedExcludedOut opt, co_SteeredOutPath opt, co_ECSTargetsPath opt, co_ECSOutPath opt,
     co_ResultPath opt, co_MatchedPath opt}"

lemma own_outputs_defaults [simp]: "own_outputs (defaults opt) = own_outputs opt"
  by (simp add: own_outputs_def defaults_def)

lemma write_lists_other:
  assumes "write_lists env opt now built d = (res, d1)" and "temps_ok env d0" and "visible p"
    and "p \<notin> {co_SharedExcludedOut opt, co_SteeredOutPath opt}"
  shows "d1 p = d p"
proof -
  have other: "d' p = d p" if "WriteAtomic env path data mode d = (r, d')" "p \<noteq> path" for path data mode d r d'
    using WriteAtomic_other [OF assms(2,3) that(2), of data mode d] that(1) by simp
  show ?thesis using assms(1,4) other
    by (auto simp: write_lists_def split: sum.splits prod.splits if_splits)
      (metis WriteAtomic_other [OF assms(2,3)])+
qed

lemma write_results_other:
  assumes "write_results env opt built targets d = (res, d1)" and "temps_ok env d0" and "visible p"
    and "p \<notin> {co_ECSOutPath opt, co_ResultPath opt, co_MatchedPath opt}"
  shows "d1 p = d p"
proof -
  have other: "d' p = d p" if "WriteAtomic env path data mode d = (r, d')" "p \<noteq> path" for path data mode d r d'
    using WriteAtomic_other [OF assms(2,3) that(2), of data mode d] that(1) by simp
  show ?thesis using assms(1,4)
    by (auto simp: write_results_def writeECSConf_def split: sum.splits prod.splits dest!: other)
qed

section \<open>From round to round\<close>

text \<open>
  A round that ends well, with a state file that can be read and written. The state file is none of the
  other outputs; \<open>stamp_in\<close> is the time stamp a prefix has in it.
\<close>

definition round :: "cn_options \<Rightarrow> int \<Rightarrow> dir \<Rightarrow> dir \<Rightarrow> bool" where
  "round opt now d d' \<longleftrightarrow>
     0 \<le> now \<and> now < 2 ^ 62 \<and> visible (co_ECSStatePath opt) \<and> co_ECSStatePath opt \<notin> own_outputs opt \<and>
     (\<exists>env order res. cn_Run env order opt now d = (Inr res, d') \<and> temps_ok env d \<and>
        \<not> en_read_fails env (co_ECSStatePath opt) \<and> can_write env (co_ECSStatePath opt))"

definition stamp_in :: "cn_options \<Rightarrow> dir \<Rightarrow> prefix \<Rightarrow> int option" where
  "stamp_in opt d p =
     (case d (co_ECSStatePath opt) of
        None \<Rightarrow> None
      | Some f \<Rightarrow> map_of (fold state_line (fst (ScanShort (f_data f))) []) (pfx_String p))"

text \<open>
  A prefix is held over from \<open>t0\<close> to \<open>t\<close>: at \<open>t0\<close> it was not in the state file, and it is there after each of
  the rounds since. Between two rounds the state file stays as it is.
\<close>

inductive held_over :: "cn_options \<Rightarrow> prefix \<Rightarrow> int \<Rightarrow> int \<Rightarrow> dir \<Rightarrow> bool" for opt p where
  first: "\<lbrakk>round opt now d d'; stamp_in opt d p = None; stamp_in opt d' p \<noteq> None\<rbrakk> \<Longrightarrow> held_over opt p now now d'"
| again: "\<lbrakk>held_over opt p t0 t d0; d (co_ECSStatePath opt) = d0 (co_ECSStatePath opt); round opt now d d';
    stamp_in opt d' p \<noteq> None\<rbrakk> \<Longrightarrow> held_over opt p t0 now d'"

lemma loadAccumState_stamp_in:
  assumes "\<not> en_read_fails env (co_ECSStatePath opt)" and "loadAccumState env (co_ECSStatePath opt) d = (st, ok)"
  shows "map_of st (pfx_String p) = stamp_in opt d p"
  using assms by (auto simp: loadAccumState_def stamp_in_def ReadFile_def split: option.splits prod.splits)

lemma go_int_small: "0 \<le> a \<Longrightarrow> a < 2 ^ 62 \<Longrightarrow> 0 \<le> b \<Longrightarrow> b < 2 ^ 62 \<Longrightarrow> go_int (a - b) = a - b"
  unfolding go_int_def by (rule signed_take_bit_int_eq_self) simp_all

lemma writeECSTargets_other:
  "temps_ok env d0 \<Longrightarrow> visible p \<Longrightarrow> p \<noteq> path \<Longrightarrow> writeECSTargets env path ts d p = d p"
  by (simp add: writeECSTargets_def WriteAtomic_other)

text \<open>After a round the state file holds what the round kept.\<close>

lemma round_state:
  assumes "round opt now d d'"
  obtains env targets disputed d1 kept where "kept = applyAccumulation env (defaults opt) targets disputed now d1"
    and "d1 (co_ECSStatePath opt) = d (co_ECSStatePath opt)" and "\<not> en_read_fails env (co_ECSStatePath opt)"
    and "d' (co_ECSStatePath opt) = Some \<lparr>f_data = state_text (next_state kept), f_mode = 420\<rparr>"
proof -
  let ?p = "co_ECSStatePath opt"
  obtain env order res where run: "cn_Run env order opt now d = (Inr res, d')" and t: "temps_ok env d"
      and env: "\<not> en_read_fails env ?p" "can_write env ?p" and v: "visible ?p" "?p \<notin> own_outputs opt"
    using assms by (auto simp: round_def)
  have v': "?p \<notin> own_outputs (defaults opt)" using v(2) by simp
  show thesis
  proof (rule cn_Run_Inr [OF run])
    fix cfg snap zoneIPs built d1 kept targets
    assume l: "write_lists env (defaults opt) now built d = (Inr (), d1)"
      and k: "kept = applyAccumulation env (defaults opt) (remdups (r_ECSPrefixes built)) (cfg_Disputed cfg) now d1"
      and w: "write_results env (defaults opt) built targets
        (writeAccumState env ?p (next_state kept)
          (writeECSTargets env (co_ECSTargetsPath opt) (r_AuthorityECS built) d1)) = (Inr (), d')"
    have d1: "d1 ?p = d ?p" using v(1) v' write_lists_other [OF l t] by (simp add: own_outputs_def)
    have "d' ?p = writeAccumState env ?p (next_state kept)
        (writeECSTargets env (co_ECSTargetsPath opt) (r_AuthorityECS built) d1) ?p"
      using v(1) v' by (intro write_results_other [OF w t]) (simp_all add: own_outputs_def)
    then have "d' ?p = Some \<lparr>f_data = state_text (next_state kept), f_mode = 420\<rparr>"
      by (simp add: writeAccumState_def can_write_done [OF env(2)])
    with k d1 env(1) show thesis by (rule that)
  qed
qed

lemma round_stamps:
  assumes "round opt now d d'"
  shows "\<exists>kept m. stamped kept \<and> d' (co_ECSStatePath opt) = Some \<lparr>f_data = state_text (next_state kept), f_mode = m\<rparr>"
    and "stamp_in opt d' p = Some since \<Longrightarrow> since = (case stamp_in opt d p of None \<Rightarrow> now | Some t \<Rightarrow> t)"
    and "\<lbrakk>stamp_in opt d' p = Some since; stamped kept0;
      d (co_ECSStatePath opt) = Some \<lparr>f_data = state_text (next_state kept0), f_mode = m\<rparr>\<rbrakk> \<Longrightarrow>
      go_int (now - since) \<le> whole_seconds (co_AccumTTL (defaults opt))"
proof -
  let ?p = "co_ECSStatePath opt"
  obtain env targets disputed d1 kept where k: "kept = applyAccumulation env (defaults opt) targets disputed now d1"
      and d1: "d1 ?p = d ?p" and env: "\<not> en_read_fails env ?p"
      and d': "d' ?p = Some \<lparr>f_data = state_text (next_state kept), f_mode = 420\<rparr>"
    by (rule round_state [OF assms])
  have now: "stamp_ok now" using assms by (simp add: round_def stamp_ok_def)
  have s: "stamped kept" unfolding k by (rule kept_stamped [OF now])
  with d' show "\<exists>kept m. stamped kept \<and> d' ?p = Some \<lparr>f_data = state_text (next_state kept), f_mode = m\<rparr>" by blast
  obtain st' where st': "loadAccumState env ?p d' = (st', True)" "map_of st' = map_of (next_state kept)"
    using accum_state_read [OF s, of d' ?p 420 env] d' env by blast
  obtain st ok where st: "loadAccumState env ?p d1 = (st, ok)" by fastforce
  have same: "stamp_in opt d1 p = stamp_in opt d p" for p by (simp add: stamp_in_def d1)
  have fate: "since = (case stamp_in opt d p of None \<Rightarrow> now | Some t \<Rightarrow> t) \<and>
      (ok \<longrightarrow> go_int (now - since) \<le> whole_seconds (co_AccumTTL (defaults opt)))"
    if "stamp_in opt d' p = Some since" for since
  proof -
    have "map_of (next_state kept) (pfx_String p) = Some since"
      using that loadAccumState_stamp_in [OF env st'(1), of p] st'(2) by simp
    then obtain q where q: "(q, since) \<in> set kept" "pfx_String q = pfx_String p"
      by (force simp: next_state_def dest!: map_of_SomeD)
    have "loadAccumState env (co_ECSStatePath (defaults opt)) d1 = (st, ok)" using st by (simp add: defaults_def)
    from kept_cases [OF q(1) [unfolded k] this] obtain merged where
      "entry_fate (setOf targets) disputed st ok (co_AccumTTL (defaults opt)) now (q, merged) = Kept since" by blast
    then show ?thesis using loadAccumState_stamp_in [OF env st, of p]
      by (auto simp: entry_fate_def Let_def q(2) same not_less split: if_splits option.splits)
  qed
  then show "stamp_in opt d' p = Some since \<Longrightarrow> since = (case stamp_in opt d p of None \<Rightarrow> now | Some t \<Rightarrow> t)" by blast
  assume a: "stamp_in opt d' p = Some since" "stamped kept0"
    "d ?p = Some \<lparr>f_data = state_text (next_state kept0), f_mode = m\<rparr>"
  have "ok" using accum_state_read [OF a(2), of d1 ?p m env] env a(3) d1 st by auto
  with fate [OF a(1)] show "go_int (now - since) \<le> whole_seconds (co_AccumTTL (defaults opt))" by blast
qed

lemma held_over_bounded:
  assumes "held_over opt p t0 t d" and "0 \<le> co_AccumTTL opt"
  shows "stamp_in opt d p = Some t0 \<and> 0 \<le> t0 \<and> t0 < 2 ^ 62 \<and>
    t - t0 \<le> whole_seconds (co_AccumTTL (defaults opt)) \<and>
    (\<exists>kept m. stamped kept \<and> d (co_ECSStatePath opt) = Some \<lparr>f_data = state_text (next_state kept), f_mode = m\<rparr>)"
  using assms(1)
proof induction
  case (first now d d')
  then obtain since where s: "stamp_in opt d' p = Some since" by blast
  then have "stamp_in opt d' p = Some now" using round_stamps(2) [OF first(1) s] first(2) by simp
  moreover have "0 \<le> whole_seconds (co_AccumTTL (defaults opt))"
    using assms(2) by (simp add: whole_seconds_def defaults_def DefaultAccumTTL_def hour_def pos_imp_zdiv_nonneg_iff)
  ultimately show ?case using first round_stamps(1) [OF first(1)] by (simp add: round_def)
next
  case (again t0 t d0 d now d')
  then obtain since where s: "stamp_in opt d' p = Some since" by blast
  have "stamp_in opt d p = Some t0" using again by (simp add: stamp_in_def)
  then have since: "since = t0" using round_stamps(2) [OF again.hyps(3) s] by simp
  from again.IH again.hyps(2) obtain kept m where "stamped kept"
      "d (co_ECSStatePath opt) = Some \<lparr>f_data = state_text (next_state kept), f_mode = m\<rparr>" by auto
  from round_stamps(3) [OF again.hyps(3) s this] have "now - t0 \<le> whole_seconds (co_AccumTTL (defaults opt))"
    using again go_int_small [of now t0] by (simp add: since round_def)
  then show ?case using again s since round_stamps(1) [OF again.hyps(3)] by simp
qed

text \<open>C29: Accumulation ends. However many rounds an entry of the ECS allowlist is held over without being
  confirmed by the infrastructure cache, its time stamp stays that of the first round, and it is held
  over only as long as the time to live lasts, counted from that round.\<close>

theorem held_over_ttl:
  assumes "held_over opt p t0 t d" and "0 \<le> co_AccumTTL opt"
  shows "stamp_in opt d p = Some t0 \<and>
    t - t0 \<le> whole_seconds (if co_AccumTTL opt = 0 then DefaultAccumTTL else co_AccumTTL opt)"
  using held_over_bounded [OF assms] by (simp add: defaults_def Let_def split: if_splits)

section \<open>The outputs of a round\<close>

lemma addrs4_canonical:
  assumes "list_all canonical4 ps"
  shows "pfxs_addrs ps = addrs4 ps"
proof -
  have "\<exists>w. a = Addr4 w" if "p \<in> set ps" "pfx_Contains p a" for p a
    using assms that by (cases p; cases "pfx_addr p"; cases a) (auto simp: list_all_iff canonical4_def)
  then show ?thesis by (fastforce simp: pfxs_addrs_def addrs4_def)
qed

lemma LoadReader_printed:
  assumes "list_all canonical4 ps"
  shows "fst (LoadReader False (map pfx_String ps)) = setOf ps"
proof -
  have one: "\<exists>r. PrefixRange p = Some r \<and> load_line False (pfx_String p) st =
      st\<lparr>ld_ranges := ld_ranges st @ [r], ld_total := ld_total st + 1\<rparr>" if p: "canonical4 p" for p st
  proof -
    note w = canonical4_word(1) [OF p] canonical4_not_Nil [OF p]
    have "TrimSpace (pfx_String p) = pfx_String p" using w by (intro TrimSpace_id) simp_all
    moreover have "Fields (pfx_String p) = [pfx_String p]"
      unfolding Fields_def using fields_loop_word [of "pfx_String p" "[]"] w by simp
    moreover have "CHR ''/'' \<in> set (pfx_String p)" using canonical4_word(3) [OF p] by (auto simp: ParsePrefix_def split: if_splits)
    then have "ipset_parsePrefix (pfx_String p) = Some p"
      using canonical4_word(3) [OF p] p by (simp add: ipset_parsePrefix_def canonical4_def)
    moreover have "\<not> HasPrefix (pfx_String p) ''#''" using canonical4_prints(2) [OF p] by (simp add: entry_line_def data_line_def)
    moreover obtain r where "PrefixRange p = Some r" using PrefixRange_span [of p] p by (auto simp: canonical4_def)
    ultimately show ?thesis using w(2) p by (simp add: load_line_def canonical4_def Let_def)
  qed
  have "ld_ranges (fold (load_line False) (map pfx_String ps) st) = ld_ranges st @ List.map_filter PrefixRange ps" for st
    using assms
  proof (induction ps arbitrary: st)
    case (Cons p ps)
    then obtain r where "PrefixRange p = Some r" "load_line False (pfx_String p) st =
        st\<lparr>ld_ranges := ld_ranges st @ [r], ld_total := ld_total st + 1\<rparr>" using one [of p st] by auto
    with Cons show ?case by (simp add: List.map_filter_simps)
  qed (simp add: List.map_filter_simps)
  then show ?thesis by (simp add: LoadReader_def setOf_def Let_def)
qed

lemma loadPrefixFile_written:
  assumes "d path = Some \<lparr>f_data = newline_list (map pfx_String ps), f_mode = m\<rparr>" and "\<not> en_read_fails env path"
    and "list_all canonical4 ps"
  shows "loadPrefixFile env path d = Inr (collapsePrefixes ps)"
proof -
  have line: "CHR 0x0A \<notin> set (pfx_String p) \<and> int (length (pfx_String p)) < maxLine \<and>
      (pfx_String p = [] \<or> last (pfx_String p) \<noteq> CHR 0x0D)" if p: "canonical4 p" for p
    using canonical4_word(1,2) [OF p] last_in_set [OF canonical4_not_Nil [OF p]] by (force simp: maxLine_def)
  have "ScanLines (newline_list (map pfx_String ps)) = (map pfx_String ps, True)"
    unfolding newline_list_def using assms(3) line by (intro ScanLines_lines) (auto simp: list_all_iff)
  then have "loadLines env path d = Inr (map pfx_String ps)" using assms(1,2) by (simp add: loadLines_def ReadFile_def)
  then show ?thesis using LoadReader_printed [OF assms(3)]
    by (simp add: loadPrefixFile_def collapsePrefixes_def case_prod_unfold)
qed

lemma write_results_written:
  assumes "write_results env opt built targets d = (Inr u, d')" and "temps_ok env d0"
    and "\<forall>p \<in> {co_ECSOutPath opt, co_ResultPath opt, co_MatchedPath opt}. visible p"
    and "distinct [co_ECSOutPath opt, co_ResultPath opt, co_MatchedPath opt]"
  shows "d' (co_ECSOutPath opt) = Some \<lparr>f_data = conf_text targets, f_mode = 420\<rparr>"
    and "d' (co_ResultPath opt) = Some \<lparr>f_data = newline_list (map pfx_String (r_RoutePrefixes built)), f_mode = 420\<rparr>"
    and "d' (co_MatchedPath opt) = Some \<lparr>f_data = newline_list (map z_Name (r_MatchedZones built)), f_mode = 420\<rparr>"
proof -
  obtain u1 d1 u2 d2 where w: "WriteAtomic env (co_ECSOutPath opt) (conf_text targets) 420 d = (Inr u1, d1)"
      "WriteAtomic env (co_ResultPath opt) (newline_list (map pfx_String (r_RoutePrefixes built))) 420 d1 = (Inr u2, d2)"
      "WriteAtomic env (co_MatchedPath opt) (newline_list (map z_Name (r_MatchedZones built))) 420 d2 = (Inr u, d')"
    using assms(1) by (auto simp: write_results_def writeECSConf_def split: sum.splits prod.splits)
  note done1 = WriteAtomic_done(1) [OF w(1)] WriteAtomic_done(1) [OF w(2)] WriteAtomic_done(1) [OF w(3)]
  note done2 = WriteAtomic_done(2) [OF w(2) assms(2)] WriteAtomic_done(2) [OF w(3) assms(2)]
  show "d' (co_ECSOutPath opt) = Some \<lparr>f_data = conf_text targets, f_mode = 420\<rparr>"
    "d' (co_ResultPath opt) = Some \<lparr>f_data = newline_list (map pfx_String (r_RoutePrefixes built)), f_mode = 420\<rparr>"
    "d' (co_MatchedPath opt) = Some \<lparr>f_data = newline_list (map z_Name (r_MatchedZones built)), f_mode = 420\<rparr>"
    using done1 done2 assms(3,4) by simp_all
qed

lemma LoadReader_inv: "set_inv (fst (LoadReader g ls))"
  using LoadReader_ranges(2) [of "\<lparr>ld_ranges = [], ld_total = 0, ld_skipped = 0\<rparr>" g ls]
  by (simp add: LoadReader_def Let_def New_inv)

lemma loadCross_inv:
  assumes "loadCross env path kind d = Inr s" and "sn_Set s = Some t"
  shows "set_inv t"
proof -
  have meta: "sn_Set (fold read_meta ls s) = sn_Set s" for ls s
    by (induction ls arbitrary: s) (simp_all add: read_meta_def Let_def split: list.split)
  from assms consider "s = snapshot_zero" | "LoadSnapshot env path d = Some s"
    by (auto simp: loadCross_def split: option.splits if_splits)
  then show ?thesis
  proof cases
    case 2
    then obtain ls where "sn_Set s = Some (fst (LoadReader True ls))"
      by (auto simp: LoadSnapshot_def Let_def meta case_prod_unfold split: sum.splits if_splits)
    then show ?thesis using assms(2) LoadReader_inv by simp
  qed (use assms(2) in \<open>simp add: snapshot_zero_def\<close>)
qed

lemma cn_inputs_disputed:
  assumes "cn_inputs env opt d = Inr (cfg, snap, zoneIPs)" and "cfg_Disputed cfg = Some t"
  shows "set_inv t"
proof -
  from assms(1) obtain s where "loadCross env (co_DisputedPath opt) KindDisputed d = Inr s" "cfg_Disputed cfg = sn_Set s"
    by (cases "parsePairs env (co_PairsPath opt) d") (auto simp: cn_inputs_def bind_res_eq_Inr split: option.splits)
  with loadCross_inv assms(2) show ?thesis by metis
qed

definition outputs_apart :: "cn_options \<Rightarrow> bool" where
  "outputs_apart opt \<longleftrightarrow> distinct [co_ECSOutPath opt, co_ResultPath opt, co_MatchedPath opt] \<and>
     (\<forall>p \<in> {co_ECSOutPath opt, co_ResultPath opt, co_MatchedPath opt}. visible p)"

lemma kept_sound:
  assumes "(p, since) \<in> set (applyAccumulation env opt targets disputed now d)"
    and "list_all wf_prefix targets" and "\<forall>t. disputed = Some t \<longrightarrow> set_inv t"
  shows "\<not> addrs4 [p] \<subseteq> addrs4 targets" and "\<not> disputed_addr disputed (pfx_addr p)"
proof -
  obtain st ok where st: "loadAccumState env (co_ECSStatePath opt) d = (st, ok)" by fastforce
  obtain merged where m: "(p, merged) \<in> set (from_earlier env opt st d)"
      "entry_fate (setOf targets) disputed st ok (co_AccumTTL opt) now (p, merged) = Kept since"
    by (rule kept_cases [OF assms(1) st])
  have "canonical4 p" using m(1) prev_entries_good by (force simp: from_earlier_def good_prev_def)
  from m(2) [unfolded entry_fate_Kept [OF this assms(2,3)]]
  show "\<not> addrs4 [p] \<subseteq> addrs4 targets" "\<not> disputed_addr disputed (pfx_addr p)" by blast+
qed


section \<open>Rounds that fail\<close>

lemma write_results_failed:
  assumes "write_results env opt built targets d = (Inl e, d')" and "temps_ok env d0" and "outputs_apart opt"
  shows "d' (co_MatchedPath opt) = d (co_MatchedPath opt)"
    and "d' (co_ResultPath opt) \<noteq> d (co_ResultPath opt) \<Longrightarrow>
      d' (co_ECSOutPath opt) = Some \<lparr>f_data = conf_text targets, f_mode = 420\<rparr> \<and>
      d' (co_ResultPath opt) = Some \<lparr>f_data = newline_list (map pfx_String (r_RoutePrefixes built)), f_mode = 420\<rparr>"
proof -
  let ?e = "co_ECSOutPath opt" and ?r = "co_ResultPath opt" and ?m = "co_MatchedPath opt"
  have v: "visible ?e" "visible ?r" "visible ?m" and ne: "?e \<noteq> ?r" "?e \<noteq> ?m" "?r \<noteq> ?m"
    using assms(3) by (simp_all add: outputs_apart_def)
  obtain r1 d1 where w1: "WriteAtomic env ?e (conf_text targets) 420 d = (r1, d1)" by fastforce
  have "d' ?m = d ?m \<and> (d' ?r \<noteq> d ?r \<longrightarrow> d' ?e = Some \<lparr>f_data = conf_text targets, f_mode = 420\<rparr> \<and>
      d' ?r = Some \<lparr>f_data = newline_list (map pfx_String (r_RoutePrefixes built)), f_mode = 420\<rparr>)"
  proof (cases r1)
    case (Inl e1)
    with assms(1) w1 have "d' = d1" by (simp add: write_results_def writeECSConf_def)
    then show ?thesis using WriteAtomic_failed [OF w1 [unfolded Inl] assms(2)] v by simp
  next
    case (Inr u1)
    note done1 = WriteAtomic_done [OF w1 [unfolded Inr]]
    obtain r2 d2 where w2: "WriteAtomic env ?r (newline_list (map pfx_String (r_RoutePrefixes built))) 420 d1 = (r2, d2)"
      by fastforce
    show ?thesis
    proof (cases r2)
      case (Inl e2)
      with assms(1) w1 w2 Inr have "d' = d2" by (simp add: write_results_def writeECSConf_def)
      then show ?thesis using WriteAtomic_failed [OF w2 [unfolded Inl] assms(2)] v ne done1(2) [OF assms(2)] by simp
    next
      case Inr2: (Inr u2)
      note done2 = WriteAtomic_done [OF w2 [unfolded Inr2]]
      from assms(1) w1 w2 Inr Inr2 have "WriteAtomic env ?m (newline_list (map z_Name (r_MatchedZones built))) 420 d2 = (Inl e, d')"
        by (simp add: write_results_def writeECSConf_def)
      from WriteAtomic_failed [OF this assms(2)] show ?thesis
        using v ne done1(1) done1(2) [OF assms(2)] done2(1) done2(2) [OF assms(2)] by simp
    qed
  qed
  then show "d' ?m = d ?m" "d' ?r \<noteq> d ?r \<Longrightarrow> d' ?e = Some \<lparr>f_data = conf_text targets, f_mode = 420\<rparr> \<and>
      d' ?r = Some \<lparr>f_data = newline_list (map pfx_String (r_RoutePrefixes built)), f_mode = 420\<rparr>" by blast+
qed

lemma cn_inputs_no_output: "cn_inputs env opt d \<noteq> Inl (OutputFailed x)"
proof -
  have "load_direct env path d \<noteq> Inl (OutputFailed x)" for path
    by (simp add: load_direct_def Let_def case_prod_unfold split: sum.split)
  moreover have "loadCross env path kind d \<noteq> Inl (OutputFailed x)" for path kind
    by (simp add: loadCross_def split: option.split)
  ultimately show ?thesis
    by (auto simp: cn_inputs_def bind_res_eq_Inl split: option.splits sum.splits)
qed

text \<open>C31: A round that ends with an error has written nothing when an input was missing, wrong or the rules
  could not be built. When an output fails, the list of matched zones is the old one, and the route
  file is the old one too unless the allowlist that goes with the new routes is already in place.\<close>

theorem Run_error:
  assumes "cn_Run env order opt now d = (Inl e, d')" and "temps_ok env d" and "outputs_apart opt"
    and "{co_ECSOutPath opt, co_ResultPath opt, co_MatchedPath opt} \<inter>
      {co_SharedExcludedOut opt, co_SteeredOutPath opt, co_ECSTargetsPath opt, co_ECSStatePath opt} = {}"
  shows "case e of
      OutputFailed _ \<Rightarrow> d' (co_MatchedPath opt) = d (co_MatchedPath opt) \<and>
        (d' (co_ResultPath opt) = d (co_ResultPath opt) \<or>
         (\<exists>cfg snap zoneIPs built kept. cn_inputs env (defaults opt) d = Inr (cfg, snap, zoneIPs) \<and>
            Build order snap cfg = Inr built \<and>
            d' (co_ResultPath opt) = Some \<lparr>f_data = newline_list (map pfx_String (r_RoutePrefixes built)), f_mode = 420\<rparr> \<and>
            d' (co_ECSOutPath opt) = Some \<lparr>f_data = conf_text (remdups (remdups (r_ECSPrefixes built) @ kept)), f_mode = 420\<rparr>))
    | _ \<Rightarrow> d' = d"
proof (cases "cn_inputs env (defaults opt) d")
  case (Inl e')
  then have "e' = e \<and> d' = d" using assms(1) by (simp add: cn_Run_def Let_def)
  moreover have "cn_inputs env (defaults opt) d \<noteq> Inl (OutputFailed x)" for x
    by (rule cn_inputs_no_output)
  ultimately show ?thesis using Inl by (auto split: cn_error.split)
next
  case (Inr inputs)
  then obtain cfg snap zoneIPs where i: "cn_inputs env (defaults opt) d = Inr (cfg, snap, zoneIPs)" by (cases inputs) auto
  show ?thesis
  proof (cases "Build order snap cfg")
    case (Inl e')
    then have "e = BuildFailed e' \<and> d' = d" using assms(1) i by (simp add: cn_Run_def Let_def)
    then show ?thesis by simp
  next
    case b: (Inr built)
    have paths: "co_ECSOutPath (defaults opt) = co_ECSOutPath opt" "co_ResultPath (defaults opt) = co_ResultPath opt"
      "co_MatchedPath (defaults opt) = co_MatchedPath opt" "co_SharedExcludedOut (defaults opt) = co_SharedExcludedOut opt"
      "co_SteeredOutPath (defaults opt) = co_SteeredOutPath opt" "co_ECSStatePath (defaults opt) = co_ECSStatePath opt"
      "co_ECSTargetsPath (defaults opt) = co_ECSTargetsPath opt" by (simp_all add: defaults_def)
    have vis: "visible p" "p \<noteq> co_SharedExcludedOut opt" "p \<noteq> co_SteeredOutPath opt" "p \<noteq> co_ECSTargetsPath opt"
        "p \<noteq> co_ECSStatePath opt" if "p \<in> {co_ECSOutPath opt, co_ResultPath opt, co_MatchedPath opt}" for p
      using that assms(3,4) by (auto simp: outputs_apart_def)
    have apart: "outputs_apart (defaults opt)" using assms(3) by (simp add: outputs_apart_def paths)
    obtain r1 d1 where l: "write_lists env (defaults opt) now built d = (r1, d1)" by fastforce
    have d1: "d1 p = d p" if "p \<in> {co_ECSOutPath opt, co_ResultPath opt, co_MatchedPath opt}" for p
      using vis [OF that] by (intro write_lists_other [OF l assms(2)]) (simp_all add: paths)
    show ?thesis
    proof (cases r1)
      case (Inl e1)
      then have "e = OutputFailed e1 \<and> d' = d1" using assms(1) i b l by (simp add: cn_Run_def Let_def)
      then show ?thesis using d1 by simp
    next
      case (Inr u)
      let ?t = "remdups (r_ECSPrefixes built)"
      define kept where "kept = applyAccumulation env (defaults opt) ?t (cfg_Disputed cfg) now d1"
      define d3 where "d3 = writeAccumState env (co_ECSStatePath opt) (next_state kept)
          (writeECSTargets env (co_ECSTargetsPath opt) (r_AuthorityECS built) d1)"
      have d3: "d3 p = d p" if "p \<in> {co_ECSOutPath opt, co_ResultPath opt, co_MatchedPath opt}" for p
        using vis [OF that] d1 [OF that] WriteAtomic_other [OF assms(2)] writeECSTargets_other [OF assms(2)]
        by (simp add: d3_def writeAccumState_def)
      obtain e2 where e: "e = OutputFailed e2"
          and w: "write_results env (defaults opt) built (remdups (?t @ map fst kept)) d3 = (Inl e2, d')"
        using assms(1) i b l Inr
        by (auto simp: cn_Run_def Let_def paths simp del: remdups_append2 simp flip: kept_def d3_def split: sum.splits prod.splits)
      note f = write_results_failed [OF w assms(2) apart, unfolded paths]
      show ?thesis
      proof (cases "d' (co_ResultPath opt) = d3 (co_ResultPath opt)")
        case True
        then show ?thesis using f(1) d3 by (simp add: e)
      next
        case False
        then show ?thesis using f(1) f(2) [OF False] d3 i b by (simp add: e) blast
      qed
    qed
  qed
qed

section \<open>A sample round\<close>

definition sample_psl :: string where
  "sample_psl = concat (map (\<lambda>l. l @ [CHR 0x0A]) (map (\<lambda>n. CHR ''x'' # dec_digits n) [0..<100]))"

lemma psl_lines_plain:
  assumes "\<forall>l \<in> set ls. TrimSpace l = l \<and> Normalize l = l \<and> (\<exists>s. l = CHR ''x'' # s)"
  shows "psl_rules (psl_lines True (ls @ [[]]) p) = psl_rules p \<union> set ls"
  using assms
proof (induction ls arbitrary: p)
  case (Cons l ls)
  then obtain s where "l = CHR ''x'' # s" by auto
  with Cons show ?case by (auto simp: psl_rule_def)
qed simp

lemma sample_psl_Len: "100 \<le> psl_Len (Some (ParsePSL sample_psl src))"
proof -
  let ?ls = "map (\<lambda>n. CHR ''x'' # dec_digits n) [0..<100]"
  have d: "is_digit c" if "c \<in> set (dec_digits n)" for c n using that dec_digits_digits [of n] by (auto simp: list_all_iff)
  have "Split (CHR 0x0A) sample_psl = ?ls @ [[]]"
    unfolding sample_psl_def by (rule Split_lines) (use d in \<open>fastforce simp: is_digit_def\<close>)
  moreover have "\<not> Contains sample_psl icannBegin"
  proof
    assume "Contains sample_psl icannBegin"
    then have "CHR ''='' \<in> set sample_psl" using set_mono_sublist by (fastforce simp: icannBegin_def)
    then show False using d by (fastforce simp: sample_psl_def is_digit_def)
  qed
  moreover have "TrimSpace l = l \<and> Normalize l = l \<and> (\<exists>s. l = CHR ''x'' # s)" if l: "l \<in> set ?ls" for l
  proof -
    obtain n where n: "l = CHR ''x'' # dec_digits n" using l by auto
    have p: "printable c \<and> \<not> is_capital c \<and> c \<noteq> CHR ''.''" if "c \<in> set l" for c
      using that d by (fastforce simp: n is_digit_def)
    have "TrimSpace l = l" using p n by (intro TrimSpace_id) auto
    moreover have "last l \<noteq> CHR ''.''" using p last_in_set [of l] n by blast
    then have "TrimRight (CHR ''.'') l = l" by (simp add: TrimRight_id)
    moreover have "ToLower l = l" using p by (intro ToLower_id) (auto simp: list_all_iff)
    ultimately show ?thesis by (simp add: Normalize_def n)
  qed
  then have "psl_rules (psl_lines True (?ls @ [[]]) p) = psl_rules p \<union> set ?ls" for p
    by (intro psl_lines_plain) blast
  ultimately have "psl_rules (ParsePSL sample_psl src) = set ?ls" by (simp add: ParsePSL_def)
  moreover have "inj dec_digits" by (metis inj_onI dec_value_dec_digits)
  then have "distinct ?ls" by (simp add: distinct_map inj_on_def)
  then have "card (set ?ls) = 100" by (subst distinct_card) simp_all
  ultimately show ?thesis by (simp add: psl_Len_def)
qed

definition sample_cn :: cn_options where
  "sample_cn = \<lparr>co_Direct4Path = ''direct4'', co_PairsPath = ''pairs'', co_ManualPath = ''manual'', co_SharedPath = ''shared'',
     co_DisputedPath = ''disputed'', co_PromotedPath = ''promoted'', co_PSLPaths = Some [''psl''], co_ResultPath = ''routes'',
     co_MatchedPath = ''matched'', co_ECSOutPath = ''conf'', co_PrevECSPath = ''conf'', co_ECSStatePath = ''state'',
     co_ECSTargetsPath = ''targets'', co_SharedExcludedOut = [], co_SteeredOutPath = [], co_CDNRulesPath = [],
     co_Aggregate = 0, co_AccumTTL = 0, co_MaxECSEntries = 0\<rparr>"

definition cn_env :: env where "cn_env = calm\<lparr>en_psl_files := \<lambda>_. Some sample_psl\<rparr>"

definition cn_file :: "string list \<Rightarrow> state_file" where
  "cn_file ls = \<lparr>f_data = newline_list ls, f_mode = 420\<rparr>"

definition cn_dir :: dir where
  "cn_dir = [''direct4'' \<mapsto> cn_file [''1.2.3.4/32''], ''pairs'' \<mapsto> cn_file [],
     ''conf'' \<mapsto> cn_file [''    send-client-subnet: 2.0.0.1/32'']]"

lemma file_lines:
  assumes "d path = Some (cn_file ls)" and "\<forall>l \<in> set ls. CHR 0x0A \<notin> set l \<and> length l < 100 \<and> (l = [] \<or> last l \<noteq> CHR 0x0D)"
  shows "loadLines cn_env path d = Inr ls"
proof -
  have "ScanLines (newline_list ls) = (ls, True)"
    unfolding newline_list_def using assms(2) by (intro ScanLines_lines) (auto simp: maxLine_def)
  then show ?thesis using assms(1) by (simp add: loadLines_def ReadFile_def cn_file_def cn_env_def calm_def)
qed


lemma GlobalParts_host:
  assumes "uint a \<notin> nonglobal"
  shows "GlobalParts (Range a a) = [Range a a]"
proof -
  have one: "span_set (span_of (Range a a)) = {uint a}" by (auto simp: span_set_def)
  have "points (GlobalParts (Range a a)) = points [Range a a]"
    using GlobalParts_correct(1) [of "Range a a"] one Diff_triv [of "{uint a}" nonglobal] assms by (simp add: points_Cons)
  then show ?thesis using GlobalParts_correct(2) [of "Range a a"]
    by (intro normal_ranges_canonical) simp_all
qed

lemma one_global: "GlobalParts (Range 0x01020304 0x01020304) = [Range 0x01020304 0x01020304]"
proof (rule GlobalParts_host)
  have "\<not> (\<exists>p \<in> set nonGlobalPrefixes. pfx_Contains p (Addr4 0x01020304))"
    by (simp add: nonGlobalPrefixes_def v4_def prefix_zero_def)
  then show "uint (0x01020304 :: u32) \<notin> nonglobal" unfolding nonglobal_iff by blast
qed

lemma direct_loaded: "fst (LoadReader True [''1.2.3.4/32'']) = New [Range 0x01020304 0x01020304]"
proof -
  have "TrimSpace ''1.2.3.4/32'' = ''1.2.3.4/32''" "Fields ''1.2.3.4/32'' = [''1.2.3.4/32'']" "ipset_parsePrefix ''1.2.3.4/32'' = Some (Prefix (Addr4 0x01020304) 32)"
    "PrefixRange (Prefix (Addr4 0x01020304) 32) = Some (Range 0x01020304 0x01020304)" by code_simp+
  then show ?thesis by (simp add: LoadReader_def load_line_def one_global)
qed
lemma global_host: "IsGlobalPrefix (Prefix (Addr4 0x01020304) 32)" 
proof -
  have "prefixBounds (Masked (Prefix (Addr4 0x01020304) 32)) = Some (0x01020304, 0x01020304)" by code_simp
  then show ?thesis by (simp add: IsGlobalPrefix_def one_global del: Masked.simps)
qed
lemma host_prefixes: "collapse [Prefix (Addr4 0x01020304) 32] = [Prefix (Addr4 0x01020304) 32]"
  "set_Prefixes (Some (New [Range 0x01020304 0x01020304])) = [Prefix (Addr4 0x01020304) 32]"
  by code_simp+

definition sample_config :: config where
  "sample_config = \<lparr>cfg_Direct = Some (New [Range 0x01020304 0x01020304]), cfg_Disputed = None, cfg_Promoted = None,
     cfg_PSL = Some (ParsePSL sample_psl ''psl''), cfg_ManualZones = {}, cfg_SharedAnycast = {}, cfg_MainlandCDN = {},
     cfg_Aggregate = 0\<rparr>"

lemma sample_inputs:
  "cn_inputs cn_env (defaults sample_cn) cn_dir = Inr (sample_config, \<lparr>s_Entries = [], s_Skipped = 0\<rparr>, [])"
proof -
  have "loadLines cn_env ''direct4'' cn_dir = Inr [''1.2.3.4/32'']" "loadLines cn_env ''pairs'' cn_dir = Inr []"
    by (rule file_lines; simp add: cn_dir_def)+
  moreover have "set_Len (Some (New [Range 0x01020304 0x01020304])) \<noteq> 0" by code_simp
  moreover have "loadLines cn_env p cn_dir = Inl NotExist" "LoadSnapshot cn_env p cn_dir = None"
    if "p \<notin> {''direct4'', ''pairs'', ''conf''}" for p
    using that by (auto simp: loadLines_def LoadSnapshot_def ReadFile_def cn_dir_def)
  moreover have "TrimSpace [] = []" by simp
  moreover have "fst (LoadPSL [] (\<lambda>_. Some sample_psl) (Some [''psl''])) = Some (ParsePSL sample_psl ''psl'')"
    using sample_psl_Len [of "''psl''"] by (simp add: LoadPSL_def Let_def)
  ultimately show ?thesis using direct_loaded
    by (simp add: cn_inputs_def sample_cn_def defaults_def cn_env_def calm_def load_direct_def loadCross_def snapshot_zero_def
      parsePairs_def loadManual_def loadShared_def loadMainlandCDN_def sample_config_def case_prod_unfold)
qed

definition sample_built :: result where "sample_built = finish sample_config False acc_empty"

lemma sample_build: "Build [] \<lparr>s_Entries = [], s_Skipped = 0\<rparr> sample_config = Inr sample_built"
  "r_ECSPrefixes sample_built = [Prefix (Addr4 0x01020304) 32]"
proof -
  have "set_Len (Some (New [Range 0x01020304 0x01020304])) \<noteq> 0" by code_simp
  then show "Build [] \<lparr>s_Entries = [], s_Skipped = 0\<rparr> sample_config = Inr sample_built"
    by (simp add: Build_def sample_built_def sample_config_def rto_seen_def)
  show "r_ECSPrefixes sample_built = [Prefix (Addr4 0x01020304) 32]"
    by (simp add: sample_built_def finish_def Let_def acc_empty_def directECSPrefixes_def sample_config_def host_prefixes global_host)
qed

lemma sample_kept:
  "applyAccumulation cn_env (defaults sample_cn) [Prefix (Addr4 0x01020304) 32] None 1000 cn_dir = [(Prefix (Addr4 0x02000001) 32, 1000)]"
proof -
  have "loadLines cn_env ''conf'' cn_dir = Inr [''    send-client-subnet: 2.0.0.1/32'']"
    by (rule file_lines) (simp_all add: cn_dir_def)
  moreover have "prev_line ''    send-client-subnet: 2.0.0.1/32'' [] = [(Prefix (Addr4 0x02000001) 32, False)]" by code_simp
  moreover have "loadLines cn_env ''targets'' cn_dir = Inl NotExist" "loadAccumState cn_env ''state'' cn_dir = ([], True)"
    by (simp_all add: loadLines_def loadAccumState_def ReadFile_def cn_dir_def)
  moreover have "entry_fate (setOf [Prefix (Addr4 0x01020304) 32]) None [] True DefaultAccumTTL 1000 (Prefix (Addr4 0x02000001) 32, False) = Kept 1000"
    by code_simp
  ultimately show ?thesis
    by (simp add: applyAccumulation_def sample_cn_def defaults_def loadPrevECS_def loadECSTargets_def prev_entries_def
      List.map_filter_simps kept_entry_def DefaultMaxECSEntries_def)
qed
lemma cn_writes:
  "WriteAtomic cn_env path data mode d = (Inr (), d(''.t'' := None, path \<mapsto> \<lparr>f_data = data, f_mode = mode\<rparr>))"
  by (simp add: WriteAtomic_def cn_env_def calm_def)

lemma sample_round:
  obtains res d' where "cn_Run cn_env [] sample_cn 1000 cn_dir = (Inr res, d')"
    and "d' ''state'' = Some \<lparr>f_data = state_text (next_state [(Prefix (Addr4 0x02000001) 32, 1000)]), f_mode = 420\<rparr>"
proof -
  have lists: "write_lists cn_env (defaults sample_cn) 1000 sample_built cn_dir = (Inr (), cn_dir)"
    by (simp add: write_lists_def sample_cn_def defaults_def)
  have kept: "applyAccumulation cn_env (defaults sample_cn) (remdups (r_ECSPrefixes sample_built)) (cfg_Disputed sample_config) 1000 cn_dir
      = [(Prefix (Addr4 0x02000001) 32, 1000)]"
    using sample_kept by (simp add: sample_build(2)) (simp add: sample_config_def)
  have paths: "co_ECSStatePath (defaults sample_cn) = ''state''" "co_ECSTargetsPath (defaults sample_cn) = ''targets''"
    "co_ECSOutPath (defaults sample_cn) = ''conf''" "co_ResultPath (defaults sample_cn) = ''routes''"
    "co_MatchedPath (defaults sample_cn) = ''matched''" by (simp_all add: defaults_def sample_cn_def)
  let ?run = "cn_Run cn_env [] sample_cn 1000 cn_dir"
  have "isl (fst ?run) = False \<and>
      snd ?run ''state'' = Some \<lparr>f_data = state_text (next_state [(Prefix (Addr4 0x02000001) 32, 1000)]), f_mode = 420\<rparr>"
    by (simp add: cn_Run_def sample_inputs sample_build(1) lists kept write_results_def writeECSConf_def
      writeAccumState_def writeECSTargets_def cn_writes paths Let_def del: remdups_append2)
  then show thesis by (cases "?run"; cases "fst ?run") (auto intro: that)
qed

lemma cn_env_ok: "temps_ok cn_env d \<longleftrightarrow> d ''.t'' = None" "\<not> en_read_fails cn_env p" "can_write cn_env p"
  by (auto simp: temps_ok_def cn_env_def calm_def can_write_def)

lemma sample_apart: "outputs_apart sample_cn" "co_ECSStatePath sample_cn = ''state''" "''state'' \<notin> own_outputs sample_cn"
  by (simp_all add: outputs_apart_def sample_cn_def own_outputs_def)

lemma sample_held_over: "\<exists>d. held_over sample_cn (Prefix (Addr4 0x02000001) 32) 1000 1000 d"
proof -
  let ?p = "Prefix (Addr4 0x02000001) 32" and ?kept = "[(Prefix (Addr4 0x02000001) 32, 1000)]"
  obtain res d' where run: "cn_Run cn_env [] sample_cn 1000 cn_dir = (Inr res, d')"
      and st: "d' ''state'' = Some \<lparr>f_data = state_text (next_state ?kept), f_mode = 420\<rparr>"
    by (rule sample_round)
  have "canonical4 ?p" by (simp add: canonical4_def pfx_IsValid_def clear_low_def)
  then have "stamped ?kept" by (simp add: stamp_ok_def)
  then obtain s where "loadAccumState cn_env ''state'' d' = (s, True)" "map_of s = map_of (next_state ?kept)"
    using accum_state_read [of ?kept d' "''state''" 420 cn_env] st cn_env_ok(2) by blast
  then have "stamp_in sample_cn d' ?p = Some 1000"
    using loadAccumState_stamp_in [of cn_env sample_cn d' s True ?p] by (simp add: cn_env_ok sample_apart next_state_def)
  moreover have "stamp_in sample_cn cn_dir ?p = None" by (simp add: stamp_in_def sample_apart cn_dir_def)
  moreover have "round sample_cn 1000 cn_dir d'"
  proof -
    have "temps_ok cn_env cn_dir" by (simp add: cn_env_ok cn_dir_def)
    then show ?thesis using run cn_env_ok(2,3) unfolding round_def sample_apart(2)
      by (intro conjI exI [of _ cn_env]) (auto simp: sample_apart)
  qed
  ultimately show ?thesis using held_over.first [of sample_cn 1000 cn_dir d' ?p] by auto
qed

theorem held_over_ttl_witness:
  "\<exists>d. held_over sample_cn (Prefix (Addr4 0x02000001) 32) 1000 1000 d \<and>
     stamp_in sample_cn d (Prefix (Addr4 0x02000001) 32) = Some 1000"
  using sample_held_over held_over_ttl [of sample_cn "Prefix (Addr4 0x02000001) 32" 1000 1000]
  by (auto simp: sample_cn_def)


definition cn_env_full :: env where
  "cn_env_full = cn_env\<lparr>en_io := \<lambda>p. if p = ''routes'' then (en_io cn_env p)\<lparr>io_write := False\<rparr> else en_io cn_env p\<rparr>"

theorem Run_error_witness:
  "\<exists>e d'. cn_Run cn_env_full [] sample_cn 1000 cn_dir = (Inl e, d') \<and> d' ''matched'' = cn_dir ''matched''"
proof -
  have inputs: "cn_inputs cn_env_full (defaults sample_cn) cn_dir = Inr (sample_config, \<lparr>s_Entries = [], s_Skipped = 0\<rparr>, [])"
  proof -
    have "en_read_fails cn_env_full = en_read_fails cn_env" by (simp add: cn_env_full_def)
    then have "ReadFile cn_env_full = ReadFile cn_env" by (intro ext) (simp add: ReadFile_def split: option.split)
    then have r: "loadLines cn_env_full = loadLines cn_env" "LoadSnapshot cn_env_full = LoadSnapshot cn_env" "rules_Load cn_env_full = rules_Load cn_env"
      by (intro ext; simp add: loadLines_def LoadSnapshot_def rules_Load_def)+
    then have "load_direct cn_env_full = load_direct cn_env" "loadCross cn_env_full = loadCross cn_env"
      "parsePairs cn_env_full = parsePairs cn_env" "loadManual cn_env_full = loadManual cn_env"
      "loadShared cn_env_full = loadShared cn_env" "loadMainlandCDN cn_env_full = loadMainlandCDN cn_env"
      by (intro ext; simp add: load_direct_def loadCross_def parsePairs_def loadManual_def loadShared_def loadMainlandCDN_def)+
    note s = this
    have "en_PSL_FILE cn_env_full = en_PSL_FILE cn_env" "en_psl_files cn_env_full = en_psl_files cn_env"
      by (simp_all add: cn_env_full_def)
    then have "cn_inputs cn_env_full = cn_inputs cn_env" by (intro ext) (unfold cn_inputs_def s, simp)
    then show ?thesis using sample_inputs by simp
  qed
  have paths: "co_ResultPath (defaults sample_cn) = ''routes''" "co_SharedExcludedOut (defaults sample_cn) = []"
    "co_SteeredOutPath (defaults sample_cn) = []" "co_ResultPath sample_cn = ''routes''" "co_MatchedPath sample_cn = ''matched''"
    by (simp_all add: defaults_def sample_cn_def)
  have fail: "\<exists>d'. WriteAtomic cn_env_full ''routes'' data mode d = (Inl IOFailure, d')" for data mode d
    by (simp add: WriteAtomic_def cn_env_full_def cn_env_def calm_def Let_def)
  have "fst (write_results cn_env_full (defaults sample_cn) sample_built targets d) = Inl IOFailure" for targets d
    using fail by (auto simp: write_results_def writeECSConf_def paths WriteAtomic_def cn_env_full_def cn_env_def calm_def Let_def)
  then have w: "\<exists>d'. write_results cn_env_full (defaults sample_cn) sample_built targets d = (Inl IOFailure, d')" for targets d
    by (metis prod.collapse)
  have "fst (cn_Run cn_env_full [] sample_cn 1000 cn_dir) = Inl (OutputFailed IOFailure)"
    using w by (auto simp: cn_Run_def inputs sample_build(1) write_lists_def paths Let_def split: prod.split sum.split)
      (metis Pair_inject old.sum.distinct(1) sum.inject(1))+
  then obtain d' where run: "cn_Run cn_env_full [] sample_cn 1000 cn_dir = (Inl (OutputFailed IOFailure), d')"
    by (metis prod.collapse)
  have "temps_ok cn_env_full cn_dir" by (simp add: temps_ok_def cn_env_full_def cn_env_def calm_def cn_dir_def)
  from Run_error [OF run this sample_apart(1)] run show ?thesis
    by (simp add: paths) (simp add: sample_cn_def)
qed

section \<open>The audit\<close>

lemma whitelist_canonical4:
  assumes "LoadECSWhitelist env path d = Some ps" and "p \<in> set ps" and "Is4 (pfx_addr p)"
  shows "canonical4 p"
proof -
  have "\<exists>s q. ParsePrefix s = Some q \<and> p = Masked q" if "whitelist_lines ls = Some ps" "p \<in> set ps" for ls ps
    using that by (induction ls arbitrary: ps) (auto split: option.splits, blast+)
  moreover obtain ls where "whitelist_lines ls = Some ps" using assms(1) by (auto simp: LoadECSWhitelist_def split: sum.splits)
  ultimately obtain s q where q: "ParsePrefix s = Some q" "p = Masked q" using assms(2) by blast
  have "Is4 (pfx_addr q)" using assms(3) by (cases q rule: Masked.cases) (auto simp: q(2) prefix_zero_def split: if_splits)
  then show ?thesis using Masked_canonical4 [OF q(1)] q(2) by simp
qed

lemma loadPrefixFile_canonical: "loadPrefixFile env path d = Inr ps \<Longrightarrow> list_all canonical4 ps"
proof -
  assume "loadPrefixFile env path d = Inr ps"
  then obtain t where t: "set_inv t" "ps = set_Prefixes (Some t)"
    using LoadReader_inv by (auto simp: loadPrefixFile_def bind_res_eq_Inr case_prod_unfold Let_def)
  then have wf: "wf_ranges (set_ranges t)" by (simp add: set_inv_def normal_ranges_wf)
  from set_Prefixes_eq [OF this] prefixes_of_canonical4 [OF span_of_bounded [OF wf]] show ?thesis by (simp add: t(2))
qed

lemma orphan_lists_Inr:
  assumes "orphan_lists env opt d = Inr (whitelist, direct4, cnAuthority, shared)"
  shows "LoadECSWhitelist env (oo_ECSConfPath opt) d = Some whitelist" and "list_all canonical4 (direct4 @ cnAuthority @ shared)"
  using assms
  by (auto simp: orphan_lists_def split: if_splits option.splits sum.splits io_error.splits dest: loadPrefixFile_canonical)

lemma live_canonical4: "list_all canonical4 (liveAccumPrefixes env path ttl now d)"
  by (auto simp: liveAccumPrefixes_def list_all_iff live_key_def Let_def intro: Masked_canonical4 split: prod.splits option.splits if_splits)

lemma or_Prefix_entry [simp]: "or_Prefix (orphan_entry g p) = p"
  by (simp add: orphan_entry_def case_prod_unfold Let_def)

text \<open>C32: The audit reports exactly the entries of the allowlist that reach outside both the addresses of
  the direct, authority and shared lists and those held over within the time to live, each once per
  line and in order; it passes when at most the allowed number of them lie abroad.\<close>

theorem AuditOrphans_exact:
  assumes "AuditOrphans env geo opt now d = Inr report"
    and "orphan_lists env opt d = Inr (whitelist, direct4, cnAuthority, shared)"
    and "list_all (\<lambda>p. Is4 (pfx_addr p)) whitelist"
    and "ttl = (if oo_AccumTTL opt \<le> 0 then DefaultAccumTTL else oo_AccumTTL opt)"
    and "live = liveAccumPrefixes env (oo_AccumStatePath opt) ttl now d"
  shows "mset (map or_Prefix (op_Orphans report)) =
      {#p \<in># mset whitelist. \<not> pfxs_addrs [p] \<subseteq> pfxs_addrs (direct4 @ cnAuthority @ shared) \<and>
        \<not> pfxs_addrs [p] \<subseteq> pfxs_addrs live#} \<and>
    sorted (map (\<lambda>e. (pfx_addr (or_Prefix e), pfx_bits (or_Prefix e))) (op_Orphans report)) \<and>
    (op_OK report \<longleftrightarrow> int (length (filter or_Foreign (op_Orphans report))) \<le> oo_MaxForeign opt)"
proof -
  note lists = orphan_lists_Inr [OF assms(2)]
  let ?legit = "setOf (direct4 @ cnAuthority @ shared)"
  let ?orphans = "sortPrefixes (filter (\<lambda>p. \<not> CoversPrefix (Some (setOf live)) p) (filter (\<lambda>p. \<not> CoversPrefix (Some ?legit) p) whitelist))"
  have wf: "list_all wf_prefix ps" if "list_all canonical4 ps" for ps using that by (auto simp: list_all_iff canonical4_def)
  have covers: "CoversPrefix (Some (setOf ps)) p \<longleftrightarrow> pfxs_addrs [p] \<subseteq> pfxs_addrs ps"
    if "list_all canonical4 ps" "p \<in> set whitelist" for ps p
  proof -
    have p: "canonical4 p" using whitelist_canonical4 [OF lists(1) that(2)] assms(3) that(2) by (simp add: list_all_iff)
    then have "list_all canonical4 [p]" by simp
    then show ?thesis using covers_setOf [OF wf [OF that(1)] p] by (simp only: addrs4_canonical that(1))
  qed
  have "mset ?orphans = {#p \<in># mset whitelist. \<not> pfxs_addrs [p] \<subseteq> pfxs_addrs (direct4 @ cnAuthority @ shared) \<and>
        \<not> pfxs_addrs [p] \<subseteq> pfxs_addrs live#}"
    using covers [OF lists(2)] covers [OF live_canonical4, folded assms(5)]
    by (auto simp: sortPrefixes_def assms(5) simp flip: mset_filter intro!: arg_cong [of _ _ mset] filter_cong)
  moreover have "map or_Prefix (op_Orphans report) = ?orphans \<and>
      (op_OK report \<longleftrightarrow> int (length (filter or_Foreign (op_Orphans report))) \<le> oo_MaxForeign opt)"
  proof -
    have "0 \<le> oo_MaxForeign opt" using assms(2) by (simp add: orphan_lists_def split: if_splits)
    then show ?thesis using assms(1)
      by (auto simp: AuditOrphans_def assms(2) Let_def comp_def simp flip: assms(4,5)
          split: if_splits option.splits)
  qed
  moreover have "sorted (map (\<lambda>p. (pfx_addr p, pfx_bits p)) ?orphans)" by (simp add: sortPrefixes_def)
  ultimately show ?thesis by (metis (no_types, lifting) list.map_comp comp_def map_eq_conv)
qed

text \<open>
  The allowlist merges adjacent entries. A merged entry of which one half is an authority and the other
  half is held over is covered by neither list alone, so the audit takes it for an orphan.
\<close>

lemma merged_entry_is_orphan:
  "collapsePrefixes [Prefix (Addr4 0x01020304) 32, Prefix (Addr4 0x01020305) 32] = [Prefix (Addr4 0x01020304) 31]"
  "\<not> CoversPrefix (Some (setOf [Prefix (Addr4 0x01020304) 32])) (Prefix (Addr4 0x01020304) 31)"
  "\<not> CoversPrefix (Some (setOf [Prefix (Addr4 0x01020305) 32])) (Prefix (Addr4 0x01020304) 31)"
  by code_simp+

definition sample_orphan :: orphan_options where
  "sample_orphan = \<lparr>oo_ECSConfPath = ''conf'', oo_Direct4Path = ''direct4'', oo_CNAuthorityPath = ''pairs'',
     oo_SharedExcludedPath = ''shared'', oo_AccumStatePath = ''state'', oo_AccumTTL = 0, oo_MaxForeign = 9\<rparr>"

theorem AuditOrphans_exact_witness:
  "\<exists>report. AuditOrphans cn_env (Some (\<lambda>_. (''US'', [], True))) sample_orphan 1000 cn_dir = Inr report \<and>
     mset (map or_Prefix (op_Orphans report)) = {#Prefix (Addr4 0x02000001) 32#}"
proof -
  let ?p = "Prefix (Addr4 0x02000001) 32"
  have conf: "LoadECSWhitelist cn_env ''conf'' cn_dir = Some [?p]"
  proof -
    have "loadLines cn_env ''conf'' cn_dir = Inr [''    send-client-subnet: 2.0.0.1/32'']"
      by (rule file_lines) (simp_all add: cn_dir_def)
    moreover have "whitelist_lines [''    send-client-subnet: 2.0.0.1/32''] = Some [?p]" by code_simp
    ultimately show ?thesis by (simp add: LoadECSWhitelist_def)
  qed
  have direct: "loadPrefixFile cn_env ''direct4'' cn_dir = Inr [Prefix (Addr4 0x01020304) 32]"
  proof -
    have "pfx_String (Prefix (Addr4 0x01020304) 32) = ''1.2.3.4/32''"
      "collapsePrefixes [Prefix (Addr4 0x01020304) 32] = [Prefix (Addr4 0x01020304) 32]" by code_simp+
    moreover have "list_all canonical4 [Prefix (Addr4 0x01020304) 32]" by (simp add: canonical4_def pfx_IsValid_def clear_low_def)
    ultimately show ?thesis
      using loadPrefixFile_written [of cn_dir "''direct4''" "[Prefix (Addr4 0x01020304) 32]" 420 cn_env] cn_env_ok(2)
      by (simp add: cn_dir_def cn_file_def)
  qed
  have pairs: "loadPrefixFile cn_env ''pairs'' cn_dir = Inr []"
  proof -
    have "collapsePrefixes [] = []" by code_simp
    then show ?thesis using loadPrefixFile_written [of cn_dir "''pairs''" "[]" 420 cn_env] cn_env_ok(2)
      by (simp add: cn_dir_def cn_file_def)
  qed
  have "loadPrefixFile cn_env ''shared'' cn_dir = Inl NotExist"
    by (simp add: loadPrefixFile_def loadLines_def ReadFile_def cn_dir_def)
  with conf direct pairs have lists: "orphan_lists cn_env sample_orphan cn_dir = Inr ([?p], [Prefix (Addr4 0x01020304) 32], [], [])"
    by (simp add: orphan_lists_def sample_orphan_def)
  have live: "liveAccumPrefixes cn_env (oo_AccumStatePath sample_orphan) ttl 1000 cn_dir = []" for ttl
    by (simp add: liveAccumPrefixes_def loadAccumState_def ReadFile_def cn_dir_def sample_orphan_def)
  have out: "\<not> CoversPrefix (Some (setOf [Prefix (Addr4 0x01020304) 32])) ?p" "\<not> CoversPrefix (Some (setOf [])) ?p" by code_simp+
  obtain report where report: "AuditOrphans cn_env (Some (\<lambda>_. (''US'', [], True))) sample_orphan 1000 cn_dir = Inr report"
    by (simp add: AuditOrphans_def lists Let_def live out sortPrefixes_def)
  have "\<not> addrs4 [?p] \<subseteq> addrs4 [Prefix (Addr4 0x01020304) 32]"
    by (auto simp: addrs4_def pfx_IsValid_def xor_eq_0)
  then have "\<not> pfxs_addrs [?p] \<subseteq> pfxs_addrs [Prefix (Addr4 0x01020304) 32]"
    by (subst (1 2) addrs4_canonical) (simp_all add: canonical4_def pfx_IsValid_def clear_low_def)
  moreover have "\<not> pfxs_addrs [?p] \<subseteq> pfxs_addrs []"
    by (subst (1 2) addrs4_canonical) (auto simp: canonical4_def pfx_IsValid_def clear_low_def addrs4_def xor_eq_0)
  ultimately show ?thesis using AuditOrphans_exact [OF report lists _ refl refl] report live by simp
qed

end
