(* ===== verification/Chnroute.thy ===== *)
theory Chnroute
  imports Complex_Main IPSet_Prefix Access Bufio
begin

text \<open>
  Package \<open>chnroute\<close>: the list of mainland networks. It joins the IPv4 blocks that APNIC delegates to
  CN with those a geolocation database places there, takes out what the database places abroad
  unless that looks wrong, adds the special purpose prefixes and writes the result.
\<close>

section \<open>Inputs\<close>

definition offshoreProbes :: "string list" where
  "offshoreProbes = [''23.56.25.51'', ''1.36.0.1'', ''119.31.191.80'', ''203.198.0.1'']"

definition mainlandProbes :: "string list" where
  "mainlandProbes = [''223.6.6.6'', ''119.29.29.29'', ''1.2.4.8'', ''180.76.76.76'', ''223.5.5.5'', ''101.6.6.6'']"

definition addrToUint :: "addr \<Rightarrow> u32" where
  "addrToUint a =
     (let b = AsSlice a in
      push_bit 24 (ucast (b ! 0)) OR push_bit 16 (ucast (b ! 1)) OR push_bit 8 (ucast (b ! 2)) OR ucast (b ! 3))"

definition apnic_line :: "string \<Rightarrow> range option" where
  "apnic_line raw =
     (let parts = Split (CHR ''|'') (TrimSpace raw) in
      if length parts < 7 \<or> parts ! 1 \<noteq> ''CN'' \<or> parts ! 2 \<noteq> ''ipv4'' then None
      else if parts ! 6 \<noteq> ''allocated'' \<and> parts ! 6 \<noteq> ''assigned'' then None
      else case ParseAddr (parts ! 3) of
        None \<Rightarrow> None
      | Some start \<Rightarrow>
          if \<not> Is4 start then None
          else case ParseUint 32 (parts ! 4) of
            None \<Rightarrow> None
          | Some count \<Rightarrow>
              if count = 0 then None
              else let lo = addrToUint start in
                if 0xffffffff < (ucast lo + word_of_nat count - 1 :: u64) then None
                else Some (Range lo (lo + word_of_nat count - 1)))"

text \<open>The ranges of the delegated file; \<open>None\<close> when the scanner fails.\<close>

definition parseAPNIC :: "string \<Rightarrow> range list option" where
  "parseAPNIC body = (let (ls, ok) = ScanLines body in if ok then Some (List.map_filter apnic_line ls) else None)"

record foreignSpan =
  fs_lo :: u32
  fs_hi :: u32
  fs_code :: string
  fs_name :: string

definition containsAddr :: "ip_set option \<Rightarrow> string \<Rightarrow> bool" where
  "containsAddr s probe = (case ParseAddr probe of None \<Rightarrow> False | Some a \<Rightarrow> set_Contains s a)"

text \<open>The first offshore probe in the supplement, if any.\<close>

definition guardOffshoreLeak :: "range list \<Rightarrow> string option" where
  "guardOffshoreLeak cnipCN = find (containsAddr (Some (New cnipCN))) offshoreProbes"

text \<open>
  \<open>loadCNIP\<close>: what the walk of the database visits is an argument, the prefix and the two fields of each
  record in order, \<open>None\<close> when the database cannot be opened or walked.
\<close>

fun cnip_loop :: "(u32 \<Rightarrow> u32 \<Rightarrow> bool) \<Rightarrow> (prefix \<times> string \<times> string) list \<Rightarrow> range list \<Rightarrow> foreignSpan list \<Rightarrow> range list \<times> foreignSpan list" where
  "cnip_loop relevant [] cn foreign = (cn, foreign)"
| "cnip_loop relevant ((pfx, ccode, name) # rs) cn foreign =
     (case PrefixRange (Masked pfx) of
        None \<Rightarrow> cnip_loop relevant rs cn foreign
      | Some sp \<Rightarrow>
          if ccode = ''CN'' then cnip_loop relevant rs (cn @ [sp]) foreign
          else if ccode = [] \<or> \<not> relevant (Lo sp) (Hi sp) then cnip_loop relevant rs cn foreign
          else cnip_loop relevant rs cn (foreign @ [\<lparr>fs_lo = Lo sp, fs_hi = Hi sp, fs_code = ccode,
                 fs_name = (if name = [] then ''?'' else name)\<rparr>]))"

definition loadCNIP :: "(prefix \<times> string \<times> string) list option \<Rightarrow> (u32 \<Rightarrow> u32 \<Rightarrow> bool) \<Rightarrow> (range list \<times> foreignSpan list) option" where
  "loadCNIP walk relevant = map_option (\<lambda>rs. cnip_loop relevant rs [] []) walk"

definition totalAddresses :: "range list \<Rightarrow> u64" where
  "totalAddresses rs = foldl (\<lambda>sum r. sum + (ucast (Hi r - Lo r) + 1)) 0 rs"

section \<open>Taking out foreign addresses\<close>

definition attribute_prefix :: "foreignSpan list \<Rightarrow> prefix \<Rightarrow> foreignSpan list" where
  "attribute_prefix srt pfx =
     (case PrefixRange pfx of
        None \<Rightarrow> []
      | Some sp \<Rightarrow>
          let n = sort_Search (length srt) (\<lambda>i. fs_lo (srt ! i) > Lo sp);
              (ccode, name) = (if 0 < n \<and> fs_hi (srt ! (n - 1)) \<ge> Lo sp
                then (fs_code (srt ! (n - 1)), fs_name (srt ! (n - 1))) else (''?'', ''?''))
          in [\<lparr>fs_lo = Lo sp, fs_hi = Hi sp, fs_code = ccode, fs_name = name\<rparr>])"

text \<open>The sort compares the lower ends only and leaves the order of equal ones open; here they keep theirs.\<close>

definition attributeDropped :: "range list \<Rightarrow> foreignSpan list \<Rightarrow> foreignSpan list" where
  "attributeDropped dropped foreign =
     (let srt = sort_key fs_lo foreign
      in concat (map (\<lambda>r. concat (map (attribute_prefix srt) (RangePrefixes r))) dropped))"

datatype rejection = OverLimit rat | DropsMainland "string list"

record exclusion =
  ex_kept :: ip_set
  ex_dropped :: "foreignSpan list"
  ex_addrs :: u64
  ex_ratio :: rat
  ex_rejected :: "rejection option"

text \<open>
  The percentage is a 64-bit float in the ccode: the two counts and the factor 100 are exact there, and
  \<open>rnd\<close> is the rounding of the one division.
\<close>

definition planReverseExclusion :: "(rat \<Rightarrow> rat) \<Rightarrow> ip_set option \<Rightarrow> foreignSpan list \<Rightarrow> rat \<Rightarrow> exclusion" where
  "planReverseExclusion rnd cnSet foreign maxDropRatio =
     (let overlapping = map (\<lambda>f. Range (fs_lo f) (fs_hi f)) (filter (\<lambda>f. Overlaps cnSet (fs_lo f) (fs_hi f)) foreign);
          keptRanges = ipset_Subtract (Ranges cnSet) overlapping;
          keptSet = New keptRanges;
          droppedRanges = ipset_Subtract (Ranges cnSet) keptRanges;
          addrs = totalAddresses droppedRanges;
          before = AddressCount cnSet;
          ratio = (if 0 < before then rnd (rat_of_nat (unat addrs) * 100 / rat_of_nat (unat before)) else 0);
          plan = \<lparr>ex_kept = keptSet, ex_dropped = [], ex_addrs = addrs, ex_ratio = ratio, ex_rejected = None\<rparr>
      in if ratio > maxDropRatio then plan\<lparr>ex_rejected := Some (OverLimit ratio)\<rparr>
         else
           let missing = filter (\<lambda>probe. \<not> containsAddr (Some keptSet) probe) mainlandProbes in
           if 0 < length missing then plan\<lparr>ex_rejected := Some (DropsMainland missing)\<rparr>
           else plan\<lparr>ex_dropped := attributeDropped droppedRanges foreign\<rparr>)"

definition writeExcluded :: "env \<Rightarrow> string \<Rightarrow> foreignSpan list \<Rightarrow> dir \<Rightarrow> (io_error + unit) \<times> dir" where
  "writeExcluded env path excluded d =
     WriteAtomic env path
       (''# APNIC '' @ [CHR 0xE5, CHR 0x88, CHR 0xA4] @ '' CN '' @ [CHR 0xE4, CHR 0xBD, CHR 0x86] @ '' qqwry '' @ [CHR 0xE5, CHR 0x88, CHR 0xA4, CHR 0xE5, CHR 0xA2, CHR 0x83, CHR 0xE5, CHR 0xA4, CHR 0x96, CHR 0xEF, CHR 0xBC, CHR 0x8C, CHR 0xE5, CHR 0xB7, CHR 0xB2, CHR 0xE4, CHR 0xBB, CHR 0x8E, CHR 0xE7, CHR 0x9B, CHR 0xB4, CHR 0xE8, CHR 0xBF, CHR 0x9E, CHR 0xE9, CHR 0x9B, CHR 0x86, CHR 0xE5, CHR 0x90, CHR 0x88, CHR 0xE6, CHR 0x8E, CHR 0x92, CHR 0xE9, CHR 0x99, CHR 0xA4, CHR 0x0A]
        @ ''# '' @ [CHR 0xE7, CHR 0xBD, CHR 0x91, CHR 0xE6, CHR 0xAE, CHR 0xB5] @ '' '' @ [CHR 0xE5, CHR 0x9B, CHR 0xBD, CHR 0xE5, CHR 0x88, CHR 0xAB, CHR 0xE7, CHR 0xA0, CHR 0x81] @ '' '' @ [CHR 0xE5, CHR 0x9B, CHR 0xBD, CHR 0xE5, CHR 0x88, CHR 0xAB, CHR 0xE5, CHR 0x90, CHR 0x8D, CHR 0x0A]
        @ concat (map (\<lambda>e. concat (map (\<lambda>p. pfx_String p @ '' '' @ fs_code e @ '' '' @ fs_name e @ [CHR 0x0A])
            (RangePrefixes (Range (fs_lo e) (fs_hi e))))) (sort_key fs_lo excluded)))
       420 d"

section \<open>The run\<close>

record chn_options =
  co_APNICPath :: string
  co_CNIPPath :: string
  co_OutPath :: string
  co_ExcludedPath :: string
  co_StatsPath :: string
  co_ReverseExlude :: bool
  co_MaxDropRatio :: rat

record chn_result =
  cr_Networks :: nat
  cr_CNAddresses :: u64
  cr_Supplemented :: nat
  cr_Excluded :: nat
  cr_DroppedAddrs :: u64

datatype chn_error = ReadError io_error | ScanError | NoCNRanges | OffshoreLeak string | WriteError io_error

definition result_zero :: chn_result where
  "result_zero = \<lparr>cr_Networks = 0, cr_CNAddresses = 0, cr_Supplemented = 0, cr_Excluded = 0, cr_DroppedAddrs = 0\<rparr>"

text \<open>The set of mainland addresses, the excluded ranges and the result so far.\<close>

definition exclude_foreign :: "(rat \<Rightarrow> rat) \<Rightarrow> bool \<Rightarrow> rat \<Rightarrow> range list \<Rightarrow> foreignSpan list \<Rightarrow> chn_result \<Rightarrow> ip_set \<times> foreignSpan list \<times> chn_result" where
  "exclude_foreign rnd reverse maxDrop cnRanges foreign res =
     (let cnSet = New cnRanges in
      if reverse \<and> 0 < length foreign then
        let plan = planReverseExclusion rnd (Some cnSet) foreign maxDrop in
        if ex_rejected plan \<noteq> None then (cnSet, [], res)
        else (ex_kept plan, ex_dropped plan,
              res\<lparr>cr_DroppedAddrs := ex_addrs plan, cr_Excluded := length (ex_dropped plan)\<rparr>)
      else (cnSet, [], res))"

definition network_prefixes :: "ip_set \<Rightarrow> prefix list" where
  "network_prefixes cnSet =
     set_Prefixes (Some (New (Ranges (Some cnSet) @ List.map_filter PrefixRange NonGlobalPrefixes4)))"

definition network_text :: "prefix list \<Rightarrow> string" where
  "network_text ps = concat (map (\<lambda>p. pfx_String p @ [CHR 0x0A]) ps)"

definition stats_text :: "chn_result \<Rightarrow> string" where
  "stats_text res = ''NETWORKS='' @ dec_digits (cr_Networks res) @ [CHR 0x0A] @
     ''CN_ADDRESSES='' @ dec_digits (unat (cr_CNAddresses res)) @ [CHR 0x0A]"

definition write_networks :: "env \<Rightarrow> chn_options \<Rightarrow> ip_set \<Rightarrow> chn_result \<Rightarrow> dir \<Rightarrow> (chn_result \<times> chn_error option) \<times> dir" where
  "write_networks env opt cnSet res0 d =
     (let ps = network_prefixes cnSet;
          res = res0\<lparr>cr_CNAddresses := AddressCount (Some cnSet), cr_Networks := length ps\<rparr>
      in case WriteAtomic env (co_OutPath opt) (network_text ps) 420 d of
           (Inl e, d') \<Rightarrow> ((res, Some (WriteError e)), d')
         | (Inr _, d') \<Rightarrow>
             if co_StatsPath opt = [] then ((res, None), d')
             else (case WriteAtomic env (co_StatsPath opt) (stats_text res) 420 d' of
                     (Inl e, d'') \<Rightarrow> ((res, Some (WriteError e)), d'')
                   | (Inr _, d'') \<Rightarrow> ((res, None), d'')))"

text \<open>
  \<open>Run\<close>, with the database walk and the rounding as arguments; the log is left out. A failing supplement
  or exclusion list is only logged.
\<close>

definition chn_Run :: "env \<Rightarrow> (rat \<Rightarrow> rat) \<Rightarrow> (prefix \<times> string \<times> string) list option \<Rightarrow> chn_options \<Rightarrow> dir \<Rightarrow> (chn_result \<times> chn_error option) \<times> dir" where
  "chn_Run env rnd walk opt d =
     (let maxDrop = (if co_MaxDropRatio opt = 0 then 5 else co_MaxDropRatio opt) in
      case ReadFile env (co_APNICPath opt) d of
        Inl e \<Rightarrow> ((result_zero, Some (ReadError e)), d)
      | Inr body \<Rightarrow>
          (case parseAPNIC body of
             None \<Rightarrow> ((result_zero, Some ScanError), d)
           | Some apnic \<Rightarrow>
               if apnic = [] then ((result_zero, Some NoCNRanges), d)
               else
                 let (cnip, foreign) =
                       (if co_CNIPPath opt = [] then ([], [])
                        else case loadCNIP walk (\<lambda>lo hi. co_ReverseExlude opt \<and> Overlaps (Some (New apnic)) lo hi) of
                          None \<Rightarrow> ([], []) | Some (cn, f) \<Rightarrow> (cn, f))
                 in case (if cnip = [] then None else guardOffshoreLeak cnip) of
                      Some probe \<Rightarrow> ((result_zero, Some (OffshoreLeak probe)), d)
                    | None \<Rightarrow>
                        let res = (if cnip = [] then result_zero
                                   else result_zero\<lparr>cr_Supplemented := length (Ranges (Some (New cnip)))\<rparr>);
                            (cnSet, excluded, res') = exclude_foreign rnd (co_ReverseExlude opt) maxDrop (apnic @ cnip) foreign res;
                            d1 = (if 0 < length excluded \<and> co_ExcludedPath opt \<noteq> []
                                  then snd (writeExcluded env (co_ExcludedPath opt) excluded d) else d)
                        in write_networks env opt cnSet res' d1))"

section \<open>Reports and the check of the delegated file\<close>

text \<open>The counts by country are a map in the ccode; here an association list with distinct keys, sorted like there.\<close>

definition topCountries :: "(string \<times> nat) list \<Rightarrow> nat \<Rightarrow> string" where
  "topCountries counts limit =
     (let parts = map (\<lambda>(key, n). key @ '' '' @ dec_digits n @ [CHR 0xE6, CHR 0xAE, CHR 0xB5])
            (take limit (sort_key (\<lambda>(key, n). (- int n, key)) counts))
      in concat (case parts of [] \<Rightarrow> [] | p # ps \<Rightarrow> p # map (\<lambda>q. [CHR 0xE3, CHR 0x80, CHR 0x81] @ q) ps))"

fun group_loop :: "string \<Rightarrow> string \<Rightarrow> string" where
  "group_loop b (x # y # z # rest) = group_loop (b @ (if b \<noteq> [] then '','' else []) @ [x, y, z]) rest"
| "group_loop b rest = b"

definition groupDigits :: "u64 \<Rightarrow> string" where
  "groupDigits v =
     (let text = dec_digits (unat v) in
      if length text \<le> 3 then text
      else let lead = length text mod 3 in group_loop (take lead text) (drop lead text))"

datatype verify_error = VerifyRead io_error | VerifyScan | VerifyShort nat

definition VerifyDelegated :: "env \<Rightarrow> string \<Rightarrow> int \<Rightarrow> dir \<Rightarrow> verify_error option" where
  "VerifyDelegated env path minEntries d =
     (case ReadFile env path d of
        Inl e \<Rightarrow> Some (VerifyRead e)
      | Inr body \<Rightarrow>
          let (ls, ok) = ScanLines body;
              count = length (filter (\<lambda>l. strings_Contains l ''|CN|ipv4|'') ls)
          in if \<not> ok then Some VerifyScan else if int count < minEntries then Some (VerifyShort count) else None)"

end
