(* ===== verification/Chnroute_Facts.thy ===== *)
theory Chnroute_Facts
  imports Chnroute Access_ACL
begin

text \<open>
  What the mainland network list holds: the written file covers exactly the mainland addresses and the
  special purpose ones, and the mainland addresses are the delegated ones and the supplement, less the
  foreign ones only where that keeps every known mainland address.
\<close>

unbundle bit_operations_syntax

section \<open>The inputs\<close>

lemma addrToUint_eq: "addrToUint a = toUint32 a"
  by (simp add: addrToUint_def toUint32_def)

lemma apnic_line_range:
  assumes "apnic_line raw = Some r"
  shows "Lo r \<le> Hi r"
    and "\<exists>start count. ParseAddr (Split (CHR ''|'') (TrimSpace raw) ! 3) = Some (Addr4 start) \<and>
      ParseUint 32 (Split (CHR ''|'') (TrimSpace raw) ! 4) = Some count \<and>
      uint (Lo r) = uint start \<and> uint (Hi r) = uint start + int count - 1"
proof -
  obtain start count where pa: "ParseAddr (Split (CHR ''|'') (TrimSpace raw) ! 3) = Some (Addr4 start)"
    and pu: "ParseUint 32 (Split (CHR ''|'') (TrimSpace raw) ! 4) = Some count" and c: "count \<noteq> 0"
    and fit: "\<not> 0xffffffff < (ucast start + word_of_nat count - 1 :: u64)"
    and r: "r = Range start (start + word_of_nat count - 1)"
    using assms by (auto simp: apnic_line_def Let_def addrToUint_eq split: if_splits option.splits elim: Is4.elims)
  have count: "int count < 2 ^ 32" using pu by (auto simp: ParseUint_def split: if_splits)
  have s: "uint start < 2 ^ 32" using uint_lt2p [of start] by simp
  have "uint (ucast start + word_of_nat count - 1 :: u64) = uint start + int count - 1"
  proof -
    have "(uint start + int count - 1) mod 2 ^ 64 = uint start + int count - 1"
    proof (rule mod_pos_pos_trivial)
      show "0 \<le> uint start + int count - 1" using c uint_ge_0 [of start] by linarith
      have "uint start + int count - 1 < 2 ^ 32 + 2 ^ 32" using count s by linarith
      then show "uint start + int count - 1 < 2 ^ 64" by simp
    qed
    then show ?thesis using s count
      by (simp add: uint_word_ariths mod_simps unsigned_ucast_eq take_bit_eq_mod unsigned_of_nat)
  qed
  then have le: "uint start + int count - 1 \<le> 0xffffffff"
    using fit by (simp add: word_less_def not_less)
  then have hi: "uint (start + word_of_nat count - 1) = uint start + int count - 1"
  proof -
    have "(uint start + int count - 1) mod 2 ^ 32 = uint start + int count - 1"
    proof (rule mod_pos_pos_trivial)
      show "0 \<le> uint start + int count - 1" using c uint_ge_0 [of start] by linarith
      show "uint start + int count - 1 < 2 ^ 32" using le by simp
    qed
    then show ?thesis using count by (simp add: uint_word_ariths mod_simps unsigned_of_nat take_bit_eq_mod)
  qed
  show "Lo r \<le> Hi r" using hi c by (simp add: r word_le_def)
  show "\<exists>start count. ParseAddr (Split (CHR ''|'') (TrimSpace raw) ! 3) = Some (Addr4 start) \<and>
      ParseUint 32 (Split (CHR ''|'') (TrimSpace raw) ! 4) = Some count \<and>
      uint (Lo r) = uint start \<and> uint (Hi r) = uint start + int count - 1"
    using pa pu hi r by auto
qed

lemma parseAPNIC_wf: "parseAPNIC body = Some rs \<Longrightarrow> wf_ranges rs"
  by (auto simp: parseAPNIC_def List.map_filter_def list_all_iff apnic_line_range(1) split: prod.splits if_splits)

lemma PrefixRange_Masked_wf: "PrefixRange (Masked p) = Some r \<Longrightarrow> Lo r \<le> Hi r"
  using PrefixRange_span [OF wf_Masked, of p] PrefixRange_None [of "Masked p"] by fastforce

text \<open>The addresses of the records of the database that satisfy \<open>P\<close>, given their country code and range.\<close>

definition db_points :: "(string \<Rightarrow> range \<Rightarrow> bool) \<Rightarrow> (prefix \<times> string \<times> string) list \<Rightarrow> int set" where
  "db_points P rs = (\<Union>(p, ccode, _) \<in> set rs. case PrefixRange (Masked p) of
     None \<Rightarrow> {} | Some r \<Rightarrow> if P ccode r then span_set (span_of r) else {})"

abbreviation foreign_ranges :: "foreignSpan list \<Rightarrow> range list" where
  "foreign_ranges fs \<equiv> map (\<lambda>f. Range (fs_lo f) (fs_hi f)) fs"

lemma cnip_loop_correct:
  assumes "cnip_loop relevant rs cn foreign = (cn', foreign')"
  shows "points cn' = points cn \<union> db_points (\<lambda>c _. c = ''CN'') rs"
    and "points (foreign_ranges foreign') = points (foreign_ranges foreign) \<union>
      db_points (\<lambda>c r. c \<noteq> ''CN'' \<and> c \<noteq> [] \<and> relevant (Lo r) (Hi r)) rs"
    and "wf_ranges cn \<Longrightarrow> wf_ranges cn'"
    and "wf_ranges (foreign_ranges foreign) \<Longrightarrow> wf_ranges (foreign_ranges foreign')"
  using assms
proof (induction relevant rs cn foreign rule: cnip_loop.induct)
  case (2 relevant pfx ccode name rs cn foreign)
  {
    case 1
    with 2 show ?case by (auto simp: db_points_def spans_set_def split: option.splits if_splits)
  next
    case 2
    with "2.IH" show ?case by (auto simp: db_points_def spans_set_def split: option.splits if_splits)
  next
    case 3
    with "2.IH" show ?case by (auto dest: PrefixRange_Masked_wf split: option.splits if_splits)
  next
    case 4
    with "2.IH" show ?case by (auto dest: PrefixRange_Masked_wf split: option.splits if_splits)
  }
qed (auto simp: db_points_def)

section \<open>Taking out foreign addresses\<close>

definition probe_in :: "int set \<Rightarrow> string \<Rightarrow> bool" where
  "probe_in S probe \<longleftrightarrow> (\<exists>w. ParseAddr probe = Some (Addr4 w) \<and> uint w \<in> S)"

lemma containsAddr_iff: "set_inv t \<Longrightarrow> containsAddr (Some t) probe \<longleftrightarrow> probe_in (points (set_ranges t)) probe"
  by (auto simp: containsAddr_def probe_in_def set_Contains_iff split: option.splits elim: Is4.elims)

lemma plan_kept:
  assumes cn: "set_inv t" and wf: "wf_ranges (foreign_ranges foreign)" and top: "\<forall>f \<in> set foreign. fs_hi f \<noteq> u32_max"
  shows "set_inv (ex_kept (planReverseExclusion rnd (Some t) foreign maxDrop)) \<and>
    points (set_ranges (ex_kept (planReverseExclusion rnd (Some t) foreign maxDrop))) =
      points (set_ranges t) - points (foreign_ranges foreign)"
proof -
  let ?o = "foreign_ranges (filter (\<lambda>f. Overlaps (Some t) (fs_lo f) (fs_hi f)) foreign)"
  let ?kept = "ipset_Subtract (set_ranges t) ?o"
  have eq: "ex_kept (planReverseExclusion rnd (Some t) foreign maxDrop) = New ?kept"
    by (simp add: planReverseExclusion_def Let_def Ranges_def)
  have "wf_ranges ?o" using wf by (auto simp: list_all_iff)
  moreover have "no_wrap ?o"
    using top by (auto simp: list_all_iff dest!: in_set_butlastD)
  ultimately have arg: "range_arg ?o" by (rule range_arg_no_wrap)
  have base: "range_arg (set_ranges t)" using cn by (simp add: set_inv_def range_arg_normal)
  have "points (set_ranges t) - points ?o = points (set_ranges t) - points (foreign_ranges foreign)"
  proof -
    have "span_set (span_of (Range (fs_lo f) (fs_hi f))) \<inter> points (set_ranges t) = {}"
      if "f \<in> set foreign" "\<not> Overlaps (Some t) (fs_lo f) (fs_hi f)" for f
      using that Overlaps_iff [OF cn, of "fs_lo f" "fs_hi f"] wf
      by (auto simp: list_all_iff span_set_def)
    then show ?thesis by (auto simp: spans_set_def)
  qed
  then show ?thesis unfolding eq
    using ipset_Subtract_correct [OF base arg] New_inv normal_ranges_wf by auto
qed

lemma plan_accepts:
  assumes "ex_rejected (planReverseExclusion rnd s foreign maxDrop) = None"
  shows "\<forall>probe \<in> set mainlandProbes. containsAddr (Some (ex_kept (planReverseExclusion rnd s foreign maxDrop))) probe"
    and "ex_ratio (planReverseExclusion rnd s foreign maxDrop) \<le> maxDrop"
  using assms by (auto simp: planReverseExclusion_def Let_def filter_empty_conv split: if_splits)

lemma exclude_foreign_correct:
  assumes cn: "wf_ranges cnRanges" and wf: "wf_ranges (foreign_ranges foreign)" and top: "\<forall>f \<in> set foreign. fs_hi f \<noteq> u32_max"
    and "exclude_foreign rnd reverse maxDrop cnRanges foreign res = (t, excluded, res')"
  shows "set_inv t \<and> (points (set_ranges t) = points cnRanges \<or>
    reverse \<and> points (set_ranges t) = points cnRanges - points (foreign_ranges foreign) \<and>
      (\<forall>probe \<in> set mainlandProbes. probe_in (points (set_ranges t)) probe))"
proof (cases "reverse \<and> 0 < length foreign \<and> ex_rejected (planReverseExclusion rnd (Some (New cnRanges)) foreign maxDrop) = None")
  case True
  then have "t = ex_kept (planReverseExclusion rnd (Some (New cnRanges)) foreign maxDrop)"
    using assms(4) by (simp add: exclude_foreign_def Let_def)
  with True plan_accepts(1) [of rnd "Some (New cnRanges)" foreign maxDrop]
    plan_kept [OF New_inv [OF cn] wf top, of rnd maxDrop] containsAddr_iff
  show ?thesis by auto
next
  case False
  then have "t = New cnRanges" using assms(4) by (auto simp: exclude_foreign_def Let_def split: if_splits)
  then show ?thesis using New_inv [OF cn] by simp
qed

section \<open>The written file\<close>

lemma reserved_points: "points (List.map_filter PrefixRange NonGlobalPrefixes4) = nonglobal"
proof -
  have "\<exists>r. PrefixRange p = Some r \<and> span_of r = spansOfPrefix p" if "p \<in> set nonGlobalPrefixes" for p
    using that nonGlobalPrefixes_wf PrefixRange_span by (fastforce simp: list_all_iff)
  then have "points (List.map_filter PrefixRange ps) = excluded_points ps" if "set ps \<subseteq> set nonGlobalPrefixes" for ps
    using that by (induction ps) (fastforce simp: excluded_points_def List.map_filter_simps)+
  then show ?thesis by (simp add: nonglobal_def NonGlobalPrefixes4_def)
qed

lemma reserved_wf: "wf_ranges (List.map_filter PrefixRange NonGlobalPrefixes4)"
  using nonGlobalPrefixes_wf PrefixRange_span
  by (fastforce simp: NonGlobalPrefixes4_def List.map_filter_def list_all_iff)

lemma network_prefixes_correct:
  assumes "set_inv t"
  shows "pfxs_addrs (network_prefixes t) = {Addr4 w |w. uint w \<in> points (set_ranges t) \<or> \<not> IsGlobalAddr (Addr4 w)}"
    and "list_all canonical4 (network_prefixes t)"
proof -
  let ?rs = "set_ranges t @ List.map_filter PrefixRange NonGlobalPrefixes4"
  have wf: "wf_ranges ?rs" using assms reserved_wf by (simp add: set_inv_def normal_ranges_wf)
  have eq: "network_prefixes t = set_Prefixes (Some (New ?rs))" by (simp add: network_prefixes_def Ranges_def)
  have "points ?rs = points (set_ranges t) \<union> nonglobal" using reserved_points by simp
  then show "pfxs_addrs (network_prefixes t) = {Addr4 w |w. uint w \<in> points (set_ranges t) \<or> \<not> IsGlobalAddr (Addr4 w)}"
    unfolding eq set_Prefixes_addrs(1) [OF New_inv [OF wf]] by (simp add: IsGlobalAddr_v4)
  have "wf_ranges (set_ranges (New ?rs))" using New_inv [OF wf] by (simp add: set_inv_def normal_ranges_wf)
  from set_Prefixes_eq [OF this] prefixes_of_canonical4 [OF span_of_bounded [OF this]]
  show "list_all canonical4 (network_prefixes t)" unfolding eq by simp
qed

text \<open>The written lines are read back by the prefix reader.\<close>

lemma network_text_reads:
  assumes "list_all canonical4 ps"
  shows "ReadPrefixes (Split (CHR 0x0A) (network_text ps)) = Some ps"
proof -
  have line: "CHR 0x0A \<notin> set (pfx_String p)" "TrimSpace (pfx_String p) = pfx_String p" "data_line (pfx_String p)"
    if "p \<in> set ps" for p
    using canonical4_prints(2) [of p] assms that by (auto simp: list_all_iff entry_line_def)
  have "ReadPrefixes (map pfx_String qs @ [[]]) = Some qs" if "set qs \<subseteq> set ps" for qs
    using that
  proof (induction qs)
    case (Cons q qs)
    then have "q \<in> set ps" by simp
    then show ?case
      using Cons line [of q] canonical4_prints(1) [of q] assms by (simp add: list_all_iff data_line_def)
  qed simp
  moreover have "Split (CHR 0x0A) (network_text ps) = map pfx_String ps @ [[]]"
    using Split_lines [of "map pfx_String ps" "CHR 0x0A"] line(1) by (simp add: network_text_def comp_def)
  ultimately show ?thesis by simp
qed

lemma write_networks_ok:
  assumes "write_networks env opt t res0 d = ((res, None), d')" and "temps_ok env d0" and "visible (co_OutPath opt)"
    and "co_StatsPath opt \<noteq> co_OutPath opt"
  shows "d' (co_OutPath opt) = Some \<lparr>f_data = network_text (network_prefixes t), f_mode = 420\<rparr>"
    and "cr_Networks res = length (network_prefixes t)" and "cr_CNAddresses res = AddressCount (Some t)"
proof -
  obtain u d1 where w: "WriteAtomic env (co_OutPath opt) (network_text (network_prefixes t)) 420 d = (Inr u, d1)"
    and res: "res = res0\<lparr>cr_CNAddresses := AddressCount (Some t), cr_Networks := length (network_prefixes t)\<rparr>"
    and s: "d' = d1 \<or> (\<exists>u'. WriteAtomic env (co_StatsPath opt) (stats_text res) 420 d1 = (Inr u', d'))"
    using assms(1) by (auto simp: write_networks_def Let_def split: prod.splits sum.splits if_splits)
  show "d' (co_OutPath opt) = Some \<lparr>f_data = network_text (network_prefixes t), f_mode = 420\<rparr>"
    using WriteAtomic_done(1) [OF w] s assms(2-4)
    by (metis WriteAtomic_done(2))
qed (use assms(1) in \<open>auto simp: write_networks_def Let_def split: prod.splits sum.splits if_splits\<close>)

lemma chn_Run_cases:
  assumes "chn_Run env rnd walk opt d = ((res, None), d')"
    and rs: "rs = (if co_CNIPPath opt = [] then [] else case walk of None \<Rightarrow> [] | Some rs \<Rightarrow> rs)"
  obtains body apnic cnip foreign t excluded res0 res1 d1 where "ReadFile env (co_APNICPath opt) d = Inr body"
    and "parseAPNIC body = Some apnic" and "apnic \<noteq> []"
    and "cnip_loop (\<lambda>lo hi. co_ReverseExlude opt \<and> Overlaps (Some (New apnic)) lo hi) rs [] [] = (cnip, foreign)"
    and "cnip = [] \<or> guardOffshoreLeak cnip = None"
    and "exclude_foreign rnd (co_ReverseExlude opt) (if co_MaxDropRatio opt = 0 then 5 else co_MaxDropRatio opt)
      (apnic @ cnip) foreign res0 = (t, excluded, res1)"
    and "write_networks env opt t res1 d1 = ((res, None), d')"
proof -
  obtain body apnic where b: "ReadFile env (co_APNICPath opt) d = Inr body" "parseAPNIC body = Some apnic" "apnic \<noteq> []"
    using assms(1) by (auto simp: chn_Run_def Let_def split: sum.splits option.splits if_splits)
  let ?rel = "\<lambda>lo hi. co_ReverseExlude opt \<and> Overlaps (Some (New apnic)) lo hi"
  obtain cnip foreign where c: "cnip_loop ?rel rs [] [] = (cnip, foreign)" by fastforce
  have load: "(if co_CNIPPath opt = [] then ([], []) else case loadCNIP walk ?rel of
      None \<Rightarrow> ([], []) | Some (cn, f) \<Rightarrow> (cn, f)) = (cnip, foreign)"
    using c by (auto simp: rs loadCNIP_def split: option.splits if_splits)
  let ?res = "if cnip = [] then result_zero else result_zero\<lparr>cr_Supplemented := length (Ranges (Some (New cnip)))\<rparr>"
  obtain t excluded res1 where e: "exclude_foreign rnd (co_ReverseExlude opt)
      (if co_MaxDropRatio opt = 0 then 5 else co_MaxDropRatio opt) (apnic @ cnip) foreign ?res = (t, excluded, res1)"
    by (metis surj_pair)
  let ?d1 = "if 0 < length excluded \<and> co_ExcludedPath opt \<noteq> []
     then snd (writeExcluded env (co_ExcludedPath opt) excluded d) else d"
  have run: "chn_Run env rnd walk opt d =
      (case (if cnip = [] then None else guardOffshoreLeak cnip) of
         Some probe \<Rightarrow> ((result_zero, Some (OffshoreLeak probe)), d)
       | None \<Rightarrow> write_networks env opt t res1 ?d1)"
    unfolding chn_Run_def Let_def b sum.case option.case load prod.case e using b(3) by simp
  with assms(1) have "cnip = [] \<or> guardOffshoreLeak cnip = None" "write_networks env opt t res1 ?d1 = ((res, None), d')"
    by (auto split: option.splits if_splits)
  with that b c e show thesis by blast
qed

lemma cnip_loop_top:
  "\<lbrakk>cnip_loop relevant rs cn foreign = (cn', foreign'); \<forall>f \<in> set foreign. fs_hi f \<noteq> u32_max;
    \<forall>(p, _) \<in> set rs. \<forall>r. PrefixRange (Masked p) = Some r \<longrightarrow> Hi r \<noteq> u32_max\<rbrakk>
   \<Longrightarrow> \<forall>f \<in> set foreign'. fs_hi f \<noteq> u32_max"
proof (induction relevant rs cn foreign rule: cnip_loop.induct)
  case (2 relevant pfx ccode name rs cn foreign)
  have rs: "\<forall>(p, _) \<in> set rs. \<forall>r. PrefixRange (Masked p) = Some r \<longrightarrow> Hi r \<noteq> u32_max"
    and top: "\<forall>r. PrefixRange (Masked pfx) = Some r \<longrightarrow> Hi r \<noteq> u32_max" using "2.prems"(3) by auto
  show ?case
  proof (cases "PrefixRange (Masked pfx)")
    case None
    then show ?thesis using "2.IH"(1) "2.prems" rs by simp
  next
    case (Some sp)
    then show ?thesis using "2.IH"(2-4) "2.prems" rs top by (auto split: if_splits)
  qed
qed simp

text \<open>A run that succeeds writes a file that reads back as prefixes covering exactly the mainland addresses and
  the special purpose ones. The mainland addresses are those the registry delegates to CN together
  with those the database places there; the foreign ones among them are taken out only when that was
  asked for and every known mainland address stays. No known offshore address is in the supplement,
  and the result counts the prefixes and the mainland addresses exactly. The database has no record
  that ends at the top address.\<close>

theorem Run_networks:
  assumes "chn_Run env rnd walk opt d = ((res, None), d')" and "temps_ok env d" and "visible (co_OutPath opt)"
    and "co_StatsPath opt \<noteq> co_OutPath opt"
    and rs: "rs = (if co_CNIPPath opt = [] then [] else case walk of None \<Rightarrow> [] | Some rs \<Rightarrow> rs)"
    and top: "\<forall>(p, _) \<in> set rs. \<forall>r. PrefixRange (Masked p) = Some r \<longrightarrow> Hi r \<noteq> u32_max"
  shows "\<exists>body apnic f ps cn. ReadFile env (co_APNICPath opt) d = Inr body \<and> parseAPNIC body = Some apnic \<and>
    d' (co_OutPath opt) = Some f \<and> ReadPrefixes (Split (CHR 0x0A) (f_data f)) = Some ps \<and>
    pfxs_addrs ps = {Addr4 w |w. uint w \<in> cn \<or> \<not> IsGlobalAddr (Addr4 w)} \<and>
    cr_Networks res = length ps \<and> unat (cr_CNAddresses res) = card cn \<and>
    (cn = points apnic \<union> db_points (\<lambda>c _. c = ''CN'') rs \<or>
     co_ReverseExlude opt \<and> (\<forall>probe \<in> set mainlandProbes. probe_in cn probe) \<and>
     cn = points apnic \<union> db_points (\<lambda>c _. c = ''CN'') rs -
       db_points (\<lambda>c r. c \<noteq> ''CN'' \<and> c \<noteq> [] \<and> Overlaps (Some (New apnic)) (Lo r) (Hi r)) rs) \<and>
    (\<forall>probe \<in> set offshoreProbes. \<not> probe_in (db_points (\<lambda>c _. c = ''CN'') rs) probe)"
proof -
  obtain body apnic cnip foreign t excluded res0 res1 d1 where body: "ReadFile env (co_APNICPath opt) d = Inr body"
      "parseAPNIC body = Some apnic"
    and load: "cnip_loop (\<lambda>lo hi. co_ReverseExlude opt \<and> Overlaps (Some (New apnic)) lo hi) rs [] [] = (cnip, foreign)"
    and guard: "cnip = [] \<or> guardOffshoreLeak cnip = None"
    and ex: "exclude_foreign rnd (co_ReverseExlude opt) (if co_MaxDropRatio opt = 0 then 5 else co_MaxDropRatio opt)
      (apnic @ cnip) foreign res0 = (t, excluded, res1)"
    and w: "write_networks env opt t res1 d1 = ((res, None), d')"
    by (rule chn_Run_cases [OF assms(1) rs])
  let ?S = "db_points (\<lambda>c _. c = ''CN'') rs"
  note c = cnip_loop_correct [OF load]
  have cnip: "points cnip = ?S" "wf_ranges cnip" "wf_ranges (foreign_ranges foreign)" using c by simp_all
  have wf: "wf_ranges (apnic @ cnip)" using parseAPNIC_wf [OF body(2)] cnip(2) by simp
  have "points (foreign_ranges foreign) =
      (if co_ReverseExlude opt then db_points (\<lambda>c r. c \<noteq> ''CN'' \<and> c \<noteq> [] \<and> Overlaps (Some (New apnic)) (Lo r) (Hi r)) rs else {})"
    using c(2) by (auto simp: db_points_def split: option.splits if_splits)
  with exclude_foreign_correct [OF wf cnip(3) _ ex] cnip_loop_top [OF load _ top]
  have t: "set_inv t" "points (set_ranges t) = points apnic \<union> ?S \<or>
     co_ReverseExlude opt \<and> (\<forall>probe \<in> set mainlandProbes. probe_in (points (set_ranges t)) probe) \<and>
     points (set_ranges t) = points apnic \<union> ?S -
       db_points (\<lambda>c r. c \<noteq> ''CN'' \<and> c \<noteq> [] \<and> Overlaps (Some (New apnic)) (Lo r) (Hi r)) rs"
    by (auto simp: cnip(1))
  have "\<not> probe_in ?S probe" if "probe \<in> set offshoreProbes" for probe
  proof (cases "cnip = []")
    case True
    then show ?thesis using cnip(1) by (auto simp: probe_in_def)
  next
    case False
    then show ?thesis using guard that containsAddr_iff [OF New_inv [OF cnip(2)]]
      by (auto simp: guardOffshoreLeak_def find_None_iff cnip(1))
  qed
  with body t write_networks_ok [OF w assms(2-4)] network_text_reads [OF network_prefixes_correct(2) [OF t(1)]]
    network_prefixes_correct(1) [OF t(1)] AddressCount_card [OF t(1)]
  show ?thesis by (intro exI conjI) (assumption | simp | blast)+
qed

definition sample_apnic :: string where
  "sample_apnic = ''apnic|CN|ipv4|1.0.1.0|256|20110414|allocated'' @ [CHR 0x0A]"

definition sample_options :: chn_options where
  "sample_options = \<lparr>co_APNICPath = ''apnic'', co_CNIPPath = [], co_OutPath = ''cn.txt'', co_ExcludedPath = [], co_StatsPath = [],
     co_ReverseExlude = False, co_MaxDropRatio = 0\<rparr>"

lemma sample_apnic_parsed: "parseAPNIC sample_apnic = Some [Range 0x01000100 0x010001ff]"
  by code_simp

theorem Run_networks_witness:
  "\<exists>f ps. snd (chn_Run calm (\<lambda>x. x) None sample_options [''apnic'' \<mapsto> \<lparr>f_data = sample_apnic, f_mode = 420\<rparr>]) ''cn.txt'' = Some f \<and>
     ReadPrefixes (Split (CHR 0x0A) (f_data f)) = Some ps \<and>
     pfxs_addrs ps = {Addr4 w |w. uint w \<in> points [Range 0x01000100 0x010001ff] \<or> \<not> IsGlobalAddr (Addr4 w)}"
proof -
  let ?d = "[''apnic'' \<mapsto> \<lparr>f_data = sample_apnic, f_mode = 420\<rparr>]"
  let ?run = "chn_Run calm (\<lambda>x. x) None sample_options ?d"
  have read: "ReadFile calm ''apnic'' ?d = Inr sample_apnic" by (simp add: ReadFile_def calm_def)
  have opt: "co_APNICPath sample_options = ''apnic''" "co_CNIPPath sample_options = []" "co_StatsPath sample_options = []"
    "co_ReverseExlude sample_options = False" by (simp_all add: sample_options_def)
  obtain d1 where w: "WriteAtomic calm (co_OutPath sample_options)
      (network_text (network_prefixes (New [Range 0x01000100 0x010001ff]))) 420 ?d = (Inr (), d1)"
    by (simp add: WriteAtomic_def calm_def)
  have "snd (fst ?run) = None"
    by (simp add: chn_Run_def opt read sample_apnic_parsed exclude_foreign_def write_networks_def Let_def w)
  then have run: "?run = ((fst (fst ?run), None), snd ?run)" by (metis prod.collapse)
  have "temps_ok calm ?d" "visible (co_OutPath sample_options)" "co_StatsPath sample_options \<noteq> co_OutPath sample_options"
    using calm_ok by (auto simp: temps_ok_def calm_def sample_options_def)
  from Run_networks [OF run this refl] show ?thesis
    by (auto simp: sample_options_def read sample_apnic_parsed db_points_def)
qed

section \<open>Grouped digits\<close>

lemma group_loop_digits:
  "\<lbrakk>length rest mod 3 = 0; CHR '','' \<notin> set rest\<rbrakk> \<Longrightarrow>
   filter (\<lambda>c. c \<noteq> CHR '','') (group_loop b rest) = filter (\<lambda>c. c \<noteq> CHR '','') b @ rest"
  by (induction b rest rule: group_loop.induct) auto

lemma groupDigits_value: "filter (\<lambda>c. c \<noteq> CHR '','') (groupDigits v) = dec_digits (unat v)"
proof -
  let ?t = "dec_digits (unat v)"
  have free: "CHR '','' \<notin> set ?t" using dec_digits_digits [of "unat v"] by (auto simp: list_all_iff is_digit_def)
  then have f: "filter (\<lambda>c. c \<noteq> CHR '','') (take n ?t) = take n ?t" for n
    by (intro filter_True) (auto dest: in_set_takeD)
  have "(length ?t - length ?t mod 3) mod 3 = 0" by (simp add: minus_mod_eq_mult_div)
  then have "length (drop (length ?t mod 3) ?t) mod 3 = 0" by simp
  with group_loop_digits [of "drop (length ?t mod 3) ?t" "take (length ?t mod 3) ?t"] free f f [of "length ?t"]
  show ?thesis by (auto simp: groupDigits_def Let_def dest: in_set_dropD)
qed

end
