(* ===== verification/Pipeline.thy ===== *)
theory Pipeline
  imports Access
begin

text \<open>
  Package \<open>internal/pipeline\<close>, file \<open>pipeline.go\<close>: the steps of an update round are run in order; a step
  whose prerequisite failed is blocked, one that is not due or not chosen is skipped, and the time of the
  last success is kept in a stamp file. What a step does is its argument: from the directory, an error
  text, its output and the new directory. The messages and the time a step takes are not modelled.
\<close>

section \<open>Steps and reports\<close>

datatype step_status = StatusRan | StatusSkipped | StatusFailed | StatusBlocked

record step =
  stp_Name :: string
  stp_Label :: string
  stp_Every :: int
  stp_Needs :: "string list"
  stp_Run :: "dir \<Rightarrow> string option \<times> string \<times> dir"
  stp_Critical :: bool

record step_result =
  sx_Name :: string
  sx_Label :: string
  sx_Status :: step_status
  sx_Err :: string
  sx_Age :: int
  sx_Same :: bool

record pipe_report =
  rp_Steps :: "step_result list"
  rp_Ran :: nat
  rp_Skipped :: nat
  rp_Failed :: nat
  rp_Blocked :: nat

record pipe_options =
  pi_StateDir :: string
  pi_Only :: "string list"
  pi_Force :: bool
  pi_DryRun :: bool
  pi_Quiet :: bool

datatype steps_error = NoName | Duplicate string | NotTopological string string

datatype pipe_error =
  StampDirFailed | BadSteps steps_error | CriticalFailed string string | Cancelled | StepsFailed "string list"

definition report_Err :: "pipe_report \<Rightarrow> pipe_error option" where
  "report_Err r =
     (let names = map sx_Name (filter (\<lambda>s. sx_Status s = StatusFailed) (rp_Steps r))
      in if names = [] then None else Some (StepsFailed names))"

definition SameSteps :: "pipe_report \<Rightarrow> string list" where
  "SameSteps r = map sx_Label (filter sx_Same (rp_Steps r))"

definition tally_status :: "step_status \<Rightarrow> pipe_report \<Rightarrow> pipe_report" where
  "tally_status step_status r =
     (case step_status of
        StatusRan \<Rightarrow> r\<lparr>rp_Ran := rp_Ran r + 1\<rparr>
      | StatusSkipped \<Rightarrow> r\<lparr>rp_Skipped := rp_Skipped r + 1\<rparr>
      | StatusFailed \<Rightarrow> r\<lparr>rp_Failed := rp_Failed r + 1\<rparr>
      | StatusBlocked \<Rightarrow> r\<lparr>rp_Blocked := rp_Blocked r + 1\<rparr>)"

fun validate_loop :: "string set \<Rightarrow> step list \<Rightarrow> steps_error option" where
  "validate_loop seen [] = None"
| "validate_loop seen (step # steps) =
     (if stp_Name step = [] then Some NoName
      else if stp_Name step \<in> seen then Some (Duplicate (stp_Name step))
      else case find (\<lambda>need. need \<notin> seen) (stp_Needs step) of
        Some need \<Rightarrow> Some (NotTopological (stp_Name step) need)
      | None \<Rightarrow> validate_loop (insert (stp_Name step) seen) steps)"

definition pipe_validate :: "step list \<Rightarrow> steps_error option" where
  "pipe_validate steps = validate_loop {} steps"

definition blockedBy :: "step \<Rightarrow> string set \<Rightarrow> string" where
  "blockedBy step finished = (case find (\<lambda>need. need \<notin> finished) (stp_Needs step) of None \<Rightarrow> [] | Some need \<Rightarrow> need)"

definition selected :: "string list \<Rightarrow> string \<Rightarrow> bool" where
  "selected only name \<longleftrightarrow> only = [] \<or> list_ex (\<lambda>want. TrimSpace want = name) only"

definition StepNames :: "step list \<Rightarrow> string list" where
  "StepNames steps = sort (map stp_Name steps)"

section \<open>Stamps\<close>

text \<open>Times are nanoseconds; the zero time of Go is the first of January of the year 1. \<open>Sub\<close> saturates.\<close>

definition second :: int where "second = 1000000000"
definition zero_time :: int where "zero_time = - 62135596800 * second"

definition time_Sub :: "int \<Rightarrow> int \<Rightarrow> int" where
  "time_Sub t u = max (- (2 ^ 63)) (min (2 ^ 63 - 1) (t - u))"

definition stampDir :: "pipe_options \<Rightarrow> string" where
  "stampDir opt = pi_StateDir opt @ ''/.stamps''"

definition stamp_path :: "pipe_options \<Rightarrow> string \<Rightarrow> string" where
  "stamp_path opt name = stampDir opt @ CHR ''/'' # name"

definition readStamp :: "env \<Rightarrow> string \<Rightarrow> dir \<Rightarrow> int option" where
  "readStamp env path d =
     (case ReadFile env path d of
        Inl _ \<Rightarrow> None
      | Inr data \<Rightarrow>
          (case Atoi (TrimSpace data) of
             None \<Rightarrow> None
           | Some v \<Rightarrow> if v \<le> 0 then None else Some (v * second)))"

definition writeStamp :: "env \<Rightarrow> string \<Rightarrow> int \<Rightarrow> dir \<Rightarrow> (io_error + unit) \<times> dir" where
  "writeStamp env path now d = WriteAtomic env path (int_digits (now div second) @ [CHR 0x0A]) 420 d"

section \<open>The digest of an output\<close>

text \<open>
  \<open>digestNumber\<close>: an address with an optional prefix length, else a number. The three first groups of an
  address are whole runs of digits, the last takes at most three.
\<close>

definition digits_of :: "string \<Rightarrow> string" where "digits_of s = takeWhile is_digit s"

fun ip_groups :: "nat \<Rightarrow> string \<Rightarrow> nat option" where
  "ip_groups 0 s =
     (let n = min 3 (length (digits_of s)); rest = drop n s; m = min 2 (length (digits_of (drop 1 rest)))
      in if n = 0 then None
         else if rest \<noteq> [] \<and> hd rest = CHR ''/'' \<and> 0 < m then Some (n + 1 + m) else Some n)"
| "ip_groups (Suc k) s =
     (let n = length (digits_of s); rest = drop n s
      in if n = 0 \<or> 3 < n \<or> rest = [] \<or> hd rest \<noteq> CHR ''.'' then None
         else map_option (\<lambda>m. n + 1 + m) (ip_groups k (tl rest)))"

definition number_length :: "string \<Rightarrow> nat" where
  "number_length s =
     (let n = length (digits_of s); rest = drop n s; m = length (digits_of (drop 1 rest))
      in if rest \<noteq> [] \<and> hd rest = CHR ''.'' \<and> 0 < m then n + 1 + m else n)"

function digest_text :: "string \<Rightarrow> string" where
  "digest_text [] = []"
| "digest_text (c # s) =
     (if \<not> is_digit c then c # digest_text s
      else case ip_groups 3 (c # s) of
        Some n \<Rightarrow> take n (c # s) @ digest_text (drop (n - 1) s)
      | None \<Rightarrow> CHR ''N'' # digest_text (drop (number_length (c # s) - 1) s))"
  by pat_completeness auto
termination by (relation "measure length") auto

text \<open>\<open>sha\<close> is the hexadecimal SHA-256 of the standard library.\<close>

definition outputDigest :: "(string \<Rightarrow> string) \<Rightarrow> string \<Rightarrow> string" where
  "outputDigest sha out = sha (digest_text out)"

definition readDigest :: "env \<Rightarrow> string \<Rightarrow> dir \<Rightarrow> string" where
  "readDigest env path d = (case ReadFile env path d of Inl _ \<Rightarrow> [] | Inr data \<Rightarrow> TrimSpace data)"

section \<open>A round\<close>

definition step_verdict :: "pipe_options \<Rightarrow> int \<Rightarrow> int option \<Rightarrow> string set \<Rightarrow> step \<Rightarrow> step_status" where
  "step_verdict opt now prev finished step =
     (let age = time_Sub now (case prev of None \<Rightarrow> zero_time | Some t \<Rightarrow> t) in
      if \<not> selected (pi_Only opt) (stp_Name step) then StatusSkipped
      else if blockedBy step finished \<noteq> [] then StatusBlocked
      else if \<not> pi_Force opt \<and> prev \<noteq> None \<and> 0 < stp_Every step \<and> age < stp_Every step then StatusSkipped
      else StatusRan)"

definition blocked_text :: "string \<Rightarrow> string" where
  "blocked_text need =
     [CHR 0xE4, CHR 0xB8, CHR 0x8A, CHR 0xE6, CHR 0xB8, CHR 0xB8, CHR 0xE6, CHR 0xAD, CHR 0xA5, CHR 0xE9, CHR 0xAA, CHR 0xA4]
     @ '' '' @ need @
     '' ''
     @ [CHR 0xE6, CHR 0x9C, CHR 0xAC, CHR 0xE8, CHR 0xBD, CHR 0xAE, CHR 0xE5, CHR 0xA4, CHR 0xB1, CHR 0xE8, CHR 0xB4, CHR 0xA5, CHR 0xEF, CHR 0xBC, CHR 0x8C, CHR 0xE6, CHR 0x8C, CHR 0x89, CHR 0xE4, CHR 0xBE, CHR 0x9D, CHR 0xE8, CHR 0xB5, CHR 0x96, CHR 0xE9, CHR 0xA1, CHR 0xBA, CHR 0xE5, CHR 0xBA, CHR 0x8F, CHR 0xE8, CHR 0xB7, CHR 0xB3, CHR 0xE8, CHR 0xBF, CHR 0x87]"

definition hour_ns :: int where "hour_ns = 3600 * second"

text \<open>
  One step that is due. A quiet step writes its output to a log beside the stamp, and its digest tells
  whether it is that of the last round; a file that cannot be created is left out. There is a runtime.
\<close>

definition write_log :: "bool \<Rightarrow> string \<Rightarrow> string \<Rightarrow> dir \<Rightarrow> dir" where
  "write_log logged path out d =
     (if logged then d(path \<mapsto> \<lparr>f_data = out, f_mode = (case d path of None \<Rightarrow> 420 | Some f \<Rightarrow> f_mode f)\<rparr>) else d)"

definition note_digest :: "env \<Rightarrow> string \<Rightarrow> bool \<Rightarrow> bool \<Rightarrow> string \<Rightarrow> dir \<Rightarrow> dir" where
  "note_digest env path quiet failed digest d =
     (if \<not> quiet then d
      else if failed then (if en_remove_fails env then d else d(path := None))
      else snd (WriteAtomic env path (digest @ [CHR 0x0A]) 420 d))"

definition run_due :: "env \<Rightarrow> (string \<Rightarrow> string) \<Rightarrow> pipe_options \<Rightarrow> int \<Rightarrow> step \<Rightarrow> step_result \<Rightarrow> dir \<Rightarrow> step_result \<times> dir" where
  "run_due env sha opt now step result d =
     (let stamp = stamp_path opt (stp_Name step);
          quiet = (pi_Quiet opt \<and> stp_Every step \<le> hour_ns);
          logged = (quiet \<and> io_write (en_io env (stamp @ ''.log'')));
          (err, out, d1) = stp_Run step (write_log logged (stamp @ ''.log'') [] d);
          d2 = write_log logged (stamp @ ''.log'') out d1;
          digest = outputDigest sha out;
          same = (quiet \<and> err = None \<and> readDigest env (stamp @ ''.digest'') d2 = digest);
          d3 = note_digest env (stamp @ ''.digest'') quiet (err \<noteq> None) digest d2
      in case err of
           Some e \<Rightarrow> (result\<lparr>sx_Status := StatusFailed, sx_Err := e, sx_Same := same\<rparr>, d3)
         | None \<Rightarrow> (result\<lparr>sx_Status := StatusRan, sx_Same := same\<rparr>, snd (writeStamp env stamp now d3)))"

text \<open>What happens to one step: its entry in the report and the directory.\<close>

definition take_step ::
  "env \<Rightarrow> (string \<Rightarrow> string) \<Rightarrow> pipe_options \<Rightarrow> int \<Rightarrow> string set \<Rightarrow> step \<Rightarrow> dir \<Rightarrow> step_result \<times> dir" where
  "take_step env sha opt now finished step d =
     (let prev = readStamp env (stamp_path opt (stp_Name step)) d;
          verdict = step_verdict opt now prev finished step;
          result = \<lparr>sx_Name = stp_Name step, sx_Label = stp_Label step, sx_Status = verdict,
            sx_Err = (if verdict = StatusBlocked then blocked_text (blockedBy step finished) else []),
            sx_Age = time_Sub now (case prev of None \<Rightarrow> zero_time | Some t \<Rightarrow> t), sx_Same = False\<rparr>
      in if verdict \<noteq> StatusRan then (result, d)
         else if pi_DryRun opt then (result\<lparr>sx_Status := StatusSkipped\<rparr>, d)
         else run_due env sha opt now step result d)"

definition note_result :: "step_result \<Rightarrow> pipe_report \<Rightarrow> pipe_report" where
  "note_result r report = tally_status (sx_Status r) (report\<lparr>rp_Steps := rp_Steps report @ [r]\<rparr>)"

text \<open>The names that count as done: a step that ran or was skipped.\<close>

definition fin_after :: "step_result \<Rightarrow> string \<Rightarrow> string set \<Rightarrow> string set" where
  "fin_after r name finished = (if sx_Status r \<in> {StatusRan, StatusSkipped} then insert name finished else finished)"

text \<open>\<open>cancelled\<close> tells of each step whether the context is cancelled when it has run.\<close>

fun run_steps ::
  "env \<Rightarrow> (string \<Rightarrow> string) \<Rightarrow> (string \<Rightarrow> bool) \<Rightarrow> pipe_options \<Rightarrow> int \<Rightarrow> step list \<Rightarrow> string set \<Rightarrow> pipe_report \<Rightarrow> dir \<Rightarrow>
    (pipe_report \<times> pipe_error option) \<times> dir" where
  "run_steps env sha cancelled opt now [] finished report d = ((report, report_Err report), d)"
| "run_steps env sha cancelled opt now (step # steps) finished report d =
     (let due = (step_verdict opt now (readStamp env (stamp_path opt (stp_Name step)) d) finished step = StatusRan \<and> \<not> pi_DryRun opt);
          (result, d1) = take_step env sha opt now finished step d;
          report1 = note_result result report
      in if sx_Status result = StatusFailed \<and> stp_Critical step then
           ((report1, Some (CriticalFailed (stp_Name step) (sx_Err result))), d1)
         else if due \<and> cancelled (stp_Name step) then ((report1, Some Cancelled), d1)
         else run_steps env sha cancelled opt now steps
           (fin_after result (stp_Name step) finished) report1 d1)"

definition pipe_report_zero :: pipe_report where
  "pipe_report_zero = \<lparr>rp_Steps = [], rp_Ran = 0, rp_Skipped = 0, rp_Failed = 0, rp_Blocked = 0\<rparr>"

definition pipe_Run ::
  "env \<Rightarrow> (string \<Rightarrow> string) \<Rightarrow> (string \<Rightarrow> bool) \<Rightarrow> pipe_options \<Rightarrow> int \<Rightarrow> step list \<Rightarrow> dir \<Rightarrow>
    (pipe_report \<times> pipe_error option) \<times> dir" where
  "pipe_Run env sha cancelled opt now steps d =
     (if \<not> io_mkdir (en_io env (stampDir opt)) then ((pipe_report_zero, Some StampDirFailed), d)
      else case pipe_validate steps of
        Some e \<Rightarrow> ((pipe_report_zero, Some (BadSteps e)), d)
      | None \<Rightarrow> run_steps env sha cancelled opt now steps {} pipe_report_zero d)"

end
