(* ===== verification/Config.thy ===== *)
theory Config
  imports Access_Facts
begin

text \<open>
  Package \<open>config\<close>: the settings file, lines \<open>KEY=value\<close>, read by every command (\<open>env.go\<close>) and edited
  in place (\<open>upsert.go\<close>). Reading back an edited file gives the old settings with the new ones.
\<close>

section \<open>Reading\<close>

definition config_DefaultPath :: string where
  "config_DefaultPath = ''/etc/dns-stack/config.env''"

definition unquote :: "string \<Rightarrow> string" where
  "unquote v =
     (if 2 \<le> length v \<and> (hd v = CHR 0x22 \<or> hd v = CHR 0x27) \<and> last v = hd v
      then take (length v - 2) (drop 1 v) else v)"

definition config_line :: "string \<Rightarrow> (string \<times> string) option" where
  "config_line raw =
     (let line = TrimSpace raw in
      if line = [] \<or> HasPrefix line ''#'' then None
      else case Cut (CHR ''='') line of
        None \<Rightarrow> None
      | Some (key, v) \<Rightarrow> if TrimSpace key = [] then None else Some (TrimSpace key, unquote (TrimSpace v)))"

text \<open>The pairs that \<open>each\<close> visits, in the order of the lines; a file that cannot be read has none.\<close>

definition each :: "env \<Rightarrow> string \<Rightarrow> dir \<Rightarrow> (string \<times> string) list" where
  "each env path0 d =
     (let path = (if path0 = [] then config_DefaultPath else path0) in
      case ReadFile env path d of
        Inl _ \<Rightarrow> []
      | Inr body \<Rightarrow> List.map_filter config_line (Split (CHR 0x0A) body))"

definition config_Read :: "env \<Rightarrow> string \<Rightarrow> dir \<Rightarrow> (string \<rightharpoonup> string)" where
  "config_Read env path d = fold (\<lambda>(key, v) out. out(key \<mapsto> v)) (each env path d) Map.empty"

definition ReadKeys :: "env \<Rightarrow> string \<Rightarrow> string list \<Rightarrow> dir \<Rightarrow> (string \<rightharpoonup> string)" where
  "ReadKeys env path keys d =
     fold (\<lambda>(key, v) out. if key \<in> set keys then out(key \<mapsto> v) else out) (each env path d) Map.empty"

definition config_Value :: "env \<Rightarrow> string \<Rightarrow> string \<Rightarrow> dir \<Rightarrow> string" where
  "config_Value env path key d = (case ReadKeys env path [key] d key of None \<Rightarrow> [] | Some v \<Rightarrow> v)"

section \<open>Editing\<close>

text \<open>The values to set, an association list with distinct keys.\<close>

definition upsert_line :: "(string \<times> string) list \<Rightarrow> string \<Rightarrow> string \<times> string option" where
  "upsert_line vals line =
     (case Cut (CHR ''='') (TrimSpace line) of
        None \<Rightarrow> (line, None)
      | Some (k, _) \<Rightarrow>
          let key = TrimSpace k in
          (case map_of vals key of
             None \<Rightarrow> (line, None)
           | Some v \<Rightarrow> if HasPrefix key ''#'' then (line, None) else (key @ ''='' @ v, Some key)))"

definition upsert_body :: "(string \<times> string) list \<Rightarrow> string \<Rightarrow> string" where
  "upsert_body vals body =
     (let ls = map (upsert_line vals) (Split (CHR 0x0A) (TrimRight (CHR 0x0A) body));
          done = List.map_filter snd ls;
          missing = sort (filter (\<lambda>k. k \<notin> set done) (map fst vals))
      in Join (CHR 0x0A) (map fst ls @ map (\<lambda>k. k @ ''='' @ the (map_of vals k)) missing) @ [CHR 0x0A])"

definition Upsert :: "env \<Rightarrow> string \<Rightarrow> (string \<times> string) list \<Rightarrow> dir \<Rightarrow> (io_error + unit) \<times> dir" where
  "Upsert env path vals d =
     (case ReadFile env path d of
        Inl e \<Rightarrow> (Inl e, d)
      | Inr body \<Rightarrow>
          WriteAtomic env path (upsert_body vals body) (case d path of None \<Rightarrow> 416 | Some f \<Rightarrow> f_mode f) d)"

section \<open>The lines of an edited file\<close>

definition wf_key :: "string \<Rightarrow> bool" where
  "wf_key k \<longleftrightarrow> k \<noteq> [] \<and> printable (hd k) \<and> hd k \<noteq> CHR ''#'' \<and> TrimSpace k = k \<and> CHR ''='' \<notin> set k \<and> CHR 0x0A \<notin> set k"

definition wf_value :: "string \<Rightarrow> bool" where
  "wf_value v \<longleftrightarrow> TrimSpace v = v \<and> unquote v = v \<and> CHR 0x0A \<notin> set v"

lemma config_line_setting:
  assumes "wf_key k" and "wf_value v"
  shows "config_line (k @ CHR ''='' # v) = Some (k, v)"
proof -
  obtain c cs where k: "k = c # cs" "printable c" "c \<noteq> CHR ''#''" using assms(1) by (cases k) (auto simp: wf_key_def)
  have "TrimSpace (k @ CHR ''='' # v) = k @ CHR ''='' # v"
    using TrimSpace_append [of c "CHR ''=''" v cs] k assms(2) by (simp add: wf_value_def)
  moreover have "Cut (CHR ''='') (k @ CHR ''='' # v) = Some (k, v)"
    using assms(1) by (simp add: Cut_eq_Some wf_key_def)
  ultimately show ?thesis using assms k by (simp add: config_line_def Let_def wf_key_def wf_value_def)
qed

lemma trim_right_rev_suffix: "suffix (trim_right_rev s) s"
proof (induction s rule: trim_right_rev.induct)
  case (2 c cs)
  have "suffix (drop n cs) (c # cs)" for n by (rule suffix_ConsI) (rule suffix_drop)
  with 2 show ?case by (auto simp: Let_def intro: suffix_order.trans)
qed simp

lemma TrimSpace_hash:
  assumes "TrimSpace k = s" and "s \<noteq> []" and "k \<noteq> []" and "hd k = CHR ''#''"
  shows "hd s = CHR ''#''"
proof -
  obtain t where t: "k = CHR ''#'' # t" using assms(3,4) by (cases k) auto
  then have "s = rev (trim_right_rev (rev k))"
    using assms(1) by (simp add: TrimSpace_def front_space_printable)
  then have "prefix s k"
    using trim_right_rev_suffix [of "rev k"] by (metis rev_rev_ident suffix_to_prefix)
  with assms(2,4) show ?thesis by (auto simp: prefix_def)
qed

section \<open>Reading back an edited file\<close>

lemma upsert_line_config:
  assumes "\<forall>(k, v) \<in> set vals. wf_key k \<and> wf_value v"
  shows "config_line (fst (upsert_line vals line)) =
      map_option (\<lambda>(k, v). (k, case map_of vals k of None \<Rightarrow> v | Some v' \<Rightarrow> v')) (config_line line) \<and>
    (snd (upsert_line vals line) = Some k \<longleftrightarrow> k \<in> dom (map_of vals) \<and> (\<exists>v. config_line line = Some (k, v)))"
proof -
  have wf: "wf_key k \<and> wf_value v" if "map_of vals k = Some v" for k v
    using assms map_of_SomeD [OF that] by blast
  have hash: "HasPrefix (TrimSpace line) ''#'' \<longleftrightarrow> HasPrefix (TrimSpace k) ''#''"
    if "Cut (CHR ''='') (TrimSpace line) = Some (k, v)" "wf_key (TrimSpace k)" for k v
  proof -
    have "TrimSpace line = k @ CHR ''='' # v" using that(1) by (simp add: Cut_eq_Some)
    moreover have "k \<noteq> []" using that(2) by (auto simp: wf_key_def)
    moreover have "TrimSpace k \<noteq> []" "hd (TrimSpace k) \<noteq> CHR ''#''" using that(2) by (auto simp: wf_key_def)
    ultimately show ?thesis using TrimSpace_hash [of k] by (cases k; cases "TrimSpace k") auto
  qed
    consider (no) "Cut (CHR ''='') (TrimSpace line) = None"
      | (new) a b where "Cut (CHR ''='') (TrimSpace line) = Some (a, b)" "map_of vals (TrimSpace a) = None"
      | (set) a b v where "Cut (CHR ''='') (TrimSpace line) = Some (a, b)" "map_of vals (TrimSpace a) = Some v"
      by (metis option.exhaust surj_pair)
    then show ?thesis
    proof cases
      case no
      then show ?thesis by (simp add: upsert_line_def config_line_def Let_def)
    next
      case new
      then show ?thesis by (auto simp: upsert_line_def config_line_def Let_def)
    next
      case set
      then have w: "wf_key (TrimSpace a)" "wf_value v" using wf by auto
      then have n: "TrimSpace a \<noteq> []" "\<not> HasPrefix (TrimSpace a) ''#''" by (auto simp: wf_key_def prefix_def)
      then have u: "upsert_line vals line = (TrimSpace a @ CHR ''='' # v, Some (TrimSpace a))"
        using set by (simp add: upsert_line_def Let_def)
      have "config_line line = Some (TrimSpace a, unquote (TrimSpace b))"
        using set hash [OF set(1) w(1)] n by (auto simp: config_line_def Let_def Cut_def split: if_splits)
      then show ?thesis using u config_line_setting [OF w] set by auto
    qed
qed

definition settings :: "string \<Rightarrow> (string \<times> string) list" where
  "settings body = List.map_filter config_line (Split (CHR 0x0A) body)"

lemma map_filter_append: "List.map_filter f (xs @ ys) = List.map_filter f xs @ List.map_filter f ys"
  by (simp add: List.map_filter_def)

lemma config_line_Nil [simp]: "config_line [] = None"
  by (simp add: config_line_def)

lemma fold_upd_eq: "fold (\<lambda>(k, v) m. m(k \<mapsto> v)) xs m = m ++ map_of (rev xs)"
  by (induction xs arbitrary: m) (auto simp: map_add_def fun_eq_iff split: option.splits)

lemma config_Read_eq:
  assumes "path \<noteq> []"
  shows "config_Read env path d = (case ReadFile env path d of Inl _ \<Rightarrow> Map.empty | Inr body \<Rightarrow> map_of (rev (settings body)))"
  using assms by (simp add: config_Read_def each_def settings_def fold_upd_eq Let_def split: sum.splits)

lemma settings_TrimRight: "settings (TrimRight (CHR 0x0A) body) = settings body"
proof -
  let ?s = "TrimRight (CHR 0x0A) body"
  have blank: "List.map_filter config_line (Split (CHR 0x0A) (replicate n (CHR 0x0A))) = []" for n
    by (induction n) (simp_all add: List.map_filter_simps)
  have pad: "settings (s @ replicate n (CHR 0x0A)) = settings s" for s n
    by (cases n) (simp_all add: settings_def Split_append_sep map_filter_append blank)
  have "takeWhile (\<lambda>x. x = CHR 0x0A) (rev body) = replicate (length (takeWhile (\<lambda>x. x = CHR 0x0A) (rev body))) (CHR 0x0A)"
    by (rule replicate_length_same [symmetric]) (auto dest: set_takeWhileD)
  then have "rev body = replicate (length (takeWhile (\<lambda>x. x = CHR 0x0A) (rev body))) (CHR 0x0A) @ dropWhile (\<lambda>x. x = CHR 0x0A) (rev body)"
    by (metis takeWhile_dropWhile_id)
  then have "body = ?s @ replicate (length (takeWhile (\<lambda>x. x = CHR 0x0A) (rev body))) (CHR 0x0A)"
    by (metis TrimRight_def rev_append rev_replicate rev_rev_ident)
  then show ?thesis using pad by metis
qed

lemma upsert_body_settings:
  assumes "\<forall>(k, v) \<in> set vals. wf_key k \<and> wf_value v"
  shows "settings (upsert_body vals body) =
    map (\<lambda>(k, v). (k, case map_of vals k of None \<Rightarrow> v | Some v' \<Rightarrow> v')) (settings body) @
    map (\<lambda>k. (k, the (map_of vals k))) (sort (filter (\<lambda>k. k \<notin> fst ` set (settings body)) (map fst vals)))"
proof -
  let ?raw = "Split (CHR 0x0A) (TrimRight (CHR 0x0A) body)"
  let ?ls = "map (upsert_line vals) ?raw"
  let ?new = "\<lambda>k. k @ ''='' @ the (map_of vals k)"
  let ?missing = "sort (filter (\<lambda>k. k \<notin> set (List.map_filter snd ?ls)) (map fst vals))"
  let ?missing' = "sort (filter (\<lambda>k. k \<notin> fst ` set (settings body)) (map fst vals))"
  have raw: "settings body = List.map_filter config_line ?raw"
    by (metis settings_def settings_TrimRight)
  have wf: "wf_key k \<and> wf_value (the (map_of vals k))" if "k \<in> fst ` set vals" for k
  proof -
    have "k \<in> dom (map_of vals)" using that by (simp add: dom_map_of_conv_image_fst)
    then obtain v where v: "map_of vals k = Some v" by blast
    then have "(k, v) \<in> set vals" by (rule map_of_SomeD)
    with assms v show ?thesis by auto
  qed
  have old: "List.map_filter config_line (map fst ?ls) =
      map (\<lambda>(k, v). (k, case map_of vals k of None \<Rightarrow> v | Some v' \<Rightarrow> v')) (List.map_filter config_line ls)"
    if "?ls = map (upsert_line vals) ls" "ls = ?raw" for ls
  proof -
    have "List.map_filter config_line (map fst (map (upsert_line vals) ls)) =
      map (\<lambda>(k, v). (k, case map_of vals k of None \<Rightarrow> v | Some v' \<Rightarrow> v')) (List.map_filter config_line ls)" for ls
      using upsert_line_config [OF assms] by (induction ls) (auto simp: List.map_filter_simps split: option.splits)
    then show ?thesis using that by metis
  qed
  have "k \<in> set (List.map_filter snd ?ls) \<longleftrightarrow> k \<in> fst ` set (settings body)" if "k \<in> set (map fst vals)" for k
  proof -
    have "k \<in> set (List.map_filter snd ?ls) \<longleftrightarrow> (\<exists>l \<in> set ?raw. snd (upsert_line vals l) = Some k)"
      by (force simp: List.map_filter_def)
    also have "\<dots> \<longleftrightarrow> (\<exists>l \<in> set ?raw. \<exists>v. config_line l = Some (k, v))"
      using upsert_line_config [OF assms, of _ k] that by (auto simp: dom_map_of_conv_image_fst)
    finally show ?thesis by (force simp: raw List.map_filter_def)
  qed
  then have "filter (\<lambda>k. k \<notin> set (List.map_filter snd ?ls)) (map fst vals) =
      filter (\<lambda>k. k \<notin> fst ` set (settings body)) (map fst vals)"
    by (intro filter_cong) blast+
  then have missing: "?missing = ?missing'" by (rule arg_cong)
  have free: "\<forall>w \<in> set (map fst ?ls @ map ?new ?missing'). CHR 0x0A \<notin> set w"
  proof -
    have "CHR 0x0A \<notin> set (fst (upsert_line vals l))" if "l \<in> set ?raw" for l
    proof (cases "snd (upsert_line vals l)")
      case None
      then have "fst (upsert_line vals l) = l"
        by (auto simp: upsert_line_def Let_def split: option.splits prod.splits if_splits)
      with Split_sep_free [OF that] show ?thesis by simp
    next
      case (Some k)
      then have "fst (upsert_line vals l) = ?new k" "k \<in> dom (map_of vals)"
        by (auto simp: upsert_line_def Let_def split: option.splits prod.splits if_splits)
      then show ?thesis using wf [of k] by (auto simp: wf_key_def wf_value_def dom_map_of_conv_image_fst)
    qed
    moreover have "CHR 0x0A \<notin> set (?new k)" if "k \<in> set ?missing'" for k
      using wf [of k] that by (auto simp: wf_key_def wf_value_def)
    ultimately have "\<forall>w \<in> set (map fst ?ls). CHR 0x0A \<notin> set w" "\<forall>w \<in> set (map ?new ?missing'). CHR 0x0A \<notin> set w"
      by (auto simp only: set_map ball_simps(9))
    then show ?thesis unfolding set_append by blast
  qed
  have "Split (CHR 0x0A) (upsert_body vals body) = (map fst ?ls @ map ?new ?missing') @ [[]]"
    unfolding upsert_body_def Let_def missing
    using Split_Join [OF _ free] by (simp add: Split_append_sep)
  moreover have "List.map_filter config_line (map ?new ks) = map (\<lambda>k. (k, the (map_of vals k))) ks"
    if "set ks \<subseteq> fst ` set vals" for ks
    using that wf config_line_setting by (induction ks) (auto simp: List.map_filter_simps)
  ultimately show ?thesis using old [OF refl refl]
    by (simp add: settings_def [of "upsert_body vals body"] map_filter_append raw List.map_filter_simps image_subset_iff subset_iff)
qed

lemma map_of_rev_const:
  assumes "k \<in> fst ` set xs" and "\<And>x. (k, x) \<in> set xs \<Longrightarrow> x = v"
  shows "map_of (rev xs) k = Some v"
proof -
  have "k \<in> dom (map_of (rev xs))" using assms(1) by (simp add: dom_map_of_conv_image_fst)
  then obtain x where "map_of (rev xs) k = Some x" by blast
  moreover from this have "x = v" using assms(2) map_of_SomeD by fastforce
  ultimately show ?thesis by simp
qed

lemma upsert_body_map:
  assumes "\<forall>(k, v) \<in> set vals. wf_key k \<and> wf_value v"
  shows "map_of (rev (settings (upsert_body vals body))) = map_of (rev (settings body)) ++ map_of vals"
proof
  fix k
  let ?f = "\<lambda>k v. case map_of vals k of None \<Rightarrow> v | Some v' \<Rightarrow> v'"
  let ?kvs = "map (\<lambda>(k, v). (k, ?f k v)) (settings body)"
  let ?m = "map (\<lambda>k. (k, the (map_of vals k))) (sort (filter (\<lambda>k. k \<notin> fst ` set (settings body)) (map fst vals)))"
  show "map_of (rev (settings (upsert_body vals body))) k = (map_of (rev (settings body)) ++ map_of vals) k"
  proof (cases "map_of vals k")
    case None
    then have "k \<notin> fst ` set vals" by (simp add: map_of_eq_None_iff)
    then have "k \<notin> fst ` set ?m" by (force simp: image_iff)
    then have "map_of (rev ?m) k = None" by (simp add: map_of_eq_None_iff)
    moreover have "map_of (map (\<lambda>(k, v). (k, ?f k v)) xs) k = map_of xs k" for xs
      using None by (induction xs) auto
    then have "map_of (rev ?kvs) k = map_of (rev (settings body)) k" by (simp add: rev_map)
    ultimately show ?thesis using None
      by (simp add: upsert_body_settings [OF assms] map_add_def)
  next
    case (Some v)
    have "k \<in> fst ` set vals" using Some map_of_eq_None_iff [of vals k] by simp
    moreover have kvs: "fst ` set ?kvs = fst ` set (settings body)" by (simp add: image_image split_beta)
    moreover have m: "fst ` set ?m = {k \<in> fst ` set vals. k \<notin> fst ` set (settings body)}" by (simp add: image_image)
    ultimately have "k \<in> fst ` set (?kvs @ ?m)" by (simp only: set_append image_Un Un_iff kvs m mem_Collect_eq simp_thms)
    moreover have "x = v" if "(k, x) \<in> set (?kvs @ ?m)" for x using that Some by auto
    ultimately have "map_of (rev (?kvs @ ?m)) k = Some v" by (rule map_of_rev_const)
    with Some show ?thesis unfolding upsert_body_settings [OF assms] by simp
  qed
qed

text \<open>C17: Editing the settings file and reading it back gives the old settings overridden by the new ones:
  every other key keeps its value, whatever the comments, blank lines and repeated keys of the file.
  The keys and values are ones the file format can hold: no line end, nothing to trim or unquote.\<close>

theorem Upsert_Read:
  assumes "temps_ok env d" and "visible path" and "path \<noteq> []"
    and "\<forall>(k, v) \<in> set vals. wf_key k \<and> wf_value v"
    and "Upsert env path vals d = (Inr u, d')" and "\<not> en_read_fails env' path"
  shows "config_Read env' path d' = config_Read env path d ++ map_of vals \<and> (\<forall>p. p \<noteq> path \<longrightarrow> d' p = d p)"
proof -
  obtain body where body: "ReadFile env path d = Inr body"
    and w: "WriteAtomic env path (upsert_body vals body) (case d path of None \<Rightarrow> 416 | Some f \<Rightarrow> f_mode f) d = (Inr u, d')"
    using assms(5) by (auto simp: Upsert_def split: sum.splits)
  let ?m = "case d path of None \<Rightarrow> 416 | Some f \<Rightarrow> f_mode f"
  have "write_op env path (upsert_body vals body) ?m d = (Inr u, d')" using w by (simp add: write_op_def)
  from write_op_Inr [OF this assms(1,2)]
  have d': "d' = d(path \<mapsto> \<lparr>f_data = upsert_body vals body, f_mode = ?m\<rparr>)" .
  then have "ReadFile env' path d' = Inr (upsert_body vals body)" using assms(6) by (simp add: ReadFile_def)
  then show ?thesis
    using body d' upsert_body_map [OF assms(4)] by (simp add: config_Read_eq [OF assms(3)])
qed

theorem Upsert_Read_witness:
  "config_Read calm ''config.env'' (snd (Upsert calm ''config.env'' [(''MODE'', ''fast'')]
     [''config.env'' \<mapsto> \<lparr>f_data = ''MODE=slow'', f_mode = 416\<rparr>])) ''MODE'' = Some ''fast''"
proof -
  let ?d = "[''config.env'' \<mapsto> \<lparr>f_data = ''MODE=slow'', f_mode = 416\<rparr>]"
  let ?u = "Upsert calm ''config.env'' [(''MODE'', ''fast'')] ?d"
  have "temps_ok calm ?d" using calm_ok by (auto simp: temps_ok_def calm_def)
  moreover have "wf_key ''MODE''" "wf_value ''fast''"
    using TrimSpace_id [of "''MODE''"] TrimSpace_id [of "''fast''"] by (simp_all add: wf_key_def wf_value_def unquote_def)
  moreover have "?u = (Inr (), snd ?u)" by (simp add: Upsert_def ReadFile_def WriteAtomic_def calm_def Let_def)
  ultimately show ?thesis
    using Upsert_Read [of calm ?d "''config.env''" "[(''MODE'', ''fast'')]" "()" "snd ?u" calm] by (simp add: calm_def)
qed

end
