(* ===== verification/Nft.thy ===== *)
theory Nft
  imports Pipeline Config Bufio
begin

text \<open>
  Package \<open>internal/pipeline\<close>, files \<open>runtime.go\<close>, \<open>nft.go\<close> and \<open>acl.go\<close>: the settings of a round, the scripts
  that fill the sets of the packet filter, what is read back from its listings, and the access list at
  the door. A command of the system is an argument: from its words and the state of the host, what it
  prints, whether it succeeds, and the state after it; \<open>load\<close> is the loading of a script by nft.
  Paths are joined by a slash: the state directory is one that \<open>filepath.Clean\<close> leaves as it is.
\<close>

type_synonym 'w run = "string list \<Rightarrow> 'w \<Rightarrow> (string \<times> bool) \<times> 'w"
type_synonym 'w load = "string \<Rightarrow> 'w \<Rightarrow> bool \<times> 'w"

section \<open>Settings\<close>

record pipe_config =
  pc_StateDir :: string
  pc_ConfigFile :: string
  pc_TunnelIf :: string
  pc_TunnelAddr :: string
  pc_NFTTable :: string
  pc_DirectSet :: string
  pc_AuthoritySet :: string
  pc_UnboundCtl :: string
  pc_Resolver :: string
  pc_ResolverPort :: int
  pc_ECSConfPath :: string
  pc_Aggregate :: int
  pc_APNICURL :: string
  pc_values :: "string \<rightharpoonup> string"

definition value_of :: "(string \<rightharpoonup> string) \<Rightarrow> string \<Rightarrow> string" where
  "value_of values key = (case values key of None \<Rightarrow> [] | Some v \<Rightarrow> v)"

fun pick :: "string list \<Rightarrow> string" where
  "pick [] = []"
| "pick (value # values) = (if TrimSpace value \<noteq> [] then TrimSpace value else pick values)"

definition TunnelIf :: string where "TunnelIf = ''wg0''"
definition CNTunnelIP :: string where "CNTunnelIP = ''10.100.0.2''"
definition HKTunnelIP :: string where "HKTunnelIP = ''10.100.0.3''"
definition TunnelCIDR :: string where "TunnelCIDR = ''10.100.0.0/24''"
definition UnboundPort :: int where "UnboundPort = 5335"

definition LoadConfig :: "env \<Rightarrow> string \<Rightarrow> string \<Rightarrow> dir \<Rightarrow> pipe_config" where
  "LoadConfig env stateDir configFile d =
     (let path = (if configFile = [] then ''/etc/dns-stack/config.env'' else configFile);
          values = config_Read env path d
      in \<lparr>pc_StateDir = (if stateDir = [] then ''/var/lib/dns-stack'' else stateDir), pc_ConfigFile = path,
          pc_TunnelIf = TunnelIf, pc_TunnelAddr = CNTunnelIP,
          pc_NFTTable = pick [value_of values ''NFT_TABLE'', ''dns_route''],
          pc_DirectSet = ''direct4'', pc_AuthoritySet = ''cn_authority'', pc_UnboundCtl = ''unbound-control'',
          pc_Resolver = ''127.0.0.1'', pc_ResolverPort = UnboundPort,
          pc_ECSConfPath = ''/etc/unbound/unbound.conf.d/dns-stack-ecs.conf'',
          pc_Aggregate = (case Atoi (value_of values ''CN_AUTHORITY_AGGREGATE'') of
             None \<Rightarrow> 24 | Some n \<Rightarrow> if 0 \<le> n \<and> n \<le> 32 then n else 24),
          pc_APNICURL = pick [value_of values ''APNIC_URL'', ''https://ftp.apnic.net/apnic/stats/apnic/delegated-apnic-latest''],
          pc_values = values\<rparr>)"

definition cfg_Value :: "pipe_config \<Rightarrow> string \<Rightarrow> string" where
  "cfg_Value c key = value_of (pc_values c) key"

definition cfg_Int :: "pipe_config \<Rightarrow> string \<Rightarrow> int \<Rightarrow> int" where
  "cfg_Int c key fallback =
     (case Atoi (TrimSpace (cfg_Value c key)) of None \<Rightarrow> fallback | Some n \<Rightarrow> if 0 < n then n else fallback)"

definition cfg_Duration :: "pipe_config \<Rightarrow> string \<Rightarrow> int \<Rightarrow> int" where
  "cfg_Duration c key fallback =
     (case Atoi (TrimSpace (cfg_Value c key)) of None \<Rightarrow> fallback | Some n \<Rightarrow> if 0 < n then go_int (n * second) else fallback)"

definition cfg_Path :: "pipe_config \<Rightarrow> string \<Rightarrow> string" where
  "cfg_Path c name = pc_StateDir c @ CHR ''/'' # name"

definition cfg_Chnroute :: "pipe_config \<Rightarrow> string \<Rightarrow> string" where
  "cfg_Chnroute c name = cfg_Path c (''chnroute/'' @ name)"

section \<open>Scripts\<close>

definition nftChunk :: nat where "nftChunk = 1000"

function chunks :: "'a list \<Rightarrow> 'a list list" where
  "chunks [] = []"
| "chunks (x # xs) = take nftChunk (x # xs) # chunks (drop nftChunk (x # xs))"
  by pat_completeness auto
termination by (relation "measure length") (auto simp: nftChunk_def)

fun join_with :: "string \<Rightarrow> string list \<Rightarrow> string" where
  "join_with sep [] = []"
| "join_with sep [w] = w"
| "join_with sep (w # v # ws) = w @ sep @ join_with sep (v # ws)"

definition line :: "string list \<Rightarrow> string" where
  "line words = concat words @ [CHR 0x0A]"

definition add_elements :: "string \<Rightarrow> string \<Rightarrow> string list \<Rightarrow> string" where
  "add_elements table name elems =
     concat (map (\<lambda>es. line [''add element inet '', table, '' '', name, '' { '', join_with '', '' es, '' }'']) (chunks elems))"

definition renderSetScript :: "string \<Rightarrow> string \<Rightarrow> string list \<Rightarrow> string" where
  "renderSetScript table name elems =
     line [''add table inet '', table] @
     line [''add set inet '', table, '' '', name, '' { type ipv4_addr; flags interval; auto-merge; }''] @
     line [''flush set inet '', table, '' '', name] @
     add_elements table name elems"

definition LoadNFTSet :: "'w load \<Rightarrow> pipe_config \<Rightarrow> string \<Rightarrow> prefix list \<Rightarrow> 'w \<Rightarrow> bool \<times> 'w" where
  "LoadNFTSet load c name pfxs w = load (renderSetScript (pc_NFTTable c) name (map pfx_String pfxs)) w"

section \<open>Listings\<close>

text \<open>\<open>nftEntry\<close>: four runs of digits with dots between them, anywhere in the text.\<close>

fun dotted :: "nat \<Rightarrow> string \<Rightarrow> bool" where
  "dotted 0 s \<longleftrightarrow> digits_of s \<noteq> []"
| "dotted (Suc k) s \<longleftrightarrow>
     (let rest = dropWhile is_digit s
      in digits_of s \<noteq> [] \<and> rest \<noteq> [] \<and> hd rest = CHR ''.'' \<and> dotted k (tl rest))"

fun nftEntry :: "string \<Rightarrow> bool" where
  "nftEntry [] \<longleftrightarrow> False"
| "nftEntry (c # s) \<longleftrightarrow> dotted 3 (c # s) \<or> nftEntry s"

definition countNFTElements :: "string \<Rightarrow> nat" where
  "countNFTElements text = length (filter nftEntry (Split (CHR '','') text))"

definition NFTSetCount :: "'w run \<Rightarrow> pipe_config \<Rightarrow> string \<Rightarrow> 'w \<Rightarrow> nat \<times> 'w" where
  "NFTSetCount run c name w =
     (let ((out, ok), w1) = run [''nft'', ''list'', ''set'', ''inet'', pc_NFTTable c, name] w
      in (if ok then countNFTElements out else 0, w1))"

record block_state =
  bl_blocks :: "string \<rightharpoonup> string"
  bl_name :: string
  bl_body :: string
  bl_depth :: int

definition occurrences :: "char \<Rightarrow> string \<Rightarrow> int" where
  "occurrences c s = int (length (filter (\<lambda>x. x = c) s))"

definition block_line :: "string \<Rightarrow> block_state \<Rightarrow> block_state" where
  "block_line text st =
     (let trimmed = TrimSpace text; fields = Fields trimmed;
          opens = (bl_depth st = 1 \<and> HasSuffix trimmed ''{'' \<and> length fields = 3 \<and> fields ! 0 \<in> {''set'', ''chain''});
          st1 = (if opens then st\<lparr>bl_name := fields ! 0 @ '' '' @ fields ! 1, bl_body := []\<rparr> else st);
          st2 = st1\<lparr>bl_depth := bl_depth st1 + occurrences (CHR ''{'') text - occurrences (CHR ''}'') text\<rparr>
      in if bl_name st2 = [] then st2
         else let st3 = st2\<lparr>bl_body := bl_body st2 @ text @ [CHR 0x0A]\<rparr>
              in if bl_depth st3 = 1
                 then st3\<lparr>bl_blocks := (bl_blocks st3)(bl_name st3 \<mapsto> bl_body st3), bl_name := []\<rparr>
                 else st3)"

definition nftTableBlocks :: "string \<Rightarrow> (string \<rightharpoonup> string)" where
  "nftTableBlocks table =
     bl_blocks (fold block_line (Split (CHR 0x0A) table)
       \<lparr>bl_blocks = Map.empty, bl_name = [], bl_body = [], bl_depth = 0\<rparr>)"

section \<open>The access list\<close>

definition ACLTable :: string where "ACLTable = ''dns_acl''"
definition aclSet4 :: string where "aclSet4 = ''allowed4''"
definition aclSet6 :: string where "aclSet6 = ''allowed6''"

record acl_config =
  ac_DoHPort :: int
  ac_DoTPort :: int
  ac_Prefixes :: "prefix list"

fun ports_loop :: "int set \<Rightarrow> int list \<Rightarrow> string list" where
  "ports_loop seen [] = []"
| "ports_loop seen (port # ports) =
     (if port \<le> 0 \<or> 65535 < port \<or> port \<in> seen then ports_loop seen ports
      else int_digits port # ports_loop (insert port seen) ports)"

definition acl_ports :: "acl_config \<Rightarrow> string" where
  "acl_ports c = join_with '', '' (ports_loop {} [ac_DoHPort c, ac_DoTPort c])"

definition acl_split :: "acl_config \<Rightarrow> string list \<times> string list" where
  "acl_split c =
     (let ps = filter pfx_IsValid (ac_Prefixes c)
      in (map pfx_String (filter (\<lambda>p. Is4 (pfx_addr p)) ps), map pfx_String (filter (\<lambda>p. \<not> Is4 (pfx_addr p)) ps)))"

datatype acl_error = NoPorts | NoPrefixes | ACLRefused access_error | ACLNotLoaded | ACLNotDeleted

definition acl_rule :: "string list \<Rightarrow> string" where
  "acl_rule words = line (''add rule inet '' # ACLTable # '' input '' # words)"

definition acl_set :: "string \<Rightarrow> string \<Rightarrow> string list \<Rightarrow> string" where
  "acl_set name family pfxs =
     line [''add set inet '', ACLTable, '' '', name, '' { type '', family, ''; flags interval; auto-merge; }''] @
     add_elements ACLTable name pfxs"

definition acl_Render :: "acl_config \<Rightarrow> acl_error + string" where
  "acl_Render c =
     (let ports = acl_ports c; (v4, v6) = acl_split c
      in if ports = [] then Inl NoPorts
         else if v4 = [] \<and> v6 = [] then Inl NoPrefixes
         else Inr (
           line [''add table inet '', ACLTable] @ line [''delete table inet '', ACLTable] @ line [''add table inet '', ACLTable] @
           acl_set aclSet4 ''ipv4_addr'' v4 @ acl_set aclSet6 ''ipv6_addr'' v6 @
           line [''add chain inet '', ACLTable, '' input { type filter hook input priority filter; policy accept; }''] @
           acl_rule [''iif lo accept''] @
           acl_rule [''ip saddr '', TunnelCIDR, '' accept''] @
           acl_rule [''ct state established,related accept''] @
           (if v4 \<noteq> [] then acl_rule [''meta l4proto { tcp, udp } th dport { '', ports, '' } ip saddr @'', aclSet4, '' accept''] else []) @
           (if v6 \<noteq> [] then acl_rule [''meta l4proto { tcp, udp } th dport { '', ports, '' } ip6 saddr @'', aclSet6, '' accept''] else []) @
           acl_rule [''meta l4proto { tcp, udp } th dport { '', ports, '' } counter drop'']))"

definition acl_Apply :: "'w load \<Rightarrow> acl_config \<Rightarrow> 'w \<Rightarrow> acl_error option \<times> 'w" where
  "acl_Apply load c w =
     (case acl_Render c of
        Inl e \<Rightarrow> (Some e, w)
      | Inr script \<Rightarrow> (let (ok, w1) = load script w in (if ok then None else Some ACLNotLoaded, w1)))"

definition ACLDisable :: "'w run \<Rightarrow> 'w \<Rightarrow> acl_error option \<times> 'w" where
  "ACLDisable run w =
     (let ((out, ok), w1) = run [''nft'', ''delete'', ''table'', ''inet'', ACLTable] w
      in (if \<not> ok \<and> \<not> strings_Contains out ''No such file'' then Some ACLNotDeleted else None, w1))"

definition ACLInstalled :: "'w run \<Rightarrow> 'w \<Rightarrow> bool \<times> 'w" where
  "ACLInstalled run w = (let ((out, ok), w1) = run [''nft'', ''list'', ''chain'', ''inet'', ACLTable, ''input''] w in (ok, w1))"

definition ACLFromConfig :: "pipe_config \<Rightarrow> prefix list \<Rightarrow> acl_config" where
  "ACLFromConfig c pfxs =
     \<lparr>ac_DoHPort = cfg_Int c ''DOH_PORT'' 443, ac_DoTPort = cfg_Int c ''DOT_PORT'' 853, ac_Prefixes = pfxs\<rparr>"

definition RestoreACL :: "'w run \<Rightarrow> 'w load \<Rightarrow> env \<Rightarrow> pipe_config \<Rightarrow> dir \<Rightarrow> 'w \<Rightarrow> (bool \<times> acl_error option) \<times> 'w" where
  "RestoreACL run load env c d w =
     (case EnforcedACL env d of
        Inl e \<Rightarrow> ((False, Some (ACLRefused e)), w)
      | Inr pfxs \<Rightarrow>
          if pfxs = [] then ((False, None), w)
          else let (installed, w1) = ACLInstalled run w
               in if installed then ((False, None), w1)
                  else let (err, w2) = acl_Apply load (ACLFromConfig c pfxs) w1 in ((True, err), w2))"

end
