(* ===== verification/Watchdog.thy ===== *)
theory Watchdog
  imports Nft
begin

text \<open>
  Package \<open>internal/pipeline\<close>, file \<open>watchdog.go\<close>: a round looks at the packet filter, the routing rules and
  the tunnel, restarts the routing unit when something is missing, and gives up after a number of rounds
  that did not help; the count is kept in a file. The messages are not modelled; the problems are the
  constructors of a datatype.
\<close>

section \<open>Configuration\<close>

definition DefaultFWMark :: string where "DefaultFWMark = ''0x1d5''"
definition DefaultRoutingUnit :: string where "DefaultRoutingUnit = ''dns-stack-recursive-routing.service''"
definition DefaultMinSetEntries :: int where "DefaultMinSetEntries = 1000"
definition DefaultMaxRepairs :: int where "DefaultMaxRepairs = 5"
definition DefaultAuthorityRatio :: int where "DefaultAuthorityRatio = 40"
definition DefaultFailMode :: string where "DefaultFailMode = ''closed''"

record watchdog_config =
  wc_Config :: pipe_config
  wc_FWMark :: string
  wc_Unit :: string
  wc_MinEntries :: int
  wc_MaxRepairs :: int
  wc_AuthRatio :: int
  wc_FailClosed :: bool

definition NewWatchdog :: "pipe_config \<Rightarrow> watchdog_config" where
  "NewWatchdog c =
     \<lparr>wc_Config = c, wc_FWMark = DefaultFWMark, wc_Unit = DefaultRoutingUnit, wc_MinEntries = DefaultMinSetEntries,
      wc_MaxRepairs = DefaultMaxRepairs, wc_AuthRatio = DefaultAuthorityRatio,
      wc_FailClosed = (pick [cfg_Value c ''TUNNEL_FAIL_MODE'', DefaultFailMode] = ''closed'')\<rparr>"

datatype problem =
  NoMarkRule | NoMasquerade | NoFWMarkRule | NoProhibitRule | DirectSmall | AuthoritySmall

record health =
  h_Problems :: "problem list"
  h_TunnelUp :: bool
  h_Repaired :: bool
  h_FailCount :: int

definition h_OK :: "health \<Rightarrow> bool" where
  "h_OK h \<longleftrightarrow> h_Problems h = []"

section \<open>The mark\<close>

text \<open>
  \<open>markPattern\<close>: what is left of a text after a match of the pattern at its start. The pattern is the
  prefix of a hexadecimal number, any zeros, the mark as it is written, and the end of a word.
\<close>

definition is_word :: "char \<Rightarrow> bool" where
  "is_word c \<longleftrightarrow>
     c = CHR ''_'' \<or> list_ex (\<lambda>(lo, hi). lo \<le> c \<and> c \<le> hi) [(CHR ''0'', CHR ''9''), (CHR ''A'', CHR ''Z''), (CHR ''a'', CHR ''z'')]"

definition mark_ends :: "string \<Rightarrow> string \<Rightarrow> string list" where
  "mark_ends mark s =
     (if \<not> HasPrefix s ''0x'' then []
      else let t = drop 2 s; zeros = length (takeWhile (\<lambda>c. c = CHR ''0'') t);
               ends = map (\<lambda>k. k + length mark) (filter (\<lambda>k. HasPrefix (drop k t) mark) [0..<Suc zeros])
           in map (\<lambda>n. drop n t)
                (filter (\<lambda>n. is_word (last (CHR ''x'' # take n t)) \<noteq> (drop n t \<noteq> [] \<and> is_word (hd (drop n t)))) ends))"

fun search :: "(string \<Rightarrow> bool) \<Rightarrow> string \<Rightarrow> bool" where
  "search p [] \<longleftrightarrow> p []"
| "search p (c # s) \<longleftrightarrow> p (c # s) \<or> search p s"

definition mark_in :: "string \<Rightarrow> string \<Rightarrow> string \<Rightarrow> string \<Rightarrow> bool" where
  "mark_in mark before after s \<longleftrightarrow>
     search (\<lambda>t. HasPrefix t before \<and> list_ex (\<lambda>r. HasPrefix r after) (mark_ends mark (drop (length before) t))) s"

definition mark_of :: "watchdog_config \<Rightarrow> string" where
  "mark_of wc = (if HasPrefix (wc_FWMark wc) ''0x'' then drop 2 (wc_FWMark wc) else wc_FWMark wc)"

section \<open>Diagnosis\<close>

record set_sizes =
  ss_Direct :: int
  ss_Authority :: int
  ss_AuthorityBaseline :: int

record routing_snapshot =
  sn_NFTTable :: string
  sn_IPRules :: string
  sn_AuthorityBaseline :: int

definition DirectTooSmall :: "watchdog_config \<Rightarrow> set_sizes \<Rightarrow> bool" where
  "DirectTooSmall wc s \<longleftrightarrow> ss_Direct s < wc_MinEntries wc"

definition AuthorityTooSmall :: "watchdog_config \<Rightarrow> set_sizes \<Rightarrow> bool" where
  "AuthorityTooSmall wc s \<longleftrightarrow>
     20 \<le> ss_AuthorityBaseline s \<and> ss_Authority s < ss_AuthorityBaseline s * wc_AuthRatio wc div 100"

definition block_of :: "string \<Rightarrow> string \<Rightarrow> string" where
  "block_of table name = value_of (nftTableBlocks table) name"

definition wd_sizes :: "watchdog_config \<Rightarrow> routing_snapshot \<Rightarrow> set_sizes" where
  "wd_sizes wc snap =
     \<lparr>ss_Direct = int (countNFTElements (block_of (sn_NFTTable snap) (''set '' @ pc_DirectSet (wc_Config wc)))),
      ss_Authority = int (countNFTElements (block_of (sn_NFTTable snap) (''set '' @ pc_AuthoritySet (wc_Config wc)))),
      ss_AuthorityBaseline = sn_AuthorityBaseline snap\<rparr>"

definition problems :: "watchdog_config \<Rightarrow> routing_snapshot \<Rightarrow> problem list" where
  "problems wc snap =
     (let mark = mark_of wc; nat = block_of (sn_NFTTable snap) ''chain postrouting''; sizes = wd_sizes wc snap
      in (if mark_in mark ''meta mark set '' [] (block_of (sn_NFTTable snap) ''chain output'') then [] else [NoMarkRule]) @
         (if mark_in mark [] [] nat \<and> strings_Contains nat ''masquerade'' then [] else [NoMasquerade]) @
         (if mark_in mark ''fwmark '' [] (sn_IPRules snap) then [] else [NoFWMarkRule]) @
         (if wc_FailClosed wc \<and> \<not> mark_in mark ''fwmark '' '' prohibit'' (sn_IPRules snap) then [NoProhibitRule] else []) @
         (if DirectTooSmall wc sizes then [DirectSmall] else []) @
         (if AuthorityTooSmall wc sizes then [AuthoritySmall] else []))"

definition countPrefixes :: "env \<Rightarrow> string \<Rightarrow> dir \<Rightarrow> int" where
  "countPrefixes env path d = (case Lines env path d of Inl _ \<Rightarrow> 0 | Inr ls \<Rightarrow> int (length ls))"

definition wd_snapshot :: "'w run \<Rightarrow> env \<Rightarrow> watchdog_config \<Rightarrow> bool \<Rightarrow> dir \<Rightarrow> 'w \<Rightarrow> routing_snapshot \<times> 'w" where
  "wd_snapshot run env wc withRules d w =
     (let ((table, _), w1) = run [''nft'', ''list'', ''table'', ''inet'', pc_NFTTable (wc_Config wc)] w;
          ((rules, _), w2) = (if withRules then run [''ip'', ''rule'', ''show''] w1 else (([], True), w1))
      in (\<lparr>sn_NFTTable = table, sn_IPRules = rules,
           sn_AuthorityBaseline = countPrefixes env (cfg_Chnroute (wc_Config wc) ''cn-authority.txt'') d\<rparr>, w2))"

definition ReadSetSizes :: "'w run \<Rightarrow> env \<Rightarrow> watchdog_config \<Rightarrow> dir \<Rightarrow> 'w \<Rightarrow> set_sizes \<times> 'w" where
  "ReadSetSizes run env wc d w = (let (snap, w1) = wd_snapshot run env wc False d w in (wd_sizes wc snap, w1))"

definition failStatePath :: "watchdog_config \<Rightarrow> string" where
  "failStatePath wc = cfg_Path (wc_Config wc) ''routing-watchdog.fail''"

definition readFailCount :: "env \<Rightarrow> string \<Rightarrow> dir \<Rightarrow> int" where
  "readFailCount env path d =
     (case ReadFile env path d of
        Inl _ \<Rightarrow> 0
      | Inr data \<Rightarrow> (case Atoi (TrimSpace data) of None \<Rightarrow> 0 | Some n \<Rightarrow> if n < 0 then 0 else n))"

definition writeFailCount :: "env \<Rightarrow> string \<Rightarrow> int \<Rightarrow> dir \<Rightarrow> dir" where
  "writeFailCount env path n d = snd (WriteAtomic env path (int_digits n @ [CHR 0x0A]) 420 d)"

definition Diagnose :: "'w run \<Rightarrow> env \<Rightarrow> watchdog_config \<Rightarrow> dir \<Rightarrow> 'w \<Rightarrow> health \<times> 'w" where
  "Diagnose run env wc d w =
     (let (snap, w1) = wd_snapshot run env wc True d w;
          ((_, up), w2) = run [''ip'', ''link'', ''show'', pc_TunnelIf (wc_Config wc)] w1
      in (\<lparr>h_Problems = problems wc snap, h_TunnelUp = up, h_Repaired = False,
           h_FailCount = readFailCount env (failStatePath wc) d\<rparr>, w2))"

section \<open>A round\<close>

datatype check_error = GaveUp int | RestartFailed | StillBroken

text \<open>\<open>flush\<close> empties the cache of the resolver in front.\<close>

definition flushPoisonedCache :: "'w run \<Rightarrow> ('w \<Rightarrow> 'w) \<Rightarrow> 'w \<Rightarrow> 'w" where
  "flushPoisonedCache run flush w =
     (let ((_, ok), w1) = run [''unbound-control'', ''flush_zone'', ''.''] w in if ok then flush w1 else w1)"

definition Check ::
  "'w run \<Rightarrow> ('w \<Rightarrow> 'w) \<Rightarrow> env \<Rightarrow> watchdog_config \<Rightarrow> dir \<times> 'w \<Rightarrow> (health \<times> check_error option) \<times> dir \<times> 'w" where
  "Check run flush env wc = (\<lambda>(d, w).
     let (health, w1) = Diagnose run env wc d w; state = failStatePath wc; count = h_FailCount health
     in if h_OK health then
          (if count \<noteq> 0 then ((health, None), writeFailCount env state 0 d, flushPoisonedCache run flush w1)
           else ((health, None), d, w1))
        else if \<not> h_TunnelUp health then ((health, None), d, w1)
        else if wc_MaxRepairs wc \<le> count then ((health, Some (GaveUp count)), d, w1)
        else
          let d1 = writeFailCount env state (count + 1) d;
              ((_, ok), w2) = run [''systemctl'', ''restart'', wc_Unit wc] w1
          in if \<not> ok then ((health, Some RestartFailed), d1, w2)
             else
               let (after, w3) = Diagnose run env wc d1 w2
               in if \<not> h_OK after then ((after, Some StillBroken), d1, w3)
                  else ((health\<lparr>h_Repaired := True\<rparr>, None), writeFailCount env state 0 d1, flushPoisonedCache run flush w3))"

text \<open>Rounds, between which the host changes in any way.\<close>

fun wd_rounds ::
  "'w run \<Rightarrow> ('w \<Rightarrow> 'w) \<Rightarrow> env \<Rightarrow> watchdog_config \<Rightarrow> ('w \<Rightarrow> 'w) list \<Rightarrow> dir \<times> 'w \<Rightarrow>
    (health \<times> check_error option) list \<times> dir \<times> 'w" where
  "wd_rounds run flush env wc [] s = ([], s)"
| "wd_rounds run flush env wc (change # changes) (d, w) =
     (let (result, s1) = Check run flush env wc (d, change w);
          (results, s2) = wd_rounds run flush env wc changes s1
      in (result # results, s2))"

end
