(* ===== verification/Routing.thy ===== *)
theory Routing
  imports Watchdog CN_Auth
begin

text \<open>
  Package \<open>internal/pipeline\<close>, file \<open>routing.go\<close>: the installation of the split routing, that is the policy
  routes, the peer of the tunnel, the check of the mainland set and the script of the marking chain, and
  its removal. Arguments besides the commands: which tools are installed, the user table of the host and
  the order in which a map is visited. Apply is modelled without the preview; the texts that only
  inform are not modelled.
\<close>

section \<open>Configuration\<close>

record routing_config =
  rg_Config :: pipe_config
  rg_RouteTable :: string
  rg_FWMark :: string
  rg_UnboundUser :: string
  rg_WGConf :: string
  rg_FailMode :: string
  rg_MinEntries :: int
  rg_EndpointSet :: string

definition LoadRoutingConfig :: "pipe_config \<Rightarrow> routing_config" where
  "LoadRoutingConfig c =
     \<lparr>rg_Config = c,
      rg_RouteTable = pick [cfg_Value c ''ROUTE_TABLE'', ''100''],
      rg_FWMark = pick [cfg_Value c ''FWMARK'', DefaultFWMark],
      rg_UnboundUser = pick [cfg_Value c ''UNBOUND_USER'', ''unbound''],
      rg_WGConf = pick [cfg_Value c ''WG_CONF'', ''/etc/wireguard/'' @ pc_TunnelIf c @ ''.conf''],
      rg_FailMode = pick [cfg_Value c ''TUNNEL_FAIL_MODE'', DefaultFailMode],
      rg_MinEntries = cfg_Int c ''MIN_SET_ENTRIES'' DefaultMinSetEntries,
      rg_EndpointSet = pick [cfg_Value c ''NFT_ENDPOINT_SET'', ''tunnel_endpoints'']\<rparr>"

datatype semantic_problem = Leaked "string list" | OwnAddressMissing string | EndpointInside string

datatype routing_error =
  MissingTool string | NoInterface | NoUser | WireGuardUnguarded | TunnelRouteFailed | DefaultRouteFailed
| SourceRuleFailed | MarkRuleFailed | ProhibitRuleFailed | PeerFailed | SetTooSmall nat
| WrongSemantics "semantic_problem list" | ScriptFailed

section \<open>Policy routes\<close>

definition command_ok :: "'w run \<Rightarrow> string list \<Rightarrow> 'w \<Rightarrow> bool \<times> 'w" where
  "command_ok run argv w = (let ((_, ok), w1) = run argv w in (ok, w1))"

text \<open>A command whose failure ends the installation.\<close>

definition must :: "'w run \<Rightarrow> string list \<Rightarrow> routing_error \<Rightarrow> ('w \<Rightarrow> routing_error option \<times> 'w) \<Rightarrow> 'w \<Rightarrow> routing_error option \<times> 'w" where
  "must run argv e cont w = (let (ok, w1) = command_ok run argv w in if ok then cont w1 else (Some e, w1))"

definition ruleExists :: "'w run \<Rightarrow> string \<Rightarrow> 'w \<Rightarrow> bool \<times> 'w" where
  "ruleExists run fragment w = (let ((out, _), w1) = run [''ip'', ''rule'', ''show''] w in (strings_Contains out fragment, w1))"

definition ensure_rule ::
  "'w run \<Rightarrow> string \<Rightarrow> string list \<Rightarrow> routing_error \<Rightarrow> ('w \<Rightarrow> routing_error option \<times> 'w) \<Rightarrow> 'w \<Rightarrow> routing_error option \<times> 'w" where
  "ensure_rule run fragment argv e cont w =
     (let (found, w1) = ruleExists run fragment w in if found then cont w1 else must run argv e cont w1)"

definition ruleDeleteMaxRounds :: nat where "ruleDeleteMaxRounds = 10"

fun delete_rules :: "'w run \<Rightarrow> string \<Rightarrow> string list \<Rightarrow> nat \<Rightarrow> 'w \<Rightarrow> 'w" where
  "delete_rules run fragment argv 0 w = w"
| "delete_rules run fragment argv (Suc n) w =
     (let (found, w1) = ruleExists run fragment w
      in if \<not> found then w1
         else let (ok, w2) = command_ok run argv w1 in if ok then delete_rules run fragment argv n w2 else w2)"

definition prohibit_rule :: "routing_config \<Rightarrow> string" where
  "prohibit_rule rc = ''fwmark '' @ rg_FWMark rc @ '' prohibit''"

definition applyPolicyRoutes :: "'w run \<Rightarrow> routing_config \<Rightarrow> 'w \<Rightarrow> routing_error option \<times> 'w" where
  "applyPolicyRoutes run rc =
     (let dev = pc_TunnelIf (rg_Config rc); addr = pc_TunnelAddr (rg_Config rc); table = rg_RouteTable rc; mark = rg_FWMark rc in
      must run [''ip'', ''route'', ''replace'', TunnelCIDR, ''dev'', dev, ''scope'', ''link'', ''table'', table] TunnelRouteFailed (
      must run [''ip'', ''route'', ''replace'', ''default'', ''dev'', dev, ''table'', table] DefaultRouteFailed (
      ensure_rule run (''from '' @ addr @ '' lookup '' @ table)
        [''ip'', ''rule'', ''add'', ''from'', addr, ''lookup'', table, ''priority'', ''100''] SourceRuleFailed (
      ensure_rule run (''fwmark '' @ mark @ '' lookup '' @ table)
        [''ip'', ''rule'', ''add'', ''fwmark'', mark, ''lookup'', table, ''priority'', ''101''] MarkRuleFailed (
      if rg_FailMode rc = ''closed'' then
        ensure_rule run (prohibit_rule rc)
          [''ip'', ''rule'', ''add'', ''fwmark'', mark, ''prohibit'', ''priority'', ''102''] ProhibitRuleFailed (\<lambda>w. (None, w))
      else (\<lambda>w. (None, delete_rules run (prohibit_rule rc) [''ip'', ''rule'', ''del'', ''fwmark'', mark, ''prohibit'']
        ruleDeleteMaxRounds w)))))))"

section \<open>The tunnel\<close>

text \<open>The regular expressions \<open>(?m)^\s*AllowedIPs\s*=\s*0\.0\.0\.0/0\<close> and \<open>(?m)^\s*Table\s*=\s*off\<close>.\<close>

definition setting_at :: "string \<Rightarrow> string \<Rightarrow> string \<Rightarrow> bool" where
  "setting_at key val s =
     (let t = dropWhile re_space s; u = dropWhile re_space (drop (length key) t)
      in HasPrefix t key \<and> u \<noteq> [] \<and> hd u = CHR ''='' \<and> HasPrefix (dropWhile re_space (tl u)) val)"

fun at_line_start :: "(string \<Rightarrow> bool) \<Rightarrow> bool \<Rightarrow> string \<Rightarrow> bool" where
  "at_line_start p start [] \<longleftrightarrow> start \<and> p []"
| "at_line_start p start (c # s) \<longleftrightarrow> start \<and> p (c # s) \<or> at_line_start p (c = CHR 0x0A) s"

definition guardWireGuardConf :: "env \<Rightarrow> routing_config \<Rightarrow> dir \<Rightarrow> routing_error option" where
  "guardWireGuardConf env rc d =
     (case ReadFile env (rg_WGConf rc) d of
        Inl _ \<Rightarrow> None
      | Inr body \<Rightarrow>
          if at_line_start (setting_at ''AllowedIPs'' ''0.0.0.0/0'') True body \<and> \<not> at_line_start (setting_at ''Table'' ''off'') True body
          then Some WireGuardUnguarded else None)"

definition hkPeerAllowedIP :: string where "hkPeerAllowedIP = HKTunnelIP @ ''/32''"
definition openAllowedIPs :: string where "openAllowedIPs = ''0.0.0.0/0''"

definition peer_line :: "string \<Rightarrow> (string \<rightharpoonup> string) \<Rightarrow> (string \<rightharpoonup> string)" where
  "peer_line text peers =
     (let fields = Fields text in if 2 \<le> length fields then peers(hd fields \<mapsto> Join (CHR '' '') (tl fields)) else peers)"

definition peerAllowedIPs :: "'w run \<Rightarrow> routing_config \<Rightarrow> 'w \<Rightarrow> (string \<rightharpoonup> string) \<times> 'w" where
  "peerAllowedIPs run rc w =
     (let ((out, _), w1) = run [''wg'', ''show'', pc_TunnelIf (rg_Config rc), ''allowed-ips''] w
      in (fold peer_line (Split (CHR 0x0A) out) Map.empty, w1))"

definition openHKPeer :: "'w run \<Rightarrow> ((string \<rightharpoonup> string) \<Rightarrow> string list) \<Rightarrow> routing_config \<Rightarrow> 'w \<Rightarrow> routing_error option \<times> 'w" where
  "openHKPeer run order rc w =
     (let (peers, w1) = peerAllowedIPs run rc w
      in case find (\<lambda>key. peers key \<in> {Some hkPeerAllowedIP, Some openAllowedIPs}) (order peers) of
           None \<Rightarrow> (None, w1)
         | Some target \<Rightarrow>
             if target = [] \<or> peers target = Some openAllowedIPs then (None, w1)
             else must run [''wg'', ''set'', pc_TunnelIf (rg_Config rc), ''peer'', target, ''allowed-ips'', openAllowedIPs]
               PeerFailed (\<lambda>w. (None, w)) w1)"

definition host_part :: "string \<Rightarrow> string" where
  "host_part s = (if CHR '':'' \<in> set s then rev (tl (dropWhile (\<lambda>c. c \<noteq> CHR '':'') (rev s))) else s)"

definition trim_ends :: "string \<Rightarrow> string" where
  "trim_ends s =
     (let b = (\<lambda>c. c = CHR 0x5B \<or> c = CHR 0x5D) in rev (dropWhile b (rev (dropWhile b s))))"

definition endpoint_line :: "string \<Rightarrow> string list \<Rightarrow> string list" where
  "endpoint_line text result =
     (let fields = Fields text in
      if length fields < 2 then result
      else case ParseAddr (trim_ends (host_part (fields ! 1))) of
        None \<Rightarrow> result
      | Some addr \<Rightarrow> if \<not> Is4 addr \<or> addr_String addr \<in> set result then result else result @ [addr_String addr])"

definition tunnelEndpoints :: "'w run \<Rightarrow> routing_config \<Rightarrow> 'w \<Rightarrow> string list \<times> 'w" where
  "tunnelEndpoints run rc w =
     (let ((out, _), w1) = run [''wg'', ''show'', pc_TunnelIf (rg_Config rc), ''endpoints''] w
      in (fold endpoint_line (Split (CHR 0x0A) out) [], w1))"

section \<open>The mainland set\<close>

definition inSet :: "'w run \<Rightarrow> routing_config \<Rightarrow> string \<Rightarrow> 'w \<Rightarrow> bool \<times> 'w" where
  "inSet run rc addr w =
     command_ok run [''nft'', ''get'', ''element'', ''inet'', pc_NFTTable (rg_Config rc), pc_DirectSet (rg_Config rc), ''{ '' @ addr @ '' }''] w"

definition ensureSetLoaded :: "'w run \<Rightarrow> 'w load \<Rightarrow> env \<Rightarrow> routing_config \<Rightarrow> dir \<Rightarrow> 'w \<Rightarrow> 'w" where
  "ensureSetLoaded run load env rc d w =
     (let c = rg_Config rc; (n, w1) = NFTSetCount run c (pc_DirectSet c) w
      in if rg_MinEntries rc \<le> int n then w1
         else case loadLines env (cfg_Chnroute c ''direct4.txt'') d of
           Inl _ \<Rightarrow> w1
         | Inr ls \<Rightarrow>
             let (t, _, _) = LoadReader True ls; (ok, w2) = LoadNFTSet load c (pc_DirectSet c) (set_Prefixes (Some t)) w1
             in if ok then snd (NFTSetCount run c (pc_DirectSet c) w2) else w2)"

definition nonGlobalProbes :: "string list" where
  "nonGlobalProbes = [''0.0.0.0'', ''10.0.0.1'', ''127.0.0.1'', ''169.254.0.1'', ''172.16.0.1'', ''192.168.0.1'', ''100.64.0.1'', ''224.0.0.1'']"

fun probe_loop :: "'w run \<Rightarrow> routing_config \<Rightarrow> string list \<Rightarrow> 'w \<Rightarrow> string list \<times> 'w" where
  "probe_loop run rc [] w = ([], w)"
| "probe_loop run rc (probe # probes) w =
     (let (inside, w1) = inSet run rc probe w; (leaked, w2) = probe_loop run rc probes w1
      in (if inside then probe # leaked else leaked, w2))"

definition own_address :: "'w run \<Rightarrow> routing_config \<Rightarrow> 'w \<Rightarrow> semantic_problem list \<times> 'w" where
  "own_address run rc w =
     (let sample = TrimSpace (cfg_Value (rg_Config rc) ''PUBLIC_IPV4'')
      in if sample = [] then ([], w)
         else let (inside, w1) = inSet run rc sample w in (if inside then [] else [OwnAddressMissing sample], w1))"

definition far_end :: "'w run \<Rightarrow> routing_config \<Rightarrow> 'w \<Rightarrow> semantic_problem list \<times> 'w" where
  "far_end run rc w =
     (case tunnelEndpoints run rc w of
        ([], w1) \<Rightarrow> ([], w1)
      | (endpoint # _, w1) \<Rightarrow> (let (inside, w2) = inSet run rc endpoint w1 in (if inside then [EndpointInside endpoint] else [], w2)))"

definition verifySetSemantics :: "'w run \<Rightarrow> routing_config \<Rightarrow> 'w \<Rightarrow> semantic_problem list \<times> 'w" where
  "verifySetSemantics run rc w =
     (let (leaked, w1) = probe_loop run rc nonGlobalProbes w;
          (own, w2) = own_address run rc w1;
          (far, w3) = far_end run rc w2
      in ((if leaked = [] then [] else [Leaked leaked]) @ own @ far, w3))"

section \<open>The chain\<close>

text \<open>A line that is too long ends the list of the authorities without an error.\<close>

definition cnAuthorityEntries :: "env \<Rightarrow> routing_config \<Rightarrow> dir \<Rightarrow> string list" where
  "cnAuthorityEntries env rc d =
     (case ReadFile env (cfg_Chnroute (rg_Config rc) ''cn-authority.txt'') d of
        Inl _ \<Rightarrow> []
      | Inr body \<Rightarrow> filter (\<lambda>l. l \<noteq> [] \<and> is_digit (hd l)) (map TrimSpace (fst (ScanLines body))))"

definition renderChainScript :: "routing_config \<Rightarrow> string \<Rightarrow> string list \<Rightarrow> string list \<Rightarrow> string" where
  "renderChainScript rc uid endpoints authority =
     (let table = pc_NFTTable (rg_Config rc); authoritySet = pc_AuthoritySet (rg_Config rc); endpointSet = rg_EndpointSet rc;
          directSet = pc_DirectSet (rg_Config rc); mark = rg_FWMark rc
      in renderSetScript table authoritySet authority @
         line [''add set inet '', table, '' '', endpointSet, '' { type ipv4_addr; }''] @
         line [''flush set inet '', table, '' '', endpointSet] @
         (if endpoints = [] then []
          else line [''add element inet '', table, '' '', endpointSet, '' { '', join_with '', '' endpoints, '' }'']) @
         line [''add chain inet '', table, '' output { type route hook output priority mangle; policy accept; }''] @
         line [''flush chain inet '', table, '' output''] @
         line [''add rule inet '', table, '' output meta skuid '', uid, '' ip daddr != @'', directSet, '' ip daddr != @'', authoritySet,
           '' ip daddr != @'', endpointSet, '' counter meta mark set '', mark] @
         line [''add chain inet '', table, '' postrouting { type nat hook postrouting priority srcnat; policy accept; }''] @
         line [''flush chain inet '', table, '' postrouting''] @
         line [''add rule inet '', table, '' postrouting oifname '', [CHR 0x22], pc_TunnelIf (rg_Config rc), [CHR 0x22],
           '' meta mark '', mark, '' counter masquerade''])"

definition install_chain :: "'w run \<Rightarrow> 'w load \<Rightarrow> env \<Rightarrow> routing_config \<Rightarrow> string \<Rightarrow> dir \<Rightarrow> 'w \<Rightarrow> routing_error option \<times> 'w" where
  "install_chain run load env rc uid d w =
     (let (n, w1) = NFTSetCount run (rg_Config rc) (pc_DirectSet (rg_Config rc)) (ensureSetLoaded run load env rc d w)
      in if int n < rg_MinEntries rc then (Some (SetTooSmall n), w1)
         else
           let (bad, w2) = verifySetSemantics run rc w1
           in if bad \<noteq> [] then (Some (WrongSemantics bad), w2)
              else
                let (endpoints, w3) = tunnelEndpoints run rc w2;
                    (ok, w4) = load (renderChainScript rc uid endpoints (cnAuthorityEntries env rc d)) w3
                in (if ok then None else Some ScriptFailed, w4))"

definition routing_Apply ::
  "'w run \<Rightarrow> 'w load \<Rightarrow> (string \<Rightarrow> bool) \<Rightarrow> (string \<rightharpoonup> string) \<Rightarrow> ((string \<rightharpoonup> string) \<Rightarrow> string list) \<Rightarrow> env \<Rightarrow> routing_config \<Rightarrow>
    dir \<Rightarrow> 'w \<Rightarrow> routing_error option \<times> 'w" where
  "routing_Apply run load tools users order env rc d w =
     (case find (\<lambda>tool. \<not> tools tool) [''nft'', ''wg'', ''ip''] of
        Some tool \<Rightarrow> (Some (MissingTool tool), w)
      | None \<Rightarrow>
          must run [''ip'', ''link'', ''show'', pc_TunnelIf (rg_Config rc)] NoInterface (\<lambda>w1.
            case users (rg_UnboundUser rc) of
              None \<Rightarrow> (Some NoUser, w1)
            | Some uid \<Rightarrow>
                (case guardWireGuardConf env rc d of
                   Some e \<Rightarrow> (Some e, w1)
                 | None \<Rightarrow>
                     (case applyPolicyRoutes run rc w1 of
                        (Some e, w2) \<Rightarrow> (Some e, w2)
                      | (None, w2) \<Rightarrow>
                          (case openHKPeer run order rc w2 of
                             (Some e, w3) \<Rightarrow> (Some e, w3)
                           | (None, w3) \<Rightarrow> install_chain run load env rc uid d w3))))
            (snd (RestoreACL run load env (rg_Config rc) d w)))"

definition routing_Revert :: "'w run \<Rightarrow> routing_config \<Rightarrow> 'w \<Rightarrow> 'w" where
  "routing_Revert run rc w =
     (let lookup = ''lookup '' @ rg_RouteTable rc;
          (_, w1) = command_ok run [''nft'', ''delete'', ''table'', ''inet'', pc_NFTTable (rg_Config rc)] w;
          w2 = delete_rules run lookup [''ip'', ''rule'', ''del'', ''lookup'', rg_RouteTable rc] ruleDeleteMaxRounds w1;
          w3 = delete_rules run (prohibit_rule rc) [''ip'', ''rule'', ''del'', ''fwmark'', rg_FWMark rc, ''prohibit''] ruleDeleteMaxRounds w2;
          (found, w4) = ruleExists run lookup w3;
          (_, w5) = (if found then (True, w4) else ruleExists run (prohibit_rule rc) w4)
      in snd (command_ok run [''ip'', ''route'', ''flush'', ''table'', rg_RouteTable rc] w5))"

end
