(* ===== verification/Commit.thy ===== *)
theory Commit
  imports Routing DNS_Wire Infra
begin

text \<open>
  Package \<open>internal/pipeline\<close>, file \<open>authority.go\<close>: the pairs of zone and authority a round starts from, and
  the two commits at its end, of the set of authorities and of the ECS allowlist. Arguments: the lines of
  the dump of the resolver's infrastructure cache, the reply to a query, the check of the resolver's
  configuration, the times of files and the clock. The messages are outcomes of a datatype.
\<close>

section \<open>Collecting the pairs\<close>

definition manualNSLimit :: nat where "manualNSLimit = 8"

type_synonym authority_pair = "string \<times> string \<times> int"

text \<open>\<open>reply\<close> is the datagram that answers a packet, if one comes; the buffer takes 4096 bytes of it.\<close>

definition auth_query :: "(u8 list \<Rightarrow> u8 list option) \<Rightarrow> u16 \<Rightarrow> string \<Rightarrow> u16 \<Rightarrow> (msg \<times> u8 list) option" where
  "auth_query reply ident name qtype =
     (case BuildQuery ident name qtype of
        Inl _ \<Rightarrow> None
      | Inr packet \<Rightarrow>
          (case reply packet of
             None \<Rightarrow> None
           | Some datagram \<Rightarrow>
               (let raw = take 4096 datagram in case Unpack raw of Inl _ \<Rightarrow> None | Inr m \<Rightarrow> Some (m, raw))))"

definition ns_of :: "u8 list \<Rightarrow> rr list \<Rightarrow> string list" where
  "ns_of raw rrs = List.map_filter (\<lambda>r. if rr_Type r \<noteq> TypeNS then None else map_option (TrimSuffix (CHR ''.'')) (TargetName r raw)) rrs"

definition auth_nsNames :: "(u8 list \<Rightarrow> u8 list option) \<Rightarrow> u16 \<Rightarrow> string \<Rightarrow> string list" where
  "auth_nsNames reply ident zone =
     (case auth_query reply ident zone TypeNS of
        None \<Rightarrow> []
      | Some (m, raw) \<Rightarrow>
          (let answers = ns_of raw (m_Answers m)
           in take manualNSLimit (if answers \<noteq> [] then answers else ns_of raw (m_Authorities m))))"

definition addrsOf :: "(u8 list \<Rightarrow> u8 list option) \<Rightarrow> u16 \<Rightarrow> string \<Rightarrow> string list" where
  "addrsOf reply ident name =
     (case auth_query reply ident name TypeA of
        None \<Rightarrow> []
      | Some (m, _) \<Rightarrow> map addr_String (List.map_filter rr_A (m_Answers m)))"

definition manualZones :: "env \<Rightarrow> string \<Rightarrow> dir \<Rightarrow> string list" where
  "manualZones env path d =
     (case ReadFile env path d of
        Inl _ \<Rightarrow> []
      | Inr body \<Rightarrow>
          List.map_filter (\<lambda>text.
            case Fields (takeWhile (\<lambda>c. c \<noteq> CHR ''#'') text) of
              [] \<Rightarrow> None
            | w # _ \<Rightarrow> Some (ToLower (TrimSuffix (CHR ''.'') w))) (fst (ScanShort body)))"

definition cache_pair :: "entry \<Rightarrow> authority_pair option" where
  "cache_pair e =
     (let zone = ToLower (TrimSuffix (CHR ''.'') (e_Zone e))
      in if \<not> Is4 (e_IP e) \<or> zone = [] \<or> zone = ''.'' then None
         else Some (zone, addr_String (e_IP e), if e_HasRTO e then e_RTO e else -1))"

text \<open>A manual zone is asked for its servers and these for their addresses; \<open>cancelled\<close> ends the loop after a zone.\<close>

fun manual_pairs :: "(u8 list \<Rightarrow> u8 list option) \<Rightarrow> u16 \<Rightarrow> (string \<Rightarrow> bool) \<Rightarrow> string list \<Rightarrow> authority_pair list" where
  "manual_pairs reply ident cancelled [] = []"
| "manual_pairs reply ident cancelled (zone # zones) =
     concat (map (\<lambda>ns. map (\<lambda>a. (zone, a, 0)) (addrsOf reply ident ns)) (auth_nsNames reply ident zone)) @
     (if cancelled zone then [] else manual_pairs reply ident cancelled zones)"

definition authority_line :: "authority_pair \<Rightarrow> string" where
  "authority_line = (\<lambda>(zone, ip, rto). zone @ '' '' @ ip @ '' '' @ int_digits rto)"

definition collectAuthorityPairs ::
  "(u8 list \<Rightarrow> u8 list option) \<Rightarrow> u16 \<Rightarrow> (string \<Rightarrow> bool) \<Rightarrow> string list option \<Rightarrow> env \<Rightarrow> pipe_config \<Rightarrow> dir \<Rightarrow> (string \<times> nat) option" where
  "collectAuthorityPairs reply ident cancelled dump env c d =
     (case dump of
        None \<Rightarrow> None
      | Some ls \<Rightarrow>
          (let pairs = remdups (List.map_filter cache_pair (s_Entries (Parse ls)) @
                 manual_pairs reply ident cancelled (manualZones env (cfg_Path c ''manual-cn-zones.txt'') d))
           in Some (join_with [CHR 0x0A] (sort (map authority_line pairs)) @ [CHR 0x0A], length (remdups (map fst pairs)))))"

section \<open>The set of authorities\<close>

definition remove_file :: "env \<Rightarrow> string \<Rightarrow> dir \<Rightarrow> dir" where
  "remove_file env path d = (if en_remove_fails env then d else d(path := None))"

definition rename_file :: "env \<Rightarrow> string \<Rightarrow> string \<Rightarrow> dir \<Rightarrow> dir option" where
  "rename_file env old new d =
     (case d old of
        None \<Rightarrow> None
      | Some f \<Rightarrow> if io_rename (en_io env new) then Some (d(old := None, new \<mapsto> f)) else None)"

datatype commit_error = Dropped int int | StagedUnreadable | SetNotLoaded | RenameRefused

definition commitAuthoritySet ::
  "'w load \<Rightarrow> env \<Rightarrow> pipe_config \<Rightarrow> string \<Rightarrow> string \<Rightarrow> dir \<times> 'w \<Rightarrow> commit_error option \<times> dir \<times> 'w" where
  "commitAuthoritySet load env c live staged = (\<lambda>(d, w).
     let minRatio = cfg_Int c ''GUARD_MIN_RATIO'' 40; old = countPrefixes env live d; fresh = countPrefixes env staged d
     in if 20 \<le> old \<and> fresh < go_int (old * minRatio) div 100 then (Some (Dropped old fresh), remove_file env staged d, w)
        else case loadPrefixFile env staged d of
          Inl _ \<Rightarrow> (Some StagedUnreadable, remove_file env staged d, w)
        | Inr pfxs \<Rightarrow>
            let (ok, w1) = LoadNFTSet load c (pc_AuthoritySet c) pfxs w
            in if \<not> ok then (Some SetNotLoaded, remove_file env staged d, w1)
               else case rename_file env staged live d of
                 None \<Rightarrow> (Some RenameRefused, d, w1)
               | Some d1 \<Rightarrow> (None, d1, w1))"

section \<open>The ECS allowlist\<close>

definition subnet_key :: string where "subnet_key = ''send-client-subnet:''"

definition countECSLines :: "env \<Rightarrow> string \<Rightarrow> dir \<Rightarrow> int" where
  "countECSLines env path d =
     (case ReadFile env path d of
        Inl _ \<Rightarrow> 0
      | Inr data \<Rightarrow> int (length (filter (\<lambda>l. HasPrefix (TrimSpace l) subnet_key) (Split (CHR 0x0A) data))))"

definition trim_quotes :: "string \<Rightarrow> string" where
  "trim_quotes s = (let q = (\<lambda>c. c = CHR 0x22) in rev (dropWhile q (rev (dropWhile q s))))"

definition ecs_prefix :: "string \<Rightarrow> prefix option" where
  "ecs_prefix text =
     (let trimmed = TrimSpace text in
      if \<not> HasPrefix trimmed subnet_key then None
      else let val = trim_quotes (TrimSpace (drop (length subnet_key) trimmed)) in
        case ParsePrefix val of
          Some p \<Rightarrow> Some (Masked p)
        | None \<Rightarrow> map_option (\<lambda>a. PrefixFrom a (int (BitLen a))) (ParseAddr val))"

definition ecsPrefixes :: "env \<Rightarrow> string \<Rightarrow> dir \<Rightarrow> prefix list" where
  "ecsPrefixes env path d =
     (case ReadFile env path d of Inl _ \<Rightarrow> [] | Inr data \<Rightarrow> List.map_filter ecs_prefix (Split (CHR 0x0A) data))"

definition ecsCover :: "prefix list \<Rightarrow> ip_set" where
  "ecsCover ps = New (List.map_filter PrefixRange ps)"

definition ecsOnlyGrew :: "env \<Rightarrow> string \<Rightarrow> string \<Rightarrow> dir \<Rightarrow> nat \<times> bool" where
  "ecsOnlyGrew env live staged d =
     (let old = ecsPrefixes env live d; fresh = ecsPrefixes env staged d in
      if old = [] \<or> fresh = [] then (0, False)
      else if \<not> list_all (CoversPrefix (Some (ecsCover fresh))) old then (0, False)
      else let added = length (filter (\<lambda>p. \<not> CoversPrefix (Some (ecsCover old)) p) fresh) in (added, 0 < added))"

definition sameFile :: "env \<Rightarrow> string \<Rightarrow> string \<Rightarrow> dir \<Rightarrow> bool" where
  "sameFile env a b d =
     (case ReadFile env a d of
        Inl _ \<Rightarrow> False
      | Inr left \<Rightarrow> (case ReadFile env b d of Inl _ \<Rightarrow> False | Inr right \<Rightarrow> left = right))"

datatype ecs_outcome =
  KeptEmpty int | KeptDropped int int | KeptSame int | KeptDeferred nat | KeptBase
| FailedPrev | FailedChmod | FailedRename | FailedRollback | RolledBack
| NotReloaded int | ECSReloaded int int

text \<open>\<open>checkconf\<close> depends on the files; \<open>mtime\<close> is the time of a file, if it can be had.\<close>

definition swap_ecs ::
  "'w run \<Rightarrow> (dir \<Rightarrow> 'w \<Rightarrow> bool \<times> 'w) \<Rightarrow> env \<Rightarrow> string \<Rightarrow> string \<Rightarrow> int \<Rightarrow> int \<Rightarrow> dir \<times> 'w \<Rightarrow> ecs_outcome \<times> dir \<times> 'w" where
  "swap_ecs run checkconf env live staged old fresh = (\<lambda>(d, w).
     let previous = ReadFile env live d;
         (kept, d1) = (case previous of Inl _ \<Rightarrow> (Inr (), d) | Inr data \<Rightarrow> WriteAtomic env (live @ ''.prev'') data 420 d)
     in case kept of
       Inl _ \<Rightarrow> (FailedPrev, remove_file env staged d1, w)
     | Inr _ \<Rightarrow>
         if \<not> io_chmod (en_io env staged) \<or> d1 staged = None then (FailedChmod, remove_file env staged d1, w)
         else
           let d2 = d1(staged := map_option (\<lambda>f. f\<lparr>f_mode := 420\<rparr>) (d1 staged))
           in case rename_file env staged live d2 of
             None \<Rightarrow> (FailedRename, remove_file env staged d2, w)
           | Some d3 \<Rightarrow>
               let (ok, w1) = checkconf d3 w
               in if ok then
                    (let (reloaded, w2) = command_ok run [''unbound-control'', ''reload_keep_cache''] w1
                     in (if reloaded then ECSReloaded old fresh else NotReloaded fresh, d3, w2))
                  else
                    (let d4 = remove_file env live d3;
                         (restored, d5) = (case previous of
                           Inl _ \<Rightarrow> (\<not> en_remove_fails env, d4)
                         | Inr data \<Rightarrow> (case WriteAtomic env live data 420 d4 of (r, e) \<Rightarrow> (r = Inr (), e)))
                     in (if restored then RolledBack else FailedRollback, d5, w1)))"

definition commitECSConf ::
  "'w run \<Rightarrow> (dir \<Rightarrow> 'w \<Rightarrow> bool \<times> 'w) \<Rightarrow> (string \<Rightarrow> int option) \<Rightarrow> int \<Rightarrow> env \<Rightarrow> pipe_config \<Rightarrow> string \<Rightarrow>
    dir \<times> 'w \<Rightarrow> ecs_outcome \<times> dir \<times> 'w" where
  "commitECSConf run checkconf mtime now env c staged = (\<lambda>(d, w).
     let live = pc_ECSConfPath c; fresh = countECSLines env staged d; old = countECSLines env live d;
         minRatio = cfg_Int c ''GUARD_MIN_RATIO'' 40; (added, grew) = ecsOnlyGrew env live staged d;
         wait = go_int (cfg_Int c ''ECS_RELOAD_MIN_SEC'' 21600 * second);
         recent = (case mtime live of None \<Rightarrow> False | Some t \<Rightarrow> time_Sub now t < wait)
     in if fresh = 0 then (KeptEmpty old, remove_file env staged d, w)
        else if 20 \<le> old \<and> fresh < go_int (old * minRatio) div 100 then (KeptDropped old fresh, remove_file env staged d, w)
        else if sameFile env staged live d then (KeptSame fresh, remove_file env staged d, w)
        else if grew \<and> recent then (KeptDeferred added, remove_file env staged d, w)
        else
          let (ok, w1) = checkconf d w
          in if \<not> ok then (KeptBase, remove_file env staged d, w1)
             else swap_ecs run checkconf env live staged old fresh (d, w1))"

end
