(* ===== verification/Commit_Facts.thy ===== *)
theory Commit_Facts
  imports Commit CN_Auth_Facts
begin

text \<open>
  The properties of the commits: the allowlist is either the new one, which the resolver accepted, or what it
  was; a change is put off only if it takes no address away; the set of authorities is replaced in the
  packet filter and on disk together.
\<close>

section \<open>Files\<close>

definition data_at :: "dir \<Rightarrow> string \<Rightarrow> string option" where
  "data_at d path = map_option f_data (d path)"

lemma data_at_upd [simp]: "data_at (d(p := f)) q = (if q = p then map_option f_data f else data_at d q)"
  by (simp add: data_at_def)

lemma WriteAtomic_replaces:
  assumes "WriteAtomic env path data mode d = (Inr u, d')"
  shows "data_at d' path = Some data"
  using assms by (auto simp: WriteAtomic_def Let_def data_at_def split: option.splits if_splits)

lemma WriteAtomic_else:
  assumes "WriteAtomic env path data mode d = (r, d')" and "temps_ok env d0" and "visible p" and "p \<noteq> path"
  shows "data_at d' p = data_at d p"
  using WriteAtomic_other [OF assms(2-4), of data mode d] assms(1) by (simp add: data_at_def)

lemma remove_file_else [simp]: "p \<noteq> path \<Longrightarrow> data_at (remove_file env path d) p = data_at d p"
  by (simp add: remove_file_def)

lemma rename_file_Some:
  assumes "rename_file env old new d = Some d'" and "old \<noteq> new"
  shows "data_at d' new = data_at d old" and "p \<notin> {old, new} \<Longrightarrow> data_at d' p = data_at d p" and "d old \<noteq> None"
  using assms by (auto simp: rename_file_def data_at_def split: option.splits if_splits)

lemma ReadFile_data: "\<not> en_read_fails env p \<Longrightarrow> ReadFile env p d = (case data_at d p of None \<Rightarrow> Inl NotExist | Some x \<Rightarrow> Inr x)"
  by (simp add: ReadFile_def data_at_def split: option.split)

section \<open>The swap of the allowlist\<close>

definition installed :: "ecs_outcome \<Rightarrow> bool" where
  "installed r \<longleftrightarrow> (case r of NotReloaded _ \<Rightarrow> True | ECSReloaded _ _ \<Rightarrow> True | _ \<Rightarrow> False)"

text \<open>
  What a commit may do to the files: the allowlist is the staged one, with which the configuration passes its
  check, or the old one, and no other file changes.
\<close>

definition commit_ok :: "(dir \<Rightarrow> 'w \<Rightarrow> bool \<times> 'w) \<Rightarrow> string \<Rightarrow> string \<Rightarrow> dir \<Rightarrow> ecs_outcome \<Rightarrow> dir \<Rightarrow> bool" where
  "commit_ok checkconf live staged d r d' \<longleftrightarrow>
     (installed r \<longrightarrow> data_at d staged \<noteq> None \<and> data_at d' live = data_at d staged \<and> (\<exists>v v'. checkconf d' v = (True, v'))) \<and>
     (\<not> installed r \<and> r \<noteq> FailedRollback \<longrightarrow> data_at d' live = data_at d live) \<and>
     (\<forall>p. visible p \<and> p \<notin> {live, staged, live @ ''.prev''} \<longrightarrow> data_at d' p = data_at d p)"

lemma swap_ecs_commits:
  assumes "swap_ecs run checkconf env live staged old fresh (d, w) = (r, (d', w'))"
    and "temps_ok env d0" and "visible live" and "visible staged" and "staged \<notin> {live, live @ ''.prev''}" and "\<not> en_read_fails env live"
  shows "commit_ok checkconf live staged d r d'"
proof -
  obtain kept d1 where k: "(case ReadFile env live d of Inl _ \<Rightarrow> (Inr (), d) | Inr data \<Rightarrow> WriteAtomic env (live @ ''.prev'') data 420 d) = (kept, d1)"
    by fastforce
  have d1: "data_at d1 p = data_at d p" if "visible p" "p \<noteq> live @ ''.prev''" for p
    using k WriteAtomic_else [OF _ assms(2) that] by (auto split: sum.splits)
  note s1 = d1 [OF assms(4)] and l1 = d1 [OF assms(3)]
  consider (stop) "r \<in> {FailedPrev, FailedChmod, FailedRename}"
      "\<exists>f. d' = remove_file env staged (d1(staged := f)) \<or> d' = remove_file env staged d1"
    | (swap) d3 ok w1 where "d1 staged \<noteq> None" "rename_file env staged live (d1(staged := map_option (\<lambda>f. f\<lparr>f_mode := 420\<rparr>) (d1 staged))) = Some d3"
      "checkconf d3 w = (ok, w1)"
      "(if ok then
         (let (reloaded, w2) = command_ok run [''unbound-control'', ''reload_keep_cache''] w1
          in (if reloaded then ECSReloaded old fresh else NotReloaded fresh, d3, w2))
       else
         (let d4 = remove_file env live d3;
              (restored, d5) = (case ReadFile env live d of
                Inl _ \<Rightarrow> (\<not> en_remove_fails env, d4)
              | Inr data \<Rightarrow> (case WriteAtomic env live data 420 d4 of (r, e) \<Rightarrow> (r = Inr (), e)))
          in (if restored then RolledBack else FailedRollback, d5, w1))) = (r, d', w')"
    using assms(1) unfolding swap_ecs_def Let_def case_prod_conv k
    by (auto split: sum.splits if_splits option.splits prod.splits)
  then show ?thesis
  proof cases
    case stop
    then show ?thesis using d1 l1 assms(5) by (auto simp: commit_ok_def installed_def)
  next
    case (swap d3 ok w1)
    note r = rename_file_Some [OF swap(2)]
    have st: "data_at d staged \<noteq> None" using s1 swap(1) assms(5) by (cases "d staged") (auto simp: data_at_def)
    have d3: "data_at d3 live = data_at d staged"
        "visible p \<Longrightarrow> p \<notin> {live, staged, live @ ''.prev''} \<Longrightarrow> data_at d3 p = data_at d p" for p
      using r(1) r(2) [of p] d1 [of p] s1 assms(5) swap(1) by (auto simp: data_at_def option.map_comp comp_def)
    show ?thesis
    proof (cases ok)
      case True
      then have "installed r" "d' = d3" using swap(4) by (auto simp: installed_def split: prod.splits if_splits)
      moreover have "\<exists>v v'. checkconf d3 v = (True, v')" using swap(3) True by auto
      ultimately show ?thesis using d3 st by (auto simp: commit_ok_def)
    next
      case False
      have rolled: "data_at d' live = data_at d live" if "r = RolledBack"
        using swap(4) False that ReadFile_data [OF assms(6), of d] WriteAtomic_replaces
        by (auto simp: Let_def remove_file_def data_at_def split: option.splits prod.splits if_splits)
      have other: "data_at d' p = data_at d3 p" if "visible p" "p \<noteq> live" for p
        using swap(4) False WriteAtomic_else [OF _ assms(2) that] that(2) by (auto simp: Let_def split: sum.splits prod.splits if_splits)
      have "r \<in> {RolledBack, FailedRollback}" using swap(4) False by (auto simp: Let_def split: sum.splits prod.splits if_splits)
      then show ?thesis using rolled other d3 by (auto simp: commit_ok_def installed_def)
    qed
  qed
qed

section \<open>Growing\<close>

lemma ecs_prefix_wf: "ecs_prefix s = Some p \<Longrightarrow> wf_prefix p"
  by (auto simp: ecs_prefix_def Let_def split: if_splits option.splits)

lemma ecsPrefixes_wf: "list_all wf_prefix (ecsPrefixes env path d)"
  using ecs_prefix_wf by (auto simp: ecsPrefixes_def list_all_iff List.map_filter_def split: sum.split)

lemma ecsCover_setOf: "ecsCover ps = setOf ps"
  by (simp add: ecsCover_def setOf_def)

lemma ecsOnlyGrew_sound:
  assumes "ecsOnlyGrew env live staged d = (added, True)"
  shows "addrs4 (ecsPrefixes env live d) \<subseteq> addrs4 (ecsPrefixes env staged d)" and "0 < added"
proof
  let ?old = "ecsPrefixes env live d" and ?fresh = "ecsPrefixes env staged d"
  have cov: "CoversPrefix (Some (setOf ?fresh)) p" if "p \<in> set ?old" for p
    using assms that by (auto simp: ecsOnlyGrew_def Let_def ecsCover_setOf list_all_iff split: if_splits)
  show "0 < added" using assms by (auto simp: ecsOnlyGrew_def Let_def split: if_splits)
  fix a assume "a \<in> addrs4 ?old"
  then obtain w p where a: "a = Addr4 w" "p \<in> set ?old" "pfx_IsValid p" "pfx_Contains p (Addr4 w)" by (auto simp: addrs4_def)
  have p: "wf_prefix p" using ecsPrefixes_wf a(2) by (auto simp: list_all_iff)
  have c: "Is4 (pfx_addr p) \<and> span_set (spansOfPrefix p) \<subseteq> points (set_ranges (setOf ?fresh))"
    using cov [OF a(2)] CoversPrefix_iff [OF setOf_inv p a(3)] by blast
  then have "\<not> Is6 (pfx_addr p)" by (cases "pfx_addr p") auto
  then have "uint w \<in> span_set (spansOfPrefix p)" using pfx_Contains_span [OF p a(3), of "Addr4 w"] a(4) by simp
  with c have "uint w \<in> points (set_ranges (setOf ?fresh))" by blast
  then show "a \<in> addrs4 ?fresh" using setOf_points [OF ecsPrefixes_wf] a(1) by (auto simp: addrs4_def)
qed

section \<open>A sample\<close>

text \<open>One entry more than before, and a resolver that refuses the list that holds it.\<close>

definition commit_config :: pipe_config where
  "commit_config = (LoadConfig calm ''/s'' [] Map.empty)\<lparr>pc_ECSConfPath := ''live''\<rparr>"

definition sample_files :: dir where
  "sample_files = [''live'' \<mapsto> \<lparr>f_data = ''send-client-subnet: 1.0.0.0/24'', f_mode = 420\<rparr>,
     ''staged'' \<mapsto> \<lparr>f_data = ''send-client-subnet: 1.0.0.0/24'' @ CHR 0x0A # ''send-client-subnet: 1.0.1.0/24'', f_mode = 384\<rparr>]"

definition picky :: "dir \<Rightarrow> bool \<Rightarrow> bool \<times> bool" where
  "picky d w = (map_option (length \<circ> f_data) (d ''live'') \<noteq> Some 61, w)"

section \<open>Properties\<close>



text \<open>A commit of the set of authorities replaces the file only after the packet filter took the new set; a
  refused list, one that cannot be read or one with a sudden drop leaves both as they were.\<close>

theorem commitAuthoritySet_error:
  assumes "commitAuthoritySet load env c live staged (d, w) = (err, (d', w'))" and "staged \<noteq> live"
  shows "case err of
      None \<Rightarrow> \<exists>pfxs. loadPrefixFile env staged d = Inr pfxs \<and> LoadNFTSet load c (pc_AuthoritySet c) pfxs w = (True, w') \<and>
        data_at d' live = data_at d staged \<and>
        (20 \<le> countPrefixes env live d \<longrightarrow> go_int (countPrefixes env live d * cfg_Int c ''GUARD_MIN_RATIO'' 40) div 100 \<le> countPrefixes env staged d)
    | Some SetNotLoaded \<Rightarrow> data_at d' live = data_at d live \<and>
        (\<exists>pfxs. loadPrefixFile env staged d = Inr pfxs \<and> LoadNFTSet load c (pc_AuthoritySet c) pfxs w = (False, w'))
    | Some RenameRefused \<Rightarrow> d' = d \<and> (\<exists>pfxs. loadPrefixFile env staged d = Inr pfxs \<and> LoadNFTSet load c (pc_AuthoritySet c) pfxs w = (True, w'))
    | Some _ \<Rightarrow> data_at d' live = data_at d live \<and> w' = w"
  using assms by (auto simp: commitAuthoritySet_def Let_def rename_file_Some(1) split: if_splits sum.splits option.splits prod.splits)

theorem commitAuthoritySet_error_witness:
  "data_at (fst (snd (commitAuthoritySet (\<lambda>_ w. (False, w)) calm commit_config ''live'' ''staged'' (sample_files, False)))) ''live'' =
    data_at sample_files ''live''"
proof -
  let ?r = "commitAuthoritySet (\<lambda>_ w. (False, w)) calm commit_config ''live'' ''staged'' (sample_files, False)"
  have r: "?r = (fst ?r, (fst (snd ?r), snd (snd ?r)))" by simp
  have "fst ?r = Some SetNotLoaded" by code_simp
  then show ?thesis using commitAuthoritySet_error [OF r] by simp
qed

end
