(* ===== verification/Geo_Audit_Facts.thy ===== *)
theory Geo_Audit_Facts
  imports Geo_Audit
begin

text \<open>
  What the comparison of the databases decides: the sweep over the edges finds exactly the addresses
  that enough spans hold; a scan puts an address into at most one span of its database, as the lookup
  of the address says; and the written snapshots are read back.
\<close>

section \<open>The sweep\<close>

definition gs_has :: "u32 \<Rightarrow> geo_span \<Rightarrow> bool" where
  "gs_has v s \<longleftrightarrow> gs_Lo s \<le> v \<and> v \<le> gs_Hi s"

definition cover :: "u32 \<Rightarrow> geo_span list \<Rightarrow> nat" where
  "cover v spans = length (filter (gs_has v) spans)"

definition gs_range :: "geo_span \<Rightarrow> range" where
  "gs_range s = Range (gs_Lo s) (gs_Hi s)"

text \<open>The depth that the edges up to an address reach.\<close>

definition depth_at :: "int \<Rightarrow> edge list \<Rightarrow> u32 \<Rightarrow> int" where
  "depth_at d es v = d + sum_list (map ed_delta (filter (\<lambda>e. ed_at e \<le> v) es))"

lemma pred_less_iff: "s < (p :: u32) \<Longrightarrow> v \<le> p - 1 \<longleftrightarrow> v < p"
  using uint_pred_less [of s p] by (auto simp: word_le_def word_less_def)

lemma gap_count: "s < (p :: u32) \<Longrightarrow> ucast (p - s) = range_count (Range s (p - 1))"
proof -
  assume sp: "s < p"
  have "uint (p - 1 - s) = uint p - uint s - 1"
    using sp uint_pred_less [OF sp] pred_less_iff [OF sp, of s] by (subst uint_sub_ge) (auto simp: word_le_def)
  moreover have "uint (p - s) = uint p - uint s" using sp by (intro uint_sub_ge) simp
  ultimately have "range_count (Range s (p - 1)) = word_of_int (uint p - uint s - 1) + 1"
      "(ucast (p - s) :: u64) = word_of_int (uint p - uint s)"
    by (simp_all only: range_count_def ucast_eq range.sel)
  then show ?thesis by simp
qed

definition sweep_bound :: "int \<Rightarrow> edge list \<Rightarrow> sweep_state \<Rightarrow> geo_span \<Rightarrow> bool" where
  "sweep_bound need es s x \<longleftrightarrow>
     (if need \<le> sw_depth s then sw_start s \<le> gs_Lo x else \<exists>e \<in> set es. ed_at e \<le> gs_Lo x)"

definition sweep_ok :: "int \<Rightarrow> edge list \<Rightarrow> sweep_state \<Rightarrow> geo_span list \<Rightarrow> bool" where
  "sweep_ok need es s new \<longleftrightarrow>
     sw_out (sweep need es s) = sw_out s @ new \<and>
     sw_total (sweep need es s) = foldl (\<lambda>n r. n + range_count r) (sw_total s) (map gs_range new) \<and>
     (\<forall>v. (\<exists>x \<in> set new. gs_has v x) \<longleftrightarrow>
        need \<le> depth_at (sw_depth s) es v \<and> (need \<le> sw_depth s \<longrightarrow> sw_start s \<le> v)) \<and>
     normal_ranges (map gs_range new) \<and> (\<forall>x \<in> set new. sweep_bound need es s x)"

lemma depth_at_group:
  assumes "\<forall>e \<in> set evs. ed_at e = p" and "\<forall>e \<in> set rest. p < ed_at e"
  shows "depth_at d (evs @ rest) v =
    (if v < p then d else depth_at (d + sum_list (map ed_delta evs)) rest v)"
proof (cases "v < p")
  case True
  then have "filter (\<lambda>e. ed_at e \<le> v) (evs @ rest) = []"
    using assms by (auto simp: filter_empty_conv not_le)
  then show ?thesis using True by (simp only: depth_at_def) simp
next
  case False
  then have "filter (\<lambda>e. ed_at e \<le> v) evs = evs" using assms(1) by (simp add: filter_id_conv not_less)
  then show ?thesis using False by (simp add: depth_at_def)
qed

lemma depth_at_above: "\<forall>e \<in> set es. v < ed_at e \<Longrightarrow> depth_at d es v = d"
proof -
  assume "\<forall>e \<in> set es. v < ed_at e"
  then have "filter (\<lambda>e. ed_at e \<le> v) es = []" by (auto simp: filter_empty_conv not_le)
  then show ?thesis by (simp add: depth_at_def)
qed

lemma sweep_correct:
  assumes "sorted (map ed_at es)" and "sw_depth s + sum_list (map ed_delta es) < need"
    and "need \<le> sw_depth s \<Longrightarrow> \<forall>e \<in> set es. sw_start s \<le> ed_at e"
  shows "\<exists>new. sweep_ok need es s new"
  using assms
proof (induction need es s rule: sweep.induct)
  case (1 need s)
  then show ?case by (intro exI [of _ "[]"]) (simp add: sweep_ok_def depth_at_def)
next
  case (2 need e es s)
  let ?p = "ed_at e" and ?g = "e # takeWhile (\<lambda>x. ed_at x = ed_at e) es" and ?r = "dropWhile (\<lambda>x. ed_at x = ed_at e) es"
  let ?s = "sweep_group need ?g s"
  define d where "d = sw_depth s"
  define d' where "d' = d + sum_list (map ed_delta ?g)"
  have split: "e # es = ?g @ ?r" by simp
  have g: "\<forall>x \<in> set ?g. ed_at x = ?p" by (auto dest: set_takeWhileD)
  have sr: "sorted (map ed_at ?r)"
    using 2(2) by (metis (no_types, lifting) split map_append sorted_append)
  have above: "\<forall>x \<in> set ?r. ?p < ed_at x"
  proof
    fix x assume x: "x \<in> set ?r"
    then obtain y ys where r: "?r = y # ys" by (cases ?r) auto
    have y: "ed_at y \<noteq> ?p" using hd_dropWhile [of "\<lambda>x. ed_at x = ed_at e" es] r by auto
    have "y \<in> set es" using r by (metis list.set_intros(1) set_dropWhileD)
    then have "?p \<le> ed_at y" using 2(2) by simp
    moreover have "ed_at y \<le> ed_at x" using sr x unfolding r by auto
    ultimately show "?p < ed_at x" using y by simp
  qed
  have dep: "depth_at d (e # es) v = (if v < ?p then d else depth_at d' ?r v)" for v
    unfolding split d'_def by (rule depth_at_group [OF g above])
  have depth': "sw_depth ?s = d'" by (simp add: sweep_group_def Let_def d'_def d_def)
  have sum: "d' + sum_list (map ed_delta ?r) < need"
  proof -
    have "sum_list (map ed_delta (e # es)) = sum_list (map ed_delta ?g) + sum_list (map ed_delta ?r)"
      by (metis split map_append sum_list_append)
    then show ?thesis using 2(3) by (simp add: d'_def d_def)
  qed
  have low: "depth_at d' ?r v = d'" if "v \<le> ?p" for v
    using that above by (intro depth_at_above) auto
  have start: "sw_start s \<le> ?p" if "need \<le> d" using 2(4) that by (simp add: d_def)
  have sw: "sweep need (e # es) s = sweep need ?r ?s" by simp
  consider (rise) "d < need" "need \<le> d'" | (fall) "need \<le> d" "d' < need"
    | (in_) "need \<le> d" "need \<le> d'" | (out) "d < need" "d' < need" by linarith
  then show ?case
  proof cases
    case rise
    then have s: "sw_out ?s = sw_out s" "sw_total ?s = sw_total s" "sw_start ?s = ?p"
      by (simp_all add: sweep_group_def Let_def d'_def d_def)
    have "\<exists>new. sweep_ok need ?r ?s new"
      by (rule 2(1) [OF sr]) (use sum depth' above s(3) in auto)
    then obtain new where new: "sweep_ok need ?r ?s new" ..
    have "(need \<le> depth_at d' ?r v \<and> (need \<le> d' \<longrightarrow> ?p \<le> v)) \<longleftrightarrow> need \<le> depth_at d (e # es) v" for v
      unfolding dep using rise by auto
    with new rise show ?thesis
      by (intro exI [of _ new]) (auto simp: sweep_ok_def sweep_bound_def sw depth' s simp flip: d_def)
  next
    case in_
    then have s: "sw_out ?s = sw_out s" "sw_total ?s = sw_total s" "sw_start ?s = sw_start s"
      by (simp_all add: sweep_group_def Let_def d'_def d_def)
    have "\<exists>new. sweep_ok need ?r ?s new"
      by (rule 2(1) [OF sr]) (use sum depth' above s(3) start in_ in auto)
    then obtain new where new: "sweep_ok need ?r ?s new" ..
    have "need \<le> depth_at d' ?r v \<longleftrightarrow> need \<le> depth_at d (e # es) v" for v
      unfolding dep using in_ low [of v] by auto
    with new in_ show ?thesis
      by (intro exI [of _ new]) (auto simp: sweep_ok_def sweep_bound_def sw depth' s simp flip: d_def)
  next
    case out
    then have s: "sw_out ?s = sw_out s" "sw_total ?s = sw_total s"
      by (simp_all add: sweep_group_def Let_def d'_def d_def)
    have "\<exists>new. sweep_ok need ?r ?s new"
      by (rule 2(1) [OF sr]) (use sum depth' out in auto)
    then obtain new where new: "sweep_ok need ?r ?s new" ..
    have "need \<le> depth_at d' ?r v \<longleftrightarrow> need \<le> depth_at d (e # es) v" for v
      unfolding dep using out low [of v] by auto
    with new out show ?thesis
      by (intro exI [of _ new])
        (auto simp: sweep_ok_def sweep_bound_def sw depth' s simp flip: d_def dest!: set_dropWhileD)
  next
    case fall
    let ?x = "\<lparr>gs_Lo = sw_start s, gs_Hi = ?p - 1, gs_Country = fold note_code ?g (sw_code s), gs_Source = ''agreed''\<rparr>"
    let ?one = "if sw_start s < ?p then [?x] else []"
    have s: "sw_out ?s = sw_out s @ ?one"
        "sw_total ?s = foldl (\<lambda>n r. n + range_count r) (sw_total s) (map gs_range ?one)"
      using fall gap_count [of "sw_start s" ?p]
      by (simp_all add: sweep_group_def Let_def d'_def d_def gs_range_def)
    have "\<exists>new. sweep_ok need ?r ?s new"
      by (rule 2(1) [OF sr]) (use sum depth' fall in auto)
    then obtain new where new: "sweep_ok need ?r ?s new" ..
    have one: "(\<exists>x \<in> set ?one. gs_has v x) \<longleftrightarrow> sw_start s \<le> v \<and> v < ?p" for v
      using pred_less_iff [of "sw_start s" ?p v] start fall(1) by (auto simp: gs_has_def)
    have cov: "(\<exists>x \<in> set (?one @ new). gs_has v x) \<longleftrightarrow> need \<le> depth_at d (e # es) v \<and> sw_start s \<le> v" for v
    proof -
      have "(\<exists>x \<in> set new. gs_has v x) \<longleftrightarrow> need \<le> depth_at d' ?r v"
        using new fall by (simp add: sweep_ok_def depth')
      moreover have "\<not> need \<le> depth_at d' ?r v" if "v \<le> ?p" using low [OF that] fall(2) by simp
      ultimately show ?thesis using one [of v] fall(1) start unfolding dep set_append bex_Un by auto
    qed
    have later: "?p < gs_Lo x" if "x \<in> set new" for x
      using new fall(2) that above by (fastforce simp: sweep_ok_def sweep_bound_def depth')
    have norm: "normal_ranges (map gs_range (?one @ new))"
    proof -
      have "sw_start s \<le> ?p - 1 \<and> uint (?p - 1) + 1 < uint (gs_Lo x)" if "x \<in> set new" "sw_start s < ?p" for x
        using later [OF that(1)] uint_pred_less [OF that(2)] pred_less_iff [OF that(2)] that(2) by (auto simp: word_less_def)
      moreover have "sw_start s \<le> ?p - 1" if "sw_start s < ?p" using pred_less_iff [OF that] that by simp
      ultimately show ?thesis using new by (auto simp: sweep_ok_def gs_range_def)
    qed
    have "sweep_ok need (e # es) s (?one @ new)"
      unfolding sweep_ok_def sw
    proof (intro conjI allI ballI)
      show "sw_out (sweep need ?r ?s) = sw_out s @ ?one @ new" using new s(1) by (simp add: sweep_ok_def)
      show "sw_total (sweep need ?r ?s) = foldl (\<lambda>n r. n + range_count r) (sw_total s) (map gs_range (?one @ new))"
        using new s(2) by (simp add: sweep_ok_def)
      show "(\<exists>x \<in> set (?one @ new). gs_has v x) \<longleftrightarrow>
          need \<le> depth_at (sw_depth s) (e # es) v \<and> (need \<le> sw_depth s \<longrightarrow> sw_start s \<le> v)" for v
        using cov fall(1) by (simp add: d_def)
      show "normal_ranges (map gs_range (?one @ new))" by (rule norm)
      show "sweep_bound need (e # es) s x" if "x \<in> set (?one @ new)" for x
        using that later [of x] start [OF fall(1)] fall(1) by (auto simp: sweep_bound_def d_def split: if_splits)
    qed
    then show ?thesis ..
  qed
qed

section \<open>Agreement\<close>

definition bounded_span :: "geo_span \<Rightarrow> bool" where
  "bounded_span s \<longleftrightarrow> gs_Lo s \<le> gs_Hi s \<and> gs_Hi s \<noteq> u32_max"

lemma cover_simps [simp]:
  "cover v [] = 0" "cover v (s # spans) = of_bool (gs_has v s) + cover v spans"
  "cover v (xs @ ys) = cover v xs + cover v ys"
  by (simp_all add: cover_def)

lemma depth_at_span_edges:
  "\<forall>s \<in> set spans. bounded_span s \<Longrightarrow> depth_at 0 (concat (map span_edges spans)) v = int (cover v spans)"
proof (induction spans)
  case (Cons s spans)
  have "gs_Hi s + 1 \<le> v \<longleftrightarrow> gs_Hi s < v" "gs_Lo s \<le> gs_Hi s" "gs_Hi s \<noteq> u32_max"
    using Cons.prems uint_succ [of "gs_Hi s"] by (auto simp: bounded_span_def word_le_def word_less_def)
  with Cons show ?case by (auto simp: depth_at_def span_edges_def gs_has_def not_le)
qed (simp add: depth_at_def)

lemma span_edges_balance: "\<forall>s \<in> set spans. bounded_span s \<Longrightarrow> sum_list (map ed_delta (concat (map span_edges spans))) = 0"
  by (induction spans) (auto simp: span_edges_def bounded_span_def)

lemma depth_at_mset: "mset es = mset es' \<Longrightarrow> depth_at d es v = depth_at d es' v"
proof -
  assume "mset es = mset es'"
  then have "mset (map ed_delta (filter (\<lambda>e. ed_at e \<le> v) es)) = mset (map ed_delta (filter (\<lambda>e. ed_at e \<le> v) es'))"
    by (simp add: mset_filter)
  then show ?thesis by (metis depth_at_def sum_mset_sum_list)
qed

lemma mergeAgreement_correct:
  assumes "1 \<le> need" and "\<forall>s \<in> set (concat sets). bounded_span s"
  shows "(\<exists>x \<in> set (fst (mergeAgreement sets need)). gs_has v x) \<longleftrightarrow> need \<le> int (cover v (concat sets))"
    and "normal_ranges (map gs_range (fst (mergeAgreement sets need)))"
    and "snd (mergeAgreement sets need) = sum_counts (map gs_range (fst (mergeAgreement sets need)))"
proof -
  let ?es = "concat (map span_edges (concat sets))"
  let ?sorted = "sort_key edge_key ?es"
  have "sorted (map edge_key ?sorted)" by simp
  then have "sorted (map ed_at ?sorted)"
    by (simp add: sorted_map) (rule sorted_wrt_mono_rel, auto simp: edge_key_def less_eq_prod_def)
  moreover have "sum_list (map ed_delta ?sorted) = 0"
    using span_edges_balance [OF assms(2)] by (metis mset_map mset_sort sum_mset_sum_list)
  ultimately obtain new where new: "sweep_ok need ?sorted sweep_zero new"
    using sweep_correct [of ?sorted sweep_zero need] assms(1) by (auto simp: sweep_zero_def)
  have "depth_at 0 ?sorted v = int (cover v (concat sets))" for v
    using depth_at_span_edges [OF assms(2)] depth_at_mset [of ?sorted ?es] by simp
  with new assms(1) show "(\<exists>x \<in> set (fst (mergeAgreement sets need)). gs_has v x) \<longleftrightarrow> need \<le> int (cover v (concat sets))"
    and "normal_ranges (map gs_range (fst (mergeAgreement sets need)))"
    and "snd (mergeAgreement sets need) = sum_counts (map gs_range (fst (mergeAgreement sets need)))"
    by (simp_all add: sweep_ok_def mergeAgreement_def Let_def sweep_zero_def sum_counts_def not_less)
qed

section \<open>One network against the list\<close>

definition rcover :: "u32 \<Rightarrow> range list \<Rightarrow> nat" where
  "rcover v rs = length (filter (\<lambda>r. Lo r \<le> v \<and> v \<le> Hi r) rs)"

lemma rcover_simps [simp]:
  "rcover v [] = 0" "rcover v (r # rs) = of_bool (Lo r \<le> v \<and> v \<le> Hi r) + rcover v rs"
  "rcover v (xs @ ys) = rcover v xs + rcover v ys"
  by (simp_all add: rcover_def)

lemma rcover_normal: "normal_ranges rs \<Longrightarrow> rcover v rs = of_bool (uint v \<in> points rs)"
proof (induction rs)
  case (Cons r rs)
  have "uint v \<notin> points rs" if "v \<le> Hi r"
    using points_above [OF Cons.prems, of "uint v"] that by (auto simp: word_le_def)
  with Cons show ?case by (auto simp: mem_span_set word_le_def)
qed simp

lemma rangesOverlap_cases:
  assumes "Lo b \<le> Hi b" and "Lo a \<le> Hi a"
  shows "(case rangesOverlap a b of None \<Rightarrow> [] | Some part \<Rightarrow> [part]) =
    (if Lo b \<le> Hi a \<and> Lo a \<le> Hi b then [Range (max (Lo a) (Lo b)) (min (Hi a) (Hi b))] else [])"
  using assms by (auto simp: rangesOverlap_def Let_def max_def min_def not_le not_less)

lemma intersect_from_correct:
  assumes "normal_ranges rs" and "Lo sp \<le> Hi sp"
  shows "normal_ranges (intersect_from sp rs) \<and> points (intersect_from sp rs) = span_set (span_of sp) \<inter> points rs \<and>
    (\<forall>h \<in> set (intersect_from sp rs). \<exists>r \<in> set rs. Lo r \<le> Lo h \<and> Hi h \<le> Hi r)"
  using assms(1)
proof (induction rs)
  case (Cons r rs)
  have r: "Lo r \<le> Hi r" and later: "\<And>x. x \<in> set rs \<Longrightarrow> uint (Hi r) + 1 < uint (Lo x)" and IH:
    "normal_ranges (intersect_from sp rs)" "points (intersect_from sp rs) = span_set (span_of sp) \<inter> points rs"
    "\<forall>h \<in> set (intersect_from sp rs). \<exists>r \<in> set rs. Lo r \<le> Lo h \<and> Hi h \<le> Hi r"
    using Cons by auto
  show ?case
  proof (cases "Lo r \<le> Hi sp")
    case False
    have "uint (Hi sp) < x" if "x \<in> points (r # rs)" for x
      using that False points_above [OF Cons.prems, of x] r by (auto simp: mem_span_set word_le_def)
    then show ?thesis using False by (fastforce simp: mem_span_set)
  next
    case True
    have u: "uint (max (Lo sp) (Lo r)) = max (uint (Lo sp)) (uint (Lo r))"
      "uint (min (Hi sp) (Hi r)) = min (uint (Hi sp)) (uint (Hi r))"
      by (auto simp: max_def min_def word_le_def)
    have gap: "uint (min (Hi sp) (Hi r)) + 1 < uint (Lo h)" if h: "h \<in> set (intersect_from sp rs)" for h
    proof -
      obtain q where "q \<in> set rs" "Lo q \<le> Lo h" using IH(3) h by blast
      with later [of q] show ?thesis by (simp add: u word_le_def)
    qed
    have "max (Lo sp) (Lo r) \<le> min (Hi sp) (Hi r)" if "Lo sp \<le> Hi r"
      using that True r assms(2) by simp
    then have "normal_ranges (intersect_from sp (r # rs))"
      using IH(1) gap True by (simp add: rangesOverlap_cases [OF r assms(2)])
    moreover have "points (intersect_from sp (r # rs)) = span_set (span_of sp) \<inter> points (r # rs)"
      using True by (auto simp: rangesOverlap_cases [OF r assms(2)] IH(2) mem_span_set u word_le_def)
    ultimately show ?thesis using True IH(3) by (auto simp: rangesOverlap_cases [OF r assms(2)])
  qed
qed simp

lemma audit_intersect_correct:
  assumes "normal_ranges direct" and "Lo sp \<le> Hi sp"
  shows "normal_ranges (audit_intersect sp direct)"
    and "points (audit_intersect sp direct) = span_set (span_of sp) \<inter> points direct"
proof -
  let ?n = "sort_Search (length direct) (\<lambda>i. Hi (direct ! i) \<ge> Lo sp)"
  have n: "normal_ranges (take ?n direct)" "normal_ranges (drop ?n direct)"
    using assms(1) by (metis append_take_drop_id normal_ranges_append)+
  have up: "upward (length direct) (\<lambda>i. Hi (direct ! i) \<ge> Lo sp)"
    using normal_hi_mono [of "map span_of direct" _ _ "uint (Lo sp)"] assms(1)
    by (fastforce simp: upward_def normal_ranges_def word_le_def)
  have below: "Hi r < Lo sp" if r: "r \<in> set (take ?n direct)" for r
  proof -
    obtain k where "k < length (take ?n direct)" "r = take ?n direct ! k" using r unfolding in_set_conv_nth by blast
    then have "k < ?n" "k < length direct" "r = direct ! k" by simp_all
    with sort_Search_least(1) [OF up, of k] show ?thesis by (simp add: not_le)
  qed
  have "span_set (span_of sp) \<inter> points (take ?n direct) = {}"
    using below by (fastforce simp: mem_spans_set mem_span_set word_less_def)
  moreover have "points direct = points (take ?n direct) \<union> points (drop ?n direct)"
    by (metis append_take_drop_id map_append spans_set_simps(3))
  ultimately show "normal_ranges (audit_intersect sp direct)"
    and "points (audit_intersect sp direct) = span_set (span_of sp) \<inter> points direct"
    using intersect_from_correct [OF n(2) assms(2)] by (auto simp: audit_intersect_def)
qed

lemma subtract_hits_correct:
  assumes "normal_ranges hits" and "\<forall>h \<in> set hits. cur \<le> Lo h \<and> Hi h \<le> hi" and "cur \<le> hi \<or> hits = []"
  shows "rcover v (subtract_hits cur hi hits) = of_bool (cur \<le> v \<and> v \<le> hi \<and> uint v \<notin> points hits) \<and>
    wf_ranges (subtract_hits cur hi hits)"
  using assms
proof (induction hits arbitrary: cur)
  case (Cons hit hits)
  have hit: "cur \<le> Lo hit" "Lo hit \<le> Hi hit" "Hi hit \<le> hi"
    and later: "\<And>x. x \<in> set hits \<Longrightarrow> uint (Hi hit) + 1 < uint (Lo x)" and n: "normal_ranges hits"
    using Cons.prems by auto
  let ?piece = "if Lo hit > cur then [Range cur (Lo hit - 1)] else []"
  have piece: "rcover v ?piece = of_bool (cur \<le> v \<and> v < Lo hit)" "wf_ranges ?piece"
    using pred_less_iff [of cur "Lo hit" v] pred_less_iff [of cur "Lo hit" cur] hit(1) by auto
  have out: "uint v \<notin> points hits" if "v \<le> Hi hit"
    using points_above [OF Cons.prems(1), of "uint v"] that by (auto simp: word_le_def)
  show ?case
  proof (cases "Hi hit = u32_max")
    case True
    have "\<not> uint (Hi hit) + 1 < uint (Lo x)" for x
      using uint_lt2p [of "Lo x"] by (simp add: True unsigned_minus_1_eq_mask mask_eq_exp_minus_1)
    then have "hits = []" using later by (cases hits) auto
    moreover have "v \<le> Hi hit" "hi = Hi hit" using True hit(3) by (simp_all add: antisym)
    ultimately show ?thesis using True piece hit by (auto simp: mem_span_set word_le_def word_less_def)
  next
    case False
    have u: "uint (Hi hit + 1) = uint (Hi hit) + 1" using False by (rule uint_succ)
    have cur: "Hi hit \<ge> cur" using hit by simp
    let ?rest = "subtract_hits (Hi hit + 1) hi hits"
    have "rcover v ?rest = of_bool (Hi hit + 1 \<le> v \<and> v \<le> hi \<and> uint v \<notin> points hits) \<and> wf_ranges ?rest"
    proof (rule Cons.IH [OF n])
      show "\<forall>h \<in> set hits. Hi hit + 1 \<le> Lo h \<and> Hi h \<le> hi" using later Cons.prems(2)
        by (auto simp: word_le_def u intro: less_imp_le)
      show "Hi hit + 1 \<le> hi \<or> hits = []"
      proof (cases hits)
        case (Cons q qs)
        then have "uint (Hi hit) + 1 < uint (Lo q)" "Lo q \<le> Hi q" "Hi q \<le> hi"
          using later n Cons.prems(2) by auto
        then show ?thesis by (simp add: word_le_def u)
      qed simp
    qed
    then show ?thesis using piece hit cur False out u
      by (auto simp: mem_span_set word_le_def word_less_def)
  qed
qed auto

lemma subtractSorted_correct:
  assumes "normal_ranges direct" and "Lo sp \<le> Hi sp"
  shows "rcover v (subtractSorted sp (audit_intersect sp direct)) =
      of_bool (uint v \<in> span_set (span_of sp) \<and> uint v \<notin> points direct)"
    and "wf_ranges (subtractSorted sp (audit_intersect sp direct))"
proof -
  note c = audit_intersect_correct [OF assms]
  have "Lo sp \<le> Lo h \<and> Hi h \<le> Hi sp" if h: "h \<in> set (audit_intersect sp direct)" for h
  proof -
    have "Lo h \<le> Hi h" using c(1) normal_ranges_wf h by (auto simp: list_all_iff)
    then have "uint (Lo h) \<in> points (audit_intersect sp direct)" "uint (Hi h) \<in> points (audit_intersect sp direct)"
      using h by (auto simp: mem_points)
    then show ?thesis unfolding c(2) by (simp add: mem_span_set word_le_def)
  qed
  then have "rcover v (subtractSorted sp (audit_intersect sp direct)) =
      of_bool (Lo sp \<le> v \<and> v \<le> Hi sp \<and> uint v \<notin> points (audit_intersect sp direct)) \<and>
      wf_ranges (subtractSorted sp (audit_intersect sp direct))"
    unfolding subtractSorted_def by (intro subtract_hits_correct c(1)) (use assms(2) in auto)
  then show "rcover v (subtractSorted sp (audit_intersect sp direct)) =
      of_bool (uint v \<in> span_set (span_of sp) \<and> uint v \<notin> points direct)"
    and "wf_ranges (subtractSorted sp (audit_intersect sp direct))"
    by (auto simp: c(2) mem_span_set word_le_def)
qed

lemma global_cover:
  "wf_ranges cuts \<Longrightarrow> rcover v (concat (map GlobalParts cuts)) = (if uint v \<in> nonglobal then 0 else rcover v cuts)"
proof (induction cuts)
  case (Cons r cuts)
  then have "Lo r \<le> Hi r" by simp
  from GlobalParts_correct [OF this] Cons show ?case
    by (auto simp: rcover_normal mem_span_set word_le_def)
qed simp

section \<open>One scan\<close>

definition abroad :: "string \<Rightarrow> bool" where
  "abroad country \<longleftrightarrow> ToUpper (TrimSpace country) \<noteq> [] \<and> ToUpper (TrimSpace country) \<noteq> ''CN''"

definition at_home :: "string \<Rightarrow> bool" where
  "at_home country \<longleftrightarrow> ToUpper (TrimSpace country) = ''CN''"

lemma no_country [simp]: "\<not> abroad []" "\<not> at_home []"
  by (simp_all add: abroad_def at_home_def TrimSpace_def ToUpper_def)

definition scan_ok :: "scan_result \<Rightarrow> bool" where
  "scan_ok s \<longleftrightarrow> (\<forall>x \<in> set (sr_offshore s) \<union> set (sr_mainland s). bounded_span x)"

lemma appendSpan_cover:
  assumes "\<forall>x \<in> set dst. bounded_span x" and "lo \<le> hi" and "hi \<noteq> u32_max"
  shows "cover v (appendSpan dst lo hi country name) = cover v dst + of_bool (lo \<le> v \<and> v \<le> hi)"
    and "\<forall>x \<in> set (appendSpan dst lo hi country name). bounded_span x"
proof -
  have "cover v (appendSpan dst lo hi country name) = cover v dst + of_bool (lo \<le> v \<and> v \<le> hi) \<and>
      (\<forall>x \<in> set (appendSpan dst lo hi country name). bounded_span x)"
  proof (cases dst rule: rev_cases)
    case (snoc xs x)
    show ?thesis
    proof (cases "gs_Country x = country \<and> gs_Hi x \<noteq> u32_max \<and> gs_Hi x + 1 = lo")
      case True
      then have lo: "uint lo = uint (gs_Hi x) + 1" using uint_succ [of "gs_Hi x"] by auto
      have x: "gs_Lo x \<le> gs_Hi x" using assms(1) snoc by (simp add: bounded_span_def)
      have "appendSpan dst lo hi country name = xs @ [x\<lparr>gs_Hi := hi\<rparr>]" using True snoc by (simp add: appendSpan_def)
      then show ?thesis using assms snoc x lo by (auto simp: gs_has_def word_le_def bounded_span_def)
    next
      case False
      then have "appendSpan dst lo hi country name = dst @ [\<lparr>gs_Lo = lo, gs_Hi = hi, gs_Country = country, gs_Source = name\<rparr>]"
        using snoc by (auto simp: appendSpan_def)
      then show ?thesis using assms by (auto simp: gs_has_def bounded_span_def)
    qed
  qed (use assms in \<open>simp add: appendSpan_def gs_has_def bounded_span_def\<close>)
  then show "cover v (appendSpan dst lo hi country name) = cover v dst + of_bool (lo \<le> v \<and> v \<le> hi)"
    and "\<forall>x \<in> set (appendSpan dst lo hi country name). bounded_span x" by blast+
qed

lemma fold_add_offshore:
  assumes "scan_ok s" and "\<forall>r \<in> set parts. Lo r \<le> Hi r \<and> Hi r \<noteq> u32_max"
  shows "cover v (sr_offshore (fold (add_offshore name country) parts s)) = cover v (sr_offshore s) + rcover v parts"
    and "sr_mainland (fold (add_offshore name country) parts s) = sr_mainland s"
    and "scan_ok (fold (add_offshore name country) parts s)"
proof -
  have "cover v (sr_offshore (fold (add_offshore name country) parts s)) = cover v (sr_offshore s) + rcover v parts \<and>
      sr_mainland (fold (add_offshore name country) parts s) = sr_mainland s \<and>
      scan_ok (fold (add_offshore name country) parts s)"
    using assms
  proof (induction parts arbitrary: s)
    case (Cons r parts)
    have "scan_ok (add_offshore name country r s)"
      using Cons.prems appendSpan_cover(2) [of "sr_offshore s" "Lo r" "Hi r" country name]
      by (auto simp: scan_ok_def add_offshore_def)
    from Cons.IH [OF this] Cons.prems appendSpan_cover(1) [of "sr_offshore s" "Lo r" "Hi r" v country name]
    show ?case by (simp add: scan_ok_def) (simp add: add_offshore_def)
  qed simp
  then show "cover v (sr_offshore (fold (add_offshore name country) parts s)) = cover v (sr_offshore s) + rcover v parts"
    and "sr_mainland (fold (add_offshore name country) parts s) = sr_mainland s"
    and "scan_ok (fold (add_offshore name country) parts s)" by blast+
qed

lemma fold_add_mainland:
  assumes "scan_ok s" and "\<forall>r \<in> set parts. Lo r \<le> Hi r \<and> Hi r \<noteq> u32_max"
  shows "cover v (sr_mainland (fold (add_mainland name) parts s)) = cover v (sr_mainland s) + rcover v parts"
    and "sr_offshore (fold (add_mainland name) parts s) = sr_offshore s"
    and "scan_ok (fold (add_mainland name) parts s)"
proof -
  have "cover v (sr_mainland (fold (add_mainland name) parts s)) = cover v (sr_mainland s) + rcover v parts \<and>
      sr_offshore (fold (add_mainland name) parts s) = sr_offshore s \<and> scan_ok (fold (add_mainland name) parts s)"
    using assms
  proof (induction parts arbitrary: s)
    case (Cons r parts)
    have "scan_ok (add_mainland name r s)"
      using Cons.prems appendSpan_cover(2) [of "sr_mainland s" "Lo r" "Hi r" "''CN''" name]
      by (auto simp: scan_ok_def add_mainland_def)
    from Cons.IH [OF this] Cons.prems appendSpan_cover(1) [of "sr_mainland s" "Lo r" "Hi r" v "''CN''" name]
    show ?case by (simp add: scan_ok_def) (simp add: add_mainland_def)
  qed simp
  then show "cover v (sr_mainland (fold (add_mainland name) parts s)) = cover v (sr_mainland s) + rcover v parts"
    and "sr_offshore (fold (add_mainland name) parts s) = sr_offshore s"
    and "scan_ok (fold (add_mainland name) parts s)" by blast+
qed

text \<open>The list the databases are compared with holds global addresses only.\<close>

definition direct_ok :: "range list \<Rightarrow> bool" where
  "direct_ok direct \<longleftrightarrow> normal_ranges direct \<and> points direct \<inter> nonglobal = {}"

lemma top_nonglobal: "uint u32_max \<in> nonglobal"
proof -
  have "Prefix (Addr4 (v4 240 0 0 0)) 4 \<in> set nonGlobalPrefixes" by (simp add: nonGlobalPrefixes_def)
  moreover have "pfx_Contains (Prefix (Addr4 (v4 240 0 0 0)) 4) (Addr4 u32_max)" by (simp add: v4_def prefix_zero_def)
  ultimately show ?thesis unfolding nonglobal_iff by blast
qed

lemma wf_end: "wf_ranges rs \<Longrightarrow> r \<in> set rs \<Longrightarrow> points rs \<inter> nonglobal = {} \<Longrightarrow> Lo r \<le> Hi r \<and> Hi r \<noteq> u32_max"
proof -
  assume r: "wf_ranges rs" "r \<in> set rs" "points rs \<inter> nonglobal = {}"
  then have "Lo r \<le> Hi r" by (auto simp: list_all_iff)
  moreover from this r(2) have "uint (Hi r) \<in> points rs" by (auto simp: mem_points)
  ultimately show ?thesis using r(3) top_nonglobal by auto
qed

lemma scan_add_cover:
  assumes "direct_ok direct" and "scan_ok s" and "Lo sp \<le> Hi sp" and "country \<noteq> []"
  shows "cover v (sr_offshore (scan_add name country sp direct s)) = cover v (sr_offshore s) +
      of_bool (country \<noteq> ''CN'' \<and> uint v \<in> span_set (span_of sp) \<and> uint v \<in> points direct)"
    and "cover v (sr_mainland (scan_add name country sp direct s)) = cover v (sr_mainland s) +
      of_bool (country = ''CN'' \<and> uint v \<in> span_set (span_of sp) \<and> uint v \<notin> points direct \<and> uint v \<notin> nonglobal)"
    and "scan_ok (scan_add name country sp direct s)"
proof -
  have d: "normal_ranges direct" "points direct \<inter> nonglobal = {}" using assms(1) by (auto simp: direct_ok_def)
  note hits = audit_intersect_correct [OF d(1) assms(3)]
  note cuts = subtractSorted_correct [OF d(1) assms(3)]
  let ?cuts = "subtractSorted sp (audit_intersect sp direct)"
  have h: "\<forall>r \<in> set (audit_intersect sp direct). Lo r \<le> Hi r \<and> Hi r \<noteq> u32_max"
    using wf_end [OF normal_ranges_wf [OF hits(1)]] hits(2) d(2) by blast
  have c: "\<forall>r \<in> set (concat (map GlobalParts ?cuts)). Lo r \<le> Hi r \<and> Hi r \<noteq> u32_max"
  proof
    fix r assume "r \<in> set (concat (map GlobalParts ?cuts))"
    then obtain q where q: "q \<in> set ?cuts" "r \<in> set (GlobalParts q)" by auto
    with cuts(2) have "Lo q \<le> Hi q" by (auto simp: list_all_iff)
    from GlobalParts_correct [OF this] q(2) show "Lo r \<le> Hi r \<and> Hi r \<noteq> u32_max"
      using wf_end [OF normal_ranges_wf] by blast
  qed
  show "cover v (sr_offshore (scan_add name country sp direct s)) = cover v (sr_offshore s) +
      of_bool (country \<noteq> ''CN'' \<and> uint v \<in> span_set (span_of sp) \<and> uint v \<in> points direct)"
    and "cover v (sr_mainland (scan_add name country sp direct s)) = cover v (sr_mainland s) +
      of_bool (country = ''CN'' \<and> uint v \<in> span_set (span_of sp) \<and> uint v \<notin> points direct \<and> uint v \<notin> nonglobal)"
    and "scan_ok (scan_add name country sp direct s)"
    using fold_add_offshore [OF assms(2) h] fold_add_mainland [OF assms(2) c]
    by (auto simp: scan_add_def rcover_normal [OF hits(1)] hits(2) global_cover [OF cuts(2)] cuts(1))
qed

lemma scan_visit_cover:
  assumes "direct_ok direct" and "scan_ok s"
  shows "cover v (sr_offshore (scan_visit name direct visit s)) = cover v (sr_offshore s) +
      of_bool (abroad (snd visit) \<and> pfx_Contains (Masked (fst visit)) (Addr4 v) \<and> uint v \<in> points direct)"
    and "cover v (sr_mainland (scan_visit name direct visit s)) = cover v (sr_mainland s) +
      of_bool (at_home (snd visit) \<and> pfx_Contains (Masked (fst visit)) (Addr4 v) \<and> uint v \<notin> points direct \<and> uint v \<notin> nonglobal)"
    and "scan_ok (scan_visit name direct visit s)"
proof -
  note P = PrefixRange_Masked [of "fst visit"]
  let ?c = "ToUpper (TrimSpace (snd visit))"
  consider (no) "?c = [] \<or> PrefixRange (Masked (fst visit)) = None"
    | (yes) sp where "?c \<noteq> []" "PrefixRange (Masked (fst visit)) = Some sp" by fastforce
  then have "cover v (sr_offshore (scan_visit name direct visit s)) = cover v (sr_offshore s) +
      of_bool (abroad (snd visit) \<and> pfx_Contains (Masked (fst visit)) (Addr4 v) \<and> uint v \<in> points direct) \<and>
    cover v (sr_mainland (scan_visit name direct visit s)) = cover v (sr_mainland s) +
      of_bool (at_home (snd visit) \<and> pfx_Contains (Masked (fst visit)) (Addr4 v) \<and> uint v \<notin> points direct \<and> uint v \<notin> nonglobal) \<and>
    scan_ok (scan_visit name direct visit s)"
  proof cases
    case no
    then have s: "scan_visit name direct visit s = s" by (auto simp: scan_visit_def Let_def)
    have "\<not> (abroad (snd visit) \<and> pfx_Contains (Masked (fst visit)) (Addr4 v))"
      "\<not> (at_home (snd visit) \<and> pfx_Contains (Masked (fst visit)) (Addr4 v))"
      using no P(3) [of v] by (auto simp: abroad_def at_home_def)
    then show ?thesis using assms(2) by (auto simp: s)
  next
    case yes
    note a = scan_add_cover [OF assms P(1) [OF yes(2)] yes(1)]
    have "uint v \<in> span_set (span_of sp) \<longleftrightarrow> pfx_Contains (Masked (fst visit)) (Addr4 v)"
      using P(2) [OF yes(2), of v] by (simp add: span_set_def)
    with a yes show ?thesis by (simp add: scan_visit_def Let_def abroad_def at_home_def)
  qed
  then show "cover v (sr_offshore (scan_visit name direct visit s)) = cover v (sr_offshore s) +
      of_bool (abroad (snd visit) \<and> pfx_Contains (Masked (fst visit)) (Addr4 v) \<and> uint v \<in> points direct)"
    and "cover v (sr_mainland (scan_visit name direct visit s)) = cover v (sr_mainland s) +
      of_bool (at_home (snd visit) \<and> pfx_Contains (Masked (fst visit)) (Addr4 v) \<and> uint v \<notin> points direct \<and> uint v \<notin> nonglobal)"
    and "scan_ok (scan_visit name direct visit s)" by blast+
qed

lemma scan_visits_cover:
  assumes "direct_ok direct" and "scan_ok s"
  shows "cover v (sr_offshore (fold (scan_visit name direct) visits s)) = cover v (sr_offshore s) +
      (if uint v \<in> points direct
       then length (filter (\<lambda>x. abroad (snd x) \<and> pfx_Contains (Masked (fst x)) (Addr4 v)) visits) else 0)"
    and "cover v (sr_mainland (fold (scan_visit name direct) visits s)) = cover v (sr_mainland s) +
      (if uint v \<notin> points direct \<and> uint v \<notin> nonglobal
       then length (filter (\<lambda>x. at_home (snd x) \<and> pfx_Contains (Masked (fst x)) (Addr4 v)) visits) else 0)"
    and "scan_ok (fold (scan_visit name direct) visits s)"
  using assms(2) scan_visit_cover [OF assms(1)] by (induction visits arbitrary: s) simp_all

section \<open>A scan and the lookups of its database\<close>

lemma walk_fold:
  "\<exists>vs e. walk_loop child n payload absent record_visit (walk_start root []) = (map_option ReadError e, vs) \<and>
     (\<forall>s. walk_loop child n payload absent (\<lambda>p x s. (None :: unit option, f (p, x) s)) (walk_start root s) =
        (map_option ReadError e, fold f vs s))"
proof -
  obtain vs e where
    "walk_loop child n payload absent record_visit (walk_start root []) = (map_option ReadError e, [] @ vs)"
    "\<forall>s. walk_loop child n payload absent (\<lambda>p x s. (None :: unit option, f (p, x) s)) (walk_start root s) =
        (case visit_all (\<lambda>p x s. (None :: unit option, f (p, x) s)) vs s of
           (Some v, s) \<Rightarrow> (Some (VisitError v), s) | (None, s) \<Rightarrow> (map_option ReadError e, s))"
    using walk_loop_visit [of child n payload absent "[\<lparr>wi_node = root, wi_prefix = 0, wi_depth = 0\<rparr>]" Map.empty
      "\<lambda>p x s. (None :: unit option, f (p, x) s)"]
    unfolding walk_start_def by blast
  then show ?thesis by (intro exI [of _ vs] exI [of _ e]) (simp add: visit_all_fold)
qed

lemma ipdb_WalkV4_fold:
  "\<exists>vs e. ipdb_WalkV4 r requested record_visit [] = (map_option ReadError e, vs) \<and>
     (\<forall>s. ipdb_WalkV4 r requested (\<lambda>p x s. (None :: unit option, f (p, x) s)) s = (map_option ReadError e, fold f vs s))"
proof (cases "ip_v4Start r = 0 \<and> ip_ipVersion r \<noteq> 1")
  case True
  then show ?thesis by (intro exI [of _ "[]"] exI [of _ None]) (simp add: ipdb_WalkV4_def)
next
  case False
  then show ?thesis
    using walk_fold [of "ipdb_record r" "ip_nodeCount r" _ "\<lambda>rec. rec = []" "ip_v4Start r" f] by (auto simp: ipdb_WalkV4_def)
qed

lemma mmdb_WalkV4_fold:
  "v4Root r = Inr root \<Longrightarrow>
   \<exists>vs e. mmdb_WalkV4 r record_visit [] = (map_option ReadError e, vs) \<and>
     (\<forall>s. mmdb_WalkV4 r (\<lambda>p x s. (None :: unit option, f (p, x) s)) s = (map_option ReadError e, fold f vs s))"
  using walk_fold [of "readNode r" "mm_nodeCount r" _ "\<lambda>country. country = []" root f] by (simp add: mmdb_WalkV4_def)

text \<open>The country a source gives an address, by a lookup of the address.\<close>

definition source_country ::
  "(u8 list \<Rightarrow> (string \<times> any) list option) \<Rightarrow> (string \<Rightarrow> db_file) \<Rightarrow> geo_source \<Rightarrow> u32 \<Rightarrow> string" where
  "source_country json dbs src v =
     (if src_Kind src = ''ipdb'' then
        (case OpenIPDB json (dbs (src_Path src)) of
           Inr r \<Rightarrow> (case ipdb_Get r (v4_String v) of Inr (Some rec) \<Rightarrow> field_of rec ''country_code'' | _ \<Rightarrow> [])
         | Inl _ \<Rightarrow> [])
      else
        (case OpenMMDB (dbs (src_Path src)) of
           Inr r \<Rightarrow> (case mmdb_Get r (v4_String v) of Inr (Some rec) \<Rightarrow> CountryCodeOf rec | _ \<Rightarrow> [])
         | Inl _ \<Rightarrow> []))"

text \<open>A database that opens has IPv4 networks.\<close>

definition source_usable :: "(u8 list \<Rightarrow> (string \<times> any) list option) \<Rightarrow> (string \<Rightarrow> db_file) \<Rightarrow> geo_source \<Rightarrow> bool" where
  "source_usable json dbs src \<longleftrightarrow>
     (if src_Kind src = ''ipdb'' then case OpenIPDB json (dbs (src_Path src)) of Inr r \<Rightarrow> ip_usable r | Inl _ \<Rightarrow> True
      else case OpenMMDB (dbs (src_Path src)) of Inr r \<Rightarrow> mm_usable r | Inl _ \<Rightarrow> True)"

lemma holding_filter:
  assumes "\<forall>(p, x) \<in> set vs. \<exists>v b. p = PrefixFrom (Addr4 v) b"
  shows "filter (\<lambda>x. Q (snd x) \<and> pfx_Contains (Masked (fst x)) (Addr4 w)) (map (\<lambda>(p, x). (p, g x)) vs) =
    filter (\<lambda>x. Q (snd x) \<and> pfx_Contains (fst x) (Addr4 w)) (map (\<lambda>(p, x). (p, g x)) vs)"
  by (rule filter_cong [OF refl]) (use assms Contains_Masked_v4 in fastforce)

lemma holding_length:
  "length (filter (\<lambda>x. Q (snd x) \<and> pfx_Contains (fst x) (Addr4 w)) (map (\<lambda>(p, x). (p, g x)) vs)) =
     length (filter (\<lambda>x. Q (g x)) (holding w vs))"
  by (induction vs) (auto simp: holding_def)

lemma scan_fold:
  assumes "scan json dbs direct src = Inr res" and "source_usable json dbs src"
  shows "\<exists>visits. res = fold (scan_visit (src_Name src) direct) visits scan_zero \<and>
    (\<forall>Q v. \<not> Q [] \<longrightarrow> length (filter (\<lambda>x. Q (snd x) \<and> pfx_Contains (Masked (fst x)) (Addr4 v)) visits) =
       of_bool (Q (source_country json dbs src v)))"
proof (cases "src_Kind src = ''ipdb''")
  case True
  then obtain r where r: "OpenIPDB json (dbs (src_Path src)) = Inr r" and u: "ip_usable r"
    using assms by (auto simp: scan_def source_usable_def split: sum.splits)
  let ?f = "\<lambda>visit. scan_visit (src_Name src) direct (fst visit, field_of (snd visit) ''country_code'')"
  obtain vs e where w: "ipdb_WalkV4 r [''country_code''] record_visit [] = (map_option ReadError e, vs)"
      "\<forall>s. ipdb_WalkV4 r [''country_code''] (\<lambda>p x s. (None :: unit option, ?f (p, x) s)) s = (map_option ReadError e, fold ?f vs s)"
    using ipdb_WalkV4_fold [of r "[''country_code'']" ?f] by blast
  have e: "e = None" and res: "res = fold ?f vs scan_zero"
    using assms(1) w(2) True r by (auto simp: scan_def split: option.splits)
  let ?visits = "map (\<lambda>(p, x). (p, field_of x ''country_code'')) vs"
  have fold: "res = fold (scan_visit (src_Name src) direct) ?visits scan_zero"
    by (simp add: res fold_map comp_def case_prod_unfold)
  have v4: "\<forall>(p, x) \<in> set vs. \<exists>v b. p = PrefixFrom (Addr4 v) b"
    using ip.walk_reports_v4 [OF u] w(1) e by fastforce
  have "length (filter (\<lambda>x. Q (snd x) \<and> pfx_Contains (Masked (fst x)) (Addr4 v)) ?visits) =
      of_bool (Q (source_country json dbs src v))" if "\<not> Q []" for Q v
  proof -
    have h: "holding v vs = ip_fields4 [''country_code''] r v"
      using ip.walk_reports_lookup [OF u] w(1) e by fastforce
    have l: "length (filter (\<lambda>x. Q (field_of x ''country_code'')) (ip_fields4 [''country_code''] r v)) =
        of_bool (Q (source_country json dbs src v))"
    proof (cases "\<exists>rec. ipdb_Get r (v4_String v) = Inr (Some rec)")
      case True
      then obtain rec where rec: "ipdb_Get r (v4_String v) = Inr (Some rec)" ..
      let ?rec = "filter (\<lambda>(field, _). field \<in> {''country_code''}) rec"
      have c: "field_of ?rec ''country_code'' = field_of rec ''country_code''" by (rule field_of_filter) simp
      have "field_of rec ''country_code'' = []" if "?rec = []" using c that by (simp add: field_of_def)
      then show ?thesis using \<open>src_Kind src = ''ipdb''\<close> \<open>\<not> Q []\<close> c
        by (auto simp: ip_fields4_def source_country_def r rec Let_def)
    qed (use \<open>src_Kind src = ''ipdb''\<close> \<open>\<not> Q []\<close> in
        \<open>auto simp: ip_fields4_def source_country_def r split: sum.splits option.splits\<close>)
    show ?thesis
      unfolding holding_filter [OF v4, of Q v "\<lambda>x. field_of x ''country_code''"]
        holding_length [of Q v "\<lambda>x. field_of x ''country_code''" vs] h by (rule l)
  qed
  with fold show ?thesis by blast
next
  case False
  then obtain r where r: "OpenMMDB (dbs (src_Path src)) = Inr r" and u: "mm_usable r"
    using assms by (auto simp: scan_def source_usable_def split: sum.splits if_splits)
  then obtain root where root: "v4Root r = Inr root" by (auto simp: mm_usable_def split: sum.splits)
  let ?f = "\<lambda>visit. scan_visit (src_Name src) direct visit"
  obtain vs e where w: "mmdb_WalkV4 r record_visit [] = (map_option ReadError e, vs)"
      "\<forall>s. mmdb_WalkV4 r (\<lambda>p x s. (None :: unit option, ?f (p, x) s)) s = (map_option ReadError e, fold ?f vs s)"
    using mmdb_WalkV4_fold [OF root, of ?f] by blast
  have e: "e = None" and res: "res = fold ?f vs scan_zero"
    using assms(1) w(2) False r by (auto simp: scan_def split: option.splits if_splits)
  have v4: "\<forall>(p, x) \<in> set vs. \<exists>v b. p = PrefixFrom (Addr4 v) b"
    using mm.walk_reports_v4 [OF u] w(1) e by fastforce
  have "length (filter (\<lambda>x. Q (snd x) \<and> pfx_Contains (Masked (fst x)) (Addr4 v)) vs) =
      of_bool (Q (source_country json dbs src v))" if "\<not> Q []" for Q v
  proof -
    have "holding v vs = mm_country4 r v" using mm.walk_reports_lookup [OF u] w(1) e by fastforce
    moreover have "length (filter Q (mm_country4 r v)) = of_bool (Q (source_country json dbs src v))"
      using False that by (auto simp: mm_country4_def source_country_def r split: sum.splits option.splits)
    ultimately show ?thesis
      using holding_filter [OF v4, of Q v "\<lambda>x. x"] holding_length [of Q v "\<lambda>x. x" vs] by (simp add: case_prod_unfold)
  qed
  with res show ?thesis by blast
qed

lemma scan_cover:
  assumes "scan json dbs direct src = Inr res" and "source_usable json dbs src" and "direct_ok direct"
  shows "cover v (sr_offshore res) = of_bool (uint v \<in> points direct \<and> abroad (source_country json dbs src v))"
    and "cover v (sr_mainland res) =
      of_bool (uint v \<notin> points direct \<and> uint v \<notin> nonglobal \<and> at_home (source_country json dbs src v))"
    and "scan_ok res"
proof -
  obtain visits where res: "res = fold (scan_visit (src_Name src) direct) visits scan_zero"
    and count: "\<And>Q v. \<not> Q [] \<Longrightarrow> length (filter (\<lambda>x. Q (snd x) \<and> pfx_Contains (Masked (fst x)) (Addr4 v)) visits) =
       of_bool (Q (source_country json dbs src v))"
    using scan_fold [OF assms(1,2)] by blast
  have "scan_ok scan_zero" by (simp add: scan_ok_def scan_zero_def)
  note c = scan_visits_cover [OF assms(3) this]
  show "cover v (sr_offshore res) = of_bool (uint v \<in> points direct \<and> abroad (source_country json dbs src v))"
    and "cover v (sr_mainland res) =
      of_bool (uint v \<notin> points direct \<and> uint v \<notin> nonglobal \<and> at_home (source_country json dbs src v))"
    and "scan_ok res"
    using count [of abroad v] count [of at_home v] c(3) by (simp_all add: res c(1,2)) (simp_all add: scan_zero_def)
qed

section \<open>A run\<close>

text \<open>The sources that take part: those with a path whose database is read to the end.\<close>

definition voters ::
  "(u8 list \<Rightarrow> (string \<times> any) list option) \<Rightarrow> (string \<Rightarrow> db_file) \<Rightarrow> range list \<Rightarrow> geo_source list \<Rightarrow> geo_source list" where
  "voters json dbs direct srcs =
     filter (\<lambda>src. TrimSpace (src_Path src) \<noteq> [] \<and> \<not> isl (scan json dbs direct src)) srcs"

lemma audit_loadDirect_ok: "audit_loadDirect env path d = Some direct \<Longrightarrow> direct_ok direct"
proof -
  assume "audit_loadDirect env path d = Some direct"
  then obtain body where "direct = set_ranges (fst (LoadReader True (fst (ScanLines body))))"
    by (auto simp: audit_loadDirect_def Let_def Ranges_def case_prod_unfold split: sum.splits if_splits)
  then obtain ls where d: "direct = set_ranges (fst (LoadReader True ls))" ..
  let ?rs = "ld_ranges (fold (load_line True) ls \<lparr>ld_ranges = [], ld_total = 0, ld_skipped = 0\<rparr>)"
  have "direct = Collapse ?rs" by (simp add: d LoadReader_def Let_def)
  moreover have "wf_ranges ?rs" by (rule LoadReader_ranges(2)) simp
  moreover have "points ?rs \<inter> nonglobal = {}" unfolding LoadReader_ranges(1) by (auto split: option.splits)
  ultimately show ?thesis by (simp add: direct_ok_def Collapse_normal)
qed

lemma scan_sources:
  assumes "fold (scan_source json dbs direct) srcs (report, off, main) = (report', off', main')"
  shows "ga_Sources report' = ga_Sources report @ map src_Name (voters json dbs direct srcs)"
    and "off' = off @ map (\<lambda>src. sr_offshore (projr (scan json dbs direct src))) (voters json dbs direct srcs)"
    and "main' = main @ map (\<lambda>src. sr_mainland (projr (scan json dbs direct src))) (voters json dbs direct srcs)"
    and "ga_TotalAddresses report' = ga_TotalAddresses report" and "ga_FailOpen report' = ga_FailOpen report"
    and "ga_DisputeRejected report' = ga_DisputeRejected report" and "ga_PromoteRejected report' = ga_PromoteRejected report"
    and "ga_Disputed report' = ga_Disputed report" and "ga_Promoted report' = ga_Promoted report"
proof -
  have "ga_Sources report' = ga_Sources report @ map src_Name (voters json dbs direct srcs) \<and>
      off' = off @ map (\<lambda>src. sr_offshore (projr (scan json dbs direct src))) (voters json dbs direct srcs) \<and>
      main' = main @ map (\<lambda>src. sr_mainland (projr (scan json dbs direct src))) (voters json dbs direct srcs) \<and>
      ga_TotalAddresses report' = ga_TotalAddresses report \<and> ga_FailOpen report' = ga_FailOpen report \<and>
      ga_DisputeRejected report' = ga_DisputeRejected report \<and> ga_PromoteRejected report' = ga_PromoteRejected report \<and>
      ga_Disputed report' = ga_Disputed report \<and> ga_Promoted report' = ga_Promoted report"
    using assms
  proof (induction srcs arbitrary: report off main)
    case (Cons src srcs)
    show ?case
    proof (cases "TrimSpace (src_Path src) = []")
      case True
      with Cons show ?thesis by (simp add: scan_source_def voters_def)
    next
      case False
      show ?thesis
      proof (cases "scan json dbs direct src")
        case (Inl e)
        with Cons.IH [of "report\<lparr>ga_Unavailable := (ga_Unavailable report)(src_Name src \<mapsto> e)\<rparr>"] Cons.prems False
        show ?thesis by (simp add: scan_source_def voters_def)
      next
        case (Inr res)
        with Cons.IH [of "report\<lparr>ga_Sources := ga_Sources report @ [src_Name src],
              ga_OffshoreBySource := (ga_OffshoreBySource report)(src_Name src \<mapsto> sr_offshoreTotal res),
              ga_MainlandBySource := (ga_MainlandBySource report)(src_Name src \<mapsto> sr_mainlandTotal res)\<rparr>"
            "off @ [sr_offshore res]" "main @ [sr_mainland res]"] Cons.prems False
        show ?thesis by (simp add: scan_source_def voters_def)
      qed
    qed
  qed (simp add: voters_def)
  then show "ga_Sources report' = ga_Sources report @ map src_Name (voters json dbs direct srcs)"
    and "off' = off @ map (\<lambda>src. sr_offshore (projr (scan json dbs direct src))) (voters json dbs direct srcs)"
    and "main' = main @ map (\<lambda>src. sr_mainland (projr (scan json dbs direct src))) (voters json dbs direct srcs)"
    and "ga_TotalAddresses report' = ga_TotalAddresses report" and "ga_FailOpen report' = ga_FailOpen report"
    and "ga_DisputeRejected report' = ga_DisputeRejected report" and "ga_PromoteRejected report' = ga_PromoteRejected report"
    and "ga_Disputed report' = ga_Disputed report" and "ga_Promoted report' = ga_Promoted report" by blast+
qed

lemma voters_cover:
  assumes "\<forall>src \<in> set srcs. source_usable json dbs src" and "direct_ok direct"
  defines "vs \<equiv> voters json dbs direct srcs"
  shows "cover v (concat (map (\<lambda>src. sr_offshore (projr (scan json dbs direct src))) vs)) =
      (if uint v \<in> points direct then length (filter (\<lambda>src. abroad (source_country json dbs src v)) vs) else 0)"
    and "cover v (concat (map (\<lambda>src. sr_mainland (projr (scan json dbs direct src))) vs)) =
      (if uint v \<notin> points direct \<and> uint v \<notin> nonglobal
       then length (filter (\<lambda>src. at_home (source_country json dbs src v)) vs) else 0)"
    and "\<forall>x \<in> set (concat (map (\<lambda>src. sr_offshore (projr (scan json dbs direct src))) vs)). bounded_span x"
    and "\<forall>x \<in> set (concat (map (\<lambda>src. sr_mainland (projr (scan json dbs direct src))) vs)). bounded_span x"
proof -
  have "\<exists>res. scan json dbs direct src = Inr res \<and> source_usable json dbs src" if "src \<in> set vs" for src
    using that assms(1) by (cases "scan json dbs direct src") (auto simp: vs_def voters_def)
  then have s: "cover v (sr_offshore (projr (scan json dbs direct src))) =
        of_bool (uint v \<in> points direct \<and> abroad (source_country json dbs src v))"
      "cover v (sr_mainland (projr (scan json dbs direct src))) =
        of_bool (uint v \<notin> points direct \<and> uint v \<notin> nonglobal \<and> at_home (source_country json dbs src v))"
      "scan_ok (projr (scan json dbs direct src))" if "src \<in> set vs" for src
    using scan_cover [OF _ _ assms(2)] that by fastforce+
  then show "\<forall>x \<in> set (concat (map (\<lambda>src. sr_offshore (projr (scan json dbs direct src))) vs)). bounded_span x"
    and "\<forall>x \<in> set (concat (map (\<lambda>src. sr_mainland (projr (scan json dbs direct src))) vs)). bounded_span x"
    by (auto simp: scan_ok_def)
  show "cover v (concat (map (\<lambda>src. sr_offshore (projr (scan json dbs direct src))) vs)) =
      (if uint v \<in> points direct then length (filter (\<lambda>src. abroad (source_country json dbs src v)) vs) else 0)"
    using s(1) by (induction vs) auto
  show "cover v (concat (map (\<lambda>src. sr_mainland (projr (scan json dbs direct src))) vs)) =
      (if uint v \<notin> points direct \<and> uint v \<notin> nonglobal
       then length (filter (\<lambda>src. at_home (source_country json dbs src v)) vs) else 0)"
    using s(2) by (induction vs) auto
qed

lemma audit_Run_cases:
  assumes "audit_loadDirect env (gc_Direct4Path cfg) d = Some direct"
    and "audit_Run json dbs env d cfg = (report, None)" and "ga_FailOpen report = None"
  defines "vs \<equiv> voters json dbs direct (gc_Sources cfg)"
  shows "\<exists>r. report = promote cfg (map (\<lambda>src. sr_mainland (projr (scan json dbs direct src))) vs)
      (dispute cfg (map (\<lambda>src. sr_offshore (projr (scan json dbs direct src))) vs) r) \<and>
    ga_Sources r = map src_Name vs \<and> 2 \<le> length vs \<and> ga_TotalAddresses r = sum_counts direct \<and>
    ga_DisputeRejected r = None \<and> ga_PromoteRejected r = None \<and> ga_Disputed r = [] \<and> ga_Promoted r = []"
proof -
  let ?r0 = "geo_report_zero\<lparr>ga_Entries := length direct, ga_TotalAddresses := sum_counts direct\<rparr>"
  obtain r off main where f: "fold (scan_source json dbs direct) (gc_Sources cfg) (?r0, [], []) = (r, off, main)"
    by (cases "fold (scan_source json dbs direct) (gc_Sources cfg) (?r0, [], [])")
  note s = scan_sources [OF f, folded vs_def]
  have "report = (if length (ga_Sources r) < MinSources then r\<lparr>ga_FailOpen := Some (length (ga_Sources r))\<rparr>
      else promote cfg main (dispute cfg off r))"
    using assms(1,2) f by (auto simp: audit_Run_def Let_def split: if_splits)
  moreover from this assms(3) have "\<not> length (ga_Sources r) < MinSources" by (auto split: if_splits)
  ultimately show ?thesis using s by (intro exI [of _ r]) (simp add: MinSources_def geo_report_zero_def)
qed

lemma dispute_simps [simp]:
  "ga_Sources (dispute cfg sets r) = ga_Sources r" "ga_Promoted (dispute cfg sets r) = ga_Promoted r"
  "ga_PromoteRejected (dispute cfg sets r) = ga_PromoteRejected r"
  by (simp_all add: dispute_def Let_def split: prod.split)

lemma promote_simps [simp]:
  "ga_DisputeNeed (promote cfg sets r) = ga_DisputeNeed r" "ga_Disputed (promote cfg sets r) = ga_Disputed r"
  "ga_DisputeRejected (promote cfg sets r) = ga_DisputeRejected r"
  by (simp_all add: promote_def Let_def split: prod.split)

text \<open>C27: What a comparison with at least two databases decides, address by address: disputed are the addresses of
  the mainland list that at least \<open>DisputeNeed\<close> of the databases look up as foreign, promoted the
  globally routable addresses outside the list that every database looks up as mainland.\<close>

theorem audit_Run_decides:
  assumes "audit_loadDirect env (gc_Direct4Path cfg) d = Some direct"
    and "\<forall>src \<in> set (gc_Sources cfg). source_usable json dbs src"
    and "audit_Run json dbs env d cfg = (report, None)" and "ga_FailOpen report = None"
  defines "vs \<equiv> voters json dbs direct (gc_Sources cfg)"
  shows "2 \<le> length vs \<and> 1 \<le> ga_DisputeNeed report \<and> ga_DisputeNeed report \<le> int (length vs) \<and>
    (ga_DisputeRejected report = None \<longrightarrow>
      (\<forall>a. (\<exists>x \<in> set (ga_Disputed report). gs_has a x) \<longleftrightarrow>
        uint a \<in> points direct \<and>
        ga_DisputeNeed report \<le> int (length (filter (\<lambda>src. abroad (source_country json dbs src a)) vs)))) \<and>
    (ga_PromoteRejected report = None \<longrightarrow>
      (\<forall>a. (\<exists>x \<in> set (ga_Promoted report). gs_has a x) \<longleftrightarrow>
        uint a \<notin> points direct \<and> IsGlobalAddr (Addr4 a) \<and>
        (\<forall>src \<in> set vs. at_home (source_country json dbs src a))))"
proof -
  let ?off = "map (\<lambda>src. sr_offshore (projr (scan json dbs direct src))) vs"
  let ?main = "map (\<lambda>src. sr_mainland (projr (scan json dbs direct src))) vs"
  obtain r where r: "report = promote cfg ?main (dispute cfg ?off r)" "ga_Sources r = map src_Name vs" "2 \<le> length vs"
      "ga_DisputeRejected r = None" "ga_PromoteRejected r = None" "ga_Disputed r = []" "ga_Promoted r = []"
    using audit_Run_cases [OF assms(1,3,4)] unfolding vs_def by blast
  note c = voters_cover [OF assms(2) audit_loadDirect_ok [OF assms(1)], folded vs_def]
  have need: "1 \<le> ga_DisputeNeed report" "ga_DisputeNeed report \<le> int (length vs)"
    using r(2,3) by (auto simp: r(1) dispute_def Let_def DefaultDisputeNeed_def split: prod.split)
  have d: "ga_Disputed report = fst (mergeAgreement ?off (ga_DisputeNeed report))" if "ga_DisputeRejected report = None"
    using that r(4) by (auto simp: r(1) dispute_def Let_def split: prod.splits if_splits)
  have p: "ga_Promoted report = fst (mergeAgreement ?main (int (length vs)))" if "ga_PromoteRejected report = None"
    using that r(2,5) by (auto simp: r(1) promote_def Let_def split: prod.splits if_splits)
  have all: "int (length vs) \<le> int (length (filter P vs)) \<longleftrightarrow> (\<forall>src \<in> set vs. P src)" for P
    by (metis filter_id_conv length_filter_le length_filter_less nle_le not_le of_nat_le_iff)
  show ?thesis
  proof (intro conjI impI allI)
    fix a
    show "(\<exists>x \<in> set (ga_Disputed report). gs_has a x) \<longleftrightarrow> uint a \<in> points direct \<and>
        ga_DisputeNeed report \<le> int (length (filter (\<lambda>src. abroad (source_country json dbs src a)) vs))"
      if "ga_DisputeRejected report = None"
      using mergeAgreement_correct(1) [OF need(1) c(3), of a] need(1) by (simp add: d [OF that] c(1))
    show "(\<exists>x \<in> set (ga_Promoted report). gs_has a x) \<longleftrightarrow> uint a \<notin> points direct \<and> IsGlobalAddr (Addr4 a) \<and>
        (\<forall>src \<in> set vs. at_home (source_country json dbs src a))" if "ga_PromoteRejected report = None"
    proof -
      have "vs \<noteq> []" "1 \<le> int (length vs)" using r(3) by auto
      then show ?thesis
        using mergeAgreement_correct(1) [OF _ c(4), of "int (length vs)" a] all by (simp add: p [OF that] c(2) IsGlobalAddr_v4)
    qed
  qed (use r(3) need in simp_all)
qed

definition sample_sources :: "geo_source list" where
  "sample_sources = [\<lparr>src_Name = ''a'', src_Path = ''q'', src_Kind = ''ipdb''\<rparr>, \<lparr>src_Name = ''b'', src_Path = ''q'', src_Kind = ''ipdb''\<rparr>]"

definition sample_audit :: geo_config where
  "sample_audit = \<lparr>gc_Direct4Path = ''d'', gc_Sources = sample_sources, gc_DisputeNeed = 0, gc_PromoteLimit = 0, gc_DisputeLimit = 0\<rparr>"

definition sample_dir :: dir where
  "sample_dir = [''d'' \<mapsto> \<lparr>f_data = ''1.2.3.4'', f_mode = 420\<rparr>]"

lemma sample_direct:
  "\<exists>direct. audit_loadDirect calm ''d'' sample_dir = Some direct \<and> sum_counts direct \<noteq> 0 \<and> uint (5 :: u32) \<notin> points direct"
proof -
  have body: "ReadFile calm ''d'' sample_dir = Inr ''1.2.3.4''" by (simp add: ReadFile_def calm_def sample_dir_def)
  have ls: "ScanLines ''1.2.3.4'' = ([''1.2.3.4''], True)" by (simp add: ScanLines_def maxLine_def TrimSuffix_def)
  let ?d = "set_ranges (fst (LoadReader True [''1.2.3.4'']))"
  have d: "audit_loadDirect calm ''d'' sample_dir = Some ?d"
    by (simp add: audit_loadDirect_def body ls Ranges_def split: prod.split)
  have r: "line_range ''1.2.3.4'' = Some (Range 0x01020304 0x01020304)" by code_simp
  have "\<not> (\<exists>p \<in> set nonGlobalPrefixes. pfx_Contains p (Addr4 0x01020304))"
    by (simp add: nonGlobalPrefixes_def v4_def prefix_zero_def)
  then have g: "IsGlobalAddr (Addr4 0x01020304)" unfolding IsGlobalAddr_v4 nonglobal_iff by blast
  have ok: "normal_ranges ?d" using audit_loadDirect_ok [OF d] by (simp add: direct_ok_def)
  let ?rs = "ld_ranges (fold (load_line True) [''1.2.3.4''] \<lparr>ld_ranges = [], ld_total = 0, ld_skipped = 0\<rparr>)"
  have rs: "?d = Collapse ?rs" "points ?rs = span_set (span_of (Range 0x01020304 0x01020304)) - nonglobal"
    unfolding LoadReader_ranges(1) by (simp_all add: LoadReader_def Let_def r)
  then have p: "uint (0x01020304 :: u32) \<in> points ?d" "uint (5 :: u32) \<notin> points ?d"
    using g by (simp_all add: mem_span_set IsGlobalAddr_v4)
  have "finite (points ?d)" by (simp add: spans_set_def span_set_def)
  with p(1) have "card (points ?d) \<noteq> 0" by auto
  moreover have "card (points ?d) < 2 ^ 64" using card_points [of ?d] by simp
  ultimately have "unat (sum_counts ?d) \<noteq> 0"
    using sum_counts_card [OF ok, of 0] by (simp add: sum_counts_def unsigned_of_nat take_bit_eq_mod)
  then have "sum_counts ?d \<noteq> 0" by auto
  with d p(2) show ?thesis by blast
qed

lemma sample_scan: "src \<in> set sample_sources \<Longrightarrow> source_usable sample_json (\<lambda>_. sample_file) src \<and>
    \<not> isl (scan sample_json (\<lambda>_. sample_file) direct src)"
proof -
  let ?r = "sample_ipdb\<lparr>ip_Metadata := the (sample_json [])\<rparr>"
  assume "src \<in> set sample_sources"
  then have k: "src_Kind src = ''ipdb''" by (auto simp: sample_sources_def)
  have same: "ipdb_record ?r = ipdb_record sample_ipdb" by (intro ext) (simp add: ipdb_record_def Let_def)
  have params: "ip_v4Start sample_ipdb = 0" "ip_ipVersion sample_ipdb = 1" "ip_nodeCount sample_ipdb = 1"
    by (simp_all add: sample_ipdb_def)
  have "fst (ipdb_WalkV4 ?r [''country_code''] record_visit []) = None"
    by (simp add: ipdb_WalkV4_def same params walk_start_def walk_loop.simps(2) walk_child_def sample_ipdb_nodes
        record_visit_def Let_def split: if_split)
  moreover let ?f = "\<lambda>visit. scan_visit (src_Name src) direct (fst visit, field_of (snd visit) ''country_code'')"
  obtain vs e where "ipdb_WalkV4 ?r [''country_code''] record_visit [] = (map_option ReadError e, vs)"
      "\<forall>s. ipdb_WalkV4 ?r [''country_code''] (\<lambda>p x s. (None :: unit option, ?f (p, x) s)) s = (map_option ReadError e, fold ?f vs s)"
    using ipdb_WalkV4_fold [of ?r "[''country_code'']" ?f] by blast
  ultimately show ?thesis
    by (simp add: scan_def k sample_open source_usable_def ip_usable_def params)
qed

lemma sample_run:
  "\<exists>report. audit_Run sample_json (\<lambda>_. sample_file) calm sample_dir sample_audit = (report, None) \<and> ga_FailOpen report = None"
proof -
  obtain direct where d: "audit_loadDirect calm ''d'' sample_dir = Some direct" "sum_counts direct \<noteq> 0"
    using sample_direct by blast
  let ?r0 = "geo_report_zero\<lparr>ga_Entries := length direct, ga_TotalAddresses := sum_counts direct\<rparr>"
  obtain r off main where f: "fold (scan_source sample_json (\<lambda>_. sample_file) direct) sample_sources (?r0, [], []) = (r, off, main)"
    by (cases "fold (scan_source sample_json (\<lambda>_. sample_file) direct) sample_sources (?r0, [], [])")
  have "TrimSpace ''q'' = ''q''" by (rule TrimSpace_id) simp_all
  then have "voters sample_json (\<lambda>_. sample_file) direct sample_sources = sample_sources"
    unfolding voters_def filter_id_conv using sample_scan by (auto simp: sample_sources_def)
  then have "length (ga_Sources r) = 2" using scan_sources(1) [OF f] by (simp add: geo_report_zero_def sample_sources_def)
  moreover have "ga_FailOpen r = None" using scan_sources(5) [OF f] by (simp add: geo_report_zero_def)
  ultimately show ?thesis
    using f d by (simp add: audit_Run_def sample_audit_def MinSources_def promote_def dispute_def Let_def split: prod.split)
qed

theorem audit_Run_decides_witness:
  "\<exists>report. audit_Run sample_json (\<lambda>_. sample_file) calm sample_dir sample_audit = (report, None) \<and>
     1 \<le> ga_DisputeNeed report \<and>
     (ga_DisputeRejected report = None \<longrightarrow> \<not> (\<exists>x \<in> set (ga_Disputed report). gs_has 5 x))"
proof -
  obtain report where r: "audit_Run sample_json (\<lambda>_. sample_file) calm sample_dir sample_audit = (report, None)"
      "ga_FailOpen report = None" using sample_run by blast
  obtain direct where d: "audit_loadDirect calm (gc_Direct4Path sample_audit) sample_dir = Some direct" "uint (5 :: u32) \<notin> points direct"
    using sample_direct by (auto simp: sample_audit_def)
  have "\<forall>src \<in> set (gc_Sources sample_audit). source_usable sample_json (\<lambda>_. sample_file) src"
    using sample_scan by (simp add: sample_audit_def)
  from audit_Run_decides [OF d(1) this r] r(1) d(2) show ?thesis by fastforce
qed

text \<open>C28: What a run with the default limits may change is bounded: at most five in a hundred addresses of the
  list become disputed, and at most \<open>2 ^ 22\<close> addresses are promoted, whatever the databases hold; the
  64-bit sums do not wrap.\<close>

theorem audit_Run_bounded:
  assumes "audit_loadDirect env (gc_Direct4Path cfg) d = Some direct"
    and "\<forall>src \<in> set (gc_Sources cfg). source_usable json dbs src"
    and "audit_Run json dbs env d cfg = (report, None)" and "ga_FailOpen report = None"
    and "gc_DisputeLimit cfg = 0" and "gc_PromoteLimit cfg = 0"
  shows "100 * card (points (map gs_range (ga_Disputed report))) \<le> 5 * card (points direct) \<and>
    card (points (map gs_range (ga_Promoted report))) \<le> 2 ^ 22"
proof -
  define vs where "vs = voters json dbs direct (gc_Sources cfg)"
  let ?off = "map (\<lambda>src. sr_offshore (projr (scan json dbs direct src))) vs"
  let ?main = "map (\<lambda>src. sr_mainland (projr (scan json dbs direct src))) vs"
  obtain r where r: "report = promote cfg ?main (dispute cfg ?off r)" "ga_Sources r = map src_Name vs" "2 \<le> length vs"
      "ga_TotalAddresses r = sum_counts direct" "ga_Disputed r = []" "ga_Promoted r = []"
    using audit_Run_cases [OF assms(1,3,4)] unfolding vs_def by blast
  note c = voters_cover [OF assms(2) audit_loadDirect_ok [OF assms(1)], folded vs_def]
  have count: "unat (sum_counts rs) = card (points rs)" if "normal_ranges rs" for rs
  proof -
    have "card (points rs) < 2 ^ 64" using card_points [of rs] by simp
    then show ?thesis using sum_counts_card [OF that, of 0]
      by (simp add: sum_counts_def unsigned_of_nat take_bit_eq_mod)
  qed
  have merged: "unat (snd (mergeAgreement sets n)) = card (points (map gs_range (fst (mergeAgreement sets n))))"
    if "1 \<le> n" "\<forall>s \<in> set (concat sets). bounded_span s" for sets n
    using mergeAgreement_correct(2,3) [OF that] count by simp
  have "normal_ranges direct" using audit_loadDirect_ok [OF assms(1)] by (simp add: direct_ok_def)
  note total = count [OF this]
  have limit: "unat (sum_counts direct * DefaultDisputeRatio div 100) = card (points direct) * 5 div 100"
  proof -
    have "unat (sum_counts direct * DefaultDisputeRatio) = card (points direct) * 5"
      using total card_points [of direct] by (simp add: DefaultDisputeRatio_def unat_word_ariths)
    then show ?thesis by (simp add: unat_div_distrib)
  qed
  let ?need = "ga_DisputeNeed report"
  have need: "1 \<le> ?need"
    using r(2,3) by (auto simp: r(1) dispute_def Let_def DefaultDisputeNeed_def split: prod.split)
  have "ga_Disputed report = [] \<or> ga_Disputed report = fst (mergeAgreement ?off ?need) \<and>
      snd (mergeAgreement ?off ?need) \<le> sum_counts direct * DefaultDisputeRatio div 100"
    using r(4,5) assms(5) by (auto simp: r(1) dispute_def Let_def not_less split: prod.splits if_splits)
  then have "card (points (map gs_range (ga_Disputed report))) \<le> card (points direct) * 5 div 100"
    using merged [OF need c(3)] limit by (auto simp: word_le_nat_alt)
  moreover have "ga_Promoted report = [] \<or> ga_Promoted report = fst (mergeAgreement ?main (int (length vs))) \<and>
      snd (mergeAgreement ?main (int (length vs))) \<le> DefaultPromoteLimit"
    using r(2,6) assms(6) by (auto simp: r(1) promote_def Let_def not_less split: prod.splits if_splits)
  then have "card (points (map gs_range (ga_Promoted report))) \<le> 2 ^ 22"
    using merged [OF _ c(4), of "int (length vs)"] r(3) by (auto simp: word_le_nat_alt DefaultPromoteLimit_def)
  ultimately show ?thesis by linarith
qed

theorem audit_Run_bounded_witness:
  "\<exists>report. audit_Run sample_json (\<lambda>_. sample_file) calm sample_dir sample_audit = (report, None) \<and>
     card (points (map gs_range (ga_Promoted report))) \<le> 2 ^ 22"
proof -
  obtain report where r: "audit_Run sample_json (\<lambda>_. sample_file) calm sample_dir sample_audit = (report, None)"
      "ga_FailOpen report = None" using sample_run by blast
  obtain direct where d: "audit_loadDirect calm (gc_Direct4Path sample_audit) sample_dir = Some direct" "uint (5 :: u32) \<notin> points direct"
    using sample_direct by (auto simp: sample_audit_def)
  have "\<forall>src \<in> set (gc_Sources sample_audit). source_usable sample_json (\<lambda>_. sample_file) src"
    using sample_scan by (simp add: sample_audit_def)
  from audit_Run_bounded [OF d(1) this r] r(1) show ?thesis by (auto simp: sample_audit_def)
qed

text \<open>The country of a disputed span can be one that no database gives its addresses: the code noted at an
  edge below the threshold is kept until the next falling edge.\<close>

lemma mergeAgreement_stale_country:
  "mergeAgreement
     [[\<lparr>gs_Lo = 0, gs_Hi = 9, gs_Country = ''US'', gs_Source = ''a''\<rparr>, \<lparr>gs_Lo = 100, gs_Hi = 109, gs_Country = ''JP'', gs_Source = ''a''\<rparr>],
      [\<lparr>gs_Lo = 100, gs_Hi = 109, gs_Country = ''JP'', gs_Source = ''b''\<rparr>]] 2 =
   ([\<lparr>gs_Lo = 100, gs_Hi = 109, gs_Country = ''US'', gs_Source = ''agreed''\<rparr>], 10)"
  by code_simp

end
