(* ===== verification/Base64.thy ===== *)
theory Base64
  imports Go_Strings
begin

text \<open>
  Go's package \<open>encoding/base64\<close> as the sources use it: the standard alphabet with padding and the URL
  alphabet without. Octets are characters. As in Go the decoder skips line breaks and, not being in
  its strict mode, ignores the bits of the last digit that belong to no octet.
\<close>

section \<open>Digits\<close>

definition b64_common :: string where
  "b64_common = ''ABCDEFGHIJKLMNOPQRSTUVWXYZabcdefghijklmnopqrstuvwxyz0123456789''"

definition b64_std :: string where "b64_std = b64_common @ ''+/''"
definition b64_url :: string where "b64_url = b64_common @ ''-_''"

fun digit_index :: "char \<Rightarrow> string \<Rightarrow> nat option" where
  "digit_index c [] = None"
| "digit_index c (d # ds) = (if c = d then Some 0 else map_option Suc (digit_index c ds))"

lemma digit_index_nth: "distinct ds \<Longrightarrow> i < length ds \<Longrightarrow> digit_index (ds ! i) ds = Some i"
  by (induction ds arbitrary: i) (auto simp: nth_Cons' less_Suc_eq_0_disj split: if_splits)

lemma digit_index_None: "c \<notin> set ds \<Longrightarrow> digit_index c ds = None"
  by (induction ds) auto

lemma b64_alphabets:
  "distinct b64_url" "length b64_url = 64" "distinct b64_std" "length b64_std = 64"
  "CHR ''.'' \<notin> set b64_url" "CHR 0x0A \<notin> set b64_url" "CHR 0x0D \<notin> set b64_url" "CHR ''='' \<notin> set b64_std"
  by (simp_all add: b64_url_def b64_std_def b64_common_def)

section \<open>Groups of digits\<close>

fun to_sextets :: "nat list \<Rightarrow> nat list" where
  "to_sextets [] = []"
| "to_sextets [a] = [a div 4, a mod 4 * 16]"
| "to_sextets [a, b] = [a div 4, a mod 4 * 16 + b div 16, b mod 16 * 4]"
| "to_sextets (a # b # c # rest) =
     [a div 4, a mod 4 * 16 + b div 16, b mod 16 * 4 + c div 64, c mod 64] @ to_sextets rest"

fun of_sextets :: "nat list \<Rightarrow> nat list option" where
  "of_sextets [] = Some []"
| "of_sextets [a] = None"
| "of_sextets [a, b] = Some [a * 4 + b div 16]"
| "of_sextets [a, b, c] = Some [a * 4 + b div 16, b mod 16 * 16 + c div 4]"
| "of_sextets (a # b # c # d # rest) =
     map_option (\<lambda>bs. [a * 4 + b div 16, b mod 16 * 16 + c div 4, c mod 4 * 64 + d] @ bs) (of_sextets rest)"

definition raw_url_encode :: "string \<Rightarrow> string" where
  "raw_url_encode s = map (\<lambda>i. b64_url ! i) (to_sextets (map of_char s))"

definition decode_digits :: "string \<Rightarrow> string \<Rightarrow> string option" where
  "decode_digits alphabet s =
     (case those (map (\<lambda>c. digit_index c alphabet) s) of
        None \<Rightarrow> None
      | Some ds \<Rightarrow> map_option (map char_of) (of_sextets ds))"

definition no_breaks :: "string \<Rightarrow> string" where
  "no_breaks s = filter (\<lambda>c. c \<noteq> CHR 0x0A \<and> c \<noteq> CHR 0x0D) s"

definition raw_url_decode :: "string \<Rightarrow> string option" where
  "raw_url_decode s = decode_digits b64_url (no_breaks s)"

text \<open>With padding the digits come in groups of four, the last of which may end in one or two \<open>=\<close>.\<close>

definition std_decode :: "string \<Rightarrow> string option" where
  "std_decode s =
     (let digits = no_breaks s in
      if length digits mod 4 \<noteq> 0 then None
      else decode_digits b64_std (TrimSuffix (CHR ''='') (TrimSuffix (CHR ''='') digits)))"

section \<open>Round trip and the unused bits\<close>

lemma to_sextets_less: "\<forall>x \<in> set xs. x < 256 \<Longrightarrow> \<forall>y \<in> set (to_sextets xs). y < 64"
  by (induction xs rule: to_sextets.induct) (auto simp: less_mult_imp_div_less)

lemma join_digits:
  fixes x y k :: nat
  assumes "y < k"
  shows "(x * k + y) div k = x" and "(x * k + y) mod k = y"
  using assms by simp_all

lemma sextet_arith:
  fixes a b c :: nat
  assumes "b < 256" "c < 256"
  shows "a div 4 * 4 + (a mod 4 * 16 + b div 16) div 16 = a"
    and "(a mod 4 * 16 + b div 16) mod 16 * 16 + (b mod 16 * 4 + c div 64) div 4 = b"
    and "(b mod 16 * 4 + c div 64) mod 4 * 64 + c mod 64 = c"
proof -
  have "b div 16 < 16" "c div 64 < 4" using assms by simp_all
  then show "a div 4 * 4 + (a mod 4 * 16 + b div 16) div 16 = a"
    and "(a mod 4 * 16 + b div 16) mod 16 * 16 + (b mod 16 * 4 + c div 64) div 4 = b"
    and "(b mod 16 * 4 + c div 64) mod 4 * 64 + c mod 64 = c"
    by (simp_all only: join_digits div_mult_mod_eq)
qed

lemma of_to_sextets: "\<forall>x \<in> set xs. x < 256 \<Longrightarrow> of_sextets (to_sextets xs) = Some xs"
proof (induction xs rule: to_sextets.induct)
  case (3 a b)
  then show ?case using sextet_arith(1) [of b 0 a] sextet_arith(2) [of b 0 a] by simp
next
  case (4 a b c rest)
  then have "b < 256" "c < 256" by simp_all
  then show ?case using sextet_arith(1,2) [of b c a] sextet_arith(3) [of b c] 4 by simp
qed auto

text \<open>The number of octets decides how many bits of the last digit are unused; with one octet over, four are.\<close>

lemma of_sextets_unused:
  assumes "\<forall>x \<in> set xs. x < 256" and "length xs mod 3 = 1" and "k < 16"
  shows "of_sextets (butlast (to_sextets xs) @ [last (to_sextets xs) + k]) = Some xs \<and>
    last (to_sextets xs) mod 16 = 0 \<and> to_sextets xs \<noteq> []"
  using assms
proof (induction xs rule: to_sextets.induct)
  case (2 a)
  then show ?case by (simp add: div_add1_eq)
next
  case (4 a b c rest)
  then have "b < 256" "c < 256" by simp_all
  note s = sextet_arith(1,2) [OF this, of a] sextet_arith(3) [OF this]
  have "length rest mod 3 = 1" using 4(3) by simp
  with 4 s show ?case by simp
qed auto

lemma those_Some_iff: "those xs = Some ys \<longleftrightarrow> xs = map Some ys"
  by (induction xs arbitrary: ys) (auto split: option.splits)

lemma decode_digits_sextets:
  assumes "distinct alphabet" and "\<forall>i \<in> set ds. i < length alphabet"
  shows "decode_digits alphabet (map (\<lambda>i. alphabet ! i) ds) = map_option (map char_of) (of_sextets ds)"
proof -
  have "those (map (\<lambda>c. digit_index c alphabet) (map (\<lambda>i. alphabet ! i) ds)) = Some ds"
    using assms by (simp add: those_Some_iff digit_index_nth)
  then show ?thesis by (simp add: decode_digits_def)
qed

lemma url_digits_plain: "\<forall>i \<in> set ds. i < 64 \<Longrightarrow> no_breaks (map (\<lambda>i. b64_url ! i) ds) = map (\<lambda>i. b64_url ! i) ds"
  unfolding no_breaks_def
proof (rule filter_True, rule ballI)
  fix c assume "\<forall>i \<in> set ds. i < 64" "c \<in> set (map (\<lambda>i. b64_url ! i) ds)"
  then have "c \<in> set b64_url" by (auto simp: b64_alphabets(2))
  then show "c \<noteq> CHR 0x0A \<and> c \<noteq> CHR 0x0D" using b64_alphabets(6,7) by blast
qed

lemma raw_url_decode_sextets:
  "\<forall>i \<in> set ds. i < 64 \<Longrightarrow>
   raw_url_decode (map (\<lambda>i. b64_url ! i) ds) = map_option (map char_of) (of_sextets ds)"
  by (simp add: raw_url_decode_def url_digits_plain decode_digits_sextets b64_alphabets)

lemma octet_codes: "\<forall>x \<in> set (map of_char s). x < (256 :: nat)"
  by auto

lemma raw_url_roundtrip: "raw_url_decode (raw_url_encode s) = Some s"
  unfolding raw_url_encode_def
  by (simp add: raw_url_decode_sextets to_sextets_less [OF octet_codes] of_to_sextets [OF octet_codes] comp_def)

lemma raw_url_plain: "CHR ''.'' \<notin> set (raw_url_encode s)"
proof
  assume "CHR ''.'' \<in> set (raw_url_encode s)"
  then obtain i where "i \<in> set (to_sextets (map of_char s))" "CHR ''.'' = b64_url ! i"
    by (auto simp: raw_url_encode_def)
  then have "CHR ''.'' \<in> set b64_url" using to_sextets_less [OF octet_codes, of s] b64_alphabets(2) by fastforce
  then show False using b64_alphabets(5) by simp
qed

text \<open>So one octet over leaves a second way to write the last digit.\<close>

lemma raw_url_other_form:
  assumes "length s mod 3 = 1"
  obtains t where "t \<noteq> raw_url_encode s" and "raw_url_decode t = Some s" and "CHR ''.'' \<notin> set t" and "t \<noteq> []"
proof -
  let ?xs = "map of_char s :: nat list"
  let ?ds = "butlast (to_sextets ?xs) @ [last (to_sextets ?xs) + 1]"
  have len: "length ?xs mod 3 = 1" using assms by simp
  note u = of_sextets_unused [OF octet_codes len, of 1]
  have ne: "to_sextets ?xs \<noteq> []" and last: "last (to_sextets ?xs) mod 16 = 0" using u by simp_all
  have all: "\<forall>y \<in> set (to_sextets ?xs). y < 64" by (rule to_sextets_less [OF octet_codes])
  then have "last (to_sextets ?xs) < 64" using ne last_in_set by blast
  then have "last (to_sextets ?xs) + 1 < 64" using last by (cases "last (to_sextets ?xs) = 63") simp_all
  then have small: "\<forall>i \<in> set ?ds. i < 64" using all by (auto dest: in_set_butlastD)
  let ?t = "map (\<lambda>i. b64_url ! i) ?ds"
  have "raw_url_decode ?t = Some s"
    using u by (simp only: raw_url_decode_sextets [OF small]) (simp add: comp_def)
  moreover have "?t \<noteq> raw_url_encode s"
  proof
    assume "?t = raw_url_encode s"
    then have "last ?t = last (raw_url_encode s)" by simp
    then have "b64_url ! (last (to_sextets ?xs) + 1) = b64_url ! last (to_sextets ?xs)"
      using ne by (simp add: raw_url_encode_def last_map)
    then show False
      using b64_alphabets(1,2) \<open>last (to_sextets ?xs) + 1 < 64\<close> by (simp add: nth_eq_iff_index_eq)
  qed
  moreover have "CHR ''.'' \<notin> set ?t"
  proof
    assume "CHR ''.'' \<in> set ?t"
    then obtain i where "i \<in> set ?ds" "CHR ''.'' = b64_url ! i" unfolding set_map by blast
    then have "CHR ''.'' \<in> set b64_url" using small b64_alphabets(2) nth_mem by metis
    then show False using b64_alphabets(5) by simp
  qed
  ultimately show thesis using that [of ?t] by simp
qed

end
