(* ===== verification/Helper_Auth.thy ===== *)
theory Helper_Auth
  imports Access Base64 "HOL-Library.AList"
begin

text \<open>
  Package \<open>internal/helper\<close>, file \<open>auth.go\<close>: the record of the panel's credentials, which only the privileged
  helper writes. A JSON value is a datatype over its numbers; an object is a list of its members in the
  order in which they are visited. Reading and printing JSON, the conversions of numbers, the random
  bytes and the key derivation are arguments.
\<close>

section \<open>JSON values\<close>

datatype 'n auth_json = JNull | JBool bool | JNum 'n | JStr string | JArr "'n auth_json list" | JObj "(string \<times> 'n auth_json) list"

type_synonym 'n obj = "(string \<times> 'n auth_json) list"

record 'n codec =
  jc_decode :: "string \<Rightarrow> 'n auth_json option"
  jc_encode :: "bool \<Rightarrow> 'n obj \<Rightarrow> string"
  jc_nonzero :: "'n \<Rightarrow> bool"
  jc_int :: "'n \<Rightarrow> int"
  jc_text :: "'n \<Rightarrow> string"
  jc_num :: "int \<Rightarrow> 'n"

definition objectValue :: "'n auth_json option \<Rightarrow> 'n obj" where
  "objectValue raw = (case raw of Some (JObj m) \<Rightarrow> m | _ \<Rightarrow> [])"

definition truthy :: "'n codec \<Rightarrow> 'n auth_json option \<Rightarrow> bool" where
  "truthy jc raw =
     (case raw of
        None \<Rightarrow> False
      | Some JNull \<Rightarrow> False
      | Some (JBool b) \<Rightarrow> b
      | Some (JStr s) \<Rightarrow> s \<noteq> []
      | Some (JNum n) \<Rightarrow> jc_nonzero jc n
      | Some _ \<Rightarrow> True)"

definition string_of :: "'n auth_json option \<Rightarrow> string" where
  "string_of raw = (case raw of Some (JStr s) \<Rightarrow> s | _ \<Rightarrow> [])"

section \<open>The record\<close>

definition loadAuthRecord :: "'n codec \<Rightarrow> env \<Rightarrow> string \<Rightarrow> dir \<Rightarrow> 'n obj" where
  "loadAuthRecord jc env path d =
     (case ReadFile env path d of
        Inl _ \<Rightarrow> []
      | Inr data \<Rightarrow> (case jc_decode jc data of Some (JObj m) \<Rightarrow> m | _ \<Rightarrow> []))"

definition writeAuthRecord :: "'n codec \<Rightarrow> env \<Rightarrow> string \<Rightarrow> 'n obj \<Rightarrow> bool \<Rightarrow> nat \<Rightarrow> dir \<Rightarrow> (io_error + unit) \<times> dir" where
  "writeAuthRecord jc env path record indent mode d =
     (let i = en_io env path in
      if \<not> io_mkdir i then (Inl IOFailure, d)
      else case io_temp i of
        None \<Rightarrow> (Inl IOFailure, d)
      | Some temp \<Rightarrow>
          let f = \<lparr>f_data = jc_encode jc indent record, f_mode = mode\<rparr>; d1 = d(temp \<mapsto> f) in
          if \<not> (io_write i \<and> io_close i \<and> io_chmod i) then (Inl IOFailure, remove_temp i temp d1)
          else if \<not> io_rename i then (Inl IOFailure, remove_temp i temp d1)
          else (Inr (), d1(temp := None, path \<mapsto> f)))"

datatype auth_error = BadUsername | ShortPassword | LongPassword | NoCredentials | NoRandom | NotWritten

definition username_char :: "char \<Rightarrow> bool" where
  "username_char c \<longleftrightarrow> CHR ''a'' \<le> c \<and> c \<le> CHR ''z'' \<or> is_digit c"

definition NormalizeUsername :: "string \<Rightarrow> auth_error + string" where
  "NormalizeUsername raw =
     (let name = ToLower (TrimSpace raw) in
      if 2 \<le> length name \<and> length name \<le> 32 \<and> username_char (hd name) \<and>
         list_all (\<lambda>c. username_char c \<or> c \<in> {CHR ''.'', CHR ''_'', CHR ''-''}) (tl name)
      then Inr name else Inl BadUsername)"

definition std_encode :: "string \<Rightarrow> string" where
  "std_encode s =
     (let digits = map (\<lambda>i. b64_std ! i) (to_sextets (map of_char s))
      in digits @ replicate ((4 - length digits mod 4) mod 4) (CHR ''=''))"

text \<open>\<open>salt\<close> and \<open>key\<close> are the random bytes, where they can be had; \<open>derive\<close> is scrypt with the parameters named below.\<close>

definition HashPassword ::
  "'n codec \<Rightarrow> (string \<Rightarrow> string \<Rightarrow> string option) \<Rightarrow> string option \<Rightarrow> string option \<Rightarrow> int \<Rightarrow> string \<Rightarrow> 'n obj option" where
  "HashPassword jc derive salt key now password =
     (case (salt, key) of
        (Some s, Some k) \<Rightarrow>
          map_option (\<lambda>derived.
            [(''algo'', JStr ''scrypt''), (''n'', JNum (jc_num jc (2 ^ 15))), (''r'', JNum (jc_num jc 8)), (''p'', JNum (jc_num jc 1)),
             (''salt'', JStr (std_encode s)), (''hash'', JStr (std_encode derived)), (''session_key'', JStr (std_encode k)),
             (''created_at'', JNum (jc_num jc now))]) (derive password s)
      | _ \<Rightarrow> None)"

definition keep_member :: "'n obj \<Rightarrow> string \<Rightarrow> 'n obj \<Rightarrow> 'n obj" where
  "keep_member previous key r = (case map_of previous key of None \<Rightarrow> r | Some v \<Rightarrow> AList.update key v r)"

definition passwordRecord ::
  "'n codec \<Rightarrow> (string \<Rightarrow> string \<Rightarrow> string option) \<Rightarrow> string option \<Rightarrow> string option \<Rightarrow> int \<Rightarrow> env \<Rightarrow> string \<Rightarrow> string \<Rightarrow> bool \<Rightarrow> dir \<Rightarrow>
    'n obj option" where
  "passwordRecord jc derive salt key now env path password reenable d =
     map_option (\<lambda>r.
       let previous = loadAuthRecord jc env path d; r1 = fold (keep_member previous) [''username'', ''totp'', ''oauth''] r
       in if \<not> reenable \<and> truthy jc (map_of previous ''password_disabled'')
          then AList.update ''password_disabled'' (JBool True) r1 else r1)
     (HashPassword jc derive salt key now password)"

definition MinPanelPasswordLen :: nat where "MinPanelPasswordLen = 12"
definition MaxPanelPasswordLen :: nat where "MaxPanelPasswordLen = 256"

definition rune_length :: "string \<Rightarrow> nat" where
  "rune_length s = length (runes_of (map of_char s))"

definition saved :: "(io_error + unit) \<times> dir \<Rightarrow> auth_error option \<times> dir" where
  "saved = (\<lambda>(r, d). ((case r of Inl _ \<Rightarrow> Some NotWritten | Inr _ \<Rightarrow> None), d))"

definition SetPanelPassword ::
  "'n codec \<Rightarrow> (string \<Rightarrow> string \<Rightarrow> string option) \<Rightarrow> string option \<Rightarrow> string option \<Rightarrow> int \<Rightarrow> env \<Rightarrow> string \<Rightarrow> string \<Rightarrow> string \<Rightarrow> dir \<Rightarrow>
    auth_error option \<times> dir" where
  "SetPanelPassword jc derive salt key now env path username password d =
     (if rune_length password < MinPanelPasswordLen then (Some ShortPassword, d)
      else if MaxPanelPasswordLen < rune_length password then (Some LongPassword, d)
      else case passwordRecord jc derive salt key now env path password True d of
        None \<Rightarrow> (Some NoRandom, d)
      | Some r \<Rightarrow>
          if username = [] then saved (writeAuthRecord jc env path r False 416 d)
          else case NormalizeUsername username of
            Inl e \<Rightarrow> (Some e, d)
          | Inr name \<Rightarrow> saved (writeAuthRecord jc env path (AList.update ''username'' (JStr name) r) False 416 d))"

definition SetPanelUsername :: "'n codec \<Rightarrow> env \<Rightarrow> string \<Rightarrow> string \<Rightarrow> dir \<Rightarrow> auth_error option \<times> dir" where
  "SetPanelUsername jc env path username d =
     (case NormalizeUsername username of
        Inl e \<Rightarrow> (Some e, d)
      | Inr name \<Rightarrow>
          (let r = loadAuthRecord jc env path d in
           if r = [] then (Some NoCredentials, d)
           else saved (writeAuthRecord jc env path (AList.update ''username'' (JStr name) r) True 384 d)))"

definition DisableTOTP :: "'n codec \<Rightarrow> env \<Rightarrow> string \<Rightarrow> dir \<Rightarrow> (bool \<times> auth_error option) \<times> dir" where
  "DisableTOTP jc env path d =
     (let r = loadAuthRecord jc env path d in
      if r = [] then ((False, Some NoCredentials), d)
      else if map_of r ''totp'' = None then ((False, None), d)
      else let (e, d1) = saved (writeAuthRecord jc env path (AList.delete ''totp'' r) False 416 d) in ((True, e), d1))"

definition RotateSessionKey :: "'n codec \<Rightarrow> string option \<Rightarrow> env \<Rightarrow> string \<Rightarrow> dir \<Rightarrow> auth_error option \<times> dir" where
  "RotateSessionKey jc key env path d =
     (let r = loadAuthRecord jc env path d in
      if r = [] then (Some NoCredentials, d)
      else case key of
        None \<Rightarrow> (Some NoRandom, d)
      | Some k \<Rightarrow> saved (writeAuthRecord jc env path (AList.update ''session_key'' (JStr (std_encode k)) r) True 384 d))"

section \<open>Updates from the panel\<close>

definition panelWritableKeys :: "string list" where
  "panelWritableKeys = [''oauth'', ''password_disabled'', ''totp'']"

definition oauthWritableKeys :: "string list" where
  "oauthWritableKeys = [''client_id'', ''client_secret'', ''allowed_users'', ''verified_once'', ''bound_ids'']"

definition totpWritableKeys :: "string list" where
  "totpWritableKeys = [''secret'', ''enabled'']"

definition changed :: "'n obj \<Rightarrow> 'n obj \<Rightarrow> string \<Rightarrow> bool \<Rightarrow> bool" where
  "changed old incoming key blankKeeps =
     (if map_of incoming key = None then False
      else let new = TrimSpace (string_of (map_of incoming key)) in
        if new = [] \<and> blankKeeps then False else new \<noteq> TrimSpace (string_of (map_of old key)))"

definition oauthCredentialReplaced :: "'n obj \<Rightarrow> 'n obj \<Rightarrow> bool" where
  "oauthCredentialReplaced old incoming \<longleftrightarrow> changed old incoming ''client_id'' False \<or> changed old incoming ''client_secret'' True"

definition bound_user :: "'n obj \<Rightarrow> 'n auth_json \<Rightarrow> 'n obj \<Rightarrow> 'n obj" where
  "bound_user bound raw kept =
     (let user = ToLower (TrimSpace (string_of (Some raw))) in
      case map_of bound user of
        None \<Rightarrow> kept
      | Some i \<Rightarrow> if user = [] then kept else AList.update user i kept)"

definition boundIDsFor :: "'n auth_json list \<Rightarrow> 'n obj \<Rightarrow> 'n obj" where
  "boundIDsFor users bound = fold (bound_user bound) users []"

text \<open>The members of an object that may be written, put over those that are there.\<close>

definition put_members :: "string list \<Rightarrow> 'n obj \<Rightarrow> 'n obj \<Rightarrow> 'n obj" where
  "put_members writable incoming old =
     fold (\<lambda>(k, v) m. if k \<in> set writable then AList.update k v m else m) incoming old"

definition nil_or :: "'n auth_json option \<Rightarrow> 'n auth_json" where
  "nil_or v = (case v of None \<Rightarrow> JNull | Some x \<Rightarrow> x)"

definition merge_oauth :: "'n codec \<Rightarrow> 'n obj \<Rightarrow> 'n obj \<Rightarrow> 'n obj" where
  "merge_oauth jc old incoming =
     (let m1 = put_members oauthWritableKeys incoming old;
          m2 = (if TrimSpace (string_of (map_of incoming ''client_secret'')) = []
                then AList.update ''client_secret'' (nil_or (map_of old ''client_secret'')) m1 else m1);
          m3 = (case map_of incoming ''allowed_users'' of
                  Some (JArr users) \<Rightarrow> AList.update ''bound_ids'' (JObj (boundIDsFor users (objectValue (map_of old ''bound_ids'')))) m2
                | _ \<Rightarrow> m2)
      in AList.update ''verified_once''
           (JBool (\<not> oauthCredentialReplaced old incoming \<and>
             (truthy jc (map_of old ''verified_once'') \<or> truthy jc (map_of incoming ''verified_once'')))) m3)"

definition merge_totp :: "'n codec \<Rightarrow> 'n obj \<Rightarrow> 'n obj \<Rightarrow> 'n obj" where
  "merge_totp jc old incoming =
     (let m = put_members totpWritableKeys incoming old
      in AList.update ''enabled'' (JBool (truthy jc (map_of m ''enabled''))) m)"

definition merge_key :: "'n codec \<Rightarrow> string \<times> 'n auth_json \<Rightarrow> 'n obj \<Rightarrow> 'n obj" where
  "merge_key jc = (\<lambda>(key, val) r.
     if key \<notin> set panelWritableKeys then r
     else if key = ''oauth'' then AList.update key (JObj (merge_oauth jc (objectValue (map_of r key)) (objectValue (Some val)))) r
     else if key = ''totp'' then
       (if objectValue (Some val) = [] then AList.delete key r
        else AList.update key (JObj (merge_totp jc (objectValue (map_of r key)) (objectValue (Some val)))) r)
     else AList.update key (JBool (truthy jc (Some val))) r)"

definition MergeAuthUpdate :: "'n codec \<Rightarrow> env \<Rightarrow> string \<Rightarrow> 'n obj \<Rightarrow> dir \<Rightarrow> 'n obj" where
  "MergeAuthUpdate jc env path upd d = fold (merge_key jc) upd (loadAuthRecord jc env path d)"

end
