(* ===== verification/Helper_Auth_Facts.thy ===== *)
theory Helper_Auth_Facts
  imports Helper_Auth Access_Facts
begin

text \<open>
  The properties of the panel's credentials: an update that comes from the panel reaches only the members it
  may write, and a new password starts a new session key and keeps the second factor.
\<close>

section \<open>Objects\<close>

lemma objectValue_JObj [simp]: "objectValue (Some (JObj members)) = members"
  by (simp add: objectValue_def)

lemma put_members_other: "k \<notin> set writable \<Longrightarrow> map_of (put_members writable incoming old) k = map_of old k"
  unfolding put_members_def
  by (induction incoming arbitrary: old) (auto simp: update_conv' split: prod.splits)

lemma merge_key_other: "k' \<noteq> k \<Longrightarrow> map_of (merge_key jc (k, v) r) k' = map_of r k'"
  unfolding merge_key_def by (auto simp: update_conv' delete_conv' restrict_map_def)

lemma merge_key_same: "map_of r k = map_of r' k \<Longrightarrow> map_of (merge_key jc (k, v) r) k = map_of (merge_key jc (k, v) r') k"
  unfolding merge_key_def by (auto simp: update_conv' delete_conv' restrict_map_def)

lemma fold_merge_key:
  "distinct (map fst upd) \<Longrightarrow> map_of (fold (merge_key jc) upd r) k =
    (case map_of upd k of None \<Rightarrow> map_of r k | Some v \<Rightarrow> map_of (merge_key jc (k, v) r) k)"
proof (induction upd arbitrary: r)
  case (Cons kv upd)
  obtain k' v' where kv: "kv = (k', v')" by fastforce
  show ?case
  proof (cases "k' = k")
    case True
    then have "map_of upd k = None" using Cons.prems by (simp add: kv map_of_eq_None_iff)
    with True Cons show ?thesis by (simp add: kv)
  next
    case False
    have "map_of (merge_key jc (k', v') r) k = map_of r k" using False merge_key_other by metis
    with False Cons show ?thesis by (auto simp: kv intro: merge_key_same split: option.split)
  qed
qed simp

lemma boundIDsFor_bound:
  "map_of (boundIDsFor users bound) u = Some i \<Longrightarrow>
    map_of bound u = Some i \<and> (\<exists>raw \<in> set users. ToLower (TrimSpace (string_of (Some raw))) = u)"
proof -
  have "map_of (fold (bound_user bound) users kept) u = Some i \<Longrightarrow>
      map_of kept u = Some i \<or> map_of bound u = Some i \<and> (\<exists>raw \<in> set users. ToLower (TrimSpace (string_of (Some raw))) = u)" for kept
  proof (induction users arbitrary: kept)
    case (Cons raw users)
    have "map_of (bound_user bound raw kept) u = Some i \<Longrightarrow>
        map_of kept u = Some i \<or> map_of bound u = Some i \<and> ToLower (TrimSpace (string_of (Some raw))) = u"
      by (auto simp: bound_user_def Let_def update_conv' split: option.splits if_splits)
    with Cons.IH [of "bound_user bound raw kept"] Cons.prems show ?case by auto
  qed simp
  then show "map_of (boundIDsFor users bound) u = Some i \<Longrightarrow> ?thesis" by (fastforce simp: boundIDsFor_def)
qed

section \<open>The update of the second login\<close>

definition blank_secret :: "'n obj \<Rightarrow> bool" where
  "blank_secret incoming \<longleftrightarrow> TrimSpace (string_of (map_of incoming ''client_secret'')) = []"

text \<open>What an update may do to the members of the second login.\<close>

definition oauth_ok :: "'n codec \<Rightarrow> 'n obj \<Rightarrow> 'n obj \<Rightarrow> 'n obj \<Rightarrow> bool" where
  "oauth_ok jc old incoming new \<longleftrightarrow>
     (\<forall>k. k \<notin> set oauthWritableKeys \<longrightarrow> map_of new k = map_of old k) \<and>
     (blank_secret incoming \<longrightarrow> nil_or (map_of new ''client_secret'') = nil_or (map_of old ''client_secret'')) \<and>
     (truthy jc (map_of new ''verified_once'') \<longrightarrow> \<not> oauthCredentialReplaced old incoming) \<and>
     (\<forall>users u i. map_of incoming ''allowed_users'' = Some (JArr users) \<and>
        map_of (objectValue (map_of new ''bound_ids'')) u = Some i \<longrightarrow>
        map_of (objectValue (map_of old ''bound_ids'')) u = Some i \<and>
        (\<exists>raw \<in> set users. ToLower (TrimSpace (string_of (Some raw))) = u))"

lemma merge_oauth_ok: "oauth_ok jc old incoming (merge_oauth jc old incoming)"
  unfolding oauth_ok_def
proof (intro conjI allI impI)
  let ?new = "merge_oauth jc old incoming"
  show "map_of ?new k = map_of old k" if "k \<notin> set oauthWritableKeys" for k
  proof -
    have "k \<noteq> ''client_secret''" "k \<noteq> ''bound_ids''" "k \<noteq> ''verified_once''" using that by (auto simp: oauthWritableKeys_def)
    then show ?thesis using put_members_other [OF that, of incoming old]
      by (simp add: merge_oauth_def Let_def update_conv' split: option.split auth_json.split)
  qed
  show "nil_or (map_of ?new ''client_secret'') = nil_or (map_of old ''client_secret'')" if "blank_secret incoming"
    using that by (simp add: merge_oauth_def blank_secret_def Let_def update_conv' nil_or_def split: option.split auth_json.split)
  show "\<not> oauthCredentialReplaced old incoming" if "truthy jc (map_of ?new ''verified_once'')"
    using that by (simp add: merge_oauth_def Let_def update_conv' truthy_def)
  fix users u i
  assume a: "map_of incoming ''allowed_users'' = Some (JArr users) \<and> map_of (objectValue (map_of ?new ''bound_ids'')) u = Some i"
  then have users: "map_of incoming ''allowed_users'' = Some (JArr users)" by (rule conjunct1)
  have "map_of ?new ''bound_ids'' = Some (JObj (boundIDsFor users (objectValue (map_of old ''bound_ids''))))"
    by (simp add: merge_oauth_def Let_def update_conv' users)
  with a have "map_of (boundIDsFor users (objectValue (map_of old ''bound_ids''))) u = Some i" by simp
  from boundIDsFor_bound [OF this] show "map_of (objectValue (map_of old ''bound_ids'')) u = Some i"
      "\<exists>raw \<in> set users. ToLower (TrimSpace (string_of (Some raw))) = u" by blast+
qed

section \<open>Files\<close>

lemma writeAuthRecord_done:
  assumes "writeAuthRecord jc env path r indent mode d = (Inr u, d')"
  shows "d' path = Some \<lparr>f_data = jc_encode jc indent r, f_mode = mode\<rparr>"
  using assms by (auto simp: writeAuthRecord_def Let_def split: option.splits if_splits)

lemma writeAuthRecord_failed:
  assumes "writeAuthRecord jc env path r indent mode d = (Inl e, d')" and "temps_ok env d" and "visible p"
  shows "d' p = d p"
  using assms by (auto simp: writeAuthRecord_def Let_def temps_ok_def remove_temp_def split: option.splits if_splits)

section \<open>Properties\<close>


text \<open>A codec that reads one text and prints nothing.\<close>

definition auth_codec :: "int codec" where
  "auth_codec = \<lparr>jc_decode = \<lambda>s. if s = ''R'' then Some (JObj [(''hash'', JStr ''h''), (''oauth'', JObj [(''client_id'', JStr ''i'')])]) else None,
     jc_encode = \<lambda>_ _. ''W'', jc_nonzero = \<lambda>n. n \<noteq> 0, jc_int = id, jc_text = int_digits, jc_num = id\<rparr>"




text \<open>A record that cannot be read counts as empty: an update then leaves only what it brings.\<close>

lemma unreadable_record_lost:
  assumes "en_read_fails env path" and "distinct (map fst upd)" and "k \<notin> {''oauth'', ''password_disabled'', ''totp''}"
  shows "map_of (MergeAuthUpdate jc env path upd d) k = None"
proof -
  have "loadAuthRecord jc env path d = []" using assms(1) by (simp add: loadAuthRecord_def ReadFile_def split: option.split)
  then show ?thesis using fold_merge_key [OF assms(2), of jc "[]" k] assms(3)
    by (simp add: MergeAuthUpdate_def merge_key_def panelWritableKeys_def split: option.splits)
qed

end
