(* ===== verification/Nft_Facts.thy ===== *)
theory Nft_Facts
  imports Watchdog Access_Facts
begin

text \<open>
  What is read back from the listing of a table: each set and each chain by itself, and of a set the number
  of its elements. And what a script holds: the elements in pieces that nft takes, none lost.
\<close>

section \<open>Pieces\<close>

lemma chunks_pieces: "concat (chunks xs) = xs \<and> (\<forall>c \<in> set (chunks xs). c \<noteq> [] \<and> length c \<le> nftChunk)"
  by (induction xs rule: chunks.induct) (auto simp: nftChunk_def)

section \<open>Counting\<close>

lemma dotted_append: "dotted k s \<Longrightarrow> dotted k (s @ t)"
proof (induction k arbitrary: s)
  case (Suc k)
  let ?rest = "dropWhile is_digit s"
  have r: "digits_of s \<noteq> []" "?rest \<noteq> []" "hd ?rest = CHR ''.''" "dotted k (tl ?rest)" using Suc.prems by (auto simp: Let_def)
  then obtain y where y: "y \<in> set s" "\<not> is_digit y" by (auto simp: dropWhile_eq_Nil_conv)
  then have "dropWhile is_digit (s @ t) = ?rest @ t" "digits_of (s @ t) = digits_of s"
    using dropWhile_append1 [of y s is_digit t, OF y] takeWhile_append1 [of y s is_digit t, OF y] by (simp_all add: digits_of_def)
  with r Suc.IH [OF r(4)] show ?case by (simp add: Let_def)
next
  case 0
  then show ?case by (cases s) (auto simp: digits_of_def split: if_splits)
qed

lemma nftEntry_context: "nftEntry s \<Longrightarrow> nftEntry (p @ s @ t)"
proof (induction p)
  case Nil
  then show ?case
  proof (induction s)
    case (Cons c s)
    then show ?case using dotted_append [of 3 "c # s" t] by (auto simp del: dotted.simps)
  qed simp
qed simp

lemma countNFTElements_Join:
  assumes "fs \<noteq> []" and "\<forall>f \<in> set fs. CHR '','' \<notin> set f \<and> nftEntry f"
  shows "countNFTElements (Join (CHR '','') fs) = length fs"
  using assms by (simp add: countNFTElements_def Split_Join filter_id_conv)

lemma nftEntry_v4: "nftEntry (v4_String w)"
proof -
  have digits: "digits_of (dec_digits n @ s) = dec_digits n \<and> dropWhile is_digit (dec_digits n @ s) = s"
    if "s = [] \<or> \<not> is_digit (hd s)" for n s
    using dec_digits_digits [of n] that by (cases s) (auto simp: digits_of_def list_all_iff takeWhile_append2 dropWhile_append2)
  have ne: "dec_digits n \<noteq> []" for n by simp
  obtain a b c d where v: "v4_String w = dec_digits a @ CHR ''.'' # dec_digits b @ CHR ''.'' # dec_digits c @ CHR ''.'' # dec_digits d @ []"
    by (simp add: v4_String_def octets_4)
  have "dotted 3 (v4_String w)"
    unfolding v using digits [of "CHR ''.'' # s" for s] digits [of "[]" d] ne
    by (simp add: numeral_3_eq_3 Let_def is_digit_def)
  then show ?thesis by (cases "v4_String w") (simp_all del: dotted.simps)
qed

section \<open>A listing\<close>

text \<open>A block of a table: its kind, its name and the lines between its braces.\<close>

type_synonym nft_block = "string \<times> string \<times> string list"

definition block_key :: "nft_block \<Rightarrow> string" where
  "block_key b = fst b @ '' '' @ fst (snd b)"

definition block_lines :: "nft_block \<Rightarrow> string list" where
  "block_lines b = (CHR 0x09 # block_key b @ '' {'') # snd (snd b) @ [CHR 0x09 # ''}'']"

definition lines_text :: "string list \<Rightarrow> string" where
  "lines_text ls = concat (map (\<lambda>l. l @ [CHR 0x0A]) ls)"

definition listing :: "string \<Rightarrow> nft_block list \<Rightarrow> string" where
  "listing table bs = lines_text ((''table inet '' @ table @ '' {'') # concat (map (\<lambda>b. block_lines b @ [[]]) bs) @ [''}''])"

definition depth_of :: "string \<Rightarrow> int" where
  "depth_of l = occurrences (CHR ''{'') l - occurrences (CHR ''}'') l"

fun balanced :: "int \<Rightarrow> string list \<Rightarrow> bool" where
  "balanced n [] \<longleftrightarrow> n = 0"
| "balanced n (l # ls) \<longleftrightarrow> 0 \<le> n + depth_of l \<and> balanced (n + depth_of l) ls"

definition plain_word :: "string \<Rightarrow> bool" where
  "plain_word w \<longleftrightarrow> w \<noteq> [] \<and> (\<forall>c \<in> set w. printable c) \<and> CHR ''{'' \<notin> set w \<and> CHR ''}'' \<notin> set w"

lemma plain_wordD:
  "plain_word w \<Longrightarrow> w \<noteq> []" "plain_word w \<Longrightarrow> \<forall>c \<in> set w. printable c"
  "plain_word w \<Longrightarrow> CHR ''{'' \<notin> set w" "plain_word w \<Longrightarrow> CHR ''}'' \<notin> set w"
  unfolding plain_word_def by blast+

lemma plain_word_newline: "plain_word w \<Longrightarrow> CHR 0x0A \<notin> set w"
proof
  assume "plain_word w" "CHR 0x0A \<in> set w"
  then have "printable (CHR 0x0A)" using plain_wordD(2) by blast
  then show False by simp
qed

definition wf_block :: "nft_block \<Rightarrow> bool" where
  "wf_block b \<longleftrightarrow> fst b \<in> {''set'', ''chain''} \<and> plain_word (fst (snd b)) \<and> balanced 0 (snd (snd b)) \<and>
     (\<forall>l \<in> set (snd (snd b)). CHR 0x0A \<notin> set l)"

definition wf_listing :: "string \<Rightarrow> nft_block list \<Rightarrow> bool" where
  "wf_listing table bs \<longleftrightarrow> plain_word table \<and> list_all wf_block bs \<and> distinct (map block_key bs)"

lemma Fields_Cons:
  assumes "\<forall>c \<in> set a. printable c" and "a \<noteq> []"
  shows "Fields (a @ CHR '' '' # s) = a # Fields s"
proof -
  have "fields_loop acc (a @ CHR '' '' # s) = (rev acc @ a) # fields_loop [] s" if "rev acc @ a \<noteq> []" for acc
    using assms(1) that
  proof (induction a arbitrary: acc)
    case Nil
    have "front_space (CHR '' '' # s) = 1" by (simp add: front_space_def space_width.simps)
    then show ?case using Nil by simp
  next
    case (Cons c a)
    then have "fields_loop acc (c # a @ CHR '' '' # s) = fields_loop (c # acc) (a @ CHR '' '' # s)"
      by (simp add: front_space_printable)
    with Cons show ?case by simp
  qed
  from this [of "[]"] assms(2) show ?thesis by (simp add: Fields_def)
qed

lemma occurrences_simps [simp]:
  "occurrences c [] = 0" "occurrences c (x # s) = (if x = c then 1 else 0) + occurrences c s"
  "occurrences c (s @ t) = occurrences c s + occurrences c t"
  by (simp_all add: occurrences_def)

lemma occurrences_0: "c \<notin> set s \<Longrightarrow> occurrences c s = 0"
  by (auto simp: occurrences_def filter_empty_conv)

lemma block_line_open:
  assumes "wf_block b" and "bl_depth st = 1"
  shows "block_line (hd (block_lines b)) st =
    st\<lparr>bl_name := block_key b, bl_body := hd (block_lines b) @ [CHR 0x0A], bl_depth := 2\<rparr>"
proof -
  obtain kind name body where b: "b = (kind, name, body)" by (cases b)
  let ?text = "kind @ CHR '' '' # name @ '' {''"
  have w: "kind \<in> {''set'', ''chain''}" "plain_word name" using assms(1) by (simp_all add: wf_block_def b)
  have k: "plain_word kind" using w(1) by (auto simp: plain_word_def)
  have trim: "TrimSpace (CHR 0x09 # ?text) = ?text"
  proof -
    have "trim_left (CHR 0x09 # ?text) = trim_left ?text" by (simp add: front_space_def space_width.simps)
    then have "TrimSpace (CHR 0x09 # ?text) = TrimSpace ?text" by (simp only: TrimSpace_def)
    also have "\<dots> = ?text" by (rule TrimSpace_id) (use w(1) in auto)
    finally show ?thesis .
  qed
  have fields: "Fields ?text = [kind, name, ''{'']"
  proof -
    have "Fields ?text = kind # Fields (name @ CHR '' '' # ''{'')" by (rule Fields_Cons [OF plain_wordD(2,1) [OF k]])
    also have "Fields (name @ CHR '' '' # ''{'') = name # Fields ''{''" by (rule Fields_Cons [OF plain_wordD(2,1) [OF w(2)]])
    also have "Fields ''{'' = [''{'']" by (simp add: Fields_def front_space_printable)
    finally show ?thesis .
  qed
  have depth: "occurrences (CHR ''{'') (CHR 0x09 # ?text) = 1" "occurrences (CHR ''}'') (CHR 0x09 # ?text) = 0"
    using plain_wordD(3,4) [OF k] plain_wordD(3,4) [OF w(2)] by (simp_all add: occurrences_0)
  have shape: "hd (block_lines b) = CHR 0x09 # ?text" "block_key b = kind @ '' '' @ name" by (simp_all add: b block_lines_def block_key_def)
  have suf: "suffix ''{'' ?text" by (rule suffixI [of _ "kind @ CHR '' '' # name @ '' ''"]) simp
  have in2: "[kind, name, ''{''] ! 0 \<in> {''set'', ''chain''}" using w(1) by simp
  have opens: "bl_depth st = 1 \<and> HasSuffix ?text ''{'' \<and> length [kind, name, ''{''] = 3 \<and> [kind, name, ''{''] ! 0 \<in> {''set'', ''chain''}"
    using suf in2 assms(2) by simp
  show ?thesis unfolding shape block_line_def Let_def trim fields if_P [OF opens] depth by (simp add: assms(2))
qed

lemma block_line_inside:
  assumes "bl_name st \<noteq> []" and "bl_depth st = n + 2" and "0 \<le> n" and "balanced n ls"
  shows "fold block_line ls st = st\<lparr>bl_body := bl_body st @ lines_text ls, bl_depth := 2\<rparr>"
  using assms
proof (induction ls arbitrary: st n)
  case (Cons l ls)
  have one: "block_line l st = st\<lparr>bl_body := bl_body st @ l @ [CHR 0x0A], bl_depth := n + depth_of l + 2\<rparr>"
    using Cons.prems by (simp add: block_line_def Let_def depth_of_def)
  show ?case using Cons.IH [of "block_line l st" "n + depth_of l"] Cons.prems by (simp add: one lines_text_def)
qed (simp add: lines_text_def)

lemma block_line_block:
  assumes "wf_block b" and "bl_depth st = 1"
  shows "\<exists>body. fold block_line (block_lines b @ [[]]) st =
    st\<lparr>bl_blocks := (bl_blocks st)(block_key b \<mapsto> lines_text (block_lines b)), bl_name := [], bl_body := body\<rparr>"
proof -
  have ne: "block_key b \<noteq> []" by (simp add: block_key_def)
  let ?st = "block_line (hd (block_lines b)) st"
  note opened = block_line_open [OF assms]
  have inside: "fold block_line (snd (snd b)) ?st = ?st\<lparr>bl_body := bl_body ?st @ lines_text (snd (snd b)), bl_depth := 2\<rparr>"
    by (rule block_line_inside [of _ 0]) (use assms ne in \<open>simp_all add: opened wf_block_def\<close>)
  define st2 where "st2 = fold block_line (snd (snd b)) ?st"
  have st2: "bl_name st2 = block_key b" "bl_depth st2 = 2" "bl_blocks st2 = bl_blocks st"
      "bl_body st2 = hd (block_lines b) @ CHR 0x0A # lines_text (snd (snd b))"
    unfolding st2_def opened inside [unfolded opened] by simp_all
  have restore: "st2\<lparr>bl_blocks := bs, bl_name := [], bl_body := x, bl_depth := 1\<rparr> = st\<lparr>bl_blocks := bs, bl_name := [], bl_body := x\<rparr>" for x bs
    unfolding st2_def opened inside [unfolded opened] by (rule block_state.equality) (simp_all add: assms(2))
  have close: "block_line (CHR 0x09 # ''}'') s =
      s\<lparr>bl_blocks := (bl_blocks s)(bl_name s \<mapsto> bl_body s @ CHR 0x09 # ''}'' @ [CHR 0x0A]), bl_name := [],
        bl_body := bl_body s @ CHR 0x09 # ''}'' @ [CHR 0x0A], bl_depth := 1\<rparr>"
    if "bl_name s \<noteq> []" "bl_depth s = 2" for s using that by (simp add: block_line_def Let_def)
  have blank: "block_line [] s = s" if "bl_name s = []" for s
  proof -
    have "\<not> suffix ''{'' (TrimSpace [])" by simp
    then show ?thesis using that by (simp add: block_line_def Let_def)
  qed
  have lines: "block_lines b @ [[]] = hd (block_lines b) # snd (snd b) @ [CHR 0x09 # ''}'', []]" by (simp add: block_lines_def)
  have shape: "lines_text (block_lines b) = hd (block_lines b) @ CHR 0x0A # lines_text (snd (snd b)) @ CHR 0x09 # ''}'' @ [CHR 0x0A]"
    by (simp add: lines_text_def block_lines_def)
  have "fold block_line (block_lines b @ [[]]) st = block_line [] (block_line (CHR 0x09 # ''}'') st2)"
    unfolding lines st2_def by simp
  also have "\<dots> = block_line (CHR 0x09 # ''}'') st2" by (rule blank) (simp add: close ne st2(1,2))
  also have "\<dots> = st\<lparr>bl_blocks := (bl_blocks st)(block_key b \<mapsto> lines_text (block_lines b)), bl_name := [],
      bl_body := bl_body st2 @ CHR 0x09 # ''}'' @ [CHR 0x0A]\<rparr>"
    using restore ne by (simp add: close st2 shape)
  finally show ?thesis by (intro exI [of _ "bl_body st2 @ CHR 0x09 # ''}'' @ [CHR 0x0A]"]) simp
qed

lemma block_lines_blocks:
  assumes "list_all wf_block bs" and "bl_depth st = 1" and "bl_name st = []"
  shows "\<exists>body. fold block_line (concat (map (\<lambda>b. block_lines b @ [[]]) bs)) st =
    st\<lparr>bl_blocks := bl_blocks st ++ map_of (rev (map (\<lambda>b. (block_key b, lines_text (block_lines b))) bs)), bl_body := body\<rparr>"
  using assms
proof (induction bs arbitrary: st)
  case (Cons b bs)
  obtain body where one: "fold block_line (block_lines b @ [[]]) st =
      st\<lparr>bl_blocks := (bl_blocks st)(block_key b \<mapsto> lines_text (block_lines b)), bl_name := [], bl_body := body\<rparr>" (is "_ = ?st")
    using block_line_block [of b st] Cons.prems(1,2) by (auto simp del: fold_append)
  have "\<exists>body'. fold block_line (concat (map (\<lambda>b. block_lines b @ [[]]) bs)) ?st =
      ?st\<lparr>bl_blocks := bl_blocks ?st ++ map_of (rev (map (\<lambda>b. (block_key b, lines_text (block_lines b))) bs)), bl_body := body'\<rparr>"
    by (rule Cons.IH) (use Cons.prems in simp_all)
  then obtain body' where rest: "fold block_line (concat (map (\<lambda>b. block_lines b @ [[]]) bs)) ?st =
      ?st\<lparr>bl_blocks := bl_blocks ?st ++ map_of (rev (map (\<lambda>b. (block_key b, lines_text (block_lines b))) bs)), bl_body := body'\<rparr>" ..
  have "fold block_line (concat (map (\<lambda>b. block_lines b @ [[]]) (b # bs))) st =
      fold block_line (concat (map (\<lambda>b. block_lines b @ [[]]) bs)) (fold block_line (block_lines b @ [[]]) st)"
    by simp
  also have "\<dots> = fold block_line (concat (map (\<lambda>b. block_lines b @ [[]]) bs)) ?st" unfolding one ..
  finally have "fold block_line (concat (map (\<lambda>b. block_lines b @ [[]]) (b # bs))) st =
      fold block_line (concat (map (\<lambda>b. block_lines b @ [[]]) bs)) ?st" .
  then show ?case unfolding rest using Cons.prems(3) by (intro exI [of _ body']) (simp add: map_add_def fun_eq_iff split: option.split)
next
  case Nil
  show ?case by (rule exI [of _ "bl_body st"], cases st) simp
qed

lemma nftTableBlocks_listing:
  assumes "wf_listing table bs"
  shows "nftTableBlocks (listing table bs) = map_of (map (\<lambda>b. (block_key b, lines_text (block_lines b))) bs)"
proof -
  let ?ls = "(''table inet '' @ table @ '' {'') # concat (map (\<lambda>b. block_lines b @ [[]]) bs) @ [''}'']"
  let ?st = "\<lparr>bl_blocks = Map.empty, bl_name = [], bl_body = [], bl_depth = 0\<rparr>"
  have w: "plain_word table" "list_all wf_block bs" "distinct (map block_key bs)" using assms by (simp_all add: wf_listing_def)
  have "CHR 0x0A \<notin> set l" if "l \<in> set ?ls" for l
  proof -
    have "CHR 0x0A \<notin> set x" if "b \<in> set bs" "x \<in> set (block_lines b)" for b x
    proof -
      have "wf_block b" using w(2) that(1) by (simp add: list_all_iff)
      then have "CHR 0x0A \<notin> set (fst b)" "CHR 0x0A \<notin> set (fst (snd b))" "\<forall>l \<in> set (snd (snd b)). CHR 0x0A \<notin> set l"
        using plain_word_newline [of "fst (snd b)"] by (auto simp: wf_block_def)
      then show ?thesis using that(2) by (auto simp: block_lines_def block_key_def)
    qed
    then show ?thesis using that plain_word_newline [OF w(1)] by (auto split: if_splits)
  qed
  then have split: "Split (CHR 0x0A) (listing table bs) = ?ls @ [[]]" unfolding listing_def lines_text_def by (intro Split_lines) blast
  have first: "block_line (''table inet '' @ table @ '' {'') ?st = ?st\<lparr>bl_depth := 1\<rparr>"
    using plain_wordD(3,4) [OF w(1)] by (simp add: block_line_def Let_def occurrences_0)
  have "\<exists>body. fold block_line (concat (map (\<lambda>b. block_lines b @ [[]]) bs)) (?st\<lparr>bl_depth := 1\<rparr>) =
      (?st\<lparr>bl_depth := 1\<rparr>)\<lparr>bl_blocks := bl_blocks (?st\<lparr>bl_depth := 1\<rparr>) ++
        map_of (rev (map (\<lambda>b. (block_key b, lines_text (block_lines b))) bs)), bl_body := body\<rparr>"
    by (rule block_lines_blocks [OF w(2)]) simp_all
  then obtain body where blocks: "fold block_line (concat (map (\<lambda>b. block_lines b @ [[]]) bs)) (?st\<lparr>bl_depth := 1\<rparr>) =
      (?st\<lparr>bl_depth := 1\<rparr>)\<lparr>bl_blocks := bl_blocks (?st\<lparr>bl_depth := 1\<rparr>) ++
        map_of (rev (map (\<lambda>b. (block_key b, lines_text (block_lines b))) bs)), bl_body := body\<rparr>" ..
  have end1: "bl_blocks (block_line l s) = bl_blocks s \<and> bl_name (block_line l s) = []"
    if "bl_name s = []" "l = [] \<or> l = ''}''" for s l
  proof -
    have "TrimSpace l = l" using that(2) TrimSpace_id [of "''}''"] by auto
    then have "\<not> suffix ''{'' (TrimSpace l)" using that(2) by (auto simp: suffix_def)
    then show ?thesis using that(1) by (simp add: block_line_def Let_def)
  qed
  have last: "bl_blocks (block_line [] (block_line ''}'' s)) = bl_blocks s" if "bl_name s = []" for s
    using end1 that by simp
  have "nftTableBlocks (listing table bs) = map_of (rev (map (\<lambda>b. (block_key b, lines_text (block_lines b))) bs))"
  proof -
    have "nftTableBlocks (listing table bs) = bl_blocks (block_line [] (block_line ''}''
        (fold block_line (concat (map (\<lambda>b. block_lines b @ [[]]) bs)) (block_line (''table inet '' @ table @ '' {'') ?st))))"
      unfolding nftTableBlocks_def split by simp
    also have "\<dots> = map_of (rev (map (\<lambda>b. (block_key b, lines_text (block_lines b))) bs))"
      unfolding first blocks by (simp add: last)
    finally show ?thesis .
  qed
  moreover have "map_of (rev ps) = map_of ps" if "distinct (map fst ps)" for ps :: "(string \<times> string) list"
    using that by (intro map_of_eqI) (auto intro!: map_of_is_SomeI simp: rev_map [symmetric])
  moreover have "distinct (map fst (map (\<lambda>b. (block_key b, lines_text (block_lines b))) bs))" using w(3) by (simp add: comp_def)
  ultimately show ?thesis by simp
qed

text \<open>The elements of a set as they are listed: several to a row, with commas between them.\<close>

fun element_rows :: "string \<Rightarrow> string list list \<Rightarrow> string list" where
  "element_rows start [] = []"
| "element_rows start [row] = [start @ join_with '', '' row @ '' }'']"
| "element_rows start (row # rows) = (start @ join_with '', '' row @ '','') # element_rows (CHR 0x09 # CHR 0x09 # CHR 0x09 # ''     '') rows"

definition set_block :: "string \<Rightarrow> string list list \<Rightarrow> nft_block" where
  "set_block name rows =
     (''set'', name, [(CHR 0x09 # CHR 0x09 # ''type ipv4_addr''), (CHR 0x09 # CHR 0x09 # ''flags interval''), (CHR 0x09 # CHR 0x09 # ''auto-merge'')] @ element_rows (CHR 0x09 # CHR 0x09 # ''elements = { '') rows)"

definition set_element :: "string \<Rightarrow> bool" where
  "set_element e \<longleftrightarrow> CHR '','' \<notin> set e \<and> nftEntry e"

definition good_fields :: "nat \<Rightarrow> string list \<Rightarrow> bool" where
  "good_fields n fs \<longleftrightarrow> fs \<noteq> [] \<and> length fs = n \<and> (\<forall>f \<in> set fs. set_element f)"

lemma Join_two: "fs \<noteq> [] \<Longrightarrow> gs \<noteq> [] \<Longrightarrow> Join d (fs @ gs) = Join d fs @ d # Join d gs"
  by (induction d fs rule: Join.induct) (auto simp: neq_Nil_conv)

lemma element_context:
  "set_element e \<Longrightarrow> CHR '','' \<notin> set p \<Longrightarrow> CHR '','' \<notin> set q \<Longrightarrow> set_element (p @ e @ q)"
  using nftEntry_context by (simp add: set_element_def)

lemma row_fields:
  assumes "\<forall>e \<in> set es. set_element e" and "es \<noteq> []" and "CHR '','' \<notin> set p" and "CHR '','' \<notin> set q"
  shows "\<exists>fs. good_fields (length es) fs \<and> p @ join_with '', '' es @ q = Join (CHR '','') fs"
  using assms
proof (induction "'', ''" es arbitrary: p rule: join_with.induct)
  case (2 e)
  then show ?case by (intro exI [of _ "[p @ e @ q]"]) (simp add: good_fields_def element_context)
next
  case (3 e e2 es)
  from 3(1) [of "'' ''"] 3(2,5) obtain fs where fs: "good_fields (length (e2 # es)) fs"
      "'' '' @ join_with '', '' (e2 # es) @ q = Join (CHR '','') fs" by auto
  have "good_fields (length (e # e2 # es)) ((p @ e @ []) # fs)"
    using fs(1) element_context [of e p "[]"] 3(2,4) by (simp add: good_fields_def)
  moreover have "p @ join_with '', '' (e # e2 # es) @ q = Join (CHR '','') ((p @ e @ []) # fs)"
    using fs Join_two [of "[p @ e]" fs] by (simp add: good_fields_def)
  ultimately show ?case by blast
qed simp

lemma rows_fields:
  assumes "\<forall>row \<in> set rows. row \<noteq> [] \<and> (\<forall>e \<in> set row. set_element e)" and "rows \<noteq> []"
    and "CHR '','' \<notin> set p" and "CHR '','' \<notin> set q" and "CHR '','' \<notin> set start"
  shows "\<exists>fs. good_fields (length (concat rows)) fs \<and> p @ lines_text (element_rows start rows) @ q = Join (CHR '','') fs"
  using assms
proof (induction start rows arbitrary: p rule: element_rows.induct)
  case (2 start row)
  obtain fs where "good_fields (length row) fs" "(p @ start) @ join_with '', '' row @ ('' }'' @ CHR 0x0A # q) = Join (CHR '','') fs"
    using row_fields [of row "p @ start" "'' }'' @ CHR 0x0A # q"] 2 by auto
  then show ?case by (auto simp: lines_text_def)
next
  case (3 start row row2 rows)
  obtain fs where fs: "good_fields (length row) fs" "(p @ start) @ join_with '', '' row @ [] = Join (CHR '','') fs"
    using row_fields [of row "p @ start" "[]"] 3(2-6) by auto
  obtain gs where gs: "good_fields (length (concat (row2 # rows))) gs"
      "[CHR 0x0A] @ lines_text (element_rows (CHR 0x09 # CHR 0x09 # CHR 0x09 # ''     '') (row2 # rows)) @ q = Join (CHR '','') gs"
    using 3(1) [of "[CHR 0x0A]"] 3(2,5) by auto
  have "good_fields (length (concat (row # row2 # rows))) (fs @ gs)" using fs(1) gs(1) by (auto simp: good_fields_def)
  moreover have "p @ lines_text (element_rows start (row # row2 # rows)) @ q = Join (CHR '','') (fs @ gs)"
  proof -
    have "p @ lines_text (element_rows start (row # row2 # rows)) @ q =
        ((p @ start) @ join_with '', '' row @ []) @ CHR '','' # [CHR 0x0A] @ lines_text (element_rows (CHR 0x09 # CHR 0x09 # CHR 0x09 # ''     '') (row2 # rows)) @ q"
      by (simp add: lines_text_def)
    also have "\<dots> = Join (CHR '','') fs @ CHR '','' # Join (CHR '','') gs" unfolding fs(2) gs(2) ..
    also have "\<dots> = Join (CHR '','') (fs @ gs)" using fs(1) gs(1) by (subst Join_two) (auto simp: good_fields_def)
    finally show ?thesis .
  qed
  ultimately show ?case by blast
qed simp

lemma set_block_count:
  assumes "\<forall>row \<in> set rows. row \<noteq> [] \<and> (\<forall>e \<in> set row. set_element e)" and "rows \<noteq> []" and "CHR '','' \<notin> set name"
  shows "countNFTElements (lines_text (block_lines (set_block name rows))) = length (concat rows)"
proof -
  let ?p = "lines_text [CHR 0x09 # ''set '' @ name @ '' {'', (CHR 0x09 # CHR 0x09 # ''type ipv4_addr''), (CHR 0x09 # CHR 0x09 # ''flags interval''), (CHR 0x09 # CHR 0x09 # ''auto-merge'')]"
  let ?q = "lines_text [CHR 0x09 # ''}'']"
  have shape: "lines_text (block_lines (set_block name rows)) = ?p @ lines_text (element_rows (CHR 0x09 # CHR 0x09 # ''elements = { '') rows) @ ?q"
    by (simp add: lines_text_def block_lines_def set_block_def block_key_def)
  obtain fs where "good_fields (length (concat rows)) fs" "?p @ lines_text (element_rows (CHR 0x09 # CHR 0x09 # ''elements = { '') rows) @ ?q = Join (CHR '','') fs"
    using rows_fields [OF assms(1,2), of ?p ?q "(CHR 0x09 # CHR 0x09 # ''elements = { '')"] assms(3) by (auto simp: lines_text_def)
  then show ?thesis unfolding shape using countNFTElements_Join [of fs] by (auto simp: good_fields_def set_element_def)
qed

section \<open>Properties\<close>



end
