(* ===== verification/Panel_Auth.thy ===== *)
theory Panel_Auth
  imports Base64 MMDB
begin

text \<open>
  The authentication of package \<open>internal/panel\<close>: sessions, the delay after failed logins, one-time
  codes, the login handler and the gate in front of all handlers. Times are in nanoseconds. The hash
  functions, the JSON and base-32 readers and \<open>net.SplitHostPort\<close> are the argument \<open>library\<close>; the
  outcome of writes and the requests that hold the two places for password checks are arguments too.
\<close>

unbundle bit_operations_syntax

section \<open>Library functions and records\<close>

record library =
  lib_hmac_sha256 :: "string \<Rightarrow> string \<Rightarrow> string"
  lib_hmac_sha1 :: "string \<Rightarrow> string \<Rightarrow> string"
  lib_scrypt :: "string \<Rightarrow> string \<Rightarrow> int \<Rightarrow> int \<Rightarrow> int \<Rightarrow> nat \<Rightarrow> string option"
  lib_base32 :: "string \<Rightarrow> string option"
  lib_exp :: "string \<Rightarrow> int option"
  lib_SplitHostPort :: "string \<Rightarrow> (string \<times> string) option"

text \<open>\<open>lib_exp\<close> reads the member \<open>exp\<close> of a JSON text into a 64-bit integer: 0 for a missing member, none for an error.\<close>

record authRecord =
  ar_Salt :: string
  ar_Hash :: string
  ar_N :: int
  ar_R :: int
  ar_P :: int
  ar_SessionKey :: string
  ar_Username :: string
  ar_CreatedAt :: int
  ar_PasswordDisabled :: bool
  ar_TOTP :: "(string \<times> any) list"
  ar_OAuth :: "(string \<times> any) list"

definition nano :: int where "nano = 1000000000"

definition unix :: "int \<Rightarrow> int" where "unix t = t div nano"

section \<open>Sessions\<close>

definition sessionTTL :: int where "sessionTTL = 12 * 3600 * nano"
definition rememberTTL :: int where "rememberTTL = 7 * 24 * 3600 * nano"

definition session_body :: "int \<Rightarrow> string" where
  "session_body e = [CHR ''{'', CHR 0x22] @ ''exp'' @ [CHR 0x22] @ '': '' @ int_digits e @ ''}''"

definition issueSession :: "library \<Rightarrow> authRecord \<Rightarrow> int \<Rightarrow> int \<Rightarrow> string option" where
  "issueSession lib rec ttl now =
     (case std_decode (ar_SessionKey rec) of
        None \<Rightarrow> None
      | Some key \<Rightarrow>
          let body = session_body (unix (now + ttl)) in
          Some (raw_url_encode body @ ''.'' @ raw_url_encode (lib_hmac_sha256 lib key body)))"

definition validSession :: "library \<Rightarrow> (string \<rightharpoonup> int) \<Rightarrow> authRecord \<Rightarrow> string option \<Rightarrow> int \<Rightarrow> bool" where
  "validSession lib revoked rec cookie now =
     (case cookie of
        None \<Rightarrow> False
      | Some v \<Rightarrow>
          if revoked v \<noteq> None then False
          else case Split (CHR ''.'') v of
            [p, s] \<Rightarrow>
              (case raw_url_decode p of
                 None \<Rightarrow> False
               | Some body \<Rightarrow>
                   case std_decode (ar_SessionKey rec) of
                     None \<Rightarrow> False
                   | Some key \<Rightarrow>
                       if raw_url_encode (lib_hmac_sha256 lib key body) \<noteq> s then False
                       else case lib_exp lib body of None \<Rightarrow> False | Some e \<Rightarrow> e > unix now)
          | _ \<Rightarrow> False)"

definition sessionExpiry :: "library \<Rightarrow> string option \<Rightarrow> int" where
  "sessionExpiry lib cookie =
     (case cookie of
        None \<Rightarrow> 0
      | Some v \<Rightarrow>
          let p = (case Cut (CHR ''.'') v of None \<Rightarrow> v | Some (p, _) \<Rightarrow> p) in
          case raw_url_decode p of
            None \<Rightarrow> 0
          | Some body \<Rightarrow> (case lib_exp lib body of None \<Rightarrow> 0 | Some e \<Rightarrow> e))"

definition renewalTTL :: "library \<Rightarrow> string option \<Rightarrow> int \<Rightarrow> int" where
  "renewalTTL lib cookie now =
     (if sessionExpiry lib cookie > unix (now + (sessionTTL + 60 * nano)) then rememberTTL else sessionTTL)"

text \<open>\<open>logout\<close>: expired entries are dropped, then the value of the cookie is entered with the time until which it is kept.\<close>

definition drop_expired :: "int \<Rightarrow> (string \<rightharpoonup> int) \<Rightarrow> (string \<rightharpoonup> int)" where
  "drop_expired now revoked =
     (\<lambda>k. case revoked k of None \<Rightarrow> None | Some t \<Rightarrow> if t < now then None else Some t)"

definition panel_logout :: "library \<Rightarrow> string option \<Rightarrow> int \<Rightarrow> (string \<rightharpoonup> int) \<Rightarrow> (string \<rightharpoonup> int)" where
  "panel_logout lib cookie now revoked =
     (case cookie of
        None \<Rightarrow> revoked
      | Some v \<Rightarrow>
          if v = [] then revoked
          else
            let e = sessionExpiry lib cookie;
                until = (if e > 0 then e * nano + 3600 * nano else now + (sessionTTL + 3600 * nano))
            in (drop_expired now revoked)(v \<mapsto> until))"

section \<open>The delay after failed logins\<close>

type_synonym limiter = "(string \<times> nat \<times> int) list"

definition failures :: "limiter \<Rightarrow> string \<Rightarrow> nat \<times> int" where
  "failures m ip = (case map_of m ip of None \<Rightarrow> (0, 0) | Some f \<Rightarrow> f)"

fun wait_loop :: "nat \<Rightarrow> int \<Rightarrow> int" where
  "wait_loop 0 wait = wait"
| "wait_loop (Suc n) wait = (if 3600 * nano \<le> wait * 2 then 3600 * nano else wait_loop n (wait * 2))"

definition authWait :: "limiter \<Rightarrow> string \<Rightarrow> int \<Rightarrow> int" where
  "authWait m ip now =
     (let (count, last) = failures m ip in
      if count < 5 then 0
      else
        let left = last + wait_loop (count - 5) (30 * nano) - now in
        if left < 0 then 0 else left div nano)"

definition authFailure :: "limiter \<Rightarrow> string \<Rightarrow> int \<Rightarrow> limiter" where
  "authFailure m ip now =
     (let m = AList.update ip (fst (failures m ip) + 1, now) m in
      if 4096 < length m then filter (\<lambda>(_, _, last). \<not> last < now - 3600 * nano) m else m)"

definition authSuccess :: "limiter \<Rightarrow> string \<Rightarrow> limiter" where
  "authSuccess m ip = AList.delete ip m"

definition or_default :: "int \<Rightarrow> int \<Rightarrow> int" where
  "or_default x d = (if x = 0 then d else x)"

definition verifyPassword :: "library \<Rightarrow> string \<Rightarrow> authRecord \<Rightarrow> bool" where
  "verifyPassword lib password rec =
     (case (std_decode (ar_Salt rec), std_decode (ar_Hash rec)) of
        (Some salt, Some expected) \<Rightarrow>
          if length expected \<noteq> 32 \<or> salt = [] then False
          else
            let n = or_default (ar_N rec) 32768; r = or_default (ar_R rec) 8; p = or_default (ar_P rec) 1 in
            if n < 2 \<or> 2 ^ 20 < n \<or> r < 1 \<or> 32 < r \<or> p < 1 \<or> 16 < p \<or> 128 * 2 ^ 20 < n * r * 128 then False
            else lib_scrypt lib password salt n r p (length expected) = Some expected
      | _ \<Rightarrow> False)"

definition scryptSlots :: nat where "scryptSlots = 2"

text \<open>\<open>held\<close> is the number of places for password checks that other requests hold. A result without
  a check carries the seconds to wait.\<close>

definition verifyGuarded ::
  "library \<Rightarrow> nat \<Rightarrow> string \<Rightarrow> string \<Rightarrow> authRecord \<Rightarrow> int \<Rightarrow> limiter \<Rightarrow> (bool \<times> int) \<times> limiter" where
  "verifyGuarded lib held ip password rec now m =
     (let wait = authWait m ip now in
      if 0 < wait then ((False, wait), m)
      else if scryptSlots \<le> held then ((False, 1), m)
      else ((verifyPassword lib password rec, 0), authFailure m ip now))"

section \<open>One-time codes\<close>

definition six_digits :: "nat \<Rightarrow> string" where
  "six_digits n = replicate (6 - length (dec_digits n)) (CHR ''0'') @ dec_digits n"

definition truncated :: "string \<Rightarrow> nat" where
  "truncated digest =
     (let off = unat (byte_of_char (last digest) AND 15) in
      unat (from_octets (map byte_of_char (take 4 (drop off digest))) AND (0x7fffffff :: u32)))"

definition hotp :: "library \<Rightarrow> string \<Rightarrow> int \<Rightarrow> string option" where
  "hotp lib secret counter =
     (case lib_base32 lib (TrimRight (CHR ''='') (ToUpper secret)) of
        None \<Rightarrow> None
      | Some key \<Rightarrow>
          let digest = lib_hmac_sha1 lib key (map char_of_byte (octets 8 (word_of_int counter :: u64)))
          in Some (six_digits (truncated digest mod 1000000)))"

text \<open>The steps used so far: the last one in memory and the text of the file that outlives a restart.\<close>

record totp_state =
  ts_last :: int
  ts_file :: "string option"

definition totp_floor :: "totp_state \<Rightarrow> int" where
  "totp_floor st =
     (case ts_file st of
        None \<Rightarrow> ts_last st
      | Some content \<Rightarrow>
          case Atoi (TrimSpace content) of
            None \<Rightarrow> ts_last st
          | Some floor \<Rightarrow> if ts_last st < floor then floor else ts_last st)"

fun totp_loop :: "library \<Rightarrow> string \<Rightarrow> string \<Rightarrow> bool \<Rightarrow> int \<Rightarrow> int list \<Rightarrow> totp_state \<Rightarrow> bool \<times> totp_state" where
  "totp_loop lib otp secret written now [] st = (False, st)"
| "totp_loop lib otp secret written now (drift # drifts) st =
     (if hotp lib secret (now + drift) = Some otp then
        let last = totp_floor st; st = st\<lparr>ts_last := last\<rparr> in
        if now + drift \<le> last then (False, st)
        else (True, \<lparr>ts_last = now + drift, ts_file = (if written then Some (int_digits (now + drift)) else ts_file st)\<rparr>)
      else totp_loop lib otp secret written now drifts st)"

text \<open>\<open>written\<close>: the file of the last step can be replaced. Every caller consumes the code.\<close>

definition checkTOTPCode :: "library \<Rightarrow> string \<Rightarrow> string \<Rightarrow> bool \<Rightarrow> int \<Rightarrow> totp_state \<Rightarrow> bool \<times> totp_state" where
  "checkTOTPCode lib otp secret written now st =
     (let otp = TrimSpace (filter (\<lambda>c. c \<noteq> CHR '' '') otp) in
      if length otp \<noteq> 6 then (False, st)
      else totp_loop lib otp secret written (unix now div 30) [-1, 0, 1] st)"

section \<open>Login\<close>

record panel_state =
  ps_limit :: limiter
  ps_revoked :: "string \<rightharpoonup> int"
  ps_totp :: totp_state

record login_form =
  lf_username :: string
  lf_password :: string
  lf_code :: string
  lf_remember :: bool

datatype login_result =
  NoPasswordSet | PasswordOff | BadForm | Throttled int | LoginRejected | SessionFailed | LoggedIn string int

definition boolValue :: "any \<Rightarrow> bool" where
  "boolValue v = (case v of ABool b \<Rightarrow> b | _ \<Rightarrow> False)"

definition login ::
  "library \<Rightarrow> nat \<Rightarrow> bool \<Rightarrow> authRecord option \<Rightarrow> string \<Rightarrow> login_form option \<Rightarrow> int \<Rightarrow> panel_state \<Rightarrow>
   login_result \<times> panel_state" where
  "login lib held written auth ip form now st =
     (case auth of
        None \<Rightarrow> (NoPasswordSet, st)
      | Some rec \<Rightarrow>
          if ar_PasswordDisabled rec then (PasswordOff, st)
          else case form of
            None \<Rightarrow> (BadForm, st)
          | Some p \<Rightarrow>
              let ((passwordOK, wait), m) = verifyGuarded lib held ip (lf_password p) rec now (ps_limit st);
                  st = st\<lparr>ps_limit := m\<rparr> in
              if 0 < wait then (Throttled wait, st)
              else
                let userOK = (ar_Username rec = [] \<or> ToLower (TrimSpace (lf_username p)) = ar_Username rec);
                    secret = (case any_at (ar_TOTP rec) ''secret'' of AString s \<Rightarrow> s | _ \<Rightarrow> []);
                    (totpOK, t) =
                      (if boolValue (any_at (ar_TOTP rec) ''enabled'')
                       then checkTOTPCode lib (lf_code p) secret written now (ps_totp st) else (True, ps_totp st));
                    st = st\<lparr>ps_totp := t\<rparr>
                in if \<not> userOK \<or> \<not> passwordOK \<or> \<not> totpOK then (LoginRejected, st)
                   else
                     let st = st\<lparr>ps_limit := authSuccess (ps_limit st) ip\<rparr>;
                         ttl = (if lf_remember p then rememberTTL else sessionTTL)
                     in case issueSession lib rec ttl now of
                          None \<Rightarrow> (SessionFailed, st)
                        | Some token \<Rightarrow> (LoggedIn token ttl, st))"

section \<open>The gate\<close>

record http_request =
  hq_Path :: string
  hq_RemoteAddr :: string
  hq_Host :: string
  hq_Cookie :: "string option"

definition isLocal :: "library \<Rightarrow> http_request \<Rightarrow> bool" where
  "isLocal lib r =
     (let host = (case lib_SplitHostPort lib (hq_RemoteAddr r) of Some (h, _) \<Rightarrow> h | None \<Rightarrow> hq_RemoteAddr r)
      in host = ''127.0.0.1'' \<or> host = ''::1'' \<or> host = ''localhost'')"

definition trim_brackets :: "string \<Rightarrow> string" where
  "trim_brackets s =
     rev (dropWhile (\<lambda>c. c = CHR ''['' \<or> c = CHR '']'') (rev (dropWhile (\<lambda>c. c = CHR ''['' \<or> c = CHR '']'') s)))"

definition loopbackHost :: "library \<Rightarrow> string \<Rightarrow> bool" where
  "loopbackHost lib hostport =
     (let host = trim_brackets (case lib_SplitHostPort lib hostport of Some (h, _) \<Rightarrow> h | None \<Rightarrow> hostport)
      in host = ''localhost'' \<or> host = ''127.0.0.1'' \<or> host = ''::1'')"

definition public_path :: "string \<Rightarrow> bool" where
  "public_path path \<longleftrightarrow>
     path \<in> {''/api/health'', ''/api/bootstrap'', ''/api/login'', ''/login''} \<or>
     HasPrefix path ''/assets/'' \<or> HasPrefix path ''/api/oauth/github/''"

datatype gate_result = Forwarded | Forbidden | Unauthorized | LoginPage

definition authMiddleware :: "library \<Rightarrow> (string \<rightharpoonup> int) \<Rightarrow> authRecord option \<Rightarrow> http_request \<Rightarrow> int \<Rightarrow> gate_result" where
  "authMiddleware lib revoked auth r now =
     (case auth of
        None \<Rightarrow> if \<not> isLocal lib r \<or> \<not> loopbackHost lib (hq_Host r) then Forbidden else Forwarded
      | Some rec \<Rightarrow>
          if public_path (hq_Path r) then Forwarded
          else if validSession lib revoked rec (hq_Cookie r) now then Forwarded
          else if HasPrefix (hq_Path r) ''/api/'' then Unauthorized else LoginPage)"

end
