(* ===== verification/Panel_Auth_Facts.thy ===== *)
theory Panel_Auth_Facts
  imports Panel_Auth IPDB_Facts
begin

text \<open>
  What the panel's authentication guarantees: how long a session lasts, what leaving it revokes, how
  the delay after failures holds, and that a one-time code is accepted once.
\<close>

section \<open>Sessions\<close>

lemma session_body_plain: "CHR ''.'' \<notin> set (raw_url_encode s)"
  by (rule raw_url_plain)

lemma Split_token:
  "CHR ''.'' \<notin> set a \<Longrightarrow> CHR ''.'' \<notin> set b \<Longrightarrow> Split (CHR ''.'') (a @ ''.'' @ b) = [a, b]"
  by (simp add: Split_free_append Split_free)

lemma validSession_Split:
  assumes "Split (CHR ''.'') v = [p, s]"
  shows "validSession lib revoked rec (Some v) now \<longleftrightarrow>
    revoked v = None \<and> (\<exists>body key e. raw_url_decode p = Some body \<and> std_decode (ar_SessionKey rec) = Some key \<and>
      raw_url_encode (lib_hmac_sha256 lib key body) = s \<and> lib_exp lib body = Some e \<and> unix now < e)"
  using assms by (auto simp: validSession_def split: option.splits)

text \<open>A session that was issued is accepted until the second its time is over, and only while its cookie
  has not been revoked. (The JSON reader finds the number that was printed.)\<close>

theorem session_lifetime:
  assumes "issueSession lib rec ttl now0 = Some token"
    and "lib_exp lib (session_body (unix (now0 + ttl))) = Some (unix (now0 + ttl))"
  shows "validSession lib revoked rec (Some token) now \<longleftrightarrow> revoked token = None \<and> unix now < unix (now0 + ttl)"
proof -
  let ?body = "session_body (unix (now0 + ttl))"
  obtain key where key: "std_decode (ar_SessionKey rec) = Some key"
    and token: "token = raw_url_encode ?body @ ''.'' @ raw_url_encode (lib_hmac_sha256 lib key ?body)"
    using assms(1) by (auto simp: issueSession_def Let_def split: option.splits)
  have "Split (CHR ''.'') token = [raw_url_encode ?body, raw_url_encode (lib_hmac_sha256 lib key ?body)]"
    unfolding token by (rule Split_token) (rule session_body_plain)+
  from validSession_Split [OF this, of lib revoked rec now] show ?thesis
    using assms(2) key by (simp add: raw_url_roundtrip)
qed

lemma valid_before_expiry:
  assumes "validSession lib revoked rec (Some v) now"
  shows "unix now < sessionExpiry lib (Some v)" and "revoked v = None"
proof -
  obtain p s where ps: "Split (CHR ''.'') v = [p, s]"
    using assms by (auto simp: validSession_def split: if_splits list.splits)
  obtain body e where e: "raw_url_decode p = Some body" "lib_exp lib body = Some e" "unix now < e" "revoked v = None"
    using assms unfolding validSession_Split [OF ps] by blast
  obtain rest where "Cut (CHR ''.'') v = Some (p, rest)"
    using ps by (subst (asm) Split_Cut) (auto split: option.splits)
  then show "unix now < sessionExpiry lib (Some v)" and "revoked v = None"
    using e by (simp_all add: sessionExpiry_def)
qed

lemma unix_less: "unix now < e \<Longrightarrow> now < e * nano"
  by (simp add: unix_def nano_def)

lemma logout_keeps:
  assumes "t \<le> now" and "unix now < sessionExpiry lib (Some v)" and "0 \<le> now"
    and "\<exists>u. revoked v = Some u \<and> now \<le> u"
  shows "\<exists>u. panel_logout lib c t revoked v = Some u \<and> now \<le> u"
proof -
  obtain u where u: "revoked v = Some u" "now \<le> u" using assms(4) by blast
  have "0 \<le> unix now" using assms(3) by (simp add: unix_def nano_def)
  then have pos: "0 < sessionExpiry lib (Some v)" using assms(2) by simp
  have "now \<le> sessionExpiry lib (Some v) * nano + 3600 * nano"
    using unix_less [OF assms(2)] by (simp add: nano_def)
  then show ?thesis
    using u pos assms(1) by (auto simp: panel_logout_def drop_expired_def Let_def split: option.split)
qed

lemma logout_enters:
  assumes "v \<noteq> []" and "unix now < sessionExpiry lib (Some v)" and "0 \<le> now"
  shows "\<exists>u. panel_logout lib (Some v) t revoked v = Some u \<and> now \<le> u"
proof -
  have "0 \<le> unix now" using assms(3) by (simp add: unix_def nano_def)
  then have "0 < sessionExpiry lib (Some v)" using assms(2) by simp
  moreover have "now \<le> sessionExpiry lib (Some v) * nano + 3600 * nano"
    using unix_less [OF assms(2)] by (simp add: nano_def)
  ultimately show ?thesis using assms(1) by (simp add: panel_logout_def Let_def)
qed


lemma length_dec_digits: "10 ^ k \<le> n \<Longrightarrow> n < 10 ^ Suc k \<Longrightarrow> length (dec_digits n) = Suc k"
proof (induction k arbitrary: n)
  case (Suc k)
  have "10 ^ k \<le> n div 10" "n div 10 < 10 ^ Suc k" "\<not> n < 10"
    using Suc.prems by (simp_all add: less_eq_div_iff_mult_less_eq div_less_iff_less_mult mult.commute)
      (use le_trans [of 10 "10 * 10 ^ k" n] in simp)
  from Suc.IH [OF this(1,2)] this(3) show ?case by (subst dec_digits.simps) simp
qed (subst dec_digits.simps, simp)

text \<open>The logout revokes the text of the cookie, not the session: the last digit of the encoded body has
  bits that stand for nothing, and with another value there the cookie still carries the session and is
  accepted. (The time has ten digits until the year 2286.)\<close>

theorem logout_leaves_session:
  assumes "issueSession lib rec ttl now0 = Some token"
    and "lib_exp lib (session_body (unix (now0 + ttl))) = Some (unix (now0 + ttl))"
    and "10 ^ 9 \<le> unix (now0 + ttl)" and "unix (now0 + ttl) < 10 ^ 10" and "unix now < unix (now0 + ttl)"
  shows "\<exists>other. other \<noteq> token \<and>
    validSession lib (panel_logout lib (Some token) t Map.empty) rec (Some other) now"
proof -
  let ?e = "unix (now0 + ttl)"
  let ?body = "session_body ?e"
  obtain key where key: "std_decode (ar_SessionKey rec) = Some key"
    and token: "token = raw_url_encode ?body @ ''.'' @ raw_url_encode (lib_hmac_sha256 lib key ?body)"
    using assms(1) by (auto simp: issueSession_def Let_def split: option.splits)
  have "length (dec_digits (nat ?e)) = 10"
    using length_dec_digits [of 9 "nat ?e"] assms(3,4) by simp
  then have "length ?body mod 3 = 1" using assms(3) by (simp add: session_body_def int_digits_def)
  then obtain p where p: "p \<noteq> raw_url_encode ?body" "raw_url_decode p = Some ?body" "CHR ''.'' \<notin> set p" "p \<noteq> []"
    by (rule raw_url_other_form)
  let ?other = "p @ ''.'' @ raw_url_encode (lib_hmac_sha256 lib key ?body)"
  have ne: "?other \<noteq> token" unfolding token using p(1) by simp
  have "Split (CHR ''.'') ?other = [p, raw_url_encode (lib_hmac_sha256 lib key ?body)]"
    by (rule Split_token) (use p(3) session_body_plain in auto)
  from validSession_Split [OF this, of lib "panel_logout lib (Some token) t Map.empty" rec now]
  have "validSession lib (panel_logout lib (Some token) t Map.empty) rec (Some ?other) now"
    using assms(2,5) key p(2) ne by (auto simp: panel_logout_def drop_expired_def Let_def)
  with ne show ?thesis by blast
qed

section \<open>A sample of the library\<close>

text \<open>A hash that forgets the key, a clock at ten digits: enough to exercise the session theorems.\<close>

definition sample_lib :: library where
  "sample_lib =
     \<lparr>lib_hmac_sha256 = (\<lambda>key msg. ''tag''), lib_hmac_sha1 = (\<lambda>key msg. replicate 20 (CHR 0x00)),
      lib_scrypt = (\<lambda>pw salt n r p len. None), lib_base32 = Some, lib_exp = (\<lambda>body. Some 1700000000),
      lib_SplitHostPort = (\<lambda>s. None)\<rparr>"

definition sample_auth :: authRecord where
  "sample_auth =
     \<lparr>ar_Salt = [], ar_Hash = ''x'', ar_N = 0, ar_R = 0, ar_P = 0, ar_SessionKey = [], ar_Username = [],
      ar_CreatedAt = 0, ar_PasswordDisabled = False, ar_TOTP = [], ar_OAuth = []\<rparr>"

definition sample_token :: string where
  "sample_token = raw_url_encode (session_body 1700000000) @ ''.'' @ raw_url_encode ''tag''"

lemma sample_issued: "issueSession sample_lib sample_auth (1700000000 * nano - 5) 5 = Some sample_token"
  by (simp add: issueSession_def sample_lib_def sample_auth_def sample_token_def std_decode_def no_breaks_def
      decode_digits_def TrimSuffix_def unix_def nano_def)

theorem session_lifetime_witness:
  "validSession sample_lib Map.empty sample_auth (Some sample_token) (1600000000 * nano)"
  using session_lifetime [OF sample_issued, of Map.empty "1600000000 * nano"]
  by (simp add: sample_lib_def unix_def nano_def)


theorem logout_leaves_session_witness:
  "\<exists>other. other \<noteq> sample_token \<and>
     validSession sample_lib (panel_logout sample_lib (Some sample_token) 9 Map.empty) sample_auth (Some other) 9"
  by (rule logout_leaves_session [OF sample_issued]) (simp_all add: sample_lib_def unix_def nano_def)

section \<open>The delay after failures\<close>

lemma wait_loop_eq: "0 \<le> w \<Longrightarrow> w \<le> 3600 * nano \<Longrightarrow> wait_loop n w = min (3600 * nano) (w * 2 ^ n)"
proof (induction n arbitrary: w)
  case (Suc n)
  show ?case
  proof (cases "3600 * nano \<le> w * 2")
    case True
    have "w * 2 * 1 \<le> w * 2 * 2 ^ n" using Suc.prems(1) by (intro mult_left_mono) simp_all
    with True show ?thesis by (simp add: mult.assoc)
  next
    case False
    with Suc.IH [of "w * 2"] Suc.prems show ?thesis by (simp add: mult.assoc)
  qed
qed (simp add: min_def)

definition lock_time :: "nat \<Rightarrow> int" where
  "lock_time fails = min (3600 * nano) (30 * nano * 2 ^ (fails - 5))"

lemma authWait_eq:
  "authWait m ip now =
     (let (fails, since) = failures m ip in
      if fails < 5 \<or> since + lock_time fails < now then 0 else (since + lock_time fails - now) div nano)"
  by (simp add: authWait_def lock_time_def wait_loop_eq nano_def Let_def split: prod.split)

datatype limiter_op = Fail string int | Succeed string

fun run_limiter :: "limiter_op \<Rightarrow> limiter \<Rightarrow> limiter" where
  "run_limiter (Fail ip t) m = authFailure m ip t"
| "run_limiter (Succeed ip) m = authSuccess m ip"

fun op_of_other :: "string \<Rightarrow> int \<Rightarrow> limiter_op \<Rightarrow> bool" where
  "op_of_other ip now (Fail other t) \<longleftrightarrow> other \<noteq> ip \<and> t \<le> now"
| "op_of_other ip now (Succeed other) \<longleftrightarrow> other \<noteq> ip"

lemma map_of_filter_keeps: "map_of m k = Some v \<Longrightarrow> P (k, v) \<Longrightarrow> map_of (filter P m) k = Some v"
  by (induction m) (auto split: if_splits)

lemma run_limiter_keeps:
  assumes "map_of m ip = Some (fails, since)" and "op_of_other ip now op'" and "now - 3600 * nano \<le> since"
  shows "map_of (run_limiter op' m) ip = Some (fails, since)"
proof (cases op')
  case (Fail other t)
  then have "map_of (AList.update other f m) ip = Some (fails, since)" for f
    using assms(1,2) by (auto simp: update_conv')
  then show ?thesis
    using Fail assms(2,3) by (auto simp: authFailure_def Let_def intro!: map_of_filter_keeps)
next
  case (Succeed other)
  then show ?thesis using assms(1,2) by (auto simp: authSuccess_def delete_conv')
qed

text \<open>C23: After five failures an address has to wait: 30 seconds, doubled with each further failure, at most an
  hour. Until the last second of that time no password of it is checked and nothing changes, whatever
  other addresses do meanwhile: the clean-up of the table never ends a wait.\<close>

theorem throttle_holds:
  assumes "failures m ip = (fails, since)" and "5 \<le> fails" and "\<forall>op' \<in> set ops. op_of_other ip now op'"
    and "since \<le> now" and "now + nano \<le> since + lock_time fails"
  shows "\<exists>w > 0. verifyGuarded lib held ip password rec now (fold run_limiter ops m) =
    ((False, w), fold run_limiter ops m)"
proof -
  have lock: "lock_time fails \<le> 3600 * nano" by (simp add: lock_time_def)
  then have old: "now - 3600 * nano \<le> since" using assms(5) by (simp add: nano_def)
  have "map_of m ip = Some (fails, since)" using assms(1,2) by (auto simp: failures_def split: option.splits)
  with assms(3) have "map_of (fold run_limiter ops m) ip = Some (fails, since)"
    by (induction ops arbitrary: m) (auto intro: run_limiter_keeps [OF _ _ old])
  then have "authWait (fold run_limiter ops m) ip now = (since + lock_time fails - now) div nano"
    using assms(2,5) by (simp add: authWait_eq failures_def nano_def)
  moreover have "nano div nano \<le> (since + lock_time fails - now) div nano"
    using assms(5) by (intro zdiv_mono1) (simp_all add: nano_def)
  ultimately have "0 < authWait (fold run_limiter ops m) ip now" by (simp add: nano_def)
  then show ?thesis by (simp add: verifyGuarded_def Let_def)
qed

theorem throttle_holds_witness:
  "\<exists>w > 0. verifyGuarded sample_lib 0 ''a'' ''pw'' sample_auth (9 * nano)
     (fold run_limiter [Fail ''b'' 5, Succeed ''c''] [(''a'', 6, 0)]) =
     ((False, w), fold run_limiter [Fail ''b'' 5, Succeed ''c''] [(''a'', 6, 0)])"
  by (rule throttle_holds [where fails = 6 and since = 0]) (simp_all add: failures_def lock_time_def nano_def)

section \<open>Two requests at a time\<close>

text \<open>
  The requests of one address in one instant. A request first looks at the delay, then takes one of the
  places for password checks, then counts its attempt, checks and frees the place; the steps of
  different requests interleave.
\<close>

datatype guard_stage = Arrived | Admitted | HasPlace | Counted | Answered

record guard_state =
  gs_limit :: limiter
  gs_stages :: "guard_stage list"
  gs_checks :: nat

definition places_held :: "guard_stage list \<Rightarrow> nat" where
  "places_held stages = length (filter (\<lambda>s. s = HasPlace \<or> s = Counted) stages)"

inductive guard_step :: "string \<Rightarrow> int \<Rightarrow> guard_state \<Rightarrow> guard_state \<Rightarrow> bool" for ip now where
  look: "i < length (gs_stages s) \<Longrightarrow> gs_stages s ! i = Arrived \<Longrightarrow>
    guard_step ip now s
      (s\<lparr>gs_stages := (gs_stages s)[i := if 0 < authWait (gs_limit s) ip now then Answered else Admitted]\<rparr>)"
| take_place: "i < length (gs_stages s) \<Longrightarrow> gs_stages s ! i = Admitted \<Longrightarrow>
    guard_step ip now s
      (s\<lparr>gs_stages := (gs_stages s)[i := if scryptSlots \<le> places_held (gs_stages s) then Answered else HasPlace]\<rparr>)"
| note_attempt: "i < length (gs_stages s) \<Longrightarrow> gs_stages s ! i = HasPlace \<Longrightarrow>
    guard_step ip now s
      (s\<lparr>gs_limit := authFailure (gs_limit s) ip now, gs_stages := (gs_stages s)[i := Counted]\<rparr>)"
| check_password: "i < length (gs_stages s) \<Longrightarrow> gs_stages s ! i = Counted \<Longrightarrow>
    guard_step ip now s (s\<lparr>gs_stages := (gs_stages s)[i := Answered], gs_checks := gs_checks s + 1\<rparr>)"

abbreviation guard_reach :: "string \<Rightarrow> int \<Rightarrow> guard_state \<Rightarrow> guard_state \<Rightarrow> bool" where
  "guard_reach ip now \<equiv> (guard_step ip now)\<^sup>*\<^sup>*"

lemma places_held_Cons:
  "places_held (x # xs) = (if x = HasPlace \<or> x = Counted then 1 else 0) + places_held xs"
  by (simp add: places_held_def)

lemma places_held_update:
  assumes "i < length stages"
  shows "places_held (stages[i := s]) + (if stages ! i = HasPlace \<or> stages ! i = Counted then 1 else 0) =
    places_held stages + (if s = HasPlace \<or> s = Counted then 1 else 0)"
  using assms
proof (induction stages arbitrary: i)
  case (Cons x stages)
  show ?case
  proof (cases i)
    case 0
    then show ?thesis by (simp add: places_held_Cons)
  next
    case (Suc j)
    with Cons.IH [of j] Cons.prems show ?thesis by (simp add: places_held_Cons)
  qed
qed simp


definition fresh_guard :: "nat \<Rightarrow> guard_state" where
  "fresh_guard n = \<lparr>gs_limit = [], gs_stages = replicate n Arrived, gs_checks = 0\<rparr>"

lemma guard_all_look:
  "k \<le> n \<Longrightarrow> guard_reach ip now (fresh_guard n)
     \<lparr>gs_limit = [], gs_stages = replicate k Admitted @ replicate (n - k) Arrived, gs_checks = 0\<rparr>"
proof (induction k)
  case (Suc k)
  let ?s = "\<lparr>gs_limit = [], gs_stages = replicate k Admitted @ replicate (n - k) Arrived, gs_checks = 0\<rparr>"
  have rest: "replicate (n - k) Arrived = Arrived # replicate (n - Suc k) Arrived"
    using Suc.prems by (cases "n - k") (auto simp: Suc_diff_le dest: arg_cong [where f = "\<lambda>x. x - 1"])
  have "guard_step ip now ?s
      (?s\<lparr>gs_stages := (gs_stages ?s)[k := if 0 < authWait (gs_limit ?s) ip now then Answered else Admitted]\<rparr>)"
    by (rule guard_step.look) (use Suc.prems rest in \<open>simp_all add: nth_append\<close>)
  moreover have "?s\<lparr>gs_stages := (gs_stages ?s)[k := if 0 < authWait (gs_limit ?s) ip now then Answered else Admitted]\<rparr> =
      \<lparr>gs_limit = [], gs_stages = replicate (Suc k) Admitted @ replicate (n - Suc k) Arrived, gs_checks = 0\<rparr>"
    by (simp add: authWait_def failures_def rest list_update_append replicate_app_Cons_same)
  ultimately show ?case using Suc by (metis Suc_leD rtranclp.rtrancl_into_rtrancl)
qed (simp add: fresh_guard_def)

lemma guard_one_check:
  assumes "i < length stages" and "stages ! i = Admitted" and "places_held stages = 0"
  shows "\<exists>m'. guard_reach ip now \<lparr>gs_limit = m, gs_stages = stages, gs_checks = c\<rparr>
    \<lparr>gs_limit = m', gs_stages = stages[i := Answered], gs_checks = c + 1\<rparr>"
proof -
  let ?s0 = "\<lparr>gs_limit = m, gs_stages = stages, gs_checks = c\<rparr>"
  let ?s1 = "\<lparr>gs_limit = m, gs_stages = stages[i := HasPlace], gs_checks = c\<rparr>"
  let ?s2 = "\<lparr>gs_limit = authFailure m ip now, gs_stages = stages[i := Counted], gs_checks = c\<rparr>"
  let ?s3 = "\<lparr>gs_limit = authFailure m ip now, gs_stages = stages[i := Answered], gs_checks = c + 1\<rparr>"
  have a: "guard_step ip now ?s0 ?s1"
    using guard_step.take_place [of i ?s0 ip now] assms by (simp add: scryptSlots_def)
  have b: "guard_step ip now ?s1 ?s2"
    using guard_step.note_attempt [of i ?s1 ip now] assms(1) by simp
  have c: "guard_step ip now ?s2 ?s3"
    using guard_step.check_password [of i ?s2 ip now] assms(1) by simp
  have "guard_reach ip now ?s2 ?s3" by (rule r_into_rtranclp) (rule c)
  with b have "guard_reach ip now ?s1 ?s3" by (rule converse_rtranclp_into_rtranclp)
  with a have "guard_reach ip now ?s0 ?s3" by (rule converse_rtranclp_into_rtranclp)
  then show ?thesis by blast
qed

text \<open>The delay does not bound the number of checks: requests that have looked at it before any of them has
  been counted are all checked, as many as there are, in one instant.\<close>

theorem guard_delay_race:
  "\<exists>s. guard_reach ip now (fresh_guard n) s \<and> gs_checks s = n"
proof -
  have "\<exists>m. guard_reach ip now (fresh_guard n)
      \<lparr>gs_limit = m, gs_stages = replicate k Answered @ replicate (n - k) Admitted, gs_checks = k\<rparr>" if "k \<le> n" for k
    using that
  proof (induction k)
    case 0
    then show ?case using guard_all_look [of n n ip now] by auto
  next
    case (Suc k)
    then obtain m where m: "guard_reach ip now (fresh_guard n)
        \<lparr>gs_limit = m, gs_stages = replicate k Answered @ replicate (n - k) Admitted, gs_checks = k\<rparr>" by auto
    let ?stages = "replicate k Answered @ replicate (n - k) Admitted"
    have rest: "replicate (n - k) Admitted = Admitted # replicate (n - Suc k) Admitted"
      using Suc.prems by (cases "n - k") (auto simp: Suc_diff_le dest: arg_cong [where f = "\<lambda>x. x - 1"])
    obtain m' where "guard_reach ip now \<lparr>gs_limit = m, gs_stages = ?stages, gs_checks = k\<rparr>
        \<lparr>gs_limit = m', gs_stages = ?stages[k := Answered], gs_checks = k + 1\<rparr>"
      using guard_one_check [of k ?stages ip now m k] Suc.prems by (auto simp: nth_append rest places_held_def)
    moreover have "?stages[k := Answered] = replicate (Suc k) Answered @ replicate (n - Suc k) Admitted"
      by (simp add: rest list_update_append replicate_app_Cons_same)
    ultimately show ?case using m by (auto dest: rtranclp_trans)
  qed
  from this [of n] show ?thesis by force
qed

section \<open>One-time codes\<close>

lemma Atoi_int_digits: "- (2 ^ 63) \<le> k \<Longrightarrow> k < 2 ^ 63 \<Longrightarrow> 0 \<le> k \<Longrightarrow> Atoi (int_digits k) = Some k"
proof -
  assume k: "k < 2 ^ 63" "0 \<le> k"
  obtain c cs where c: "dec_digits (nat k) = c # cs" by (cases "dec_digits (nat k)") auto
  have d: "list_all is_digit (c # cs)" using dec_digits_digits [of "nat k"] c by simp
  then have "c \<noteq> CHR ''-''" "c \<noteq> CHR ''+''" by (auto simp: is_digit_def)
  moreover have "dec_value 0 (c # cs) = nat k" using dec_value_dec_digits [of "nat k"] c by simp
  ultimately show ?thesis
    using k d c unfolding Atoi_def int_digits_def by (simp del: dec_value.simps)
qed

lemma int_digits_trimmed: "0 \<le> k \<Longrightarrow> TrimSpace (int_digits k) = int_digits k"
proof (rule TrimSpace_id)
  assume k: "0 \<le> k"
  then show "int_digits k \<noteq> []" by (simp add: int_digits_def)
  have "list_all is_digit (int_digits k)" using k dec_digits_digits by (simp add: int_digits_def)
  then have "\<forall>c \<in> set (int_digits k). printable c" by (auto simp: list_all_iff is_digit_def)
  then show "printable (hd (int_digits k))" "printable (last (int_digits k))"
    using \<open>int_digits k \<noteq> []\<close> by simp_all
qed

lemma totp_floor_max:
  "totp_floor (st\<lparr>ts_last := l\<rparr>) =
     (case ts_file st of None \<Rightarrow> l
      | Some content \<Rightarrow> (case Atoi (TrimSpace content) of None \<Rightarrow> l | Some f \<Rightarrow> max l f))"
  by (auto simp: totp_floor_def max_def split: option.split)

lemma totp_loop_result:
  "totp_loop lib otp secret written now drifts st = (ok, st') \<Longrightarrow>
     (if ok then \<exists>d \<in> set drifts. hotp lib secret (now + d) = Some otp \<and> ts_last st' = now + d \<and> totp_floor st < now + d \<and>
           ts_file st' = (if written then Some (int_digits (now + d)) else ts_file st)
      else ts_file st' = ts_file st \<and> ts_last st' \<in> {ts_last st, totp_floor st})"
  by (induction lib otp secret written now drifts st rule: totp_loop.induct)
    (auto simp: Let_def not_le split: if_splits)

lemma checkTOTPCode_result:
  assumes "checkTOTPCode lib otp secret written now st = (ok, st')"
  shows "if ok then \<exists>d \<in> {-1, 0, 1}. hotp lib secret (unix now div 30 + d) =
        Some (TrimSpace (filter (\<lambda>c. c \<noteq> CHR '' '') otp)) \<and> ts_last st' = unix now div 30 + d \<and>
        totp_floor st < unix now div 30 + d \<and>
        ts_file st' = (if written then Some (int_digits (unix now div 30 + d)) else ts_file st)
      else ts_file st' = ts_file st \<and> ts_last st' \<in> {ts_last st, totp_floor st}"
proof (cases "length (TrimSpace (filter (\<lambda>c. c \<noteq> CHR '' '') otp)) = 6")
  case True
  with assms have "totp_loop lib (TrimSpace (filter (\<lambda>c. c \<noteq> CHR '' '') otp)) secret written (unix now div 30) [-1, 0, 1] st =
      (ok, st')"
    by (simp add: checkTOTPCode_def Let_def del: totp_loop.simps)
  from totp_loop_result [OF this] show ?thesis by (simp only: list.set)
next
  case False
  with assms show ?thesis by (simp add: checkTOTPCode_def Let_def del: totp_loop.simps)
qed

datatype totp_event = Attempt string string bool int | PanelRestart

text \<open>The time steps whose codes were accepted, in order; a restart keeps the file and forgets the memory.\<close>

fun accepted_steps :: "library \<Rightarrow> totp_event list \<Rightarrow> totp_state \<Rightarrow> int list" where
  "accepted_steps lib [] st = []"
| "accepted_steps lib (PanelRestart # es) st = accepted_steps lib es (st\<lparr>ts_last := 0\<rparr>)"
| "accepted_steps lib (Attempt otp secret written now # es) st =
     (let (ok, st') = checkTOTPCode lib otp secret written now st
      in (if ok then [ts_last st'] else []) @ accepted_steps lib es st')"

fun recorded :: "totp_event \<Rightarrow> bool" where
  "recorded (Attempt _ _ written now) \<longleftrightarrow> written \<and> 0 \<le> now \<and> now < 2 ^ 63"
| "recorded PanelRestart \<longleftrightarrow> True"

definition step_bound :: "int \<Rightarrow> totp_state \<Rightarrow> bool" where
  "step_bound b st \<longleftrightarrow> 0 \<le> ts_last st \<and> (\<forall>l \<ge> 0. b \<le> totp_floor (st\<lparr>ts_last := l\<rparr>))"

lemma step_bound_floor: "step_bound b st \<Longrightarrow> b \<le> totp_floor st"
proof -
  assume "step_bound b st"
  then have "b \<le> totp_floor (st\<lparr>ts_last := ts_last st\<rparr>)" unfolding step_bound_def by blast
  then show ?thesis by simp
qed

lemma totp_floor_last: "ts_last st \<le> totp_floor st"
  by (auto simp: totp_floor_def split: option.split)

lemma step_bound_attempt:
  assumes "step_bound b st" and "checkTOTPCode lib otp secret True now st = (ok, st')" and "0 \<le> b" and "now < 2 ^ 63"
  shows "if ok then b < ts_last st' \<and> step_bound (ts_last st') st' else step_bound b st'"
proof (cases ok)
  case True
  then obtain d where d: "d \<in> {-1, 0, 1}" "ts_last st' = unix now div 30 + d" "totp_floor st < unix now div 30 + d"
    "ts_file st' = Some (int_digits (unix now div 30 + d))"
    using checkTOTPCode_result [OF assms(2)] by auto
  let ?k = "ts_last st'"
  have b: "b < ?k" using step_bound_floor [OF assms(1)] d(2,3) by simp
  have "unix now div 30 \<le> 2 ^ 62" using assms(4) by (simp add: unix_def nano_def)
  then have "Atoi (TrimSpace (int_digits ?k)) = Some ?k"
    using b assms(3) d(1,2) by (subst int_digits_trimmed) (auto intro!: Atoi_int_digits)
  then have "step_bound ?k st'"
    using b assms(3) d(2,4) by (simp add: step_bound_def totp_floor_max)
  with b True show ?thesis by simp
next
  case False
  then have "ts_file st' = ts_file st" "ts_last st' \<in> {ts_last st, totp_floor st}"
    using checkTOTPCode_result [OF assms(2)] by simp_all
  then show ?thesis
    using False assms(1) totp_floor_last [of st] by (auto simp: step_bound_def totp_floor_max)
qed

lemma accepted_steps_above:
  assumes "\<forall>e \<in> set es. recorded e" and "step_bound b st" and "0 \<le> b"
  shows "sorted_wrt (<) (b # accepted_steps lib es st)"
  using assms
proof (induction lib es st arbitrary: b rule: accepted_steps.induct)
  case (2 lib es st)
  then have "step_bound b (st\<lparr>ts_last := 0\<rparr>)" by (simp add: step_bound_def)
  with 2 show ?case by simp
next
  case (3 lib otp secret written now es st)
  obtain ok st' where c: "checkTOTPCode lib otp secret written now st = (ok, st')" by fastforce
  have now: "now < 2 ^ 63" "written" using 3(2) by simp_all
  have "checkTOTPCode lib otp secret True now st = (ok, st')" using c now(2) by simp
  note r = step_bound_attempt [OF 3(3) this 3(4) now(1)]
  show ?case
  proof (cases ok)
    case True
    with r have "b < ts_last st'" "step_bound (ts_last st') st'" by simp_all
    moreover from this have "sorted_wrt (<) (ts_last st' # accepted_steps lib es st')"
      using 3(1) [OF c [symmetric] refl, of "ts_last st'"] 3(2,4) by simp
    ultimately show ?thesis using True c by (auto simp: Let_def)
  next
    case False
    with r have "step_bound b st'" by simp
    then show ?thesis using 3(1) [OF c [symmetric] refl, of b] 3(2,4) False c by simp
  qed
qed simp

text \<open>C25: A one-time code is accepted once: the time steps of the accepted codes strictly increase, also over
  restarts of the panel, as long as the file of the last step could be written.\<close>

theorem totp_codes_used_once:
  assumes "\<forall>e \<in> set events. recorded e" and "0 \<le> ts_last st"
  shows "sorted_wrt (<) (accepted_steps lib events st)"
proof -
  have "step_bound 0 st"
    using assms(2) by (auto simp: step_bound_def totp_floor_max split: option.split)
  from accepted_steps_above [OF assms(1) this] show ?thesis by simp
qed

theorem totp_codes_used_once_witness:
  "sorted_wrt (<) (accepted_steps sample_lib
     [Attempt ''000 000'' ''s'' True (600 * nano), PanelRestart, Attempt ''000000'' ''s'' True (600 * nano)]
     \<lparr>ts_last = 0, ts_file = None\<rparr>)"
  by (rule totp_codes_used_once) (simp_all add: nano_def)


end
