(* ===== verification/Pipeline_Facts.thy ===== *)
theory Pipeline_Facts
  imports Pipeline File_Facts
begin

text \<open>
  The properties of the pipeline: a step runs only on what its prerequisites left behind, the report
  counts every step, and a step that failed or was blocked is due again.
\<close>

section \<open>The order of the steps\<close>

definition ordered_steps :: "string set \<Rightarrow> step list \<Rightarrow> bool" where
  "ordered_steps seen steps \<longleftrightarrow>
     distinct (map stp_Name steps) \<and> set (map stp_Name steps) \<inter> seen = {} \<and> [] \<notin> set (map stp_Name steps) \<and>
     (\<forall>i < length steps. set (stp_Needs (steps ! i)) \<subseteq> seen \<union> stp_Name ` set (take i steps))"

lemma validate_loop_iff: "validate_loop seen steps = None \<longleftrightarrow> ordered_steps seen steps"
proof (induction steps arbitrary: seen)
  case (Cons step steps)
  have split: "(\<forall>i < Suc n. P i) \<longleftrightarrow> P 0 \<and> (\<forall>i < n. P (Suc i))" for P n using less_Suc_eq_0_disj by auto
  have "find (\<lambda>need. need \<notin> seen) (stp_Needs step) = None \<longleftrightarrow> set (stp_Needs step) \<subseteq> seen"
    by (auto simp: find_None_iff)
  with Cons show ?case by (auto simp: ordered_steps_def split split: option.split)
qed (simp add: ordered_steps_def)

text \<open>The entries of a report, against the names that count as done before each step.\<close>

definition entry_ok :: "pipe_options \<Rightarrow> string set \<Rightarrow> step \<Rightarrow> step_result \<Rightarrow> bool" where
  "entry_ok opt fin s r \<longleftrightarrow>
     sx_Name r = stp_Name s \<and>
     (sx_Status r \<in> {StatusRan, StatusFailed} \<longrightarrow> set (stp_Needs s) \<subseteq> fin \<and> selected (pi_Only opt) (stp_Name s)) \<and>
     (selected (pi_Only opt) (stp_Name s) \<and> \<not> set (stp_Needs s) \<subseteq> fin \<longrightarrow> sx_Status r = StatusBlocked)"

fun accounted :: "pipe_options \<Rightarrow> string set \<Rightarrow> step list \<Rightarrow> step_result list \<Rightarrow> bool" where
  "accounted opt fin steps [] \<longleftrightarrow> True"
| "accounted opt fin [] (r # rs) \<longleftrightarrow> False"
| "accounted opt fin (s # ss) (r # rs) \<longleftrightarrow>
     entry_ok opt fin s r \<and> accounted opt (fin_after r (stp_Name s) fin) ss rs"

lemma blockedBy_Nil: "[] \<notin> set (stp_Needs s) \<Longrightarrow> blockedBy s fin = [] \<longleftrightarrow> set (stp_Needs s) \<subseteq> fin"
proof (cases "find (\<lambda>need. need \<notin> fin) (stp_Needs s)")
  case None
  then have "set (stp_Needs s) \<subseteq> fin" by (auto simp: find_None_iff)
  with None show ?thesis by (simp add: blockedBy_def)
next
  case (Some n)
  then have "n \<in> set (stp_Needs s) \<and> n \<notin> fin" by (auto simp: find_Some_iff)
  moreover assume "[] \<notin> set (stp_Needs s)"
  ultimately show ?thesis by (auto simp: blockedBy_def Some)
qed

lemma run_due_status:
  assumes "run_due env sha opt now step result d = (r, d')"
  shows "sx_Name r = sx_Name result" and "sx_Status r \<in> {StatusRan, StatusFailed}"
  using assms by (auto simp: run_due_def Let_def split: prod.splits option.splits)

lemma take_step_accounted:
  assumes "take_step env sha opt now fin step d = (r, d')" and "[] \<notin> set (stp_Needs step)"
  shows "sx_Name r = stp_Name step" and
    "sx_Status r \<in> {StatusRan, StatusFailed} \<Longrightarrow> set (stp_Needs step) \<subseteq> fin \<and> selected (pi_Only opt) (stp_Name step) \<and>
      step_verdict opt now (readStamp env (stamp_path opt (stp_Name step)) d) fin step = StatusRan \<and> \<not> pi_DryRun opt"
    and "selected (pi_Only opt) (stp_Name step) \<Longrightarrow> \<not> set (stp_Needs step) \<subseteq> fin \<Longrightarrow> sx_Status r = StatusBlocked"
proof -
  let ?v = "step_verdict opt now (readStamp env (stamp_path opt (stp_Name step)) d) fin step"
  have ran: "set (stp_Needs step) \<subseteq> fin \<and> selected (pi_Only opt) (stp_Name step)" if "?v = StatusRan"
    using that blockedBy_Nil [OF assms(2)] by (auto simp: step_verdict_def Let_def split: if_splits)
  have r: "(?v \<noteq> StatusRan \<longrightarrow> sx_Status r = ?v) \<and> (?v = StatusRan \<and> pi_DryRun opt \<longrightarrow> sx_Status r = StatusSkipped) \<and>
      sx_Name r = stp_Name step"
    using assms(1) run_due_status(1) by (auto simp: take_step_def Let_def split: if_splits)
  then show "sx_Name r = stp_Name step" by blast
  have v: "?v \<noteq> StatusFailed" by (simp add: step_verdict_def Let_def)
  with ran r show "sx_Status r \<in> {StatusRan, StatusFailed} \<Longrightarrow> set (stp_Needs step) \<subseteq> fin \<and> selected (pi_Only opt) (stp_Name step) \<and>
      ?v = StatusRan \<and> \<not> pi_DryRun opt" by auto
  show "sx_Status r = StatusBlocked" if "selected (pi_Only opt) (stp_Name step)" "\<not> set (stp_Needs step) \<subseteq> fin"
  proof -
    have "?v = StatusBlocked" using that blockedBy_Nil [OF assms(2)] by (simp add: step_verdict_def Let_def)
    with r show ?thesis by simp
  qed
qed

definition counts_ok :: "pipe_report \<Rightarrow> bool" where
  "counts_ok r \<longleftrightarrow> (let n = (\<lambda>s. length (filter (\<lambda>x. sx_Status x = s) (rp_Steps r))) in
     rp_Ran r = n StatusRan \<and> rp_Skipped r = n StatusSkipped \<and> rp_Failed r = n StatusFailed \<and> rp_Blocked r = n StatusBlocked)"

lemma note_result_counts: "counts_ok r \<Longrightarrow> counts_ok (note_result x r)"
  by (cases "sx_Status x") (simp_all add: counts_ok_def note_result_def tally_status_def Let_def)

lemma rp_Steps_note [simp]: "rp_Steps (note_result x r) = rp_Steps r @ [x]"
  by (simp add: note_result_def tally_status_def split: step_status.split)

lemma run_steps_report:
  assumes "run_steps env sha cancelled opt now steps fin report d = ((report', err), d')"
    and "\<forall>s \<in> set steps. [] \<notin> set (stp_Needs s)" and "counts_ok report"
  shows "counts_ok report' \<and> (\<exists>new. rp_Steps report' = rp_Steps report @ new \<and> accounted opt fin steps new \<and>
    (case err of
       None \<Rightarrow> length new = length steps \<and> rp_Failed report' = 0
     | Some (StepsFailed names) \<Rightarrow> length new = length steps \<and>
         names = map sx_Name (filter (\<lambda>r. sx_Status r = StatusFailed) (rp_Steps report'))
     | Some (CriticalFailed name text) \<Rightarrow> new \<noteq> [] \<and> sx_Status (last new) = StatusFailed \<and> sx_Name (last new) = name \<and>
         (\<exists>s \<in> set steps. stp_Name s = name \<and> stp_Critical s)
     | Some Cancelled \<Rightarrow> new \<noteq> [] \<and> cancelled (sx_Name (last new))
     | _ \<Rightarrow> False))"
  using assms
proof (induction steps arbitrary: fin report d)
  case Nil
  then show ?case by (auto simp: report_Err_def Let_def counts_ok_def filter_empty_conv split: option.splits if_splits)
next
  case (Cons step steps)
  obtain r d1 where t: "take_step env sha opt now fin step d = (r, d1)" by fastforce
  have ne: "[] \<notin> set (stp_Needs step)" using Cons.prems(2) by simp
  note acc = take_step_accounted [OF t ne]
  let ?fin = "fin_after r (stp_Name step) fin"
  have c: "counts_ok (note_result r report)" by (rule note_result_counts [OF Cons.prems(3)])
  have "entry_ok opt fin step r" unfolding entry_ok_def using acc by blast
  then have one: "accounted opt fin (step # steps) (r # new)" if "accounted opt ?fin steps new" for new
    using that by simp
  consider (critical) "sx_Status r = StatusFailed" "stp_Critical step" "report' = note_result r report"
      "err = Some (CriticalFailed (stp_Name step) (sx_Err r))"
    | (cancelled) "cancelled (stp_Name step)" "report' = note_result r report" "err = Some Cancelled"
    | (more) "run_steps env sha cancelled opt now steps ?fin (note_result r report) d1 = ((report', err), d')"
    using Cons.prems(1) by (auto simp: t Let_def split: if_splits)
  then show ?case
  proof cases
    case critical
    then show ?thesis using c one [of "[]"] acc(1) by (intro conjI exI [of _ "[r]"]) simp_all
  next
    case cancelled
    then show ?thesis using c one [of "[]"] acc(1) by (intro conjI exI [of _ "[r]"]) simp_all
  next
    case more
    from Cons.IH [OF more _ c] Cons.prems(2) obtain new where new: "counts_ok report'"
        "rp_Steps report' = rp_Steps (note_result r report) @ new" "accounted opt ?fin steps new"
        and err: "case err of
           None \<Rightarrow> length new = length steps \<and> rp_Failed report' = 0
         | Some (StepsFailed names) \<Rightarrow> length new = length steps \<and>
             names = map sx_Name (filter (\<lambda>r. sx_Status r = StatusFailed) (rp_Steps report'))
         | Some (CriticalFailed name text) \<Rightarrow> new \<noteq> [] \<and> sx_Status (last new) = StatusFailed \<and> sx_Name (last new) = name \<and>
             (\<exists>s \<in> set steps. stp_Name s = name \<and> stp_Critical s)
         | Some Cancelled \<Rightarrow> new \<noteq> [] \<and> cancelled (sx_Name (last new))
         | _ \<Rightarrow> False" by auto
    show ?thesis using one [OF new(3)] new(1,2) err
      by (intro conjI exI [of _ "r # new"]) (auto split: option.splits pipe_error.splits)
  qed
qed

lemma less_Suc_image: "{f j |j. j < Suc k \<and> P j} = (if P 0 then {f 0} else {}) \<union> {f (Suc m) |m. m < k \<and> P (Suc m)}"
proof -
  have "j < Suc k \<longleftrightarrow> j = 0 \<or> (\<exists>m. j = Suc m \<and> m < k)" for j by (cases j) auto
  then show ?thesis by auto
qed

lemma accounted_length: "accounted opt fin steps rs \<Longrightarrow> length rs \<le> length steps"
  by (induction opt fin steps rs rule: accounted.induct) simp_all

lemma accounted_nth:
  assumes "accounted opt fin steps rs" and "i < length rs"
  shows "entry_ok opt (fin \<union> {stp_Name (steps ! j) |j. j < i \<and> sx_Status (rs ! j) \<in> {StatusRan, StatusSkipped}})
    (steps ! i) (rs ! i)"
  using assms
proof (induction opt fin steps rs arbitrary: i rule: accounted.induct)
  case (3 opt fin s ss r rs)
  show ?case
  proof (cases i)
    case 0
    then show ?thesis using 3(2) by simp
  next
    case (Suc k)
    have "fin \<union> {stp_Name ((s # ss) ! j) |j. j < Suc k \<and> sx_Status ((r # rs) ! j) \<in> {StatusRan, StatusSkipped}} =
        fin_after r (stp_Name s) fin \<union> {stp_Name (ss ! j) |j. j < k \<and> sx_Status (rs ! j) \<in> {StatusRan, StatusSkipped}}"
      unfolding less_Suc_image [of "\<lambda>j. stp_Name ((s # ss) ! j)" k "\<lambda>j. sx_Status ((r # rs) ! j) \<in> {StatusRan, StatusSkipped}"]
        fin_after_def nth_Cons_0 nth_Cons_Suc by (cases "sx_Status r \<in> {StatusRan, StatusSkipped}") simp_all
    with 3 Suc show ?thesis by simp
  qed
qed simp_all

lemma pipe_Run_cases:
  assumes "pipe_Run env sha cancelled opt now steps d = ((report, err), d')"
  obtains (early) "report = pipe_report_zero" "d' = d" "err = Some StampDirFailed \<or> (\<exists>e. err = Some (BadSteps e))"
    | (ran) "ordered_steps {} steps" "run_steps env sha cancelled opt now steps {} pipe_report_zero d = ((report, err), d')"
  using assms validate_loop_iff [of "{}" steps]
  by (auto simp: pipe_Run_def pipe_validate_def split: if_splits option.splits)

lemma ordered_needs: "ordered_steps {} steps \<Longrightarrow> s \<in> set steps \<Longrightarrow> [] \<notin> set (stp_Needs s)"
  by (auto simp: ordered_steps_def in_set_conv_nth dest!: in_set_takeD spec)

section \<open>The stamps\<close>

definition due :: "pipe_options \<Rightarrow> int \<Rightarrow> int option \<Rightarrow> step \<Rightarrow> bool" where
  "due opt now prev s \<longleftrightarrow> selected (pi_Only opt) (stp_Name s) \<and>
     (pi_Force opt \<or> stp_Every s \<le> 0 \<or> (case prev of None \<Rightarrow> True | Some t \<Rightarrow> stp_Every s \<le> time_Sub now t))"

lemma step_verdict_Ran:
  "[] \<notin> set (stp_Needs s) \<Longrightarrow>
    step_verdict opt now prev fin s = StatusRan \<longleftrightarrow> set (stp_Needs s) \<subseteq> fin \<and> due opt now prev s"
  using blockedBy_Nil [of s fin] by (auto simp: step_verdict_def due_def Let_def split: option.split)

lemma due_later: "due opt now prev s \<Longrightarrow> now \<le> later \<Longrightarrow> due opt later prev s"
  by (auto simp: due_def time_Sub_def split: option.splits)

text \<open>The steps leave the stamps alone, and no log or digest has the name of a stamp.\<close>

definition keep_stamps :: "pipe_options \<Rightarrow> step list \<Rightarrow> bool" where
  "keep_stamps opt steps \<longleftrightarrow>
     (\<forall>s \<in> set steps. \<forall>t \<in> set steps.
       (\<forall>d. snd (snd (stp_Run s d)) (stamp_path opt (stp_Name t)) = d (stamp_path opt (stp_Name t))) \<and>
       stp_Name t \<noteq> stp_Name s @ ''.log'' \<and> stp_Name t \<noteq> stp_Name s @ ''.digest'' \<and>
       visible (stamp_path opt (stp_Name t)))"

lemma stamp_path_simps [simp]:
  "stamp_path opt a = stamp_path opt b @ c \<longleftrightarrow> a = b @ c" "stamp_path opt a = stamp_path opt b \<longleftrightarrow> a = b"
  by (simp_all add: stamp_path_def)

lemma run_due_keeps:
  assumes "run_due env sha opt now s result d = (r, d')" and "keep_stamps opt S" and "s \<in> set S" and "t \<in> set S"
    and "temps_ok env d0"
  shows "sx_Status r \<noteq> StatusRan \<or> stp_Name t \<noteq> stp_Name s \<Longrightarrow>
      d' (stamp_path opt (stp_Name t)) = d (stamp_path opt (stp_Name t))"
    and "sx_Status r = StatusRan \<Longrightarrow> \<exists>d3. d' = snd (writeStamp env (stamp_path opt (stp_Name s)) now d3)"
proof -
  let ?p = "stamp_path opt (stp_Name t)"
  have k: "snd (snd (stp_Run s e)) ?p = e ?p" "stp_Name t \<noteq> stp_Name s @ ''.log''" "stp_Name t \<noteq> stp_Name s @ ''.digest''"
    "visible ?p" for e using assms(2-4) unfolding keep_stamps_def by blast+
  have log: "write_log l (stamp_path opt (stp_Name s) @ ''.log'') x e ?p = e ?p" for l x e
    using k(2) by (simp add: write_log_def)
  have digest: "note_digest env (stamp_path opt (stp_Name s) @ ''.digest'') q f x e ?p = e ?p" for q f x e
    using k(3) WriteAtomic_other [OF assms(5) k(4)] by (simp add: note_digest_def)
  have ws: "stp_Name t \<noteq> stp_Name s \<Longrightarrow> snd (writeStamp env (stamp_path opt (stp_Name s)) now e) ?p = e ?p" for e
    unfolding writeStamp_def using WriteAtomic_other [OF assms(5) k(4)] by simp
  show "d' ?p = d ?p" if "sx_Status r \<noteq> StatusRan \<or> stp_Name t \<noteq> stp_Name s"
    using that assms(1) by (auto simp: run_due_def Let_def case_prod_beta log digest k(1) ws split: option.splits)
  show "\<exists>d3. d' = snd (writeStamp env (stamp_path opt (stp_Name s)) now d3)" if "sx_Status r = StatusRan"
    using that assms(1) by (auto simp: run_due_def Let_def split: prod.splits option.splits)
qed

lemma take_step_keeps:
  assumes "take_step env sha opt now fin s d = (r, d')" and "keep_stamps opt S" and "s \<in> set S" and "t \<in> set S"
    and "temps_ok env d0"
  shows "sx_Status r \<noteq> StatusRan \<or> stp_Name t \<noteq> stp_Name s \<Longrightarrow>
      d' (stamp_path opt (stp_Name t)) = d (stamp_path opt (stp_Name t))"
    and "sx_Status r = StatusRan \<Longrightarrow> \<exists>d3. d' = snd (writeStamp env (stamp_path opt (stp_Name s)) now d3)"
  using assms(1) run_due_keeps [OF _ assms(2-5)]
  by (auto simp: take_step_def Let_def split: if_splits)

lemma readStamp_written:
  assumes "can_write env path" and "\<not> en_read_fails env path" and "second \<le> now" and "now div second < 2 ^ 63"
  shows "readStamp env path (snd (writeStamp env path now d)) = Some (now div second * second)"
proof -
  have pos: "0 < now div second" using assms(3) by (simp add: second_def pos_imp_zdiv_pos_iff)
  have w: "\<forall>c \<in> set (int_digits (now div second)). printable c" "int_digits (now div second) \<noteq> []"
    using int_digits_word [of "now div second"] pos assms(4) by auto
  have "Atoi (TrimSpace (int_digits (now div second) @ [CHR 0x0A])) = Some (now div second)"
    using Atoi_int_digits_any [of "now div second"] pos assms(4) TrimSpace_id [OF w(2)] w by simp
  then show ?thesis using can_write_done [OF assms(1)] assms(2) pos by (simp add: readStamp_def writeStamp_def ReadFile_def)
qed

lemma readStamp_cong: "d p = e p \<Longrightarrow> readStamp env p d = readStamp env p e"
  by (simp add: readStamp_def ReadFile_def)

text \<open>What is known of each entry's stamp at the end of the round.\<close>

definition stamp_fine :: "env \<Rightarrow> pipe_options \<Rightarrow> int \<Rightarrow> dir \<Rightarrow> dir \<Rightarrow> step \<Rightarrow> step_result \<Rightarrow> bool" where
  "stamp_fine env opt now d d' s r \<longleftrightarrow> (let p = stamp_path opt (stp_Name s) in
     (if sx_Status r = StatusRan then \<exists>d3. d' p = snd (writeStamp env p now d3) p else d' p = d p) \<and>
     (sx_Status r = StatusFailed \<longrightarrow> due opt now (readStamp env p d) s))"

lemma run_steps_stamps:
  assumes "run_steps env sha cancelled opt now steps fin report d = ((report', err), d')"
    and "keep_stamps opt S" and "set steps \<subseteq> set S" and "distinct (map stp_Name steps)"
    and "\<forall>s \<in> set steps. [] \<notin> set (stp_Needs s)" and "temps_ok env d0"
  shows "\<exists>new. rp_Steps report' = rp_Steps report @ new \<and> list_all2 (stamp_fine env opt now d d') (take (length new) steps) new \<and>
    (\<forall>t \<in> set S. stp_Name t \<notin> stp_Name ` set steps \<longrightarrow> d' (stamp_path opt (stp_Name t)) = d (stamp_path opt (stp_Name t)))"
  using assms(1,3-5)
proof (induction steps arbitrary: fin report d)
  case (Cons s steps)
  obtain r d1 where t: "take_step env sha opt now fin s d = (r, d1)" by fastforce
  have s: "s \<in> set S" "[] \<notin> set (stp_Needs s)" using Cons.prems by simp_all
  note keeps = take_step_keeps [OF t assms(2) s(1) _ assms(6)]
  have failed: "due opt now (readStamp env (stamp_path opt (stp_Name s)) d) s" if "sx_Status r = StatusFailed"
    using take_step_accounted(2) [OF t s(2)] that step_verdict_Ran [OF s(2)] by simp
  have other: "d1 (stamp_path opt (stp_Name t)) = d (stamp_path opt (stp_Name t))"
    if "t \<in> set S" "stp_Name t \<noteq> stp_Name s" for t using keeps(1) that by blast
  have one: "stamp_fine env opt now d d' s r" if "d' (stamp_path opt (stp_Name s)) = d1 (stamp_path opt (stp_Name s))"
    using that keeps(1) [OF s(1)] keeps(2) [OF s(1)] failed by (auto simp: stamp_fine_def Let_def)
  consider (stop) "report' = note_result r report" "d' = d1"
    | (go) "run_steps env sha cancelled opt now steps (fin_after r (stp_Name s) fin) (note_result r report) d1 = ((report', err), d')"
    using Cons.prems(1) by (auto simp: t Let_def split: if_splits)
  then show ?case
  proof cases
    case stop
    then show ?thesis using one other by (intro exI [of _ "[r]"]) auto
  next
    case go
    obtain new where new: "rp_Steps report' = rp_Steps (note_result r report) @ new"
        "list_all2 (stamp_fine env opt now d1 d') (take (length new) steps) new"
        "\<forall>t \<in> set S. stp_Name t \<notin> stp_Name ` set steps \<longrightarrow> d' (stamp_path opt (stp_Name t)) = d1 (stamp_path opt (stp_Name t))"
      using Cons.IH [OF go] Cons.prems(2-4) by auto
    have "stamp_fine env opt now d d' t x" if "stamp_fine env opt now d1 d' t x" "t \<in> set (take (length new) steps)" for t x
    proof -
      have "t \<in> set steps" using that(2) by (rule in_set_takeD)
      then have "t \<in> set S" "stp_Name t \<noteq> stp_Name s" using Cons.prems(2,3) by (auto simp: image_iff)
      then have "d1 (stamp_path opt (stp_Name t)) = d (stamp_path opt (stp_Name t))" by (rule other)
      moreover from this have "readStamp env (stamp_path opt (stp_Name t)) d1 = readStamp env (stamp_path opt (stp_Name t)) d"
        by (rule readStamp_cong)
      ultimately show ?thesis using that(1) by (simp add: stamp_fine_def Let_def)
    qed
    then have "list_all2 (stamp_fine env opt now d d') (take (length new) steps) new"
      using new(2) by (rule list.rel_mono_strong [rotated])
    moreover have "stamp_fine env opt now d d' s r" using one new(3) s(1) Cons.prems(3) by simp
    ultimately show ?thesis using new(1,3) other by (intro exI [of _ "r # new"]) auto
  qed
qed simp

section \<open>A sample\<close>

text \<open>Of three steps the first runs, the second fails and the third is blocked.\<close>

definition sample_step :: "string \<Rightarrow> string list \<Rightarrow> string option \<Rightarrow> step" where
  "sample_step name needs err = \<lparr>stp_Name = name, stp_Label = name, stp_Every = hour_ns, stp_Needs = needs,
     stp_Run = \<lambda>d. (err, ''1.2.3.4 in 3.5 s'', d), stp_Critical = False\<rparr>"

definition sample_steps :: "step list" where
  "sample_steps = [sample_step ''a'' [] None, sample_step ''b'' [''a''] (Some ''x''), sample_step ''c'' [''b''] None]"

definition sample_pipe_options :: pipe_options where
  "sample_pipe_options = \<lparr>pi_StateDir = ''/s'', pi_Only = [], pi_Force = False, pi_DryRun = False, pi_Quiet = True\<rparr>"

abbreviation sample_pipe_run where
  "sample_pipe_run \<equiv> pipe_Run calm id (\<lambda>_. False) sample_pipe_options (1000 * second) sample_steps Map.empty"

lemma sample_pipe_run: "map sx_Status (rp_Steps (fst (fst sample_pipe_run))) = [StatusRan, StatusFailed, StatusBlocked]"
  by code_simp

section \<open>Properties\<close>



text \<open>The counts of a report are those of its entries. Without an error every step has an entry and none
  failed; with an error the report names the failed steps, or ends with the critical step that failed
  or the step after which the round was cancelled, or nothing was run at all.\<close>

theorem Run_report:
  assumes "pipe_Run env sha cancelled opt now steps d = ((report, err), d')"
  shows "counts_ok report \<and> map sx_Name (rp_Steps report) = map stp_Name (take (length (rp_Steps report)) steps) \<and>
    (case err of
       None \<Rightarrow> length (rp_Steps report) = length steps \<and> rp_Failed report = 0
     | Some (StepsFailed names) \<Rightarrow> length (rp_Steps report) = length steps \<and>
         names = map sx_Name (filter (\<lambda>r. sx_Status r = StatusFailed) (rp_Steps report))
     | Some (CriticalFailed name text) \<Rightarrow> rp_Steps report \<noteq> [] \<and> sx_Status (last (rp_Steps report)) = StatusFailed \<and>
         sx_Name (last (rp_Steps report)) = name \<and> (\<exists>s \<in> set steps. stp_Name s = name \<and> stp_Critical s)
     | Some Cancelled \<Rightarrow> rp_Steps report \<noteq> [] \<and> cancelled (sx_Name (last (rp_Steps report)))
     | Some _ \<Rightarrow> rp_Steps report = [] \<and> d' = d)"
proof (rule pipe_Run_cases [OF assms])
  assume ord: "ordered_steps {} steps" and run: "run_steps env sha cancelled opt now steps {} pipe_report_zero d = ((report, err), d')"
  have r: "counts_ok report" "accounted opt {} steps (rp_Steps report)" and err: "case err of
       None \<Rightarrow> length (rp_Steps report) = length steps \<and> rp_Failed report = 0
     | Some (StepsFailed names) \<Rightarrow> length (rp_Steps report) = length steps \<and>
         names = map sx_Name (filter (\<lambda>r. sx_Status r = StatusFailed) (rp_Steps report))
     | Some (CriticalFailed name text) \<Rightarrow> rp_Steps report \<noteq> [] \<and> sx_Status (last (rp_Steps report)) = StatusFailed \<and>
         sx_Name (last (rp_Steps report)) = name \<and> (\<exists>s \<in> set steps. stp_Name s = name \<and> stp_Critical s)
     | Some Cancelled \<Rightarrow> rp_Steps report \<noteq> [] \<and> cancelled (sx_Name (last (rp_Steps report)))
     | _ \<Rightarrow> False"
    using run_steps_report [OF run] ordered_needs [OF ord] by (auto simp: counts_ok_def pipe_report_zero_def)
  have "map sx_Name (rp_Steps report) = map stp_Name (take (length (rp_Steps report)) steps)"
    using accounted_nth [OF r(2)] accounted_length [OF r(2)] by (intro nth_equalityI) (simp_all add: entry_ok_def)
  then show ?thesis using r(1) err by (auto split: option.splits pipe_error.splits)
qed (auto simp: counts_ok_def pipe_report_zero_def)

theorem Run_report_witness:
  "counts_ok (fst (fst sample_pipe_run)) \<and> snd (fst sample_pipe_run) = Some (StepsFailed [''b''])"
proof -
  have run: "sample_pipe_run = ((fst (fst sample_pipe_run), snd (fst sample_pipe_run)), snd sample_pipe_run)" by simp
  have "snd (fst sample_pipe_run) = Some (StepsFailed [''b''])" by code_simp
  with Run_report [OF run] show ?thesis by blast
qed

text \<open>C34: A round renews the stamp of exactly the steps that ran without an error. A step that failed keeps its
  stamp and is due at every later time, whatever its period, once its prerequisites are done.\<close>

theorem Run_retries:
  assumes "pipe_Run env sha cancelled opt now steps d = ((report, err), d')"
    and "i < length (rp_Steps report)" and "keep_stamps opt steps" and "temps_ok env d0"
    and "p = stamp_path opt (stp_Name (steps ! i))"
    and "can_write env p" and "\<not> en_read_fails env p" and "second \<le> now" and "now div second < 2 ^ 63"
  shows "readStamp env p d' =
      (if sx_Status (rp_Steps report ! i) = StatusRan then Some (now div second * second) else readStamp env p d) \<and>
    (sx_Status (rp_Steps report ! i) = StatusFailed \<and> now \<le> later \<and> set (stp_Needs (steps ! i)) \<subseteq> fin \<longrightarrow>
      step_verdict opt later (readStamp env p d') fin (steps ! i) = StatusRan)"
proof (rule pipe_Run_cases [OF assms(1)])
  assume ord: "ordered_steps {} steps" and run: "run_steps env sha cancelled opt now steps {} pipe_report_zero d = ((report, err), d')"
  note needs = ordered_needs [OF ord]
  have dist: "distinct (map stp_Name steps)" using ord unfolding ordered_steps_def by blast
  have l2: "list_all2 (stamp_fine env opt now d d') (take (length (rp_Steps report)) steps) (rp_Steps report)"
    using run_steps_stamps [OF run assms(3) subset_refl dist _ assms(4)] needs by (auto simp: pipe_report_zero_def)
  then have i: "i < length steps" using list_all2_lengthD [OF l2] assms(2) by simp
  have ok: "stamp_fine env opt now d d' (steps ! i) (rp_Steps report ! i)"
    using list_all2_nthD2 [OF l2 assms(2)] assms(2) by simp
  have nil: "[] \<notin> set (stp_Needs (steps ! i))" using needs i by simp
  have stamp: "readStamp env p d' =
      (if sx_Status (rp_Steps report ! i) = StatusRan then Some (now div second * second) else readStamp env p d)"
  proof (cases "sx_Status (rp_Steps report ! i) = StatusRan")
    case True
    then obtain d3 where "d' p = snd (writeStamp env p now d3) p" using ok assms(5) by (auto simp: stamp_fine_def Let_def)
    then have "readStamp env p d' = readStamp env p (snd (writeStamp env p now d3))" by (rule readStamp_cong)
    with True readStamp_written [OF assms(6-9)] show ?thesis by simp
  next
    case False
    then have "d' p = d p" using ok assms(5) by (simp add: stamp_fine_def Let_def)
    then have "readStamp env p d' = readStamp env p d" by (rule readStamp_cong)
    with False show ?thesis by simp
  qed
  have "due opt now (readStamp env p d) (steps ! i)" if "sx_Status (rp_Steps report ! i) = StatusFailed"
    using ok assms(5) that by (simp add: stamp_fine_def Let_def)
  then have "due opt later (readStamp env p d) (steps ! i)" if "sx_Status (rp_Steps report ! i) = StatusFailed" "now \<le> later"
    using that due_later by blast
  then show ?thesis using stamp step_verdict_Ran [OF nil] by simp
qed (use assms(2) in \<open>simp add: pipe_report_zero_def\<close>)

theorem Run_retries_witness:
  "readStamp calm (stamp_path sample_pipe_options ''b'') (snd sample_pipe_run) = None \<and>
    step_verdict sample_pipe_options (1001 * second) None {''a''} (sample_steps ! 1) = StatusRan"
proof -
  have run: "sample_pipe_run = ((fst (fst sample_pipe_run), snd (fst sample_pipe_run)), snd sample_pipe_run)" by simp
  have n: "length (rp_Steps (fst (fst sample_pipe_run))) = 3" using arg_cong [OF sample_pipe_run, of length] by simp
  have i: "1 < length (rp_Steps (fst (fst sample_pipe_run)))" by (simp add: n)
  have k: "keep_stamps sample_pipe_options sample_steps"
    by (simp add: keep_stamps_def sample_steps_def sample_step_def stamp_path_def stampDir_def sample_pipe_options_def)
  have t: "temps_ok calm Map.empty" "can_write calm p" "\<not> en_read_fails calm p" "second \<le> 1000 * second"
      "1000 * second div second < 2 ^ 63" for p
    by (simp_all add: calm_def temps_ok_def can_write_def Let_def second_def)
  have f: "sx_Status (rp_Steps (fst (fst sample_pipe_run)) ! 1) = StatusFailed"
    using arg_cong [OF sample_pipe_run, of "\<lambda>l. l ! 1"] n by simp
  have "readStamp calm (stamp_path sample_pipe_options ''b'') Map.empty = None" by (simp add: readStamp_def ReadFile_def)
  moreover have "stp_Name (sample_steps ! 1) = ''b''" "set (stp_Needs (sample_steps ! 1)) \<subseteq> {''a''}"
      "1000 * second \<le> 1001 * second" by (simp_all add: sample_steps_def sample_step_def second_def)
  ultimately show ?thesis using Run_retries [OF run i k t(1) refl t(2-5), of "1001 * second" "{''a''}"] f by auto
qed

text \<open>A stamp that lies ahead of the clock delays its step until the clock has caught up with it.\<close>

lemma future_stamp_delays:
  assumes "prev = Some t" and "now \<le> t" and "\<not> pi_Force opt" and "0 < stp_Every s"
  shows "step_verdict opt now prev fin s \<noteq> StatusRan"
  using assms by (auto simp: step_verdict_def time_Sub_def Let_def)

end
