(* ===== verification/Polluted.thy ===== *)
theory Polluted
  imports Access Bufio "HOL-Library.AList"
begin

text \<open>
  Package \<open>internal/polluted\<close>: addresses that forged answers were seen with. An address that a round
  observed often enough becomes evidence; evidence not renewed for some days is dropped; the
  addresses with evidence are published. The JSON form of the evidence belongs to the standard
  library: its decoder and encoder are the argument \<open>json\<close>. Go maps are association lists with
  distinct keys; what depends on their order is sorted before it is written.
\<close>

record evidence =
  ev_FirstSeenAt :: int
  ev_LastSeenAt :: int
  ev_SeenCount :: int

type_synonym evidences = "(string \<times> evidence) list"

text \<open>
  A document is rejected, the value \<open>null\<close> (which leaves a Go map that cannot be assigned to), or an
  object. The encoder sorts the keys, so it gets the map as a function.
\<close>

datatype json_document = JBad | JNull | JObject evidences

record json_codec =
  js_decode :: "string \<Rightarrow> json_document"
  js_encode :: "(string \<rightharpoonup> evidence) \<Rightarrow> string option"

record polluted_options =
  po_RawPath :: string
  po_EvidencePath :: string
  po_OldOutputPath :: string
  po_ActiveOutPath :: string
  po_EvidenceOutPath :: string
  po_CIDROutPath :: string
  po_StatsPath :: string
  po_MaxAgeDays :: int
  po_MinObservations :: int
  po_Now :: int

record polluted_result =
  pr_Observed :: nat
  pr_Added :: nat
  pr_Total :: nat
  pr_RawUnique :: nat
  pr_CIDREntries :: nat

definition polluted_zero :: polluted_result where
  "polluted_zero = \<lparr>pr_Observed = 0, pr_Added = 0, pr_Total = 0, pr_RawUnique = 0, pr_CIDREntries = 0\<rparr>"

datatype polluted_error =
  BadThresholds | ReadFailed io_error | ScanFailed | NilMapPanic | EncodeFailed | WriteFailed io_error

definition readAddrs :: "env \<Rightarrow> string \<Rightarrow> dir \<Rightarrow> polluted_error + addr list" where
  "readAddrs env path d =
     (case ReadFile env path d of
        Inl e \<Rightarrow> Inl (ReadFailed e)
      | Inr body \<Rightarrow>
          let (ls, ok) = ScanLines body in
          if ok then Inr (List.map_filter (\<lambda>l. map_option Unmap (ParseAddr (TrimSpace l))) ls) else Inl ScanFailed)"

text \<open>The observations of a round: the keys seen at least \<open>MinObservations\<close> times.\<close>

definition observed_keys :: "int \<Rightarrow> string list \<Rightarrow> string list" where
  "observed_keys least keys = filter (\<lambda>k. least \<le> int (count_list keys k)) (remdups keys)"

definition load_evidence :: "json_codec \<Rightarrow> env \<Rightarrow> string \<Rightarrow> dir \<Rightarrow> evidences option" where
  "load_evidence json env path d =
     (case ReadFile env path d of
        Inl _ \<Rightarrow> Some []
      | Inr body \<Rightarrow> (case js_decode json body of JBad \<Rightarrow> Some [] | JNull \<Rightarrow> None | JObject m \<Rightarrow> Some m))"

definition seed_evidence :: "int \<Rightarrow> string list \<Rightarrow> evidences \<Rightarrow> evidences" where
  "seed_evidence now old ev =
     (if ev = [] \<and> old \<noteq> []
      then map (\<lambda>k. (k, \<lparr>ev_FirstSeenAt = now, ev_LastSeenAt = now, ev_SeenCount = 1\<rparr>)) (remdups old) else ev)"

definition evidence_zero :: evidence where
  "evidence_zero = \<lparr>ev_FirstSeenAt = 0, ev_LastSeenAt = 0, ev_SeenCount = 0\<rparr>"

definition observe :: "int \<Rightarrow> string \<Rightarrow> evidences \<Rightarrow> evidences" where
  "observe now key ev =
     (let item = (case map_of ev key of None \<Rightarrow> evidence_zero | Some e \<Rightarrow> e);
          first = (if ev_FirstSeenAt item = 0 then now else ev_FirstSeenAt item)
      in AList.update key
           \<lparr>ev_FirstSeenAt = first, ev_LastSeenAt = now, ev_SeenCount = go_int (ev_SeenCount item + 1)\<rparr> ev)"

definition expire :: "int \<Rightarrow> evidences \<Rightarrow> evidences" where
  "expire cutoff ev = filter (\<lambda>(_, item). \<not> ev_LastSeenAt item < cutoff) ev"

definition active_addrs :: "evidences \<Rightarrow> addr list" where
  "active_addrs ev = SortAddrs (List.map_filter (\<lambda>(key, _). map_option Unmap (ParseAddr key)) ev)"

definition line_list :: "string list \<Rightarrow> string" where
  "line_list ls = Join (CHR 0x0A) ls @ (if ls \<noteq> [] then [CHR 0x0A] else [])"

definition write_outputs ::
  "env \<Rightarrow> polluted_options \<Rightarrow> polluted_result \<Rightarrow> addr list \<Rightarrow> string option \<Rightarrow> dir \<Rightarrow>
   (polluted_result \<times> polluted_error option) \<times> dir" where
  "write_outputs env opt res active encoding d =
     (case WriteAtomic env (po_ActiveOutPath opt) (line_list (map addr_String active)) 420 d of
        (Inl e, d) \<Rightarrow> ((res, Some (WriteFailed e)), d)
      | (Inr _, d) \<Rightarrow>
      case encoding of
        None \<Rightarrow> ((res, Some EncodeFailed), d)
      | Some encoded \<Rightarrow>
      case WriteAtomic env (po_EvidenceOutPath opt) encoded 420 d of
        (Inl e, d) \<Rightarrow> ((res, Some (WriteFailed e)), d)
      | (Inr _, d) \<Rightarrow>
          let prefixes = CollapseAddrs active;
              res = (if po_CIDROutPath opt \<noteq> [] then res\<lparr>pr_CIDREntries := length prefixes\<rparr> else res);
              (r, d) = (if po_CIDROutPath opt \<noteq> []
                then WriteAtomic env (po_CIDROutPath opt) (line_list (map pfx_String prefixes)) 420 d else (Inr (), d))
          in case r of Inl e \<Rightarrow> ((res, Some (WriteFailed e)), d) | Inr _ \<Rightarrow>
          let stats = dec_digits (pr_Observed res) @ '' '' @ dec_digits (pr_Added res) @ '' '' @ dec_digits (pr_Total res)
                @ '' '' @ dec_digits (pr_RawUnique res) @ [CHR 0x0A];
              (r, d) = (if po_StatsPath opt \<noteq> [] then WriteAtomic env (po_StatsPath opt) stats 420 d else (Inr (), d))
          in case r of Inl e \<Rightarrow> ((res, Some (WriteFailed e)), d) | Inr _ \<Rightarrow> ((res, None), d))"

definition polluted_Run ::
  "json_codec \<Rightarrow> env \<Rightarrow> polluted_options \<Rightarrow> dir \<Rightarrow> (polluted_result \<times> polluted_error option) \<times> dir" where
  "polluted_Run json env opt d =
     (if po_MaxAgeDays opt < 1 \<or> po_MinObservations opt < 2 then ((polluted_zero, Some BadThresholds), d)
      else
        let now = po_Now opt in
        case (case readAddrs env (po_RawPath opt) d of Inl (ReadFailed NotExist) \<Rightarrow> Inr [] | r \<Rightarrow> r) of
          Inl e \<Rightarrow> ((polluted_zero, Some e), d)
        | Inr raw \<Rightarrow>
            let keys = map addr_String raw;
                observed = observed_keys (po_MinObservations opt) keys;
                res = polluted_zero\<lparr>pr_RawUnique := length (remdups keys), pr_Observed := length observed\<rparr>;
                old = (case readAddrs env (po_OldOutputPath opt) d of Inl _ \<Rightarrow> [] | Inr addrs \<Rightarrow> map addr_String addrs)
            in case load_evidence json env (po_EvidencePath opt) d of
                 None \<Rightarrow> if old \<noteq> [] \<or> observed \<noteq> [] then ((res, Some NilMapPanic), d)
                         else write_outputs env opt res [] (Some ''null'') d
               | Some loaded \<Rightarrow>
                   let cutoff = go_int (now - go_int (po_MaxAgeDays opt * 86400));
                       ev = expire cutoff (fold (observe now) observed (seed_evidence now old loaded));
                       active = active_addrs ev;
                       res = res\<lparr>pr_Total := length active,
                                 pr_Added := length (filter (\<lambda>a. addr_String a \<notin> set old) active)\<rparr>
                   in write_outputs env opt res active (js_encode json (map_of ev)) d)"

end
