(* ===== verification/Polluted_Facts.thy ===== *)
theory Polluted_Facts
  imports Polluted Access_Facts
begin

text \<open>
  What a round of package \<open>polluted\<close> does to the evidence: observed keys are renewed, the others stay
  while their last sighting is inside the window, and exactly the keys with evidence are published.
\<close>

section \<open>The evidence of one round\<close>

definition renewed :: "int \<Rightarrow> evidence option \<Rightarrow> evidence" where
  "renewed now old =
     (let item = (case old of None \<Rightarrow> evidence_zero | Some e \<Rightarrow> e)
      in \<lparr>ev_FirstSeenAt = (if ev_FirstSeenAt item = 0 then now else ev_FirstSeenAt item),
          ev_LastSeenAt = now, ev_SeenCount = go_int (ev_SeenCount item + 1)\<rparr>)"

lemma map_of_observe: "map_of (observe now k ev) = (map_of ev)(k \<mapsto> renewed now (map_of ev k))"
  by (simp add: observe_def Let_def renewed_def update_conv')

lemma distinct_observe: "distinct (map fst ev) \<Longrightarrow> distinct (map fst (observe now k ev))"
  by (simp add: observe_def Let_def distinct_update)

lemma fold_observe:
  assumes "distinct ks"
  shows "map_of (fold (observe now) ks ev) k =
    (if k \<in> set ks then Some (renewed now (map_of ev k)) else map_of ev k)"
  using assms
proof (induction ks arbitrary: ev)
  case (Cons a ks)
  then show ?case by (auto simp: map_of_observe)
qed simp

lemma distinct_fold_observe: "distinct (map fst ev) \<Longrightarrow> distinct (map fst (fold (observe now) ks ev))"
  by (induction ks arbitrary: ev) (simp_all add: distinct_observe)

lemma map_of_expire:
  "distinct (map fst ev) \<Longrightarrow>
   map_of (expire cutoff ev) k =
     (case map_of ev k of Some e \<Rightarrow> if cutoff \<le> ev_LastSeenAt e then Some e else None | None \<Rightarrow> None)"
proof (induction ev)
  case (Cons x ev)
  then have "k = fst x \<Longrightarrow> map_of ev k = None" by (auto simp: map_of_eq_None_iff)
  with Cons show ?case by (cases x) (auto simp: expire_def not_less split: option.splits)
qed (simp add: expire_def)

lemma distinct_expire: "distinct (map fst ev) \<Longrightarrow> distinct (map fst (expire cutoff ev))"
  by (simp add: expire_def distinct_map_filter)

lemma distinct_seed: "distinct (map fst ev) \<Longrightarrow> distinct (map fst (seed_evidence now old ev))"
  by (simp add: seed_evidence_def comp_def)

definition codec_ok :: "json_codec \<Rightarrow> bool" where
  "codec_ok json \<longleftrightarrow> (\<forall>s m. js_decode json s = JObject m \<longrightarrow> distinct (map fst m))"

text \<open>The evidence a round starts from: what is stored, or, without any, the addresses published before.\<close>

definition prior_evidence :: "json_codec \<Rightarrow> env \<Rightarrow> polluted_options \<Rightarrow> dir \<Rightarrow> string \<Rightarrow> evidence option" where
  "prior_evidence json env opt d =
     map_of (seed_evidence (po_Now opt)
       (case readAddrs env (po_OldOutputPath opt) d of Inl _ \<Rightarrow> [] | Inr addrs \<Rightarrow> map addr_String addrs)
       (case load_evidence json env (po_EvidencePath opt) d of None \<Rightarrow> [] | Some m \<Rightarrow> m))"

definition seen_now :: "env \<Rightarrow> polluted_options \<Rightarrow> dir \<Rightarrow> string \<Rightarrow> bool" where
  "seen_now env opt d key \<longleftrightarrow>
     (case readAddrs env (po_RawPath opt) d of
        Inl _ \<Rightarrow> False | Inr raw \<Rightarrow> po_MinObservations opt \<le> int (count_list (map addr_String raw) key))"

definition window_evidence :: "json_codec \<Rightarrow> env \<Rightarrow> polluted_options \<Rightarrow> dir \<Rightarrow> string \<Rightarrow> evidence option" where
  "window_evidence json env opt d key =
     (if seen_now env opt d key then Some (renewed (po_Now opt) (prior_evidence json env opt d key))
      else case prior_evidence json env opt d key of
        None \<Rightarrow> None
      | Some e \<Rightarrow> if po_Now opt - po_MaxAgeDays opt * 86400 \<le> ev_LastSeenAt e then Some e else None)"

lemma observed_keys_iff: "1 \<le> least \<Longrightarrow> k \<in> set (observed_keys least keys) \<longleftrightarrow> least \<le> int (count_list keys k)"
  using count_list_0_iff [of keys k] by (auto simp: observed_keys_def)

lemma go_int_id: "- (2 ^ 63) \<le> x \<Longrightarrow> x < 2 ^ 63 \<Longrightarrow> go_int x = x"
  by (simp add: go_int_def signed_take_bit_int_eq_self)

section \<open>Writing the outputs\<close>

lemma write_outputs_done:
  assumes "write_outputs env opt res0 active encoding d = ((res, None), d')"
    and "temps_ok env d0" and "visible (po_ActiveOutPath opt)" and "visible (po_EvidenceOutPath opt)"
    and "po_ActiveOutPath opt \<notin> {po_EvidenceOutPath opt, po_CIDROutPath opt, po_StatsPath opt}"
    and "po_EvidenceOutPath opt \<notin> {po_CIDROutPath opt, po_StatsPath opt}"
  shows "\<exists>encoded. encoding = Some encoded \<and>
    d' (po_ActiveOutPath opt) = Some \<lparr>f_data = line_list (map addr_String active), f_mode = 420\<rparr> \<and>
    d' (po_EvidenceOutPath opt) = Some \<lparr>f_data = encoded, f_mode = 420\<rparr>"
proof -
  let ?a = "po_ActiveOutPath opt" and ?e = "po_EvidenceOutPath opt" and ?c = "po_CIDROutPath opt" and ?s = "po_StatsPath opt"
  obtain d1 where 1: "WriteAtomic env ?a (line_list (map addr_String active)) 420 d = (Inr (), d1)"
    using assms(1) by (auto simp: write_outputs_def split: prod.splits sum.splits)
  obtain encoded where enc: "encoding = Some encoded"
    using assms(1) 1 by (auto simp: write_outputs_def split: option.splits)
  obtain d2 where 2: "WriteAtomic env ?e encoded 420 d1 = (Inr (), d2)"
    using assms(1) 1 enc by (auto simp: write_outputs_def split: prod.splits sum.splits)
  obtain d3 where 3: "?c = [] \<and> d3 = d2 \<or> WriteAtomic env ?c (line_list (map pfx_String (CollapseAddrs active))) 420 d2 = (Inr (), d3)"
    and 4: "?s = [] \<and> d' = d3 \<or> (\<exists>text. WriteAtomic env ?s text 420 d3 = (Inr (), d'))"
    using assms(1) 1 2 enc
    by (auto simp: write_outputs_def Let_def split: prod.splits sum.splits if_splits)
  have keep3: "d3 p = d2 p" if "visible p" "p \<noteq> ?c" for p
    using 3 WriteAtomic_done(2) [OF _ assms(2) that] by blast
  have keep4: "d' p = d3 p" if "visible p" "p \<noteq> ?s" for p
    using 4 WriteAtomic_done(2) [OF _ assms(2) that] by blast
  have "d' ?a = Some \<lparr>f_data = line_list (map addr_String active), f_mode = 420\<rparr>"
    using assms(3,5) keep3 [of ?a] keep4 [of ?a] WriteAtomic_done(1) [OF 1]
      WriteAtomic_done(2) [OF 2 assms(2,3)] by simp
  moreover have "d' ?e = Some \<lparr>f_data = encoded, f_mode = 420\<rparr>"
    using assms(4,6) keep3 [of ?e] keep4 [of ?e] WriteAtomic_done(1) [OF 2] by simp
  ultimately show ?thesis using enc by blast
qed

text \<open>The published addresses: those of the keys with evidence.\<close>

lemma set_active_addrs:
  "set (active_addrs ev) = {Unmap a |a k. k \<in> fst ` set ev \<and> ParseAddr k = Some a}"
  by (force simp: active_addrs_def SortAddrs_def List.map_filter_def)

lemma active_addrs_sorted: "sorted (map (\<lambda>a. (Is6 a, ToBig a)) (active_addrs ev))"
  by (simp add: active_addrs_def SortAddrs_def)

text \<open>C21: What a successful round writes. A key that was observed often enough is stored as seen now, with
  its first sighting kept and its count raised; every other key keeps its evidence exactly while its
  last sighting is at most \<open>MaxAgeDays\<close> days ago, and is dropped then. The list of active addresses
  holds, in order, the addresses of the keys with evidence and no others.\<close>

theorem polluted_Run_window:
  assumes "polluted_Run json env opt d = ((res, None), d')" and "codec_ok json"
    and "load_evidence json env (po_EvidencePath opt) d \<noteq> None"
    and "temps_ok env d" and "visible (po_ActiveOutPath opt)" and "visible (po_EvidenceOutPath opt)"
    and "po_ActiveOutPath opt \<notin> {po_EvidenceOutPath opt, po_CIDROutPath opt, po_StatsPath opt}"
    and "po_EvidenceOutPath opt \<notin> {po_CIDROutPath opt, po_StatsPath opt}"
    and "0 \<le> po_Now opt" and "po_Now opt < 2 ^ 62" and "po_MaxAgeDays opt < 2 ^ 40"
  shows "\<exists>encoded active.
    js_encode json (window_evidence json env opt d) = Some encoded \<and>
    d' (po_EvidenceOutPath opt) = Some \<lparr>f_data = encoded, f_mode = 420\<rparr> \<and>
    d' (po_ActiveOutPath opt) = Some \<lparr>f_data = line_list (map addr_String active), f_mode = 420\<rparr> \<and>
    sorted (map (\<lambda>a. (Is6 a, ToBig a)) active) \<and>
    set active = {Unmap a |a k. window_evidence json env opt d k \<noteq> None \<and> ParseAddr k = Some a}"
proof -
  let ?now = "po_Now opt"
  have days: "1 \<le> po_MaxAgeDays opt" "2 \<le> po_MinObservations opt"
    using assms(1) by (auto simp: polluted_Run_def split: if_splits)
  obtain loaded where loaded: "load_evidence json env (po_EvidencePath opt) d = Some loaded" using assms(3) by blast
  define old where "old = (case readAddrs env (po_OldOutputPath opt) d of Inl _ \<Rightarrow> [] | Inr addrs \<Rightarrow> map addr_String addrs)"
  define keys where "keys = (case readAddrs env (po_RawPath opt) d of Inl _ \<Rightarrow> [] | Inr raw \<Rightarrow> map addr_String raw)"
  define seeded where "seeded = seed_evidence ?now old loaded"
  define ev where "ev = expire (?now - po_MaxAgeDays opt * 86400)
    (fold (observe ?now) (observed_keys (po_MinObservations opt) keys) seeded)"
  have "po_MaxAgeDays opt * 86400 < 2 ^ 40 * 86400" using assms(11) by linarith
  then have cutoff: "go_int (?now - go_int (po_MaxAgeDays opt * 86400)) = ?now - po_MaxAgeDays opt * 86400"
    using days(1) assms(9,10) by (simp add: go_int_id)
  obtain res1 where w: "write_outputs env opt res1 (active_addrs ev) (js_encode json (map_of ev)) d = ((res, None), d')"
    using assms(1) days loaded
    by (auto simp: polluted_Run_def Let_def cutoff ev_def seeded_def old_def keys_def
        split: sum.splits polluted_error.splits io_error.splits if_splits)
  have dl: "distinct (map fst loaded)"
    using loaded assms(2) by (auto simp: load_evidence_def codec_ok_def split: sum.splits json_document.splits)
  then have ds: "distinct (map fst seeded)" by (simp add: seeded_def distinct_seed)
  have prior: "map_of seeded = prior_evidence json env opt d"
    by (simp add: seeded_def prior_evidence_def old_def loaded)
  have seen: "k \<in> set (observed_keys (po_MinObservations opt) keys) \<longleftrightarrow> seen_now env opt d k" for k
    using days(2) by (auto simp: observed_keys_iff keys_def seen_now_def split: sum.splits)
  have "distinct (observed_keys (po_MinObservations opt) keys)" by (simp add: observed_keys_def)
  from fold_observe [OF this, of ?now seeded] days(1) have ev: "map_of ev = window_evidence json env opt d"
    by (auto simp: ev_def map_of_expire distinct_fold_observe ds seen prior window_evidence_def renewed_def
        fun_eq_iff split: option.splits)
  have dom: "k \<in> fst ` set ev \<longleftrightarrow> window_evidence json env opt d k \<noteq> None" for k
    unfolding ev [symmetric] by (simp add: map_of_eq_None_iff)
  obtain encoded where "js_encode json (map_of ev) = Some encoded"
    "d' (po_ActiveOutPath opt) = Some \<lparr>f_data = line_list (map addr_String (active_addrs ev)), f_mode = 420\<rparr>"
    "d' (po_EvidenceOutPath opt) = Some \<lparr>f_data = encoded, f_mode = 420\<rparr>"
    using write_outputs_done [OF w assms(4-8)] by blast
  moreover have "set (active_addrs ev) = {Unmap a |a k. window_evidence json env opt d k \<noteq> None \<and> ParseAddr k = Some a}"
    unfolding set_active_addrs dom ..
  ultimately show ?thesis unfolding ev using active_addrs_sorted by blast
qed

definition sample_codec :: json_codec where
  "sample_codec = \<lparr>js_decode = (\<lambda>_. JBad), js_encode = (\<lambda>_. Some ''{}'')\<rparr>"

definition sample_polluted :: polluted_options where
  "sample_polluted = \<lparr>po_RawPath = ''raw'', po_EvidencePath = ''evidence'', po_OldOutputPath = ''active'',
     po_ActiveOutPath = ''active'', po_EvidenceOutPath = ''evidence'', po_CIDROutPath = [], po_StatsPath = [],
     po_MaxAgeDays = 7, po_MinObservations = 2, po_Now = 1800000000\<rparr>"

definition sample_raw :: dir where
  "sample_raw = [''raw'' \<mapsto> \<lparr>f_data = concat (map (\<lambda>l. l @ [CHR 0x0A]) [''1.2.3.4'', ''1.2.3.4'']), f_mode = 420\<rparr>]"

theorem polluted_Run_window_witness:
  "\<exists>active.
    snd (polluted_Run sample_codec calm sample_polluted sample_raw) ''active'' =
      Some \<lparr>f_data = line_list (map addr_String active), f_mode = 420\<rparr> \<and>
    sorted (map (\<lambda>a. (Is6 a, ToBig a)) active) \<and>
    set active = {Unmap a |a k. window_evidence sample_codec calm sample_polluted sample_raw k \<noteq> None \<and> ParseAddr k = Some a}"
proof -
  let ?run = "polluted_Run sample_codec calm sample_polluted sample_raw"
  have opt: "po_RawPath sample_polluted = ''raw''" "po_EvidencePath sample_polluted = ''evidence''"
    "po_OldOutputPath sample_polluted = ''active''" "po_ActiveOutPath sample_polluted = ''active''"
    "po_EvidenceOutPath sample_polluted = ''evidence''" "po_CIDROutPath sample_polluted = []" "po_StatsPath sample_polluted = []"
    "po_MaxAgeDays sample_polluted = 7" "po_MinObservations sample_polluted = 2" "po_Now sample_polluted = 1800000000"
    by (simp_all add: sample_polluted_def)
  have read: "ReadFile calm ''raw'' sample_raw = Inr (concat (map (\<lambda>l. l @ [CHR 0x0A]) [''1.2.3.4'', ''1.2.3.4'']))"
    "ReadFile calm ''evidence'' sample_raw = Inl NotExist" "ReadFile calm ''active'' sample_raw = Inl NotExist"
    by (simp_all add: ReadFile_def calm_def sample_raw_def)
  have scan: "ScanLines (concat (map (\<lambda>l. l @ [CHR 0x0A]) [''1.2.3.4'', ''1.2.3.4''])) = ([''1.2.3.4'', ''1.2.3.4''], True)"
    by (rule ScanLines_lines) (simp add: maxLine_def)
  obtain addrs where raw: "readAddrs calm ''raw'' sample_raw = Inr addrs"
  proof (rule that)
    show "readAddrs calm ''raw'' sample_raw = Inr (List.map_filter (\<lambda>l. map_option Unmap (ParseAddr (TrimSpace l)))
        [''1.2.3.4'', ''1.2.3.4''])"
      by (simp only: readAddrs_def read scan sum.case prod.case Let_def if_True)
  qed
  have ev: "load_evidence sample_codec calm ''evidence'' sample_raw = Some []"
    by (simp add: load_evidence_def read)
  have old: "readAddrs calm ''active'' sample_raw = Inl (ReadFailed NotExist)"
    by (simp add: readAddrs_def read)
  have w: "\<exists>d'. WriteAtomic calm p t m d = (Inr (), d')" for p t m d
    by (simp add: WriteAtomic_def calm_def)
  have "snd (fst (write_outputs calm sample_polluted r a (Some ''{}'') d)) = None" for r a d
    using w [of "''active''" "line_list (map addr_String a)" 420 d]
      w [of "''evidence''" "''{}''" 420 "snd (WriteAtomic calm ''active'' (line_list (map addr_String a)) 420 d)"]
    by (auto simp: write_outputs_def opt)
  then have "snd (fst ?run) = None"
    by (simp add: polluted_Run_def opt raw ev old Let_def sample_codec_def [THEN arg_cong [of _ _ js_encode]])
  then have run: "?run = ((fst (fst ?run), None), snd ?run)" by (metis prod.collapse)
  have ok: "codec_ok sample_codec" by (simp add: codec_ok_def sample_codec_def)
  have l: "load_evidence sample_codec calm (po_EvidencePath sample_polluted) sample_raw \<noteq> None" by (simp add: opt ev)
  have t: "temps_ok calm sample_raw" by (simp add: temps_ok_def calm_def sample_raw_def)
  have p: "visible (po_ActiveOutPath sample_polluted)" "visible (po_EvidenceOutPath sample_polluted)"
    "po_ActiveOutPath sample_polluted \<notin> {po_EvidenceOutPath sample_polluted, po_CIDROutPath sample_polluted, po_StatsPath sample_polluted}"
    "po_EvidenceOutPath sample_polluted \<notin> {po_CIDROutPath sample_polluted, po_StatsPath sample_polluted}"
    "0 \<le> po_Now sample_polluted" "po_Now sample_polluted < 2 ^ 62" "po_MaxAgeDays sample_polluted < 2 ^ 40"
    by (simp_all add: opt)
  from polluted_Run_window [OF run ok l t p] show ?thesis unfolding opt by blast
qed

end
