(* ===== verification/Publishing.thy ===== *)
theory Publishing
  imports ECS_Zone_Facts Access_Facts
begin

text \<open>
  Function \<open>metrics.ReplaceAndReload\<close> and what \<open>ecszone.Publish\<close> does with it: a table is written in one
  step, the service that reads it is reloaded, and when the service refuses the table the file goes
  back to what it was. The two writes may fare differently (\<open>env\<close>, \<open>env2\<close>); \<open>reload\<close> gives the status of
  each call, 0 when the service cannot be reached.
\<close>

section \<open>Replacing a file\<close>

datatype reload_note = SavedForNextStart | Reloaded

datatype reload_error =
  ReplaceFailed io_error | FirstOneRemoved int | RollbackFailed int io_error | StillBroken int int | RolledBack int

definition ReplaceAndReload ::
  "env \<Rightarrow> env \<Rightarrow> string \<Rightarrow> string \<Rightarrow> (nat \<Rightarrow> int) \<Rightarrow> dir \<Rightarrow> (reload_error + reload_note) \<times> dir" where
  "ReplaceAndReload env env2 path content reload d =
     (let previous = ReadFile env path d in
      case WriteAtomic env path content 420 d of
        (Inl e, d1) \<Rightarrow> (Inl (ReplaceFailed e), d1)
      | (Inr _, d1) \<Rightarrow>
          let status = reload 0 in
          if status = 0 then (Inr SavedForNextStart, d1)
          else if status = 200 then (Inr Reloaded, d1)
          else case previous of
            Inl _ \<Rightarrow> (Inl (FirstOneRemoved status), if en_remove_fails env2 then d1 else d1(path := None))
          | Inr old \<Rightarrow>
              case WriteAtomic env2 path old 420 d1 of
                (Inl e, d2) \<Rightarrow> (Inl (RollbackFailed status e), d2)
              | (Inr _, d2) \<Rightarrow>
                  let recheck = reload 1 in
                  (Inl (if recheck \<noteq> 200 then StillBroken status recheck else RolledBack status), d2))"

definition ecs_Publish ::
  "env \<Rightarrow> env \<Rightarrow> string \<Rightarrow> (nat \<Rightarrow> int) \<Rightarrow> row list \<Rightarrow> dir \<Rightarrow> (publish_error + reload_error + reload_note) \<times> dir" where
  "ecs_Publish env env2 out reload merged d =
     (case CheckPublishable (case ReadFile env out d of Inl _ \<Rightarrow> None | Inr data \<Rightarrow> Some data) merged of
        Some e \<Rightarrow> (Inl e, d)
      | None \<Rightarrow> apfst Inr (ReplaceAndReload env env2 out (Render merged) reload d))"

section \<open>All or nothing\<close>

lemma WriteAtomic_cases:
  assumes "temps_ok env d" and "visible path"
  obtains (kept) e d' where "WriteAtomic env path data mode d = (Inl e, d')" and "\<forall>p. visible p \<longrightarrow> d' p = d p"
    | (written) "WriteAtomic env path data mode d = (Inr (), d(path \<mapsto> \<lparr>f_data = data, f_mode = mode\<rparr>))"
proof (cases "WriteAtomic env path data mode d")
  case (Pair res d')
  show thesis
  proof (cases res)
    case (Inl e)
    with Pair have "write_op env path data mode d = (Inl (IOError e), d')" by (simp add: write_op_def)
    from write_op_Inl [OF this assms(1)] Pair Inl show thesis by (blast intro: kept)
  next
    case (Inr u)
    with Pair have "write_op env path data mode d = (Inr u, d')" by (simp add: write_op_def)
    from write_op_Inr [OF this assms] Pair Inr show thesis by (intro written) simp
  qed
qed

lemma ReplaceAndReload_outcome:
  assumes "temps_ok env d" and "temps_ok env2 d" and "visible path" and "\<not> en_read_fails env path" and "\<not> en_remove_fails env2"
    and "ReplaceAndReload env env2 path content reload d = (res, d')"
  shows "case res of
      Inr _ \<Rightarrow> d' = d(path \<mapsto> \<lparr>f_data = content, f_mode = 420\<rparr>)
    | Inl e \<Rightarrow> (\<forall>p. visible p \<and> p \<noteq> path \<longrightarrow> d' p = d p) \<and>
        map_option f_data (d' path) = (case e of RollbackFailed _ _ \<Rightarrow> Some content | _ \<Rightarrow> map_option f_data (d path))"
proof (rule WriteAtomic_cases [OF assms(1,3), of content 420])
  fix e d1 assume "WriteAtomic env path content 420 d = (Inl e, d1)" "\<forall>p. visible p \<longrightarrow> d1 p = d p"
  then show ?thesis using assms(3,6) by (auto simp: ReplaceAndReload_def Let_def)
next
  let ?d1 = "d(path \<mapsto> \<lparr>f_data = content, f_mode = 420\<rparr>)"
  assume w: "WriteAtomic env path content 420 d = (Inr (), ?d1)"
  show ?thesis
  proof (cases "d path")
    case None
    then show ?thesis using w assms(4,5,6) by (auto simp: ReplaceAndReload_def ReadFile_def Let_def split: if_splits)
  next
    case (Some f)
    then have read: "ReadFile env path d = Inr (f_data f)" using assms(4) by (simp add: ReadFile_def)
    show ?thesis
    proof (rule WriteAtomic_cases [OF temps_ok_upd [OF assms(2,3)] assms(3), of "f_data f" 420])
      fix e d2 assume "WriteAtomic env2 path (f_data f) 420 ?d1 = (Inl e, d2)" "\<forall>p. visible p \<longrightarrow> d2 p = ?d1 p"
      then show ?thesis
        using w read Some assms(3,6) by (auto simp: ReplaceAndReload_def Let_def split: if_splits)
    next
      assume "WriteAtomic env2 path (f_data f) 420 ?d1 = (Inr (), ?d1(path \<mapsto> \<lparr>f_data = f_data f, f_mode = 420\<rparr>))"
      then show ?thesis
        using w read Some assms(6) by (auto simp: ReplaceAndReload_def Let_def split: if_splits)
    qed
  qed
qed



text \<open>A table that exists but cannot be read is taken for one that was never there, and removed.\<close>

lemma unreadable_table_removed:
  assumes "en_read_fails env path" and "\<not> en_remove_fails env2" and "temps_ok env d" and "visible path"
    and "WriteAtomic env path content 420 d = (Inr (), d1)" and "reload 0 = 500"
  shows "ReplaceAndReload env env2 path content reload d = (Inl (FirstOneRemoved 500), d1(path := None))"
  using assms by (auto simp: ReplaceAndReload_def ReadFile_def Let_def split: option.split)

end
