(* ===== verification/Routing_Facts.thy ===== *)
theory Routing_Facts
  imports Routing Access_Facts
begin

text \<open>
  The properties of the routing: the marking chain is replaced last, and only when the tunnel is guarded,
  the mainland set is large enough and its samples are where they belong; an installation that fails
  before leaves the chain as it was.
\<close>

section \<open>What leaves a part of the host alone\<close>

named_theorems keeps

definition keeps_part :: "('w \<Rightarrow> 'c) \<Rightarrow> ('w \<Rightarrow> 'r \<times> 'w) \<Rightarrow> bool" where
  "keeps_part part f \<longleftrightarrow> (\<forall>w. part (snd (f w)) = part w)"

lemma keeps_result: "keeps_part part f \<Longrightarrow> f w = (r, w') \<Longrightarrow> part w' = part w"
  unfolding keeps_part_def by (metis snd_conv)

lemma keeps_Pair [keeps]: "keeps_part part (\<lambda>w. (r, w))" "keeps_part part (Pair r)"
  by (simp_all add: keeps_part_def)

lemma keeps_bind [keeps]:
  "keeps_part part f \<Longrightarrow> (\<And>r. keeps_part part (g r)) \<Longrightarrow> keeps_part part (\<lambda>w. case f w of (r, w1) \<Rightarrow> g r w1)"
  unfolding keeps_part_def by (auto split: prod.split) (metis snd_conv)

lemma keeps_case_prod [keeps]: "(\<And>a b. keeps_part part (g a b)) \<Longrightarrow> keeps_part part (case_prod g r)"
  by (cases r) simp

lemma keeps_if [keeps]:
  "(b \<Longrightarrow> keeps_part part f) \<Longrightarrow> (\<not> b \<Longrightarrow> keeps_part part g) \<Longrightarrow> keeps_part part (\<lambda>w. if b then f w else g w)"
  "(b \<Longrightarrow> keeps_part part f) \<Longrightarrow> (\<not> b \<Longrightarrow> keeps_part part g) \<Longrightarrow> keeps_part part (if b then f else g)"
  by (simp_all add: keeps_part_def)

lemma keeps_option [keeps]:
  "keeps_part part f \<Longrightarrow> (\<And>x. keeps_part part (g x)) \<Longrightarrow> keeps_part part (\<lambda>w. case y of None \<Rightarrow> f w | Some x \<Rightarrow> g x w)"
  by (cases y) (simp_all add: keeps_part_def)

lemma keeps_sum [keeps]:
  "(\<And>x. keeps_part part (f x)) \<Longrightarrow> (\<And>x. keeps_part part (g x)) \<Longrightarrow>
    keeps_part part (\<lambda>w. case y of Inl x \<Rightarrow> f x w | Inr x \<Rightarrow> g x w)"
  by (cases y) (simp_all add: keeps_part_def)

text \<open>
  Commands that are not nft, and the listings and lookups of nft, leave the part alone, and so do the script
  of the access list and those that fill the mainland set.
\<close>

definition reads_only :: "string list \<Rightarrow> bool" where
  "reads_only argv \<longleftrightarrow> hd argv \<noteq> ''nft'' \<or> argv ! 1 \<in> {''list'', ''get''}"

definition apart :: "'w run \<Rightarrow> 'w load \<Rightarrow> pipe_config \<Rightarrow> ('w \<Rightarrow> 'c) \<Rightarrow> bool" where
  "apart run load c part \<longleftrightarrow>
     (\<forall>argv. reads_only argv \<longrightarrow> keeps_part part (run argv)) \<and>
     (\<forall>a script. acl_Render a = Inr script \<longrightarrow> keeps_part part (load script)) \<and>
     (\<forall>elems. keeps_part part (load (renderSetScript (pc_NFTTable c) (pc_DirectSet c) elems)))"

lemma run_apart [keeps]: "apart run load c part \<Longrightarrow> reads_only argv \<Longrightarrow> keeps_part part (run argv)"
  by (simp add: apart_def)

lemma command_apart [keeps]: "apart run load c part \<Longrightarrow> reads_only argv \<Longrightarrow> keeps_part part (command_ok run argv)"
  unfolding command_ok_def Let_def by (intro keeps) auto

lemma must_apart [keeps]:
  "apart run load c part \<Longrightarrow> reads_only argv \<Longrightarrow> keeps_part part cont \<Longrightarrow> keeps_part part (must run argv e cont)"
  unfolding must_def Let_def by (intro keeps) auto

lemma reads_only_simps [simp]:
  "c \<noteq> ''nft'' \<Longrightarrow> reads_only (c # argv)" "reads_only (''nft'' # ''list'' # argv)" "reads_only (''nft'' # ''get'' # argv)"
  by (simp_all add: reads_only_def)

lemma ruleExists_apart [keeps]: "apart run load c part \<Longrightarrow> keeps_part part (ruleExists run fragment)"
  unfolding ruleExists_def Let_def by (intro keeps) auto

lemma ensure_rule_apart [keeps]:
  "apart run load c part \<Longrightarrow> reads_only argv \<Longrightarrow> keeps_part part cont \<Longrightarrow> keeps_part part (ensure_rule run fragment argv e cont)"
  unfolding ensure_rule_def Let_def by (intro keeps) auto

lemma delete_rules_apart:
  assumes "apart run load c part" and "reads_only argv"
  shows "part (delete_rules run fragment argv n w) = part w"
proof (induction n arbitrary: w)
  case (Suc n)
  obtain found w1 where r: "ruleExists run fragment w = (found, w1)" by fastforce
  obtain ok w2 where c: "command_ok run argv w1 = (ok, w2)" by fastforce
  show ?case using Suc keeps_result [OF ruleExists_apart [OF assms(1)] r] keeps_result [OF command_apart [OF assms] c] by (simp add: r c)
qed simp

lemma applyPolicyRoutes_apart [keeps]:
  assumes "apart run load c part"
  shows "keeps_part part (applyPolicyRoutes run rc)"
proof -
  have "keeps_part part (\<lambda>w. (None, delete_rules run fragment (''ip'' # argv) n w))" for fragment argv n
    using delete_rules_apart [OF assms] by (simp add: keeps_part_def)
  then show ?thesis unfolding applyPolicyRoutes_def Let_def using assms by (intro keeps) auto
qed

lemma peerAllowedIPs_apart [keeps]: "apart run load c part \<Longrightarrow> keeps_part part (peerAllowedIPs run rc)"
  unfolding peerAllowedIPs_def Let_def by (intro keeps) auto

lemma openHKPeer_apart [keeps]: "apart run load c part \<Longrightarrow> keeps_part part (openHKPeer run order rc)"
  unfolding openHKPeer_def Let_def by (intro keeps) auto

lemma NFTSetCount_apart [keeps]: "apart run load c part \<Longrightarrow> keeps_part part (NFTSetCount run c' name)"
  unfolding NFTSetCount_def Let_def by (intro keeps) auto

lemma tunnelEndpoints_apart [keeps]: "apart run load c part \<Longrightarrow> keeps_part part (tunnelEndpoints run rc)"
  unfolding tunnelEndpoints_def Let_def by (intro keeps) auto

lemma inSet_apart [keeps]: "apart run load c part \<Longrightarrow> keeps_part part (inSet run rc addr)"
  unfolding inSet_def by (intro keeps) auto

lemma probe_loop_apart [keeps]: "apart run load c part \<Longrightarrow> keeps_part part (probe_loop run rc probes)"
proof (induction probes)
  case (Cons probe probes)
  then show ?case unfolding probe_loop.simps [abs_def] Let_def by (intro keeps) auto
qed (simp add: keeps_part_def)

lemma verifySetSemantics_apart [keeps]: "apart run load c part \<Longrightarrow> keeps_part part (verifySetSemantics run rc)"
proof -
  assume a: "apart run load c part"
  have "keeps_part part (own_address run rc)" unfolding own_address_def Let_def using a by (intro keeps) auto
  moreover have "keeps_part part (far_end run rc)"
    using keeps_result [OF tunnelEndpoints_apart [OF a]] keeps_result [OF inSet_apart [OF a]]
    by (auto simp: keeps_part_def far_end_def Let_def split: prod.split list.split)
  ultimately show ?thesis unfolding verifySetSemantics_def Let_def using a by (intro keeps) auto
qed

lemma ensureSetLoaded_apart:
  assumes "apart run load (rg_Config rc) part"
  shows "part (ensureSetLoaded run load env rc d w) = part w"
proof -
  let ?c = "rg_Config rc"
  have load: "part w2 = part v" if "LoadNFTSet load ?c (pc_DirectSet ?c) ps v = (ok, w2)" for ps v ok w2
    using assms that keeps_result [of part "LoadNFTSet load ?c (pc_DirectSet ?c) ps" v ok w2]
    by (simp add: apart_def LoadNFTSet_def [abs_def])
  note count = keeps_result [OF NFTSetCount_apart [OF assms]]
  have snd_count: "part (snd (NFTSetCount run ?c (pc_DirectSet ?c) v)) = part v" for v
    using count surjective_pairing by blast
  obtain n w1 where n: "NFTSetCount run ?c (pc_DirectSet ?c) w = (n, w1)" by fastforce
  show ?thesis
    by (auto simp: ensureSetLoaded_def Let_def n snd_count count [OF n] split: sum.split prod.split dest!: load)
qed

lemma RestoreACL_apart [keeps]: "apart run load c part \<Longrightarrow> keeps_part part (RestoreACL run load env c' d)"
proof -
  assume a: "apart run load c part"
  have "keeps_part part (ACLInstalled run)" unfolding ACLInstalled_def Let_def using a by (intro keeps) auto
  moreover have "keeps_part part (acl_Apply load x)" for x
    using a by (auto simp: keeps_part_def acl_Apply_def apart_def Let_def split: sum.split prod.split) (metis snd_conv)+
  ultimately show ?thesis unfolding RestoreACL_def Let_def using a by (intro keeps) auto
qed

section \<open>Installing the chain\<close>

text \<open>The way to the script of the chain, from the state \<open>v\<close> on.\<close>

definition chain_loaded ::
  "'w run \<Rightarrow> 'w load \<Rightarrow> env \<Rightarrow> routing_config \<Rightarrow> string \<Rightarrow> dir \<Rightarrow> ('w \<Rightarrow> 'c) \<Rightarrow> 'c \<Rightarrow> bool \<Rightarrow> 'w \<Rightarrow> bool" where
  "chain_loaded run load env rc uid d part before ok w' \<longleftrightarrow>
     (\<exists>v n w1 w2 endpoints w3.
       NFTSetCount run (rg_Config rc) (pc_DirectSet (rg_Config rc)) v = (n, w1) \<and> rg_MinEntries rc \<le> int n \<and>
       verifySetSemantics run rc w1 = ([], w2) \<and> tunnelEndpoints run rc w2 = (endpoints, w3) \<and> part w3 = before \<and>
       load (renderChainScript rc uid endpoints (cnAuthorityEntries env rc d)) w3 = (ok, w'))"

lemma install_chain_cases:
  assumes "install_chain run load env rc uid d w = (err, w')" and "apart run load (rg_Config rc) part"
  shows "if err \<in> {None, Some ScriptFailed} then chain_loaded run load env rc uid d part (part w) (err = None) w'
    else part w' = part w"
proof -
  let ?v = "ensureSetLoaded run load env rc d w"
  obtain n w1 where n: "NFTSetCount run (rg_Config rc) (pc_DirectSet (rg_Config rc)) ?v = (n, w1)" by fastforce
  obtain bad w2 where v: "verifySetSemantics run rc w1 = (bad, w2)" by fastforce
  obtain endpoints w3 where e: "tunnelEndpoints run rc w2 = (endpoints, w3)" by fastforce
  obtain ok w4 where l: "load (renderChainScript rc uid endpoints (cnAuthorityEntries env rc d)) w3 = (ok, w4)" by fastforce
  note p = ensureSetLoaded_apart [OF assms(2)] keeps_result [OF NFTSetCount_apart [OF assms(2)] n]
    keeps_result [OF verifySetSemantics_apart [OF assms(2)] v] keeps_result [OF tunnelEndpoints_apart [OF assms(2)] e]
  consider "int n < rg_MinEntries rc" "err = Some (SetTooSmall n)" "w' = w1"
    | "rg_MinEntries rc \<le> int n" "bad \<noteq> []" "err = Some (WrongSemantics bad)" "w' = w2"
    | "rg_MinEntries rc \<le> int n" "bad = []" "err = (if ok then None else Some ScriptFailed)" "w' = w4"
    using assms(1) by (auto simp: install_chain_def n v e l Let_def split: if_splits)
  then show ?thesis
  proof cases
    case 3
    then have "chain_loaded run load env rc uid d part (part w) ok w'"
      unfolding chain_loaded_def using n v e l p
      by (intro exI [of _ ?v] exI [of _ n] exI [of _ w1] exI [of _ w2] exI [of _ endpoints] exI [of _ w3]) simp
    with 3 show ?thesis by (cases ok) simp_all
  qed (use p in simp_all)
qed

lemma must_error:
  assumes "Some e \<noteq> x" and "\<And>v. fst (cont v) \<noteq> x"
  shows "fst (must run argv e cont w) \<noteq> x" and "fst (ensure_rule run fragment argv e cont w) \<noteq> x"
  using assms by (auto simp: must_def ensure_rule_def split: prod.splits)

lemma policy_error: "fst (applyPolicyRoutes run rc w) \<noteq> Some ScriptFailed"
proof -
  have "fst (ensure_rule run fragment argv ProhibitRuleFailed (Pair None) v) \<noteq> Some ScriptFailed" for fragment argv v
    by (rule must_error(2)) simp_all
  then show ?thesis unfolding applyPolicyRoutes_def Let_def by (intro must_error) auto
qed

lemma peer_error: "fst (openHKPeer run order rc w) \<noteq> Some ScriptFailed"
  by (auto simp: openHKPeer_def must_def split: prod.splits option.splits)

section \<open>Properties\<close>


text \<open>
  A host whose state is the last script that is neither of the access list nor of the mainland set; one
  entry in each set, and no address found inside.
\<close>

definition sample_host :: "string run" where
  "sample_host argv w =
     ((if take 2 argv = [''nft'', ''list''] then ''1.0.0.0'' else [], take 2 argv \<noteq> [''nft'', ''get'']), w)"

definition sample_load :: "string load" where
  "sample_load script w = (True, if last (butlast script) = CHR ''e'' then script else w)"

definition sample_routing :: routing_config where
  "sample_routing = (LoadRoutingConfig (LoadConfig calm ''/s'' [] Map.empty))\<lparr>rg_MinEntries := 1\<rparr>"

lemma last_line: "concat ws \<noteq> [] \<Longrightarrow> last (butlast (s @ line ws)) = last (concat ws)"
  by (simp add: line_def butlast_append)

lemma sample_host_apart: "apart sample_host sample_load (rg_Config sample_routing) id"
proof -
  have elements: "last (butlast (s @ add_elements table name elems)) = (if elems = [] then last (butlast s) else CHR ''}'')"
    for s table name elems
  proof (cases "chunks elems" rule: rev_cases)
    case Nil
    then show ?thesis by (cases elems) (simp_all add: add_elements_def)
  next
    case (snoc css cs)
    then have "elems \<noteq> []" by auto
    with snoc show ?thesis unfolding add_elements_def snoc map_append concat_append append_assoc [symmetric]
      by (simp add: last_line del: append_assoc)
  qed
  have "last (butlast (renderSetScript t ''direct4'' elems)) \<noteq> CHR ''e''" for t elems
    unfolding renderSetScript_def append_assoc [symmetric] elements by (simp add: last_line del: append_assoc)
  moreover have "pc_DirectSet (rg_Config sample_routing) = ''direct4''"
    by (simp add: sample_routing_def LoadRoutingConfig_def LoadConfig_def Let_def)
  moreover have "last (butlast script) = CHR ''p''" if "acl_Render a = Inr script" for a script
    using that unfolding acl_Render_def Let_def append_assoc [symmetric]
    by (auto simp: acl_rule_def last_line simp del: append_assoc split: prod.splits if_splits)
  ultimately show ?thesis by (auto simp: apart_def keeps_part_def sample_host_def sample_load_def)
qed


text \<open>What the guard of the tunnel and the test for a rule do not see.\<close>

lemma guard_second_network:
  "guardWireGuardConf calm sample_routing
    [rg_WGConf sample_routing \<mapsto> \<lparr>f_data = ''AllowedIPs = 10.0.0.0/8, 0.0.0.0/0'', f_mode = 384\<rparr>] = None"
  by code_simp

lemma rule_of_longer_table:
  "fst (ruleExists (\<lambda>_ w. ((''101: from all fwmark 0x1d5 lookup 1000'', True), w)) ''fwmark 0x1d5 lookup 100'' w)"
  by (simp add: ruleExists_def)

end
