(* ===== verification/Watchdog_Facts.thy ===== *)
theory Watchdog_Facts
  imports Watchdog File_Facts
begin

text \<open>
  The properties of the watchdog: it gives up after a bounded number of restarts that did not help, it
  restarts nothing while the tunnel is down, and a round that ends well starts the count anew.
\<close>

section \<open>A log of the commands\<close>

definition logged :: "'w run \<Rightarrow> ('w \<times> string list list) run" where
  "logged run argv = (\<lambda>(w, log). case run argv w of (r, w1) \<Rightarrow> (r, (w1, log @ [argv])))"

definition restarts :: "watchdog_config \<Rightarrow> string list list \<Rightarrow> nat" where
  "restarts wc log = length (filter (\<lambda>argv. argv = [''systemctl'', ''restart'', wc_Unit wc]) log)"

lemma restarts_simps [simp]:
  "restarts wc [] = 0"
  "restarts wc (log @ log') = restarts wc log + restarts wc log'"
  "restarts wc [[''systemctl'', ''restart'', wc_Unit wc]] = 1"
  "hd argv \<noteq> ''systemctl'' \<Longrightarrow> restarts wc [argv] = 0"
  by (auto simp: restarts_def)

text \<open>What changes the host and is no command is not logged.\<close>

definition unlogged :: "('w \<Rightarrow> 'w) \<Rightarrow> 'w \<times> string list list \<Rightarrow> 'w \<times> string list list" where
  "unlogged f = (\<lambda>(w, log). (f w, log))"

lemma Diagnose_logged:
  assumes "Diagnose (logged run) env wc d (w, log) = (h, (w', log'))"
  shows "restarts wc log' = restarts wc log" and "h_FailCount h = readFailCount env (failStatePath wc) d"
    and "\<not> h_Repaired h"
  using assms by (auto simp: Diagnose_def wd_snapshot_def logged_def restarts_def Let_def split: prod.splits)

lemma flush_logged:
  assumes "flushPoisonedCache (logged run) (unlogged flush) (w, log) = (w', log')"
  shows "restarts wc log' = restarts wc log"
  using assms
  by (auto simp: flushPoisonedCache_def logged_def unlogged_def restarts_def Let_def split: prod.splits if_splits)

section \<open>The count\<close>

definition count_file_ok :: "env \<Rightarrow> watchdog_config \<Rightarrow> bool" where
  "count_file_ok env wc \<longleftrightarrow> can_write env (failStatePath wc) \<and> \<not> en_read_fails env (failStatePath wc) \<and>
     wc_MaxRepairs wc < 2 ^ 63"

lemma readFailCount_written:
  assumes "can_write env p" and "\<not> en_read_fails env p" and "0 \<le> n" and "n < 2 ^ 63"
  shows "readFailCount env p (writeFailCount env p n d) = n"
proof -
  have w: "\<forall>c \<in> set (int_digits n). printable c" "int_digits n \<noteq> []" using int_digits_word [of n] assms(3,4) by auto
  have "Atoi (TrimSpace (int_digits n @ [CHR 0x0A])) = Some n"
    using Atoi_int_digits_any [of n] assms(3,4) TrimSpace_id [OF w(2)] w by simp
  then show ?thesis using can_write_done [OF assms(1)] assms(2,3) by (simp add: readFailCount_def writeFailCount_def ReadFile_def)
qed

lemma readFailCount_nonneg: "0 \<le> readFailCount env p d"
  by (simp add: readFailCount_def split: sum.split option.split)

definition ends_well :: "health \<times> check_error option \<Rightarrow> bool" where
  "ends_well result \<longleftrightarrow> h_OK (fst result) \<or> h_Repaired (fst result)"

text \<open>A round that does not end well restarts the unit at most once, and counts it.\<close>

lemma Check_counts:
  assumes "Check (logged run) (unlogged flush) env wc (d, (w, log)) = (result, (d', (w', log')))"
    and "\<not> ends_well result" and "count_file_ok env wc"
  defines "c \<equiv> readFailCount env (failStatePath wc) d" and "c' \<equiv> readFailCount env (failStatePath wc) d'"
  shows "restarts wc log' = restarts wc log \<and> c' = c \<or>
    restarts wc log' = Suc (restarts wc log) \<and> c' = c + 1 \<and> c < wc_MaxRepairs wc"
proof -
  let ?p = "failStatePath wc"
  obtain h w1 log1 where g: "Diagnose (logged run) env wc d (w, log) = (h, (w1, log1))" by (metis surj_pair)
  note g' = Diagnose_logged [OF g]
  obtain x ok w2 where r: "run [''systemctl'', ''restart'', wc_Unit wc] w1 = ((x, ok), w2)" by (metis surj_pair)
  let ?d1 = "writeFailCount env ?p (c + 1) d"
  obtain a w3 log3 where a: "Diagnose (logged run) env wc ?d1 (w2, log1 @ [[''systemctl'', ''restart'', wc_Unit wc]]) = (a, (w3, log3))"
    by (metis surj_pair)
  note a' = Diagnose_logged [OF a]
  have c1: "readFailCount env ?p ?d1 = c + 1" if "c < wc_MaxRepairs wc"
    using that assms(3) readFailCount_written [of env ?p "c + 1" d] readFailCount_nonneg [of env ?p d]
    by (simp add: count_file_ok_def c_def)
  have count: "h_FailCount h = c" using g'(2) by (simp add: c_def)
  have restart: "logged run [''systemctl'', ''restart'', wc_Unit wc] (w1, log1) =
      ((x, ok), (w2, log1 @ [[''systemctl'', ''restart'', wc_Unit wc]]))" by (simp add: logged_def r)
  have ok: "\<not> h_OK h" using assms(1,2)
    unfolding Check_def Let_def case_prod_conv g count ends_well_def by (cases "h_OK h"; cases "c = 0") auto
  have check: "(if \<not> h_TunnelUp h then ((h, None), d, (w1, log1))
      else if wc_MaxRepairs wc \<le> c then ((h, Some (GaveUp c)), d, (w1, log1))
      else if \<not> ok then ((h, Some RestartFailed), ?d1, (w2, log1 @ [[''systemctl'', ''restart'', wc_Unit wc]]))
      else if \<not> h_OK a then ((a, Some StillBroken), ?d1, (w3, log3))
      else ((h\<lparr>h_Repaired := True\<rparr>, None), writeFailCount env ?p 0 ?d1, flushPoisonedCache (logged run) (unlogged flush) (w3, log3)))
      = (result, (d', (w', log')))"
    using assms(1) ok unfolding Check_def Let_def case_prod_conv g count restart a by (simp only: if_False simp_thms)
  consider (quiet) "log' = log1" "d' = d"
    | (failed) "c < wc_MaxRepairs wc" "d' = ?d1" "log' = log1 @ [[''systemctl'', ''restart'', wc_Unit wc]]"
    | (broken) "c < wc_MaxRepairs wc" "d' = ?d1" "log' = log3"
    using check assms(2) unfolding ends_well_def by (simp only: split: if_splits) auto
  then show ?thesis using g'(1) a'(1) c1 by cases (auto simp: c_def c'_def)
qed

lemma wd_rounds_count:
  assumes "wd_rounds (logged run) (unlogged flush) env wc (map unlogged changes) (d, (w, log)) = (results, (d', (w', log')))"
    and "\<forall>result \<in> set results. \<not> ends_well result" and "count_file_ok env wc"
    and "readFailCount env (failStatePath wc) d \<le> wc_MaxRepairs wc"
  shows "int (restarts wc log') - int (restarts wc log) =
      readFailCount env (failStatePath wc) d' - readFailCount env (failStatePath wc) d \<and>
    readFailCount env (failStatePath wc) d' \<le> wc_MaxRepairs wc"
  using assms(1,2,4)
proof (induction changes arbitrary: d w log results)
  case (Cons change changes)
  obtain result d1 w1 log1 where one: "Check (logged run) (unlogged flush) env wc (d, (change w, log)) = (result, (d1, (w1, log1)))"
    by (metis surj_pair)
  obtain rs where rest: "wd_rounds (logged run) (unlogged flush) env wc (map unlogged changes) (d1, (w1, log1)) = (rs, (d', (w', log')))" "results = result # rs"
    using Cons.prems(1) unfolding list.map wd_rounds.simps unlogged_def [of change] case_prod_conv one Let_def
    by (cases "wd_rounds (logged run) (unlogged flush) env wc (map unlogged changes) (d1, (w1, log1))") simp
  have bad: "\<not> ends_well result" using Cons.prems(2) rest(2) by simp
  note step = Check_counts [OF one bad assms(3)]
  have "readFailCount env (failStatePath wc) d1 \<le> wc_MaxRepairs wc" using step Cons.prems(3) by auto
  from Cons.IH [OF rest(1) _ this] Cons.prems(2) rest(2) step show ?case by auto
qed simp

section \<open>A sample\<close>

text \<open>A host on which every command succeeds and prints nothing: the tunnel is up and everything else is missing.\<close>

definition bare_host :: "bool run" where
  "bare_host argv w = (([], True), w)"

definition sample_watchdog :: watchdog_config where
  "sample_watchdog = NewWatchdog (LoadConfig calm ''/s'' [] Map.empty)"

definition sample_rounds where
  "sample_rounds = wd_rounds (logged bare_host) (unlogged id) calm sample_watchdog (map unlogged (replicate 7 id)) (Map.empty, (False, []))"

lemma sample_rounds_results:
  "map snd (fst sample_rounds) = replicate 5 (Some StillBroken) @ [Some (GaveUp 5), Some (GaveUp 5)]"
  "list_all (\<lambda>r. \<not> ends_well r) (fst sample_rounds)"
  by code_simp+

lemma sample_count_file: "count_file_ok calm sample_watchdog"
  by (simp add: count_file_ok_def can_write_def calm_def Let_def sample_watchdog_def NewWatchdog_def DefaultMaxRepairs_def)

section \<open>Properties\<close>

text \<open>C35: Over any number of rounds that do not end well, whatever happens to the host between them, the routing
  unit is restarted at most as often as the limit allows, counted from the number the state file holds;
  and the file holds the number of restarts.\<close>

theorem Check_bounded:
  assumes "wd_rounds (logged run) (unlogged flush) env wc (map unlogged changes) (d, (w, [])) = (results, (d', (w', log')))"
    and "\<forall>result \<in> set results. \<not> ends_well result" and "count_file_ok env wc"
    and "readFailCount env (failStatePath wc) d \<le> wc_MaxRepairs wc"
  shows "int (restarts wc log') \<le> wc_MaxRepairs wc - readFailCount env (failStatePath wc) d \<and>
    readFailCount env (failStatePath wc) d' = readFailCount env (failStatePath wc) d + int (restarts wc log')"
  using wd_rounds_count [OF assms] by simp

theorem Check_bounded_witness:
  "int (restarts sample_watchdog (snd (snd (snd sample_rounds)))) \<le> 5"
proof -
  have run: "wd_rounds (logged bare_host) (unlogged id) calm sample_watchdog (map unlogged (replicate 7 id)) (Map.empty, (False, [])) =
      (fst sample_rounds, (fst (snd sample_rounds), (fst (snd (snd sample_rounds)), snd (snd (snd sample_rounds)))))"
    by (simp add: sample_rounds_def)
  have c: "readFailCount calm (failStatePath sample_watchdog) Map.empty = 0" "wc_MaxRepairs sample_watchdog = 5"
    by (simp_all add: readFailCount_def ReadFile_def sample_watchdog_def NewWatchdog_def DefaultMaxRepairs_def)
  have bad: "\<forall>result \<in> set (fst sample_rounds). \<not> ends_well result"
    using sample_rounds_results(2) by (simp add: list_all_iff)
  show ?thesis using Check_bounded [OF run bad sample_count_file] c by simp
qed

text \<open>A round restarts the routing unit exactly if it finds a problem, the tunnel is up and the limit is not
  reached; while the tunnel is down nothing is counted, and a round that ends well leaves a count of zero.\<close>

theorem Check_restarts:
  assumes "Check (logged run) (unlogged flush) env wc (d, (w, log)) = (result, (d', (w', log')))"
    and "Diagnose (logged run) env wc d (w, log) = (h, s)" and "count_file_ok env wc"
  shows "restarts wc log' = restarts wc log +
      (if \<not> h_OK h \<and> h_TunnelUp h \<and> readFailCount env (failStatePath wc) d < wc_MaxRepairs wc then 1 else 0) \<and>
    (\<not> h_OK h \<and> \<not> h_TunnelUp h \<longrightarrow> d' = d) \<and>
    (ends_well result \<longrightarrow> readFailCount env (failStatePath wc) d' = 0)"
proof -
  let ?p = "failStatePath wc" and ?c = "readFailCount env (failStatePath wc) d"
  obtain w1 log1 where s: "s = (w1, log1)" by (cases s)
  note g = assms(2) [unfolded s]
  note g' = Diagnose_logged [OF g]
  obtain x ok w2 where r: "run [''systemctl'', ''restart'', wc_Unit wc] w1 = ((x, ok), w2)" by (metis surj_pair)
  let ?d1 = "writeFailCount env ?p (?c + 1) d" and ?log2 = "log1 @ [[''systemctl'', ''restart'', wc_Unit wc]]"
  obtain a w3 log3 where a: "Diagnose (logged run) env wc ?d1 (w2, ?log2) = (a, (w3, log3))" by (metis surj_pair)
  note a' = Diagnose_logged [OF a]
  obtain w4 log4 where f: "flushPoisonedCache (logged run) (unlogged flush) (w3, log3) = (w4, log4)" by fastforce
  obtain w5 log5 where f0: "flushPoisonedCache (logged run) (unlogged flush) (w1, log1) = (w5, log5)" by fastforce
  note logs = flush_logged [OF f, of wc] flush_logged [OF f0, of wc] g'(1) a'(1)
  have zero: "readFailCount env ?p (writeFailCount env ?p 0 e) = 0" for e
    using readFailCount_written [of env ?p 0 e] assms(3) by (simp add: count_file_ok_def)
  have restart: "logged run [''systemctl'', ''restart'', wc_Unit wc] (w1, log1) = ((x, ok), (w2, ?log2))"
    by (simp add: logged_def r)
  have "(if h_OK h then (if ?c \<noteq> 0 then ((h, None), writeFailCount env ?p 0 d, (w5, log5)) else ((h, None), d, (w1, log1)))
      else if \<not> h_TunnelUp h then ((h, None), d, (w1, log1))
      else if wc_MaxRepairs wc \<le> ?c then ((h, Some (GaveUp ?c)), d, (w1, log1))
      else if \<not> ok then ((h, Some RestartFailed), ?d1, (w2, ?log2))
      else if \<not> h_OK a then ((a, Some StillBroken), ?d1, (w3, log3))
      else ((h\<lparr>h_Repaired := True\<rparr>, None), writeFailCount env ?p 0 ?d1, (w4, log4))) = (result, (d', (w', log')))"
    using assms(1) unfolding Check_def Let_def case_prod_conv g g'(2) restart a f f0 .
  then show ?thesis using logs zero g'(3) a'(3) unfolding ends_well_def
    by (simp only: split: if_splits) auto
qed

theorem Check_restarts_witness:
  "restarts sample_watchdog (snd (snd (snd (Check (logged bare_host) (unlogged id) calm sample_watchdog (Map.empty, (False, [])))))) = 1"
proof -
  let ?r = "Check (logged bare_host) (unlogged id) calm sample_watchdog (Map.empty, (False, []))"
  let ?g = "Diagnose (logged bare_host) calm sample_watchdog Map.empty (False, [])"
  have r: "?r = (fst ?r, (fst (snd ?r), (fst (snd (snd ?r)), snd (snd (snd ?r)))))" by simp
  have g: "?g = (fst ?g, snd ?g)" by simp
  have "\<not> h_OK (fst ?g) \<and> h_TunnelUp (fst ?g) \<and>
      readFailCount calm (failStatePath sample_watchdog) Map.empty < wc_MaxRepairs sample_watchdog" by code_simp
  then show ?thesis using Check_restarts [OF r g sample_count_file] by simp
qed

text \<open>With a count file that cannot be written the count stays what it was, and with it the permission to restart.\<close>

lemma unwritable_count:
  assumes "\<not> io_mkdir (en_io env (failStatePath wc))"
  shows "writeFailCount env (failStatePath wc) n d = d"
  using assms by (simp add: writeFailCount_def WriteAtomic_def Let_def)

end
