(* ===== verification/Spec2Isabelle.thy ===== *)
theory Spec2Isabelle
  imports Access_ACL Authority_Facts CDN CDN_Hit_Facts CDN_Rules_Facts CIDR_Util CN_Auth_Facts Chnroute_Facts Commit_Facts Config ECS_Build
    Geo_Audit_Facts Helper_Auth_Facts Infra MMDB_Facts MMDB_Format Nft_Facts Panel_Auth_Facts Pipeline_Facts Polluted_Facts Publishing
    Resolve Routing_Facts Ruleset_Facts Watchdog_Facts
begin

text \<open>
  A verification development for \<open>dns-stack\<close>, a recursive DNS service that answers from the mainland for mainland
  names and through a tunnel for the others. The Go sources are under \<open>src/internal\<close>; a path below is
  relative to that directory.

  \<^bold>\<open>How the program works.\<close> Rounds of steps (\<open>pipeline\<close>) refresh what the resolver and the packet filter use. A round
  reads the registry file and the address databases (\<open>geoip\<close>), forms the list of mainland networks
  (\<open>chnroute\<close>), compares it with several databases (\<open>geoaudit\<close>), reads the resolver's infrastructure cache
  (\<open>infra\<close>), and decides zone by zone which authorities are reached directly and which may see the
  client's subnet (\<open>ruleset\<close>, \<open>cnauth\<close>, with \<open>cdn\<close>, \<open>cdnrules\<close>, \<open>domain\<close>, \<open>ipset\<close> and \<open>cidrutil\<close>). The results go into a
  set of the packet filter and the resolver's configuration (\<open>pipeline/authority.go\<close>, \<open>metrics\<close>); the split
  routing is installed by \<open>pipeline/routing.go\<close> and watched by \<open>pipeline/watchdog.go\<close>. Tables of address blocks
  by province and carrier (\<open>ecszone\<close>) refine the subnets. Probes (\<open>dnswire\<close>, \<open>resolve\<close>, \<open>authority\<close>, \<open>cdnhit\<close>,
  \<open>polluted\<close>) observe what is answered. An operator edits lists (\<open>access\<close>, \<open>statefile\<close>, \<open>config\<close>) from a panel,
  whose sessions and passwords are \<open>panel/auth.go\<close>, \<open>panel/ops.go\<close> and, on the privileged side, \<open>helper/auth.go\<close>.

  \<^bold>\<open>What models what.\<close> A theory \<open>X\<close> holds the data and the operations, \<open>X_Facts\<close> their properties; definitions keep the
  names of the sources, with a prefix where a name is taken.
  \<^item> \<open>Prelude\<close>, \<open>Unicode_Case\<close>, \<open>Go_Strings\<close>, \<open>Netip\<close>, \<open>Bufio\<close>, \<open>Base64\<close>, \<open>Intervals\<close>: the integer types, what the
    sources use of Go's standard library, and the theory of intervals. The locale \<open>interval_algebra\<close> is the
    contract of a package that normalises and subtracts intervals.
  \<^item> \<open>CIDR_Util\<close> (\<open>cidrutil\<close>), \<open>IPSet\<close> and \<open>IPSet_Prefix\<close> (\<open>ipset\<close>): prefix lists over unbounded integers and over 32-bit
    words; both interpret \<open>interval_algebra\<close>. Shown: they compute the set operations in a canonical form, the
    32-bit one agrees with the unbounded one, and the global parts of a range are exactly its global addresses.
  \<^item> \<open>Domain\<close> (\<open>domain\<close>), \<open>CDN\<close> (\<open>cdn\<close>), \<open>CDN_Rules\<close> (\<open>cdnrules\<close>): names and public suffixes, the operators, and the
    rule set of the CDNs: longest match, construction and safe synchronisation.
  \<^item> \<open>DNS_Wire\<close>, \<open>DNS_Roundtrip\<close> (\<open>dnswire\<close>), \<open>Resolve\<close> (\<open>resolve\<close>): messages are read back as written, nothing outside the
    buffer is read, an answer belongs to its query.
  \<^item> \<open>Geo_Trie\<close>, \<open>MMDB\<close>, \<open>MMDB_Format\<close>, \<open>IPDB\<close> (\<open>geoip\<close>): both database readers are instances of the locale \<open>trie_reader\<close>,
    which proves once that walking the networks and looking up an address agree; the decoder inverts an
    encoder written after the format's description.
  \<^item> \<open>ECS_Zone\<close>, \<open>ECS_Build\<close> (\<open>ecszone\<close>), \<open>Publishing\<close> (\<open>ecszone/publish.go\<close>, \<open>metrics/publish.go\<close>): the table of a database, its
    text, and its publication, which is all or nothing.
  \<^item> \<open>Infra\<close>, \<open>Ruleset\<close>, \<open>Chnroute\<close>, \<open>Geo_Audit\<close>, \<open>Authority\<close>, \<open>CN_Auth\<close>, \<open>Polluted\<close>, \<open>CDN_Hit\<close>: one for each package of the name. Shown:
    which zones and addresses a round admits, independently of the order of Go's maps; which addresses the
    comparison disputes and promotes; what a mainland verdict means under every schedule; how long an entry
    is held over, and in which order the files of a round are written.
  \<^item> \<open>Access\<close>, \<open>Access_Facts\<close>, \<open>Access_ACL\<close>, \<open>File_Facts\<close>, \<open>Config\<close>: the lists, the atomic write behind every state file, and
    the settings file.
  \<^item> \<open>Pipeline\<close> (\<open>pipeline/pipeline.go\<close>): a step runs only on prerequisites that ran; failed steps are due again.
  \<^item> \<open>Nft\<close> (\<open>runtime.go\<close>, \<open>nft.go\<close>, \<open>acl.go\<close>), \<open>Watchdog\<close>, \<open>Routing\<close>, \<open>Commit\<close> (\<open>authority.go\<close>): the sizes of the sets are read off
    the listing, the restarts of the watchdog are bounded, the marking chain is loaded last and on a sound
    mainland set only, and a commit of the allowlist is accepted by the resolver or taken back.
  \<^item> \<open>Panel_Auth\<close>, \<open>Helper_Auth\<close>: sessions, the delay after failures, one-time codes, and the credentials: what a logout
    revokes, what an update from the panel reaches, what a new password renews.

  \<^bold>\<open>State and effects.\<close> A directory is a map from paths to files; each operation returns it updated. The record \<open>env\<close> says
  which system calls fail, so every error path is a branch. Errors are constructors of datatypes in place of
  the texts of the sources. Goroutines are explicit interleavings of steps (\<open>Authority\<close>, \<open>Panel_Auth\<close>). A map
  that is visited in Go's random order is a list whose order is an argument, and the theorems hold for each.

  \<^bold>\<open>Arguments of the model\<close>, for code that is not in the repository: the JSON reader and printer, SHA-256, HMAC and scrypt, the
  clock and the random bytes, the answers of the network, the commands of the system (\<open>run\<close>: from the words
  and the state of the host, what is printed, success, and the new state), the loading of a script by nft
  (\<open>load\<close>), the check of the resolver's configuration, the times of files, and the rounding of the few
  computations in floating point. Where a theorem relies on one of them, the hypothesis says so and a witness
  shows an instance.

  \<^bold>\<open>Bounds.\<close> The constants are those of the sources: \<open>maxDecodeDepth\<close> 64 for nested values, \<open>maxNamePointers\<close> for
  compressed names, lines of 64 KiB or 4 MiB for the scanners, 1000 elements for each nft command
  (\<open>nftChunk\<close>), 10 rounds of rule deletion, 5 repairs of the watchdog. Loops without such a bound have a
  termination proof: the walk of a database, for one, skips nodes below depth 32, and what is on its stack
  weighs less with each step. Fuel occurs where a block of an old allowlist is expanded: it has at least 28
  bits, hence at most 16 addresses, and 17 steps include the test after the last one.

  \<^bold>\<open>Not modelled\<close>: the command line and menus (\<open>cmd\<close>, \<open>opsctl\<close>), downloads, HTTP and SQL (\<open>alert\<close>, \<open>collect\<close>, the handlers of \<open>panel\<close>,
  \<open>geoip/online.go\<close>), archives (\<open>backup\<close>), checks of the host and its services (\<open>selfcheck\<close>, \<open>stack\<close>, the dispatch of \<open>helper\<close>),
  the wiring of the steps and upgrades (the rest of \<open>pipeline\<close>), \<open>anycast\<close>, and everywhere the texts that only inform:
  they hold no logic of their own beyond calls of the modelled packages and of the system.
\<close>

end
